(* ===== verification/Rust_Prelude.thy ===== *)
theory Rust_Prelude
  imports Main "HOL-Library.Word" "HOL-Library.Char_ord" "HOL-Library.List_Lexorder"
begin

section \<open>The vocabulary of the Rust standard library the sources use\<close>

text \<open>
  This theory holds what every component of the development shares.
  A Rust \<open>String\<close> or \<open>&str\<close> is a \<^typ>\<open>string\<close> that holds its UTF-8 bytes, one
  \<^typ>\<open>char\<close> per byte, so \<open>len()\<close> is \<^const>\<open>length\<close> and \<open>Ord\<close> on strings is the
  byte-wise lexicographic order of \<open>HOL-Library.List_Lexorder\<close>.
  A \<open>Result<A, E>\<close> is a value of the sum type with the error on the left; the
  question-mark operator is \<open>bindr\<close>, and collecting an iterator of results is
  \<open>mapr\<close>.
  The functions of \<open>str\<close> and of the integer types that the sources call
  (\<open>split_once\<close>, \<open>split\<close>, \<open>strip_prefix\<close>, \<open>ends_with\<close>, \<open>find\<close>, \<open>trim\<close>,
  \<open>from_str_radix\<close>, \<open>parse\<close>, the \<open>{:X}\<close> and \<open>{}\<close> formats) are defined here, with the
  facts about them that the component theories use.
\<close>

named_theorems result_simps \<open>unfolding the result combinators\<close>
named_theorems radix_simps \<open>printing and reading numerals\<close>

subsection \<open>Results\<close>

type_synonym ('e, 'a) result = "'e + 'a"

definition bindr :: "('e, 'a) result \<Rightarrow> ('a \<Rightarrow> ('e, 'b) result) \<Rightarrow> ('e, 'b) result" where
  "bindr r f = (case r of Inl e \<Rightarrow> Inl e | Inr a \<Rightarrow> f a)"

definition map_err :: "('e \<Rightarrow> 'f) \<Rightarrow> ('e, 'a) result \<Rightarrow> ('f, 'a) result" where
  "map_err h r = (case r of Inl e \<Rightarrow> Inl (h e) | Inr a \<Rightarrow> Inr a)"

definition ok :: "('e, 'a) result \<Rightarrow> 'a option" where
  "ok r = (case r of Inl _ \<Rightarrow> None | Inr a \<Rightarrow> Some a)"

definition ok_or :: "'e \<Rightarrow> 'a option \<Rightarrow> ('e, 'a) result" where
  "ok_or e x = (case x of None \<Rightarrow> Inl e | Some a \<Rightarrow> Inr a)"

fun mapr :: "('a \<Rightarrow> ('e, 'b) result) \<Rightarrow> 'a list \<Rightarrow> ('e, 'b list) result" where
  "mapr f [] = Inr []"
| "mapr f (x # xs) = bindr (f x) (\<lambda>y. bindr (mapr f xs) (\<lambda>ys. Inr (y # ys)))"

lemma bindr_simps [simp, result_simps]:
  "bindr (Inl e) f = Inl e"
  "bindr (Inr a) f = f a"
  by (simp_all add: bindr_def)

lemma map_err_simps [simp, result_simps]:
  "map_err h (Inl e) = Inl (h e)"
  "map_err h (Inr a) = Inr a"
  by (simp_all add: map_err_def)

lemma ok_simps [simp, result_simps]:
  "ok (Inl e) = None"
  "ok (Inr a) = Some a"
  by (simp_all add: ok_def)

lemma ok_or_simps [simp, result_simps]:
  "ok_or e None = Inl e"
  "ok_or e (Some a) = Inr a"
  by (simp_all add: ok_or_def)

lemma bindr_Inr_iff: "bindr r f = Inr b \<longleftrightarrow> (\<exists>a. r = Inr a \<and> f a = Inr b)"
  by (cases r) auto

lemma bindr_assoc: "bindr (bindr r f) g = bindr r (\<lambda>a. bindr (f a) g)"
  by (cases r) auto

lemma map_err_Inr_iff [simp]: "map_err h r = Inr a \<longleftrightarrow> r = Inr a"
  by (cases r) auto

lemma ok_Some_iff: "ok r = Some a \<longleftrightarrow> r = Inr a"
  by (cases r) auto

lemma mapr_Inr_length: "mapr f xs = Inr ys \<Longrightarrow> length ys = length xs"
  by (induction xs arbitrary: ys) (auto simp: bindr_Inr_iff)

lemma mapr_Inr_map: "(\<And>x. x \<in> set xs \<Longrightarrow> f x = Inr (g x)) \<Longrightarrow> mapr f xs = Inr (map g xs)"
  by (induction xs) auto

lemma mapr_Inr_iff: "mapr f xs = Inr ys \<longleftrightarrow> map f xs = map Inr ys"
  by (induction xs arbitrary: ys) (auto simp: bindr_Inr_iff)

subsection \<open>Lists and options\<close>

text \<open>\<open>Vec::retain\<close> and \<open>Iterator::filter\<close> are \<^const>\<open>filter\<close>; \<open>Vec::dedup\<close> removes
  consecutive repetitions.\<close>

fun dedup :: "'a list \<Rightarrow> 'a list" where
  "dedup (x # y # zs) = (if x = y then dedup (y # zs) else x # dedup (y # zs))"
| "dedup xs = xs"

lemma set_dedup [simp]: "set (dedup xs) = set xs"
  by (induction xs rule: dedup.induct) auto

lemma dedup_Cons_ne: "dedup (x # xs) \<noteq> []"
  by (induction xs arbitrary: x) auto

lemma sorted_distinct_dedup: "sorted xs \<Longrightarrow> sorted (dedup xs) \<and> distinct (dedup xs)"
  by (induction xs rule: dedup.induct) (auto simp: order.antisym)

definition is_none_or :: "('a \<Rightarrow> bool) \<Rightarrow> 'a option \<Rightarrow> bool" where
  "is_none_or p x = (case x of None \<Rightarrow> True | Some a \<Rightarrow> p a)"

definition is_some_and :: "('a \<Rightarrow> bool) \<Rightarrow> 'a option \<Rightarrow> bool" where
  "is_some_and p x = (case x of None \<Rightarrow> False | Some a \<Rightarrow> p a)"

definition unwrap_or :: "'a \<Rightarrow> 'a option \<Rightarrow> 'a" where
  "unwrap_or d x = (case x of None \<Rightarrow> d | Some a \<Rightarrow> a)"

definition or_else :: "'a option \<Rightarrow> 'a option \<Rightarrow> 'a option" where
  "or_else x y = (case x of None \<Rightarrow> y | Some a \<Rightarrow> Some a)"

lemma option_fn_simps [simp]:
  "is_none_or p None" "is_none_or p (Some a) = p a"
  "\<not> is_some_and p None" "is_some_and p (Some a) = p a"
  "unwrap_or d None = d" "unwrap_or d (Some a) = a"
  "or_else None y = y" "or_else (Some a) y = Some a"
  by (simp_all add: is_none_or_def is_some_and_def unwrap_or_def or_else_def)

subsection \<open>Characters\<close>

abbreviation asc :: "char \<Rightarrow> nat" where
  "asc c \<equiv> of_char c"

definition is_ascii_digit :: "char \<Rightarrow> bool" where
  "is_ascii_digit c \<longleftrightarrow> 48 \<le> asc c \<and> asc c \<le> 57"

definition is_ascii_uppercase :: "char \<Rightarrow> bool" where
  "is_ascii_uppercase c \<longleftrightarrow> 65 \<le> asc c \<and> asc c \<le> 90"

definition is_ascii_lowercase :: "char \<Rightarrow> bool" where
  "is_ascii_lowercase c \<longleftrightarrow> 97 \<le> asc c \<and> asc c \<le> 122"

definition is_ascii_alphabetic :: "char \<Rightarrow> bool" where
  "is_ascii_alphabetic c \<longleftrightarrow> is_ascii_uppercase c \<or> is_ascii_lowercase c"

definition is_ascii_alphanumeric :: "char \<Rightarrow> bool" where
  "is_ascii_alphanumeric c \<longleftrightarrow> is_ascii_alphabetic c \<or> is_ascii_digit c"

lemmas ascii_defs = is_ascii_digit_def is_ascii_uppercase_def is_ascii_lowercase_def
  is_ascii_alphabetic_def is_ascii_alphanumeric_def

definition to_ascii_uppercase :: "char \<Rightarrow> char" where
  "to_ascii_uppercase c = (if is_ascii_lowercase c then char_of (asc c - 32) else c)"

definition eq_ignore_ascii_case :: "string \<Rightarrow> string \<Rightarrow> bool" where
  "eq_ignore_ascii_case a b \<longleftrightarrow> map to_ascii_uppercase a = map to_ascii_uppercase b"

lemma eq_ignore_ascii_case_refl [simp]: "eq_ignore_ascii_case a a"
  by (simp add: eq_ignore_ascii_case_def)

subsection \<open>Functions of \<open>str\<close>\<close>

fun split_once :: "char \<Rightarrow> string \<Rightarrow> (string \<times> string) option" where
  "split_once c [] = None"
| "split_once c (x # xs) =
     (if x = c then Some ([], xs)
      else map_option (\<lambda>(a, b). (x # a, b)) (split_once c xs))"

lemma split_once_append: "c \<notin> set a \<Longrightarrow> split_once c (a @ c # b) = Some (a, b)"
  by (induction a) auto

lemma split_once_None_iff: "split_once c s = None \<longleftrightarrow> c \<notin> set s"
  by (induction s) auto

lemma split_once_Some_iff: "split_once c s = Some (a, b) \<longleftrightarrow> s = a @ c # b \<and> c \<notin> set a"
proof
  show "split_once c s = Some (a, b) \<Longrightarrow> s = a @ c # b \<and> c \<notin> set a"
    by (induction s arbitrary: a) (auto split: if_splits)
qed (auto simp: split_once_append)

fun strip_prefix :: "string \<Rightarrow> string \<Rightarrow> string option" where
  "strip_prefix [] s = Some s"
| "strip_prefix (p # ps) [] = None"
| "strip_prefix (p # ps) (x # xs) = (if p = x then strip_prefix ps xs else None)"

lemma strip_prefix_Some_iff: "strip_prefix p s = Some r \<longleftrightarrow> s = p @ r"
  by (induction p s rule: strip_prefix.induct) auto

lemma strip_prefix_shorter: "strip_prefix p s = Some r \<Longrightarrow> p \<noteq> [] \<Longrightarrow> length r < length s"
  by (auto simp: strip_prefix_Some_iff)

lemma strip_prefix_None_iff: "strip_prefix p s = None \<longleftrightarrow> (\<forall>r. s \<noteq> p @ r)"
  by (metis not_None_eq strip_prefix_Some_iff)

definition starts_with :: "string \<Rightarrow> string \<Rightarrow> bool" where
  "starts_with s p \<longleftrightarrow> strip_prefix p s \<noteq> None"

definition ends_with :: "string \<Rightarrow> string \<Rightarrow> bool" where
  "ends_with s p \<longleftrightarrow> strip_prefix (rev p) (rev s) \<noteq> None"

lemma starts_with_iff: "starts_with s p \<longleftrightarrow> (\<exists>r. s = p @ r)"
  by (auto simp: starts_with_def strip_prefix_Some_iff)

lemma ends_with_iff: "ends_with s p \<longleftrightarrow> (\<exists>r. s = r @ p)"
proof -
  have "(\<exists>r. rev s = rev p @ r) \<longleftrightarrow> (\<exists>r. s = r @ p)"
    by (metis rev_append rev_rev_ident)
  then show ?thesis by (auto simp: ends_with_def strip_prefix_Some_iff)
qed

text \<open>\<open>str::find\<close> with a string pattern, returning what follows the leftmost
  occurrence: \<open>&rest[at + literal.len()..]\<close>, and what precedes it.\<close>

fun find_split :: "string \<Rightarrow> string \<Rightarrow> (string \<times> string) option" where
  "find_split p [] = (if p = [] then Some ([], []) else None)"
| "find_split p (x # xs) =
     (case strip_prefix p (x # xs) of
        Some r \<Rightarrow> Some ([], r)
      | None \<Rightarrow> map_option (\<lambda>(a, b). (x # a, b)) (find_split p xs))"

lemma find_split_Some: "find_split p s = Some (a, b) \<Longrightarrow> s = a @ p @ b"
  by (induction s arbitrary: a) (auto simp: strip_prefix_Some_iff split: if_splits option.splits)

lemma find_split_leftmost:
  "s = u @ p @ v \<Longrightarrow> \<exists>a b. find_split p s = Some (a, b) \<and> length a \<le> length u"
proof (induction s arbitrary: u)
  case Nil
  then show ?case by simp
next
  case (Cons x xs)
  show ?case
  proof (cases "strip_prefix p (x # xs)")
    case (Some r)
    then show ?thesis by simp
  next
    case None
    with Cons.prems obtain u' where u': "u = x # u'" "xs = u' @ p @ v"
      by (cases u) (auto simp: strip_prefix_None_iff)
    from Cons.IH [OF u'(2)] obtain a b where "find_split p xs = Some (a, b)" "length a \<le> length u'"
      by blast
    with None u' show ?thesis by auto
  qed
qed

text \<open>\<open>str::split\<close> on a character, and on a non-empty string pattern.\<close>

fun split_char :: "char \<Rightarrow> string \<Rightarrow> string list" where
  "split_char c [] = [[]]"
| "split_char c (x # xs) =
     (if x = c then [] # split_char c xs
      else (case split_char c xs of [] \<Rightarrow> [[x]] | y # ys \<Rightarrow> (x # y) # ys))"

lemma split_char_ne [simp]: "split_char c s \<noteq> []"
  by (cases s) (auto split: list.splits)

lemma find_split_shorter: "find_split p s = Some (a, b) \<Longrightarrow> p \<noteq> [] \<Longrightarrow> length b < length s"
  by (drule find_split_Some) simp

function split_str :: "string \<Rightarrow> string \<Rightarrow> string list" where
  "split_str p s =
     (if p = [] then [s]
      else case find_split p s of None \<Rightarrow> [s] | Some (a, b) \<Rightarrow> a # split_str p b)"
  by pat_completeness auto
termination
  by (relation "measure (\<lambda>(p, s). length s)") (auto dest: find_split_shorter)

declare split_str.simps [simp del]

text \<open>\<open>str::trim\<close>: the characters of Unicode's \<open>White_Space\<close> property, as their UTF-8
  encodings.\<close>

definition whitespace :: "string list" where
  "whitespace = map (\<lambda>b. [char_of (b::nat)]) [9, 10, 11, 12, 13, 32]
     @ map (map char_of) ([[194, 133], [194, 160], [225, 154, 128]] :: nat list list)
     @ map (\<lambda>b. map char_of [226, 128, b :: nat]) ([128, 129, 130, 131, 132, 133, 134, 135, 136, 137, 138, 168, 169, 175])
     @ map (map char_of) ([[226, 129, 159], [227, 128, 128]] :: nat list list)"

definition strip_one :: "string list \<Rightarrow> string \<Rightarrow> string option" where
  "strip_one ws s = (case List.map_filter (\<lambda>w. strip_prefix w s) ws of [] \<Rightarrow> None | r # _ \<Rightarrow> Some r)"

lemma strip_one_Some: "strip_one ws s = Some r \<Longrightarrow> \<exists>w\<in>set ws. s = w @ r"
  by (induction ws) (auto simp: strip_one_def List.map_filter_def strip_prefix_Some_iff
      split: option.splits if_splits)

function strip_all :: "string list \<Rightarrow> string \<Rightarrow> string" where
  "strip_all ws s =
     (case strip_one ws s of None \<Rightarrow> s | Some r \<Rightarrow> if length r < length s then strip_all ws r else s)"
  by pat_completeness auto
termination
  by (relation "measure (\<lambda>(ws, s). length s)") auto

declare strip_all.simps [simp del]

definition trim_start :: "string \<Rightarrow> string" where
  "trim_start s = strip_all whitespace s"

definition trim_end :: "string \<Rightarrow> string" where
  "trim_end s = rev (strip_all (map rev whitespace) (rev s))"

definition trim :: "string \<Rightarrow> string" where
  "trim s = trim_end (trim_start s)"

text \<open>\<open>[String]::join\<close>, and \<open>str::replace\<close> with a non-empty pattern: every occurrence,
  leftmost first, without overlaps.\<close>

fun join :: "string \<Rightarrow> string list \<Rightarrow> string" where
  "join sep [] = []"
| "join sep [x] = x"
| "join sep (x # y # ys) = x @ sep @ join sep (y # ys)"

function replace_str :: "string \<Rightarrow> string \<Rightarrow> string \<Rightarrow> string" where
  "replace_str pat to [] = []"
| "replace_str pat to (c # cs) =
     (if pat = [] then c # cs
      else case strip_prefix pat (c # cs) of
        Some r \<Rightarrow> to @ replace_str pat to r
      | None \<Rightarrow> c # replace_str pat to cs)"
  by pat_completeness auto
termination
  by (relation "measure (\<lambda>(pat, to, s). length s)") (auto dest: strip_prefix_shorter)

text \<open>The characters of a string: a lead byte and its continuation bytes.\<close>

definition is_continuation :: "char \<Rightarrow> bool" where
  "is_continuation c \<longleftrightarrow> 128 \<le> asc c \<and> asc c < 192"

function utf8_chars :: "string \<Rightarrow> string list" where
  "utf8_chars [] = []"
| "utf8_chars (c # cs) = (c # takeWhile is_continuation cs) # utf8_chars (dropWhile is_continuation cs)"
  by pat_completeness auto
termination
  by (relation "measure length") (auto simp: le_imp_less_Suc length_dropWhile_le)

subsection \<open>Numerals\<close>

function radix_digits :: "nat \<Rightarrow> nat \<Rightarrow> nat list" where
  "radix_digits b n = (if b < 2 \<or> n < b then [n] else radix_digits b (n div b) @ [n mod b])"
  by pat_completeness auto
termination
  by (relation "measure (\<lambda>(b, n). n)") auto

declare radix_digits.simps [simp del]

definition radix_value :: "nat \<Rightarrow> nat list \<Rightarrow> nat" where
  "radix_value b ds = foldl (\<lambda>a d. a * b + d) 0 ds"

lemma radix_value_snoc [simp]: "radix_value b (ds @ [d]) = radix_value b ds * b + d"
  by (simp add: radix_value_def)

lemma radix_digits_ne [simp]: "radix_digits b n \<noteq> []"
  by (subst radix_digits.simps) simp

lemma radix_digits_less: "2 \<le> b \<Longrightarrow> d \<in> set (radix_digits b n) \<Longrightarrow> d < b"
proof (induction b n rule: radix_digits.induct)
  case (1 b n)
  then show ?case by (subst (asm) (2) radix_digits.simps) (auto split: if_splits)
qed

lemma radix_value_digits [radix_simps]: "2 \<le> b \<Longrightarrow> radix_value b (radix_digits b n) = n"
proof (induction b n rule: radix_digits.induct)
  case (1 b n)
  show ?case
  proof (cases "n < b")
    case True
    then show ?thesis by (simp add: radix_digits.simps [of b n] radix_value_def)
  next
    case False
    with 1 have "radix_value b (radix_digits b (n div b)) = n div b" by simp
    with False 1(2) show ?thesis by (simp add: radix_digits.simps [of b n])
  qed
qed

text \<open>The digit characters: \<open>{:X}\<close> prints upper case, \<open>from_str_radix(_, 16)\<close> reads both
  cases.\<close>

definition digit_char :: "nat \<Rightarrow> char" where
  "digit_char d = (if d < 10 then char_of (48 + d) else char_of (55 + d))"

definition to_digit :: "nat \<Rightarrow> char \<Rightarrow> nat option" where
  "to_digit radix c =
     (let d = (if is_ascii_digit c then asc c - 48
               else if is_ascii_uppercase c then asc c - 55
               else if is_ascii_lowercase c then asc c - 87
               else radix)
      in if d < radix then Some d else None)"

lemma asc_digit_char: "d < 36 \<Longrightarrow> asc (digit_char d) = (if d < 10 then 48 + d else 55 + d)"
  by (simp add: digit_char_def)

lemma to_digit_digit_char [radix_simps]: "d < b \<Longrightarrow> b \<le> 36 \<Longrightarrow> to_digit b (digit_char d) = Some d"
  by (auto simp: to_digit_def asc_digit_char ascii_defs)

definition show_radix :: "nat \<Rightarrow> nat \<Rightarrow> string" where
  "show_radix b n = map digit_char (radix_digits b n)"

fun read_digits :: "nat \<Rightarrow> string \<Rightarrow> nat list option" where
  "read_digits b [] = Some []"
| "read_digits b (c # cs) =
     (case to_digit b c of None \<Rightarrow> None
      | Some d \<Rightarrow> map_option (\<lambda>ds. d # ds) (read_digits b cs))"

lemma read_digits_map: "\<forall>d \<in> set ds. d < b \<Longrightarrow> b \<le> 36 \<Longrightarrow> read_digits b (map digit_char ds) = Some ds"
  by (induction ds) (auto simp: to_digit_digit_char)

lemma read_show_radix [radix_simps]:
  "2 \<le> b \<Longrightarrow> b \<le> 36 \<Longrightarrow> read_digits b (show_radix b n) = Some (radix_digits b n)"
  by (simp add: show_radix_def read_digits_map radix_digits_less)

lemma show_radix_ne [simp]: "show_radix b n \<noteq> []"
  by (simp add: show_radix_def)

text \<open>Unsigned \<open>from_str_radix\<close>: one optional leading plus sign, at least one digit, and a
  value the type can hold. A lone sign, or a minus sign, is an invalid digit.\<close>

definition parse_unsigned :: "nat \<Rightarrow> nat \<Rightarrow> string \<Rightarrow> nat option" where
  "parse_unsigned radix limit s =
     (let body = (case s of c # cs \<Rightarrow> if c = CHR ''+'' \<and> cs \<noteq> [] then cs else s | [] \<Rightarrow> s)
      in if body = [] then None
         else case read_digits radix body of
                None \<Rightarrow> None
              | Some ds \<Rightarrow> (let v = radix_value radix ds in if v < limit then Some v else None))"

text \<open>Signed \<open>parse::<iN>\<close>: an optional sign, at least one decimal digit, within bounds.\<close>

definition parse_signed :: "int \<Rightarrow> int \<Rightarrow> string \<Rightarrow> int option" where
  "parse_signed lo hi s =
     (let (neg, body) = (case s of
             c # cs \<Rightarrow> if c = CHR ''-'' \<and> cs \<noteq> [] then (True, cs)
                       else if c = CHR ''+'' \<and> cs \<noteq> [] then (False, cs) else (False, s)
           | [] \<Rightarrow> (False, s))
      in if body = [] then None
         else case read_digits 10 body of
                None \<Rightarrow> None
              | Some ds \<Rightarrow> (let v = (if neg then - int (radix_value 10 ds) else int (radix_value 10 ds))
                           in if lo \<le> v \<and> v \<le> hi then Some v else None))"

definition show_nat :: "nat \<Rightarrow> string" where
  "show_nat n = show_radix 10 n"

definition show_int :: "int \<Rightarrow> string" where
  "show_int i = (if i < 0 then CHR ''-'' # show_nat (nat (- i)) else show_nat (nat i))"

definition i64_min :: int where "i64_min = - (2 ^ 63)"
definition i64_max :: int where "i64_max = 2 ^ 63 - 1"

definition parse_i64 :: "string \<Rightarrow> int option" where
  "parse_i64 = parse_signed i64_min i64_max"

definition parse_i128 :: "string \<Rightarrow> int option" where
  "parse_i128 = parse_signed (- (2 ^ 127)) (2 ^ 127 - 1)"

lemma show_radix_not_sign:
  assumes "2 \<le> b" "b \<le> 36" "c \<in> set (show_radix b n)"
  shows "c \<noteq> CHR ''+''" "c \<noteq> CHR ''-''" "c \<noteq> CHR ''/''"
proof -
  from assms(3) obtain d where d: "d \<in> set (radix_digits b n)" "c = digit_char d"
    by (auto simp: show_radix_def)
  with radix_digits_less [OF assms(1) d(1)] assms(2) have "d < 36" by simp
  with d(2)
  have "asc c = (if d < 10 then 48 + d else 55 + d)" by (simp add: asc_digit_char)
  moreover have "asc (CHR ''+'') = 43" "asc (CHR ''-'') = 45" "asc (CHR ''/'') = 47" by simp_all
  ultimately show "c \<noteq> CHR ''+''" "c \<noteq> CHR ''-''" "c \<noteq> CHR ''/''"
    by (auto split: if_splits)
qed

lemma show_radix_hd:
  "2 \<le> b \<Longrightarrow> b \<le> 36 \<Longrightarrow> show_radix b n = c # cs \<Longrightarrow> c \<noteq> CHR ''+'' \<and> c \<noteq> CHR ''-''"
  using show_radix_not_sign [of b c n] by auto

lemma parse_unsigned_show [radix_simps]:
  assumes "2 \<le> b" "b \<le> 36"
  shows "parse_unsigned b limit (show_radix b n) = (if n < limit then Some n else None)"
proof (cases "show_radix b n")
  case (Cons c cs)
  with show_radix_hd [OF assms] have "c \<noteq> CHR ''+''" by blast
  with Cons assms show ?thesis
    using read_show_radix [OF assms, of n] radix_value_digits [OF assms(1), of n]
    by (simp add: parse_unsigned_def Let_def)
qed simp

lemma parse_signed_show [radix_simps]:
  "parse_signed lo hi (show_int i) = (if lo \<le> i \<and> i \<le> hi then Some i else None)"
proof -
  let ?s = "show_nat (nat \<bar>i\<bar>)"
  obtain c cs where s: "?s = c # cs" by (cases ?s) (auto simp: show_nat_def)
  then have c: "c \<noteq> CHR ''+'' \<and> c \<noteq> CHR ''-''"
    using show_radix_hd [of 10 "nat \<bar>i\<bar>"] by (auto simp: show_nat_def)
  have "read_digits 10 ?s = Some (radix_digits 10 (nat \<bar>i\<bar>))"
    by (simp add: show_nat_def read_show_radix)
  moreover have "radix_value 10 (radix_digits 10 (nat \<bar>i\<bar>)) = nat \<bar>i\<bar>"
    by (simp add: radix_value_digits)
  ultimately show ?thesis using s c
    by (cases "i < 0") (auto simp: parse_signed_def show_int_def Let_def)
qed

end
