(* ===== verification/Btree_Map.thy ===== *)
theory Btree_Map
  imports Rust_Prelude
begin

section \<open>Ordered maps\<close>

text \<open>
  A \<open>BTreeMap\<close>, which is what a JSON object is here (the workspace does not enable
  \<open>preserve_order\<close>), is the list of its entries in key order. The interface the components
  program against is the locale \<open>ordered_map\<close>: what a lookup returns after an insert or a
  removal, and that the order is kept. The client lemmas (bulk insertion, extensionality of
  lookups) are proved once there and reach the components through the interpretation \<open>bt\<close>.
\<close>

type_synonym ('k, 'v) btree_map = "('k \<times> 'v) list"

definition bt_wf :: "('k::linorder, 'v) btree_map \<Rightarrow> bool" where
  "bt_wf m \<longleftrightarrow> sorted_wrt (<) (map fst m)"

definition bt_get :: "('k, 'v) btree_map \<Rightarrow> 'k \<Rightarrow> 'v option" where
  "bt_get m k = map_of m k"

fun bt_insert :: "'k::linorder \<Rightarrow> 'v \<Rightarrow> ('k, 'v) btree_map \<Rightarrow> ('k, 'v) btree_map" where
  "bt_insert k v [] = [(k, v)]"
| "bt_insert k v ((a, b) # m) =
     (if k < a then (k, v) # (a, b) # m
      else if k = a then (k, v) # m
      else (a, b) # bt_insert k v m)"

definition bt_retain :: "('k \<Rightarrow> bool) \<Rightarrow> ('k, 'v) btree_map \<Rightarrow> ('k, 'v) btree_map" where
  "bt_retain p m = filter (\<lambda>(k, v). p k) m"

definition bt_remove :: "'k \<Rightarrow> ('k, 'v) btree_map \<Rightarrow> ('k, 'v) btree_map" where
  "bt_remove k m = bt_retain (\<lambda>k'. k' \<noteq> k) m"

definition bt_extend :: "('k::linorder, 'v) btree_map \<Rightarrow> ('k \<times> 'v) list \<Rightarrow> ('k, 'v) btree_map" where
  "bt_extend m kvs = fold (\<lambda>(k, v). bt_insert k v) kvs m"

text \<open>The interface.\<close>

locale ordered_map =
  fixes get :: "'m \<Rightarrow> 'k::linorder \<Rightarrow> 'v option"
    and ins :: "'k \<Rightarrow> 'v \<Rightarrow> 'm \<Rightarrow> 'm"
    and del :: "'k \<Rightarrow> 'm \<Rightarrow> 'm"
    and invar :: "'m \<Rightarrow> bool"
  assumes get_ins: "get (ins k v m) = (get m)(k \<mapsto> v)"
    and get_del: "get (del k m) = (get m)(k := None)"
    and invar_ins: "invar m \<Longrightarrow> invar (ins k v m)"
    and invar_del: "invar m \<Longrightarrow> invar (del k m)"
    and get_ext: "invar m \<Longrightarrow> invar n \<Longrightarrow> get m = get n \<Longrightarrow> m = n"
begin

definition ins_all :: "('k \<times> 'v) list \<Rightarrow> 'm \<Rightarrow> 'm" where
  "ins_all kvs m = fold (\<lambda>(k, v). ins k v) kvs m"

definition del_all :: "'k list \<Rightarrow> 'm \<Rightarrow> 'm" where
  "del_all ks m = fold del ks m"

lemma invar_ins_all: "invar m \<Longrightarrow> invar (ins_all kvs m)"
  unfolding ins_all_def by (induction kvs arbitrary: m) (auto simp: invar_ins)

lemma invar_del_all: "invar m \<Longrightarrow> invar (del_all ks m)"
  unfolding del_all_def by (induction ks arbitrary: m) (auto simp: invar_del)

lemma get_ins_all: "get (ins_all kvs m) = get m ++ map_of (rev kvs)"
  unfolding ins_all_def
  by (induction kvs arbitrary: m) (auto simp: get_ins map_add_def fun_eq_iff split: option.splits)

lemma get_del_all: "get (del_all ks m) = (\<lambda>k. if k \<in> set ks then None else get m k)"
  unfolding del_all_def
  by (induction ks arbitrary: m) (auto simp: get_del fun_eq_iff)

text \<open>Entries with distinct keys may be inserted in any order.\<close>

lemma ins_all_perm:
  assumes "invar m" "distinct (map fst kvs)" "distinct (map fst kvs')" "set kvs = set kvs'"
  shows "ins_all kvs m = ins_all kvs' m"
proof (rule get_ext)
  have "map_of (rev kvs) = map_of (rev kvs')"
    using assms map_of_inject_set [of "rev kvs" "rev kvs'"] by (simp add: rev_map [symmetric])
  then show "get (ins_all kvs m) = get (ins_all kvs' m)" by (simp add: get_ins_all)
qed (simp_all add: assms invar_ins_all)

lemma ins_same: "get m k = Some v \<Longrightarrow> invar m \<Longrightarrow> ins k v m = m"
  by (rule get_ext) (auto simp: get_ins invar_ins fun_eq_iff)

lemma del_absent: "get m k = None \<Longrightarrow> invar m \<Longrightarrow> del k m = m"
  by (rule get_ext) (auto simp: get_del invar_del fun_eq_iff)

end

subsection \<open>The entry list provides it\<close>

lemma bt_get_insert: "bt_get (bt_insert k v m) = (bt_get m)(k \<mapsto> v)"
  unfolding bt_get_def by (induction k v m rule: bt_insert.induct) auto

lemma bt_get_retain: "bt_get (bt_retain p m) k = (if p k then bt_get m k else None)"
  by (induction m) (auto simp: bt_get_def bt_retain_def)

lemma bt_get_remove: "bt_get (bt_remove k m) = (bt_get m)(k := None)"
  by (auto simp: bt_remove_def bt_get_retain fun_eq_iff)

lemma fst_bt_insert: "set (map fst (bt_insert k v m)) = insert k (set (map fst m))"
  by (induction k v m rule: bt_insert.induct) auto

lemma bt_wf_insert: "bt_wf m \<Longrightarrow> bt_wf (bt_insert k v m)"
proof (induction k v m rule: bt_insert.induct)
  case (2 k v a b m)
  then show ?case using fst_bt_insert [of k v m] by (auto simp: bt_wf_def)
qed (simp add: bt_wf_def)

lemma bt_wf_retain: "bt_wf m \<Longrightarrow> bt_wf (bt_retain p m)"
  by (induction m) (auto simp: bt_wf_def bt_retain_def)

lemma bt_wf_remove: "bt_wf m \<Longrightarrow> bt_wf (bt_remove k m)"
  by (simp add: bt_remove_def bt_wf_retain)

lemma bt_wf_Nil [simp]: "bt_wf []"
  by (simp add: bt_wf_def)

lemma bt_wf_distinct: "bt_wf m \<Longrightarrow> distinct (map fst m)"
  by (simp add: bt_wf_def strict_sorted_iff)

lemma bt_get_Some_iff: "bt_wf m \<Longrightarrow> bt_get m k = Some v \<longleftrightarrow> (k, v) \<in> set m"
  by (simp add: bt_get_def bt_wf_distinct)

lemma bt_get_None_iff: "bt_get m k = None \<longleftrightarrow> k \<notin> fst ` set m"
  by (simp add: bt_get_def map_of_eq_None_iff)

lemma bt_ext:
  assumes "bt_wf m" "bt_wf n" "bt_get m = bt_get n"
  shows "m = n"
proof -
  have eq: "set m = set n" using assms by (auto simp: bt_get_Some_iff [symmetric])
  have "inj_on fst (set m \<union> set n)"
    using bt_wf_distinct [OF assms(1)] by (simp add: eq distinct_map)
  then show ?thesis
    by (rule map_sorted_distinct_set_unique)
       (use assms eq in \<open>auto simp: bt_wf_def strict_sorted_iff\<close>)
qed

interpretation bt: ordered_map bt_get bt_insert bt_remove bt_wf
  by unfold_locales (auto simp: bt_get_insert bt_get_remove bt_wf_insert bt_wf_remove bt_ext)

lemma bt_extend_ins_all: "bt_extend m kvs = bt.ins_all kvs m"
  by (simp add: bt_extend_def bt.ins_all_def)

lemmas bt_simps [simp] = bt_get_insert bt_get_retain bt_get_remove

lemmas bt_wfs [intro] = bt_wf_insert bt_wf_retain bt_wf_remove

end
