(* ===== verification/Rust_F64.thy ===== *)
theory Rust_F64
  imports Rust_Prelude
begin

section \<open>Orderings and double-precision numbers\<close>

text \<open>
  \<open>std::cmp::Ordering\<close> and the part of \<open>f64\<close> the row filter computes with: conversion from
  integers (\<open>as f64\<close>), \<open>str::parse::<f64>\<close>, \<open>partial_cmp\<close> and \<open>is_finite\<close>.
  A finite double is an integral multiple of \<open>2^-1074\<close>, the smallest subnormal, so it is
  represented by that multiple; the sign of a zero, which no comparison observes, is not
  represented. Rounding is to nearest, ties to even, on a 53-bit significand.
\<close>

datatype ordering = Less | Equal | Greater

definition cmp :: "'a::linorder \<Rightarrow> 'a \<Rightarrow> ordering" where
  "cmp a b = (if a < b then Less else if a = b then Equal else Greater)"

lemma cmp_iff [simp]:
  "cmp a b = Less \<longleftrightarrow> a < b"
  "cmp a b = Equal \<longleftrightarrow> a = b"
  "cmp a b = Greater \<longleftrightarrow> b < a"
  by (auto simp: cmp_def)

datatype f64 = F64_NaN | F64_NegInf | F64_Fin int | F64_PosInf

definition f64_unit_exp :: nat where "f64_unit_exp = 1074"

fun bit_len :: "nat \<Rightarrow> nat" where
  "bit_len n = (if n = 0 then 0 else Suc (bit_len (n div 2)))"

declare bit_len.simps [simp del]

definition round_half_even :: "nat \<Rightarrow> nat \<Rightarrow> nat" where
  "round_half_even a b =
     (let q = a div b; r = a mod b
      in if 2 * r < b then q else if b < 2 * r then q + 1 else if even q then q else q + 1)"

text \<open>The double nearest to the non-negative fraction \<open>n / d\<close>, in units of \<open>2^-1074\<close>.\<close>

definition round_units :: "nat \<Rightarrow> nat \<Rightarrow> nat" where
  "round_units n d =
     (let a = n * 2 ^ f64_unit_exp; shift = bit_len (a div d) - 53
      in round_half_even a (d * 2 ^ shift) * 2 ^ shift)"

definition f64_of_ratio :: "bool \<Rightarrow> nat \<Rightarrow> nat \<Rightarrow> f64" where
  "f64_of_ratio neg n d =
     (let k = round_units n d
      in if 2 ^ (1024 + f64_unit_exp) \<le> k then (if neg then F64_NegInf else F64_PosInf)
         else F64_Fin (if neg then - int k else int k))"

definition f64_of_int :: "int \<Rightarrow> f64" where
  "f64_of_int i = f64_of_ratio (i < 0) (nat \<bar>i\<bar>) 1"

fun f64_partial_cmp :: "f64 \<Rightarrow> f64 \<Rightarrow> ordering option" where
  "f64_partial_cmp F64_NaN _ = None"
| "f64_partial_cmp _ F64_NaN = None"
| "f64_partial_cmp (F64_Fin a) (F64_Fin b) = Some (cmp a b)"
| "f64_partial_cmp F64_NegInf F64_NegInf = Some Equal"
| "f64_partial_cmp F64_PosInf F64_PosInf = Some Equal"
| "f64_partial_cmp F64_NegInf _ = Some Less"
| "f64_partial_cmp _ F64_PosInf = Some Less"
| "f64_partial_cmp F64_PosInf _ = Some Greater"
| "f64_partial_cmp _ F64_NegInf = Some Greater"

fun f64_is_finite :: "f64 \<Rightarrow> bool" where
  "f64_is_finite (F64_Fin _) = True"
| "f64_is_finite _ = False"

text \<open>\<open>f64::from_str\<close>: an optional sign, then \<open>inf\<close>, \<open>infinity\<close> or \<open>nan\<close> in any case, or
  digits with an optional fraction and an optional decimal exponent.\<close>

definition span_digits :: "string \<Rightarrow> string \<times> string" where
  "span_digits s = (takeWhile is_ascii_digit s, dropWhile is_ascii_digit s)"

definition take_sign :: "string \<Rightarrow> bool \<times> string" where
  "take_sign s = (case s of
       c # cs \<Rightarrow> if c = CHR ''-'' then (True, cs) else if c = CHR ''+'' then (False, cs) else (False, s)
     | [] \<Rightarrow> (False, s))"

definition digits_value :: "string \<Rightarrow> nat" where
  "digits_value ds = radix_value 10 (map (\<lambda>c. asc c - 48) ds)"

definition parse_exponent :: "string \<Rightarrow> int option" where
  "parse_exponent s = (case s of
       [] \<Rightarrow> Some 0
     | c # cs \<Rightarrow>
        if c = CHR ''e'' \<or> c = CHR ''E'' then
          (let (neg, ds) = take_sign cs
           in if ds \<noteq> [] \<and> list_all is_ascii_digit ds
              then Some (if neg then - int (digits_value ds) else int (digits_value ds)) else None)
        else None)"

definition parse_f64 :: "string \<Rightarrow> f64 option" where
  "parse_f64 s =
     (let (neg, body) = take_sign s
      in if eq_ignore_ascii_case body ''inf'' \<or> eq_ignore_ascii_case body ''infinity''
         then Some (if neg then F64_NegInf else F64_PosInf)
         else if eq_ignore_ascii_case body ''nan'' then Some F64_NaN
         else
           (let (whole, rest) = span_digits body;
                (frac, tail) = (case rest of
                    c # cs \<Rightarrow> if c = CHR ''.'' then span_digits cs else ([], rest)
                  | [] \<Rightarrow> ([], []))
            in if whole = [] \<and> frac = [] then None
               else case parse_exponent tail of
                 None \<Rightarrow> None
               | Some e \<Rightarrow>
                   (let p = e - int (length frac); n = digits_value (whole @ frac)
                    in Some (f64_of_ratio neg (n * 10 ^ nat p) (10 ^ nat (- p))))))"

subsection \<open>Facts\<close>

lemma f64_partial_cmp_swap:
  "f64_partial_cmp a b = Some Less \<longleftrightarrow> f64_partial_cmp b a = Some Greater"
  "f64_partial_cmp a b = Some Equal \<longleftrightarrow> f64_partial_cmp b a = Some Equal"
  by (cases a; cases b; auto)+

lemma f64_partial_cmp_total: "a \<noteq> F64_NaN \<Longrightarrow> b \<noteq> F64_NaN \<Longrightarrow> f64_partial_cmp a b \<noteq> None"
  by (cases a; cases b; simp)

lemma bit_len_le: "n < 2 ^ k \<Longrightarrow> bit_len n \<le> k"
proof (induction k arbitrary: n)
  case 0
  then show ?case by (simp add: bit_len.simps)
next
  case (Suc k)
  then have "n div 2 < 2 ^ k" by auto
  with Suc.IH have "bit_len (n div 2) \<le> k" by blast
  then show ?case by (subst bit_len.simps) simp
qed

lemma round_half_even_exact: "0 < b \<Longrightarrow> round_half_even (m * b) b = m"
  by (simp add: round_half_even_def)

text \<open>An integer of at most 53 bits is represented exactly.\<close>

lemma f64_of_int_exact:
  assumes "\<bar>i\<bar> < 2 ^ 53"
  shows "f64_of_int i = F64_Fin (i * 2 ^ f64_unit_exp)"
proof -
  define n where "n = nat \<bar>i\<bar>"
  have n: "n < 2 ^ 53" using assms by (simp add: n_def nat_less_iff)
  define sh where "sh = bit_len (n * 2 ^ f64_unit_exp) - 53"
  have "n * 2 ^ f64_unit_exp < 2 ^ 53 * 2 ^ f64_unit_exp" using n by simp
  then have "n * 2 ^ f64_unit_exp < 2 ^ (53 + f64_unit_exp)" by (simp only: power_add)
  then have "bit_len (n * 2 ^ f64_unit_exp) \<le> 53 + f64_unit_exp" by (rule bit_len_le)
  then have "sh \<le> f64_unit_exp" by (simp add: sh_def)
  then have split: "(2::nat) ^ f64_unit_exp = 2 ^ (f64_unit_exp - sh) * 2 ^ sh"
    by (simp flip: power_add)
  have "round_units n 1 = round_half_even (n * 2 ^ f64_unit_exp) (2 ^ sh) * 2 ^ sh"
    by (simp add: round_units_def Let_def sh_def)
  also have "\<dots> = n * 2 ^ (f64_unit_exp - sh) * 2 ^ sh"
    using round_half_even_exact [of "2 ^ sh" "n * 2 ^ (f64_unit_exp - sh)"]
    by (simp add: split mult.assoc)
  also have "\<dots> = n * 2 ^ f64_unit_exp" by (simp only: split mult.assoc)
  finally have k: "round_units n 1 = n * 2 ^ f64_unit_exp" .
  have "n * 2 ^ f64_unit_exp < 2 ^ 1024 * 2 ^ f64_unit_exp"
    by (rule mult_strict_right_mono) (use n in \<open>auto intro: order.strict_trans\<close>)
  then have "\<not> 2 ^ (1024 + f64_unit_exp) \<le> round_units n 1" by (simp only: k power_add not_le)
  then have "f64_of_int i = F64_Fin (if i < 0 then - int (n * 2 ^ f64_unit_exp) else int (n * 2 ^ f64_unit_exp))"
    by (simp add: f64_of_int_def f64_of_ratio_def Let_def n_def [symmetric] k del: One_nat_def)
  then show ?thesis by (auto simp: n_def)
qed

lemma f64_of_int_cmp:
  "\<bar>i\<bar> < 2 ^ 53 \<Longrightarrow> \<bar>j\<bar> < 2 ^ 53 \<Longrightarrow>
     f64_partial_cmp (f64_of_int i) (f64_of_int j) = Some (cmp i j)"
  by (simp add: f64_of_int_exact cmp_def)

end
