(* ===== verification/Json_Value.thy ===== *)
theory Json_Value
  imports Btree_Map Rust_F64
begin

section \<open>JSON documents and the third-party functions the sources call\<close>

text \<open>
  The vocabulary of \<open>serde_json\<close>: a \<open>Number\<close> is an integer of the \<open>i64\<close> or \<open>u64\<close> range or a
  finite double, a \<open>Value\<close> one of the six constructors, an object an ordered map.
  What the crates compute with third-party code (the text form of a value, SHA-256, dates)
  is not modelled but is a parameter: the record \<open>externs\<close> is an argument of every definition
  that uses one of them.
\<close>

datatype number = NInt int | NFloat f64

datatype json =
    JNull
  | JBool bool
  | JNumber number
  | JString string
  | JArray "json list"
  | JObject "(string \<times> json) list"

type_synonym json_map = "(string, json) btree_map"

fun as_i64 :: "number \<Rightarrow> int option" where
  "as_i64 (NInt i) = (if i64_min \<le> i \<and> i \<le> i64_max then Some i else None)"
| "as_i64 (NFloat _) = None"

fun as_u64 :: "number \<Rightarrow> int option" where
  "as_u64 (NInt i) = (if 0 \<le> i \<and> i < 2 ^ 64 then Some i else None)"
| "as_u64 (NFloat _) = None"

fun as_f64 :: "number \<Rightarrow> f64 option" where
  "as_f64 (NInt i) = Some (f64_of_int i)"
| "as_f64 (NFloat f) = Some f"

fun as_object :: "json \<Rightarrow> json_map option" where
  "as_object (JObject m) = Some m"
| "as_object _ = None"

fun as_array :: "json \<Rightarrow> json list option" where
  "as_array (JArray xs) = Some xs"
| "as_array _ = None"

fun as_str :: "json \<Rightarrow> string option" where
  "as_str (JString s) = Some s"
| "as_str _ = None"

fun as_bool :: "json \<Rightarrow> bool option" where
  "as_bool (JBool b) = Some b"
| "as_bool _ = None"

fun json_as_u64 :: "json \<Rightarrow> int option" where
  "json_as_u64 (JNumber n) = as_u64 n"
| "json_as_u64 _ = None"

definition is_null :: "json \<Rightarrow> bool" where
  "is_null v \<longleftrightarrow> v = JNull"

definition is_object :: "json \<Rightarrow> bool" where
  "is_object v \<longleftrightarrow> as_object v \<noteq> None"

text \<open>\<open>Value::get\<close> on a key, and indexing \<open>v["k"]\<close>, which answers null where there is no
  such field.\<close>

definition json_get :: "json \<Rightarrow> string \<Rightarrow> json option" where
  "json_get v k = (case as_object v of None \<Rightarrow> None | Some m \<Rightarrow> bt_get m k)"

definition json_index :: "json \<Rightarrow> string \<Rightarrow> json" where
  "json_index v k = unwrap_or JNull (json_get v k)"

definition json_obj :: "(string \<times> json) list \<Rightarrow> json" where
  "json_obj kvs = JObject (bt_extend [] kvs)"

text \<open>Well-formed values: numbers in range, every object ordered.\<close>

fun number_wf :: "number \<Rightarrow> bool" where
  "number_wf (NInt i) \<longleftrightarrow> i64_min \<le> i \<and> i < 2 ^ 64"
| "number_wf (NFloat f) \<longleftrightarrow> f64_is_finite f"

fun json_wf :: "json \<Rightarrow> bool" where
  "json_wf (JNumber n) = number_wf n"
| "json_wf (JArray xs) = (\<forall>x \<in> set xs. json_wf x)"
| "json_wf (JObject m) = (bt_wf m \<and> (\<forall>kv \<in> set m. json_wf (snd kv)))"
| "json_wf _ = True"

record externs =
  value_to_string :: "json \<Rightarrow> string"
  value_from_str :: "string \<Rightarrow> json option"
  sha256 :: "string \<Rightarrow> string"
  datetime_rfc3339 :: "string \<Rightarrow> string \<Rightarrow> string option"
  naive_datetime_iso :: "string \<Rightarrow> string \<Rightarrow> string option"
  naive_date_iso :: "string \<Rightarrow> string \<Rightarrow> string option"
  siv_encrypt :: "string \<Rightarrow> string \<Rightarrow> string \<Rightarrow> string option"
  base64_url :: "string \<Rightarrow> string"

text \<open>One concrete choice of the parameters, for evaluating the definitions: the text of a
  number, string, boolean or null is its JSON text without escapes, arrays and objects print
  their fields, hashes and ciphertexts are fixed texts and no date parses.\<close>

fun plain_text :: "json \<Rightarrow> string" where
  "plain_text JNull = ''null''"
| "plain_text (JBool b) = (if b then ''true'' else ''false'')"
| "plain_text (JNumber (NInt i)) = show_int i"
| "plain_text (JNumber (NFloat f)) = ''0.5''"
| "plain_text (JString s) = [CHR 0x22] @ s @ [CHR 0x22]"
| "plain_text (JArray xs) = ''['' @ join '','' (map plain_text xs) @ '']''"
| "plain_text (JObject m) = ''{'' @ join '','' (map (\<lambda>(k, v). [CHR 0x22] @ k @ [CHR 0x22] @ '':'' @ plain_text v) m) @ ''}''"

definition sample_externs :: externs where
  "sample_externs = \<lparr>value_to_string = plain_text, value_from_str = (\<lambda>_. None), sha256 = (\<lambda>_. replicate 32 (CHR ''a'')),
     datetime_rfc3339 = (\<lambda>_ _. None), naive_datetime_iso = (\<lambda>_ _. None), naive_date_iso = (\<lambda>_ _. None),
     siv_encrypt = (\<lambda>k scope p. Some (scope @ ''#'')), base64_url = (\<lambda>s. s)\<rparr>"

subsection \<open>Facts\<close>

lemma is_null_simps [simp]:
  "is_null JNull" "\<not> is_null (JBool b)" "\<not> is_null (JNumber n)" "\<not> is_null (JString s)"
  "\<not> is_null (JArray xs)" "\<not> is_null (JObject m)"
  by (simp_all add: is_null_def)

lemma as_object_Some_iff [simp]: "as_object v = Some m \<longleftrightarrow> v = JObject m"
  by (cases v) auto

lemma as_object_None_iff: "as_object v = None \<longleftrightarrow> (\<forall>m. v \<noteq> JObject m)"
  by (cases v) auto

lemma is_object_simps [simp]: "is_object (JObject m)" "is_object v \<longleftrightarrow> (\<exists>m. v = JObject m)"
  by (auto simp: is_object_def)

lemma json_get_JObject [simp]: "json_get (JObject m) k = bt_get m k"
  by (simp add: json_get_def)

lemma json_index_JObject [simp]: "json_index (JObject m) k = unwrap_or JNull (bt_get m k)"
  by (simp add: json_index_def)

lemma bt_wf_extend [intro]: "bt_wf m \<Longrightarrow> bt_wf (bt_extend m kvs)"
  by (simp add: bt_extend_ins_all bt.invar_ins_all)

lemma bt_get_extend: "bt_get (bt_extend m kvs) = bt_get m ++ map_of (rev kvs)"
  by (simp add: bt_extend_ins_all bt.get_ins_all)

lemma json_wf_object_get: "json_wf (JObject m) \<Longrightarrow> bt_get m k = Some v \<Longrightarrow> json_wf v"
  by (force simp: bt_get_Some_iff)

lemma set_bt_insert: "set (bt_insert k v m) \<subseteq> insert (k, v) (set m)"
  by (induction k v m rule: bt_insert.induct) auto

lemma json_wf_insert: "json_wf (JObject m) \<Longrightarrow> json_wf v \<Longrightarrow> json_wf (JObject (bt_insert k v m))"
  using set_bt_insert [of k v m] by (auto simp: bt_wf_insert)

lemma json_wf_retain: "json_wf (JObject m) \<Longrightarrow> json_wf (JObject (bt_retain p m))"
  using bt_wf_retain [of m p] by (auto simp: bt_retain_def)

lemma json_wf_remove: "json_wf (JObject m) \<Longrightarrow> json_wf (JObject (bt_remove k m))"
  by (simp add: bt_remove_def json_wf_retain del: json_wf.simps)

lemma json_wf_extend:
  "json_wf (JObject m) \<Longrightarrow> (\<forall>kv \<in> set kvs. json_wf (snd kv)) \<Longrightarrow> json_wf (JObject (bt_extend m kvs))"
proof (induction kvs arbitrary: m)
  case (Cons kv kvs)
  then have "json_wf (JObject (bt_insert (fst kv) (snd kv) m))" by (intro json_wf_insert) auto
  from Cons.IH [OF this] Cons.prems(2) show ?case by (cases kv) (simp add: bt_extend_def)
qed (simp add: bt_extend_def)

end
