(* ===== verification/Lsn_Position.thy ===== *)
theory Lsn_Position
  imports Rust_Prelude
begin

unbundle bit_operations_syntax

section \<open>Log sequence numbers and checkpoints (\<open>crates/core/src/lsn.rs\<close>, \<open>checkpoint.rs\<close>)\<close>

text \<open>
  \<open>Lsn\<close> is the newtype over \<open>u64\<close> with its derived order, \<open>lsn_from_str\<close> and \<open>lsn_display\<close>
  its \<open>FromStr\<close> and \<open>Display\<close>. The checkpoint types are the records of \<open>checkpoint.rs\<close>.
\<close>

datatype lsn = Lsn (lsn_val: "64 word")

instantiation lsn :: linorder
begin

definition less_eq_lsn :: "lsn \<Rightarrow> lsn \<Rightarrow> bool" where
  "less_eq_lsn a b \<longleftrightarrow> lsn_val a \<le> lsn_val b"

definition less_lsn :: "lsn \<Rightarrow> lsn \<Rightarrow> bool" where
  "less_lsn a b \<longleftrightarrow> lsn_val a < lsn_val b"

instance
  by standard (auto simp: less_eq_lsn_def less_lsn_def lsn.expand)

end

lemma lsn_order_simps [simp]:
  "Lsn a \<le> Lsn b \<longleftrightarrow> a \<le> b"
  "Lsn a < Lsn b \<longleftrightarrow> a < b"
  by (simp_all add: less_eq_lsn_def less_lsn_def)

datatype invalid_lsn = InvalidLsn string

definition u64_from_hex :: "string \<Rightarrow> 64 word option" where
  "u64_from_hex s = map_option of_nat (parse_unsigned 16 (2 ^ 64) s)"

definition lsn_from_str :: "string \<Rightarrow> (invalid_lsn, lsn) result" where
  "lsn_from_str s =
     bindr (ok_or (InvalidLsn s) (split_once (CHR ''/'') s)) (\<lambda>(hi, lo).
     bindr (ok_or (InvalidLsn s) (u64_from_hex hi)) (\<lambda>hi.
     bindr (ok_or (InvalidLsn s) (u64_from_hex lo)) (\<lambda>lo.
       Inr (Lsn (push_bit 32 hi OR lo)))))"

definition lsn_display :: "lsn \<Rightarrow> string" where
  "lsn_display l =
     show_radix 16 (unat (drop_bit 32 (lsn_val l))) @ ''/'' @
     show_radix 16 (unat (lsn_val l AND 0xFFFFFFFF))"

record stream_id =
  source :: string
  stream :: string
  publication :: string

record checkpoint =
  ckpt_stream :: stream_id
  ckpt_token :: "64 word"
  ckpt_position :: string

definition SOURCE_POSTGRES :: string where "SOURCE_POSTGRES = ''postgres''"
definition SOURCE_MYSQL :: string where "SOURCE_MYSQL = ''mysql''"

subsection \<open>Facts\<close>

lemma u64_from_hex_show [radix_simps]: "u64_from_hex (show_radix 16 (unat (w :: 64 word))) = Some w"
  using unsigned_less [of w, where ?'a = nat] by (simp add: u64_from_hex_def parse_unsigned_show)

lemma slash_notin_hex: "CHR ''/'' \<notin> set (show_radix 16 n)"
  using show_radix_not_sign(3) [of 16 _ n] by fastforce

lemma lsn_halves: "push_bit 32 (drop_bit 32 w) OR (w AND 0xFFFFFFFF) = (w :: 64 word)"
proof -
  have m: "(0xFFFFFFFF :: 64 word) = mask 32" by (simp add: mask_eq_exp_minus_1)
  show ?thesis by (rule bit_word_eqI) (auto simp: m bit_simps)
qed

text \<open>Every log sequence number the pipeline prints reads back as itself.\<close>

theorem lsn_roundtrip: "lsn_from_str (lsn_display l) = Inr l"
  by (simp add: lsn_from_str_def lsn_display_def split_once_append slash_notin_hex
      u64_from_hex_show lsn_halves)

end
