(* ===== verification/Sink_Types.thy ===== *)
theory Sink_Types
  imports Json_Value Lsn_Position
begin

section \<open>Change events and sink operations (\<open>crates/core/src/event.rs\<close>, \<open>sink.rs\<close>, \<open>error.rs\<close>)\<close>

text \<open>
  The event vocabulary the sources produce and the operation vocabulary the sinks consume,
  with the accessors \<open>RowChange::pk\<close> and \<open>RowChange::doc_mut\<close>, the acknowledgement type and
  the index-name glob of \<open>sink.rs\<close>. The glob matcher, which consumes each literal at its
  leftmost occurrence, is proved equal to the textbook definition of a wildcard.
\<close>

type_synonym u64 = "64 word"
type_synonym table = "string \<times> string"

datatype core_error =
    SourceError string
  | SinkError string
  | SinkTransient string
  | InvalidLsnError invalid_lsn
  | OtherError string

datatype transaction_boundary = Begin lsn | Commit lsn int

datatype row_kind =
    Insert json json
  | Update json "json option" json "string list" "json option"
  | Delete json "json option"

record row_change =
  rc_schema :: string
  rc_table :: string
  rc_kind :: row_kind
  rc_version :: "u64 option"

datatype change_event =
    Transaction transaction_boundary
  | Row row_change
  | LoadMark u64
  | LoadStarted
  | LoadFinished
  | SchemaDrift string string string
  | TableTruncated string string "u64 option"

fun kind_pk :: "row_kind \<Rightarrow> json" where
  "kind_pk (Insert pk _) = pk"
| "kind_pk (Update pk _ _ _ _) = pk"
| "kind_pk (Delete pk _) = pk"

definition rc_pk :: "row_change \<Rightarrow> json" where
  "rc_pk row = kind_pk (rc_kind row)"

text \<open>\<open>doc_mut\<close> hands out the document for an edit; a delete has none.\<close>

fun kind_doc_mut :: "(json \<Rightarrow> json) \<Rightarrow> row_kind \<Rightarrow> row_kind" where
  "kind_doc_mut f (Insert pk doc) = Insert pk (f doc)"
| "kind_doc_mut f (Update pk prev doc toast before) = Update pk prev (f doc) toast before"
| "kind_doc_mut f (Delete pk before) = Delete pk before"

datatype document_op =
    OpUpsert string string "string option" json "u64 option" "string option"
  | OpDelete string string "string option" "u64 option"
  | OpDeleteChildren string string string string "u64 option"

record lsn_op =
  op_lsn :: lsn
  op_doc :: document_op

record rejection =
  rej_index :: string
  rej_doc_id :: string
  rej_reason :: string
  rej_lsn :: lsn
  rej_op :: document_op

record sink_ack =
  max_lsn :: lsn
  rejected :: "rejection list"

definition sink_ack_written :: "lsn \<Rightarrow> sink_ack" where
  "sink_ack_written l = \<lparr>max_lsn = l, rejected = []\<rparr>"

record index_spec =
  spec_name :: string
  spec_mapping :: "json option"
  spec_pattern :: bool

fun op_index :: "document_op \<Rightarrow> string" where
  "op_index (OpUpsert index _ _ _ _ _) = index"
| "op_index (OpDelete index _ _ _) = index"
| "op_index (OpDeleteChildren index _ _ _ _) = index"

fun op_version :: "document_op \<Rightarrow> u64 option" where
  "op_version (OpUpsert _ _ _ _ v _) = v"
| "op_version (OpDelete _ _ _ v) = v"
| "op_version (OpDeleteChildren _ _ _ _ v) = v"

fun is_upsert :: "document_op \<Rightarrow> bool" where
  "is_upsert (OpUpsert _ _ _ _ _ _) = True"
| "is_upsert _ = False"

subsection \<open>Index patterns\<close>

fun match_literals :: "string list \<Rightarrow> string \<Rightarrow> bool" where
  "match_literals [] rest = True"
| "match_literals [literal] rest = ends_with rest literal"
| "match_literals (literal # nxt # rest_lits) rest =
     (case find_split literal rest of
        None \<Rightarrow> False
      | Some (_, after) \<Rightarrow> match_literals (nxt # rest_lits) after)"

definition index_matches_pattern :: "string \<Rightarrow> string \<Rightarrow> bool" where
  "index_matches_pattern pattern name =
     (case split_once (CHR ''*'') pattern of
        None \<Rightarrow> pattern = name
      | Some (head, tail) \<Rightarrow>
          (case strip_prefix head name of
             None \<Rightarrow> False
           | Some rest \<Rightarrow> match_literals (split_char (CHR ''*'') tail) rest))"

text \<open>The reference: a star stands for any run of characters, every other character for
  itself.\<close>

fun glob :: "string \<Rightarrow> string \<Rightarrow> bool" where
  "glob [] s \<longleftrightarrow> s = []"
| "glob (p # ps) [] \<longleftrightarrow> p = CHR ''*'' \<and> glob ps []"
| "glob (p # ps) (x # xs) \<longleftrightarrow>
     (if p = CHR ''*'' then glob ps (x # xs) \<or> glob (p # ps) xs else p = x \<and> glob ps xs)"

lemma glob_star_iff: "glob (CHR ''*'' # ps) s \<longleftrightarrow> (\<exists>g r. s = g @ r \<and> glob ps r)"
proof (induction s)
  case (Cons x xs)
  show ?case
  proof
    assume "glob (CHR ''*'' # ps) (x # xs)"
    then have "glob ps (x # xs) \<or> (\<exists>g r. xs = g @ r \<and> glob ps r)" using Cons.IH by simp
    then show "\<exists>g r. x # xs = g @ r \<and> glob ps r"
      by (metis append_Cons append_Nil)
  next
    assume "\<exists>g r. x # xs = g @ r \<and> glob ps r"
    then obtain g r where "x # xs = g @ r" "glob ps r" by blast
    then show "glob (CHR ''*'' # ps) (x # xs)" using Cons.IH by (cases g) auto
  qed
qed simp

lemma glob_literal_iff:
  "CHR ''*'' \<notin> set lit \<Longrightarrow> glob (lit @ ps) s \<longleftrightarrow> (\<exists>r. s = lit @ r \<and> glob ps r)"
proof (induction lit arbitrary: s)
  case (Cons c lit)
  then show ?case by (cases s) auto
qed simp

text \<open>What the literals between the stars say of the rest of a name.\<close>

fun gaps :: "string list \<Rightarrow> string \<Rightarrow> bool" where
  "gaps [] rest = True"
| "gaps [literal] rest = (\<exists>g. rest = g @ literal)"
| "gaps (literal # nxt # rest_lits) rest = (\<exists>g r. rest = g @ literal @ r \<and> gaps (nxt # rest_lits) r)"

lemma gaps_prepend: "ls \<noteq> [] \<Longrightarrow> gaps ls r \<Longrightarrow> gaps ls (x @ r)"
  by (cases "(ls, r)" rule: gaps.cases) (auto, (metis append.assoc)+)

lemma later_suffix:
  assumes "a @ m @ b = g @ m @ r" "length a \<le> length g"
  shows "\<exists>x. b = x @ r"
proof -
  have "r = drop (length g + length m) (g @ m @ r)" by simp
  also have "\<dots> = drop (length g + length m) (a @ m @ b)" by (simp add: assms(1))
  also have "\<dots> = drop (length g - length a) b" using assms(2) by simp
  finally show ?thesis by (metis append_take_drop_id)
qed

lemma match_literals_gaps: "match_literals ls rest \<longleftrightarrow> gaps ls rest"
proof (induction ls rest rule: match_literals.induct)
  case (3 literal nxt rest_lits rest)
  show ?case
  proof
    assume "match_literals (literal # nxt # rest_lits) rest"
    then obtain a b where "find_split literal rest = Some (a, b)" "match_literals (nxt # rest_lits) b"
      by (auto split: option.splits)
    with 3 find_split_Some show "gaps (literal # nxt # rest_lits) rest" by fastforce
  next
    assume "gaps (literal # nxt # rest_lits) rest"
    then obtain g r where gr: "rest = g @ literal @ r" "gaps (nxt # rest_lits) r" by auto
    from find_split_leftmost [OF gr(1)] obtain a b
      where ab: "find_split literal rest = Some (a, b)" "length a \<le> length g" by blast
    from find_split_Some [OF ab(1)] gr(1) have "a @ literal @ b = g @ literal @ r" by simp
    from later_suffix [OF this ab(2)] have "\<exists>x. b = x @ r" .
    with gr(2) have "gaps (nxt # rest_lits) b" by (auto intro: gaps_prepend)
    with 3 ab(1) show "match_literals (literal # nxt # rest_lits) rest" by simp
  qed
qed (auto simp: ends_with_iff)

lemma split_char_star:
  "c \<notin> set a \<Longrightarrow> split_char c a = [a]"
  "c \<notin> set a \<Longrightarrow> split_char c (a @ c # b) = a # split_char c b"
  by (induction a) auto

lemma glob_gaps: "glob (CHR ''*'' # tail) rest \<longleftrightarrow> gaps (split_char (CHR ''*'') tail) rest"
proof (induction "length tail" arbitrary: tail rest rule: less_induct)
  case less
  show ?case
  proof (cases "split_once (CHR ''*'') tail")
    case None
    then have "CHR ''*'' \<notin> set tail" by (simp add: split_once_None_iff)
    then show ?thesis
      using glob_literal_iff [of tail "[]"] by (auto simp: glob_star_iff split_char_star)
  next
    case (Some ab)
    then obtain a b where ab: "tail = a @ CHR ''*'' # b" "CHR ''*'' \<notin> set a"
      by (cases ab) (auto simp: split_once_Some_iff)
    have "glob (CHR ''*'' # tail) rest \<longleftrightarrow> (\<exists>g r. rest = g @ a @ r \<and> glob (CHR ''*'' # b) r)"
      unfolding glob_star_iff [of tail] using ab by (auto simp: glob_literal_iff)
    also have "\<dots> \<longleftrightarrow> (\<exists>g r. rest = g @ a @ r \<and> gaps (split_char (CHR ''*'') b) r)"
      using less [of b] ab(1) by simp
    also have "\<dots> \<longleftrightarrow> gaps (split_char (CHR ''*'') tail) rest"
      using ab by (cases "split_char (CHR ''*'') b") (auto simp: split_char_star)
    finally show ?thesis .
  qed
qed

lemma index_matches_glob: "index_matches_pattern pattern name \<longleftrightarrow> glob pattern name"
proof (cases "split_once (CHR ''*'') pattern")
  case None
  then have "CHR ''*'' \<notin> set pattern" by (simp add: split_once_None_iff)
  then show ?thesis using None glob_literal_iff [of pattern "[]" name]
    by (auto simp: index_matches_pattern_def)
next
  case (Some ht)
  then obtain h t where ht: "split_once (CHR ''*'') pattern = Some (h, t)"
    "pattern = h @ CHR ''*'' # t" "CHR ''*'' \<notin> set h"
    by (cases ht) (auto simp: split_once_Some_iff)
  then have "glob pattern name \<longleftrightarrow> (\<exists>r. name = h @ r \<and> glob (CHR ''*'' # t) r)"
    by (simp add: glob_literal_iff)
  then show ?thesis using ht(1)
    by (auto simp: index_matches_pattern_def glob_gaps match_literals_gaps strip_prefix_Some_iff
        strip_prefix_None_iff split: option.splits)
qed

text \<open>C40. The greedy matcher of \<open>sink.rs\<close> decides exactly the wildcard language: consuming
  each literal at its leftmost occurrence loses no match.\<close>

theorem index_matches_pattern_glob: "index_matches_pattern pattern name \<longleftrightarrow> glob pattern name"
  by (rule index_matches_glob)

end
