(* ===== verification/Retry_Policy.thy ===== *)
theory Retry_Policy
  imports Sink_Types
begin

section \<open>Retries against the target (\<open>RetryPolicy\<close>, \<open>retry_transient\<close> of \<open>crates/sink/src/lib.rs\<close>)\<close>

text \<open>
  The policy with its reloadable limits, the wait it grants after a failure and the loop that
  both bulk sinks run their requests through. What an attempt answers, what the clock shows and
  the policy in force are arguments, one value per attempt. Durations are nanoseconds.
\<close>

type_synonym duration = nat

abbreviation from_millis :: "nat \<Rightarrow> duration" where "from_millis ms \<equiv> ms * 1000000"

definition MAX_BACKOFF :: duration where "MAX_BACKOFF = 30 * 1000000000"

record retry_policy =
  rp_max_attempts :: "32 word"
  rp_base_backoff_ms :: u64
  rp_max_elapsed_raw :: u64

definition retry_new :: "32 word \<Rightarrow> u64 \<Rightarrow> u64 option \<Rightarrow> retry_policy" where
  "retry_new attempts base elapsed =
     \<lparr>rp_max_attempts = attempts, rp_base_backoff_ms = base, rp_max_elapsed_raw = unwrap_or 0 elapsed\<rparr>"

definition rp_max_elapsed_ms :: "retry_policy \<Rightarrow> u64 option" where
  "rp_max_elapsed_ms p = (if rp_max_elapsed_raw p = 0 then None else Some (rp_max_elapsed_raw p))"

definition retry_set :: "32 word \<Rightarrow> u64 \<Rightarrow> u64 option \<Rightarrow> retry_policy \<Rightarrow> retry_policy" where
  "retry_set attempts base elapsed p =
     p\<lparr>rp_max_attempts := max attempts 1, rp_base_backoff_ms := max base 1, rp_max_elapsed_raw := unwrap_or 0 elapsed\<rparr>"

definition retry_default :: retry_policy where
  "retry_default = retry_new 10 500 None"

datatype retry_limit = Attempts | Elapsed

text \<open>\<open>failures\<close> is a \<open>u32\<close>; the multiplication and the power saturate at \<open>u64::MAX\<close>, and the
  power is of at most 16.\<close>

definition doubled_ms :: "retry_policy \<Rightarrow> nat \<Rightarrow> nat" where
  "doubled_ms p failures = min (unat (rp_base_backoff_ms p) * min (2 ^ min (failures - 1) 16) (2 ^ 64 - 1)) (2 ^ 64 - 1)"

definition backoff_after :: "retry_policy \<Rightarrow> nat \<Rightarrow> duration \<Rightarrow> (retry_limit, duration) result" where
  "backoff_after p failures elapsed =
     (if unat (rp_max_attempts p) \<le> failures then Inl Attempts
      else
        (let backoff = min (from_millis (doubled_ms p failures)) MAX_BACKOFF
         in case rp_max_elapsed_ms p of
              None \<Rightarrow> Inr backoff
            | Some ceiling \<Rightarrow>
                if from_millis (unat ceiling) \<le> elapsed then Inl Elapsed
                else Inr (min backoff (from_millis (unat ceiling) - elapsed))))"

fun is_retryable :: "core_error \<Rightarrow> bool" where
  "is_retryable (SinkTransient _) = True"
| "is_retryable _ = False"

text \<open>The text of a duration in seconds with one decimal is a parameter, as is that of an error.\<close>

definition gave_up ::
  "(duration \<Rightarrow> string) \<Rightarrow> (core_error \<Rightarrow> string) \<Rightarrow> core_error \<Rightarrow> retry_limit \<Rightarrow> nat \<Rightarrow> duration \<Rightarrow> core_error" where
  "gave_up secs text_of error limit attempts elapsed =
     (let reason = (case limit of Attempts \<Rightarrow> ''the attempt limit [engine] retry_max''
                    | Elapsed \<Rightarrow> ''the elapsed ceiling [engine] retry_max_elapsed_ms'');
          message = ''bulk gave up after '' @ show_nat attempts @ '' attempts over '' @ secs elapsed @ ''s, ended by '' @
            reason @ '' ('' @ text_of error @ '')''
      in case error of SinkTransient _ \<Rightarrow> SinkTransient message | _ \<Rightarrow> SinkError message)"

text \<open>The loop, from the number of failures so far. The \<open>n\<close>th attempt answers \<open>attempt n\<close>, the clock
  shows \<open>clock n\<close> after it and the policy, which may be reloaded at any time, is \<open>policy n\<close> then.
  The result comes with the waits between attempts. \<open>failures\<close> stays below the attempt limit, a
  \<open>u32\<close>, so the loop ends whatever the policy does.\<close>

function retry_from ::
  "(duration \<Rightarrow> string) \<Rightarrow> (core_error \<Rightarrow> string) \<Rightarrow> (nat \<Rightarrow> retry_policy) \<Rightarrow> (nat \<Rightarrow> duration)
   \<Rightarrow> (nat \<Rightarrow> (core_error, 'a) result) \<Rightarrow> nat \<Rightarrow> (core_error, 'a) result \<times> duration list" where
  "retry_from secs text_of policy clock attempt failures =
     (case attempt failures of
        Inr done \<Rightarrow> (Inr done, [])
      | Inl e \<Rightarrow>
          if is_retryable e then
            (case backoff_after (policy failures) (failures + 1) (clock failures) of
               Inr backoff \<Rightarrow>
                 (let (r, waits) = retry_from secs text_of policy clock attempt (failures + 1) in (r, backoff # waits))
             | Inl limit \<Rightarrow> (Inl (gave_up secs text_of e limit (failures + 1) (clock failures)), []))
          else (Inl e, []))"
  by pat_completeness auto

lemma backoff_attempts: "backoff_after p n e = Inr w \<Longrightarrow> n < unat (rp_max_attempts p)"
  by (auto simp: backoff_after_def split: if_splits)

termination retry_from
proof (relation "measure (\<lambda>(_, _, _, _, _, failures). 2 ^ 32 - failures)", goal_cases)
  case (2 secs text_of policy clock attempt failures e w)
  from backoff_attempts [OF 2(3)] have "failures + 1 < unat (rp_max_attempts (policy failures))" .
  also have "\<dots> < 2 ^ 32" using unsigned_less [of "rp_max_attempts (policy failures)", where ?'a = nat] by simp
  finally show ?case by simp
qed simp

definition retry_transient ::
  "(duration \<Rightarrow> string) \<Rightarrow> (core_error \<Rightarrow> string) \<Rightarrow> (nat \<Rightarrow> retry_policy) \<Rightarrow> (nat \<Rightarrow> duration)
   \<Rightarrow> (nat \<Rightarrow> (core_error, 'a) result) \<Rightarrow> (core_error, 'a) result \<times> duration list" where
  "retry_transient secs text_of policy clock attempt = retry_from secs text_of policy clock attempt 0"

declare retry_from.simps [simp del]

definition transient_answer :: "(core_error, 'a) result \<Rightarrow> bool" where
  "transient_answer r \<longleftrightarrow> (\<exists>m. r = Inl (SinkTransient m))"

lemma transient_answer_simps [simp]:
  "\<not> transient_answer (Inr x)" "transient_answer (Inl e) \<longleftrightarrow> is_retryable e"
  by (auto simp: transient_answer_def elim: is_retryable.elims)

lemma gave_up_transient: "is_retryable e \<Longrightarrow> is_retryable (gave_up secs text_of e limit n d)"
  by (cases e) (simp_all add: gave_up_def Let_def)

lemma doubled_ms_mono: "f \<le> g \<Longrightarrow> doubled_ms p f \<le> doubled_ms p g"
  unfolding doubled_ms_def by (intro min.mono mult_le_mono2 power_increasing order_refl) auto

text \<open>A wait between two attempts never exceeds thirty seconds nor what is left of the elapsed
  ceiling, is granted only below the attempt limit, and with no ceiling never shrinks as the
  failures add up: no product overflows into a short wait.\<close>

theorem backoff_bounded:
  assumes "backoff_after p failures elapsed = Inr w"
  shows "failures < unat (rp_max_attempts p) \<and> w \<le> MAX_BACKOFF \<and>
    (\<forall>c. rp_max_elapsed_ms p = Some c \<longrightarrow> elapsed + w \<le> from_millis (unat c)) \<and>
    (\<forall>more w'. rp_max_elapsed_ms p = None \<and> failures \<le> more \<and> backoff_after p more elapsed = Inr w' \<longrightarrow> w \<le> w')"
proof -
  have mono: "w \<le> w'" if "rp_max_elapsed_ms p = None" "failures \<le> more" "backoff_after p more elapsed = Inr w'" for more w'
  proof -
    have "w = min (from_millis (doubled_ms p failures)) MAX_BACKOFF" "w' = min (from_millis (doubled_ms p more)) MAX_BACKOFF"
      using assms that by (auto simp: backoff_after_def split: if_splits)
    with doubled_ms_mono [OF that(2), of p] show ?thesis by (simp add: min.coboundedI1 min.mono)
  qed
  have "failures < unat (rp_max_attempts p) \<and> w \<le> MAX_BACKOFF \<and>
      (\<forall>c. rp_max_elapsed_ms p = Some c \<longrightarrow> elapsed + w \<le> from_millis (unat c))"
    using assms by (auto simp: backoff_after_def Let_def split: if_splits option.splits)
  with mono show ?thesis by blast
qed

theorem backoff_bounded_witness:
  "backoff_after retry_default 3 0 = Inr (from_millis 2000) \<and> from_millis 2000 \<le> MAX_BACKOFF \<and>
   backoff_after retry_default 9 0 = Inr MAX_BACKOFF"
proof -
  have "backoff_after retry_default 3 0 = Inr (from_millis 2000)" "backoff_after retry_default 9 0 = Inr MAX_BACKOFF"
    by (simp_all add: backoff_after_def doubled_ms_def retry_default_def retry_new_def rp_max_elapsed_ms_def MAX_BACKOFF_def Let_def)
  with backoff_bounded [of retry_default 3 0 "from_millis 2000"] show ?thesis by auto
qed

lemma retry_from_outcome:
  assumes "retry_from secs text_of policy clock attempt f = (r, waits)"
  shows "(\<forall>k < length waits. transient_answer (attempt (f + k)) \<and> f + k + 1 < unat (rp_max_attempts (policy (f + k)))) \<and>
    (if transient_answer (attempt (f + length waits)) then transient_answer r else r = attempt (f + length waits))"
  using assms
proof (induction secs text_of policy clock attempt f arbitrary: r waits rule: retry_from.induct)
  case (1 secs text_of policy clock attempt f)
  show ?case
  proof (cases "attempt f")
    case (Inr x)
    with "1.prems" show ?thesis by (auto simp: retry_from.simps [of _ _ _ _ _ f])
  next
    case (Inl e)
    show ?thesis
    proof (cases "is_retryable e")
      case False
      with Inl "1.prems" show ?thesis by (auto simp: retry_from.simps [of _ _ _ _ _ f])
    next
      case True
      show ?thesis
      proof (cases "backoff_after (policy f) (f + 1) (clock f)")
        case (Inl limit)
        with \<open>attempt f = Inl e\<close> True "1.prems" show ?thesis
          by (auto simp: retry_from.simps [of _ _ _ _ _ f] gave_up_transient)
      next
        case (Inr w)
        obtain r' ws where rec: "retry_from secs text_of policy clock attempt (f + 1) = (r', ws)" by fastforce
        with Inl Inr True "1.prems" have rw: "r = r'" "waits = w # ws" by (auto simp: retry_from.simps [of _ _ _ _ _ f])
        from "1.IH" [OF Inl True Inr rec] backoff_attempts [OF Inr] Inl True rw show ?thesis
          by (auto simp: less_Suc_eq_0_disj)
      qed
    qed
  qed
qed

text \<open>C39. A request is tried again only while it fails transiently and stays below the attempt
  limit, and every other answer is returned as it came: the outcome is the first answer that is
  not transient, or a transient error when the last attempt failed transiently as well. The loop
  always ends, even under a policy reloaded between attempts.\<close>

theorem retry_transient_outcome:
  "case retry_transient secs text_of policy clock attempt of (r, waits) \<Rightarrow>
     (\<forall>k < length waits. transient_answer (attempt k) \<and> k + 1 < unat (rp_max_attempts (policy k))) \<and>
     (if transient_answer (attempt (length waits)) then transient_answer r else r = attempt (length waits))"
  using retry_from_outcome [of secs text_of policy clock attempt 0, unfolded add_0]
  by (auto simp: retry_transient_def split: prod.split)

theorem retry_transient_outcome_witness:
  "retry_transient (\<lambda>_. ''0.0'') (\<lambda>_. ''e'') (\<lambda>_. retry_default) (\<lambda>_. 0)
     (\<lambda>n. if n < 2 then Inl (SinkTransient ''http status 503'') else Inr True) = (Inr True, [from_millis 500, from_millis 1000]) \<and>
   (case retry_transient (\<lambda>_. ''0.0'') (\<lambda>_. ''e'') (\<lambda>_. retry_default) (\<lambda>_. 0)
       (\<lambda>n. if n < 2 then Inl (SinkTransient ''http status 503'') else Inr True) of (r, waits) \<Rightarrow> r = Inr True)"
proof -
  let ?a = "\<lambda>n::nat. if n < 2 then Inl (SinkTransient ''http status 503'') else Inr True"
  have run: "retry_transient (\<lambda>_. ''0.0'') (\<lambda>_. ''e'') (\<lambda>_. retry_default) (\<lambda>_. 0) ?a = (Inr True, [from_millis 500, from_millis 1000])"
    by (simp add: retry_transient_def retry_from.simps backoff_after_def doubled_ms_def retry_default_def retry_new_def
        rp_max_elapsed_ms_def MAX_BACKOFF_def Let_def)
  with retry_transient_outcome [where secs = "\<lambda>_. ''0.0''" and text_of = "\<lambda>_. ''e''" and policy = "\<lambda>_. retry_default" and clock = "\<lambda>_. 0" and attempt = ?a] show ?thesis by simp
qed

end
