(* ===== verification/Row_Filter.thy ===== *)
theory Row_Filter
  imports Json_Value
begin

section \<open>Row filters: meaning and rendering (\<open>crates/core/src/filter.rs\<close>)\<close>

text \<open>
  The predicate language of \<open>[sync.x] where\<close>: its syntax tree, its three-valued evaluation
  on a document (\<open>None\<close> is UNKNOWN) and its rendering as SQL for a dialect. The parser is in
  the theory \<open>Filter_Parser\<close>. The text form of a double is a parameter \<open>fshow\<close> of the
  renderer.
\<close>

datatype literal = LStr string | LInt int | LFloat f64 | LBool bool

datatype cmp_op = Eq | Ne | Lt | Le | Gt | Ge

datatype expr =
    Cmp string cmp_op literal
  | IsNull string bool
  | InList string "literal list" bool
  | FAnd expr expr
  | FOr expr expr
  | FNot expr

record row_filter =
  f_expr :: expr
  f_columns :: "string list"

record sql_dialect =
  quote_ident :: "string \<Rightarrow> string"
  quote_str :: "string \<Rightarrow> string"

fun holds :: "cmp_op \<Rightarrow> ordering \<Rightarrow> bool" where
  "holds Eq ord \<longleftrightarrow> ord = Equal"
| "holds Ne ord \<longleftrightarrow> ord \<noteq> Equal"
| "holds Lt ord \<longleftrightarrow> ord = Less"
| "holds Le ord \<longleftrightarrow> ord \<noteq> Greater"
| "holds Gt ord \<longleftrightarrow> ord = Greater"
| "holds Ge ord \<longleftrightarrow> ord \<noteq> Less"

fun cmp_sql :: "cmp_op \<Rightarrow> string" where
  "cmp_sql Eq = ''=''"
| "cmp_sql Ne = ''<>''"
| "cmp_sql Lt = ''<''"
| "cmp_sql Le = ''<=''"
| "cmp_sql Gt = ''>''"
| "cmp_sql Ge = ''>=''"

subsection \<open>Comparing a document value with a literal\<close>

datatype num = NumInt int | NumFloat f64

definition num_from_json :: "number \<Rightarrow> num option" where
  "num_from_json n = (case as_i64 n of
       Some i \<Rightarrow> Some (NumInt i)
     | None \<Rightarrow> (case as_u64 n of
         Some u \<Rightarrow> Some (NumInt u)
       | None \<Rightarrow> map_option NumFloat (as_f64 n)))"

definition num_from_str :: "string \<Rightarrow> num option" where
  "num_from_str s = (case parse_i128 s of
       Some i \<Rightarrow> Some (NumInt i)
     | None \<Rightarrow> map_option NumFloat (parse_f64 s))"

fun num_from_literal :: "literal \<Rightarrow> num option" where
  "num_from_literal (LInt i) = Some (NumInt i)"
| "num_from_literal (LFloat f) = Some (NumFloat f)"
| "num_from_literal (LStr _) = None"
| "num_from_literal (LBool _) = None"

fun num_as_f64 :: "num \<Rightarrow> f64" where
  "num_as_f64 (NumInt i) = f64_of_int i"
| "num_as_f64 (NumFloat f) = f"

fun num_cmp :: "num \<Rightarrow> num \<Rightarrow> ordering option" where
  "num_cmp (NumInt a) (NumInt b) = Some (cmp a b)"
| "num_cmp a b = f64_partial_cmp (num_as_f64 a) (num_as_f64 b)"

definition num_cmp_opt :: "num option \<Rightarrow> num option \<Rightarrow> ordering option" where
  "num_cmp_opt a b = (case (a, b) of (Some x, Some y) \<Rightarrow> num_cmp x y | _ \<Rightarrow> None)"

fun is_numeric_literal :: "literal \<Rightarrow> bool" where
  "is_numeric_literal (LInt _) = True"
| "is_numeric_literal (LFloat _) = True"
| "is_numeric_literal _ = False"

definition compare :: "json option \<Rightarrow> literal \<Rightarrow> ordering option" where
  "compare value literal = (case value of
       None \<Rightarrow> None
     | Some v \<Rightarrow> (case (v, literal) of
         (JNull, _) \<Rightarrow> None
       | (JString s, LStr l) \<Rightarrow> Some (cmp s l)
       | (JString s, _) \<Rightarrow>
           if is_numeric_literal literal
           then num_cmp_opt (num_from_str s) (num_from_literal literal) else None
       | (JNumber n, _) \<Rightarrow>
           if is_numeric_literal literal
           then num_cmp_opt (num_from_json n) (num_from_literal literal) else None
       | (JBool b, LBool l) \<Rightarrow> Some (cmp b l)
       | _ \<Rightarrow> None))"

subsection \<open>Evaluation\<close>

fun in_loop :: "json option \<Rightarrow> bool \<Rightarrow> bool \<Rightarrow> literal list \<Rightarrow> bool option" where
  "in_loop value negated unknown [] = (if unknown then None else Some negated)"
| "in_loop value negated unknown (literal # list) =
     (case compare value literal of
        Some Equal \<Rightarrow> Some (\<not> negated)
      | None \<Rightarrow> in_loop value negated True list
      | Some _ \<Rightarrow> in_loop value negated unknown list)"

fun tri_and :: "bool option \<Rightarrow> bool option \<Rightarrow> bool option" where
  "tri_and (Some False) _ = Some False"
| "tri_and _ (Some False) = Some False"
| "tri_and None _ = None"
| "tri_and _ None = None"
| "tri_and (Some True) (Some True) = Some True"

fun tri_or :: "bool option \<Rightarrow> bool option \<Rightarrow> bool option" where
  "tri_or (Some True) _ = Some True"
| "tri_or _ (Some True) = Some True"
| "tri_or None _ = None"
| "tri_or _ None = None"
| "tri_or (Some False) (Some False) = Some False"

fun eval :: "expr \<Rightarrow> json_map \<Rightarrow> bool option" where
  "eval (Cmp column op literal) doc = map_option (holds op) (compare (bt_get doc column) literal)"
| "eval (IsNull column negated) doc = Some (is_none_or is_null (bt_get doc column) \<noteq> negated)"
| "eval (InList column list negated) doc = in_loop (bt_get doc column) negated False list"
| "eval (FAnd a b) doc = tri_and (eval a doc) (eval b doc)"
| "eval (FOr a b) doc = tri_or (eval a doc) (eval b doc)"
| "eval (FNot a) doc = map_option (\<lambda>b. \<not> b) (eval a doc)"

definition matches :: "row_filter \<Rightarrow> json \<Rightarrow> bool" where
  "matches f doc = is_some_and (\<lambda>fields. eval (f_expr f) fields = Some True) (as_object doc)"

subsection \<open>Rendering\<close>

definition render_literal :: "(f64 \<Rightarrow> string) \<Rightarrow> sql_dialect \<Rightarrow> literal \<Rightarrow> string" where
  "render_literal fshow dialect literal = (case literal of
       LStr s \<Rightarrow> quote_str dialect s
     | LInt i \<Rightarrow> show_int i
     | LFloat f \<Rightarrow> fshow f
     | LBool True \<Rightarrow> ''TRUE''
     | LBool False \<Rightarrow> ''FALSE'')"

fun render :: "(f64 \<Rightarrow> string) \<Rightarrow> sql_dialect \<Rightarrow> expr \<Rightarrow> string" where
  "render fshow dialect (Cmp column op literal) =
     quote_ident dialect column @ '' '' @ cmp_sql op @ '' '' @ render_literal fshow dialect literal"
| "render fshow dialect (IsNull column negated) =
     quote_ident dialect column @ '' IS '' @ (if negated then ''NOT '' else '''') @ ''NULL''"
| "render fshow dialect (InList column list negated) =
     quote_ident dialect column @ '' '' @ (if negated then ''NOT '' else '''') @ ''IN ('' @
     join '', '' (map (render_literal fshow dialect) list) @ '')''"
| "render fshow dialect (FAnd a b) =
     ''('' @ render fshow dialect a @ '' AND '' @ render fshow dialect b @ '')''"
| "render fshow dialect (FOr a b) =
     ''('' @ render fshow dialect a @ '' OR '' @ render fshow dialect b @ '')''"
| "render fshow dialect (FNot a) = ''(NOT '' @ render fshow dialect a @ '')''"

definition to_sql :: "(f64 \<Rightarrow> string) \<Rightarrow> sql_dialect \<Rightarrow> row_filter \<Rightarrow> string" where
  "to_sql fshow dialect f = render fshow dialect (f_expr f)"

text \<open>The columns an expression names, in the order the parser meets them.\<close>

fun expr_columns :: "expr \<Rightarrow> string list" where
  "expr_columns (Cmp column _ _) = [column]"
| "expr_columns (IsNull column _) = [column]"
| "expr_columns (InList column _ _) = [column]"
| "expr_columns (FAnd a b) = expr_columns a @ expr_columns b"
| "expr_columns (FOr a b) = expr_columns a @ expr_columns b"
| "expr_columns (FNot a) = expr_columns a"

subsection \<open>Facts\<close>

lemma tri_and_Some_True [simp]: "tri_and x y = Some True \<longleftrightarrow> x = Some True \<and> y = Some True"
  by (cases "(x, y)" rule: tri_and.cases) auto

lemma tri_or_Some_True [simp]: "tri_or x y = Some True \<longleftrightarrow> x = Some True \<or> y = Some True"
  by (cases "(x, y)" rule: tri_or.cases) auto

lemma tri_and_Some_False [simp]: "tri_and x y = Some False \<longleftrightarrow> x = Some False \<or> y = Some False"
  by (cases "(x, y)" rule: tri_and.cases) auto

lemma tri_or_Some_False [simp]: "tri_or x y = Some False \<longleftrightarrow> x = Some False \<and> y = Some False"
  by (cases "(x, y)" rule: tri_or.cases) auto

lemma tri_de_morgan:
  "map_option Not (tri_and x y) = tri_or (map_option Not x) (map_option Not y)"
  "map_option Not (tri_or x y) = tri_and (map_option Not x) (map_option Not y)"
  by (cases x; cases y; case_tac "the x"; case_tac "the y"; simp)+

lemma compare_null [simp]: "compare None l = None" "compare (Some JNull) l = None"
  by (simp_all add: compare_def)

lemma compare_int:
  "i64_min \<le> i \<Longrightarrow> i < 2 ^ 64 \<Longrightarrow> compare (Some (JNumber (NInt i))) (LInt j) = Some (cmp i j)"
  by (auto simp: compare_def num_cmp_opt_def num_from_json_def i64_min_def i64_max_def)

text \<open>The disjunction of equalities an \<open>IN\<close> list abbreviates.\<close>

definition in_as_or :: "string \<Rightarrow> literal list \<Rightarrow> json_map \<Rightarrow> bool option" where
  "in_as_or column list doc =
     foldr (\<lambda>l acc. tri_or (eval (Cmp column Eq l) doc) acc) list (Some False)"

lemma in_loop_unknown:
  "in_loop v False True list = (if in_loop v False False list = Some True then Some True else None)"
  by (induction list) (auto split: option.splits ordering.splits)

lemma in_loop_negated: "in_loop v True u list = map_option Not (in_loop v False u list)"
  by (induction list arbitrary: u) (auto split: option.splits ordering.splits)

lemma in_loop_range: "in_loop v False False list \<in> {Some True, Some False, None}"
  by (cases "in_loop v False False list") auto

lemma in_loop_or:
  "in_loop (bt_get doc c) False False list = in_as_or c list doc"
proof (induction list)
  case (Cons l list)
  let ?r = "in_loop (bt_get doc c) False False list"
  have "tri_or (Some False) ?r = ?r" "tri_or None ?r = (if ?r = Some True then Some True else None)"
    using in_loop_range [of "bt_get doc c" list] by auto
  with Cons.IH show ?case
    by (auto simp: in_as_or_def in_loop_unknown split: option.splits ordering.splits)
qed (simp add: in_as_or_def)

text \<open>C38. \<open>IN\<close> is the three-valued disjunction of the equalities it abbreviates and
  \<open>NOT IN\<close> its negation, NULL and incomparable elements included.\<close>

theorem eval_in_list:
  "eval (InList c list False) doc = in_as_or c list doc \<and>
   eval (InList c list True) doc = map_option Not (in_as_or c list doc)"
  by (simp_all add: in_loop_or in_loop_negated)

text \<open>A filter's verdict on a row depends on nothing but the columns it names: two rows
  that agree on them are both kept or both dropped.\<close>

theorem eval_columns:
  assumes "\<And>c. c \<in> set (expr_columns e) \<Longrightarrow> bt_get doc c = bt_get doc' c"
  shows "eval e doc = eval e doc'"
  using assms by (induction e) auto

theorem eval_columns_witness:
  "eval (FAnd (Cmp ''a'' Eq (LInt 1)) (IsNull ''b'' False)) [(''a'', JNumber (NInt 1)), (''z'', JNull)]
     = eval (FAnd (Cmp ''a'' Eq (LInt 1)) (IsNull ''b'' False)) [(''a'', JNumber (NInt 1))]"
  by (rule eval_columns) (auto simp: bt_get_def)

text \<open>Negation distributes over the connectives as SQL's three-valued logic says.\<close>

lemma eval_de_morgan:
  "eval (FNot (FAnd a b)) doc = eval (FOr (FNot a) (FNot b)) doc"
  "eval (FNot (FOr a b)) doc = eval (FAnd (FNot a) (FNot b)) doc"
  by (simp_all add: tri_de_morgan)

text \<open>Filling in NULLs only ever decides an UNKNOWN, for a predicate without null tests.\<close>

fun null_test_free :: "expr \<Rightarrow> bool" where
  "null_test_free (IsNull _ _) = False"
| "null_test_free (FAnd a b) = (null_test_free a \<and> null_test_free b)"
| "null_test_free (FOr a b) = (null_test_free a \<and> null_test_free b)"
| "null_test_free (FNot a) = null_test_free a"
| "null_test_free _ = True"

definition refines :: "json_map \<Rightarrow> json_map \<Rightarrow> bool" where
  "refines doc doc' \<longleftrightarrow> (\<forall>c v. bt_get doc c = Some v \<longrightarrow> v \<noteq> JNull \<longrightarrow> bt_get doc' c = Some v)"

lemma refines_compare:
  "refines doc doc' \<Longrightarrow> compare (bt_get doc c) l = Some r \<Longrightarrow> compare (bt_get doc' c) l = Some r"
  unfolding refines_def by (cases "bt_get doc c") (force simp: compare_null)+

lemma refines_cases:
  assumes "refines doc doc'"
  shows "is_none_or is_null (bt_get doc c) \<or> bt_get doc' c = bt_get doc c"
  using assms by (cases "bt_get doc c") (auto simp: refines_def is_null_def)

lemma compare_null_value: "is_none_or is_null v \<Longrightarrow> compare v l = None"
  by (cases v) (auto simp: is_null_def)

lemma in_loop_null_unknown: "is_none_or is_null v \<Longrightarrow> in_loop v negated True list = None"
  by (induction list) (auto simp: compare_null_value)

lemma in_loop_null: "is_none_or is_null v \<Longrightarrow> list \<noteq> [] \<Longrightarrow> in_loop v negated u list = None"
  by (cases list) (auto simp: compare_null_value in_loop_null_unknown)

lemma eval_refines:
  assumes "refines doc doc'" "null_test_free e" "eval e doc = Some b"
  shows "eval e doc' = Some b"
  using assms(2,3)
proof (induction e arbitrary: b)
  case (InList c list negated)
  then show ?case using refines_cases [OF assms(1), of c] in_loop_null [of "bt_get doc c" list negated False]
    by (cases "list = []") auto
next
  case (FAnd e1 e2)
  then show ?case by (cases b) auto
next
  case (FOr e1 e2)
  then show ?case by (cases b) auto
qed (auto dest: refines_compare [OF assms(1)])

end
