(* ===== verification/Load_State.thy ===== *)
theory Load_State
  imports Sink_Types Row_Filter
begin

section \<open>Initial-load state (\<open>crates/core/src/load.rs\<close>)\<close>

text \<open>
  The progress document of a table's load and its encoding, the check for an unfinished
  load, the sequence of load marks and the scope of a load run. A \<open>usize\<close> is a 64-bit word.
  The sink's \<open>read_state\<close> is a parameter of \<open>unfinished\<close>. \<open>char::is_alphanumeric\<close> is
  spelled out on ASCII; on the other characters, given by their UTF-8 bytes, it is the
  parameter \<open>alnum\<close> of \<open>load_progress_key\<close>.
\<close>

datatype load_cursor =
    Ranges "string list" u64
  | After "string list"

record load_progress =
  lp_cursor :: load_cursor
  lp_finished :: bool

definition json_strings :: "string list \<Rightarrow> json" where
  "json_strings xs = JArray (map JString xs)"

definition to_doc :: "load_progress \<Rightarrow> json" where
  "to_doc p =
     (let doc = (case lp_cursor p of
            Ranges boundaries done \<Rightarrow>
              [(''boundaries'', json_strings boundaries), (''done'', JNumber (NInt (uint done)))]
          | After key \<Rightarrow> [(''after'', json_strings key)])
      in JObject (bt_insert ''finished'' (JBool (lp_finished p)) (bt_extend [] doc)))"

definition strings :: "json \<Rightarrow> string list option" where
  "strings src = (case as_array src of None \<Rightarrow> None | Some vs \<Rightarrow> those (map as_str vs))"

definition from_doc :: "json \<Rightarrow> load_progress option" where
  "from_doc src =
     (case as_bool (json_index src ''finished'') of
        None \<Rightarrow> None
      | Some finished \<Rightarrow>
          map_option (\<lambda>cursor. \<lparr>lp_cursor = cursor, lp_finished = finished\<rparr>)
            (case json_get src ''after'' of
               Some after \<Rightarrow> map_option After (strings after)
             | None \<Rightarrow>
                 (case strings (json_index src ''boundaries'') of
                    None \<Rightarrow> None
                  | Some boundaries \<Rightarrow>
                      map_option (\<lambda>done. Ranges boundaries (of_int done))
                        (json_as_u64 (json_index src ''done'')))))"

subsection \<open>Where progress is stored\<close>

definition is_alphanumeric :: "(string \<Rightarrow> bool) \<Rightarrow> string \<Rightarrow> bool" where
  "is_alphanumeric alnum c =
     (case c of [b] \<Rightarrow> if asc b < 128 then is_ascii_alphanumeric b else alnum c | _ \<Rightarrow> alnum c)"

definition tame :: "(string \<Rightarrow> bool) \<Rightarrow> string \<Rightarrow> string" where
  "tame alnum s =
     concat (map (\<lambda>c. if is_alphanumeric alnum c \<or> c = ''-'' \<or> c = ''_'' then c else ''_'') (utf8_chars s))"

definition load_progress_key :: "(string \<Rightarrow> bool) \<Rightarrow> stream_id \<Rightarrow> string \<Rightarrow> string" where
  "load_progress_key alnum sid qualified_table =
     ''load-'' @ tame alnum (source sid) @ ''-'' @ tame alnum (stream sid) @ ''-'' @ tame alnum qualified_table"

fun unfinished ::
  "(string \<Rightarrow> bool) \<Rightarrow> (string \<Rightarrow> (core_error, json option) result) \<Rightarrow> stream_id \<Rightarrow> string list
   \<Rightarrow> (core_error, bool) result" where
  "unfinished alnum read_state sid [] = Inr False"
| "unfinished alnum read_state sid (table # tables) =
     bindr (read_state (load_progress_key alnum sid table)) (\<lambda>doc.
       let stored = Option.bind doc from_doc
       in if is_some_and (\<lambda>p. \<not> lp_finished p) stored then Inr True
          else unfinished alnum read_state sid tables)"

subsection \<open>Load marks\<close>

text \<open>\<open>fetch_add\<close> wraps and answers the old value; the mark is that value plus one,
  saturating.\<close>

type_synonym mark_sequence = u64

definition saturating_add :: "u64 \<Rightarrow> u64 \<Rightarrow> u64" where
  "saturating_add a b = (if unat a + unat b < 2 ^ 64 then a + b else - 1)"

definition mark_next :: "mark_sequence \<Rightarrow> u64 \<times> mark_sequence" where
  "mark_next s = (saturating_add s 1, s + 1)"

fun marks_taken :: "nat \<Rightarrow> mark_sequence \<Rightarrow> u64 list" where
  "marks_taken 0 s = []"
| "marks_taken (Suc n) s = (let (mark, s') = mark_next s in mark # marks_taken n s')"

subsection \<open>Scopes\<close>

record load_scope =
  ls_only :: "string option"
  ls_filter :: "string option"
  ls_table_filters :: "string \<rightharpoonup> row_filter"
  ls_marks :: mark_sequence
  ls_resumable :: bool

definition load_scope_default :: load_scope where
  "load_scope_default =
     \<lparr>ls_only = None, ls_filter = None, ls_table_filters = Map.empty, ls_marks = 0, ls_resumable = False\<rparr>"

definition initial_load :: load_scope where
  "initial_load = load_scope_default\<lparr>ls_resumable := True\<rparr>"

definition added_table :: "string \<Rightarrow> load_scope" where
  "added_table qualified_table =
     load_scope_default\<lparr>ls_only := Some qualified_table, ls_resumable := True\<rparr>"

definition resnapshot :: "string \<Rightarrow> string option \<Rightarrow> load_scope" where
  "resnapshot qualified_table filt =
     load_scope_default\<lparr>ls_only := Some qualified_table, ls_filter := filt\<rparr>"

definition with_marks :: "mark_sequence \<Rightarrow> load_scope \<Rightarrow> load_scope" where
  "with_marks marks scope = scope\<lparr>ls_marks := marks\<rparr>"

definition with_table_filters :: "(string \<rightharpoonup> row_filter) \<Rightarrow> load_scope \<Rightarrow> load_scope" where
  "with_table_filters filters scope = scope\<lparr>ls_table_filters := filters\<rparr>"

definition table_filter :: "load_scope \<Rightarrow> string \<Rightarrow> row_filter option" where
  "table_filter scope qualified_table = ls_table_filters scope qualified_table"

definition covers :: "load_scope \<Rightarrow> string \<Rightarrow> bool" where
  "covers scope qualified_table = is_none_or (\<lambda>only. only = qualified_table) (ls_only scope)"

definition rate_cap_note :: "32 word option \<Rightarrow> string" where
  "rate_cap_note max_rows_per_sec =
     (case max_rows_per_sec of None \<Rightarrow> [] | Some n \<Rightarrow> '', capped at '' @ show_nat (unat n) @ '' rows/s'')"

subsection \<open>Facts\<close>

lemma those_map_Some: "those (map (\<lambda>x. Some (f x)) xs) = Some (map f xs)"
  by (induction xs) auto

lemma strings_json_strings [simp]: "strings (json_strings xs) = Some xs"
  using those_map_Some [of "\<lambda>x. x" xs] by (simp add: strings_def json_strings_def comp_def)

lemma uint_u64: "uint (w :: u64) < 2 ^ 64" "0 \<le> uint w"
  using uint_lt2p [of w] by simp_all

text \<open>A load's progress document reads back as the progress it was written from, so a
  restart resumes at the range or key the interrupted run recorded.\<close>

theorem load_progress_roundtrip: "from_doc (to_doc p) = Some p"
proof (cases "lp_cursor p")
  case (Ranges boundaries don)
  then show ?thesis
    using uint_u64 [of don] by (simp add: to_doc_def from_doc_def Let_def bt_extend_def bt_get_def)
next
  case (After key)
  then show ?thesis by (simp add: to_doc_def from_doc_def Let_def bt_extend_def bt_get_def)
qed

text \<open>The check answers that nothing is left to load only when the stored state of every
  table was read and none of them is a progress document of an unfinished load.\<close>

theorem unfinished_False_iff:
  "unfinished alnum read_state sid tables = Inr False \<longleftrightarrow>
   (\<forall>table \<in> set tables. \<exists>doc. read_state (load_progress_key alnum sid table) = Inr doc \<and>
      \<not> is_some_and (\<lambda>p. \<not> lp_finished p) (Option.bind doc from_doc))"
proof (induction tables)
  case (Cons table tables)
  show ?case
    by (cases "read_state (load_progress_key alnum sid table)") (auto simp: Let_def Cons.IH)
qed simp

lemma mark_next_ok: "unat s < 2 ^ 64 - 1 \<Longrightarrow> mark_next s = (s + 1, s + 1) \<and> unat (s + 1) = unat s + 1"
  by (simp add: mark_next_def saturating_add_def unat_word_ariths)

lemma marks_taken_eq:
  "unat s + n < 2 ^ 64 \<Longrightarrow> map unat (marks_taken n s) = [unat s + 1..<unat s + 1 + n]"
proof (induction n arbitrary: s)
  case (Suc n)
  then have "mark_next s = (s + 1, s + 1)" "unat (s + 1) = unat s + 1" using mark_next_ok [of s] by auto
  with Suc.IH [of "s + 1"] Suc.prems show ?case by (simp add: upt_rec)
qed simp

text \<open>The marks handed out on one channel are the consecutive numbers after the last one:
  no two loaders that share the sequence ever use the same number, and none is zero, the
  value the engine's report starts from.\<close>

theorem marks_taken_consecutive:
  assumes "unat s + n < 2 ^ 64"
  shows "map unat (marks_taken n s) = [unat s + 1..<unat s + 1 + n] \<and> distinct (marks_taken n s) \<and>
    0 \<notin> set (marks_taken n s)"
proof -
  have eq: "map unat (marks_taken n s) = [unat s + 1..<unat s + 1 + n]" by (rule marks_taken_eq [OF assms])
  have "distinct (map unat (marks_taken n s))" unfolding eq by simp
  then have "distinct (marks_taken n s)" by (rule distinct_map [THEN iffD1, THEN conjunct1])
  moreover have "0 \<notin> set (map unat (marks_taken n s))" unfolding eq by simp
  then have "0 \<notin> set (marks_taken n s)" by (auto simp: image_iff)
  ultimately show ?thesis using eq by blast
qed

theorem marks_taken_consecutive_witness:
  "unat (0 :: u64) + 3 < 2 ^ 64 \<and> map unat (marks_taken 3 0) = [1, 2, 3]"
  using marks_taken_consecutive [of 0 3] by (simp add: upt_rec)

text \<open>The key a table's progress is stored under does not determine the table: two tables
  of different schemas share one key, so the finished load of the one reads as the finished
  load of the other.\<close>

theorem load_progress_key_collision:
  "load_progress_key alnum sid ''a.b_c'' = load_progress_key alnum sid ''a_b.c'' \<and> ''a.b_c'' \<noteq> ''a_b.c''"
  by (simp add: load_progress_key_def tame_def is_alphanumeric_def is_continuation_def ascii_defs)

end
