(* ===== verification/Stored_Docs.thy ===== *)
theory Stored_Docs
  imports Load_State
begin

section \<open>What the search sinks keep in the target (\<open>crates/sink/src/lib.rs\<close>)\<close>

text \<open>
  The checkpoint document with its older layout, the quarantine documents, the names they are
  stored under, and the read of current documents. The clock and the instance id are arguments;
  \<open>alnum\<close> is \<open>char::is_alphanumeric\<close> beyond ASCII, as in \<^theory_text>\<open>Load_State\<close>.
\<close>

definition json_opt_str :: "string option \<Rightarrow> json" where
  "json_opt_str x = (case x of None \<Rightarrow> JNull | Some s \<Rightarrow> JString s)"

definition json_u64 :: "u64 \<Rightarrow> json" where
  "json_u64 w = JNumber (NInt (uint w))"

definition json_opt_u64 :: "u64 option \<Rightarrow> json" where
  "json_opt_u64 x = (case x of None \<Rightarrow> JNull | Some w \<Rightarrow> json_u64 w)"

definition index_u64 :: "json \<Rightarrow> string \<Rightarrow> u64 option" where
  "index_u64 src k = map_option of_int (json_as_u64 (json_index src k))"

abbreviation index_str :: "json \<Rightarrow> string \<Rightarrow> string option" where
  "index_str src k \<equiv> as_str (json_index src k)"

subsection \<open>Checkpoints\<close>

definition checkpoint_doc_id :: "(string \<Rightarrow> bool) \<Rightarrow> stream_id \<Rightarrow> string" where
  "checkpoint_doc_id alnum sid = tame alnum (source sid @ ''-'' @ stream sid)"

definition CHECKPOINT_SCHEMA_VERSION :: int where "CHECKPOINT_SCHEMA_VERSION = 2"

definition checkpoint_doc :: "string \<Rightarrow> u64 \<Rightarrow> checkpoint \<Rightarrow> json" where
  "checkpoint_doc instance_id now ckpt = json_obj
     [(''source'', JString (source (ckpt_stream ckpt))),
      (''stream'', JString (stream (ckpt_stream ckpt))),
      (''slot_name'', JString (stream (ckpt_stream ckpt))),
      (''publication'', JString (publication (ckpt_stream ckpt))),
      (''position'', JString (ckpt_position ckpt)),
      (''token'', json_u64 (ckpt_token ckpt)),
      (''instance_id'', JString instance_id),
      (''updated_at_epoch'', json_u64 now),
      (''schema_version'', JNumber (NInt CHECKPOINT_SCHEMA_VERSION))]"

definition checkpoint_from_doc :: "json \<Rightarrow> checkpoint option" where
  "checkpoint_from_doc src =
     (let sid = \<lparr>source = unwrap_or SOURCE_POSTGRES (index_str src ''source''),
                 stream = unwrap_or [] (or_else (index_str src ''slot_name'') (index_str src ''stream'')),
                 publication = unwrap_or [] (index_str src ''publication'')\<rparr>
      in Option.bind (or_else (index_str src ''position'') (index_str src ''confirmed_lsn'')) (\<lambda>position.
         Option.bind (case index_u64 src ''token'' of
             Some t \<Rightarrow> Some t
           | None \<Rightarrow> map_option lsn_val (ok (lsn_from_str position))) (\<lambda>token.
           Some \<lparr>ckpt_stream = sid, ckpt_token = token, ckpt_position = position\<rparr>)))"

subsection \<open>Quarantined documents\<close>

record stored_reject =
  sr_id :: string
  sr_rejection :: rejection
  sr_at_epoch :: u64

definition reject_doc_id :: "(string \<Rightarrow> bool) \<Rightarrow> string \<Rightarrow> string \<Rightarrow> string" where
  "reject_doc_id alnum index doc_id = tame alnum (index @ ''-'' @ doc_id)"

fun reject_action :: "document_op \<Rightarrow> string \<times> json \<times> u64 option" where
  "reject_action (OpUpsert _ _ _ doc version _) = (''upsert'', doc, version)"
| "reject_action (OpDelete _ _ _ version) = (''delete'', JNull, version)"
| "reject_action (OpDeleteChildren _ _ _ _ version) = (''delete_children'', JNull, version)"

fun reject_extra :: "document_op \<Rightarrow> (string \<times> json) list" where
  "reject_extra (OpUpsert _ _ routing _ _ pipeline) =
     [(''routing'', json_opt_str routing), (''pipeline'', json_opt_str pipeline)]"
| "reject_extra (OpDelete _ _ routing _) = [(''routing'', json_opt_str routing)]"
| "reject_extra (OpDeleteChildren _ field parent_name parent_id _) =
     [(''field'', JString field), (''parent_name'', JString parent_name), (''parent_id'', JString parent_id)]"

definition reject_doc :: "u64 \<Rightarrow> rejection \<Rightarrow> json" where
  "reject_doc now r =
     (let (action, document, version) = reject_action (rej_op r)
      in JObject (bt_extend (bt_extend []
           [(''index'', JString (rej_index r)), (''doc_id'', JString (rej_doc_id r)), (''reason'', JString (rej_reason r)),
            (''position'', json_u64 (lsn_val (rej_lsn r))), (''action'', JString action), (''document'', document),
            (''version'', json_opt_u64 version), (''at_epoch'', json_u64 now)])
           (reject_extra (rej_op r))))"

definition stored_op :: "json \<Rightarrow> string \<Rightarrow> string \<Rightarrow> document_op option" where
  "stored_op src index doc_id =
     (let version = index_u64 src ''version''; routing = index_str src ''routing''
      in case index_str src ''action'' of
           None \<Rightarrow> None
         | Some action \<Rightarrow>
             if action = ''upsert'' then
               Some (OpUpsert index doc_id routing (json_index src ''document'') version (index_str src ''pipeline''))
             else if action = ''delete'' then Some (OpDelete index doc_id routing version)
             else if action = ''delete_children'' then
               Option.bind (index_str src ''field'') (\<lambda>field.
               Option.bind (index_str src ''parent_name'') (\<lambda>parent_name.
               Option.bind (index_str src ''parent_id'') (\<lambda>parent_id.
                 Some (OpDeleteChildren index field parent_name parent_id version))))
             else None)"

definition reject_from_doc :: "string \<Rightarrow> json \<Rightarrow> stored_reject option" where
  "reject_from_doc store_id src =
     Option.bind (index_str src ''index'') (\<lambda>index.
     Option.bind (index_str src ''doc_id'') (\<lambda>doc_id.
     Option.bind (stored_op src index doc_id) (\<lambda>op.
     Option.bind (index_u64 src ''position'') (\<lambda>position.
       Some \<lparr>sr_id = store_id,
             sr_rejection = \<lparr>rej_index = index, rej_doc_id = doc_id, rej_reason = unwrap_or [] (index_str src ''reason''),
               rej_lsn = Lsn position, rej_op = op\<rparr>,
             sr_at_epoch = unwrap_or 0 (index_u64 src ''at_epoch'')\<rparr>))))"

text \<open>Pairing refused bulk items with the operations that produced them.\<close>

fun op_subject :: "document_op \<Rightarrow> string \<times> string" where
  "op_subject (OpUpsert index doc_id _ _ _ _) = (index, doc_id)"
| "op_subject (OpDelete index doc_id _ _) = (index, doc_id)"
| "op_subject (OpDeleteChildren index _ _ parent_id _) = (index, parent_id)"

definition rejection_of :: "lsn_op list \<Rightarrow> nat \<times> string \<Rightarrow> (core_error, rejection) result" where
  "rejection_of batch = (\<lambda>(nth, reason).
     if nth < length batch then
       (let op = batch ! nth; (index, doc_id) = op_subject (op_doc op)
        in Inr \<lparr>rej_index = index, rej_doc_id = doc_id, rej_reason = reason, rej_lsn = op_lsn op, rej_op = op_doc op\<rparr>)
     else Inl (SinkError (''bulk response has '' @ show_nat (nth + 1) @ '' items for a batch of '' @ show_nat (length batch))))"

definition rejections :: "lsn_op list \<Rightarrow> (nat \<times> string) list \<Rightarrow> (core_error, rejection list) result" where
  "rejections batch permanent = mapr (rejection_of batch) permanent"

subsection \<open>Reading documents back\<close>

definition mget_body :: "(string \<times> string option) list \<Rightarrow> json" where
  "mget_body ids =
     (if \<forall>x \<in> set ids. snd x = None then json_obj [(''ids'', JArray (map (\<lambda>x. JString (fst x)) ids))]
      else json_obj [(''docs'', JArray (map (\<lambda>(doc_id, routing). case routing of
             Some r \<Rightarrow> json_obj [(''_id'', JString doc_id), (''routing'', JString r)]
           | None \<Rightarrow> json_obj [(''_id'', JString doc_id)]) ids))])"

definition mget_docs :: "json \<Rightarrow> json option list" where
  "mget_docs body = map (\<lambda>doc. json_get doc ''_source'') (unwrap_or [] (as_array (json_index body ''docs'')))"

subsection \<open>Facts\<close>

lemma json_obj_get: "json_get (json_obj kvs) k = map_of (rev kvs) k"
  by (simp add: json_obj_def bt_get_extend) (simp add: bt_get_def map_add_def split: option.split)

lemma json_obj_index: "json_index (json_obj kvs) k = unwrap_or JNull (map_of (rev kvs) k)"
  by (simp add: json_index_def json_obj_get)

lemma as_str_opt [simp]: "as_str (json_opt_str x) = x"
  by (simp add: json_opt_str_def split: option.split)

lemma as_u64_word [simp]: "json_as_u64 (json_u64 w) = Some (uint w)"
  using uint_lt2p [of w] by (simp add: json_u64_def)

lemma as_u64_opt [simp]: "json_as_u64 (json_opt_u64 x) = map_option uint x"
  by (simp add: json_opt_u64_def split: option.split)

text \<open>A checkpoint read back from its stored document is the checkpoint that was written, and
  a document of the first layout, which has only the textual position, still resumes where it
  stood.\<close>

theorem checkpoint_roundtrip:
  "checkpoint_from_doc (checkpoint_doc instance_id now ckpt) = Some ckpt \<and>
   checkpoint_from_doc (json_obj [(''confirmed_lsn'', JString (lsn_display l)), (''slot_name'', JString slot),
       (''publication'', JString pub)]) =
     Some \<lparr>ckpt_stream = \<lparr>source = SOURCE_POSTGRES, stream = slot, publication = pub\<rparr>,
       ckpt_token = lsn_val l, ckpt_position = lsn_display l\<rparr>"
proof -
  have p: "lsn_from_str (lsn_display l) = Inr l"
    by (simp add: lsn_from_str_def lsn_display_def split_once_append slash_notin_hex u64_from_hex_show lsn_halves)
  show ?thesis
    by (simp add: checkpoint_from_doc_def checkpoint_doc_def json_obj_index index_u64_def or_else_def p)
qed

lemma reject_doc_index:
  "json_index (reject_doc now r) k =
     (case reject_action (rej_op r) of (action, document, version) \<Rightarrow>
        unwrap_or JNull (map_of (rev (reject_extra (rej_op r)) @ rev
           [(''index'', JString (rej_index r)), (''doc_id'', JString (rej_doc_id r)), (''reason'', JString (rej_reason r)),
            (''position'', json_u64 (lsn_val (rej_lsn r))), (''action'', JString action), (''document'', document),
            (''version'', json_opt_u64 version), (''at_epoch'', json_u64 now)]) k))"
  by (simp add: reject_doc_def bt_get_extend bt_get_def map_add_def split: prod.split option.split)

lemma reject_doc_roundtrip:
  assumes "op_subject (rej_op r) = (rej_index r, rej_doc_id r)"
  shows "reject_from_doc store_id (reject_doc now r) = Some \<lparr>sr_id = store_id, sr_rejection = r, sr_at_epoch = now\<rparr>"
proof (cases "rej_op r")
  case (OpUpsert index doc_id routing doc version pipeline)
  with assms show ?thesis
    by (simp add: reject_from_doc_def reject_doc_index index_u64_def stored_op_def option.map_comp comp_def option.map_ident)
next
  case (OpDelete index doc_id routing version)
  with assms show ?thesis
    by (simp add: reject_from_doc_def reject_doc_index index_u64_def stored_op_def option.map_comp comp_def option.map_ident)
next
  case (OpDeleteChildren index field parent_name parent_id version)
  with assms show ?thesis
    by (simp add: reject_from_doc_def reject_doc_index index_u64_def stored_op_def option.map_comp comp_def option.map_ident)
qed

lemma rejection_of_Inr:
  "rejection_of batch x = Inr r \<longleftrightarrow> fst x < length batch \<and> rej_reason r = snd x \<and>
     rej_lsn r = op_lsn (batch ! fst x) \<and> rej_op r = op_doc (batch ! fst x) \<and>
     op_subject (rej_op r) = (rej_index r, rej_doc_id r)"
  by (cases r; cases x) (auto simp: rejection_of_def Let_def split: prod.split)

text \<open>Refused items are paired with their operations by position or not at all: when the pairing
  succeeds each rejection carries the operation, position and reason of its own item, filed under
  the document the operation names, and reads back from its stored form unchanged.\<close>

theorem rejections_paired:
  assumes "rejections batch permanent = Inr rs"
  shows "length rs = length permanent \<and>
    (\<forall>i < length permanent. fst (permanent ! i) < length batch \<and>
       rej_op (rs ! i) = op_doc (batch ! fst (permanent ! i)) \<and> rej_lsn (rs ! i) = op_lsn (batch ! fst (permanent ! i)) \<and>
       rej_reason (rs ! i) = snd (permanent ! i) \<and>
       reject_from_doc store_id (reject_doc now (rs ! i)) =
         Some \<lparr>sr_id = store_id, sr_rejection = rs ! i, sr_at_epoch = now\<rparr>)"
proof -
  from assms have m: "map (rejection_of batch) permanent = map Inr rs" by (simp add: rejections_def mapr_Inr_iff)
  then have len: "length rs = length permanent" by (metis length_map)
  have "rejection_of batch (permanent ! i) = Inr (rs ! i)" if "i < length permanent" for i
    using arg_cong [OF m, of "\<lambda>xs. xs ! i"] that len by simp
  with len reject_doc_roundtrip show ?thesis by (auto simp: rejection_of_Inr)
qed

definition refused_batch :: "lsn_op list" where
  "refused_batch = [\<lparr>op_lsn = Lsn 0, op_doc = OpDelete ''users'' ''1'' None (Some 4)\<rparr>,
     \<lparr>op_lsn = Lsn 7, op_doc = OpUpsert ''users'' ''2'' (Some ''r'') (JBool True) (Some 7) None\<rparr>]"

theorem rejections_paired_witness:
  "\<exists>r. rejections refused_batch [(1, ''mapper_parsing_exception'')] = Inr [r] \<and> rej_doc_id r = ''2'' \<and>
    reject_from_doc ''q'' (reject_doc 9 r) = Some \<lparr>sr_id = ''q'', sr_rejection = r, sr_at_epoch = 9\<rparr>"
proof -
  let ?r = "\<lparr>rej_index = ''users'', rej_doc_id = ''2'', rej_reason = ''mapper_parsing_exception'', rej_lsn = Lsn 7,
    rej_op = OpUpsert ''users'' ''2'' (Some ''r'') (JBool True) (Some 7) None\<rparr>"
  have "rejections refused_batch [(1, ''mapper_parsing_exception'')] = Inr [?r]"
    by (simp add: rejections_def rejection_of_def refused_batch_def)
  from rejections_paired [OF this, of "''q''" 9] this show ?thesis by auto
qed

text \<open>Two different documents of one index are filed under the same name, so the second refusal
  replaces the first, whatever \<open>alnum\<close> says.\<close>

lemma reject_doc_id_collision:
  "reject_doc_id alnum ''u'' ''a:b'' = reject_doc_id alnum ''u'' ''a_b''"
  "reject_doc_id alnum ''a-b'' ''c'' = reject_doc_id alnum ''a'' ''b-c''"
  by (simp_all add: reject_doc_id_def tame_def is_alphanumeric_def is_continuation_def ascii_defs)

end
