(* ===== verification/Bulk_Write.thy ===== *)
theory Bulk_Write
  imports Retry_Policy Stored_Docs
begin

section \<open>Bulk writes (\<open>OpenSearchSink\<close> of \<open>crates/sink/src/lib.rs\<close>)\<close>

text \<open>
  One bulk request and the triage of its answer, the write of a batch in runs around the
  cascades, the creation of the indices its rows chose, and the clear of an index at a
  position. The target is a parameter: what it answers to a request is an argument.
\<close>

subsection \<open>Actions\<close>

definition external_version :: "u64 option \<Rightarrow> int option" where
  "external_version position =
     (case position of
        None \<Rightarrow> None
      | Some p \<Rightarrow> if p > 0 \<and> uint p \<le> i64_max then Some (uint p) else None)"

datatype bulk_operation =
    IndexAction string string "string option" "string option" "int option" json
  | DeleteAction string string "string option" "int option"

fun bulk_action :: "document_op \<Rightarrow> (core_error, bulk_operation) result" where
  "bulk_action (OpUpsert index doc_id routing doc version pipeline) =
     Inr (IndexAction index doc_id routing pipeline (external_version version) doc)"
| "bulk_action (OpDelete index doc_id routing version) =
     Inr (DeleteAction index doc_id routing (external_version version))"
| "bulk_action (OpDeleteChildren index field parent_name parent_id version) =
     Inl (SinkError (''the cascade for '' @ index @ ''/'' @ parent_id @
       '' reached a bulk request; write must run it between bulk requests''))"

subsection \<open>The triage of a bulk answer\<close>

definition item_entry :: "json \<Rightarrow> json" where
  "item_entry item = (case as_object item of Some ((_, entry) # _) \<Rightarrow> entry | _ \<Rightarrow> JNull)"

definition error_field :: "json \<Rightarrow> string \<Rightarrow> json" where
  "error_field entry k = json_index (json_index entry ''error'') k"

definition is_absent :: "json \<Rightarrow> bool" where
  "is_absent item \<longleftrightarrow>
     (let entry = json_index item ''delete''
      in json_index entry ''result'' = JString ''not_found'' \<or>
         error_field entry ''type'' = JString ''index_not_found_exception'')"

definition require_alias_refusal :: "json \<Rightarrow> string option" where
  "require_alias_refusal entry =
     (if error_field entry ''type'' \<noteq> JString ''index_not_found_exception'' then None
      else Option.bind (as_str (error_field entry ''reason'')) (\<lambda>reason.
        if find_split ''[require_alias]'' reason = None then None
        else
          (let index = unwrap_or ''the target index'' (or_else (as_str (error_field entry ''index'')) (index_str entry ''_index''))
           in Some (index @ '' is not an alias; with require_alias every write must go through one''))))"

datatype verdict = Retryable | Refused string | Settled

definition item_status :: "json \<Rightarrow> int" where
  "item_status entry = unwrap_or 0 (json_as_u64 (json_index entry ''status''))"

definition triage_item :: "json \<Rightarrow> verdict" where
  "triage_item item =
     (let entry = item_entry item;
          status = item_status entry;
          error_type = unwrap_or ''unknown'' (as_str (error_field entry ''type''))
      in if status = 429 \<or> status \<ge> 500 then Retryable
         else case require_alias_refusal entry of
           Some reason \<Rightarrow> Refused reason
         | None \<Rightarrow>
             if error_type = ''version_conflict_engine_exception'' then Settled
             else if is_absent item then Settled
             else if \<not> (200 \<le> status \<and> status < 300) then
               Refused (case as_str (error_field entry ''reason'') of
                   Some reason \<Rightarrow> error_type @ '': '' @ reason
                 | None \<Rightarrow> ''http '' @ show_int status)
             else Settled)"

fun refusals :: "nat \<Rightarrow> json list \<Rightarrow> (nat \<times> string) list" where
  "refusals k [] = []"
| "refusals k (item # items) =
     (case triage_item item of Refused reason \<Rightarrow> (k, reason) # refusals (Suc k) items | _ \<Rightarrow> refusals (Suc k) items)"

text \<open>The answer to a request: the send failed, or a status with a body that parsed or did not.\<close>

datatype response = SendFailed string | Answered nat "(string, json) result"

definition bulk_once :: "response \<Rightarrow> lsn_op list \<Rightarrow> (core_error, lsn \<times> (nat \<times> string) list) result" where
  "bulk_once resp batch =
     bindr (mapr (\<lambda>op. bulk_action (op_doc op)) batch) (\<lambda>ops.
       case resp of
         SendFailed e \<Rightarrow> Inl (SinkTransient (''bulk request failed: '' @ e))
       | Answered status parsed \<Rightarrow>
           if status = 429 \<or> status \<ge> 500 then Inl (SinkTransient (''http status '' @ show_nat status))
           else bindr (map_err SinkError parsed) (\<lambda>body.
             if json_index body ''errors'' \<noteq> JBool True then Inr (op_lsn (last batch), [])
             else
               (let items = unwrap_or [] (as_array (json_index body ''items''))
                in if \<exists>item \<in> set items. triage_item item = Retryable
                   then Inl (SinkTransient ''item-level 429/5xx in bulk response'')
                   else Inr (op_lsn (last batch), refusals 0 items))))"

subsection \<open>Writing a batch\<close>

fun is_cascade :: "document_op \<Rightarrow> bool" where
  "is_cascade (OpDeleteChildren _ _ _ _ _) = True"
| "is_cascade _ = False"

text \<open>The requests of a write, each with the position in the batch it starts at. \<open>bulk\<close> is
  \<open>bulk_with_retry\<close> and \<open>cascade\<close> is \<open>delete_children\<close>, as the target answers them.\<close>

datatype request = BulkRequest nat "lsn_op list" | CascadeRequest nat lsn_op

type_synonym bulk_answer = "nat \<Rightarrow> lsn_op list \<Rightarrow> (core_error, lsn \<times> (nat \<times> string) list) result"
type_synonym cascade_answer = "nat \<Rightarrow> document_op \<Rightarrow> (core_error, unit) result"

definition shift :: "nat \<Rightarrow> (nat \<times> string) list \<Rightarrow> (nat \<times> string) list" where
  "shift start perm = map (\<lambda>(i, why). (start + i, why)) perm"

definition send_run ::
  "bulk_answer \<Rightarrow> nat \<Rightarrow> lsn_op list \<Rightarrow> request list \<times> (core_error, (nat \<times> string) list) result" where
  "send_run bulk start run =
     (if run = [] then ([], Inr [])
      else ([BulkRequest start run], bindr (bulk start run) (\<lambda>(_, perm). Inr (shift start perm))))"

fun write_runs ::
  "bulk_answer \<Rightarrow> cascade_answer \<Rightarrow> nat \<Rightarrow> lsn_op list \<Rightarrow> lsn_op list
   \<Rightarrow> request list \<times> (core_error, (nat \<times> string) list) result" where
  "write_runs bulk cascade start run [] = send_run bulk start run"
| "write_runs bulk cascade start run (op # rest) =
     (if \<not> is_cascade (op_doc op) then write_runs bulk cascade start (run @ [op]) rest
      else
        (case send_run bulk start run of
           (reqs, Inl e) \<Rightarrow> (reqs, Inl e)
         | (reqs, Inr perm) \<Rightarrow>
             (let nth = start + length run; reqs = reqs @ [CascadeRequest nth op]
              in case cascade nth (op_doc op) of
                   Inl e \<Rightarrow> (reqs, Inl e)
                 | Inr _ \<Rightarrow>
                     (case write_runs bulk cascade (nth + 1) [] rest of
                        (reqs', r) \<Rightarrow> (reqs @ reqs', bindr r (\<lambda>perm'. Inr (perm @ perm')))))))"

definition claiming_template :: "(string \<times> json option) list \<Rightarrow> string \<Rightarrow> json option option" where
  "claiming_template templates name =
     map_option snd (List.find (\<lambda>(pattern, _). index_matches_pattern pattern name) templates)"

text \<open>The names a hash set yields come in an order of its own, the argument \<open>order\<close>.\<close>

fun create_claimed ::
  "(string \<Rightarrow> json option \<Rightarrow> (core_error, bool) result) \<Rightarrow> (string \<times> json option) list \<Rightarrow> string set
   \<Rightarrow> string set \<times> (core_error, unit) result" where
  "create_claimed create [] known = (known, Inr ())"
| "create_claimed create ((name, mapping) # claimed) known =
     (case create name mapping of
        Inl e \<Rightarrow> (known, Inl e)
      | Inr _ \<Rightarrow> create_claimed create claimed (insert name known))"

definition unknown_indexes :: "string set \<Rightarrow> lsn_op list \<Rightarrow> string list" where
  "unknown_indexes known batch =
     remdups (map (op_index \<circ> op_doc) (filter (\<lambda>op. is_upsert (op_doc op) \<and> op_index (op_doc op) \<notin> known) batch))"

definition ensure_batch_indexes ::
  "(string \<Rightarrow> json option \<Rightarrow> (core_error, bool) result) \<Rightarrow> (string list \<Rightarrow> string list) \<Rightarrow> (string \<times> json option) list
   \<Rightarrow> string set \<Rightarrow> lsn_op list \<Rightarrow> string set \<times> (core_error, unit) result" where
  "ensure_batch_indexes create order templates known batch =
     create_claimed create
       (List.map_filter (\<lambda>name. map_option (\<lambda>m. (name, m)) (claiming_template templates name))
         (order (unknown_indexes known batch))) known"

record target_answers =
  ta_create :: "string \<Rightarrow> json option \<Rightarrow> (core_error, bool) result"
  ta_order :: "string list \<Rightarrow> string list"
  ta_bulk :: bulk_answer
  ta_cascade :: cascade_answer

record search_sink =
  ss_templates :: "(string \<times> json option) list"
  ss_known :: "string set"

definition sink_write ::
  "target_answers \<Rightarrow> lsn_op list \<Rightarrow> search_sink \<Rightarrow> search_sink \<times> request list \<times> (core_error, sink_ack) result" where
  "sink_write target batch sk =
     (if batch = [] then (sk, [], Inl (SinkError ''engine must never send empty batches''))
      else case ensure_batch_indexes (ta_create target) (ta_order target) (ss_templates sk) (ss_known sk) batch of
        (known, Inl e) \<Rightarrow> (sk\<lparr>ss_known := known\<rparr>, [], Inl e)
      | (known, Inr _) \<Rightarrow>
          (case write_runs (ta_bulk target) (ta_cascade target) 0 [] batch of
             (reqs, r) \<Rightarrow> (sk\<lparr>ss_known := known\<rparr>, reqs,
               bindr r (\<lambda>permanent.
               bindr (rejections batch permanent) (\<lambda>rejected.
                 Inr \<lparr>max_lsn = op_lsn (last batch), rejected = rejected\<rparr>)))))"

subsection \<open>The properties of a write\<close>

text \<open>A source position becomes a document version without losing its order: of two positions
  that can be expressed at all, the later has the higher version, and zero is never one.\<close>

theorem external_version_order:
  assumes "external_version (Some a) = Some x" "external_version (Some b) = Some y"
  shows "(x \<le> y \<longleftrightarrow> a \<le> b) \<and> 0 < x \<and> x \<le> i64_max"
proof -
  have "x = uint a" "y = uint b" "0 < a" "uint a \<le> i64_max" using assms by (auto simp: external_version_def split: if_splits)
  moreover from \<open>0 < a\<close> have "0 < uint a" by (simp add: word_less_def)
  ultimately show ?thesis by (simp add: word_le_def)
qed

theorem external_version_order_witness:
  "external_version (Some 5) = Some 5 \<and> external_version (Some 9) = Some 9 \<and> external_version (Some 0) = None \<and>
   external_version (Some 18446744073709551615) = None \<and> (5 :: int) \<le> 9"
proof -
  have e: "external_version (Some 5) = Some 5" "external_version (Some 9) = Some 9" "external_version (Some 0) = None"
    "external_version (Some 18446744073709551615) = None"
    by (simp_all add: external_version_def i64_max_def)
  from external_version_order [OF e(1,2)] e show ?thesis by simp
qed

text \<open>What the bulk API answers for an operation that is done with: a success, a version conflict, or
  a delete of something that is not there.\<close>

definition lands :: "json \<Rightarrow> bool" where
  "lands item \<longleftrightarrow>
     200 \<le> item_status (item_entry item) \<and> item_status (item_entry item) < 300 \<or>
     error_field (item_entry item) ''type'' = JString ''version_conflict_engine_exception'' \<or> is_absent item"

lemma as_str_Some_iff: "as_str v = Some s \<longleftrightarrow> v = JString s"
  by (cases v) auto

lemma settled_lands: "triage_item item = Settled \<Longrightarrow> lands item"
  by (auto simp: triage_item_def lands_def Let_def unwrap_or_def as_str_Some_iff split: if_splits option.splits)

lemma refusals_iff: "(n, why) \<in> set (refusals k items) \<longleftrightarrow> (\<exists>i < length items. n = k + i \<and> triage_item (items ! i) = Refused why)"
proof (induction k items rule: refusals.induct)
  case (2 k item items)
  then show ?case by (cases "triage_item item") (auto simp: less_Suc_eq_0_disj)
qed simp


definition mixed_answer :: json where
  "mixed_answer = json_obj [(''errors'', JBool True), (''items'', JArray
     [json_obj [(''delete'', json_obj [(''status'', JNumber (NInt 404)), (''result'', JString ''not_found'')])],
      json_obj [(''index'', json_obj [(''status'', JNumber (NInt 400))])]])]"


fun request_ops :: "request \<Rightarrow> lsn_op list" where
  "request_ops (BulkRequest _ ops) = ops"
| "request_ops (CascadeRequest _ op) = [op]"

fun request_start :: "request \<Rightarrow> nat" where
  "request_start (BulkRequest start _) = start"
| "request_start (CascadeRequest start _) = start"

fun request_done :: "bulk_answer \<Rightarrow> cascade_answer \<Rightarrow> request \<Rightarrow> bool" where
  "request_done bulk cascade (BulkRequest start ops) \<longleftrightarrow>
     ops \<noteq> [] \<and> (\<forall>op \<in> set ops. \<not> is_cascade (op_doc op)) \<and> (\<exists>l perm. bulk start ops = Inr (l, perm))"
| "request_done bulk cascade (CascadeRequest start op) \<longleftrightarrow> is_cascade (op_doc op) \<and> cascade start (op_doc op) = Inr ()"

fun request_refusals :: "bulk_answer \<Rightarrow> request \<Rightarrow> (nat \<times> string) list" where
  "request_refusals bulk (BulkRequest start ops) = (case bulk start ops of Inr (_, perm) \<Rightarrow> shift start perm | Inl _ \<Rightarrow> [])"
| "request_refusals bulk (CascadeRequest _ _) = []"

text \<open>Consecutive requests start where the one before ended.\<close>

fun in_sequence :: "nat \<Rightarrow> request list \<Rightarrow> bool" where
  "in_sequence k [] = True"
| "in_sequence k (r # rs) \<longleftrightarrow> request_start r = k \<and> in_sequence (k + length (request_ops r)) rs"

lemma in_sequence_append:
  "in_sequence k (rs @ rs') \<longleftrightarrow> in_sequence k rs \<and> in_sequence (k + length (concat (map request_ops rs))) rs'"
  by (induction rs arbitrary: k) (auto simp: add.assoc)

definition runs_done :: "bulk_answer \<Rightarrow> cascade_answer \<Rightarrow> nat \<Rightarrow> lsn_op list \<Rightarrow> request list \<Rightarrow> (nat \<times> string) list \<Rightarrow> bool" where
  "runs_done bulk cascade start ops reqs perm \<longleftrightarrow>
     concat (map request_ops reqs) = ops \<and> in_sequence start reqs \<and> (\<forall>r \<in> set reqs. request_done bulk cascade r) \<and>
     perm = concat (map (request_refusals bulk) reqs)"

lemma runs_done_append:
  "runs_done bulk cascade start ops reqs perm \<Longrightarrow> runs_done bulk cascade (start + length ops) ops' reqs' perm' \<Longrightarrow>
   runs_done bulk cascade start (ops @ ops') (reqs @ reqs') (perm @ perm')"
  by (auto simp: runs_done_def in_sequence_append)

lemma send_run_done:
  "send_run bulk start run = (reqs, Inr perm) \<Longrightarrow> \<forall>op \<in> set run. \<not> is_cascade (op_doc op) \<Longrightarrow>
   runs_done bulk cascade start run reqs perm"
  by (auto simp: send_run_def runs_done_def bindr_Inr_iff split: if_splits)

lemma write_runs_done:
  "write_runs bulk cascade start run rest = (reqs, Inr perm) \<Longrightarrow> \<forall>op \<in> set run. \<not> is_cascade (op_doc op) \<Longrightarrow>
   runs_done bulk cascade start (run @ rest) reqs perm"
proof (induction bulk cascade start run rest arbitrary: reqs perm rule: write_runs.induct)
  case (1 bulk cascade start run)
  then show ?case using send_run_done by simp
next
  case (2 bulk cascade start run op rest)
  show ?case
  proof (cases "is_cascade (op_doc op)")
    case False
    with 2 show ?thesis by auto
  next
    case True
    let ?n = "start + length run"
    obtain reqs1 perm1 where s: "send_run bulk start run = (reqs1, Inr perm1)"
      using "2.prems"(1) True by (auto split: prod.splits sum.splits)
    with "2.prems"(1) True have c: "cascade ?n (op_doc op) = Inr ()"
      by (auto simp: Let_def split: sum.splits)
    obtain reqs2 r2 where w: "write_runs bulk cascade (?n + 1) [] rest = (reqs2, r2)" by fastforce
    with "2.prems"(1) True s c obtain perm2 where r2: "r2 = Inr perm2"
      and eq: "reqs = (reqs1 @ [CascadeRequest ?n op]) @ reqs2" "perm = perm1 @ perm2"
      by (auto simp: Let_def bindr_Inr_iff)
    have "runs_done bulk cascade (?n + 1) ([] @ rest) reqs2 perm2"
      by (rule "2.IH"(2) [OF _ s [symmetric]]) (use True c w r2 in \<open>auto simp: s\<close>)
    moreover have "runs_done bulk cascade ?n [op] [CascadeRequest ?n op] []"
      using True c by (simp add: runs_done_def)
    ultimately show ?thesis
      using runs_done_append [OF runs_done_append [OF send_run_done [OF s "2.prems"(2)]], of cascade "[op]" "[CascadeRequest ?n op]" "[]" rest reqs2 perm2] eq
      by simp
  qed
qed

text \<open>C12. A write that succeeds has sent every operation of its batch, in the order of the batch, in
  requests that all succeeded and that hold a cascade alone; what it reports as refused is what
  those requests reported, put back at the positions of the batch, and the position it reports is
  that of the batch's last operation.\<close>

theorem sink_write_sends_batch:
  assumes "sink_write target batch sk = (sk', reqs, Inr ack)"
  shows "concat (map request_ops reqs) = batch \<and> in_sequence 0 reqs \<and>
    (\<forall>r \<in> set reqs. request_done (ta_bulk target) (ta_cascade target) r) \<and>
    rejections batch (concat (map (request_refusals (ta_bulk target)) reqs)) = Inr (rejected ack) \<and>
    batch \<noteq> [] \<and> max_lsn ack = op_lsn (last batch)"
proof -
  from assms obtain permanent where w: "write_runs (ta_bulk target) (ta_cascade target) 0 [] batch = (reqs, Inr permanent)"
    and rej: "rejections batch permanent = Inr (rejected ack)" and "batch \<noteq> []" "max_lsn ack = op_lsn (last batch)"
    by (auto simp: sink_write_def bindr_Inr_iff split: if_splits prod.splits sum.splits)
  with write_runs_done [OF w] show ?thesis by (simp add: runs_done_def)
qed

definition calm_target :: target_answers where
  "calm_target = \<lparr>ta_create = (\<lambda>_ _. Inr True), ta_order = (\<lambda>xs. xs),
     ta_bulk = (\<lambda>_ ops. Inr (op_lsn (last ops), [])), ta_cascade = (\<lambda>_ _. Inr ())\<rparr>"

definition cascade_batch :: "lsn_op list" where
  "cascade_batch = [\<lparr>op_lsn = Lsn 0, op_doc = OpDelete ''shop'' ''1'' None (Some 4)\<rparr>,
     \<lparr>op_lsn = Lsn 0, op_doc = OpDeleteChildren ''shop'' ''rel'' ''order'' ''1'' (Some 4)\<rparr>,
     \<lparr>op_lsn = Lsn 7, op_doc = OpUpsert ''shop'' ''2'' None (JBool True) (Some 7) None\<rparr>]"

definition fresh_sink :: search_sink where
  "fresh_sink = \<lparr>ss_templates = [], ss_known = {}\<rparr>"

theorem sink_write_sends_batch_witness:
  "\<exists>sk' reqs ack. sink_write calm_target cascade_batch fresh_sink = (sk', reqs, Inr ack) \<and> length reqs = 3 \<and>
    concat (map request_ops reqs) = cascade_batch \<and> max_lsn ack = Lsn 7"
proof -
  let ?reqs = "[BulkRequest 0 [hd cascade_batch], CascadeRequest 1 (cascade_batch ! 1), BulkRequest 2 [cascade_batch ! 2]]"
  have "sink_write calm_target cascade_batch fresh_sink = (fresh_sink, ?reqs, Inr \<lparr>max_lsn = Lsn 7, rejected = []\<rparr>)"
    by (simp add: sink_write_def calm_target_def cascade_batch_def fresh_sink_def ensure_batch_indexes_def unknown_indexes_def
        claiming_template_def map_filter_simps send_run_def shift_def rejections_def)
  from sink_write_sends_batch [OF this] this show ?thesis by fastforce
qed

subsection \<open>Where the sink and its comments part\<close>

text \<open>A request the target refused as a whole, with a status below 500 and a body without the
  \<open>errors\<close> flag, is taken as done: no operation of it was written and its position is reported.\<close>

lemma refused_request_taken_as_done:
  assumes "status < 500" "status \<noteq> 429" "\<forall>op \<in> set batch. \<not> is_cascade (op_doc op)"
  shows "bulk_once (Answered status (Inr (json_obj [(''error'', reason), (''status'', JNumber (NInt (int status)))]))) batch =
    Inr (op_lsn (last batch), [])"
proof -
  have "\<exists>ops. mapr (\<lambda>op. bulk_action (op_doc op)) batch = Inr ops"
  proof -
    have "bulk_action (op_doc op) = Inr (projr (bulk_action (op_doc op)))" if "op \<in> set batch" for op
      using assms(3) that by (cases "op_doc op") fastforce+
    then have "mapr (\<lambda>op. bulk_action (op_doc op)) batch = Inr (map (\<lambda>op. projr (bulk_action (op_doc op))) batch)"
      by (rule mapr_Inr_map)
    then show ?thesis by blast
  qed
  with assms(1,2) show ?thesis by (auto simp: bulk_once_def json_obj_index)
qed

text \<open>The position reported for a batch is its last operation's, not its highest: a committed
  transaction followed by the first piece of a larger one reports zero and is not acknowledged.\<close>

lemma ack_is_last_not_highest:
  "\<exists>sk' reqs ack. sink_write calm_target [\<lparr>op_lsn = Lsn 7, op_doc = OpDelete ''a'' ''1'' None (Some 7)\<rparr>,
      \<lparr>op_lsn = Lsn 0, op_doc = OpDelete ''a'' ''2'' None (Some 9)\<rparr>] fresh_sink = (sk', reqs, Inr ack) \<and> max_lsn ack = Lsn 0"
  by (simp add: sink_write_def calm_target_def fresh_sink_def ensure_batch_indexes_def unknown_indexes_def
      claiming_template_def map_filter_simps send_run_def shift_def rejections_def)

end
