(* ===== verification/Clear_Index.thy ===== *)
theory Clear_Index
  imports Bulk_Write "HOL-Library.Product_Lexorder" "HOL-Library.Option_ord"
begin

section \<open>Clearing documents at a position (\<open>truncate_index\<close>, \<open>delete_children\<close> of \<open>crates/sink/src/lib.rs\<close>)\<close>

text \<open>
  Both operations read a page of documents and delete them at a version, round after round, until
  a page is empty or a round deletes nothing. The target's state is a type variable; its search
  and its bulk delete are parameters. A loop that may run for ever is a partial function, and the
  theorem proves that it returns: on a target that versions its documents, with fewer than a page
  of documents written after the position, what is left is exactly what was written after it.
\<close>

type_synonym hit = "string \<times> string \<times> string option"

definition PAGE :: nat where "PAGE = 1000"

definition hit_of :: "json \<Rightarrow> hit option" where
  "hit_of hit = Option.bind (index_str hit ''_index'') (\<lambda>found_in.
     map_option (\<lambda>doc_id. (found_in, doc_id, index_str hit ''_routing'')) (index_str hit ''_id''))"

definition hits_array :: "json \<Rightarrow> json list" where
  "hits_array body = unwrap_or [] (as_array (json_index (json_index body ''hits'') ''hits''))"

definition search_hits :: "json \<Rightarrow> hit list" where
  "search_hits body = List.map_filter hit_of (hits_array body)"

definition deleted_item :: "json \<Rightarrow> bool" where
  "deleted_item item \<longleftrightarrow>
     is_some_and (\<lambda>s. 200 \<le> s \<and> s < 300) (json_as_u64 (json_index (json_index item ''delete'') ''status''))"

definition deleted_count :: "json \<Rightarrow> nat" where
  "deleted_count body = length (filter deleted_item (unwrap_or [] (as_array (json_index body ''items''))))"

text \<open>The rounds: \<open>page\<close> reads a page, \<open>remove\<close> deletes it and counts what it deleted.\<close>

partial_function (option) clear_rounds ::
  "('s \<Rightarrow> (core_error, hit list) result) \<Rightarrow> (hit list \<Rightarrow> 's \<Rightarrow> (core_error, nat) result \<times> 's) \<Rightarrow> 's
   \<Rightarrow> ((core_error, unit) result \<times> 's) option" where
  "clear_rounds page remove s =
     (case page s of
        Inl e \<Rightarrow> Some (Inl e, s)
      | Inr hits \<Rightarrow>
          if hits = [] then Some (Inr (), s)
          else case remove hits s of
            (Inl e, s') \<Rightarrow> Some (Inl e, s')
          | (Inr deleted, s') \<Rightarrow> if deleted = 0 then Some (Inr (), s') else clear_rounds page remove s')"

record 's target =
  tg_refresh :: "string \<Rightarrow> 's \<Rightarrow> (core_error, unit) result"
  tg_search :: "string \<Rightarrow> json \<Rightarrow> string option \<Rightarrow> 's \<Rightarrow> (core_error, json) result"
  tg_bulk_delete :: "int option \<Rightarrow> hit list \<Rightarrow> 's \<Rightarrow> (core_error, json) result \<times> 's"
  tg_delete_by_query :: "string \<Rightarrow> json \<Rightarrow> 's \<Rightarrow> (core_error, unit) result \<times> 's"

definition remove_hits :: "'s target \<Rightarrow> int option \<Rightarrow> hit list \<Rightarrow> 's \<Rightarrow> (core_error, nat) result \<times> 's" where
  "remove_hits tg version hits s =
     (case tg_bulk_delete tg version hits s of (r, s') \<Rightarrow> (bindr r (\<lambda>body. Inr (deleted_count body)), s'))"

definition truncate_at_version ::
  "'s target \<Rightarrow> string \<Rightarrow> int \<Rightarrow> json \<Rightarrow> 's \<Rightarrow> ((core_error, unit) result \<times> 's) option" where
  "truncate_at_version tg index version query =
     clear_rounds (\<lambda>s. bindr (tg_search tg index query None s) (\<lambda>body. Inr (search_hits body)))
       (remove_hits tg (Some version))"

definition truncate_query :: "(string \<times> string) option \<Rightarrow> json" where
  "truncate_query only = (case only of
       Some (field, value) \<Rightarrow> json_obj [(''term'', json_obj [(field, JString value)])]
     | None \<Rightarrow> json_obj [(''match_all'', json_obj [])])"

definition truncate_index ::
  "'s target \<Rightarrow> string \<Rightarrow> u64 option \<Rightarrow> (string \<times> string) option \<Rightarrow> 's \<Rightarrow> ((core_error, unit) result \<times> 's) option" where
  "truncate_index tg index version only s =
     (case tg_refresh tg index s of
        Inl e \<Rightarrow> Some (Inl e, s)
      | Inr _ \<Rightarrow>
          (case external_version version of
             Some v \<Rightarrow> truncate_at_version tg index v (truncate_query only) s
           | None \<Rightarrow> Some (tg_delete_by_query tg index (truncate_query only) s)))"

text \<open>The cascade searches one shard and names that shard in every delete; a body that carries an
  error is one.\<close>

definition children_query :: "string \<Rightarrow> string \<Rightarrow> string \<Rightarrow> json" where
  "children_query field parent_name parent_id = json_obj [(''bool'', json_obj
     [(''filter'', JArray [json_obj [(''term'', json_obj [(field @ ''#'' @ parent_name, JString parent_id)])]]),
      (''must_not'', JArray [json_obj [(''term'', json_obj [(field, JString parent_name)])]])])]"

definition child_hits :: "externs \<Rightarrow> string \<Rightarrow> string \<Rightarrow> json \<Rightarrow> (core_error, hit list) result" where
  "child_hits ext index parent_id body =
     (case json_get body ''error'' of
        Some error \<Rightarrow> Inl (SinkError (''find children of '' @ index @ ''/'' @ parent_id @ '': '' @ value_to_string ext error))
      | None \<Rightarrow>
          Inr (List.map_filter (\<lambda>hit. map_option (\<lambda>doc_id. (index, doc_id, Some parent_id)) (index_str hit ''_id''))
            (hits_array body)))"

definition delete_children ::
  "externs \<Rightarrow> 's target \<Rightarrow> string \<Rightarrow> string \<Rightarrow> string \<Rightarrow> string \<Rightarrow> int option \<Rightarrow> 's
   \<Rightarrow> ((core_error, unit) result \<times> 's) option" where
  "delete_children ext tg index field parent_name parent_id version s =
     (case tg_refresh tg index s of
        Inl e \<Rightarrow> Some (Inl e, s)
      | Inr _ \<Rightarrow>
          clear_rounds
            (\<lambda>s. bindr (tg_search tg index (children_query field parent_name parent_id) (Some parent_id) s) (child_hits ext index parent_id))
            (remove_hits tg version) s)"

subsection \<open>A target that versions its documents\<close>

text \<open>What the search and bulk interfaces document: a page holds as many of the documents as fit,
  each once; a delete at a version removes a document whose version is not above it and is
  refused otherwise.\<close>

type_synonym versions = "hit \<rightharpoonup> int"

definition newer :: "int \<Rightarrow> versions \<Rightarrow> hit set" where
  "newer v s = {k. \<exists>x. s k = Some x \<and> v < x}"

definition older :: "int \<Rightarrow> versions \<Rightarrow> hit set" where
  "older v s = {k. \<exists>x. s k = Some x \<and> x \<le> v}"

definition pages :: "(versions \<Rightarrow> (core_error, hit list) result) \<Rightarrow> bool" where
  "pages page \<longleftrightarrow> (\<forall>s. finite (dom s) \<longrightarrow> (\<exists>hits. page s = Inr hits \<and> distinct hits \<and> set hits \<subseteq> dom s \<and>
     length hits = min PAGE (card (dom s))))"

definition versioned_removal :: "int \<Rightarrow> (hit list \<Rightarrow> versions \<Rightarrow> (core_error, nat) result \<times> versions) \<Rightarrow> bool" where
  "versioned_removal v remove \<longleftrightarrow> (\<forall>hits s. distinct hits \<longrightarrow>
     remove hits s = (Inr (card (set hits \<inter> older v s)), s |` (- (set hits \<inter> older v s))))"

lemma restrict_map_dom_id: "m |` dom m = m"
  by (auto simp: restrict_map_def fun_eq_iff dom_def)

lemma restrict_map_UNIV [simp]: "m |` UNIV = m"
  by (auto simp: restrict_map_def)

lemma dom_split: "dom s = older v s \<union> newer v s" "older v s \<inter> newer v s = {}"
  by (auto simp: older_def newer_def dom_def)

lemma restrict_newer: "newer v (s |` (- (A \<inter> older v s))) = newer v s"
  by (auto simp: newer_def older_def restrict_map_def)

lemma clear_rounds_versioned:
  assumes page: "pages page" and remove: "versioned_removal v remove"
  shows "finite (dom s) \<Longrightarrow> card (newer v s) < PAGE \<Longrightarrow> clear_rounds page remove s = Some (Inr (), s |` newer v s)"
proof (induction "card (dom s)" arbitrary: s rule: less_induct)
  case less
  from page less.prems(1) obtain hits where h: "page s = Inr hits" "distinct hits" "set hits \<subseteq> dom s"
    "length hits = min PAGE (card (dom s))"
    unfolding pages_def by blast
  have rem: "remove hits s = (Inr (card (set hits \<inter> older v s)), s |` (- (set hits \<inter> older v s)))"
    using remove h(2) by (simp add: versioned_removal_def)
  have all: "s |` newer v s = s" if "older v s = {}"
    using that dom_split(1) [of s v] restrict_map_dom_id [of s] by simp
  show ?case
  proof (cases "set hits \<inter> older v s = {}")
    case True
    then have "set hits \<subseteq> newer v s" using h(3) dom_split(1) [of s v] by blast
    moreover have "finite (newer v s)" using less.prems(1) dom_split(1) [of s v] by (metis finite_Un)
    ultimately have "length hits \<le> card (newer v s)" using card_mono distinct_card [OF h(2)] by metis
    with less.prems(2) h(4) have "length hits = card (dom s)" by linarith
    then have "set hits = dom s" using card_subset_eq [OF less.prems(1) h(3)] distinct_card [OF h(2)] by simp
    with True have "older v s = {}" using dom_split(1) [of s v] by blast
    with all rem h(1) True show ?thesis by (subst clear_rounds.simps) simp
  next
    case False
    let ?s = "s |` (- (set hits \<inter> older v s))"
    from False obtain k where k: "k \<in> set hits" "k \<in> older v s" by blast
    have sub: "dom ?s \<subset> dom s" using k by (auto simp: older_def dom_def restrict_map_def)
    have "clear_rounds page remove ?s = Some (Inr (), ?s |` newer v ?s)"
    proof (rule less.hyps)
      show "card (dom ?s) < card (dom s)" by (rule psubset_card_mono [OF less.prems(1) sub])
      show "finite (dom ?s)" using finite_subset less.prems(1) sub by blast
      show "card (newer v ?s) < PAGE" unfolding restrict_newer by (rule less.prems(2))
    qed
    moreover have "?s |` newer v ?s = s |` newer v s"
      unfolding restrict_newer using dom_split(2) [of v s] by (auto simp: restrict_map_def fun_eq_iff)
    moreover have "card (set hits \<inter> older v s) \<noteq> 0" using False by simp
    ultimately show ?thesis using h(1) rem k(1) by (subst clear_rounds.simps) auto
  qed
qed


text \<open>A target as documented, over the JSON bodies it answers with.\<close>

definition hit_json :: "hit \<Rightarrow> json" where
  "hit_json h = (case h of (found_in, doc_id, routing) \<Rightarrow>
     json_obj [(''_index'', JString found_in), (''_id'', JString doc_id), (''_routing'', json_opt_str routing)])"

definition store_target :: "versions target" where
  "store_target = \<lparr>tg_refresh = (\<lambda>_ _. Inr ()),
     tg_search = (\<lambda>_ _ _ s. Inr (json_obj [(''hits'', json_obj
       [(''hits'', JArray (map hit_json (take PAGE (sorted_list_of_set (dom s)))))])])),
     tg_bulk_delete = (\<lambda>version hits s.
       let v = unwrap_or 0 version
       in (Inr (json_obj [(''items'', JArray (map (\<lambda>h. json_obj [(''delete'', json_obj
             [(''status'', JNumber (NInt (if h \<in> older v s then 200 else 409)))])]) hits))]),
           s |` (- (set hits \<inter> older v s)))),
     tg_delete_by_query = (\<lambda>_ _ s. (Inr (), s))\<rparr>"

lemma hit_of_json [simp]: "hit_of (hit_json h) = Some h"
  by (cases h) (simp add: hit_json_def hit_of_def json_obj_index)

lemma map_filter_hits [simp]: "List.map_filter hit_of (map hit_json hs) = hs"
  by (induction hs) (simp_all add: map_filter_simps)

lemma store_pages: "pages (\<lambda>s. bindr (tg_search store_target index query None s) (\<lambda>body. Inr (search_hits body)))"
  using set_take_subset [of PAGE "sorted_list_of_set (dom s)" for s :: versions]
  by (force simp: pages_def store_target_def search_hits_def hits_array_def json_obj_index)

lemma store_removal: "versioned_removal v (remove_hits store_target (Some v))"
proof -
  have "deleted_item (json_obj [(''delete'', json_obj [(''status'', JNumber (NInt (if b then 200 else 409)))])]) \<longleftrightarrow> b" for b
    by (simp add: deleted_item_def json_obj_index)
  then have "length (filter deleted_item (map (\<lambda>h. json_obj [(''delete'', json_obj
        [(''status'', JNumber (NInt (if h \<in> older v s then 200 else 409)))])]) hits)) = card (set hits \<inter> older v s)"
    if "distinct hits" for hits s
    using that distinct_card [of "filter (\<lambda>h. h \<in> older v s) hits"]
    by (simp add: filter_map comp_def Int_def conj_commute)
  then show ?thesis
    by (simp add: versioned_removal_def remove_hits_def store_target_def deleted_count_def json_obj_index)
qed


text \<open>The bound on the newer documents is needed: a page full of documents written after the position
  deletes nothing and ends the rounds, with older documents still there.\<close>

lemma full_page_of_newer_stops:
  assumes "page s = Inr hits" "hits \<noteq> []" "distinct hits" "set hits \<subseteq> newer v s" "versioned_removal v remove"
  shows "clear_rounds page remove s = Some (Inr (), s)"
proof -
  have "set hits \<inter> older v s = {}" using assms(4) dom_split(2) [of v s] by blast
  moreover have "remove hits s = (Inr (card (set hits \<inter> older v s)), s |` (- (set hits \<inter> older v s)))"
    using assms(3,5) unfolding versioned_removal_def by blast
  ultimately have "remove hits s = (Inr 0, s)" by (simp only: card.empty Compl_empty_eq restrict_map_UNIV)
  with assms(1,2) show ?thesis by (subst clear_rounds.simps) simp
qed

end
