(* ===== verification/Child_Rows.thy ===== *)
theory Child_Rows
  imports Sink_Types Row_Filter
begin

section \<open>Nested children and aggregates (\<open>crates/core/src/children.rs\<close>, \<open>aggregate.rs\<close>)\<close>

text \<open>
  The specification of a child collection, how one lands on a parent document, and
  \<open>Pending\<close>, the group of rows held back until their children are resolved. A \<open>HashMap\<close>
  whose entries are iterated is an association list with one entry per key: the order of
  the entries is one the map may iterate in, and the theorems do not depend on it. The text
  form of a JSON value, which keys are compared by, comes from the \<open>externs\<close> parameter.
\<close>

record through =
  th_schema :: string
  th_table :: string
  th_through_key :: string
  th_child_key :: string

definition through_new :: "string \<Rightarrow> string \<Rightarrow> (core_error, through) result" where
  "through_new qualified through_key =
     bindr (ok_or (OtherError (''through table '' @ qualified @ '' must be schema-qualified''))
              (split_once (CHR ''.'') qualified)) (\<lambda>(schema, tab).
       Inr \<lparr>th_schema = schema, th_table = tab, th_through_key = through_key, th_child_key = []\<rparr>)"

definition through_qualified :: "through \<Rightarrow> string" where
  "through_qualified t = th_schema t @ ''.'' @ th_table t"

record child_spec =
  cs_schema :: string
  cs_table :: string
  cs_field :: string
  cs_foreign_key :: string
  cs_parent_column :: string
  cs_order_by :: "string list"
  cs_max_rows :: "32 word option"
  cs_columns :: "string list option"
  cs_exclude_columns :: "string list"
  cs_single :: bool
  cs_through :: "through option"

definition child_spec_new :: "string \<Rightarrow> string \<Rightarrow> string \<Rightarrow> string \<Rightarrow> (core_error, child_spec) result" where
  "child_spec_new qualified_child field foreign_key parent_column =
     bindr (ok_or (OtherError (''child table '' @ qualified_child @ '' must be schema-qualified''))
              (split_once (CHR ''.'') qualified_child)) (\<lambda>(schema, tab).
       Inr \<lparr>cs_schema = schema, cs_table = tab, cs_field = field, cs_foreign_key = foreign_key,
            cs_parent_column = parent_column, cs_order_by = [], cs_max_rows = None, cs_columns = None,
            cs_exclude_columns = [], cs_single = False, cs_through = None\<rparr>)"

definition child_qualified :: "child_spec \<Rightarrow> string" where
  "child_qualified spec = cs_schema spec @ ''.'' @ cs_table spec"

definition child_reads :: "child_spec \<Rightarrow> string \<Rightarrow> string \<Rightarrow> bool" where
  "child_reads spec schema tab \<longleftrightarrow>
     (cs_schema spec = schema \<and> cs_table spec = tab) \<or>
     is_some_and (\<lambda>t. th_schema t = schema \<and> th_table t = tab) (cs_through spec)"

definition total_field :: "child_spec \<Rightarrow> string" where
  "total_field spec = cs_field spec @ ''_total''"

definition truncated_field :: "child_spec \<Rightarrow> string" where
  "truncated_field spec = cs_field spec @ ''_truncated''"

record applied =
  ap_truncated :: bool
  ap_matched :: nat

definition applied_default :: applied where
  "applied_default = \<lparr>ap_truncated = False, ap_matched = 0\<rparr>"

definition shape_collection :: "child_spec \<Rightarrow> json \<Rightarrow> json \<times> nat" where
  "shape_collection spec array =
     (let matched = (case as_array array of None \<Rightarrow> 0 | Some rows \<Rightarrow> length rows)
      in if \<not> cs_single spec then (array, matched)
         else (case array of
                 JArray rows \<Rightarrow> (case rows of [] \<Rightarrow> JNull | row # _ \<Rightarrow> row)
               | other \<Rightarrow> other, matched))"

definition apply_collection :: "json \<Rightarrow> child_spec \<Rightarrow> json \<Rightarrow> int \<Rightarrow> json \<times> applied" where
  "apply_collection doc spec array total_rows =
     (case as_object doc of
        None \<Rightarrow> (doc, applied_default)
      | Some m \<Rightarrow>
          (let (value, matched) = shape_collection spec array;
               m = bt_insert (cs_field spec) value m;
               truncated = (\<not> cs_single spec \<and> total_rows > int matched);
               m = (if truncated
                    then bt_insert (total_field spec) (JNumber (NInt total_rows))
                           (bt_insert (truncated_field spec) (JBool True) m)
                    else m)
           in (JObject m, \<lparr>ap_truncated = truncated, ap_matched = matched\<rparr>)))"

record duplicates =
  du_parents :: nat
  du_largest :: "(json \<times> nat) option"

definition duplicates_default :: duplicates where
  "duplicates_default = \<lparr>du_parents = 0, du_largest = None\<rparr>"

definition duplicates_record :: "child_spec \<Rightarrow> json \<Rightarrow> nat \<Rightarrow> duplicates \<Rightarrow> duplicates" where
  "duplicates_record spec key matched d =
     (if \<not> cs_single spec \<or> matched < 2 then d
      else \<lparr>du_parents = du_parents d + 1,
            du_largest = (if is_none_or (\<lambda>(_, most). matched > most) (du_largest d)
                          then Some (key, matched) else du_largest d)\<rparr>)"

definition duplicates_message :: "externs \<Rightarrow> child_spec \<Rightarrow> duplicates \<Rightarrow> string option" where
  "duplicates_message ext spec d =
     map_option (\<lambda>(key, most).
         show_nat (du_parents d) @ '' document(s) embed only the lowest-keyed row of '' @ child_qualified spec
         @ '', which single = true declares one-to-one; the largest is parent '' @ value_to_string ext key
         @ '' with '' @ show_nat most @ '' matching rows'')
       (du_largest d)"

definition UNBOUNDED_ARRAY_WARNING :: int where "UNBOUNDED_ARRAY_WARNING = 10000"

definition key_lookup :: "externs \<Rightarrow> json \<Rightarrow> string" where
  "key_lookup ext key = value_to_string ext key"

subsection \<open>Pending rows\<close>

text \<open>\<open>map.entry(k).or_default().push(v)\<close>.\<close>

fun entry_push :: "'k \<Rightarrow> 'v \<Rightarrow> ('k \<times> 'v list) list \<Rightarrow> ('k \<times> 'v list) list" where
  "entry_push k v [] = [(k, [v])]"
| "entry_push k v ((k', vs) # m) = (if k = k' then (k', vs @ [v]) # m else (k', vs) # entry_push k v m)"

definition entry_list :: "('k \<times> 'v list) list \<Rightarrow> 'k \<Rightarrow> 'v list" where
  "entry_list m k = unwrap_or [] (map_of m k)"

definition entry_remove :: "'k \<Rightarrow> ('k \<times> 'v list) list \<Rightarrow> ('k \<times> 'v list) list" where
  "entry_remove k m = filter (\<lambda>(k', _). k' \<noteq> k) m"

record pending =
  pe_parents :: "(table \<times> row_change list) list"
  pe_named :: "(table \<times> json list) list"
  pe_through :: "((table \<times> string) \<times> json list) list"
  pe_seen :: "(table \<times> string) set"
  pe_seen_through :: "(table \<times> string \<times> string) set"

definition pending_default :: pending where
  "pending_default = \<lparr>pe_parents = [], pe_named = [], pe_through = [], pe_seen = {}, pe_seen_through = {}\<rparr>"

definition hold_parent :: "table \<Rightarrow> row_change \<Rightarrow> pending \<Rightarrow> pending" where
  "hold_parent tab change p = p\<lparr>pe_parents := entry_push tab change (pe_parents p)\<rparr>"

definition name_parent :: "externs \<Rightarrow> table \<Rightarrow> json \<Rightarrow> pending \<Rightarrow> pending" where
  "name_parent ext tab key p =
     (let id = (tab, key_lookup ext key)
      in if id \<in> pe_seen p then p
         else p\<lparr>pe_seen := insert id (pe_seen p), pe_named := entry_push tab key (pe_named p)\<rparr>)"

definition name_through :: "externs \<Rightarrow> table \<Rightarrow> string \<Rightarrow> json \<Rightarrow> pending \<Rightarrow> pending" where
  "name_through ext tab field child_key p =
     (let id = (tab, field, key_lookup ext child_key)
      in if id \<in> pe_seen_through p then p
         else p\<lparr>pe_seen_through := insert id (pe_seen_through p),
                pe_through := entry_push (tab, field) child_key (pe_through p)\<rparr>)"

definition take_through :: "pending \<Rightarrow> ((table \<times> string) \<times> json list) list \<times> pending" where
  "take_through p = (pe_through p, p\<lparr>pe_through := []\<rparr>)"

definition pending_is_empty :: "pending \<Rightarrow> bool" where
  "pending_is_empty p \<longleftrightarrow> pe_parents p = [] \<and> pe_named p = [] \<and> pe_through p = []"

definition pending_len :: "pending \<Rightarrow> nat" where
  "pending_len p = sum_list (map (length \<circ> snd) (pe_parents p)) + sum_list (map (length \<circ> snd) (pe_named p))
     + sum_list (map (length \<circ> snd) (pe_through p))"

definition pending_tables :: "pending \<Rightarrow> table list" where
  "pending_tables p = remdups (map fst (pe_parents p) @ map fst (pe_named p))"

definition pending_take :: "table \<Rightarrow> pending \<Rightarrow> (row_change list \<times> json list) \<times> pending" where
  "pending_take tab p =
     ((entry_list (pe_parents p) tab, entry_list (pe_named p) tab),
      p\<lparr>pe_parents := entry_remove tab (pe_parents p), pe_named := entry_remove tab (pe_named p)\<rparr>)"

definition clear_seen :: "pending \<Rightarrow> pending" where
  "clear_seen p = p\<lparr>pe_seen := {}, pe_seen_through := {}\<rparr>"

definition keys_needing_refetch :: "externs \<Rightarrow> row_change list \<Rightarrow> json list \<Rightarrow> json list" where
  "keys_needing_refetch ext rows named =
     filter (\<lambda>k. key_lookup ext k \<notin> set (map (\<lambda>r. key_lookup ext (rc_pk r)) rows)) named"

subsection \<open>Aggregates\<close>

record aggregate_spec =
  as_schema :: string
  as_table :: string
  as_field :: string
  as_foreign_key :: string
  as_parent_column :: string
  as_filter :: "row_filter option"

definition aggregate_spec_new :: "string \<Rightarrow> string \<Rightarrow> string \<Rightarrow> string \<Rightarrow> (core_error, aggregate_spec) result" where
  "aggregate_spec_new qualified field foreign_key parent_column =
     bindr (ok_or (OtherError (''aggregate table '' @ qualified @ '' must be schema-qualified''))
              (split_once (CHR ''.'') qualified)) (\<lambda>(schema, tab).
       Inr \<lparr>as_schema = schema, as_table = tab, as_field = field, as_foreign_key = foreign_key,
            as_parent_column = parent_column, as_filter = None\<rparr>)"

definition aggregate_qualified :: "aggregate_spec \<Rightarrow> string" where
  "aggregate_qualified spec = as_schema spec @ ''.'' @ as_table spec"

definition aggregate_reads :: "aggregate_spec \<Rightarrow> string \<Rightarrow> string \<Rightarrow> bool" where
  "aggregate_reads spec schema tab \<longleftrightarrow> as_schema spec = schema \<and> as_table spec = tab"

definition apply_count :: "json \<Rightarrow> aggregate_spec \<Rightarrow> int \<Rightarrow> json" where
  "apply_count doc spec count =
     (case as_object doc of
        None \<Rightarrow> doc
      | Some m \<Rightarrow> JObject (bt_insert (as_field spec) (JNumber (NInt count)) m))"

subsection \<open>Facts\<close>

lemma child_spec_new_qualified:
  "child_spec_new q f fk pc = Inr spec \<Longrightarrow> child_qualified spec = q \<and> cs_field spec = f"
  by (auto simp: child_spec_new_def bindr_Inr_iff ok_or_def child_qualified_def split_once_Some_iff split: option.splits)

lemma entry_list_push: "entry_list (entry_push k v m) k' = entry_list m k' @ (if k = k' then [v] else [])"
  by (induction k v m rule: entry_push.induct) (auto simp: entry_list_def)

lemma fst_entry_push: "set (map fst (entry_push k v m)) = insert k (set (map fst m))"
  by (induction k v m rule: entry_push.induct) auto

lemma entry_list_remove: "entry_list (entry_remove k m) k' = (if k' = k then [] else entry_list m k')"
  by (induction m) (auto simp: entry_list_def entry_remove_def)

lemma entry_list_Nil [simp]: "entry_list [] k = []"
  by (simp add: entry_list_def)

lemma fields_distinct:
  "truncated_field spec \<noteq> cs_field spec" "total_field spec \<noteq> cs_field spec"
  "total_field spec \<noteq> truncated_field spec"
  by (simp_all add: truncated_field_def total_field_def)

text \<open>A document claims to hold a whole collection exactly when it does: after a collection
  lands on an object that did not already carry the marker fields, the marker says truncated
  just when the source holds more rows than the array, the total is the source's count, the
  field holds the array, and no other field of the document has changed.\<close>

theorem apply_collection_honest:
  assumes "bt_get m (truncated_field spec) = None" "bt_get m (total_field spec) = None" "\<not> cs_single spec"
  shows "\<exists>m'. fst (apply_collection (JObject m) spec (JArray rows) total_rows) = JObject m' \<and>
    bt_get m' (cs_field spec) = Some (JArray rows) \<and>
    bt_get m' (truncated_field spec) = (if total_rows > int (length rows) then Some (JBool True) else None) \<and>
    bt_get m' (total_field spec) = (if total_rows > int (length rows) then Some (JNumber (NInt total_rows)) else None) \<and>
    (\<forall>k. k \<notin> {cs_field spec, truncated_field spec, total_field spec} \<longrightarrow> bt_get m' k = bt_get m k)"
  using assms fields_distinct [of spec] fields_distinct [of spec, THEN not_sym]
  by (simp add: apply_collection_def shape_collection_def Let_def)

theorem apply_collection_honest_witness:
  "\<exists>spec m'. child_spec_new ''public.items'' ''items'' ''order_id'' ''id'' = Inr spec \<and>
     fst (apply_collection (JObject []) spec (JArray [JNull]) 2) = JObject m' \<and>
     bt_get m' ''items_truncated'' = Some (JBool True)"
proof -
  obtain spec where spec: "child_spec_new ''public.items'' ''items'' ''order_id'' ''id'' = Inr spec"
    "cs_field spec = ''items''" "\<not> cs_single spec"
    by (simp add: child_spec_new_def)
  from apply_collection_honest [of "[]" spec "[JNull]" 2] spec
  show ?thesis by (auto simp: truncated_field_def bt_get_def)
qed

subsubsection \<open>What a group of pending rows holds\<close>

text \<open>The operations that fill a group, and what they should leave for one table: the rows in
  the order they came, and each named key once, where it was first named.\<close>

datatype pending_op =
    HoldParent table row_change
  | NameParent table json
  | NameThrough table string json

fun pending_step :: "externs \<Rightarrow> pending_op \<Rightarrow> pending \<Rightarrow> pending" where
  "pending_step ext (HoldParent tab change) p = hold_parent tab change p"
| "pending_step ext (NameParent tab key) p = name_parent ext tab key p"
| "pending_step ext (NameThrough tab field key) p = name_through ext tab field key p"

definition held_for :: "table \<Rightarrow> pending_op list \<Rightarrow> row_change list" where
  "held_for tab ops = List.map_filter (\<lambda>op. case op of HoldParent t c \<Rightarrow> if t = tab then Some c else None | _ \<Rightarrow> None) ops"

definition named_for :: "table \<Rightarrow> pending_op list \<Rightarrow> json list" where
  "named_for tab ops = List.map_filter (\<lambda>op. case op of NameParent t k \<Rightarrow> if t = tab then Some k else None | _ \<Rightarrow> None) ops"

definition first_by :: "('a \<Rightarrow> 'b) \<Rightarrow> 'a list \<Rightarrow> 'a list" where
  "first_by f xs = fold (\<lambda>x acc. if f x \<in> f ` set acc then acc else acc @ [x]) xs []"

lemma first_by_snoc: "first_by f (xs @ [x]) = (if f x \<in> f ` set xs then first_by f xs else first_by f xs @ [x])"
proof -
  have "f ` set (first_by f ys) = f ` set ys" for ys
    unfolding first_by_def by (induction ys rule: rev_induct) (auto simp: insert_absorb)
  then show ?thesis by (simp add: first_by_def)
qed

lemma first_by_image: "f ` set (first_by f xs) = f ` set xs"
  by (induction xs rule: rev_induct) (auto simp: first_by_snoc first_by_def [of f "[]"])

lemma first_by_distinct: "distinct (map f (first_by f xs))"
  by (induction xs rule: rev_induct) (auto simp: first_by_snoc first_by_image first_by_def [of f "[]"])

lemma map_filter_snoc: "List.map_filter f (xs @ [x]) = List.map_filter f xs @ (case f x of None \<Rightarrow> [] | Some y \<Rightarrow> [y])"
  by (simp add: List.map_filter_def split: option.splits)

lemma pending_fill:
  "entry_list (pe_parents (fold (pending_step ext) ops pending_default)) tab = held_for tab ops \<and>
   entry_list (pe_named (fold (pending_step ext) ops pending_default)) tab = first_by (key_lookup ext) (named_for tab ops) \<and>
   ((tab, s) \<in> pe_seen (fold (pending_step ext) ops pending_default) \<longleftrightarrow> s \<in> key_lookup ext ` set (named_for tab ops))"
proof (induction ops arbitrary: tab s rule: rev_induct)
  case Nil
  then show ?case by (simp add: pending_default_def held_for_def named_for_def first_by_def)
next
  case (snoc op ops)
  show ?case
  proof (cases op)
    case (NameParent t k)
    let ?p = "fold (pending_step ext) ops pending_default"
    have seen: "(t, key_lookup ext k) \<in> pe_seen ?p \<longleftrightarrow> key_lookup ext k \<in> key_lookup ext ` set (named_for t ops)"
      using snoc [of t "key_lookup ext k"] by blast
    have named: "named_for tab (ops @ [op]) = named_for tab ops @ (if t = tab then [k] else [])"
      "held_for tab (ops @ [op]) = held_for tab ops"
      using NameParent by (simp_all add: named_for_def held_for_def map_filter_snoc)
    have p: "fold (pending_step ext) (ops @ [op]) pending_default = name_parent ext t k ?p"
      using NameParent by simp
    show ?thesis
    proof (cases "key_lookup ext k \<in> key_lookup ext ` set (named_for t ops)")
      case True
      with seen have "name_parent ext t k ?p = ?p" by (simp add: name_parent_def)
      with True snoc [of tab s] show ?thesis
        unfolding p named by (cases "t = tab") (auto simp: first_by_snoc)
    next
      case False
      with seen snoc [of tab s] show ?thesis
        unfolding p named by (cases "t = tab") (auto simp: name_parent_def entry_list_push first_by_snoc)
    qed
  qed (use snoc in \<open>simp_all add: hold_parent_def name_through_def Let_def entry_list_push
         held_for_def named_for_def map_filter_snoc\<close>)
qed

text \<open>A group of pending rows hands each table the rows held for it in arrival order and
  each distinct key named for it exactly once, whatever the order the operations on the
  different tables came in.\<close>

theorem pending_group:
  "fst (pending_take tab (fold (pending_step ext) ops pending_default)) =
     (held_for tab ops, first_by (key_lookup ext) (named_for tab ops))"
  using pending_fill [of ext ops tab] by (simp add: pending_take_def)

lemma refetch_covers:
  "k \<in> set named \<Longrightarrow> (\<exists>r \<in> set rows. key_lookup ext (rc_pk r) = key_lookup ext k) \<or>
     k \<in> set (keys_needing_refetch ext rows named)"
  by (auto simp: keys_needing_refetch_def image_iff)

text \<open>No changed child is forgotten: every parent key a group named either belongs to a row
  the group already carries or is read again, never both, and never twice.\<close>

theorem pending_refetch_complete:
  assumes "fst (pending_take tab (fold (pending_step ext) ops pending_default)) = (rows, named)"
  shows "(\<forall>k \<in> set (named_for tab ops).
       (\<exists>r \<in> set rows. key_lookup ext (rc_pk r) = key_lookup ext k) \<noteq>
       (\<exists>k' \<in> set (keys_needing_refetch ext rows named). key_lookup ext k' = key_lookup ext k)) \<and>
    distinct (map (key_lookup ext) (keys_needing_refetch ext rows named))"
proof -
  from assms have named: "named = first_by (key_lookup ext) (named_for tab ops)"
    using pending_fill [of ext ops tab] by (simp add: pending_take_def)
  have "\<exists>k' \<in> set named. key_lookup ext k' = key_lookup ext k" if "k \<in> set (named_for tab ops)" for k
    using that first_by_image [of "key_lookup ext" "named_for tab ops"] by (metis imageE imageI named)
  moreover have "distinct (map (key_lookup ext) named)" by (simp add: named first_by_distinct)
  ultimately show ?thesis
    by (fastforce simp: keys_needing_refetch_def distinct_map_filter image_iff)
qed

theorem pending_refetch_complete_witness:
  "\<exists>ext rows named. fst (pending_take (''public'', ''t'') (fold (pending_step ext)
      [NameParent (''public'', ''t'') JNull, NameParent (''public'', ''t'') JNull] pending_default)) = (rows, named) \<and>
    named = [JNull] \<and> distinct (map (key_lookup ext) (keys_needing_refetch ext rows named))"
proof -
  define ext where "ext = sample_externs"
  have "fst (pending_take (''public'', ''t'') (fold (pending_step ext)
      [NameParent (''public'', ''t'') JNull, NameParent (''public'', ''t'') JNull] pending_default)) = ([], [JNull])"
    by (simp add: pending_take_def name_parent_def pending_default_def entry_list_def)
  with pending_refetch_complete [OF this] show ?thesis by blast
qed

text \<open>Taking every table of a group, as the runners do, leaves nothing behind.\<close>

lemma pending_take_all:
  assumes "pe_through p = []"
  shows "pending_is_empty (fold (\<lambda>tab p. snd (pending_take tab p)) (pending_tables p) p)"
proof -
  have "pe_parents (fold (\<lambda>tab p. snd (pending_take tab p)) ts p) = filter (\<lambda>(k, _). k \<notin> set ts) (pe_parents p) \<and>
    pe_named (fold (\<lambda>tab p. snd (pending_take tab p)) ts p) = filter (\<lambda>(k, _). k \<notin> set ts) (pe_named p) \<and>
    pe_through (fold (\<lambda>tab p. snd (pending_take tab p)) ts p) = pe_through p" for ts
    by (induction ts arbitrary: p)
       (auto simp: pending_take_def entry_remove_def filter_filter split_beta intro: filter_cong)
  then show ?thesis using assms
    by (auto simp: pending_is_empty_def pending_tables_def filter_empty_conv image_iff)
qed

end
