(* ===== verification/Doc_Rules.thy ===== *)
theory Doc_Rules
  imports Child_Rows
begin

section \<open>Document rules (\<open>crates/engine/src/mapping.rs\<close>, \<open>pseudonym.rs\<close>)\<close>

text \<open>
  The per-table rules that turn a decoded row into the document a sink stores: projections,
  transforms, renames, flattened children and constants, in the order the sources declare
  them, with the key material of the \<open>pseudonym\<close> transform. A \<open>HashMap\<close> that is only looked
  up is a partial function, one that is iterated an association list with distinct keys, in
  any order. SHA-256, AES-SIV, base64, the date parsers and the text form of JSON are the
  \<open>externs\<close>.
\<close>

subsection \<open>The durable position\<close>

definition durable_store :: "lsn \<Rightarrow> u64 \<Rightarrow> u64" where
  "durable_store l cell = lsn_val l"

definition durable_load :: "u64 \<Rightarrow> lsn option" where
  "durable_load cell = (if cell > 0 then Some (Lsn cell) else None)"

subsection \<open>Projections\<close>

datatype projection = Include "string list" | Exclude "string list"

type_synonym projections = "table \<rightharpoonup> projection"

fun projection_keeps :: "projection \<Rightarrow> string \<Rightarrow> bool" where
  "projection_keeps (Include keep) k = list_ex (\<lambda>c. c = k) keep"
| "projection_keeps (Exclude dropped) k = (\<not> list_ex (\<lambda>c. c = k) dropped)"

definition projections_apply :: "projections \<Rightarrow> table \<Rightarrow> json \<Rightarrow> json" where
  "projections_apply ps tab doc =
     (case ps tab of
        None \<Rightarrow> doc
      | Some rule \<Rightarrow>
          (case as_object doc of
             None \<Rightarrow> doc
           | Some obj \<Rightarrow> JObject (bt_retain (projection_keeps rule) obj)))"

subsection \<open>Pseudonym keys\<close>

type_synonym pseudonym_key = string

definition KEY_BYTES :: nat where "KEY_BYTES = 64"

datatype key_error = KeyLength nat nat nat | NotHex nat

fun hex_pairs :: "nat \<Rightarrow> string list \<Rightarrow> (key_error, string) result" where
  "hex_pairs i (hi # lo # rest) =
     bindr (ok_or (NotHex (i * 2)) (case hi of [c] \<Rightarrow> to_digit 16 c | _ \<Rightarrow> None)) (\<lambda>h.
     bindr (ok_or (NotHex (i * 2 + 1)) (case lo of [c] \<Rightarrow> to_digit 16 c | _ \<Rightarrow> None)) (\<lambda>l.
     bindr (hex_pairs (i + 1) rest) (\<lambda>bytes. Inr (char_of (h * 16 + l) # bytes))))"
| "hex_pairs i _ = Inr []"

text \<open>The characters of the trimmed text are its UTF-8 sequences; only a one-byte sequence can
  be a hexadecimal digit.\<close>

definition key_from_hex :: "string \<Rightarrow> (key_error, pseudonym_key) result" where
  "key_from_hex txt =
     (let chars = utf8_chars (trim txt)
      in if length chars \<noteq> KEY_BYTES * 2 then Inl (KeyLength (KEY_BYTES * 2) KEY_BYTES (length chars))
         else hex_pairs 0 chars)"

definition key_token :: "externs \<Rightarrow> pseudonym_key \<Rightarrow> string \<Rightarrow> string \<Rightarrow> string option" where
  "key_token ext key scope plaintext = map_option (base64_url ext) (siv_encrypt ext key scope plaintext)"

subsection \<open>Transforms\<close>

datatype transform_op =
    Hash
  | Redact
  | Json
  | Split string
  | Number
  | Date string
  | Lookup "(string, string) btree_map" "string option"
  | Pseudonym string "string option"

record transforms =
  tr_map :: "table \<rightharpoonup> (string \<times> transform_op) list"
  tr_keys :: "string \<rightharpoonup> pseudonym_key"

record missing_key =
  mk_schema :: string
  mk_table :: string
  mk_column :: string
  mk_key_env :: string

fun transform_name :: "transform_op \<Rightarrow> string" where
  "transform_name Hash = ''hash''"
| "transform_name Redact = ''redact''"
| "transform_name Json = ''json''"
| "transform_name (Split _) = ''split''"
| "transform_name Number = ''number''"
| "transform_name (Date _) = ''date''"
| "transform_name (Lookup _ _) = ''lookup''"
| "transform_name (Pseudonym _ _) = ''pseudonym''"

datatype op_applied =
    Converted json
  | AlreadyShaped
  | Unconvertible
  | Defaulted json
  | Refused

record op_ctx =
  cx_keys :: "string \<rightharpoonup> pseudonym_key"
  cx_schema :: string
  cx_table :: string
  cx_column :: string

definition hex_byte :: "char \<Rightarrow> string" where
  "hex_byte b = (let digit = (\<lambda>d. if d < 10 then char_of (48 + d) else char_of (87 + d))
     in [digit (asc b div 16), digit (asc b mod 16)])"

definition hash_text :: "externs \<Rightarrow> json \<Rightarrow> string" where
  "hash_text ext v = take 16 (concat (map hex_byte (sha256 ext (value_to_string ext v))))"

definition show_bool :: "bool \<Rightarrow> string" where
  "show_bool b = (if b then ''true'' else ''false'')"

text \<open>The text form of a scalar, which \<open>lookup\<close> and \<open>pseudonym\<close> both use.\<close>

definition scalar_text :: "externs \<Rightarrow> json \<Rightarrow> string option" where
  "scalar_text ext v = (case v of
       JString s \<Rightarrow> Some s
     | JNumber n \<Rightarrow> Some (value_to_string ext (JNumber n))
     | JBool b \<Rightarrow> Some (show_bool b)
     | _ \<Rightarrow> None)"

definition apply_number :: "json \<Rightarrow> op_applied" where
  "apply_number v = (case v of
       JString s \<Rightarrow>
         (case parse_i64 (trim s) of
            Some i \<Rightarrow> Converted (JNumber (NInt i))
          | None \<Rightarrow>
              (case parse_f64 (trim s) of
                 Some f \<Rightarrow> if f64_is_finite f then Converted (JNumber (NFloat f)) else Unconvertible
               | None \<Rightarrow> Unconvertible))
     | JNumber _ \<Rightarrow> AlreadyShaped
     | _ \<Rightarrow> Unconvertible)"

definition apply_split :: "string \<Rightarrow> json \<Rightarrow> op_applied" where
  "apply_split delim v = (case v of
       JString s \<Rightarrow>
         Converted (JArray (map JString (filter (\<lambda>piece. piece \<noteq> []) (map trim (split_str delim s)))))
     | JArray _ \<Rightarrow> AlreadyShaped
     | _ \<Rightarrow> Unconvertible)"

definition apply_date :: "externs \<Rightarrow> string \<Rightarrow> json \<Rightarrow> op_applied" where
  "apply_date ext fmt v = (case v of
       JString s \<Rightarrow>
         (case datetime_rfc3339 ext (trim s) fmt of
            Some t \<Rightarrow> Converted (JString t)
          | None \<Rightarrow>
              (case naive_datetime_iso ext (trim s) fmt of
                 Some t \<Rightarrow> Converted (JString t)
               | None \<Rightarrow>
                   (case naive_date_iso ext (trim s) fmt of
                      Some t \<Rightarrow> Converted (JString t)
                    | None \<Rightarrow> Unconvertible)))
     | _ \<Rightarrow> Unconvertible)"

definition apply_pseudonym :: "externs \<Rightarrow> string \<Rightarrow> string option \<Rightarrow> json \<Rightarrow> op_ctx \<Rightarrow> op_applied" where
  "apply_pseudonym ext key_env scope v ctx =
     (case cx_keys ctx key_env of
        None \<Rightarrow> Refused
      | Some key \<Rightarrow>
          (let scope = (case scope of
                 Some s \<Rightarrow> s
               | None \<Rightarrow> cx_schema ctx @ ''.'' @ cx_table ctx @ ''.'' @ cx_column ctx)
           in case scalar_text ext v of
                None \<Rightarrow> Refused
              | Some rendered \<Rightarrow>
                  (case key_token ext key scope rendered of
                     None \<Rightarrow> Refused
                   | Some t \<Rightarrow> Converted (JString t))))"

definition apply_op :: "externs \<Rightarrow> transform_op \<Rightarrow> json \<Rightarrow> op_ctx \<Rightarrow> op_applied" where
  "apply_op ext op v ctx = (case op of
       Redact \<Rightarrow> Converted (JString ''***'')
     | Hash \<Rightarrow> Converted (JString (hash_text ext v))
     | Json \<Rightarrow>
         (case v of
            JString s \<Rightarrow> (case value_from_str ext s of Some doc \<Rightarrow> Converted doc | None \<Rightarrow> Unconvertible)
          | _ \<Rightarrow> AlreadyShaped)
     | Split delim \<Rightarrow> apply_split delim v
     | Number \<Rightarrow> apply_number v
     | Date fmt \<Rightarrow> apply_date ext fmt v
     | Lookup labels dflt \<Rightarrow>
         (case Option.bind (scalar_text ext v) (bt_get labels) of
            Some label \<Rightarrow> Converted (JString label)
          | None \<Rightarrow> (case dflt of Some d \<Rightarrow> Defaulted (JString d) | None \<Rightarrow> Unconvertible))
     | Pseudonym key_env scope \<Rightarrow> apply_pseudonym ext key_env scope v ctx)"

text \<open>\<open>with_keys\<close> visits the rules in the order of the two maps; \<open>tables\<close> lists the keys of the
  outer one.\<close>

fun missing_in :: "table \<Rightarrow> (string \<rightharpoonup> pseudonym_key) \<Rightarrow> (string \<times> transform_op) list \<Rightarrow> missing_key option" where
  "missing_in tab keys [] = None"
| "missing_in tab keys ((column, op) # rules) =
     (case op of
        Pseudonym key_env _ \<Rightarrow>
          (if keys key_env = None
           then Some \<lparr>mk_schema = fst tab, mk_table = snd tab, mk_column = column, mk_key_env = key_env\<rparr>
           else missing_in tab keys rules)
      | _ \<Rightarrow> missing_in tab keys rules)"

fun with_keys :: "table list \<Rightarrow> (string \<rightharpoonup> pseudonym_key) \<Rightarrow> transforms \<Rightarrow> (missing_key, transforms) result" where
  "with_keys [] keys t = Inr (t\<lparr>tr_keys := keys\<rparr>)"
| "with_keys (tab # tabs) keys t =
     (case missing_in tab keys (unwrap_or [] (tr_map t tab)) of
        Some e \<Rightarrow> Inl e
      | None \<Rightarrow> with_keys tabs keys t)"

text \<open>One rule on the document's fields: the new fields, and the column if it is reported.\<close>

definition apply_rule ::
  "externs \<Rightarrow> (string \<rightharpoonup> pseudonym_key) \<Rightarrow> table \<Rightarrow> string list \<Rightarrow> string \<times> transform_op
   \<Rightarrow> json_map \<times> string list \<Rightarrow> json_map \<times> string list" where
  "apply_rule ext keys tab shaped rule st =
     (case (rule, st) of ((col, op), (m, left)) \<Rightarrow>
        if col \<in> set shaped then (m, left)
        else case bt_get m col of
          None \<Rightarrow> (m, left)
        | Some v \<Rightarrow>
            if is_null v then (m, left)
            else case apply_op ext op v \<lparr>cx_keys = keys, cx_schema = fst tab, cx_table = snd tab, cx_column = col\<rparr> of
              Converted new \<Rightarrow> (bt_insert col new m, left)
            | AlreadyShaped \<Rightarrow> (m, left)
            | Unconvertible \<Rightarrow> (m, left @ [col])
            | Defaulted new \<Rightarrow> (bt_insert col new m, left @ [col])
            | Refused \<Rightarrow> (bt_insert col (JString ''***'') m, left @ [col]))"

definition apply_except :: "externs \<Rightarrow> transforms \<Rightarrow> table \<Rightarrow> json \<Rightarrow> string list \<Rightarrow> json \<times> string list" where
  "apply_except ext t tab doc shaped =
     (case tr_map t tab of
        None \<Rightarrow> (doc, [])
      | Some rules \<Rightarrow>
          (case as_object doc of
             None \<Rightarrow> (doc, [])
           | Some m \<Rightarrow> (case fold (apply_rule ext (tr_keys t) tab shaped) rules (m, []) of
                          (m', left) \<Rightarrow> (JObject m', left))))"

definition transforms_apply :: "externs \<Rightarrow> transforms \<Rightarrow> table \<Rightarrow> json \<Rightarrow> json" where
  "transforms_apply ext t tab doc = fst (apply_except ext t tab doc [])"

subsection \<open>Renames\<close>

record rename =
  rn_columns :: "(string \<times> string) list"
  rn_nested :: "(string \<times> (string \<times> string) list) list"

type_synonym renames = "table \<rightharpoonup> rename"

definition target_name :: "renames \<Rightarrow> table \<Rightarrow> string \<Rightarrow> string" where
  "target_name rs tab col =
     unwrap_or col (case rs tab of None \<Rightarrow> None | Some r \<Rightarrow> map_of (rn_columns r) col)"

text \<open>The keys are removed one after the other; a value that left is remembered under its new
  name.\<close>

definition rename_keys :: "json_map \<Rightarrow> (string \<times> string) list \<Rightarrow> json_map" where
  "rename_keys obj renaming =
     (let (obj', moved) = fold (\<lambda>(frm, to) (obj, moved).
            case bt_get obj frm of
              None \<Rightarrow> (obj, moved)
            | Some v \<Rightarrow> (bt_remove frm obj, moved @ [(to, v)])) renaming (obj, [])
      in bt_extend obj' moved)"

definition rename_element :: "(string \<times> string) list \<Rightarrow> json \<Rightarrow> json" where
  "rename_element columns v = (case v of JObject row \<Rightarrow> JObject (rename_keys row columns) | _ \<Rightarrow> v)"

definition rename_nested :: "string \<times> (string \<times> string) list \<Rightarrow> json_map \<Rightarrow> json_map" where
  "rename_nested rule obj =
     (case rule of (field, columns) \<Rightarrow>
       (case bt_get obj field of
          Some (JArray rows) \<Rightarrow> bt_insert field (JArray (map (rename_element columns) rows)) obj
        | Some (JObject row) \<Rightarrow> bt_insert field (JObject (rename_keys row columns)) obj
        | _ \<Rightarrow> obj))"

definition renames_apply :: "renames \<Rightarrow> table \<Rightarrow> json \<Rightarrow> json" where
  "renames_apply rs tab doc =
     (case rs tab of
        None \<Rightarrow> doc
      | Some rule \<Rightarrow>
          (case as_object doc of
             None \<Rightarrow> doc
           | Some obj \<Rightarrow> JObject (fold rename_nested (rn_nested rule) (rename_keys obj (rn_columns rule)))))"

subsection \<open>Flattened children, constants, filters and pipelines\<close>

type_synonym flattens = "table \<rightharpoonup> string list"

definition flatten_field :: "string \<Rightarrow> json_map \<Rightarrow> json_map" where
  "flatten_field field obj =
     (case bt_get obj field of
        None \<Rightarrow> obj
      | Some (JObject element) \<Rightarrow> bt_extend (bt_remove field obj) element
      | Some _ \<Rightarrow> bt_remove field obj)"

definition flattens_apply :: "flattens \<Rightarrow> table \<Rightarrow> json \<Rightarrow> json" where
  "flattens_apply fs tab doc =
     (case fs tab of
        None \<Rightarrow> doc
      | Some entries \<Rightarrow>
          (case as_object doc of None \<Rightarrow> doc | Some obj \<Rightarrow> JObject (fold flatten_field entries obj)))"

type_synonym constants = "table \<rightharpoonup> (string \<times> json) list"

definition constants_apply :: "constants \<Rightarrow> table \<Rightarrow> json \<Rightarrow> json" where
  "constants_apply cs tab doc =
     (case cs tab of
        None \<Rightarrow> doc
      | Some entries \<Rightarrow>
          (case as_object doc of None \<Rightarrow> doc | Some obj \<Rightarrow> JObject (bt_extend obj entries)))"

type_synonym filters = "table \<rightharpoonup> row_filter"
type_synonym pipelines = "table \<rightharpoonup> string"

subsection \<open>Facts: transforms\<close>

definition transformed ::
  "externs \<Rightarrow> (string \<rightharpoonup> pseudonym_key) \<Rightarrow> table \<Rightarrow> string \<Rightarrow> transform_op \<Rightarrow> json \<Rightarrow> json" where
  "transformed ext keys tab col op v =
     (if is_null v then v
      else case apply_op ext op v \<lparr>cx_keys = keys, cx_schema = fst tab, cx_table = snd tab, cx_column = col\<rparr> of
        Converted new \<Rightarrow> new | AlreadyShaped \<Rightarrow> v | Unconvertible \<Rightarrow> v | Defaulted new \<Rightarrow> new
      | Refused \<Rightarrow> JString ''***'')"

definition reported ::
  "externs \<Rightarrow> (string \<rightharpoonup> pseudonym_key) \<Rightarrow> table \<Rightarrow> string \<Rightarrow> transform_op \<Rightarrow> json \<Rightarrow> bool" where
  "reported ext keys tab col op v \<longleftrightarrow> \<not> is_null v \<and>
     (case apply_op ext op v \<lparr>cx_keys = keys, cx_schema = fst tab, cx_table = snd tab, cx_column = col\<rparr> of
        Converted _ \<Rightarrow> False | AlreadyShaped \<Rightarrow> False | Unconvertible \<Rightarrow> True | Defaulted _ \<Rightarrow> True | Refused \<Rightarrow> True)"

definition rule_result ::
  "externs \<Rightarrow> (string \<rightharpoonup> pseudonym_key) \<Rightarrow> table \<Rightarrow> string list \<Rightarrow> string \<Rightarrow> transform_op \<Rightarrow> json option \<Rightarrow> json option" where
  "rule_result ext keys tab shaped col op x = (if col \<in> set shaped then x else map_option (transformed ext keys tab col op) x)"

lemma apply_rule_get:
  "bt_get (fst (apply_rule ext keys tab shaped (col, op) (m, left))) =
     (bt_get m)(col := rule_result ext keys tab shaped col op (bt_get m col))"
  by (auto simp: apply_rule_def rule_result_def transformed_def fun_eq_iff split: option.splits op_applied.splits)

lemma apply_rule_left:
  "snd (apply_rule ext keys tab shaped (col, op) (m, left)) =
     left @ (if col \<notin> set shaped \<and> is_some_and (reported ext keys tab col op) (bt_get m col) then [col] else [])"
  by (auto simp: apply_rule_def reported_def split: option.splits op_applied.splits)

lemma apply_rule_wf: "bt_wf m \<Longrightarrow> bt_wf (fst (apply_rule ext keys tab shaped r (m, left)))"
  by (cases r) (auto simp: apply_rule_def split: option.splits op_applied.splits)

lemma apply_rules_wf: "bt_wf m \<Longrightarrow> bt_wf (fst (fold (apply_rule ext keys tab shaped) rules (m, left)))"
proof (induction rules arbitrary: m left)
  case (Cons r rules)
  obtain m' left' where "apply_rule ext keys tab shaped r (m, left) = (m', left')" by fastforce
  with Cons apply_rule_wf [of m ext keys tab shaped r left] show ?case by simp
qed simp

text \<open>Each column is changed by its own rule, on the value it arrived with.\<close>

lemma apply_rules_get:
  assumes "distinct (map fst rules)"
  shows "bt_get (fst (fold (apply_rule ext keys tab shaped) rules (m, left))) c =
    (case map_of rules c of None \<Rightarrow> bt_get m c | Some op \<Rightarrow> rule_result ext keys tab shaped c op (bt_get m c))"
  using assms
proof (induction rules arbitrary: m left)
  case (Cons r rules)
  obtain col op where r: "r = (col, op)" by fastforce
  obtain m' left' where m': "apply_rule ext keys tab shaped r (m, left) = (m', left')" by fastforce
  then have get: "bt_get m' = (bt_get m)(col := rule_result ext keys tab shaped col op (bt_get m col))"
    using apply_rule_get [of ext keys tab shaped col op m left] r by simp
  show ?case
  proof (cases "c = col")
    case True
    with Cons.prems r have "map_of rules c = None" by (simp add: map_of_eq_None_iff)
    with True Cons m' get r show ?thesis by simp
  qed (use Cons m' get r in \<open>simp split: option.splits\<close>)
qed simp

lemma apply_rules_left:
  assumes "distinct (map fst rules)"
  shows "set (snd (fold (apply_rule ext keys tab shaped) rules (m, left))) =
    set left \<union> {c. \<exists>op. (c, op) \<in> set rules \<and> c \<notin> set shaped \<and> is_some_and (reported ext keys tab c op) (bt_get m c)}"
  using assms
proof (induction rules arbitrary: m left)
  case (Cons r rules)
  obtain col op where r: "r = (col, op)" by fastforce
  obtain m' left' where m': "apply_rule ext keys tab shaped r (m, left) = (m', left')" by fastforce
  then have get: "c \<noteq> col \<Longrightarrow> bt_get m' c = bt_get m c" for c
    using apply_rule_get [of ext keys tab shaped col op m left] r by simp
  have left': "set left' = set left \<union> (if col \<notin> set shaped \<and> is_some_and (reported ext keys tab col op) (bt_get m col) then {col} else {})"
    using apply_rule_left [of ext keys tab shaped col op m left] m' r by simp
  have same: "bt_get m' c = bt_get m c" if "(c, op') \<in> set rules" for c op'
    using that get [of c] Cons.prems r by (metis distinct.simps(2) fst_conv image_eqI list.map(2) list.set_map)
  have "set (snd (fold (apply_rule ext keys tab shaped) rules (m', left'))) =
      set left' \<union> {c. \<exists>op. (c, op) \<in> set rules \<and> c \<notin> set shaped \<and> is_some_and (reported ext keys tab c op) (bt_get m c)}"
    using Cons.IH [of m' left'] Cons.prems same by auto
  then show ?case using m' r left' by auto
qed simp

text \<open>The order a table's transform rules are visited in, which a hash map does not fix, never
  shows: any two orders of the same rules give the same document and report the same columns.\<close>

theorem apply_except_order:
  assumes "tr_map t tab = Some rules" "tr_map t' tab = Some rules'" "tr_keys t' = tr_keys t"
    and "distinct (map fst rules)" "distinct (map fst rules')" "set rules = set rules'" "bt_wf m"
  shows "fst (apply_except ext t tab (JObject m) shaped) = fst (apply_except ext t' tab (JObject m) shaped) \<and>
    set (snd (apply_except ext t tab (JObject m) shaped)) = set (snd (apply_except ext t' tab (JObject m) shaped))"
proof -
  let ?f = "\<lambda>rs. fold (apply_rule ext (tr_keys t) tab shaped) rs (m, [])"
  have "map_of rules = map_of rules'" using assms by (simp add: map_of_inject_set)
  then have "bt_get (fst (?f rules)) = bt_get (fst (?f rules'))"
    using assms by (simp add: fun_eq_iff apply_rules_get)
  then have "fst (?f rules) = fst (?f rules')"
    by (rule bt_ext [rotated 2]) (use assms in \<open>simp_all add: apply_rules_wf\<close>)
  moreover have "set (snd (?f rules)) = set (snd (?f rules'))"
    using assms by (simp add: apply_rules_left)
  ultimately show ?thesis using assms(1-3) by (simp add: apply_except_def split_beta)
qed

definition sample_transforms :: "(string \<times> transform_op) list \<Rightarrow> transforms" where
  "sample_transforms rules = \<lparr>tr_map = [(''public'', ''t'') \<mapsto> rules], tr_keys = [''K'' \<mapsto> replicate 64 (CHR ''k'')]\<rparr>"

theorem apply_except_order_witness:
  "fst (apply_except sample_externs (sample_transforms [(''a'', Redact), (''b'', Number)]) (''public'', ''t'')
      (JObject [(''a'', JString ''s''), (''b'', JString ''7'')]) []) =
   fst (apply_except sample_externs (sample_transforms [(''b'', Number), (''a'', Redact)]) (''public'', ''t'')
      (JObject [(''a'', JString ''s''), (''b'', JString ''7'')]) [])"
  using apply_except_order [of "sample_transforms [(''a'', Redact), (''b'', Number)]" "(''public'', ''t'')"
      "[(''a'', Redact), (''b'', Number)]" "sample_transforms [(''b'', Number), (''a'', Redact)]"
      "[(''b'', Number), (''a'', Redact)]" "[(''a'', JString ''s''), (''b'', JString ''7'')]" sample_externs "[]"]
  by (auto simp: sample_transforms_def bt_wf_def)

text \<open>The operations that exist to hide a value.\<close>

fun protective :: "transform_op \<Rightarrow> bool" where
  "protective Hash \<longleftrightarrow> True"
| "protective Redact \<longleftrightarrow> True"
| "protective (Pseudonym _ _) \<longleftrightarrow> True"
| "protective _ \<longleftrightarrow> False"

definition is_token :: "externs \<Rightarrow> (string \<rightharpoonup> pseudonym_key) \<Rightarrow> transform_op \<Rightarrow> string \<Rightarrow> bool" where
  "is_token ext keys op t \<longleftrightarrow>
     (\<exists>key_env scope key label plain. op = Pseudonym key_env scope \<and> keys key_env = Some key \<and>
        key_token ext key label plain = Some t)"

lemma transformed_protective:
  assumes "protective op" "\<not> is_null v"
  shows "\<exists>t. transformed ext keys tab col op v = JString t \<and>
    (t = ''***'' \<or> t = hash_text ext v \<or> is_token ext keys op t)"
proof (cases op)
  case (Pseudonym key_env scope)
  with assms show ?thesis
    by (auto simp: transformed_def apply_op_def apply_pseudonym_def is_token_def Let_def split: option.splits)
qed (use assms in \<open>auto simp: transformed_def apply_op_def\<close>)

text \<open>C15. A column under a protective transform is never published as it arrived, whatever goes
  wrong: the document holds \<open>***\<close>, the hash, or a token under the configured key, and the
  arrived value reaches no other field of the document either.\<close>

theorem protective_column:
  assumes "tr_map t tab = Some rules" "distinct (map fst rules)" "(col, op) \<in> set rules" "protective op"
    and "col \<notin> set shaped" "bt_get m col = Some v" "\<not> is_null v"
  shows "\<exists>m' s. fst (apply_except ext t tab (JObject m) shaped) = JObject m' \<and> bt_get m' col = Some (JString s) \<and>
    (s = ''***'' \<or> s = hash_text ext v \<or> is_token ext (tr_keys t) op s) \<and>
    (\<forall>w k m''. k \<noteq> col \<longrightarrow> fst (apply_except ext t tab (JObject (bt_insert col w m)) shaped) = JObject m'' \<longrightarrow>
       bt_get m'' k = bt_get m' k)"
proof -
  let ?f = "\<lambda>m. fst (fold (apply_rule ext (tr_keys t) tab shaped) rules (m, []))"
  have run: "fst (apply_except ext t tab (JObject n) shaped) = JObject (?f n)" for n
    using assms(1) by (simp add: apply_except_def split_beta)
  have "map_of rules col = Some op" using assms(2,3) by simp
  then have "bt_get (?f m) col = Some (transformed ext (tr_keys t) tab col op v)"
    using assms by (simp add: apply_rules_get rule_result_def)
  moreover have "bt_get (?f (bt_insert col w m)) k = bt_get (?f m) k" if "k \<noteq> col" for w k
    using that assms(2) by (simp add: apply_rules_get split: option.splits)
  ultimately show ?thesis
    using transformed_protective [OF assms(4,7), of ext "tr_keys t" tab col] by (auto simp: run)
qed

theorem protective_column_witness:
  "\<exists>m' s. fst (apply_except sample_externs (sample_transforms [(''email'', Pseudonym ''K'' None)]) (''public'', ''t'')
       (JObject [(''email'', JString ''a@b'')]) []) = JObject m' \<and> bt_get m' ''email'' = Some (JString s)"
  using protective_column [of "sample_transforms [(''email'', Pseudonym ''K'' None)]" "(''public'', ''t'')"
      "[(''email'', Pseudonym ''K'' None)]" "''email''" "Pseudonym ''K'' None" "[]" "[(''email'', JString ''a@b'')]"
      "JString ''a@b''" sample_externs]
  by (simp add: sample_transforms_def bt_get_def) blast

lemma missing_in_None_iff:
  "missing_in tab keys rules = None \<longleftrightarrow> (\<forall>c e s. (c, Pseudonym e s) \<in> set rules \<longrightarrow> keys e \<noteq> None)"
proof (induction tab keys rules rule: missing_in.induct)
  case (2 tab keys column op rules)
  then show ?case by (cases op) (simp_all, blast+)
qed simp

lemma with_keys_covers:
  "with_keys tabs keys t = Inr t' \<Longrightarrow> tab \<in> set tabs \<Longrightarrow> tr_map t tab = Some rules \<Longrightarrow>
   (c, Pseudonym e s) \<in> set rules \<Longrightarrow> tr_map t' = tr_map t \<and> tr_keys t' e = keys e \<and> keys e \<noteq> None"
proof (induction tabs keys t rule: with_keys.induct)
  case (2 tb tabs keys t)
  have t': "with_keys ts ks u = Inr u' \<Longrightarrow> tr_map u' = tr_map u \<and> tr_keys u' = ks" for ts ks u u'
    by (induction ts ks u rule: with_keys.induct) (auto split: option.splits)
  show ?case
  proof (cases "tab = tb")
    case True
    with 2 show ?thesis using missing_in_None_iff [of tb keys rules] t' [of tabs keys t t']
      by (auto split: option.splits)
  qed (use 2 in \<open>auto split: option.splits\<close>)
qed simp

text \<open>The reshaping operations that cannot meet their own output again.\<close>

lemma reshaped_again:
  assumes "op = Number \<or> op = Split delim" "apply_op ext op v ctx = Converted w"
  shows "apply_op ext op w ctx = AlreadyShaped"
  using assms
  by (cases v) (auto simp: apply_op_def apply_number_def apply_split_def split: option.splits if_splits)

text \<open>Parsing a JSON column has no such guard: a text that holds a JSON string which itself
  reads as JSON is parsed again when the operation meets it again.\<close>

lemma json_transform_twice:
  assumes "value_from_str ext ([CHR 0x22] @ ''5'' @ [CHR 0x22]) = Some (JString ''5'')"
    and "value_from_str ext ''5'' = Some (JNumber (NInt 5))"
  shows "\<exists>v w u. apply_op ext Json v ctx = Converted w \<and> apply_op ext Json w ctx = Converted u \<and> u \<noteq> w"
  using assms
  by (intro exI [of _ "JString ([CHR 0x22] @ ''5'' @ [CHR 0x22])"] exI [of _ "JString ''5''"]
      exI [of _ "JNumber (NInt 5)"]) (simp add: apply_op_def)

subsection \<open>Facts: projections, renames, lifted children, constants\<close>

lemma projections_apply_get:
  "ps tab = Some rule \<Longrightarrow>
   \<exists>m'. projections_apply ps tab (JObject m) = JObject m' \<and>
     (\<forall>k. bt_get m' k = (if projection_keeps rule k then bt_get m k else None))"
  by (simp add: projections_apply_def)

lemma rename_fold:
  assumes "distinct (map fst r)"
  shows "fold (\<lambda>(frm, to) (obj, moved).
      case bt_get obj frm of None \<Rightarrow> (obj, moved) | Some v \<Rightarrow> (bt_remove frm obj, moved @ [(to, v)])) r (obj, acc) =
    (bt_retain (\<lambda>k. k \<notin> fst ` set r) obj,
     acc @ List.map_filter (\<lambda>(frm, to). map_option (\<lambda>v. (to, v)) (bt_get obj frm)) r)"
  using assms
proof (induction r arbitrary: obj acc)
  case Nil
  then show ?case by (simp add: bt_retain_def List.map_filter_def)
next
  case (Cons ft r)
  obtain frm to where ft: "ft = (frm, to)" by fastforce
  have dist: "distinct (map fst r)" "frm \<notin> fst ` set r" using Cons.prems ft by auto
  have twice: "bt_retain (\<lambda>k. k \<notin> fst ` set r) (bt_remove frm obj) = bt_retain (\<lambda>k. k \<notin> fst ` set (ft # r)) obj"
    by (auto simp: bt_retain_def bt_remove_def ft intro: filter_cong)
  have same: "List.map_filter (\<lambda>(frm, to). map_option (\<lambda>v. (to, v)) (bt_get (bt_remove frm' obj) frm)) r
      = List.map_filter (\<lambda>(frm, to). map_option (\<lambda>v. (to, v)) (bt_get obj frm)) r" if "frm' = frm" for frm'
    using dist(2) that by (induction r) (auto simp: List.map_filter_def)
  show ?case
  proof (cases "bt_get obj frm")
    case None
    then have "bt_retain (\<lambda>k. k \<notin> fst ` set r) obj = bt_retain (\<lambda>k. k \<notin> fst ` set (ft # r)) obj"
      by (auto simp: bt_retain_def ft bt_get_None_iff image_iff intro!: filter_cong)
    with None ft Cons.IH [OF dist(1)] show ?thesis by (simp add: List.map_filter_def)
  next
    case (Some v)
    with ft Cons.IH [OF dist(1)] twice same show ?thesis by (simp add: List.map_filter_def)
  qed
qed

definition renamed_from :: "(string \<times> string) list \<Rightarrow> string \<Rightarrow> string option" where
  "renamed_from r k = map_of (map (\<lambda>(frm, to). (to, frm)) r) k"

lemma moved_lookup:
  "distinct (map snd r) \<Longrightarrow>
   map_of (rev (List.map_filter (\<lambda>(frm, to). map_option (\<lambda>v. (to, v)) (g frm)) r)) k =
     (case renamed_from r k of None \<Rightarrow> None | Some frm \<Rightarrow> g frm)"
proof (induction r)
  case (Cons ft r)
  obtain frm to where ft: "ft = (frm, to)" by fastforce
  have "to \<notin> snd ` set r" using Cons.prems ft by auto
  then have none: "renamed_from r to = None" by (force simp: renamed_from_def map_of_eq_None_iff)
  show ?case
  proof (cases "g frm")
    case None
    then show ?thesis using Cons ft none
      by (cases "k = to") (simp_all add: List.map_filter_def renamed_from_def)
  next
    case (Some v)
    with Cons ft none show ?thesis
      by (cases "k = to") (auto simp: List.map_filter_def renamed_from_def map_add_def split: option.splits)
  qed
qed (simp add: renamed_from_def List.map_filter_def)

lemma rename_keys_get:
  assumes "distinct (map fst r)" "distinct (map snd r)"
  shows "bt_get (rename_keys m r) k =
    (case Option.bind (renamed_from r k) (bt_get m) of
       Some v \<Rightarrow> Some v
     | None \<Rightarrow> if k \<in> fst ` set r then None else bt_get m k)"
proof -
  have "rename_keys m r = bt_extend (bt_retain (\<lambda>k. k \<notin> fst ` set r) m)
      (List.map_filter (\<lambda>(frm, to). map_option (\<lambda>v. (to, v)) (bt_get m frm)) r)"
    using rename_fold [OF assms(1), of m "[]"] by (simp add: rename_keys_def)
  then show ?thesis
    by (auto simp: bt_get_extend map_add_def moved_lookup [OF assms(2)] split: option.splits)
qed

lemma rename_keys_wf: "bt_wf m \<Longrightarrow> bt_wf (rename_keys m r)"
proof -
  have "bt_wf obj \<Longrightarrow> bt_wf (fst (fold (\<lambda>(frm, to) (obj, moved).
      case bt_get obj frm of None \<Rightarrow> (obj, moved) | Some v \<Rightarrow> (bt_remove frm obj, moved @ [(to, v)])) r (obj, acc)))" for obj acc
    by (induction r arbitrary: obj acc) (simp_all add: bt_wf_remove split_beta split: option.splits)
  then show "bt_wf m \<Longrightarrow> bt_wf (rename_keys m r)"
    by (auto simp: rename_keys_def Let_def split_beta)
qed

text \<open>A table's renames take effect together: every renamed column's value is found under its
  new name, a swap of two columns included, a renamed column no longer stands under its old
  name unless another was renamed to it, and every other field that no rename lands on is as it
  was. The visiting order of the rename map does not matter.\<close>

theorem rename_keys_simultaneous:
  assumes "distinct (map fst r)" "distinct (map snd r)"
  shows "(\<forall>frm to v. (frm, to) \<in> set r \<longrightarrow> bt_get m frm = Some v \<longrightarrow> bt_get (rename_keys m r) to = Some v) \<and>
    (\<forall>frm. frm \<in> fst ` set r \<longrightarrow> frm \<notin> snd ` set r \<longrightarrow> bt_get (rename_keys m r) frm = None) \<and>
    (\<forall>k. k \<notin> fst ` set r \<longrightarrow> k \<notin> snd ` set r \<longrightarrow> bt_get (rename_keys m r) k = bt_get m k) \<and>
    (\<forall>r'. set r' = set r \<longrightarrow> distinct (map fst r') \<longrightarrow> distinct (map snd r') \<longrightarrow> bt_wf m \<longrightarrow>
       rename_keys m r' = rename_keys m r)"
proof (intro conjI allI impI)
  have d: "distinct (map fst (map (\<lambda>(frm, to). (to, frm)) r'))" if "distinct (map snd r')" for r' :: "(string \<times> string) list"
    using that by (simp add: split_beta comp_def)
  have from_Some: "renamed_from r to = Some frm" if "(frm, to) \<in> set r" for frm to
    using that d [OF assms(2)] by (force simp: renamed_from_def)
  have from_None: "renamed_from r k = None" if "k \<notin> snd ` set r" for k
    using that by (force simp: renamed_from_def map_of_eq_None_iff)
  show "bt_get (rename_keys m r) to = Some v" if "(frm, to) \<in> set r" "bt_get m frm = Some v" for frm to v
    using that by (simp add: rename_keys_get [OF assms] from_Some)
  show "bt_get (rename_keys m r) frm = None" if "frm \<in> fst ` set r" "frm \<notin> snd ` set r" for frm
    using that by (simp add: rename_keys_get [OF assms] from_None)
  show "bt_get (rename_keys m r) k = bt_get m k" if "k \<notin> fst ` set r" "k \<notin> snd ` set r" for k
    using that by (simp add: rename_keys_get [OF assms] from_None)
  fix r' assume r': "set r' = set r" "distinct (map fst r')" "distinct (map snd r')" "bt_wf m"
  then have "renamed_from r' = renamed_from r"
    using map_of_inject_set [OF d [OF r'(3)] d [OF assms(2)]] by (simp add: renamed_from_def fun_eq_iff)
  then have "bt_get (rename_keys m r') = bt_get (rename_keys m r)"
    by (simp add: fun_eq_iff rename_keys_get [OF assms] rename_keys_get [OF r'(2,3)] r'(1))
  then show "rename_keys m r' = rename_keys m r"
    by (rule bt_ext [OF rename_keys_wf rename_keys_wf, OF r'(4) r'(4)])
qed

theorem rename_keys_simultaneous_witness:
  "bt_get (rename_keys [(''a'', JBool True), (''b'', JNull)] [(''a'', ''b''), (''b'', ''a'')]) ''b'' = Some (JBool True)"
  using rename_keys_simultaneous [of "[(''a'', ''b''), (''b'', ''a'')]" "[(''a'', JBool True), (''b'', JNull)]"]
  by (simp add: bt_get_def)

lemma flatten_field_get:
  "bt_get (flatten_field field m) k =
     (case bt_get m field of
        Some (JObject element) \<Rightarrow> (case map_of (rev element) k of Some v \<Rightarrow> Some v | None \<Rightarrow> if k = field then None else bt_get m k)
      | _ \<Rightarrow> if k = field then None else bt_get m k)"
  by (auto simp: flatten_field_def bt_get_extend map_add_def split: option.splits json.splits)

lemma constants_apply_get:
  assumes "cs tab = Some entries" "distinct (map fst entries)"
  shows "\<exists>m'. constants_apply cs tab (JObject m) = JObject m' \<and>
    (\<forall>k. bt_get m' k = (case map_of entries k of Some v \<Rightarrow> Some v | None \<Rightarrow> bt_get m k))"
proof -
  have "map_of (rev entries) = map_of entries"
    using assms(2) by (intro map_of_inject_set [THEN iffD2]) (simp_all add: rev_map [symmetric])
  with assms(1) show ?thesis
    by (auto simp: constants_apply_def bt_get_extend map_add_def split: option.splits)
qed

end
