(* ===== verification/Doc_Identity.thy ===== *)
theory Doc_Identity
  imports Doc_Rules
begin

section \<open>Document identity and placement (\<open>crates/engine/src/mapping.rs\<close>)\<close>

text \<open>
  Where a row's document goes: its id (the key, a template or a hash of the row), its
  routing, its index (fixed or rendered), the documents a fanned row expands to and the join
  relations. Everything renders from the raw row. The messages of the errors are the
  constructors of \<open>rule_error\<close>, each carrying what the text names.
\<close>

datatype rule_error =
    NotADocument
  | ColumnMissing string
  | ColumnNull string
  | ColumnEmpty string
  | NeedsBeforeImage string
  | UnbalancedOpen
  | NestedOpen
  | EmptyPlaceholder
  | BadPlaceholder string
  | UnbalancedClose
  | EmptyTemplate
  | NullKey
  | ColumnsForOneKey nat
  | ColumnNotInKey string
  | NameStart
  | NameCharacters
  | NameReserved
  | UnusableIndex string string "string list" rule_error
  | FanOutHoldsArray string string
  | FanOutNotString string
  | FanOutNotArray string
  | ParentIsElement string

definition scalar_display :: "externs \<Rightarrow> json \<Rightarrow> string" where
  "scalar_display ext v = (case v of JString s \<Rightarrow> s | other \<Rightarrow> value_to_string ext other)"

definition pk_to_id :: "externs \<Rightarrow> json \<Rightarrow> string" where
  "pk_to_id ext pk = (case pk of
       JNull \<Rightarrow> ''__null__''
     | JString s \<Rightarrow> s
     | JNumber n \<Rightarrow> value_to_string ext (JNumber n)
     | JBool b \<Rightarrow> show_bool b
     | JObject m \<Rightarrow> join '','' (sort (map (\<lambda>(k, v). k @ ''='' @ scalar_display ext v) m))
     | other \<Rightarrow> value_to_string ext other)"

definition content_id :: "externs \<Rightarrow> json \<Rightarrow> string" where
  "content_id ext doc = take 32 (concat (map hex_byte (sha256 ext (value_to_string ext doc))))"

subsection \<open>Routing columns\<close>

record routing_column =
  ro_column :: string
  ro_key_column :: bool

type_synonym routings = "table \<rightharpoonup> routing_column"

definition routing_usable :: "routing_column \<Rightarrow> string \<Rightarrow> (rule_error, string) result" where
  "routing_usable rc routing = (if routing = [] then Inl (ColumnEmpty (ro_column rc)) else Inr routing)"

definition routing_render :: "externs \<Rightarrow> routing_column \<Rightarrow> json \<Rightarrow> (rule_error, string) result" where
  "routing_render ext rc raw =
     bindr (ok_or NotADocument (as_object raw)) (\<lambda>m.
       case bt_get m (ro_column rc) of
         None \<Rightarrow> Inl (ColumnMissing (ro_column rc))
       | Some JNull \<Rightarrow> Inl (ColumnNull (ro_column rc))
       | Some value \<Rightarrow> routing_usable rc (scalar_display ext value))"

definition routing_render_from_key ::
  "externs \<Rightarrow> routing_column \<Rightarrow> json option \<Rightarrow> json \<Rightarrow> (rule_error, string) result" where
  "routing_render_from_key ext rc before pk =
     (case before of
        Some b \<Rightarrow> routing_render ext rc b
      | None \<Rightarrow>
          (case Option.bind (as_object pk) (\<lambda>m. bt_get m (ro_column rc)) of
             Some JNull \<Rightarrow> Inl (ColumnNull (ro_column rc))
           | Some value \<Rightarrow> routing_usable rc (scalar_display ext value)
           | None \<Rightarrow>
               if ro_key_column rc \<and> \<not> is_object pk then routing_usable rc (scalar_display ext pk)
               else Inl (NeedsBeforeImage (ro_column rc))))"

type_synonym append_only = "table set"

subsection \<open>Templates\<close>

datatype id_part = PLiteral string | PColumn string

record id_template =
  it_parts :: "id_part list"
  it_pk_only :: bool

text \<open>The text after an opening brace: the name up to the closing one, and what follows.\<close>

fun placeholder :: "string \<Rightarrow> string \<Rightarrow> (rule_error, string \<times> string) result" where
  "placeholder name [] = Inl UnbalancedOpen"
| "placeholder name (c # s) =
     (if c = CHR ''}'' then Inr (name, s)
      else if c = CHR ''{'' then Inl NestedOpen
      else placeholder (name @ [c]) s)"

lemma placeholder_Inr:
  "placeholder name s = Inr (n, r) \<Longrightarrow> \<exists>u. n = name @ u \<and> s = u @ CHR ''}'' # r \<and> CHR ''}'' \<notin> set u \<and> CHR ''{'' \<notin> set u"
  by (induction name s rule: placeholder.induct) (auto split: if_splits)

definition valid_name :: "string \<Rightarrow> bool" where
  "valid_name name \<longleftrightarrow> name \<noteq> [] \<and> (is_ascii_alphabetic (hd name) \<or> hd name = CHR ''_'') \<and>
     list_all (\<lambda>c. is_ascii_alphanumeric c \<or> c = CHR ''_'') name"

definition push_literal :: "string \<Rightarrow> id_part list \<Rightarrow> id_part list" where
  "push_literal literal parts = (if literal = [] then parts else parts @ [PLiteral literal])"

function parse_parts :: "id_part list \<Rightarrow> string \<Rightarrow> string \<Rightarrow> (rule_error, id_part list) result" where
  "parse_parts parts literal [] = Inr (push_literal literal parts)"
| "parse_parts parts literal (c # s) =
     (if c = CHR ''{'' then
        (case placeholder [] s of
           Inl e \<Rightarrow> Inl e
         | Inr (name, rest) \<Rightarrow>
             if name = [] then Inl EmptyPlaceholder
             else if \<not> valid_name name then Inl (BadPlaceholder name)
             else parse_parts (push_literal literal parts @ [PColumn name]) [] rest)
      else if c = CHR ''}'' then Inl UnbalancedClose
      else parse_parts parts (literal @ [c]) s)"
  by pat_completeness auto
termination
  by (relation "measure (\<lambda>(parts, literal, s). length s)") (auto dest: placeholder_Inr)

fun column_names :: "string list \<Rightarrow> id_part list \<Rightarrow> string list" where
  "column_names names [] = names"
| "column_names names (PColumn name # parts) =
     column_names (if name \<in> set names then names else names @ [name]) parts"
| "column_names names (PLiteral _ # parts) = column_names names parts"

definition template_columns :: "id_template \<Rightarrow> string list" where
  "template_columns t = column_names [] (it_parts t)"

definition template_literals :: "id_template \<Rightarrow> string list" where
  "template_literals t = List.map_filter (\<lambda>p. case p of PLiteral s \<Rightarrow> Some s | PColumn _ \<Rightarrow> None) (it_parts t)"

definition template_parse :: "string \<Rightarrow> string list \<Rightarrow> (rule_error, id_template) result" where
  "template_parse spec pk_columns =
     bindr (parse_parts [] [] spec) (\<lambda>parts.
       if parts = [] then Inl EmptyTemplate
       else Inr \<lparr>it_parts = parts, it_pk_only = list_all (\<lambda>c. c \<in> set pk_columns) (column_names [] parts)\<rparr>)"

fun render_parts :: "externs \<Rightarrow> json_map \<Rightarrow> id_part list \<Rightarrow> (rule_error, string) result" where
  "render_parts ext m [] = Inr []"
| "render_parts ext m (PLiteral s # parts) = bindr (render_parts ext m parts) (\<lambda>out. Inr (s @ out))"
| "render_parts ext m (PColumn c # parts) =
     (case bt_get m c of
        None \<Rightarrow> Inl (ColumnMissing c)
      | Some JNull \<Rightarrow> Inl (ColumnNull c)
      | Some v \<Rightarrow> bindr (render_parts ext m parts) (\<lambda>out. Inr (scalar_display ext v @ out)))"

definition template_render :: "externs \<Rightarrow> id_template \<Rightarrow> json \<Rightarrow> (rule_error, string) result" where
  "template_render ext t doc =
     bindr (ok_or NotADocument (as_object doc)) (\<lambda>m. render_parts ext m (it_parts t))"

definition template_render_from_pk :: "externs \<Rightarrow> id_template \<Rightarrow> json \<Rightarrow> (rule_error, string) result" where
  "template_render_from_pk ext t pk = (case pk of
       JObject m \<Rightarrow> template_render ext t (JObject m)
     | JNull \<Rightarrow> Inl NullKey
     | scalar \<Rightarrow>
         (let columns = template_columns t
          in if length columns \<noteq> 1 then Inl (ColumnsForOneKey (length columns))
             else if \<not> it_pk_only t then Inl (ColumnNotInKey (hd columns))
             else template_render ext t (JObject [(hd columns, scalar)])))"

type_synonym id_templates = "table \<rightharpoonup> id_template"

subsection \<open>Index targets\<close>

definition check_index_name :: "string \<Rightarrow> (rule_error, unit) result" where
  "check_index_name name =
     (if \<not> (name \<noteq> [] \<and> is_ascii_lowercase (hd name)) then Inl NameStart
      else if \<not> list_all (\<lambda>c. is_ascii_lowercase c \<or> is_ascii_digit c \<or> c = CHR ''_'' \<or> c = CHR ''-'') name
      then Inl NameCharacters
      else if starts_with name ''_'' \<or> starts_with name ''.'' then Inl NameReserved
      else Inr ())"

datatype index_target = Static string | Template string id_template

definition target_usable :: "string \<Rightarrow> id_template \<Rightarrow> string \<Rightarrow> (rule_error, string) result" where
  "target_usable spec template name =
     bindr (map_err (UnusableIndex spec name (template_columns template)) (check_index_name name)) (\<lambda>_. Inr name)"

fun target_render :: "externs \<Rightarrow> index_target \<Rightarrow> json \<Rightarrow> (rule_error, string) result" where
  "target_render ext (Static name) doc = Inr name"
| "target_render ext (Template spec template) doc =
     bindr (template_render ext template doc) (target_usable spec template)"

fun target_render_from_pk :: "externs \<Rightarrow> index_target \<Rightarrow> json \<Rightarrow> (rule_error, string) result" where
  "target_render_from_pk ext (Static name) pk = Inr name"
| "target_render_from_pk ext (Template spec template) pk =
     bindr (template_render_from_pk ext template pk) (target_usable spec template)"

fun target_is_pk_only :: "index_target \<Rightarrow> bool" where
  "target_is_pk_only (Static _) = True"
| "target_is_pk_only (Template _ template) = it_pk_only template"

fun pattern_step :: "id_part \<Rightarrow> string \<Rightarrow> string" where
  "pattern_step (PLiteral s) out = out @ s"
| "pattern_step (PColumn _) out = (if ends_with out ''*'' then out else out @ ''*'')"

fun target_pattern :: "index_target \<Rightarrow> string" where
  "target_pattern (Static name) = name"
| "target_pattern (Template _ template) = fold pattern_step (it_parts template) []"

fun target_spec :: "index_target \<Rightarrow> string" where
  "target_spec (Static name) = name"
| "target_spec (Template spec _) = spec"

subsection \<open>Fan-out\<close>

record fan_out =
  fo_field :: string
  fo_by :: "string option"
  fo_id :: id_template

type_synonym fan_outs = "table \<rightharpoonup> fan_out"

datatype fan_items = NoDocuments | ParentOnly | Items "json list"

definition fan_out_items :: "fan_out \<Rightarrow> json_map \<Rightarrow> (rule_error, fan_items) result" where
  "fan_out_items rule parent =
     (case (bt_get parent (fo_field rule), fo_by rule) of
        (None, _) \<Rightarrow> Inr NoDocuments
      | (Some JNull, _) \<Rightarrow> Inr ParentOnly
      | (Some (JArray items), None) \<Rightarrow> Inr (Items items)
      | (Some (JString s), Some delim) \<Rightarrow>
          Inr (Items (map JString (filter (\<lambda>piece. piece \<noteq> []) (map trim (split_str delim s)))))
      | (Some (JArray _), Some delim) \<Rightarrow> Inl (FanOutHoldsArray (fo_field rule) delim)
      | (Some _, Some _) \<Rightarrow> Inl (FanOutNotString (fo_field rule))
      | (Some _, None) \<Rightarrow> Inl (FanOutNotArray (fo_field rule)))"

definition fan_out_child :: "fan_out \<Rightarrow> json_map \<Rightarrow> json \<Rightarrow> json_map" where
  "fan_out_child rule parent item =
     (let child = bt_remove (fo_field rule) parent
      in case item of
           JObject entries \<Rightarrow> bt_extend child entries
         | scalar \<Rightarrow> bt_insert (fo_field rule) scalar child)"

definition fan_out_docs :: "externs \<Rightarrow> fan_out \<Rightarrow> string \<Rightarrow> json \<Rightarrow> (rule_error, (string \<times> json) list) result" where
  "fan_out_docs ext rule base_id doc =
     bindr (ok_or NotADocument (as_object doc)) (\<lambda>parent.
     bindr (fan_out_items rule parent) (\<lambda>items.
       case items of
         NoDocuments \<Rightarrow> Inr []
       | ParentOnly \<Rightarrow> Inr [(base_id, doc)]
       | Items list \<Rightarrow>
           mapr (\<lambda>item. let child_doc = JObject (fan_out_child rule parent item)
                        in bindr (template_render ext (fo_id rule) child_doc) (\<lambda>id. Inr (id, child_doc))) list))"

subsection \<open>Joins\<close>

datatype parent_id = PKey | PTemplate id_template

record join_parent =
  jp_column :: string
  jp_name :: string
  jp_id :: parent_id
  jp_key_column :: bool
  jp_element :: bool

record join_rule =
  jr_field :: string
  jr_name :: string
  jr_parent :: "join_parent option"

type_synonym joins = "table \<rightharpoonup> join_rule"

fun parent_id_render :: "externs \<Rightarrow> parent_id \<Rightarrow> json \<Rightarrow> (rule_error, string) result" where
  "parent_id_render ext PKey key = Inr (pk_to_id ext key)"
| "parent_id_render ext (PTemplate template) key = template_render_from_pk ext template key"

definition routing_for_doc :: "externs \<Rightarrow> join_rule \<Rightarrow> json \<Rightarrow> (rule_error, json \<times> string option) result" where
  "routing_for_doc ext jr raw =
     (case jr_parent jr of
        None \<Rightarrow> Inr (JString (jr_name jr), None)
      | Some parent \<Rightarrow>
          bindr (ok_or NotADocument (as_object raw)) (\<lambda>m.
          bindr (case bt_get m (jp_column parent) of
                   None \<Rightarrow> Inl (ColumnMissing (jp_column parent))
                 | Some JNull \<Rightarrow> Inl (ColumnNull (jp_column parent))
                 | Some key \<Rightarrow> parent_id_render ext (jp_id parent) key) (\<lambda>parent_id.
            Inr (json_obj [(''name'', JString (jr_name jr)), (''parent'', JString parent_id)], Some parent_id))))"

definition routing_for_key ::
  "externs \<Rightarrow> join_rule \<Rightarrow> json option \<Rightarrow> json \<Rightarrow> (rule_error, string option) result" where
  "routing_for_key ext jr before pk =
     (case jr_parent jr of
        None \<Rightarrow> Inr None
      | Some parent \<Rightarrow>
          if jp_element parent then Inl (ParentIsElement (jr_name jr))
          else case before of
            Some b \<Rightarrow> bindr (routing_for_doc ext jr b) (\<lambda>(_, routing). Inr routing)
          | None \<Rightarrow>
              (case Option.bind (as_object pk) (\<lambda>m. bt_get m (jp_column parent)) of
                 Some key \<Rightarrow> bindr (parent_id_render ext (jp_id parent) key) (\<lambda>r. Inr (Some r))
               | None \<Rightarrow>
                   if jp_key_column parent \<and> \<not> is_object pk
                   then bindr (parent_id_render ext (jp_id parent) pk) (\<lambda>r. Inr (Some r))
                   else Inl (NeedsBeforeImage (jp_column parent))))"

subsection \<open>Table mapping\<close>

record table_mapping =
  tm_map :: "table \<rightharpoonup> index_target"
  tm_shared :: "string set"

definition mapping_step ::
  "table \<times> index_target \<Rightarrow> (table \<rightharpoonup> index_target) \<times> string set \<times> string set
   \<Rightarrow> (table \<rightharpoonup> index_target) \<times> string set \<times> string set" where
  "mapping_step pair st =
     (case (pair, st) of ((tab, target), (m, seen, shared)) \<Rightarrow>
        (case target of
           Static index \<Rightarrow>
             (m(tab \<mapsto> target), insert index seen, if index \<in> seen then insert index shared else shared)
         | Template _ _ \<Rightarrow> (m(tab \<mapsto> target), seen, shared)))"

definition mapping_from_pairs :: "(table \<times> index_target) list \<Rightarrow> table_mapping" where
  "mapping_from_pairs pairs =
     (case fold mapping_step pairs (Map.empty, {}, {}) of (m, _, shared) \<Rightarrow> \<lparr>tm_map = m, tm_shared = shared\<rparr>)"

definition target_for :: "table_mapping \<Rightarrow> table \<Rightarrow> index_target option" where
  "target_for tm tab = tm_map tm tab"

definition is_shared :: "table_mapping \<Rightarrow> string \<Rightarrow> bool" where
  "is_shared tm index \<longleftrightarrow> index \<in> tm_shared tm"

subsection \<open>Facts: templates\<close>

fun part_text :: "id_part \<Rightarrow> string" where
  "part_text (PLiteral s) = s"
| "part_text (PColumn c) = ''{'' @ c @ ''}''"

definition template_text :: "id_part list \<Rightarrow> string" where
  "template_text parts = concat (map part_text parts)"

fun starts_literal :: "id_part list \<Rightarrow> bool" where
  "starts_literal (PLiteral _ # _) = True"
| "starts_literal _ = False"

fun normal_parts :: "id_part list \<Rightarrow> bool" where
  "normal_parts [] = True"
| "normal_parts (PLiteral s # ps) \<longleftrightarrow>
     s \<noteq> [] \<and> CHR ''{'' \<notin> set s \<and> CHR ''}'' \<notin> set s \<and> \<not> starts_literal ps \<and> normal_parts ps"
| "normal_parts (PColumn c # ps) \<longleftrightarrow> valid_name c \<and> normal_parts ps"

lemma template_text_simps [simp]:
  "template_text [] = []"
  "template_text (p # ps) = part_text p @ template_text ps"
  by (simp_all add: template_text_def)

lemma valid_name_no_brace: "valid_name c \<Longrightarrow> CHR ''{'' \<notin> set c \<and> CHR ''}'' \<notin> set c"
  by (auto simp: valid_name_def list_all_iff ascii_defs)

lemma parse_parts_sound:
  "parse_parts parts lit s = Inr ps \<Longrightarrow> CHR ''{'' \<notin> set lit \<Longrightarrow> CHR ''}'' \<notin> set lit \<Longrightarrow>
   \<exists>qs. ps = parts @ qs \<and> template_text qs = lit @ s \<and> normal_parts qs"
proof (induction parts lit s arbitrary: ps rule: parse_parts.induct)
  case (1 parts lit)
  show ?case
    by (rule exI [of _ "push_literal lit []"]) (use 1 in \<open>auto simp: push_literal_def\<close>)
next
  case (2 parts lit c s)
  show ?case
  proof (cases "c = CHR ''{''")
    case True
    with "2.prems"(1) obtain name r where n: "placeholder [] s = Inr (name, r)" "name \<noteq> []" "valid_name name"
      and p: "parse_parts (push_literal lit parts @ [PColumn name]) [] r = Inr ps"
      by (auto split: sum.splits if_splits)
    have n3: "\<not> \<not> valid_name name" using n(3) by simp
    from "2.IH"(1) [OF True n(1) refl n(2) n3 p] obtain qs where
      qs: "ps = (push_literal lit parts @ [PColumn name]) @ qs" "template_text qs = r" "normal_parts qs" by auto
    from placeholder_Inr [OF n(1)] have "s = name @ CHR ''}'' # r" by simp
    with qs n(3) True "2.prems"(2,3) show ?thesis
      by (intro exI [of _ "push_literal lit [] @ [PColumn name] @ qs"]) (auto simp: push_literal_def)
  next
    case False
    with "2.prems"(1) have c: "c \<noteq> CHR ''}''" "parse_parts parts (lit @ [c]) s = Inr ps" by (auto split: if_splits)
    from "2.IH"(2) [OF False c(1) c(2)] "2.prems"(2,3) False c(1) show ?thesis by auto
  qed
qed

lemma parse_parts_literal:
  "CHR ''{'' \<notin> set u \<Longrightarrow> CHR ''}'' \<notin> set u \<Longrightarrow> parse_parts parts lit (u @ s) = parse_parts parts (lit @ u) s"
  by (induction u arbitrary: lit) auto

lemma placeholder_append:
  "CHR ''{'' \<notin> set u \<Longrightarrow> CHR ''}'' \<notin> set u \<Longrightarrow> placeholder n (u @ CHR ''}'' # s) = Inr (n @ u, s)"
  by (induction u arbitrary: n) auto

lemma parse_parts_complete:
  "normal_parts qs \<Longrightarrow> lit = [] \<or> \<not> starts_literal qs \<Longrightarrow>
   parse_parts parts lit (template_text qs) = Inr (push_literal lit parts @ qs)"
proof (induction qs arbitrary: parts lit)
  case (Cons q qs)
  show ?case
  proof (cases q)
    case (PLiteral u)
    with Cons.prems have "lit = []" "CHR ''{'' \<notin> set u" "CHR ''}'' \<notin> set u" "u \<noteq> []" by auto
    with PLiteral Cons show ?thesis by (simp add: parse_parts_literal push_literal_def)
  next
    case (PColumn c)
    with Cons.prems have c: "valid_name c" "normal_parts qs" by auto
    with placeholder_append [of c "[]" "template_text qs"] valid_name_no_brace [OF c(1)]
    have "placeholder [] (c @ CHR ''}'' # template_text qs) = Inr (c, template_text qs)" by simp
    moreover have "c \<noteq> []" using c(1) by (auto simp: valid_name_def)
    ultimately show ?thesis using PColumn Cons.IH [OF c(2), of "[]"] c(1) by (simp add: push_literal_def)
  qed
qed simp

lemma parse_parts_iff: "parse_parts [] [] spec = Inr ps \<longleftrightarrow> normal_parts ps \<and> template_text ps = spec"
proof
  assume "parse_parts [] [] spec = Inr ps"
  from parse_parts_sound [OF this] show "normal_parts ps \<and> template_text ps = spec" by simp
next
  assume "normal_parts ps \<and> template_text ps = spec"
  then show "parse_parts [] [] spec = Inr ps"
    using parse_parts_complete [of ps "[]" "[]"] by (simp add: push_literal_def)
qed

text \<open>The template parser accepts exactly the texts of well-formed templates, and the parts it
  answers are the unique ones that print as the text: a template means what it says, and no
  text is read in two ways.\<close>

theorem template_parse_iff:
  "template_parse spec pk_columns = Inr t \<longleftrightarrow>
     it_parts t \<noteq> [] \<and> normal_parts (it_parts t) \<and> template_text (it_parts t) = spec \<and>
     (it_pk_only t \<longleftrightarrow> set (template_columns t) \<subseteq> set pk_columns)"
proof (cases "parse_parts [] [] spec")
  case (Inl e)
  then have "\<not> (normal_parts (it_parts t) \<and> template_text (it_parts t) = spec)"
    using parse_parts_iff [of spec "it_parts t"] by auto
  with Inl show ?thesis by (auto simp: template_parse_def)
next
  case (Inr ps)
  then have "normal_parts (it_parts t) \<and> template_text (it_parts t) = spec \<longleftrightarrow> it_parts t = ps"
    using parse_parts_iff [of spec "it_parts t"] by auto
  then show ?thesis using Inr
    by (cases t) (auto simp: template_parse_def template_columns_def list_all_iff)
qed

lemma set_column_names: "set (column_names names parts) = set names \<union> {c. PColumn c \<in> set parts}"
  by (induction names parts rule: column_names.induct) auto

lemma render_parts_cong:
  "(\<And>c. PColumn c \<in> set parts \<Longrightarrow> bt_get m c = bt_get m' c) \<Longrightarrow> render_parts ext m parts = render_parts ext m' parts"
  by (induction ext m parts rule: render_parts.induct) (auto split: option.splits json.splits)

lemma template_columns_iff: "c \<in> set (template_columns t) \<longleftrightarrow> PColumn c \<in> set (it_parts t)"
  by (simp add: template_columns_def set_column_names)

text \<open>A key agrees with a row: a composite key holds the row's values of the columns asked
  for, a single value is the row's value of the one column.\<close>

definition key_agrees :: "json \<Rightarrow> json_map \<Rightarrow> string list \<Rightarrow> bool" where
  "key_agrees pk m columns \<longleftrightarrow>
     (case pk of
        JObject km \<Rightarrow> \<forall>c \<in> set columns. bt_get km c = bt_get m c
      | JNull \<Rightarrow> False
      | scalar \<Rightarrow> (\<exists>c. columns = [c] \<and> bt_get m c = Some scalar))"

lemma render_parts_single:
  assumes "template_columns t = [c]" "bt_get m c = Some v"
  shows "render_parts ext [(c, v)] (it_parts t) = render_parts ext m (it_parts t)"
proof (rule render_parts_cong)
  fix c' assume "PColumn c' \<in> set (it_parts t)"
  with assms(1) template_columns_iff [of c' t] have "c' = c" by simp
  with assms(2) show "bt_get [(c, v)] c' = bt_get m c'" by (simp add: bt_get_def)
qed

lemma template_from_pk_agrees:
  assumes "it_pk_only t" "key_agrees pk m (template_columns t)"
  shows "template_render_from_pk ext t pk = template_render ext t (JObject m)"
proof (cases pk)
  case (JObject km)
  then have "\<And>c. PColumn c \<in> set (it_parts t) \<Longrightarrow> bt_get km c = bt_get m c"
    using assms(2) by (auto simp: key_agrees_def template_columns_iff)
  then show ?thesis
    using JObject by (auto simp: template_render_from_pk_def template_render_def intro: render_parts_cong)
next
  case JNull
  then show ?thesis using assms by (simp add: key_agrees_def)
qed (use assms in \<open>auto simp: key_agrees_def template_render_from_pk_def template_render_def Let_def render_parts_single\<close>)

lemma target_from_pk_agrees:
  "target_is_pk_only target \<Longrightarrow> (\<And>spec t. target = Template spec t \<Longrightarrow> key_agrees pk m (template_columns t)) \<Longrightarrow>
   target_render_from_pk ext target pk = target_render ext target (JObject m)"
  by (cases target) (auto simp: template_from_pk_agrees)

text \<open>A delete finds the document its row was written to: for a template over key columns, the
  id rendered from the key alone is the id rendered from the row, for single and composite
  keys, errors included.\<close>

theorem template_pk_doc_agree:
  assumes "template_parse spec pk_columns = Inr t" "set (template_columns t) \<subseteq> set pk_columns"
    and "key_agrees pk m (template_columns t)"
  shows "template_render_from_pk ext t pk = template_render ext t (JObject m)"
proof -
  have "it_pk_only t"
    using assms(1,2) by (auto simp: template_parse_def template_columns_def list_all_iff bindr_Inr_iff split: if_splits)
  from template_from_pk_agrees [OF this assms(3)] show ?thesis .
qed

theorem template_pk_doc_agree_witness:
  "\<exists>t. template_parse ''user-{id}'' [''id''] = Inr t \<and>
    template_render_from_pk sample_externs t (JNumber (NInt 7)) = Inr ''user-7'' \<and>
    template_render sample_externs t (JObject [(''id'', JNumber (NInt 7)), (''name'', JString ''x'')]) = Inr ''user-7''"
proof -
  define t where "t = \<lparr>it_parts = [PLiteral ''user-'', PColumn ''id''], it_pk_only = True\<rparr>"
  have parse: "template_parse ''user-{id}'' [''id''] = Inr t" unfolding t_def by code_simp
  have render: "template_render sample_externs t (JObject [(''id'', JNumber (NInt 7)), (''name'', JString ''x'')]) = Inr ''user-7''"
    unfolding t_def by code_simp
  have cols: "template_columns t = [''id'']" by (simp add: t_def template_columns_def)
  from template_pk_doc_agree [OF parse, of "JNumber (NInt 7)" "[(''id'', JNumber (NInt 7)), (''name'', JString ''x'')]" sample_externs]
  show ?thesis using parse render cols by (auto simp: key_agrees_def bt_get_def)
qed

subsection \<open>Facts: index names\<close>

lemma glob_refl: "glob s s"
proof (induction s)
  case (Cons c s)
  show ?case
  proof (cases "c = CHR ''*''")
    case True
    with Cons show ?thesis by (metis append_Cons append_Nil glob_star_iff)
  qed (use Cons in simp)
qed simp

lemma glob_append: "glob p a \<Longrightarrow> glob q b \<Longrightarrow> glob (p @ q) (a @ b)"
proof (induction p arbitrary: a)
  case (Cons c p)
  show ?case
  proof (cases "c = CHR ''*''")
    case True
    with Cons.prems(1) obtain g r where "a = g @ r" "glob p r" by (auto simp: glob_star_iff)
    with Cons True show ?thesis by (metis append.assoc append_Cons glob_star_iff)
  next
    case False
    with Cons.prems(1) obtain a' where "a = c # a'" "glob p a'" by (cases a) auto
    with Cons False show ?thesis by simp
  qed
qed simp

lemma glob_star_end: "glob (u @ ''*'') a \<Longrightarrow> glob (u @ ''*'') (a @ b)"
proof (induction u arbitrary: a)
  case Nil
  show ?case by (simp add: glob_star_iff)
next
  case (Cons c u)
  show ?case
  proof (cases "c = CHR ''*''")
    case True
    with Cons.prems obtain g r where "a = g @ r" "glob (u @ ''*'') r" by (auto simp: glob_star_iff)
    with Cons.IH [of r] True show ?thesis by (metis append.assoc append_Cons glob_star_iff)
  next
    case False
    with Cons.prems obtain a' where "a = c # a'" "glob (u @ ''*'') a'" by (cases a) auto
    with Cons False show ?thesis by simp
  qed
qed

lemma glob_pattern_column: "glob out got \<Longrightarrow> glob (pattern_step (PColumn c) out) (got @ v)"
proof (cases "ends_with out ''*''")
  case True
  then obtain u where "out = u @ ''*''" by (auto simp: ends_with_iff)
  then show "glob out got \<Longrightarrow> ?thesis" using True glob_star_end [of u got v] by simp
next
  case False
  have "glob ''*'' v" by (simp add: glob_star_iff)
  then show "glob out got \<Longrightarrow> ?thesis" using False glob_append [of out got "''*''" v] by simp
qed

lemma render_parts_pattern:
  "render_parts ext m parts = Inr name \<Longrightarrow> glob out got \<Longrightarrow> glob (fold pattern_step parts out) (got @ name)"
proof (induction parts arbitrary: name out got)
  case (Cons p parts)
  show ?case
  proof (cases p)
    case (PLiteral s)
    with Cons.prems(1) obtain rest where "render_parts ext m parts = Inr rest" "name = s @ rest"
      by (auto simp: bindr_Inr_iff)
    with Cons.IH [of rest "out @ s" "got @ s"] Cons.prems(2) PLiteral show ?thesis by (simp add: glob_append glob_refl)
  next
    case (PColumn c)
    with Cons.prems(1) obtain v rest where "render_parts ext m parts = Inr rest" "name = scalar_display ext v @ rest"
      by (auto simp: bindr_Inr_iff split: option.splits json.splits)
    with Cons.IH [OF _ glob_pattern_column [OF Cons.prems(2)]] PColumn show ?thesis
      by (simp del: pattern_step.simps)
  qed
qed simp

lemma target_usable_Inr [simp]: "target_usable spec t name = Inr n \<longleftrightarrow> n = name \<and> check_index_name name = Inr ()"
  by (cases "check_index_name name") (auto simp: target_usable_def)

lemma template_render_pattern:
  "template_render ext t doc = Inr name \<Longrightarrow> glob (fold pattern_step (it_parts t) []) name"
  using render_parts_pattern [of ext _ "it_parts t" name "[]" "[]"]
  by (auto simp: template_render_def bindr_Inr_iff)

lemma template_from_pk_render:
  "template_render_from_pk ext t pk = Inr name \<Longrightarrow> \<exists>doc. template_render ext t doc = Inr name"
  by (auto simp: template_render_from_pk_def Let_def split: json.splits if_splits)

text \<open>A TRUNCATE reaches every index a table's rows can have been written to: whatever a row or
  a key renders, the name matches the pattern the truncate clears, and a rendered name is
  always a legal index name.\<close>

theorem rendered_index_in_pattern:
  assumes "target_render ext target doc = Inr name \<or> target_render_from_pk ext target pk = Inr name"
  shows "index_matches_pattern (target_pattern target) name \<and>
    (target = Static name \<or> check_index_name name = Inr ())"
proof (cases target)
  case (Static n)
  with assms show ?thesis by (auto simp: index_matches_glob glob_refl)
next
  case (Template spec t)
  with assms obtain doc' where "template_render ext t doc' = Inr name" "check_index_name name = Inr ()"
    by (auto simp: bindr_Inr_iff dest: template_from_pk_render)
  with Template template_render_pattern show ?thesis by (simp add: index_matches_glob)
qed

theorem rendered_index_in_pattern_witness:
  "\<exists>t. template_parse ''events-{tenant}'' [''id''] = Inr t \<and>
    target_render sample_externs (Template ''events-{tenant}'' t) (JObject [(''tenant'', JString ''acme'')]) = Inr ''events-acme'' \<and>
    index_matches_pattern (target_pattern (Template ''events-{tenant}'' t)) ''events-acme''"
proof -
  define t where "t = \<lparr>it_parts = [PLiteral ''events-'', PColumn ''tenant''], it_pk_only = False\<rparr>"
  have parse: "template_parse ''events-{tenant}'' [''id''] = Inr t" unfolding t_def by code_simp
  have render: "target_render sample_externs (Template ''events-{tenant}'' t) (JObject [(''tenant'', JString ''acme'')])
      = Inr ''events-acme''" unfolding t_def by code_simp
  from rendered_index_in_pattern [OF disjI1 [OF render]] show ?thesis using parse render by blast
qed

subsection \<open>Facts: keys as ids\<close>

lemma split_char_no_sep: "c \<notin> set x \<Longrightarrow> split_char c (x @ c # s) = x # split_char c s"
  by (rule split_char_star)

lemma join_inj:
  assumes "join [c] xs = join [c] ys" "xs \<noteq> []" "ys \<noteq> []" "\<forall>x \<in> set xs. c \<notin> set x" "\<forall>y \<in> set ys. c \<notin> set y"
  shows "xs = ys"
proof -
  have "split_char c (join [c] zs) = zs" if "zs \<noteq> []" "\<forall>z \<in> set zs. c \<notin> set z" for zs
    using that by (induction "[c]" zs rule: join.induct) (auto simp: split_char_star)
  then show ?thesis using assms by metis
qed

definition pair_text :: "externs \<Rightarrow> string \<times> json \<Rightarrow> string" where
  "pair_text ext kv = (case kv of (k, v) \<Rightarrow> k @ ''='' @ scalar_display ext v)"

lemma pair_text_inj:
  assumes "pair_text ext (k, v) = pair_text ext (k', v')" "CHR ''='' \<notin> set k" "CHR ''='' \<notin> set k'"
  shows "k = k' \<and> scalar_display ext v = scalar_display ext v'"
proof -
  have "split_once (CHR ''='') (pair_text ext (k, v)) = Some (k, scalar_display ext v)"
    "split_once (CHR ''='') (pair_text ext (k', v')) = Some (k', scalar_display ext v')"
    using assms(2,3) split_once_append by (simp_all add: pair_text_def)
  with assms(1) show ?thesis by simp
qed

definition plain_key :: "externs \<Rightarrow> json_map \<Rightarrow> bool" where
  "plain_key ext m \<longleftrightarrow> m \<noteq> [] \<and> bt_wf m \<and>
     list_all (\<lambda>(k, v). CHR ''='' \<notin> set k \<and> CHR '','' \<notin> set k \<and> CHR '','' \<notin> set (scalar_display ext v)) m"

lemma plain_keyD:
  "plain_key ext m \<Longrightarrow> (k, v) \<in> set m \<Longrightarrow>
     CHR ''='' \<notin> set k \<and> CHR '','' \<notin> set k \<and> CHR '','' \<notin> set (scalar_display ext v)"
  by (auto simp: plain_key_def list_all_iff)

abbreviation displayed :: "externs \<Rightarrow> json_map \<Rightarrow> (string \<times> string) list" where
  "displayed ext m \<equiv> map (\<lambda>(k, v). (k, scalar_display ext v)) m"

lemma pair_texts_subset:
  assumes "pair_text ext ` set a \<subseteq> pair_text ext ` set b" "plain_key ext a" "plain_key ext b"
  shows "set (displayed ext a) \<subseteq> set (displayed ext b)"
proof
  fix x assume "x \<in> set (displayed ext a)"
  then obtain k v where kv: "(k, v) \<in> set a" "x = (k, scalar_display ext v)" by auto
  then have "pair_text ext (k, v) \<in> pair_text ext ` set b" using assms(1) by blast
  then obtain k' v' where kv': "(k', v') \<in> set b" "pair_text ext (k, v) = pair_text ext (k', v')" by auto
  with pair_text_inj [OF kv'(2)] plain_keyD [OF assms(2) kv(1)] plain_keyD [OF assms(3) kv'(1)] kv
  show "x \<in> set (displayed ext b)" by force
qed

lemma pair_text_no_comma: "plain_key ext m \<Longrightarrow> x \<in> set (sort (map (pair_text ext) m)) \<Longrightarrow> CHR '','' \<notin> set x"
  by (auto simp: pair_text_def dest: plain_keyD)

lemma bt_wf_displayed: "bt_wf m \<Longrightarrow> bt_wf (displayed ext m)"
  by (simp add: bt_wf_def comp_def split_beta)

text \<open>Two composite keys that differ never share a document id, as long as no column name
  holds an equals sign or a comma and no value's text holds a comma.\<close>

theorem pk_to_id_injective:
  assumes "plain_key ext m" "plain_key ext m'" "pk_to_id ext (JObject m) = pk_to_id ext (JObject m')"
  shows "displayed ext m = displayed ext m'"
proof -
  let ?t = "\<lambda>m. sort (map (pair_text ext) m)"
  have "join '','' (?t m) = join '','' (?t m')"
    using assms(3) by (simp add: pk_to_id_def pair_text_def [abs_def])
  moreover have "?t m \<noteq> []" "?t m' \<noteq> []"
    using assms(1,2) by (auto simp: plain_key_def dest: arg_cong [of "sort _" _ length])
  ultimately have "?t m = ?t m'"
    by (rule join_inj) (use pair_text_no_comma assms(1,2) in blast)+
  then have "pair_text ext ` set m = pair_text ext ` set m'" by (metis set_map set_sort)
  then have "set (displayed ext m) = set (displayed ext m')"
    using pair_texts_subset [of ext m m'] pair_texts_subset [of ext m' m] assms(1,2) by blast
  moreover have wf: "bt_wf (displayed ext m)" "bt_wf (displayed ext m')"
    using assms(1,2) by (simp_all only: plain_key_def bt_wf_displayed)
  ultimately have "map_of (displayed ext m) = map_of (displayed ext m')"
    by (intro map_of_inject_set [THEN iffD2] bt_wf_distinct)
  then show ?thesis by (intro bt_ext [OF wf]) (simp only: bt_get_def fun_eq_iff, simp)
qed

theorem pk_to_id_injective_witness:
  "\<exists>m m'. bt_wf m \<and> bt_wf m' \<and> m \<noteq> m' \<and> pk_to_id sample_externs (JObject m) \<noteq> pk_to_id sample_externs (JObject m')"
proof -
  define m m' where "m = [(''a'', JString ''x''), (''b'', JString ''y'')]" and "m' = [(''a'', JString ''x''), (''b'', JString ''z'')]"
  have "bt_wf m" "bt_wf m'" by (simp_all add: m_def m'_def bt_wf_def)
  moreover have "pk_to_id sample_externs (JObject m) \<noteq> pk_to_id sample_externs (JObject m')"
  proof
    assume "pk_to_id sample_externs (JObject m) = pk_to_id sample_externs (JObject m')"
    moreover have "plain_key sample_externs m" "plain_key sample_externs m'"
      by (simp_all add: plain_key_def m_def m'_def bt_wf_def scalar_display_def)
    ultimately show False using pk_to_id_injective [of sample_externs m m']
      by (auto simp: m_def m'_def scalar_display_def)
  qed
  ultimately show ?thesis by (intro exI [of _ m] exI [of _ m']) (simp add: m_def m'_def)
qed

text \<open>Without that, they can: two different rows of one table, with text key columns that
  contain a comma, are filed under one document id.\<close>

theorem pk_to_id_collision:
  "pk_to_id ext (JObject [(''a'', JString ''x,b=y''), (''b'', JString ''z'')]) =
   pk_to_id ext (JObject [(''a'', JString ''x''), (''b'', JString ''y,b=z'')])"
  by (simp add: pk_to_id_def scalar_display_def)

subsection \<open>Facts: routing, fan-out, shared indices\<close>

lemma routing_key_agrees:
  assumes "bt_get m (ro_column rc) = Some v" "v \<noteq> JNull"
    and "(\<exists>km. pk = JObject km \<and> bt_get km (ro_column rc) = Some v) \<or> pk = v \<and> ro_key_column rc \<and> \<not> is_object v"
  shows "routing_render_from_key ext rc None pk = routing_render ext rc (JObject m)"
  using assms
  by (cases v) (auto simp: routing_render_from_key_def routing_render_def as_object_None_iff)

lemma join_key_agrees:
  assumes "jr_parent jr = Some parent" "\<not> jp_element parent" "bt_get m (jp_column parent) = Some v" "v \<noteq> JNull"
    and "(\<exists>km. pk = JObject km \<and> bt_get km (jp_column parent) = Some v) \<or> pk = v \<and> jp_key_column parent \<and> \<not> is_object v"
  shows "routing_for_key ext jr None pk = bindr (routing_for_doc ext jr (JObject m)) (\<lambda>(_, routing). Inr routing)"
proof -
  have "routing_for_doc ext jr (JObject m) = bindr (parent_id_render ext (jp_id parent) v) (\<lambda>parent_id.
      Inr (json_obj [(''name'', JString (jr_name jr)), (''parent'', JString parent_id)], Some parent_id))"
    using assms(1,3,4) by (cases v) (simp_all add: routing_for_doc_def)
  moreover have "routing_for_key ext jr None pk = bindr (parent_id_render ext (jp_id parent) v) (\<lambda>r. Inr (Some r))"
    using assms(1,2,5) by (cases v) (auto simp: routing_for_key_def)
  ultimately show ?thesis by (simp add: bindr_assoc)
qed

text \<open>A delete reaches the shard its document lives on: when the key carries the routing or
  parent column, the routing read from the key alone is the routing the row's document was
  written under, for a routing column and for a join child alike.\<close>

theorem delete_routing_agrees:
  assumes "jr_parent jr = Some parent" "\<not> jp_element parent" "jp_column parent = c" "jp_key_column parent"
    and "ro_column rc = c" "ro_key_column rc" "bt_get m c = Some v" "v \<noteq> JNull" "\<not> is_object v"
    and "pk = v \<or> (\<exists>km. pk = JObject km \<and> bt_get km c = Some v)"
  shows "routing_render_from_key ext rc None pk = routing_render ext rc (JObject m) \<and>
    routing_for_key ext jr None pk = bindr (routing_for_doc ext jr (JObject m)) (\<lambda>(_, routing). Inr routing)"
proof
  show "routing_render_from_key ext rc None pk = routing_render ext rc (JObject m)"
    by (rule routing_key_agrees [of _ _ v]) (use assms in auto)
  show "routing_for_key ext jr None pk = bindr (routing_for_doc ext jr (JObject m)) (\<lambda>(_, routing). Inr routing)"
    by (rule join_key_agrees [of _ parent _ v]) (use assms in auto)
qed

theorem delete_routing_agrees_witness:
  "\<exists>rc. routing_render_from_key sample_externs rc None (JString ''t1'') =
     routing_render sample_externs rc (JObject [(''tenant'', JString ''t1'')])"
proof -
  define rc where "rc = \<lparr>ro_column = ''tenant'', ro_key_column = True\<rparr>"
  define parent where "parent = \<lparr>jp_column = ''tenant'', jp_name = ''org'', jp_id = PKey, jp_key_column = True, jp_element = False\<rparr>"
  define jr where "jr = \<lparr>jr_field = ''join'', jr_name = ''user'', jr_parent = Some parent\<rparr>"
  from delete_routing_agrees [of jr parent "''tenant''" rc "[(''tenant'', JString ''t1'')]" "JString ''t1''" "JString ''t1''" sample_externs]
  show ?thesis by (auto simp: rc_def parent_def jr_def bt_get_def)
qed

lemma fan_out_child_get:
  "bt_get (fan_out_child rule parent item) k =
     (case item of
        JObject entries \<Rightarrow> (case map_of (rev entries) k of Some v \<Rightarrow> Some v | None \<Rightarrow> if k = fo_field rule then None else bt_get parent k)
      | _ \<Rightarrow> if k = fo_field rule then Some item else bt_get parent k)"
  by (auto simp: fan_out_child_def Let_def bt_get_extend map_add_def split: json.splits option.splits)

text \<open>A fanned row becomes one document per element, in the array's order: each is filed under
  the id its own fields render, its element's fields win over the row's, the array itself is
  gone, and one element that cannot render fails the whole row.\<close>

theorem fan_out_docs_elements:
  assumes "fan_out_items rule m = Inr (Items items)"
  shows "fan_out_docs ext rule base_id (JObject m) = Inr docs \<longleftrightarrow>
    length docs = length items \<and>
    (\<forall>i < length items. snd (docs ! i) = JObject (fan_out_child rule m (items ! i)) \<and>
       template_render ext (fo_id rule) (snd (docs ! i)) = Inr (fst (docs ! i)))"
proof -
  let ?f = "\<lambda>item. bindr (template_render ext (fo_id rule) (JObject (fan_out_child rule m item)))
      (\<lambda>id. Inr (id, JObject (fan_out_child rule m item)))"
  have "fan_out_docs ext rule base_id (JObject m) = Inr docs \<longleftrightarrow> map ?f items = map Inr docs"
    using assms by (simp add: fan_out_docs_def mapr_Inr_iff Let_def)
  also have "\<dots> \<longleftrightarrow> length docs = length items \<and> (\<forall>i < length items. ?f (items ! i) = Inr (docs ! i))"
    by (auto simp: list_eq_iff_nth_eq)
  also have "\<dots> \<longleftrightarrow> length docs = length items \<and>
      (\<forall>i < length items. snd (docs ! i) = JObject (fan_out_child rule m (items ! i)) \<and>
       template_render ext (fo_id rule) (snd (docs ! i)) = Inr (fst (docs ! i)))"
    by (intro conj_cong refl all_cong) (auto simp: bindr_Inr_iff prod_eq_iff)
  finally show ?thesis .
qed

theorem fan_out_docs_elements_witness:
  "\<exists>rule docs. fan_out_docs sample_externs rule ''1'' (JObject [(''id'', JString ''1''), (''tags'', JArray [JString ''x'', JString ''y''])]) = Inr docs
     \<and> map fst docs = [''1-x'', ''1-y'']"
proof -
  define rule where "rule = \<lparr>fo_field = ''tags'', fo_by = None,
    fo_id = \<lparr>it_parts = [PColumn ''id'', PLiteral ''-'', PColumn ''tags''], it_pk_only = False\<rparr>\<rparr>"
  define docs where "docs = [(''1-x'', JObject [(''id'', JString ''1''), (''tags'', JString ''x'')]),
    (''1-y'', JObject [(''id'', JString ''1''), (''tags'', JString ''y'')])]"
  have "fan_out_docs sample_externs rule ''1'' (JObject [(''id'', JString ''1''), (''tags'', JArray [JString ''x'', JString ''y''])]) = Inr docs"
    by (subst fan_out_docs_elements [of _ _ "[JString ''x'', JString ''y'']"])
       (simp_all add: rule_def docs_def fan_out_items_def fan_out_child_def bt_get_def bt_remove_def bt_retain_def
          nth_Cons' template_render_def scalar_display_def less_Suc_eq)
  then show ?thesis by (intro exI [of _ rule] exI [of _ docs]) (simp add: docs_def)
qed

definition static_names :: "(table \<times> index_target) list \<Rightarrow> string list" where
  "static_names pairs = List.map_filter (\<lambda>(_, target). case target of Static index \<Rightarrow> Some index | _ \<Rightarrow> None) pairs"

lemma static_names_snoc:
  "static_names (pairs @ [(tab, target)]) = static_names pairs @ (case target of Static ix \<Rightarrow> [ix] | _ \<Rightarrow> [])"
  by (simp add: static_names_def map_filter_snoc split: index_target.splits)

lemma count_list_snoc: "count_list (xs @ [x]) y = count_list xs y + (if x = y then 1 else 0)"
  by (induction xs) auto

lemma shared_snoc:
  "{i. 2 \<le> count_list (xs @ [x]) i} =
     (if x \<in> set xs then insert x {i. 2 \<le> count_list xs i} else {i. 2 \<le> count_list xs i})"
  using count_list_0_iff [of xs x] by (auto simp: count_list_snoc split: if_splits)

lemma mapping_fold:
  "fold mapping_step pairs (Map.empty, {}, {}) =
     (map_of (rev pairs), set (static_names pairs), {ix. 2 \<le> count_list (static_names pairs) ix})"
proof (induction pairs rule: rev_induct)
  case (snoc p pairs)
  obtain tab target where p: "p = (tab, target)" by fastforce
  have "fold mapping_step (pairs @ [p]) (Map.empty, {}, {}) = mapping_step (tab, target)
      (map_of (rev pairs), set (static_names pairs), {ix. 2 \<le> count_list (static_names pairs) ix})"
    using snoc p by simp
  also have "\<dots> = (map_of (rev (pairs @ [p])), set (static_names (pairs @ [p])),
      {ix. 2 \<le> count_list (static_names (pairs @ [p])) ix})"
  proof (cases target)
    case (Static ix)
    then show ?thesis by (simp add: p mapping_step_def static_names_snoc shared_snoc del: count_list_append)
  next
    case (Template spec t)
    then show ?thesis by (simp add: p mapping_step_def static_names_snoc)
  qed
  finally show ?case .
qed (simp add: static_names_def List.map_filter_def)

lemma static_names_count: "count_list (static_names pairs) ix = length (filter (\<lambda>p. snd p = Static ix) pairs)"
  by (induction pairs) (auto simp: static_names_def List.map_filter_def split: index_target.splits)

text \<open>An index counts as shared exactly when at least two configured sections write to it by
  name, so a TRUNCATE of one table never clears an index that holds another table's
  documents; and a table's target is the one configured for it last.\<close>

theorem is_shared_iff:
  "(is_shared (mapping_from_pairs pairs) ix \<longleftrightarrow> 2 \<le> length (filter (\<lambda>p. snd p = Static ix) pairs)) \<and>
   target_for (mapping_from_pairs pairs) tab = map_of (rev pairs) tab"
  by (simp add: is_shared_def target_for_def mapping_from_pairs_def mapping_fold static_names_count)

end
