(* ===== verification/Materialize.thy ===== *)
theory Materialize
  imports Doc_Identity
begin

section \<open>From row changes to document operations (\<open>crates/engine/src/lib.rs\<close>)\<close>

text \<open>
  \<open>materialize\<close> and what it calls: completion of unchanged TOASTed columns, the row filter,
  the ladder that renders a name for a row state, the placement of a row's documents and the
  finishing of each. The closures of the function are definitions that take what they
  capture. The list of columns a transform left as they were is returned beside the
  operations. Halting errors are the constructors of \<open>halt\<close>, each for one message of
  \<open>CoreError::Other\<close>.
\<close>

record rules =
  r_projections :: projections
  r_transforms :: transforms
  r_renames :: renames
  r_flattens :: flattens
  r_constants :: constants
  r_id_templates :: id_templates
  r_fan_outs :: fan_outs
  r_joins :: joins
  r_filters :: filters
  r_pipelines :: pipelines
  r_routings :: routings
  r_append_only :: append_only

datatype halt =
    Halt table rule_error
  | NeedsFullRow table string
  | AppendOnlyChange table string
  | FannedDeleteNeedsRow table
  | OfBeforeImage halt

subsection \<open>Sizes\<close>

fun estimate_json :: "json \<Rightarrow> nat" where
  "estimate_json JNull = 4"
| "estimate_json (JBool _) = 5"
| "estimate_json (JNumber _) = 8"
| "estimate_json (JString s) = length s + 2"
| "estimate_json (JArray items) = 2 + sum_list (map estimate_json items)"
| "estimate_json (JObject m) = 2 + sum_list (map (\<lambda>(k, v). length k + 4 + estimate_json v) m)"

definition OVERHEAD :: nat where "OVERHEAD = 64"

definition op_size :: "lsn_op \<Rightarrow> nat" where
  "op_size op = (case op_doc op of
       OpUpsert index doc_id _ doc _ _ \<Rightarrow> length index + length doc_id + estimate_json doc + OVERHEAD
     | OpDelete index doc_id _ _ \<Rightarrow> length index + length doc_id + OVERHEAD
     | OpDeleteChildren index field _ parent_id _ \<Rightarrow> length index + length field + length parent_id + OVERHEAD)"

subsection \<open>Completion and the filter\<close>

fun complete_column :: "renames \<Rightarrow> table \<Rightarrow> json_map \<Rightarrow> string \<Rightarrow> json_map \<times> string list \<Rightarrow> json_map \<times> string list" where
  "complete_column rn tab prev_map col (doc_map, completed) =
     (case bt_get prev_map (target_name rn tab col) of
        None \<Rightarrow> (doc_map, completed)
      | Some v \<Rightarrow> (bt_insert col v doc_map, completed @ [col]))"

definition complete_toast ::
  "json \<Rightarrow> string list \<Rightarrow> json option \<Rightarrow> rules \<Rightarrow> table \<Rightarrow> json \<times> string list" where
  "complete_toast doc unchanged previous rules tab =
     (case (Option.bind previous as_object, as_object doc) of
        (Some prev_map, Some doc_map) \<Rightarrow>
          (case fold (complete_column (r_renames rules) tab prev_map) unchanged (doc_map, []) of
             (m, completed) \<Rightarrow> (JObject m, completed))
      | _ \<Rightarrow> (doc, []))"

definition filter_out :: "row_kind \<Rightarrow> json option \<Rightarrow> row_filter option \<Rightarrow> row_kind" where
  "filter_out kind completed filt =
     (case filt of
        None \<Rightarrow> kind
      | Some f \<Rightarrow>
          (case kind of
             Insert pk doc \<Rightarrow> if \<not> matches f doc then Delete pk (Some doc) else kind
           | Update pk previous_pk doc toast before \<Rightarrow>
               if \<not> matches f (unwrap_or doc completed)
               then Delete (unwrap_or pk previous_pk) (or_else before (Some doc)) else kind
           | Delete _ _ \<Rightarrow> kind))"

subsection \<open>Names of a row state\<close>

text \<open>The trait \<open>RowTemplate\<close> and its two implementations.\<close>

record row_template =
  rt_render :: "json \<Rightarrow> (rule_error, string) result"
  rt_render_from_pk :: "json \<Rightarrow> (rule_error, string) result"
  rt_is_pk_only :: bool

definition id_row_template :: "externs \<Rightarrow> id_template \<Rightarrow> row_template" where
  "id_row_template ext t =
     \<lparr>rt_render = template_render ext t, rt_render_from_pk = template_render_from_pk ext t,
      rt_is_pk_only = it_pk_only t\<rparr>"

definition index_row_template :: "externs \<Rightarrow> index_target \<Rightarrow> row_template" where
  "index_row_template ext target =
     \<lparr>rt_render = target_render ext target, rt_render_from_pk = target_render_from_pk ext target,
      rt_is_pk_only = target_is_pk_only target\<rparr>"

definition render_for_row ::
  "string \<Rightarrow> table \<Rightarrow> row_template \<Rightarrow> json \<Rightarrow> json option \<Rightarrow> json option \<Rightarrow> (halt, string) result" where
  "render_for_row what tab template pk doc before =
     (case doc of
        Some d \<Rightarrow> map_err (Halt tab) (rt_render template d)
      | None \<Rightarrow>
          (case before of
             Some b \<Rightarrow> map_err (Halt tab) (rt_render template b)
           | None \<Rightarrow>
               if rt_is_pk_only template \<or> is_object pk
               then map_err (Halt tab) (rt_render_from_pk template pk)
               else Inl (NeedsFullRow tab what)))"

definition derived_id ::
  "externs \<Rightarrow> table \<Rightarrow> json \<Rightarrow> json option \<Rightarrow> json option \<Rightarrow> rules \<Rightarrow> (halt, string) result" where
  "derived_id ext tab pk doc before rules =
     (case r_id_templates rules tab of
        None \<Rightarrow>
          (case or_else doc before of
             Some row \<Rightarrow> if tab \<in> r_append_only rules then Inr (content_id ext row) else Inr (pk_to_id ext pk)
           | None \<Rightarrow> Inr (pk_to_id ext pk))
      | Some template \<Rightarrow> render_for_row ''id'' tab (id_row_template ext template) pk doc before)"

definition rendered_index ::
  "externs \<Rightarrow> index_target \<Rightarrow> table \<Rightarrow> json \<Rightarrow> json option \<Rightarrow> json option \<Rightarrow> (halt, string) result" where
  "rendered_index ext target tab pk doc before =
     render_for_row ''index'' tab (index_row_template ext target) pk doc before"

text \<open>Where the stored copy that completes a change is kept.\<close>

definition completion_key ::
  "externs \<Rightarrow> row_kind \<Rightarrow> rules \<Rightarrow> table_mapping \<Rightarrow> table \<Rightarrow> ((string \<times> string) \<times> string option) option" where
  "completion_key ext kind rules mapping tab =
     (case kind of
        Update pk previous_pk doc toast before \<Rightarrow>
          if toast = [] then None
          else if tab \<in> r_append_only rules then None
          else Option.bind (target_for mapping tab) (\<lambda>target.
            let old_pk = unwrap_or pk previous_pk in
            Option.bind (case before of
                Some b \<Rightarrow> ok (target_render ext target b)
              | None \<Rightarrow> if target_is_pk_only target then ok (target_render_from_pk ext target old_pk)
                        else ok (target_render ext target doc)) (\<lambda>index.
            Option.bind (case r_joins rules tab of
                None \<Rightarrow> Some None
              | Some rule \<Rightarrow> ok (routing_for_key ext rule before old_pk)) (\<lambda>joined.
            let routing = or_else joined (Option.bind (r_routings rules tab) (\<lambda>rule.
                  ok (routing_render_from_key ext rule before old_pk))) in
            case r_id_templates rules tab of
              None \<Rightarrow>
                (let doc_id = pk_to_id ext pk;
                     doc_id = (case map_option (pk_to_id ext) previous_pk of
                             Some previous \<Rightarrow> if previous \<noteq> doc_id then previous else doc_id
                           | None \<Rightarrow> doc_id)
                 in Some ((index, doc_id), routing))
            | Some template \<Rightarrow>
                if it_pk_only template
                then map_option (\<lambda>doc_id. ((index, doc_id), routing)) (ok (template_render_from_pk ext template old_pk))
                else map_option (\<lambda>doc_id. ((index, doc_id), routing))
                  (or_else (Option.bind before (\<lambda>b. ok (template_render ext template b)))
                     (ok (template_render_from_pk ext template pk))))))
      | _ \<Rightarrow> None)"

text \<open>One read of the target per index; each id is asked for once. The sink's \<open>get_documents\<close>
  is a parameter.\<close>

fun want_completion ::
  "((string \<times> string) \<times> string option) option \<Rightarrow> (string \<times> (string \<times> string option) list) list
   \<Rightarrow> (string \<times> (string \<times> string option) list) list" where
  "want_completion None wanted = wanted"
| "want_completion (Some ((index, doc_id), routing)) wanted =
     (let ids = unwrap_or [] (map_of wanted index)
      in if list_ex (\<lambda>(w, _). w = doc_id) ids then wanted else entry_push index (doc_id, routing) wanted)"

fun read_completions ::
  "(string \<Rightarrow> (string \<times> string option) list \<Rightarrow> (core_error, json option list) result)
   \<Rightarrow> (string \<times> (string \<times> string option) list) list \<Rightarrow> (core_error, (string \<times> string) \<rightharpoonup> json option) result" where
  "read_completions get_documents [] = Inr Map.empty"
| "read_completions get_documents ((index, ids) # wanted) =
     bindr (get_documents index ids) (\<lambda>docs.
     bindr (read_completions get_documents wanted) (\<lambda>out.
       Inr (out ++ map_of (rev (map (\<lambda>((doc_id, _), doc). ((index, doc_id), doc)) (zip ids docs))))))"

definition fetch_completions ::
  "externs \<Rightarrow> row_change list \<Rightarrow> table_mapping
   \<Rightarrow> (string \<Rightarrow> (string \<times> string option) list \<Rightarrow> (core_error, json option list) result) \<Rightarrow> rules
   \<Rightarrow> (core_error, (string \<times> string) \<rightharpoonup> json option) result" where
  "fetch_completions ext rows mapping get_documents rules =
     read_completions get_documents
       (fold (\<lambda>row. want_completion (completion_key ext (rc_kind row) rules mapping (rc_schema row, rc_table row))) rows [])"

subsection \<open>Placement\<close>

record placed =
  pl_id :: string
  pl_doc :: json
  pl_filed :: "(json \<times> string option) option"
  pl_routing :: "string option"

definition shape ::
  "externs \<Rightarrow> rules \<Rightarrow> table \<Rightarrow> string \<Rightarrow> json \<Rightarrow> (halt, (string \<times> json) list) result" where
  "shape ext rules tab base doc =
     (case r_fan_outs rules tab of
        None \<Rightarrow> Inr [(base, doc)]
      | Some rule \<Rightarrow> map_err (Halt tab) (fan_out_docs ext rule base doc))"

definition place_one :: "externs \<Rightarrow> rules \<Rightarrow> table \<Rightarrow> json \<Rightarrow> string \<times> json \<Rightarrow> (halt, placed) result" where
  "place_one ext rules tab raw id_doc =
     (case id_doc of (doc_id, doc) \<Rightarrow>
       bindr (case r_joins rules tab of
                None \<Rightarrow> Inr None
              | Some rule \<Rightarrow> map_err (Halt tab) (bindr (routing_for_doc ext rule doc) (\<lambda>f. Inr (Some f)))) (\<lambda>filed.
       bindr (case (filed, r_routings rules tab) of
                (Some (_, routing), _) \<Rightarrow> Inr routing
              | (None, Some rule) \<Rightarrow> bindr (map_err (Halt tab) (routing_render ext rule raw)) (\<lambda>r. Inr (Some r))
              | (None, None) \<Rightarrow> Inr None) (\<lambda>routing.
         Inr \<lparr>pl_id = doc_id, pl_doc = doc, pl_filed = filed, pl_routing = routing\<rparr>)))"

definition place :: "externs \<Rightarrow> rules \<Rightarrow> table \<Rightarrow> string \<Rightarrow> json \<Rightarrow> (halt, placed list) result" where
  "place ext rules tab base raw =
     bindr (shape ext rules tab base raw) (mapr (place_one ext rules tab raw))"

definition key_routing ::
  "externs \<Rightarrow> rules \<Rightarrow> table \<Rightarrow> json option \<Rightarrow> json \<Rightarrow> (halt, string option) result" where
  "key_routing ext rules tab before pk =
     (case (r_joins rules tab, r_routings rules tab) of
        (Some rule, _) \<Rightarrow> map_err (Halt tab) (routing_for_key ext rule before pk)
      | (None, Some rule) \<Rightarrow>
          bindr (map_err (Halt tab) (routing_render_from_key ext rule before pk)) (\<lambda>r. Inr (Some r))
      | (None, None) \<Rightarrow> Inr None)"

subsection \<open>Operations\<close>

definition mk :: "document_op \<Rightarrow> lsn_op" where
  "mk op = \<lparr>op_lsn = Lsn 0, op_doc = op\<rparr>"

text \<open>The rules on one document, in their order: projection, transforms, renames, lifted
  children, constants and the join field.\<close>

definition finish_doc :: "externs \<Rightarrow> rules \<Rightarrow> table \<Rightarrow> string list \<Rightarrow> (json \<times> string option) option \<Rightarrow> json \<Rightarrow> json \<times> string list" where
  "finish_doc ext rules tab shaped filed doc =
     (let doc = projections_apply (r_projections rules) tab doc;
          (doc, left) = apply_except ext (r_transforms rules) tab doc shaped;
          doc = renames_apply (r_renames rules) tab doc;
          doc = flattens_apply (r_flattens rules) tab doc;
          doc = constants_apply (r_constants rules) tab doc;
          doc = (case (filed, r_joins rules tab, as_object doc) of
                   (Some (value, _), Some rule, Some m) \<Rightarrow> JObject (bt_insert (jr_field rule) value m)
                 | _ \<Rightarrow> doc)
      in (doc, left))"

definition finish_one ::
  "externs \<Rightarrow> rules \<Rightarrow> table \<Rightarrow> u64 option \<Rightarrow> string \<Rightarrow> string list \<Rightarrow> placed \<Rightarrow> lsn_op \<times> string list" where
  "finish_one ext rules tab version index shaped p =
     (let (doc, left) = finish_doc ext rules tab shaped (pl_filed p) (pl_doc p)
      in (mk (OpUpsert index (pl_id p) (pl_routing p) doc version (r_pipelines rules tab)), left))"

definition finish ::
  "externs \<Rightarrow> rules \<Rightarrow> table \<Rightarrow> u64 option \<Rightarrow> string \<Rightarrow> placed list \<Rightarrow> string list \<Rightarrow> lsn_op list \<times> string list" where
  "finish ext rules tab version index docs shaped =
     (let done = map (finish_one ext rules tab version index shaped) docs
      in (map fst done, concat (map snd done)))"

fun append_only_refusal :: "row_kind \<Rightarrow> string option" where
  "append_only_refusal (Insert _ _) = None"
| "append_only_refusal (Update _ _ _ _ _) = Some ''an UPDATE''"
| "append_only_refusal (Delete _ _) = Some ''a DELETE''"

fun completion_of :: "row_kind \<Rightarrow> rules \<Rightarrow> json option \<Rightarrow> table \<Rightarrow> (json \<times> string list) option" where
  "completion_of (Update _ _ doc toast _) rules previous tab =
     (if toast \<noteq> [] then Some (complete_toast doc toast previous rules tab) else None)"
| "completion_of _ rules previous tab = None"

definition materialize_insert ::
  "externs \<Rightarrow> index_target \<Rightarrow> table \<Rightarrow> rules \<Rightarrow> u64 option \<Rightarrow> json \<Rightarrow> json
   \<Rightarrow> (halt, lsn_op list \<times> string list) result" where
  "materialize_insert ext target tab rules version pk doc =
     bindr (derived_id ext tab pk (Some doc) None rules) (\<lambda>base.
     bindr (rendered_index ext target tab pk (Some doc) None) (\<lambda>index.
     bindr (place ext rules tab base doc) (\<lambda>docs.
       Inr (finish ext rules tab version index docs []))))"

text \<open>The deletes of an update: for a fanned row what its before-image produced and its new
  state does not, for any other row its old place when that differs from the new one.\<close>

definition fanned_deletes ::
  "externs \<Rightarrow> index_target \<Rightarrow> table \<Rightarrow> rules \<Rightarrow> u64 option \<Rightarrow> json \<Rightarrow> json option \<Rightarrow> string \<Rightarrow> placed list
   \<Rightarrow> (halt, lsn_op list) result" where
  "fanned_deletes ext target tab rules version old_pk before index new_docs =
     (case before of
        None \<Rightarrow> Inr []
      | Some b \<Rightarrow>
          (let held = set (map (\<lambda>p. (pl_id p, pl_routing p)) new_docs) in
           bindr (derived_id ext tab old_pk None (Some b) rules) (\<lambda>old_base.
           bindr (rendered_index ext target tab old_pk None (Some b)) (\<lambda>old_index.
           bindr (map_err OfBeforeImage (place ext rules tab old_base b)) (\<lambda>old_docs.
             Inr (map (\<lambda>p. mk (OpDelete old_index (pl_id p) (pl_routing p) version))
               (filter (\<lambda>p. old_index \<noteq> index \<or> (pl_id p, pl_routing p) \<notin> held) old_docs)))))))"

definition moved_deletes ::
  "externs \<Rightarrow> index_target \<Rightarrow> table \<Rightarrow> rules \<Rightarrow> u64 option \<Rightarrow> json option \<Rightarrow> json \<Rightarrow> json option \<Rightarrow> string \<Rightarrow> string
   \<Rightarrow> string option \<Rightarrow> (halt, lsn_op list) result" where
  "moved_deletes ext target tab rules version previous_pk old_pk before index base routing =
     bindr (key_routing ext rules tab before old_pk) (\<lambda>old_routing.
       let old_id = unwrap_or base (case r_id_templates rules tab of
             None \<Rightarrow> map_option (pk_to_id ext) previous_pk
           | Some t \<Rightarrow>
               if it_pk_only t then Option.bind previous_pk (\<lambda>p. ok (template_render_from_pk ext t p))
               else Option.bind before (\<lambda>b. ok (template_render ext t b)));
           old_index = unwrap_or index (case before of
             Some b \<Rightarrow> ok (target_render ext target b)
           | None \<Rightarrow> if target_is_pk_only target then ok (target_render_from_pk ext target old_pk) else None)
       in Inr (if (old_index, old_id, old_routing) \<noteq> (index, base, routing)
               then [mk (OpDelete old_index old_id old_routing version)] else []))"

definition materialize_update ::
  "externs \<Rightarrow> index_target \<Rightarrow> table \<Rightarrow> rules \<Rightarrow> u64 option \<Rightarrow> json \<Rightarrow> json option \<Rightarrow> json \<Rightarrow> string list \<Rightarrow> json option
   \<Rightarrow> (halt, lsn_op list \<times> string list) result" where
  "materialize_update ext target tab rules version pk previous_pk doc completed before =
     (let old_pk = unwrap_or pk previous_pk in
      bindr (derived_id ext tab pk (Some doc) before rules) (\<lambda>base.
      bindr (rendered_index ext target tab pk (Some doc) before) (\<lambda>index.
      bindr (place ext rules tab base doc) (\<lambda>new_docs.
        let routing = (case new_docs of [] \<Rightarrow> None | p # _ \<Rightarrow> pl_routing p);
            (ops, left) = finish ext rules tab version index new_docs completed
        in bindr (if r_fan_outs rules tab \<noteq> None
                  then fanned_deletes ext target tab rules version old_pk before index new_docs
                  else moved_deletes ext target tab rules version previous_pk old_pk before index base routing)
             (\<lambda>deletes. Inr (ops @ deletes, left))))))"

definition materialize_delete ::
  "externs \<Rightarrow> index_target \<Rightarrow> table \<Rightarrow> rules \<Rightarrow> u64 option \<Rightarrow> json \<Rightarrow> json option
   \<Rightarrow> (halt, lsn_op list \<times> string list) result" where
  "materialize_delete ext target tab rules version pk before =
     bindr (derived_id ext tab pk None before rules) (\<lambda>base.
     bindr (rendered_index ext target tab pk None before) (\<lambda>index.
       case r_fan_outs rules tab of
         None \<Rightarrow>
           bindr (key_routing ext rules tab before pk) (\<lambda>routing.
             Inr (mk (OpDelete index base routing version) #
               (case r_joins rules tab of
                  Some rule \<Rightarrow>
                    if jr_parent rule = None
                    then [mk (OpDeleteChildren index (jr_field rule) (jr_name rule) base version)] else []
                | None \<Rightarrow> []), []))
       | Some _ \<Rightarrow>
           bindr (ok_or (FannedDeleteNeedsRow tab) before) (\<lambda>row.
           bindr (place ext rules tab base row) (\<lambda>docs.
             Inr (map (\<lambda>p. mk (OpDelete index (pl_id p) (pl_routing p) version)) docs, [])))))"

definition materialize ::
  "externs \<Rightarrow> index_target \<Rightarrow> table \<Rightarrow> row_kind \<Rightarrow> rules \<Rightarrow> json option \<Rightarrow> u64 option
   \<Rightarrow> (halt, lsn_op list \<times> string list) result" where
  "materialize ext target tab kind rules previous version =
     (case (if tab \<in> r_append_only rules then append_only_refusal kind else None) of
        Some what \<Rightarrow> Inl (AppendOnlyChange tab what)
      | None \<Rightarrow>
          (let completion = completion_of kind rules previous tab
           in case filter_out kind (map_option fst completion) (r_filters rules tab) of
                Insert pk doc \<Rightarrow> materialize_insert ext target tab rules version pk doc
              | Update pk previous_pk doc _ before \<Rightarrow>
                  (case completion of
                     Some (d, completed) \<Rightarrow>
                       materialize_update ext target tab rules version pk previous_pk d completed before
                   | None \<Rightarrow> materialize_update ext target tab rules version pk previous_pk doc [] before)
              | Delete pk before \<Rightarrow> materialize_delete ext target tab rules version pk before))"

end
