(* ===== verification/Engine_Loop.thy ===== *)
theory Engine_Loop
  imports Materialize
begin

section \<open>The engine loop (\<open>run\<close> of \<open>crates/engine/src/lib.rs\<close>)\<close>

text \<open>
  One turn of the loop is a function on the loop's state: it takes the next event, the rules and
  settings in force for the turn and what the outside world answers during it (whether the
  load's intake is held back by its rate limit at each attempt to read it, whether the
  coalescing window has passed, what the target's documents are), and gives the next state or
  the error the loop ends with. The two channels are the lists of what has arrived on them; the
  commands handed to the sink task are collected in order. A run interleaves turns with
  arrivals, so a theorem about runs covers every schedule, every reload and every rate limit.
  Tracing, counters and log lines leave no mark on the state and are not modelled.
\<close>

datatype sink_command =
    Write "lsn_op list"
  | Truncate string "u64 option" "(string \<times> string) option"
  | Mark u64
  | Position lsn

record rule_set =
  rs_mapping :: table_mapping
  rs_rules :: rules

record engine_settings =
  es_batch_size :: nat
  es_batch_max_bytes :: nat

record engine =
  en_events :: "change_event list"
  en_copy :: "change_event list"
  en_load_running :: bool
  en_buffer :: "lsn_op list"
  en_bytes :: nat
  en_deferred :: "change_event option"
  en_coalescing :: bool
  en_txn_open :: bool
  en_pending :: "u64 option"
  en_superseded :: "(string \<times> string) \<rightharpoonup> u64"
  en_cleared :: "(string \<times> u64) list"
  en_sent :: "sink_command list"

definition engine_start :: engine where
  "engine_start = \<lparr>en_events = [], en_copy = [], en_load_running = True, en_buffer = [], en_bytes = 0,
     en_deferred = None, en_coalescing = False, en_txn_open = False, en_pending = None,
     en_superseded = Map.empty, en_cleared = [], en_sent = []\<rparr>"

record outside =
  ou_held :: "nat \<Rightarrow> bool"
  ou_overdue :: bool
  ou_documents :: "string \<Rightarrow> (string \<times> string option) list \<Rightarrow> (core_error, json option list) result"

datatype engine_error = EngineHalt halt | EngineSink core_error

subsection \<open>Intake\<close>

definition took :: "change_event \<Rightarrow> engine \<Rightarrow> engine" where
  "took ev st = (case ev of
       LoadStarted \<Rightarrow> st\<lparr>en_load_running := True\<rparr>
     | LoadFinished \<Rightarrow> st\<lparr>en_load_running := False\<rparr>
     | _ \<Rightarrow> st)"

definition intake_try_recv :: "bool \<Rightarrow> engine \<Rightarrow> change_event option \<times> engine" where
  "intake_try_recv held st =
     (if held then (None, st)
      else case en_copy st of
        [] \<Rightarrow> (None, st)
      | ev # rest \<Rightarrow> (Some ev, took ev (st\<lparr>en_copy := rest\<rparr>)))"

definition try_next :: "bool \<Rightarrow> engine \<Rightarrow> change_event option \<times> engine" where
  "try_next held st =
     (case en_events st of
        ev # rest \<Rightarrow> (Some ev, st\<lparr>en_events := rest\<rparr>)
      | [] \<Rightarrow> intake_try_recv held st)"

text \<open>The event of a turn: the deferred one, then what is waiting, then what the blocking select
  yields, which sleeps the intake's debt off.\<close>

definition next_event :: "engine \<Rightarrow> change_event option \<times> engine" where
  "next_event st =
     (case en_deferred st of
        Some ev \<Rightarrow> (Some ev, st\<lparr>en_deferred := None\<rparr>)
      | None \<Rightarrow> try_next False st)"

fun gather :: "(nat \<Rightarrow> bool) \<Rightarrow> nat \<Rightarrow> row_change list \<Rightarrow> engine \<Rightarrow> row_change list \<times> engine" where
  "gather held 0 rows st = (rows, st)"
| "gather held (Suc k) rows st =
     (case try_next (held k) st of
        (Some (Row r), st') \<Rightarrow> gather held k (rows @ [r]) st'
      | (Some other, st') \<Rightarrow> (rows, st'\<lparr>en_deferred := Some other\<rparr>)
      | (None, st') \<Rightarrow> (rows, st'))"

subsection \<open>Handing over\<close>

definition send :: "sink_command \<Rightarrow> engine \<Rightarrow> engine" where
  "send cmd st = st\<lparr>en_sent := en_sent st @ [cmd]\<rparr>"

definition flush :: "engine \<Rightarrow> engine" where
  "flush st = (send (Write (en_buffer st)) st)\<lparr>en_buffer := [], en_bytes := 0\<rparr>"

definition stamp_last :: "lsn \<Rightarrow> lsn_op list \<Rightarrow> lsn_op list" where
  "stamp_last l ops = (case rev ops of [] \<Rightarrow> [] | op # rest \<Rightarrow> rev rest @ [op\<lparr>op_lsn := l\<rparr>])"

definition release_mark :: "engine \<Rightarrow> engine" where
  "release_mark st =
     (if en_buffer st = [] \<and> \<not> en_txn_open st then
        (case en_pending st of
           Some mark \<Rightarrow> send (Mark mark) (st\<lparr>en_pending := None\<rparr>)
         | None \<Rightarrow> st)
      else st)"

definition handle_commit :: "outside \<Rightarrow> lsn \<Rightarrow> engine \<Rightarrow> engine" where
  "handle_commit out l st =
     (let backfill_boundary = (l = Lsn 0);
          st = (if backfill_boundary then st else st\<lparr>en_txn_open := False\<rparr>);
          st = (if en_buffer st \<noteq> [] then
                  (let st = (if backfill_boundary then st else st\<lparr>en_buffer := stamp_last l (en_buffer st)\<rparr>);
                       (nxt, st) = try_next (ou_held out 0) st;
                       st = (case nxt of Some ev \<Rightarrow> st\<lparr>en_deferred := Some ev\<rparr> | None \<Rightarrow> st);
                       waiting = (nxt \<noteq> None);
                       overdue = (en_coalescing st \<and> ou_overdue out)
                   in if waiting \<and> \<not> overdue then st\<lparr>en_coalescing := True\<rparr>
                      else flush (st\<lparr>en_coalescing := False\<rparr>))
                else if \<not> backfill_boundary then send (Position l) st
                else st)
      in release_mark st)"

definition handle_mark :: "u64 \<Rightarrow> engine \<Rightarrow> engine" where
  "handle_mark mark st =
     (let st = st\<lparr>en_superseded := Map.empty, en_cleared := []\<rparr>
      in if en_txn_open st then st\<lparr>en_pending := Some mark\<rparr>
         else send (Mark mark) (if en_buffer st \<noteq> [] then flush (st\<lparr>en_coalescing := False\<rparr>) else st))"

subsection \<open>Rows\<close>

fun superseded_by :: "((string \<times> string) \<rightharpoonup> u64) \<Rightarrow> (string \<times> u64) list \<Rightarrow> document_op \<Rightarrow> bool" where
  "superseded_by superseded cleared (OpUpsert index doc_id _ _ (Some version) _) \<longleftrightarrow>
     is_some_and (\<lambda>removed. removed > version) (superseded (index, doc_id)) \<or>
     list_ex (\<lambda>(pattern, floor). floor > version \<and> index_matches_pattern pattern index) cleared"
| "superseded_by superseded cleared _ \<longleftrightarrow> False"

fun remember :: "document_op \<Rightarrow> ((string \<times> string) \<rightharpoonup> u64) \<Rightarrow> ((string \<times> string) \<rightharpoonup> u64)" where
  "remember (OpDelete index doc_id _ (Some version)) superseded =
     superseded((index, doc_id) \<mapsto> max (unwrap_or version (superseded (index, doc_id))) version)"
| "remember _ superseded = superseded"

definition completions_for ::
  "externs \<Rightarrow> rule_set \<Rightarrow> ((string \<times> string) \<rightharpoonup> json option) \<Rightarrow> row_change \<Rightarrow> json option" where
  "completions_for ext active completions row =
     Option.bind (Option.bind (completion_key ext (rc_kind row) (rs_rules active) (rs_mapping active) (rc_schema row, rc_table row))
       (\<lambda>(key, _). completions key)) (\<lambda>x. x)"

text \<open>The operations of one row that survive the window.\<close>

definition row_ops ::
  "externs \<Rightarrow> rule_set \<Rightarrow> ((string \<times> string) \<rightharpoonup> json option) \<Rightarrow> row_change \<Rightarrow> engine
   \<Rightarrow> (engine_error, lsn_op list) result" where
  "row_ops ext active completions row st =
     (case target_for (rs_mapping active) (rc_schema row, rc_table row) of
        None \<Rightarrow> Inr []
      | Some target \<Rightarrow>
          bindr (map_err EngineHalt (materialize ext target (rc_schema row, rc_table row) (rc_kind row) (rs_rules active)
                   (completions_for ext active completions row) (rc_version row))) (\<lambda>(ops, left).
            Inr (filter (\<lambda>op. \<not> superseded_by (en_superseded st) (en_cleared st) (op_doc op)) ops)))"

definition take_ops :: "engine_settings \<Rightarrow> lsn_op list \<Rightarrow> engine \<Rightarrow> engine" where
  "take_ops cfg ops st =
     (let st = (if en_load_running st
                then st\<lparr>en_superseded := fold (\<lambda>op. remember (op_doc op)) ops (en_superseded st)\<rparr> else st);
          st = st\<lparr>en_bytes := en_bytes st + sum_list (map op_size ops), en_buffer := en_buffer st @ ops\<rparr>
      in if length (en_buffer st) \<ge> es_batch_size cfg \<or> en_bytes st \<ge> es_batch_max_bytes cfg then flush st else st)"

definition process_row ::
  "externs \<Rightarrow> rule_set \<Rightarrow> engine_settings \<Rightarrow> ((string \<times> string) \<rightharpoonup> json option) \<Rightarrow> row_change \<Rightarrow> engine
   \<Rightarrow> (engine_error, engine) result" where
  "process_row ext active cfg completions row st =
     (if target_for (rs_mapping active) (rc_schema row, rc_table row) = None then Inr st
      else bindr (row_ops ext active completions row st) (\<lambda>ops. Inr (take_ops cfg ops st)))"

fun process_rows ::
  "externs \<Rightarrow> rule_set \<Rightarrow> engine_settings \<Rightarrow> ((string \<times> string) \<rightharpoonup> json option) \<Rightarrow> row_change list \<Rightarrow> engine
   \<Rightarrow> (engine_error \<times> engine, engine) result" where
  "process_rows ext active cfg completions [] st = Inr st"
| "process_rows ext active cfg completions (row # rows) st =
     (case process_row ext active cfg completions row st of
        Inl e \<Rightarrow> Inl (e, st)
      | Inr st' \<Rightarrow> process_rows ext active cfg completions rows st')"

definition handle_rows ::
  "externs \<Rightarrow> rule_set \<Rightarrow> engine_settings \<Rightarrow> outside \<Rightarrow> row_change \<Rightarrow> engine \<Rightarrow> (engine_error \<times> engine, engine) result" where
  "handle_rows ext active cfg out row st =
     (let (rows, st) = gather (ou_held out) (es_batch_size cfg - 1) [row] st
      in case fetch_completions ext rows (rs_mapping active) (ou_documents out) (rs_rules active) of
           Inl e \<Rightarrow> Inl (EngineSink e, st)
         | Inr completions \<Rightarrow> process_rows ext active cfg completions rows st)"

subsection \<open>Truncates\<close>

text \<open>\<open>cleared.entry(index).or_insert(version)\<close>, raised to the later of the two.\<close>

fun raise_floor :: "string \<Rightarrow> u64 \<Rightarrow> (string \<times> u64) list \<Rightarrow> (string \<times> u64) list" where
  "raise_floor index version [] = [(index, version)]"
| "raise_floor index version ((i, v) # cleared) =
     (if i = index then (i, max v version) # cleared else (i, v) # raise_floor index version cleared)"

definition handle_truncate :: "rule_set \<Rightarrow> string \<Rightarrow> string \<Rightarrow> u64 option \<Rightarrow> engine \<Rightarrow> engine" where
  "handle_truncate active schema tab version st =
     (case target_for (rs_mapping active) (schema, tab) of
        None \<Rightarrow> st
      | Some target \<Rightarrow>
          (let index = target_pattern target;
               only = map_option (\<lambda>rule. (jr_field rule, jr_name rule)) (r_joins (rs_rules active) (schema, tab))
           in if only = None \<and> is_shared (rs_mapping active) index then st
              else
                (let st = (if en_buffer st \<noteq> [] then flush st else st\<lparr>en_bytes := 0\<rparr>);
                     st = (case version of
                             Some v \<Rightarrow> if en_load_running st \<and> only = None
                                       then st\<lparr>en_cleared := raise_floor index v (en_cleared st)\<rparr> else st
                           | None \<Rightarrow> st)
                 in send (Truncate index version only) st)))"

subsection \<open>One turn\<close>

definition handle ::
  "externs \<Rightarrow> rule_set \<Rightarrow> engine_settings \<Rightarrow> outside \<Rightarrow> change_event \<Rightarrow> engine \<Rightarrow> (engine_error \<times> engine, engine) result" where
  "handle ext active cfg out ev st = (case ev of
       Transaction (Begin _) \<Rightarrow> Inr (st\<lparr>en_txn_open := True\<rparr>)
     | Transaction (Commit l _) \<Rightarrow> Inr (handle_commit out l st)
     | LoadMark mark \<Rightarrow> Inr (handle_mark mark st)
     | Row row \<Rightarrow> handle_rows ext active cfg out row st
     | LoadStarted \<Rightarrow> Inr st
     | LoadFinished \<Rightarrow> Inr (st\<lparr>en_superseded := Map.empty, en_cleared := []\<rparr>)
     | SchemaDrift _ _ _ \<Rightarrow> Inr st
     | TableTruncated schema tab version \<Rightarrow> Inr (handle_truncate active schema tab version st))"

definition turn ::
  "externs \<Rightarrow> rule_set \<Rightarrow> engine_settings \<Rightarrow> outside \<Rightarrow> engine \<Rightarrow> (engine_error \<times> engine, engine) result option" where
  "turn ext active cfg out st =
     (case next_event st of
        (None, _) \<Rightarrow> None
      | (Some ev, st') \<Rightarrow> Some (handle ext active cfg out ev st'))"

text \<open>The runs: events arrive on either channel, the load's channel closes, turns happen.\<close>

definition copy_closed :: "engine \<Rightarrow> engine" where
  "copy_closed st = st\<lparr>en_superseded := Map.empty, en_cleared := []\<rparr>"

end
