(* ===== verification/Sink_Loop.thy ===== *)
theory Sink_Loop
  imports Engine_Loop
begin

section \<open>The sink task and the checkpoint task (\<open>sink_loop\<close>, \<open>Acks\<close> of \<open>crates/engine/src/lib.rs\<close>)\<close>

text \<open>
  The task that takes the engine's commands: writes are opened up to a limit and accounted for in
  the order they were sent, every other command waits for the open writes first. An open write
  carries the answer it will get; when it is read is up to the schedule, so the runs cover every
  interleaving. What a sink answers is a parameter of the runs. \<open>tk_done\<close> lists the commands
  accounted for, in order. The checkpoint task persists the last acknowledged position and only
  then lets the source see it. Counters and log lines are not modelled.
\<close>

datatype rejection_policy = HaltPolicy | QuarantinePolicy

record sink_config =
  sc_policy :: rejection_policy
  sc_max_rejects :: u64
  sc_concurrency :: nat

record acks =
  ak_ack :: "lsn option"
  ak_ckpt :: "lsn option"
  ak_quarantined :: u64
  ak_filed :: "rejection list"

text \<open>A refused document is filed before the position that covers it is acknowledged; \<open>Inl\<close> is the
  pipeline halting.\<close>

definition file_rejects ::
  "sink_config \<Rightarrow> core_error option \<Rightarrow> rejection list \<Rightarrow> acks \<Rightarrow> (acks, acks) result" where
  "file_rejects cfg quarantine_error refused ak =
     (if refused = [] then Inr ak
      else if sc_policy cfg = HaltPolicy then Inl ak
      else if ak_quarantined ak \<ge> sc_max_rejects cfg then Inl ak
      else if quarantine_error \<noteq> None then Inl ak
      else
        (let ak = ak\<lparr>ak_filed := ak_filed ak @ refused, ak_quarantined := ak_quarantined ak + of_nat (length refused)\<rparr>
         in if ak_quarantined ak \<ge> sc_max_rejects cfg then Inl ak else Inr ak))"

definition acks_apply ::
  "sink_config \<Rightarrow> core_error option \<Rightarrow> (core_error, sink_ack option) result \<Rightarrow> acks \<Rightarrow> bool \<times> acks" where
  "acks_apply cfg quarantine_error r ak =
     (case r of
        Inr (Some ack) \<Rightarrow>
          (case file_rejects cfg quarantine_error (rejected ack) ak of
             Inl ak \<Rightarrow> (False, ak)
           | Inr ak \<Rightarrow>
               (True, if max_lsn ack > Lsn 0 then ak\<lparr>ak_ack := Some (max_lsn ack), ak_ckpt := Some (max_lsn ack)\<rparr> else ak))
      | Inr None \<Rightarrow> (True, ak)
      | Inl _ \<Rightarrow> (False, ak))"

subsection \<open>Open writes\<close>

datatype joined = Joined "(core_error, sink_ack option) result" | JoinError

record open_write =
  ow_batch :: "lsn_op list"
  ow_joined :: joined
  ow_quarantine :: "core_error option"

definition finish_write :: "sink_config \<Rightarrow> open_write \<Rightarrow> acks \<Rightarrow> bool \<times> acks" where
  "finish_write cfg w ak =
     (case ow_joined w of Joined r \<Rightarrow> acks_apply cfg (ow_quarantine w) r ak | JoinError \<Rightarrow> (False, ak))"

record sink_task =
  tk_commands :: "sink_command list"
  tk_inflight :: "open_write list"
  tk_acks :: acks
  tk_load_done :: u64
  tk_halted :: bool
  tk_done :: "sink_command list"
  tk_last_persisted :: "lsn option"
  tk_stored :: "checkpoint option"
  tk_durable :: u64

text \<open>The task starts with what the quarantine already holds; under the halting policy it does not
  ask.\<close>

definition sink_start :: "sink_config \<Rightarrow> (core_error, u64) result \<Rightarrow> sink_task" where
  "sink_start cfg listed =
     (let tk = (\<lambda>q halted. \<lparr>tk_commands = [], tk_inflight = [],
            tk_acks = \<lparr>ak_ack = None, ak_ckpt = None, ak_quarantined = q, ak_filed = []\<rparr>, tk_load_done = 0, tk_halted = halted,
            tk_done = [], tk_last_persisted = None, tk_stored = None, tk_durable = 0\<rparr>)
      in case sc_policy cfg of
           HaltPolicy \<Rightarrow> tk 0 False
         | QuarantinePolicy \<Rightarrow> (case listed of Inr q \<Rightarrow> tk q False | Inl _ \<Rightarrow> tk 0 True))"

definition halt_task :: "sink_task \<Rightarrow> sink_task" where
  "halt_task tk = tk\<lparr>tk_halted := True, tk_inflight := []\<rparr>"

definition take_one :: "sink_config \<Rightarrow> sink_task \<Rightarrow> bool \<times> sink_task" where
  "take_one cfg tk =
     (case tk_inflight tk of
        [] \<Rightarrow> (True, tk)
      | w # ws \<Rightarrow>
          (case finish_write cfg w (tk_acks tk) of
             (True, ak) \<Rightarrow> (True, tk\<lparr>tk_inflight := ws, tk_acks := ak, tk_done := tk_done tk @ [Write (ow_batch w)]\<rparr>)
           | (False, ak) \<Rightarrow> (False, tk\<lparr>tk_inflight := ws, tk_acks := ak\<rparr>)))"

primrec drain_open :: "sink_config \<Rightarrow> nat \<Rightarrow> sink_task \<Rightarrow> bool \<times> sink_task" where
  "drain_open cfg 0 tk = (True, tk)"
| "drain_open cfg (Suc n) tk =
     (case take_one cfg tk of (True, tk) \<Rightarrow> drain_open cfg n tk | (False, tk) \<Rightarrow> (False, tk))"

definition drain_task :: "sink_config \<Rightarrow> sink_task \<Rightarrow> bool \<times> sink_task" where
  "drain_task cfg tk = drain_open cfg (length (tk_inflight tk)) tk"

subsection \<open>One command\<close>

record command_answer =
  ca_joined :: joined
  ca_quarantine :: "core_error option"
  ca_truncate :: "(core_error, unit) result"

definition settle :: "sink_config \<Rightarrow> sink_command \<Rightarrow> (core_error, sink_ack option) result \<Rightarrow> sink_task \<Rightarrow> sink_task" where
  "settle cfg c r tk =
     (case acks_apply cfg None r (tk_acks tk) of
        (True, ak) \<Rightarrow> tk\<lparr>tk_acks := ak, tk_done := tk_done tk @ [c]\<rparr>
      | (False, ak) \<Rightarrow> halt_task (tk\<lparr>tk_acks := ak\<rparr>))"

definition handle_command :: "sink_config \<Rightarrow> command_answer \<Rightarrow> sink_command \<Rightarrow> sink_task \<Rightarrow> sink_task" where
  "handle_command cfg ans c tk = (case c of
       Write batch \<Rightarrow>
         tk\<lparr>tk_inflight := tk_inflight tk @ [\<lparr>ow_batch = batch, ow_joined = ca_joined ans, ow_quarantine = ca_quarantine ans\<rparr>]\<rparr>
     | _ \<Rightarrow>
         (case drain_task cfg tk of
            (False, tk) \<Rightarrow> halt_task tk
          | (True, tk) \<Rightarrow>
              (case c of
                 Position l \<Rightarrow> settle cfg c (Inr (Some (sink_ack_written l))) tk
               | Mark mark \<Rightarrow> settle cfg c (Inr None) (tk\<lparr>tk_load_done := mark\<rparr>)
               | _ \<Rightarrow> settle cfg c (bindr (ca_truncate ans) (\<lambda>_. Inr None)) tk)))"

definition finish_oldest :: "sink_config \<Rightarrow> sink_task \<Rightarrow> sink_task" where
  "finish_oldest cfg tk = (case take_one cfg tk of (True, tk) \<Rightarrow> tk | (False, tk) \<Rightarrow> halt_task tk)"

subsection \<open>The checkpoint task\<close>

definition checkpoint_turn ::
  "stream_id \<Rightarrow> (u64 \<Rightarrow> string) \<Rightarrow> (core_error, unit) result \<Rightarrow> sink_task \<Rightarrow> sink_task" where
  "checkpoint_turn sid show_position persisted tk =
     (case ak_ckpt (tk_acks tk) of
        None \<Rightarrow> tk
      | Some l \<Rightarrow>
          if tk_last_persisted tk = Some l then tk
          else
            (case persisted of
               Inr _ \<Rightarrow> tk\<lparr>tk_stored := Some \<lparr>ckpt_stream = sid, ckpt_token = lsn_val l, ckpt_position = show_position (lsn_val l)\<rparr>,
                          tk_durable := lsn_val l, tk_last_persisted := Some l\<rparr>
             | Inl _ \<Rightarrow> tk))"

subsection \<open>Runs\<close>

text \<open>\<open>put w batch\<close> is what a sink in the circumstances \<open>w\<close> answers to a batch. The commands sent so
  far are a parameter of the state of a run.\<close>

definition answers :: "('w \<Rightarrow> lsn_op list \<Rightarrow> (core_error, sink_ack) result) \<Rightarrow> lsn_op list \<Rightarrow> joined \<Rightarrow> bool" where
  "answers put batch j \<longleftrightarrow> j = JoinError \<or> (\<exists>w. j = Joined (bindr (put w batch) (\<lambda>ack. Inr (Some ack))))"

inductive sink_run ::
  "('w \<Rightarrow> lsn_op list \<Rightarrow> (core_error, sink_ack) result) \<Rightarrow> sink_config \<Rightarrow> sink_command list \<Rightarrow> sink_task \<Rightarrow> bool"
  for put cfg where
  start: "sink_run put cfg [] (sink_start cfg listed)"
| sent: "sink_run put cfg cs tk \<Longrightarrow> sink_run put cfg (cs @ [c]) (tk\<lparr>tk_commands := tk_commands tk @ [c]\<rparr>)"
| finished: "sink_run put cfg cs tk \<Longrightarrow> \<not> tk_halted tk \<Longrightarrow> tk_inflight tk \<noteq> [] \<Longrightarrow> sink_run put cfg cs (finish_oldest cfg tk)"
| received: "sink_run put cfg cs tk \<Longrightarrow> \<not> tk_halted tk \<Longrightarrow> length (tk_inflight tk) < max 1 (sc_concurrency cfg) \<Longrightarrow>
    tk_commands tk = c # rest \<Longrightarrow> (\<And>batch. c = Write batch \<Longrightarrow> answers put batch (ca_joined ans)) \<Longrightarrow>
    sink_run put cfg cs (handle_command cfg ans c (tk\<lparr>tk_commands := rest\<rparr>))"
| checkpoint: "sink_run put cfg cs tk \<Longrightarrow> sink_run put cfg cs (checkpoint_turn sid show_position persisted tk)"

inductive_cases sink_runE: "sink_run put cfg cs tk"

end
