(* ===== verification/Materialize_Facts.thy ===== *)
theory Materialize_Facts
  imports Materialize
begin

section \<open>What a row change becomes: the properties of \<open>materialize\<close>\<close>

text \<open>
  The interface \<open>named_rows\<close> states what the render ladder relies on: a template over key
  columns renders the same name from a key as from a row the key agrees with. It is
  interpreted for the id template and for the index target. The rest of the theory follows
  the operations of one change: their order, their stamps, the addresses they write and
  clear, and, against an abstract target that maps addresses to documents, that a change
  moves a row's documents from where its old state put them to where its new state does.
\<close>

text \<open>A section with no rules, for concrete examples.\<close>

definition no_rules :: rules where
  "no_rules = \<lparr>r_projections = Map.empty, r_transforms = \<lparr>tr_map = Map.empty, tr_keys = Map.empty\<rparr>,
     r_renames = Map.empty, r_flattens = Map.empty, r_constants = Map.empty, r_id_templates = Map.empty,
     r_fan_outs = Map.empty, r_joins = Map.empty, r_filters = Map.empty, r_pipelines = Map.empty,
     r_routings = Map.empty, r_append_only = {}\<rparr>"

subsection \<open>The render ladder\<close>

locale named_rows =
  fixes template :: row_template
    and columns :: "string list"
  assumes from_pk: "rt_is_pk_only template \<Longrightarrow> key_agrees pk m columns \<Longrightarrow>
    rt_render_from_pk template pk = rt_render template (JObject m)"
begin

lemma ladder_agrees:
  assumes "rt_is_pk_only template" "key_agrees pk m columns"
  shows "render_for_row what tab template pk None None = render_for_row what tab template pk (Some (JObject m)) before"
    and "render_for_row what tab template pk None (Some (JObject m)) = render_for_row what tab template pk (Some (JObject m)) before"
  using assms from_pk by (simp_all add: render_for_row_def)

end

interpretation id_names: named_rows "id_row_template ext t" "template_columns t" for ext t
  by unfold_locales (simp add: id_row_template_def template_from_pk_agrees)

fun target_columns :: "index_target \<Rightarrow> string list" where
  "target_columns (Static _) = []"
| "target_columns (Template _ t) = template_columns t"

interpretation index_names: named_rows "index_row_template ext target" "target_columns target" for ext target
  by unfold_locales (auto simp: index_row_template_def intro!: target_from_pk_agrees)

lemma render_for_row_doc [simp]:
  "render_for_row what tab template pk (Some d) b = map_err (Halt tab) (rt_render template d)"
  "render_for_row what tab template pk None (Some d) = map_err (Halt tab) (rt_render template d)"
  by (simp_all add: render_for_row_def)

lemma rendered_index_doc [simp]:
  "rendered_index ext target tab pk (Some d) b = map_err (Halt tab) (target_render ext target d)"
  "rendered_index ext target tab pk None (Some d) = map_err (Halt tab) (target_render ext target d)"
  by (simp_all add: rendered_index_def index_row_template_def)

lemma derived_id_doc:
  "derived_id ext tab pk (Some d) b rules = derived_id ext tab pk None (Some d) rules"
  by (simp add: derived_id_def split: option.splits)

text \<open>A key-only event names the document the row was written to: when the id and the index
  are built from key columns, the id and the index of a delete that carries only the key are
  those of the row, so the delete reaches the row's document.\<close>

theorem key_event_finds_document:
  assumes "r_id_templates rules tab = Some t" "it_pk_only t" "key_agrees pk m (template_columns t)"
    and "target_is_pk_only target" "key_agrees pk m (target_columns target) \<or> target = Static name"
  shows "derived_id ext tab pk None None rules = derived_id ext tab pk (Some (JObject m)) before rules \<and>
    rendered_index ext target tab pk None None = rendered_index ext target tab pk (Some (JObject m)) before"
proof
  show "derived_id ext tab pk None None rules = derived_id ext tab pk (Some (JObject m)) before rules"
    using id_names.ladder_agrees(1) [of ext t pk m "''id''" tab before] assms(1-3)
    by (simp add: derived_id_def id_row_template_def)
  show "rendered_index ext target tab pk None None = rendered_index ext target tab pk (Some (JObject m)) before"
    using assms(4,5) index_names.ladder_agrees(1) [of ext target pk m "''index''" tab before]
    by (auto simp: rendered_index_def index_row_template_def render_for_row_def)
qed

theorem key_event_finds_document_witness:
  "\<exists>rules t. r_id_templates rules (''public'', ''u'') = Some t \<and>
     derived_id sample_externs (''public'', ''u'') (JNumber (NInt 7)) None None rules = Inr ''user-7''"
proof -
  define t where "t = \<lparr>it_parts = [PLiteral ''user-'', PColumn ''id''], it_pk_only = True\<rparr>"
  define rules where "rules = no_rules\<lparr>r_id_templates := [(''public'', ''u'') \<mapsto> t]\<rparr>"
  have row: "derived_id sample_externs (''public'', ''u'') (JNumber (NInt 7)) (Some (JObject [(''id'', JNumber (NInt 7))])) None rules = Inr ''user-7''"
    unfolding rules_def no_rules_def t_def by code_simp
  have "key_agrees (JNumber (NInt 7)) [(''id'', JNumber (NInt 7))] (template_columns t)"
    by (simp add: key_agrees_def t_def template_columns_def bt_get_def)
  with key_event_finds_document [of rules "(''public'', ''u'')" t "JNumber (NInt 7)" "[(''id'', JNumber (NInt 7))]" "Static ''users''" "''users''" sample_externs None]
  have "derived_id sample_externs (''public'', ''u'') (JNumber (NInt 7)) None None rules = Inr ''user-7''"
    using row by (simp add: rules_def t_def)
  moreover have "r_id_templates rules (''public'', ''u'') = Some t" by (simp add: rules_def)
  ultimately show ?thesis by blast
qed

subsection \<open>The operations of one change\<close>

lemma finish_ops:
  "fst (finish ext rules tab version index docs shaped) =
     map (\<lambda>p. mk (OpUpsert index (pl_id p) (pl_routing p) (fst (finish_doc ext rules tab shaped (pl_filed p) (pl_doc p)))
       version (r_pipelines rules tab))) docs"
  by (simp add: finish_def finish_one_def Let_def split_beta)

fun op_address :: "document_op \<Rightarrow> (string \<times> string \<times> string option) option" where
  "op_address (OpUpsert index doc_id routing _ _ _) = Some (index, doc_id, routing)"
| "op_address (OpDelete index doc_id routing _) = Some (index, doc_id, routing)"
| "op_address (OpDeleteChildren _ _ _ _ _) = None"

fun op_pipeline :: "document_op \<Rightarrow> string option" where
  "op_pipeline (OpUpsert _ _ _ _ _ p) = p"
| "op_pipeline _ = None"

definition addresses :: "string \<Rightarrow> placed list \<Rightarrow> (string \<times> string \<times> string option) list" where
  "addresses index ps = map (\<lambda>p. (index, pl_id p, pl_routing p)) ps"

text \<open>The two halves of a change: what it writes and what it clears.\<close>

definition well_formed_ops :: "rules \<Rightarrow> table \<Rightarrow> u64 option \<Rightarrow> lsn_op list \<Rightarrow> bool" where
  "well_formed_ops rules tab version ops \<longleftrightarrow>
     (\<exists>ups dels. ops = ups @ dels \<and>
        (\<forall>op \<in> set ups. is_upsert (op_doc op) \<and> op_pipeline (op_doc op) = r_pipelines rules tab) \<and>
        (\<forall>op \<in> set dels. \<not> is_upsert (op_doc op)) \<and>
        (\<forall>op \<in> set ops. op_lsn op = Lsn 0 \<and> op_version (op_doc op) = version) \<and>
        (\<forall>u \<in> set ups. \<forall>d \<in> set dels. op_address (op_doc u) \<noteq> op_address (op_doc d)))"

lemma mk_simps [simp]: "op_lsn (mk d) = Lsn 0" "op_doc (mk d) = d"
  by (simp_all add: mk_def)

lemma insert_ops:
  "materialize_insert ext target tab rules version pk doc = Inr (ops, left) \<Longrightarrow> well_formed_ops rules tab version ops"
  unfolding well_formed_ops_def
  by (rule exI [of _ ops], rule exI [of _ "[]"])
     (auto simp: materialize_insert_def bindr_Inr_iff finish_ops dest!: arg_cong [of _ _ fst])

lemma delete_ops:
  assumes "materialize_delete ext target tab rules version pk before = Inr (ops, left)"
  shows "\<forall>op \<in> set ops. \<not> is_upsert (op_doc op) \<and> op_lsn op = Lsn 0 \<and> op_version (op_doc op) = version"
  using assms
  by (auto simp: materialize_delete_def bindr_Inr_iff split: option.splits if_splits)

lemma place_not_fanned:
  assumes "r_fan_outs rules tab = None" "place ext rules tab base doc = Inr ps"
  shows "\<exists>p. ps = [p] \<and> pl_id p = base \<and> pl_doc p = doc"
  using assms
  by (auto simp: place_def shape_def bindr_Inr_iff place_one_def)

lemma fanned_delete_ops:
  assumes "fanned_deletes ext target tab rules version old_pk before index new_docs = Inr dels" "d \<in> set dels"
  shows "\<exists>ix i r. op_doc d = OpDelete ix i r version \<and> op_lsn d = Lsn 0 \<and>
    \<not> (ix = index \<and> (i, r) \<in> set (map (\<lambda>p. (pl_id p, pl_routing p)) new_docs))"
  using assms
  by (auto simp: fanned_deletes_def Let_def bindr_Inr_iff split: option.splits)

lemma moved_delete_ops:
  assumes "moved_deletes ext target tab rules version previous_pk old_pk before index base routing = Inr dels" "d \<in> set dels"
  shows "\<exists>ix i r. op_doc d = OpDelete ix i r version \<and> op_lsn d = Lsn 0 \<and> (ix, i, r) \<noteq> (index, base, routing)"
proof -
  from assms(1) obtain ix i r where
    "dels = (if (ix, i, r) \<noteq> (index, base, routing) then [mk (OpDelete ix i r version)] else [])"
    unfolding moved_deletes_def bindr_Inr_iff Let_def by blast
  with assms(2) show ?thesis by (auto split: if_splits)
qed

lemma update_ops:
  assumes "materialize_update ext target tab rules version pk previous_pk doc completed before = Inr (ops, left)"
  shows "well_formed_ops rules tab version ops"
proof -
  from assms obtain base index new_docs dels where r: "place ext rules tab base doc = Inr new_docs"
    and ops: "ops = fst (finish ext rules tab version index new_docs completed) @ dels"
    and d: "(if r_fan_outs rules tab \<noteq> None
        then fanned_deletes ext target tab rules version (unwrap_or pk previous_pk) before index new_docs
        else moved_deletes ext target tab rules version previous_pk (unwrap_or pk previous_pk) before index base
          (case new_docs of [] \<Rightarrow> None | p # _ \<Rightarrow> pl_routing p)) = Inr dels"
    by (auto simp: materialize_update_def Let_def bindr_Inr_iff split_beta)
  have del: "\<exists>ix i r. op_doc e = OpDelete ix i r version \<and> op_lsn e = Lsn 0 \<and>
      (\<forall>p \<in> set new_docs. (index, pl_id p, pl_routing p) \<noteq> (ix, i, r))" if "e \<in> set dels" for e
  proof (cases "r_fan_outs rules tab")
    case None
    from place_not_fanned [OF None r] obtain p where "new_docs = [p]" "pl_id p = base" by blast
    with None d moved_delete_ops [OF _ that] show ?thesis by fastforce
  next
    case (Some f)
    with d fanned_delete_ops [OF _ that] show ?thesis by fastforce
  qed
  show ?thesis unfolding well_formed_ops_def
    by (rule exI [of _ "fst (finish ext rules tab version index new_docs completed)"], rule exI [of _ dels])
       (use ops del in \<open>fastforce simp: finish_ops\<close>)
qed

lemma materialize_ops:
  assumes "materialize ext target tab kind rules previous version = Inr (ops, left)"
  shows "well_formed_ops rules tab version ops"
proof -
  from assms consider pk doc where "materialize_insert ext target tab rules version pk doc = Inr (ops, left)"
    | pk previous_pk doc completed before
      where "materialize_update ext target tab rules version pk previous_pk doc completed before = Inr (ops, left)"
    | pk before where "materialize_delete ext target tab rules version pk before = Inr (ops, left)"
    by (auto simp: materialize_def Let_def split: option.splits row_kind.splits prod.splits)
  then show ?thesis
  proof cases
    case 3
    from delete_ops [OF 3] show ?thesis
      unfolding well_formed_ops_def by (intro exI [of _ "[]"] exI [of _ ops]) auto
  qed (auto intro: insert_ops update_ops)
qed

text \<open>C14. Every write of a change comes before every delete of it, so a crash in between leaves a
  duplicate that the replay repairs and never a gap; no operation clears a document the same
  change has just written; every operation carries the row's version and the pending
  position that the commit overwrites, and every write the section's pipeline.\<close>

theorem materialize_writes_first:
  assumes "materialize ext target tab kind rules previous version = Inr (ops, left)"
  shows "\<exists>ups dels. ops = ups @ dels \<and>
    (\<forall>op \<in> set ups. is_upsert (op_doc op) \<and> op_pipeline (op_doc op) = r_pipelines rules tab) \<and>
    (\<forall>op \<in> set dels. \<not> is_upsert (op_doc op)) \<and>
    (\<forall>op \<in> set ops. op_lsn op = Lsn 0 \<and> op_version (op_doc op) = version) \<and>
    (\<forall>u \<in> set ups. \<forall>d \<in> set dels. op_address (op_doc u) \<noteq> op_address (op_doc d))"
  using materialize_ops [OF assms] by (simp only: well_formed_ops_def)

definition moved_row :: row_kind where
  "moved_row = Update (JNumber (NInt 2)) (Some (JNumber (NInt 1))) (JObject [(''id'', JNumber (NInt 2))]) [] None"

theorem materialize_writes_first_witness:
  "\<exists>ups dels. materialize sample_externs (Static ''users'') (''public'', ''u'') moved_row no_rules None (Some 9) =
       Inr (ups @ dels, []) \<and> length ups = 1 \<and> length dels = 1 \<and>
     (\<forall>u \<in> set ups. \<forall>d \<in> set dels. op_address (op_doc u) \<noteq> op_address (op_doc d))"
proof -
  let ?ups = "[mk (OpUpsert ''users'' ''2'' None (JObject [(''id'', JNumber (NInt 2))]) (Some 9) None)]"
  let ?dels = "[mk (OpDelete ''users'' ''1'' None (Some 9))]"
  have eq: "materialize sample_externs (Static ''users'') (''public'', ''u'') moved_row no_rules None (Some 9) = Inr (?ups @ ?dels, [])"
    unfolding moved_row_def no_rules_def mk_def by code_simp
  from materialize_writes_first [OF eq] have "\<exists>ups dels. ?ups @ ?dels = ups @ dels" by blast
  with eq show ?thesis by (intro exI [of _ ?ups] exI [of _ ?dels]) simp
qed

text \<open>A row the table's filter turns away writes nothing: an insert or an update whose judged
  document does not match becomes only deletes, at the row's version; and an update or a
  delete of an append-only table halts whatever the rules say.\<close>

theorem filtered_row_only_deletes:
  assumes "r_filters rules tab = Some f"
    and "kind = Insert pk doc \<and> \<not> matches f doc \<or>
         kind = Update pk prev doc toast before \<and>
           \<not> matches f (unwrap_or doc (map_option fst (completion_of kind rules previous tab)))"
    and "materialize ext target tab kind rules previous version = Inr (ops, left)"
  shows "(\<forall>op \<in> set ops. \<not> is_upsert (op_doc op) \<and> op_version (op_doc op) = version) \<and>
    (tab \<in> r_append_only rules \<longrightarrow> (\<exists>pk doc. kind = Insert pk doc))"
proof
  from assms(3) have "tab \<in> r_append_only rules \<Longrightarrow> append_only_refusal kind = None"
    by (auto simp: materialize_def split: option.splits)
  then show "tab \<in> r_append_only rules \<longrightarrow> (\<exists>pk doc. kind = Insert pk doc)"
    by (cases kind) auto
  have "\<exists>pk' b'. filter_out kind (map_option fst (completion_of kind rules previous tab)) (Some f) = Delete pk' b'"
    using assms(2) by (auto simp: filter_out_def)
  then obtain pk' b' where "materialize_delete ext target tab rules version pk' b' = Inr (ops, left)"
    using assms(1,3) by (auto simp: materialize_def Let_def split: option.splits if_splits)
  from delete_ops [OF this] show "\<forall>op \<in> set ops. \<not> is_upsert (op_doc op) \<and> op_version (op_doc op) = version" by blast
qed

definition active_filter :: row_filter where
  "active_filter = \<lparr>f_expr = Cmp ''active'' Eq (LBool True), f_columns = [''active'']\<rparr>"

theorem filtered_row_only_deletes_witness:
  "\<exists>ops. materialize sample_externs (Static ''users'') (''public'', ''u'')
       (Insert (JNumber (NInt 1)) (JObject [(''active'', JBool False)]))
       (no_rules\<lparr>r_filters := [(''public'', ''u'') \<mapsto> active_filter]\<rparr>) None None = Inr (ops, []) \<and>
     ops \<noteq> [] \<and> (\<forall>op \<in> set ops. \<not> is_upsert (op_doc op))"
proof -
  let ?r = "no_rules\<lparr>r_filters := [(''public'', ''u'') \<mapsto> active_filter]\<rparr>"
  have eq: "materialize sample_externs (Static ''users'') (''public'', ''u'')
       (Insert (JNumber (NInt 1)) (JObject [(''active'', JBool False)])) ?r None None
      = Inr ([mk (OpDelete ''users'' ''1'' None None)], [])"
    unfolding active_filter_def no_rules_def mk_def by code_simp
  have f: "r_filters ?r (''public'', ''u'') = Some active_filter" by simp
  have "\<not> matches active_filter (JObject [(''active'', JBool False)])"
    unfolding active_filter_def by code_simp
  from filtered_row_only_deletes [OF f disjI1 eq] this show ?thesis using eq by blast
qed

subsection \<open>Excluded columns\<close>

lemma projections_apply_agree:
  assumes "ps tab = Some rule" "bt_wf m" "bt_wf m'" "\<And>k. projection_keeps rule k \<Longrightarrow> bt_get m k = bt_get m' k"
  shows "projections_apply ps tab (JObject m) = projections_apply ps tab (JObject m')"
proof -
  have "bt_retain (projection_keeps rule) m = bt_retain (projection_keeps rule) m'"
    by (rule bt_ext) (use assms in \<open>auto simp: fun_eq_iff\<close>)
  with assms(1) show ?thesis by (simp add: projections_apply_def)
qed

text \<open>An excluded column never reaches a sink: two rows that agree on the columns the
  projection keeps finish as the same document, with the same columns reported, whatever the
  other columns hold and whatever the rules that follow do.\<close>

theorem excluded_columns_do_not_matter:
  assumes "r_projections rules tab = Some rule" "bt_wf m" "bt_wf m'"
    and "\<forall>k. projection_keeps rule k \<longrightarrow> bt_get m k = bt_get m' k"
  shows "finish_doc ext rules tab shaped filed (JObject m) = finish_doc ext rules tab shaped filed (JObject m')"
  using projections_apply_agree [of "r_projections rules" tab rule m m'] assms by (simp add: finish_doc_def)

theorem excluded_columns_do_not_matter_witness:
  "finish_doc sample_externs (no_rules\<lparr>r_projections := [(''public'', ''u'') \<mapsto> Exclude [''ssn'']]\<rparr>) (''public'', ''u'') [] None
     (JObject [(''id'', JNull), (''ssn'', JString ''1'')]) =
   finish_doc sample_externs (no_rules\<lparr>r_projections := [(''public'', ''u'') \<mapsto> Exclude [''ssn'']]\<rparr>) (''public'', ''u'') [] None
     (JObject [(''id'', JNull), (''ssn'', JString ''2'')])"
  by (rule excluded_columns_do_not_matter [where rule = "Exclude [''ssn'']"]) (auto simp: bt_wf_def bt_get_def)

subsection \<open>Against an abstract target\<close>

text \<open>The target as the sinks present it: a document per index, id and routing. What a target
  does with \<open>DeleteChildren\<close> is a parameter.\<close>

type_synonym address = "string \<times> string \<times> string option"
type_synonym target_state = "address \<rightharpoonup> json"

fun apply_doc_op ::
  "(string \<Rightarrow> string \<Rightarrow> string \<Rightarrow> string \<Rightarrow> target_state \<Rightarrow> target_state) \<Rightarrow> document_op \<Rightarrow> target_state \<Rightarrow> target_state" where
  "apply_doc_op dc (OpUpsert index doc_id routing doc _ _) T = T((index, doc_id, routing) \<mapsto> doc)"
| "apply_doc_op dc (OpDelete index doc_id routing _) T = T((index, doc_id, routing) := None)"
| "apply_doc_op dc (OpDeleteChildren index field parent_name parent_id _) T = dc index field parent_name parent_id T"

definition apply_ops ::
  "(string \<Rightarrow> string \<Rightarrow> string \<Rightarrow> string \<Rightarrow> target_state \<Rightarrow> target_state) \<Rightarrow> lsn_op list \<Rightarrow> target_state \<Rightarrow> target_state" where
  "apply_ops dc ops T = fold (\<lambda>op. apply_doc_op dc (op_doc op)) ops T"

text \<open>The specification: where the documents of a row state live, and what they are.\<close>

definition row_state ::
  "externs \<Rightarrow> index_target \<Rightarrow> table \<Rightarrow> rules \<Rightarrow> json \<Rightarrow> json \<Rightarrow> (halt, string \<times> placed list) result" where
  "row_state ext target tab rules pk doc =
     bindr (derived_id ext tab pk None (Some doc) rules) (\<lambda>base.
     bindr (rendered_index ext target tab pk None (Some doc)) (\<lambda>index.
     bindr (place ext rules tab base doc) (\<lambda>ps. Inr (index, ps))))"

definition finished ::
  "externs \<Rightarrow> rules \<Rightarrow> table \<Rightarrow> string list \<Rightarrow> string \<Rightarrow> placed list \<Rightarrow> (address \<times> json) list" where
  "finished ext rules tab shaped index ps =
     map (\<lambda>p. ((index, pl_id p, pl_routing p), fst (finish_doc ext rules tab shaped (pl_filed p) (pl_doc p)))) ps"

definition moved :: "(address \<times> json) list \<Rightarrow> address list \<Rightarrow> target_state \<Rightarrow> target_state" where
  "moved new old T = (\<lambda>a. case map_of (rev new) a of
     Some d \<Rightarrow> Some d | None \<Rightarrow> if a \<in> set old then None else T a)"

lemma apply_finish:
  "apply_ops dc (fst (finish ext rules tab version index ps shaped)) T =
     T ++ map_of (rev (finished ext rules tab shaped index ps))"
  by (induction ps arbitrary: T) (simp_all add: apply_ops_def finish_ops finished_def map_add_upd_left)

lemma apply_deletes:
  "apply_ops dc (map (\<lambda>p. mk (OpDelete index (pl_id p) (pl_routing p) version)) ps) T =
     (\<lambda>a. if a \<in> set (addresses index ps) then None else T a)"
  by (induction ps arbitrary: T) (auto simp: apply_ops_def addresses_def fun_eq_iff)

lemma apply_ops_append: "apply_ops dc (xs @ ys) T = apply_ops dc ys (apply_ops dc xs T)"
  by (simp add: apply_ops_def)

lemma finished_addresses: "fst ` set (finished ext rules tab shaped index ps) = set (addresses index ps)"
  by (auto simp: finished_def addresses_def image_iff)

lemma finished_None_iff:
  "map_of (rev (finished ext rules tab shaped index ps)) a = None \<longleftrightarrow> a \<notin> set (addresses index ps)"
  by (simp add: map_of_eq_None_iff finished_addresses)

lemma moved_eq:
  assumes "\<And>a. a \<in> D \<longleftrightarrow> a \<in> set old \<and> a \<notin> fst ` set new"
  shows "(\<lambda>a. if a \<in> D then None else (T ++ map_of (rev new)) a) = moved new old T"
proof
  fix a
  have "map_of (rev new) a = None \<longleftrightarrow> a \<notin> fst ` set new" by (simp add: map_of_eq_None_iff)
  then show "(if a \<in> D then None else (T ++ map_of (rev new)) a) = moved new old T a"
    using assms [of a] by (auto simp: moved_def map_add_def split: option.splits)
qed

text \<open>The key of an update agrees with the rows it describes: what the sources promise when an id
  is built from key columns.\<close>

definition keys_agree :: "rules \<Rightarrow> table \<Rightarrow> json \<Rightarrow> json \<Rightarrow> json \<Rightarrow> json \<Rightarrow> bool" where
  "keys_agree rules tab pk doc old_pk b \<longleftrightarrow> tab \<notin> r_append_only rules \<and>
     (case r_id_templates rules tab of
        None \<Rightarrow> True
      | Some t \<Rightarrow> it_pk_only t \<longrightarrow>
          (\<exists>dm bm. doc = JObject dm \<and> b = JObject bm \<and> key_agrees pk dm (template_columns t) \<and>
             key_agrees old_pk bm (template_columns t)))"

lemma old_id_agrees:
  assumes "keys_agree rules tab pk doc (unwrap_or pk previous_pk) b"
    and "derived_id ext tab pk None (Some doc) rules = Inr base"
    and "derived_id ext tab (unwrap_or pk previous_pk) None (Some b) rules = Inr old_base"
  shows "unwrap_or base (case r_id_templates rules tab of
      None \<Rightarrow> map_option (pk_to_id ext) previous_pk
    | Some t \<Rightarrow> if it_pk_only t then Option.bind previous_pk (\<lambda>p. ok (template_render_from_pk ext t p))
               else Option.bind (Some b) (\<lambda>b. ok (template_render ext t b))) = old_base"
proof (cases "r_id_templates rules tab")
  case None
  with assms show ?thesis by (cases previous_pk) (auto simp: derived_id_def keys_agree_def)
next
  case (Some t)
  then have r: "template_render ext t doc = Inr base" "template_render ext t b = Inr old_base"
    using assms(2,3) by (auto simp: derived_id_def id_row_template_def)
  show ?thesis
  proof (cases "it_pk_only t")
    case True
    with Some assms(1) obtain dm bm where k: "doc = JObject dm" "b = JObject bm"
      "key_agrees pk dm (template_columns t)" "key_agrees (unwrap_or pk previous_pk) bm (template_columns t)"
      by (auto simp: keys_agree_def)
    from template_from_pk_agrees [OF True k(3), of ext] template_from_pk_agrees [OF True k(4), of ext] r k(1,2)
    have "template_render_from_pk ext t pk = Inr base"
      "template_render_from_pk ext t (unwrap_or pk previous_pk) = Inr old_base" by simp_all
    then show ?thesis using Some True by (cases previous_pk) auto
  qed (use Some r in simp)
qed

lemma old_routing_agrees:
  assumes "r_fan_outs rules tab = None" "place ext rules tab old_base b = Inr [q]"
    and "key_routing ext rules tab (Some b) old_pk = Inr old_routing"
  shows "old_routing = pl_routing q"
  using assms
  by (auto simp: place_def shape_def bindr_Inr_iff place_one_def key_routing_def routing_for_key_def routing_for_doc_def
      routing_render_from_key_def split: option.splits if_splits)

lemma moved_deletes_spec:
  assumes "r_fan_outs rules tab = None" "keys_agree rules tab pk doc (unwrap_or pk previous_pk) b"
    and "derived_id ext tab pk None (Some doc) rules = Inr base"
    and old: "row_state ext target tab rules (unwrap_or pk previous_pk) b = Inr (old_index, old)"
    and dels: "moved_deletes ext target tab rules version previous_pk (unwrap_or pk previous_pk) (Some b) index base routing = Inr dels"
  shows "\<exists>q. old = [q] \<and> dels = (if (old_index, pl_id q, pl_routing q) \<noteq> (index, base, routing)
    then [mk (OpDelete old_index (pl_id q) (pl_routing q) version)] else [])"
proof -
  from old obtain old_base where o: "derived_id ext tab (unwrap_or pk previous_pk) None (Some b) rules = Inr old_base"
    "target_render ext target b = Inr old_index" "place ext rules tab old_base b = Inr old"
    by (auto simp: row_state_def bindr_Inr_iff)
  from place_not_fanned [OF assms(1) o(3)] obtain q where q: "old = [q]" "pl_id q = old_base" by blast
  from dels obtain old_routing where kr: "key_routing ext rules tab (Some b) (unwrap_or pk previous_pk) = Inr old_routing"
    by (auto simp: moved_deletes_def bindr_Inr_iff)
  from old_routing_agrees [OF assms(1) o(3) [unfolded q(1)] kr] have "old_routing = pl_routing q" .
  with dels kr o(2) q old_id_agrees [OF assms(2,3) o(1)] show ?thesis
    by (auto simp: moved_deletes_def Let_def)
qed

lemma update_moves:
  assumes upd: "materialize_update ext target tab rules version pk previous_pk doc completed (Some b) = Inr (ops, left)"
    and old: "row_state ext target tab rules (unwrap_or pk previous_pk) b = Inr (old_index, old)"
    and keys: "keys_agree rules tab pk doc (unwrap_or pk previous_pk) b"
  shows "\<exists>index new. row_state ext target tab rules pk doc = Inr (index, new) \<and>
    apply_ops dc ops T = moved (finished ext rules tab completed index new) (addresses old_index old) T"
proof -
  from upd obtain base index new dels where n: "derived_id ext tab pk None (Some doc) rules = Inr base"
    "target_render ext target doc = Inr index" "place ext rules tab base doc = Inr new"
    and ops: "ops = fst (finish ext rules tab version index new completed) @ dels"
    and d: "(if r_fan_outs rules tab \<noteq> None
        then fanned_deletes ext target tab rules version (unwrap_or pk previous_pk) (Some b) index new
        else moved_deletes ext target tab rules version previous_pk (unwrap_or pk previous_pk) (Some b) index base
          (case new of [] \<Rightarrow> None | p # _ \<Rightarrow> pl_routing p)) = Inr dels"
    by (auto simp: materialize_update_def Let_def bindr_Inr_iff split_beta derived_id_doc)
  let ?new = "finished ext rules tab completed index new"
  have "\<exists>ds. dels = map (\<lambda>p. mk (OpDelete old_index (pl_id p) (pl_routing p) version)) ds \<and>
      (\<forall>a. a \<in> set (addresses old_index ds) \<longleftrightarrow> a \<in> set (addresses old_index old) \<and> a \<notin> fst ` set ?new)"
  proof (cases "r_fan_outs rules tab")
    case None
    from place_not_fanned [OF None n(3)] obtain p where p: "new = [p]" "pl_id p = base" by blast
    from moved_deletes_spec [OF None keys n(1) old, of version index "pl_routing p" dels] d None p obtain q where
      "old = [q]" "dels = (if (old_index, pl_id q, pl_routing q) \<noteq> (index, base, pl_routing p)
        then [mk (OpDelete old_index (pl_id q) (pl_routing q) version)] else [])" by auto
    then show ?thesis using p
      by (intro exI [of _ "if (old_index, pl_id q, pl_routing q) \<noteq> (index, base, pl_routing p) then [q] else []"])
         (auto simp: addresses_def finished_addresses)
  next
    case (Some f)
    let ?left = "filter (\<lambda>p. old_index \<noteq> index \<or> (pl_id p, pl_routing p) \<notin> set (map (\<lambda>p. (pl_id p, pl_routing p)) new)) old"
    from d Some old have "dels = map (\<lambda>p. mk (OpDelete old_index (pl_id p) (pl_routing p) version)) ?left"
      by (auto simp: fanned_deletes_def row_state_def Let_def bindr_Inr_iff)
    then show ?thesis
      by (intro exI [of _ ?left]) (auto simp: finished_addresses addresses_def image_iff)
  qed
  then obtain ds where ds: "dels = map (\<lambda>p. mk (OpDelete old_index (pl_id p) (pl_routing p) version)) ds"
    "\<And>a. a \<in> set (addresses old_index ds) \<longleftrightarrow> a \<in> set (addresses old_index old) \<and> a \<notin> fst ` set ?new" by blast
  have "apply_ops dc ops T = moved ?new (addresses old_index old) T"
    unfolding ops apply_ops_append apply_finish ds(1) apply_deletes by (rule moved_eq) (rule ds(2))
  moreover have "row_state ext target tab rules pk doc = Inr (index, new)"
    using n by (simp add: row_state_def)
  ultimately show ?thesis by blast
qed

text \<open>C8. An update whose before-image arrives moves the row's documents and touches nothing else:
  afterwards the target holds the finished documents of the new state, at the places the new
  state names; every place the old state had that the new one has not is empty; every other
  place is as it was. This covers changed keys, changed index columns, changed routing and
  parents, and fanned rows whose elements came and went.\<close>

theorem update_moves_documents:
  assumes "materialize ext target tab (Update pk previous_pk doc toast (Some b)) rules previous version = Inr (ops, left)"
    and "d = (case completion_of (Update pk previous_pk doc toast (Some b)) rules previous tab of Some (d, _) \<Rightarrow> d | None \<Rightarrow> doc)"
    and "is_none_or (\<lambda>f. matches f d) (r_filters rules tab)"
    and "row_state ext target tab rules (unwrap_or pk previous_pk) b = Inr (old_index, old)"
    and "keys_agree rules tab pk d (unwrap_or pk previous_pk) b"
  shows "\<exists>index new shaped. row_state ext target tab rules pk d = Inr (index, new) \<and>
    apply_ops dc ops T = moved (finished ext rules tab shaped index new) (addresses old_index old) T"
proof -
  let ?kind = "Update pk previous_pk doc toast (Some b)"
  let ?c = "completion_of ?kind rules previous tab"
  have judged: "unwrap_or doc (map_option fst ?c) = d" using assms(2) by (auto split: option.splits)
  have keep: "filter_out ?kind (map_option fst ?c) (r_filters rules tab) = ?kind"
    using assms(3) judged by (cases "r_filters rules tab") (simp_all add: filter_out_def)
  have "tab \<notin> r_append_only rules" using assms(5) by (simp add: keys_agree_def)
  with assms(1) keep have "(case ?c of
        Some (d, completed) \<Rightarrow> materialize_update ext target tab rules version pk previous_pk d completed (Some b)
      | None \<Rightarrow> materialize_update ext target tab rules version pk previous_pk doc [] (Some b)) = Inr (ops, left)"
    by (simp only: materialize_def Let_def if_False option.case row_kind.case)
  then obtain shaped where "materialize_update ext target tab rules version pk previous_pk d shaped (Some b) = Inr (ops, left)"
    using assms(2) by (auto split: option.splits)
  from update_moves [OF this assms(4,5), of dc T] show ?thesis by blast
qed

definition user :: "int \<Rightarrow> json" where
  "user n = JObject [(''active'', JBool True), (''id'', JNumber (NInt n))]"

abbreviation users :: index_target where "users \<equiv> Static ''users''"
abbreviation user_table :: table where "user_table \<equiv> (''public'', ''u'')"

definition user_placed :: "int \<Rightarrow> placed" where
  "user_placed n = \<lparr>pl_id = show_int n, pl_doc = user n, pl_filed = None, pl_routing = None\<rparr>"

lemma user_states:
  "row_state sample_externs users user_table no_rules (JNumber (NInt n)) (user n) = Inr (''users'', [user_placed n])"
  by (simp add: row_state_def derived_id_def no_rules_def pk_to_id_def sample_externs_def place_def shape_def
      place_one_def user_placed_def)

lemma user_moves:
  "materialize sample_externs users user_table (Insert (JNumber (NInt n)) (user n)) no_rules None None =
     Inr ([mk (OpUpsert ''users'' (show_int n) None (user n) None None)], [])"
  "materialize sample_externs users user_table (Delete (JNumber (NInt n)) (Some (user n))) no_rules None None =
     Inr ([mk (OpDelete ''users'' (show_int n) None None)], [])"
  "show_int n \<noteq> show_int k \<Longrightarrow>
   materialize sample_externs users user_table (Update (JNumber (NInt n)) (Some (JNumber (NInt k))) (user n) [] (Some (user k))) no_rules None None =
     Inr ([mk (OpUpsert ''users'' (show_int n) None (user n) None None), mk (OpDelete ''users'' (show_int k) None None)], [])"
  by (auto simp: materialize_def no_rules_def filter_out_def materialize_insert_def materialize_delete_def materialize_update_def
      moved_deletes_def derived_id_def pk_to_id_def sample_externs_def place_def shape_def place_one_def key_routing_def
      finish_def finish_one_def finish_doc_def projections_apply_def apply_except_def renames_apply_def flattens_apply_def
      constants_apply_def Let_def user_def)

theorem update_moves_documents_witness:
  "\<exists>ops index new shaped. materialize sample_externs users user_table
      (Update (JNumber (NInt 2)) (Some (JNumber (NInt 1))) (user 2) [] (Some (user 1))) no_rules None None = Inr (ops, []) \<and>
     apply_ops (\<lambda>_ _ _ _ T. T) ops Map.empty =
       moved (finished sample_externs no_rules user_table shaped index new) (addresses ''users'' [user_placed 1]) Map.empty"
proof -
  have "show_int 2 \<noteq> show_int 1" by code_simp
  note run = user_moves(3) [OF this]
  have keys: "keys_agree no_rules user_table (JNumber (NInt 2)) (user 2) (unwrap_or (JNumber (NInt 2)) (Some (JNumber (NInt 1)))) (user 1)"
    by (simp add: keys_agree_def no_rules_def)
  have filt: "is_none_or (\<lambda>f. matches f (user 2)) (r_filters no_rules user_table)" by (simp add: no_rules_def)
  have old: "row_state sample_externs users user_table no_rules (unwrap_or (JNumber (NInt 2)) (Some (JNumber (NInt 1)))) (user 1)
      = Inr (''users'', [user_placed 1])" using user_states [of 1] by simp
  from update_moves_documents [OF run _ filt old keys, of "\<lambda>_ _ _ _ T. T" Map.empty] run show ?thesis by auto
qed

lemma insert_adds:
  assumes "materialize_insert ext target tab rules version pk doc = Inr (ops, left)"
  shows "\<exists>index new. row_state ext target tab rules pk doc = Inr (index, new) \<and>
    apply_ops dc ops T = moved (finished ext rules tab [] index new) [] T"
proof -
  from assms obtain base index new where "derived_id ext tab pk None (Some doc) rules = Inr base"
    "target_render ext target doc = Inr index" "place ext rules tab base doc = Inr new"
    "ops = fst (finish ext rules tab version index new [])"
    by (auto simp: materialize_insert_def bindr_Inr_iff derived_id_doc)
  moreover have "T ++ map_of (rev (finished ext rules tab [] index new)) = moved (finished ext rules tab [] index new) [] T"
    by (auto simp: moved_def map_add_def fun_eq_iff split: option.splits)
  ultimately show ?thesis by (auto simp: row_state_def apply_finish)
qed

lemma delete_clears:
  assumes del: "materialize_delete ext target tab rules version pk (Some b) = Inr (ops, left)"
    and state: "row_state ext target tab rules pk b = Inr (index, old)"
    and child: "\<And>rule. r_joins rules tab = Some rule \<Longrightarrow> jr_parent rule \<noteq> None"
  shows "apply_ops dc ops T = (\<lambda>a. if a \<in> set (addresses index old) then None else T a)"
proof -
  from state obtain base where s: "derived_id ext tab pk None (Some b) rules = Inr base"
    "target_render ext target b = Inr index" "place ext rules tab base b = Inr old"
    by (auto simp: row_state_def bindr_Inr_iff)
  have "ops = map (\<lambda>p. mk (OpDelete index (pl_id p) (pl_routing p) version)) old"
  proof (cases "r_fan_outs rules tab")
    case None
    from place_not_fanned [OF None s(3)] obtain q where q: "old = [q]" "pl_id q = base" by blast
    from del s None obtain r where r: "key_routing ext rules tab (Some b) pk = Inr r"
      by (auto simp: materialize_delete_def bindr_Inr_iff)
    from old_routing_agrees [OF None s(3) [unfolded q(1)] r] q r del s None child show ?thesis
      by (auto simp: materialize_delete_def split: option.splits)
  qed (use del s in \<open>auto simp: materialize_delete_def bindr_Inr_iff\<close>)
  then show ?thesis by (simp add: apply_deletes)
qed

subsection \<open>A row's history\<close>

text \<open>The changes of one row, from its insert on, as a source that carries before-images reports
  them: the key and document of the current state, every address the row has ever had, and the
  target.\<close>

definition admits :: "rules \<Rightarrow> table \<Rightarrow> json \<Rightarrow> bool" where
  "admits rules tab doc \<longleftrightarrow> tab \<notin> r_append_only rules \<and> is_none_or (\<lambda>f. matches f doc) (r_filters rules tab)"

inductive history ::
  "externs \<Rightarrow> index_target \<Rightarrow> table \<Rightarrow> rules \<Rightarrow> target_state \<Rightarrow> json \<Rightarrow> json \<Rightarrow> address set \<Rightarrow> target_state \<Rightarrow> bool"
  for ext target tab rules T0 where
  inserted: "admits rules tab doc \<Longrightarrow>
     materialize ext target tab (Insert pk doc) rules previous version = Inr (ops, left) \<Longrightarrow>
     row_state ext target tab rules pk doc = Inr (index, new) \<Longrightarrow>
     history ext target tab rules T0 pk doc (set (addresses index new)) (apply_ops dc ops T0)"
| updated: "history ext target tab rules T0 pk doc owned T \<Longrightarrow> admits rules tab doc' \<Longrightarrow>
     keys_agree rules tab pk' doc' pk doc \<Longrightarrow>
     materialize ext target tab (Update pk' (Some pk) doc' [] (Some doc)) rules previous version = Inr (ops, left) \<Longrightarrow>
     row_state ext target tab rules pk' doc' = Inr (index, new) \<Longrightarrow>
     history ext target tab rules T0 pk' doc' (owned \<union> set (addresses index new)) (apply_ops dc ops T)"

lemma materialize_admitted:
  assumes "admits rules tab doc"
  shows "materialize ext target tab (Insert pk doc) rules previous version = materialize_insert ext target tab rules version pk doc"
    and "materialize ext target tab (Update pk prev doc [] b) rules previous version =
      materialize_update ext target tab rules version pk prev doc [] b"
  using assms by (cases "r_filters rules tab"; simp add: materialize_def admits_def filter_out_def)+

lemma history_target:
  assumes "history ext target tab rules T0 pk doc owned T"
  shows "\<exists>index new. row_state ext target tab rules pk doc = Inr (index, new) \<and> set (addresses index new) \<subseteq> owned \<and>
    T = (\<lambda>a. case map_of (rev (finished ext rules tab [] index new)) a of
           Some d \<Rightarrow> Some d | None \<Rightarrow> if a \<in> owned then None else T0 a)"
  using assms
proof induction
  case (inserted doc pk previous version ops left index new dc)
  from insert_adds [OF inserted(2) [unfolded materialize_admitted(1) [OF inserted(1)]], of dc T0] inserted(3)
  have T: "apply_ops dc ops T0 = moved (finished ext rules tab [] index new) [] T0" by auto
  have "map_of (rev (finished ext rules tab [] index new)) a = None \<longleftrightarrow> a \<notin> set (addresses index new)" for a
    by (rule finished_None_iff)
  then show ?case unfolding T moved_def using inserted(3)
    by (intro exI [of _ index] exI [of _ new]) (auto simp: fun_eq_iff split: option.splits)
next
  case (updated pk doc owned T doc' pk' previous version ops left index new dc)
  from updated.IH obtain index0 old where old: "row_state ext target tab rules pk doc = Inr (index0, old)"
    "set (addresses index0 old) \<subseteq> owned"
    "T = (\<lambda>a. case map_of (rev (finished ext rules tab [] index0 old)) a of
           Some d \<Rightarrow> Some d | None \<Rightarrow> if a \<in> owned then None else T0 a)" by blast
  have "materialize_update ext target tab rules version pk' (Some pk) doc' [] (Some doc) = Inr (ops, left)"
    using updated(4) materialize_admitted(2) [OF updated(2)] by simp
  from update_moves [OF this, of index0 old dc T] old(1) updated(3,5)
  have T': "apply_ops dc ops T = moved (finished ext rules tab [] index new) (addresses index0 old) T" by auto
  have new: "map_of (rev (finished ext rules tab [] index new)) a = None \<longleftrightarrow> a \<notin> set (addresses index new)" for a
    by (rule finished_None_iff)
  have gone: "a \<notin> set (addresses index0 old) \<Longrightarrow> T a = (if a \<in> owned then None else T0 a)" for a
    using old(3) finished_None_iff [of ext rules tab "[]" index0 old a] by simp
  have "moved (finished ext rules tab [] index new) (addresses index0 old) T a =
      (case map_of (rev (finished ext rules tab [] index new)) a of
         Some d \<Rightarrow> Some d | None \<Rightarrow> if a \<in> owned \<union> set (addresses index new) then None else T0 a)" for a
    using new [of a] gone [of a] old(2) by (auto simp: moved_def split: option.splits)
  then show ?case unfolding T' using updated(5)
    by (intro exI [of _ index] exI [of _ new]) (auto simp: fun_eq_iff)
qed



subsection \<open>Where a filtered update goes wrong\<close>

text \<open>An update that changes the key and leaves the filter, of a table whose id is built from the
  key and whose source sends no before-image: the delete goes to the id of the new key. The
  document of the row, under the old key's id, is not touched.\<close>

definition id_rules :: rules where
  "id_rules = no_rules\<lparr>r_id_templates := [user_table \<mapsto> \<lparr>it_parts = [PLiteral ''user-'', PColumn ''id''], it_pk_only = True\<rparr>],
     r_filters := [user_table \<mapsto> active_filter]\<rparr>"

lemma filtered_update_misses_document:
  "row_state sample_externs users user_table id_rules (JNumber (NInt 1)) (user 1) =
     Inr (''users'', [(user_placed 1)\<lparr>pl_id := ''user-1''\<rparr>]) \<and>
   materialize sample_externs users user_table
     (Update (JNumber (NInt 2)) (Some (JNumber (NInt 1))) (JObject [(''active'', JBool False), (''id'', JNumber (NInt 2))]) [] None)
     id_rules None None = Inr ([mk (OpDelete ''users'' ''user-2'' None None)], [])"
  unfolding id_rules_def active_filter_def no_rules_def mk_def user_placed_def user_def by (rule conjI) code_simp+

text \<open>A filter on a column that is both TOASTed and transformed: the unchanged column is completed
  from the stored document, so the filter judges the transformed value, and an update of a row
  that matches the filter deletes its document.\<close>

definition hashed_rules :: rules where
  "hashed_rules = no_rules\<lparr>r_transforms := \<lparr>tr_map = [user_table \<mapsto> [(''kind'', Hash)]], tr_keys = Map.empty\<rparr>,
     r_filters := [user_table \<mapsto> \<lparr>f_expr = Cmp ''kind'' Eq (LStr ''x''), f_columns = [''kind'']\<rparr>]\<rparr>"

lemma toasted_filter_judges_stored:
  "matches \<lparr>f_expr = Cmp ''kind'' Eq (LStr ''x''), f_columns = [''kind'']\<rparr> (JObject [(''id'', JNumber (NInt 1)), (''kind'', JString ''x'')]) \<and>
   finish_doc sample_externs hashed_rules user_table [] None (JObject [(''id'', JNumber (NInt 1)), (''kind'', JString ''x'')]) =
     (JObject [(''id'', JNumber (NInt 1)), (''kind'', JString ''6161616161616161'')], []) \<and>
   materialize sample_externs users user_table
     (Update (JNumber (NInt 1)) None (JObject [(''id'', JNumber (NInt 1)), (''kind'', JNull)]) [''kind''] None) hashed_rules
     (Some (JObject [(''id'', JNumber (NInt 1)), (''kind'', JString ''6161616161616161'')])) None =
     Inr ([mk (OpDelete ''users'' ''1'' None None)], [])"
  unfolding hashed_rules_def no_rules_def mk_def by (intro conjI) code_simp+

end
