(* ===== verification/Engine_Facts.thy ===== *)
theory Engine_Facts
  imports Engine_Loop Materialize_Facts
begin

section \<open>What the engine loop hands to the sink\<close>

text \<open>
  A run is a reachable pair of a loop state and a log. The log is a record of what happened,
  kept beside the loop and not read by it: what arrived on either channel and which events were
  handled; the operations the rows of each turn produced, in order; for every commit of the
  stream, how many operations had been produced when it was handled; the same for every load
  mark; and what has happened since the load's window last opened. The invariants of this
  theory tie the two together: nothing is lost, doubled or reordered, a position is never handed
  over before the operations it covers, a mark never overtakes the rows it stands for, and no
  copied write outlives a delete that is newer than it.
\<close>

text \<open>\<open>lg_positive\<close> records that every turn so far ran with a batch size and a byte limit above
  zero, \<open>lg_ended\<close> that the loop has returned. What the window has to order: an operation with whether a load was running when it was
  produced, and a truncate that cleared a whole index while one was.\<close>

datatype window_entry = Produced document_op bool | ClearedIndex string u64

record run_log =
  lg_stream :: "change_event list"
  lg_load :: "change_event list"
  lg_handled :: "change_event list"
  lg_produced :: "document_op list"
  lg_commits :: "(lsn \<times> nat) list"
  lg_marks :: "(u64 \<times> nat) list"
  lg_window :: "window_entry list"
  lg_positive :: bool
  lg_ended :: bool

definition log_start :: run_log where
  "log_start = \<lparr>lg_stream = [], lg_load = [], lg_handled = [], lg_produced = [], lg_commits = [], lg_marks = [],
     lg_window = [], lg_positive = True, lg_ended = False\<rparr>"

fun produced_by ::
  "externs \<Rightarrow> rule_set \<Rightarrow> engine_settings \<Rightarrow> ((string \<times> string) \<rightharpoonup> json option) \<Rightarrow> row_change list \<Rightarrow> engine
   \<Rightarrow> document_op list" where
  "produced_by ext active cfg completions [] st = []"
| "produced_by ext active cfg completions (row # rows) st =
     (case row_ops ext active completions row st of
        Inl e \<Rightarrow> []
      | Inr ops \<Rightarrow>
          map op_doc ops @ (case process_row ext active cfg completions row st of
            Inl e \<Rightarrow> [] | Inr st' \<Rightarrow> produced_by ext active cfg completions rows st'))"

definition log_ops :: "bool \<Rightarrow> document_op list \<Rightarrow> run_log \<Rightarrow> run_log" where
  "log_ops load_running ops log =
     log\<lparr>lg_produced := lg_produced log @ ops,
         lg_window := lg_window log @ map (\<lambda>op. Produced op load_running) ops\<rparr>"

definition clears :: "rule_set \<Rightarrow> string \<Rightarrow> string \<Rightarrow> u64 option \<Rightarrow> engine \<Rightarrow> window_entry list" where
  "clears active schema tab version st =
     (case (target_for (rs_mapping active) (schema, tab), version) of
        (Some target, Some v) \<Rightarrow>
          if en_load_running st \<and> r_joins (rs_rules active) (schema, tab) = None
             \<and> \<not> is_shared (rs_mapping active) (target_pattern target)
          then [ClearedIndex (target_pattern target) v] else []
      | _ \<Rightarrow> [])"

definition log_event ::
  "externs \<Rightarrow> rule_set \<Rightarrow> engine_settings \<Rightarrow> outside \<Rightarrow> change_event \<Rightarrow> engine \<Rightarrow> run_log \<Rightarrow> run_log" where
  "log_event ext active cfg out ev st log = (case ev of
       Row row \<Rightarrow>
         (let (rows, st) = gather (ou_held out) (es_batch_size cfg - 1) [row] st;
              log = log\<lparr>lg_handled := lg_handled log @ map Row rows\<rparr>
          in case fetch_completions ext rows (rs_mapping active) (ou_documents out) (rs_rules active) of
               Inl e \<Rightarrow> log
             | Inr completions \<Rightarrow> log_ops (en_load_running st) (produced_by ext active cfg completions rows st) log)
     | _ \<Rightarrow>
         (let log = log\<lparr>lg_handled := lg_handled log @ [ev]\<rparr>
          in case ev of
               Transaction (Commit l _) \<Rightarrow>
                 if l = Lsn 0 then log else log\<lparr>lg_commits := lg_commits log @ [(l, length (lg_produced log))]\<rparr>
             | LoadMark mark \<Rightarrow> log\<lparr>lg_marks := lg_marks log @ [(mark, length (lg_produced log))], lg_window := []\<rparr>
             | LoadFinished \<Rightarrow> log\<lparr>lg_window := []\<rparr>
             | TableTruncated schema tab version \<Rightarrow>
                 log\<lparr>lg_window := lg_window log @ clears active schema tab version st\<rparr>
             | _ \<Rightarrow> log))
     \<lparr>lg_positive := (lg_positive log \<and> 0 < es_batch_size cfg \<and> 0 < es_batch_max_bytes cfg)\<rparr>"

inductive engine_run :: "externs \<Rightarrow> engine \<Rightarrow> run_log \<Rightarrow> bool" for ext where
  start: "engine_run ext engine_start log_start"
| stream_event: "engine_run ext st log \<Longrightarrow>
    engine_run ext (st\<lparr>en_events := en_events st @ [ev]\<rparr>) (log\<lparr>lg_stream := lg_stream log @ [ev]\<rparr>)"
| copy_event: "engine_run ext st log \<Longrightarrow>
    engine_run ext (st\<lparr>en_copy := en_copy st @ [ev]\<rparr>) (log\<lparr>lg_load := lg_load log @ [ev]\<rparr>)"
| copy_close: "engine_run ext st log \<Longrightarrow> \<not> lg_ended log \<Longrightarrow> en_deferred st = None \<Longrightarrow> en_copy st = [] \<Longrightarrow>
    engine_run ext (copy_closed st) (log\<lparr>lg_window := []\<rparr>)"
| turn: "engine_run ext st log \<Longrightarrow> \<not> lg_ended log \<Longrightarrow> next_event st = (Some ev, st1) \<Longrightarrow>
    handle ext active cfg out ev st1 = Inr st2 \<Longrightarrow> engine_run ext st2 (log_event ext active cfg out ev st1 log)"
| failed: "engine_run ext st log \<Longrightarrow> \<not> lg_ended log \<Longrightarrow> next_event st = (Some ev, st1) \<Longrightarrow>
    handle ext active cfg out ev st1 = Inl (e, st2) \<Longrightarrow>
    engine_run ext st2 ((log_event ext active cfg out ev st1 log)\<lparr>lg_ended := True\<rparr>)"
| shutdown: "engine_run ext st log \<Longrightarrow> engine_run ext st (log\<lparr>lg_ended := True\<rparr>)"

subsection \<open>The commands\<close>

fun command_ops :: "sink_command \<Rightarrow> lsn_op list" where
  "command_ops (Write batch) = batch"
| "command_ops _ = []"

definition written :: "sink_command list \<Rightarrow> lsn_op list" where
  "written cs = concat (map command_ops cs)"

text \<open>Each command with the number of operations handed over before it.\<close>

fun scan :: "nat \<Rightarrow> sink_command list \<Rightarrow> (nat \<times> sink_command) list" where
  "scan n [] = []"
| "scan n (c # cs) = (n, c) # scan (n + length (command_ops c)) cs"

lemma written_simps [simp]:
  "written [] = []" "written (c # cs) = command_ops c @ written cs" "written (cs @ ds) = written cs @ written ds"
  by (simp_all add: written_def)

lemma scan_append: "scan n (cs @ ds) = scan n cs @ scan (n + length (written cs)) ds"
  by (induction n cs rule: scan.induct) (simp_all add: add.assoc)

abbreviation all_ops :: "engine \<Rightarrow> lsn_op list" where
  "all_ops st \<equiv> written (en_sent st) @ en_buffer st"

text \<open>Every stamped operation is the last one produced before the commit it is stamped with.\<close>

definition stamped :: "(lsn \<times> nat) list \<Rightarrow> lsn_op list \<Rightarrow> bool" where
  "stamped commits ops \<longleftrightarrow>
     (\<forall>i < length ops. op_lsn (ops ! i) \<noteq> Lsn 0 \<longrightarrow> (op_lsn (ops ! i), Suc i) \<in> set commits)"

definition positions_ok :: "(lsn \<times> nat) list \<Rightarrow> sink_command list \<Rightarrow> bool" where
  "positions_ok commits sent \<longleftrightarrow> (\<forall>n l. (n, Position l) \<in> set (scan 0 sent) \<longrightarrow> (l, n) \<in> set commits)"

definition marks_ok :: "(u64 \<times> nat) list \<Rightarrow> sink_command list \<Rightarrow> bool" where
  "marks_ok marks sent \<longleftrightarrow> (\<forall>n m. (n, Mark m) \<in> set (scan 0 sent) \<longrightarrow> (\<exists>k \<le> n. (m, k) \<in> set marks))"

definition log_ok :: "engine \<Rightarrow> run_log \<Rightarrow> bool" where
  "log_ok st log \<longleftrightarrow>
     map op_doc (all_ops st) = lg_produced log \<and>
     stamped (lg_commits log) (all_ops st) \<and>
     positions_ok (lg_commits log) (en_sent st) \<and>
     marks_ok (lg_marks log) (en_sent st) \<and>
     (\<forall>m k. (m, k) \<in> set (lg_marks log) \<longrightarrow> k \<le> length (lg_produced log)) \<and>
     (\<forall>m. en_pending st = Some m \<longrightarrow> m \<in> fst ` set (lg_marks log))"

lemma stamped_append: "stamped cs ops \<Longrightarrow> \<forall>op \<in> set new. op_lsn op = Lsn 0 \<Longrightarrow> stamped cs (ops @ new)"
  by (auto simp: stamped_def nth_append)

lemma stamped_last: "stamped cs (ops @ [op]) \<Longrightarrow> (l, Suc (length ops)) \<in> set cs \<Longrightarrow> stamped cs (ops @ [op\<lparr>op_lsn := l\<rparr>])"
  by (auto simp: stamped_def nth_append less_Suc_eq)

lemma stamped_mono: "stamped cs ops \<Longrightarrow> set cs \<subseteq> set ds \<Longrightarrow> stamped ds ops"
  by (auto simp: stamped_def)

lemma positions_ok_mono: "positions_ok cs sent \<Longrightarrow> set cs \<subseteq> set ds \<Longrightarrow> positions_ok ds sent"
  by (auto simp: positions_ok_def)

lemma marks_ok_mono: "marks_ok ms sent \<Longrightarrow> set ms \<subseteq> set ns \<Longrightarrow> marks_ok ns sent"
  by (fastforce simp: marks_ok_def)

lemma positions_ok_snoc:
  "positions_ok cs (sent @ [c]) \<longleftrightarrow> positions_ok cs sent \<and> (\<forall>l. c = Position l \<longrightarrow> (l, length (written sent)) \<in> set cs)"
  by (auto simp: positions_ok_def scan_append)

lemma marks_ok_snoc:
  "marks_ok ms (sent @ [c]) \<longleftrightarrow> marks_ok ms sent \<and> (\<forall>m. c = Mark m \<longrightarrow> (\<exists>k \<le> length (written sent). (m, k) \<in> set ms))"
  by (auto simp: marks_ok_def scan_append)

lemma log_ok_len: "log_ok st log \<Longrightarrow> length (all_ops st) = length (lg_produced log)"
  by (metis length_map log_ok_def)

text \<open>The invariant reads the sent commands, the buffer and the pending mark, nothing else.\<close>

text \<open>Of the log it reads the operations, the commits and the marks.\<close>

lemma log_ok_log [simp]:
  "log_ok st (log\<lparr>lg_stream := xs\<rparr>) = log_ok st log" "log_ok st (log\<lparr>lg_load := xs\<rparr>) = log_ok st log"
  "log_ok st (log\<lparr>lg_handled := xs\<rparr>) = log_ok st log" "log_ok st (log\<lparr>lg_window := w\<rparr>) = log_ok st log"
  "log_ok st (log\<lparr>lg_ended := b\<rparr>) = log_ok st log" "log_ok st (log\<lparr>lg_positive := b\<rparr>) = log_ok st log" "log_ok st (log\<lparr>lg_handled := xs, lg_window := w\<rparr>) = log_ok st log"
  by (simp_all add: log_ok_def)

lemma log_ops_Nil [simp]: "log_ops b [] log = log"
  by (simp add: log_ops_def)

lemma log_ops_append: "log_ops b (xs @ ys) log = log_ops b ys (log_ops b xs log)"
  by (simp add: log_ops_def)

lemma log_ok_cong:
  "log_ok st log \<Longrightarrow> en_sent st' = en_sent st \<Longrightarrow> en_buffer st' = en_buffer st \<Longrightarrow> en_pending st' = en_pending st \<Longrightarrow>
   log_ok st' log"
  by (simp add: log_ok_def)

lemma log_ok_start: "log_ok engine_start log_start"
  by (simp add: log_ok_def engine_start_def log_start_def stamped_def positions_ok_def marks_ok_def)

lemma log_ok_flush: "log_ok st log \<Longrightarrow> log_ok (flush st) log"
  by (simp add: log_ok_def flush_def send_def positions_ok_snoc marks_ok_snoc)

lemma log_ok_send:
  assumes "log_ok st log" "command_ops c = []"
    and "\<And>l. c = Position l \<Longrightarrow> (l, length (written (en_sent st))) \<in> set (lg_commits log)"
    and "\<And>m. c = Mark m \<Longrightarrow> \<exists>k \<le> length (written (en_sent st)). (m, k) \<in> set (lg_marks log)"
  shows "log_ok (send c st) log"
  using assms by (simp add: log_ok_def send_def positions_ok_snoc marks_ok_snoc)

lemma stamp_last_snoc [simp]: "stamp_last l (ops @ [op]) = ops @ [op\<lparr>op_lsn := l\<rparr>]"
  by (simp add: stamp_last_def)

lemma log_ok_stamp:
  assumes "log_ok st log" "en_buffer st \<noteq> []" "(l, length (lg_produced log)) \<in> set (lg_commits log)"
  shows "log_ok (st\<lparr>en_buffer := stamp_last l (en_buffer st)\<rparr>) log"
proof -
  obtain ops op where b: "en_buffer st = ops @ [op]" using assms(2) by (cases "en_buffer st" rule: rev_cases) auto
  have len: "length (lg_produced log) = Suc (length (written (en_sent st) @ ops))"
    using log_ok_len [OF assms(1)] b by simp
  have "stamped (lg_commits log) ((written (en_sent st) @ ops) @ [op\<lparr>op_lsn := l\<rparr>])"
    by (rule stamped_last) (use assms(1,3) b len in \<open>simp_all add: log_ok_def\<close>)
  then show ?thesis using assms(1) b by (simp add: log_ok_def)
qed

lemma log_ok_append:
  assumes "log_ok st log" "\<forall>op \<in> set ops. op_lsn op = Lsn 0"
  shows "log_ok (st\<lparr>en_buffer := en_buffer st @ ops\<rparr>) (log_ops b (map op_doc ops) log)"
  using assms stamped_append [of "lg_commits log" "all_ops st" ops]
  by (auto simp: log_ok_def log_ops_def intro: trans_le_add1)

lemma log_ok_commit: "log_ok st log \<Longrightarrow> log_ok st (log\<lparr>lg_commits := lg_commits log @ cs\<rparr>)"
  by (auto simp: log_ok_def elim: stamped_mono positions_ok_mono)

lemma log_ok_mark:
  "log_ok st log \<Longrightarrow> log_ok st (log\<lparr>lg_marks := lg_marks log @ [(m, length (lg_produced log))], lg_window := W\<rparr>)"
  by (auto simp: log_ok_def elim: marks_ok_mono)

subsection \<open>Every handler keeps it\<close>

text \<open>Reading the channels changes none of what the invariant reads.\<close>

definition same_books :: "engine \<Rightarrow> engine \<Rightarrow> bool" where
  "same_books st st' \<longleftrightarrow> en_sent st' = en_sent st \<and> en_buffer st' = en_buffer st \<and> en_pending st' = en_pending st \<and>
     en_bytes st' = en_bytes st \<and> en_txn_open st' = en_txn_open st \<and> en_superseded st' = en_superseded st \<and>
     en_cleared st' = en_cleared st"

lemma same_books_log: "same_books st st' \<Longrightarrow> log_ok st log \<Longrightarrow> log_ok st' log"
  by (rule log_ok_cong) (auto simp: same_books_def)

lemma same_books_try_next: "try_next held st = (ev, st') \<Longrightarrow> same_books st st'"
  by (auto simp: try_next_def intake_try_recv_def took_def same_books_def
      split: list.splits if_splits change_event.splits)

lemma same_books_trans: "same_books a b \<Longrightarrow> same_books b c \<Longrightarrow> same_books a c"
  by (simp add: same_books_def)

lemma same_books_gather: "gather held k rows st = (rows', st') \<Longrightarrow> same_books st st'"
proof (induction k arbitrary: rows st)
  case (Suc k)
  obtain nxt st1 where t: "try_next (held k) st = (nxt, st1)" by fastforce
  note s = same_books_try_next [OF t]
  show ?case
  proof (cases nxt)
    case None
    with Suc.prems t s show ?thesis by simp
  next
    case (Some ev)
    show ?thesis
    proof (cases "\<exists>r. ev = Row r")
      case True
      with Some Suc.prems t Suc.IH [of _ st1] show ?thesis using same_books_trans [OF s] by auto
    next
      case False
      with Some Suc.prems t have "st' = st1\<lparr>en_deferred := Some ev\<rparr>" by (cases ev) auto
      with s show ?thesis by (simp add: same_books_def)
    qed
  qed
qed (simp add: same_books_def)

lemma same_books_next: "next_event st = (ev, st') \<Longrightarrow> same_books st st'"
  by (auto simp: next_event_def same_books_def split: option.splits dest!: same_books_try_next)

lemma log_ok_release: "log_ok st log \<Longrightarrow> log_ok (release_mark st) log"
proof -
  assume ok: "log_ok st log"
  show ?thesis
  proof (cases "en_buffer st = [] \<and> \<not> en_txn_open st \<and> en_pending st \<noteq> None")
    case True
    then obtain m where m: "en_pending st = Some m" by blast
    with ok obtain k where k: "(m, k) \<in> set (lg_marks log)" "k \<le> length (lg_produced log)"
      by (fastforce simp: log_ok_def)
    moreover have "length (lg_produced log) = length (written (en_sent st))"
      using log_ok_len [OF ok] True by simp
    moreover have "log_ok (st\<lparr>en_pending := None\<rparr>) log" using ok by (simp add: log_ok_def)
    ultimately have "log_ok (send (Mark m) (st\<lparr>en_pending := None\<rparr>)) log"
      by (intro log_ok_send) auto
    with True m show ?thesis by (simp add: release_mark_def)
  next
    case False
    then have "release_mark st = st" by (auto simp: release_mark_def)
    with ok show ?thesis by simp
  qed
qed

lemma log_ok_handle_commit:
  assumes ok: "log_ok st log"
  shows "log_ok (handle_commit out l st) (log_event ext active cfg out (Transaction (Commit l ts)) st log)"
proof -
  define log' where "log' = log_event ext active cfg out (Transaction (Commit l ts)) st log"
  have ok': "log_ok st log'"
    using ok log_ok_commit [of st "log\<lparr>lg_handled := lg_handled log @ [Transaction (Commit l ts)]\<rparr>"]
    by (simp add: log'_def log_event_def Let_def)
  have logged: "l \<noteq> Lsn 0 \<Longrightarrow> (l, length (lg_produced log')) \<in> set (lg_commits log')"
    by (simp add: log'_def log_event_def Let_def)
  define st0 where "st0 = (if l = Lsn 0 then st else st\<lparr>en_txn_open := False\<rparr>)"
  have ok0: "log_ok st0 log'" using ok' by (simp add: st0_def log_ok_def)
  define st1 where "st1 = (if l = Lsn 0 then st0 else st0\<lparr>en_buffer := stamp_last l (en_buffer st0)\<rparr>)"
  obtain nxt st2 where t: "try_next (ou_held out 0) st1 = (nxt, st2)" by fastforce
  define st3 where "st3 = (case nxt of Some ev \<Rightarrow> st2\<lparr>en_deferred := Some ev\<rparr> | None \<Rightarrow> st2)"
  have step: "handle_commit out l st = release_mark
      (if en_buffer st0 \<noteq> []
       then if nxt \<noteq> None \<and> \<not> (en_coalescing st3 \<and> ou_overdue out) then st3\<lparr>en_coalescing := True\<rparr>
            else flush (st3\<lparr>en_coalescing := False\<rparr>)
       else if l \<noteq> Lsn 0 then send (Position l) st0 else st0)"
    by (simp only: handle_commit_def Let_def st0_def [symmetric] st1_def [symmetric] t st3_def [symmetric] prod.case)
  have ok3: "log_ok st3 log'" if "en_buffer st0 \<noteq> []"
  proof -
    have "log_ok st1 log'" using log_ok_stamp [OF ok0 that] logged ok0 by (simp add: st1_def)
    from same_books_log [OF same_books_try_next [OF t] this] show ?thesis
      by (simp add: st3_def log_ok_def split: option.splits)
  qed
  have "log_ok (send (Position l) st0) log'" if "en_buffer st0 = []" "l \<noteq> Lsn 0"
    by (rule log_ok_send [OF ok0]) (use logged log_ok_len [OF ok0] that in auto)
  moreover have "log_ok (st3\<lparr>en_coalescing := True\<rparr>) log'" "log_ok (flush (st3\<lparr>en_coalescing := False\<rparr>)) log'"
    if "en_buffer st0 \<noteq> []"
    by (rule log_ok_cong [OF ok3 [OF that]]; simp) (rule log_ok_flush, rule log_ok_cong [OF ok3 [OF that]]; simp)
  ultimately show ?thesis unfolding step log'_def [symmetric] using ok0 by (auto intro!: log_ok_release)
qed

lemma log_ok_handle_mark:
  assumes ok: "log_ok st log"
  shows "log_ok (handle_mark mark st) (log_event ext active cfg out (LoadMark mark) st log)"
proof -
  define log' where "log' = log_event ext active cfg out (LoadMark mark) st log"
  define st0 where "st0 = st\<lparr>en_superseded := Map.empty, en_cleared := []\<rparr>"
  have logged: "(mark, length (lg_produced log')) \<in> set (lg_marks log')" by (simp add: log'_def log_event_def)
  have ok0: "log_ok st0 log'"
    using log_ok_mark [OF ok] by (simp add: log'_def log_event_def st0_def log_ok_def)
  have pend: "log_ok (st0\<lparr>en_pending := Some mark\<rparr>) log'" using ok0 logged by (force simp: log_ok_def)
  define st1 where "st1 = (if en_buffer st0 \<noteq> [] then flush (st0\<lparr>en_coalescing := False\<rparr>) else st0)"
  have "log_ok (flush (st0\<lparr>en_coalescing := False\<rparr>)) log'"
    by (rule log_ok_flush, rule log_ok_cong [OF ok0]; simp)
  with ok0 have ok1: "log_ok st1 log'" by (simp add: st1_def)
  have "en_buffer st1 = []" by (simp add: st1_def flush_def)
  then have "length (lg_produced log') = length (written (en_sent st1))" using log_ok_len [OF ok1] by simp
  with logged have "log_ok (send (Mark mark) st1) log'" by (intro log_ok_send [OF ok1]) auto
  with pend show ?thesis
    by (simp only: handle_mark_def Let_def st0_def [symmetric] st1_def [symmetric] log'_def [symmetric] split: if_splits)
       simp
qed

lemma row_ops_pending: "row_ops ext active completions row st = Inr ops \<Longrightarrow> \<forall>op \<in> set ops. op_lsn op = Lsn 0"
  by (auto simp: row_ops_def bindr_Inr_iff well_formed_ops_def split: option.splits dest!: materialize_ops)

lemma log_ok_take_ops:
  assumes "log_ok st log" "\<forall>op \<in> set ops. op_lsn op = Lsn 0"
  shows "log_ok (take_ops cfg ops st) (log_ops b (map op_doc ops) log)"
proof -
  let ?st = "st\<lparr>en_superseded := (if en_load_running st then fold (\<lambda>op. remember (op_doc op)) ops (en_superseded st) else en_superseded st),
    en_bytes := en_bytes st + sum_list (map op_size ops), en_buffer := en_buffer st @ ops\<rparr>"
  have ok: "log_ok ?st (log_ops b (map op_doc ops) log)"
    by (rule log_ok_cong [OF log_ok_append [OF assms]]) simp_all
  moreover have "take_ops cfg ops st = (if length (en_buffer ?st) \<ge> es_batch_size cfg \<or> en_bytes ?st \<ge> es_batch_max_bytes cfg
      then flush ?st else ?st)"
    by (simp add: take_ops_def Let_def)
  ultimately show ?thesis by (simp add: log_ok_flush)
qed

lemma log_ok_process_rows:
  assumes "log_ok st log" "process_rows ext active cfg completions rows st = r" "r = Inr st' \<or> (\<exists>e. r = Inl (e, st'))"
  shows "log_ok st' (log_ops b (produced_by ext active cfg completions rows st) log)"
  using assms
proof (induction rows arbitrary: st log)
  case (Cons row rows)
  show ?case
  proof (cases "row_ops ext active completions row st")
    case (Inl e)
    then have "target_for (rs_mapping active) (rc_schema row, rc_table row) \<noteq> None"
      by (auto simp: row_ops_def split: option.splits)
    with Inl Cons.prems show ?thesis by (auto simp: process_row_def)
  next
    case (Inr ops)
    note zero = row_ops_pending [OF Inr]
    show ?thesis
    proof (cases "target_for (rs_mapping active) (rc_schema row, rc_table row)")
      case None
      with Inr have "ops = []" by (simp add: row_ops_def)
      with None Inr Cons.IH [OF Cons.prems(1)] Cons.prems(2,3) show ?thesis by (auto simp: process_row_def)
    next
      case (Some target)
      with Inr have p: "process_row ext active cfg completions row st = Inr (take_ops cfg ops st)"
        by (simp add: process_row_def)
      from Cons.IH [OF log_ok_take_ops [OF Cons.prems(1) zero], of cfg] p Inr Cons.prems(2,3)
      show ?thesis by (simp add: log_ops_append)
    qed
  qed
qed auto

lemma log_ok_handle_rows:
  assumes "log_ok st log" "handle_rows ext active cfg out row st = r" "r = Inr st' \<or> (\<exists>e. r = Inl (e, st'))"
  shows "log_ok st' (log_event ext active cfg out (Row row) st log)"
proof -
  obtain rows st1 where g: "gather (ou_held out) (es_batch_size cfg - 1) [row] st = (rows, st1)" by fastforce
  have ok1: "log_ok st1 log" by (rule same_books_log [OF same_books_gather [OF g] assms(1)])
  show ?thesis
  proof (cases "fetch_completions ext rows (rs_mapping active) (ou_documents out) (rs_rules active)")
    case (Inl e)
    with assms(2,3) g ok1 show ?thesis by (auto simp: handle_rows_def log_event_def)
  next
    case (Inr completions)
    with assms(2) g have "process_rows ext active cfg completions rows st1 = r" by (simp add: handle_rows_def)
    moreover have "log_ok st1 (log\<lparr>lg_handled := lg_handled log @ map Row rows\<rparr>)" using ok1 by simp
    ultimately show ?thesis
      using log_ok_process_rows [OF _ _ assms(3)] Inr g by (simp add: log_event_def)
  qed
qed

lemma log_ok_handle_truncate:
  assumes ok: "log_ok st log"
  shows "log_ok (handle_truncate active schema tab version st) log"
proof -
  define st0 where "st0 = (if en_buffer st \<noteq> [] then flush st else st\<lparr>en_bytes := 0\<rparr>)"
  have "log_ok (st\<lparr>en_bytes := 0\<rparr>) log" by (rule log_ok_cong [OF ok]; simp)
  with log_ok_flush [OF ok] have ok0: "log_ok st0 log" by (simp add: st0_def)
  have "log_ok (send (Truncate i v scope) st0) log" for i v scope
    by (rule log_ok_send [OF ok0]) simp_all
  moreover have "log_ok (send (Truncate i v scope) (st0\<lparr>en_cleared := c\<rparr>)) log" for i v scope c
    by (rule log_ok_send [OF log_ok_cong [OF ok0]]) simp_all
  ultimately show ?thesis using ok
    by (simp only: handle_truncate_def Let_def st0_def [symmetric]) (auto split: option.splits)
qed

lemma log_ok_handle:
  assumes "log_ok st log" "handle ext active cfg out ev st = r" "r = Inr st' \<or> (\<exists>e. r = Inl (e, st'))"
  shows "log_ok st' (log_event ext active cfg out ev st log)"
proof (cases ev)
  case (Transaction b)
  show ?thesis
  proof (cases b)
    case (Begin l)
    with Transaction assms have "st' = st\<lparr>en_txn_open := True\<rparr>" by (auto simp: handle_def)
    with Transaction Begin assms(1) show ?thesis by (simp add: log_event_def log_ok_def)
  next
    case (Commit l ts)
    with Transaction assms have "st' = handle_commit out l st" by (auto simp: handle_def)
    with Transaction Commit log_ok_handle_commit [OF assms(1)] show ?thesis by simp
  qed
next
  case (Row row)
  with assms log_ok_handle_rows [OF assms(1), of ext active cfg out row r st'] show ?thesis by (simp add: handle_def)
next
  case (LoadMark m)
  with assms log_ok_handle_mark [OF assms(1)] show ?thesis by (auto simp: handle_def)
next
  case LoadFinished
  with assms show ?thesis by (auto simp: handle_def log_event_def log_ok_def)
next
  case (TableTruncated s t v)
  with assms log_ok_handle_truncate show ?thesis by (auto simp: handle_def log_event_def)
qed (use assms in \<open>auto simp: handle_def log_event_def\<close>)

lemma engine_run_log: "engine_run ext st log \<Longrightarrow> log_ok st log"
proof (induction rule: engine_run.induct)
  case start
  show ?case by (rule log_ok_start)
next
  case (turn st log ev st1 active cfg out st2)
  from log_ok_handle [OF same_books_log [OF same_books_next [OF turn(3)] turn.IH] turn(4)] show ?case by blast
next
  case (failed st log ev st1 active cfg out e st2)
  from log_ok_handle [OF same_books_log [OF same_books_next [OF failed(3)] failed.IH] failed(4)] show ?case by auto
next
  case (copy_close st log)
  then show ?case using log_ok_cong [of st log "copy_closed st"] by (simp add: copy_closed_def)
next
  case (stream_event st log ev)
  then show ?case using log_ok_cong [of st log "st\<lparr>en_events := en_events st @ [ev]\<rparr>"] by simp
next
  case (copy_event st log ev)
  then show ?case using log_ok_cong [of st log "st\<lparr>en_copy := en_copy st @ [ev]\<rparr>"] by simp
qed simp

end
