(* ===== verification/Engine_Safety.thy ===== *)
theory Engine_Safety
  imports Engine_Facts
begin

section \<open>Safety of the engine loop\<close>

text \<open>
  Two more invariants of the runs of \<^theory_text>\<open>Engine_Facts\<close>: the events handled so far, with the
  deferred one, are an interleaving of what was taken off the two channels, each in its own
  order; and the window the loop keeps against late copied rows says exactly what its history
  says. Then the properties of the loop, read off the three invariants, with concrete runs.
\<close>

subsection \<open>No event is dropped\<close>

definition opt_list :: "'a option \<Rightarrow> 'a list" where
  "opt_list x = (case x of None \<Rightarrow> [] | Some v \<Rightarrow> [v])"

lemma opt_list_simps [simp]: "opt_list None = []" "opt_list (Some v) = [v]"
  by (simp_all add: opt_list_def)

definition flow :: "engine \<Rightarrow> run_log \<Rightarrow> change_event list \<Rightarrow> bool" where
  "flow st log taken \<longleftrightarrow> (\<exists>ts tc. lg_stream log = ts @ en_events st \<and> lg_load log = tc @ en_copy st \<and> taken \<in> shuffles ts tc)"

lemma shuffles_snoc_left: "zs \<in> shuffles xs ys \<Longrightarrow> zs @ [x] \<in> shuffles (xs @ [x]) ys"
proof (induction zs arbitrary: xs ys)
  case (Cons z zs)
  then consider "xs \<noteq> []" "hd xs = z" "zs \<in> shuffles (tl xs) ys" | "ys \<noteq> []" "hd ys = z" "zs \<in> shuffles xs (tl ys)"
    by (auto simp: Cons_in_shuffles_iff)
  then show ?case
    by cases (use Cons.IH in \<open>auto simp: Cons_in_shuffles_iff\<close>)
qed (simp add: Cons_in_shuffles_iff)

lemma shuffles_snoc_right: "zs \<in> shuffles xs ys \<Longrightarrow> zs @ [y] \<in> shuffles xs (ys @ [y])"
  using shuffles_snoc_left [of zs ys xs y] by (simp add: shuffles_commutes)

lemma flow_try_next:
  assumes "flow st log taken" "try_next held st = (nxt, st')"
  shows "flow st' log (taken @ opt_list nxt) \<and> en_deferred st' = en_deferred st"
proof -
  obtain ts tc where f: "lg_stream log = ts @ en_events st" "lg_load log = tc @ en_copy st" "taken \<in> shuffles ts tc"
    using assms(1) by (auto simp: flow_def)
  consider ev rest where "en_events st = ev # rest" "nxt = Some ev" "st' = st\<lparr>en_events := rest\<rparr>"
    | "nxt = None" "st' = st"
    | ev rest where "en_copy st = ev # rest" "nxt = Some ev" "en_events st' = en_events st" "en_copy st' = rest"
        "en_deferred st' = en_deferred st"
    using assms(2) by (auto simp: try_next_def intake_try_recv_def took_def split: list.splits if_splits change_event.splits)
  then show ?thesis
  proof cases
    case 1
    with f have "lg_stream log = (ts @ [ev]) @ rest" "taken @ [ev] \<in> shuffles (ts @ [ev]) tc"
      by (simp_all add: shuffles_snoc_left)
    with 1 f(2) show ?thesis by (simp add: flow_def)
  next
    case 3
    with f have "lg_load log = (tc @ [ev]) @ rest" "taken @ [ev] \<in> shuffles ts (tc @ [ev])"
      by (simp_all add: shuffles_snoc_right)
    with 3 f(1) show ?thesis by (auto simp: flow_def)
  qed (use assms(1) in simp)
qed

lemma flow_defer [simp]: "flow (st\<lparr>en_deferred := x\<rparr>) log taken = flow st log taken"
  by (simp add: flow_def)

lemma flow_gather:
  "gather held k rows st = (rows', st') \<Longrightarrow> en_deferred st = None \<Longrightarrow> flow st log (taken @ map Row rows) \<Longrightarrow>
   flow st' log (taken @ map Row rows' @ opt_list (en_deferred st'))"
proof (induction k arbitrary: rows st)
  case (Suc k)
  obtain nxt st1 where t: "try_next (held k) st = (nxt, st1)" by fastforce
  note f = flow_try_next [OF Suc.prems(3) t]
  show ?case
  proof (cases "\<exists>r. nxt = Some (Row r)")
    case True
    then obtain r where r: "nxt = Some (Row r)" by blast
    with Suc.prems(1) t have "gather held k (rows @ [r]) st1 = (rows', st')" by simp
    from Suc.IH [OF this] f r Suc.prems(2) show ?thesis by simp
  next
    case False
    with Suc.prems(1,2) t f have "rows' = rows \<and> flow st' log (taken @ map Row rows @ opt_list nxt) \<and> en_deferred st' = nxt"
      by (auto split: option.splits change_event.splits)
    then show ?thesis by simp
  qed
qed simp

text \<open>Everything a handler does but reading the channels leaves them alone.\<close>

definition same_queues :: "engine \<Rightarrow> engine \<Rightarrow> bool" where
  "same_queues st st' \<longleftrightarrow> en_events st' = en_events st \<and> en_copy st' = en_copy st \<and> en_deferred st' = en_deferred st \<and>
     en_load_running st' = en_load_running st"

lemma same_queues_simps [simp]:
  "same_queues st st" "same_queues st (flush st') = same_queues st st'" "same_queues st (send c st') = same_queues st st'"
  "same_queues st (st'\<lparr>en_buffer := b\<rparr>) = same_queues st st'" "same_queues st (st'\<lparr>en_bytes := n\<rparr>) = same_queues st st'"
  "same_queues st (st'\<lparr>en_superseded := s\<rparr>) = same_queues st st'" "same_queues st (st'\<lparr>en_cleared := c'\<rparr>) = same_queues st st'"
  "same_queues st (st'\<lparr>en_pending := m\<rparr>) = same_queues st st'" "same_queues st (st'\<lparr>en_coalescing := k\<rparr>) = same_queues st st'"
  "same_queues st (st'\<lparr>en_txn_open := t\<rparr>) = same_queues st st'"
  by (simp_all add: same_queues_def flush_def send_def)

lemma same_queues_trans: "same_queues a b \<Longrightarrow> same_queues b c \<Longrightarrow> same_queues a c"
  by (simp add: same_queues_def)

lemma same_queues_flow: "same_queues st st' \<Longrightarrow> flow st log taken \<Longrightarrow> flow st' log taken"
  by (simp add: same_queues_def flow_def)

lemma same_queues_release: "same_queues st (release_mark st)"
  by (simp add: release_mark_def split: option.splits)

lemma same_queues_take_ops: "same_queues st (take_ops cfg ops st)"
  by (simp add: take_ops_def Let_def)

lemma same_queues_process_rows:
  "process_rows ext active cfg completions rows st = r \<Longrightarrow> r = Inr st' \<or> (\<exists>e. r = Inl (e, st')) \<Longrightarrow> same_queues st st'"
proof (induction rows arbitrary: st)
  case (Cons row rows)
  show ?case
  proof (cases "process_row ext active cfg completions row st")
    case (Inr st1)
    then have "same_queues st st1" by (auto simp: process_row_def bindr_Inr_iff same_queues_take_ops split: if_splits)
    with Cons.IH [of st1] Cons.prems Inr show ?thesis by (auto intro: same_queues_trans)
  qed (use Cons.prems in auto)
qed auto

lemma same_queues_truncate: "same_queues st (handle_truncate active schema tab version st)"
  by (simp add: handle_truncate_def Let_def split: option.splits)

lemma same_queues_mark: "same_queues st (handle_mark mark st)"
  by (simp add: handle_mark_def Let_def)

lemma flow_handle_commit:
  assumes "flow st log taken" "en_deferred st = None"
  shows "flow (handle_commit out l st) log (taken @ opt_list (en_deferred (handle_commit out l st)))"
proof -
  define st0 where "st0 = (if l = Lsn 0 then st else st\<lparr>en_txn_open := False\<rparr>)"
  define st1 where "st1 = (if l = Lsn 0 then st0 else st0\<lparr>en_buffer := stamp_last l (en_buffer st0)\<rparr>)"
  have same: "same_queues st st0" "same_queues st st1" by (simp_all add: st0_def st1_def)
  obtain nxt st2 where t: "try_next (ou_held out 0) st1 = (nxt, st2)" by fastforce
  define st3 where "st3 = (case nxt of Some ev \<Rightarrow> st2\<lparr>en_deferred := Some ev\<rparr> | None \<Rightarrow> st2)"
  have f3: "flow st3 log (taken @ opt_list (en_deferred st3))" "flow st0 log (taken @ opt_list (en_deferred st0))"
    using flow_try_next [OF same_queues_flow [OF same(2) assms(1)] t] same_queues_flow [OF same(1) assms(1)] assms(2) same
    by (auto simp: st3_def same_queues_def split: option.splits)
  have step: "handle_commit out l st = release_mark
      (if en_buffer st0 \<noteq> []
       then if nxt \<noteq> None \<and> \<not> (en_coalescing st3 \<and> ou_overdue out) then st3\<lparr>en_coalescing := True\<rparr>
            else flush (st3\<lparr>en_coalescing := False\<rparr>)
       else if l \<noteq> Lsn 0 then send (Position l) st0 else st0)"
    by (simp only: handle_commit_def Let_def st0_def [symmetric] st1_def [symmetric] t st3_def [symmetric] prod.case)
  have "same_queues st3 (handle_commit out l st) \<or> same_queues st0 (handle_commit out l st)"
    unfolding step using same_queues_trans [OF _ same_queues_release] by auto
  then show ?thesis using f3 same_queues_flow by (metis same_queues_def)
qed

lemma flow_log [simp]:
  "flow st (log\<lparr>lg_handled := h\<rparr>) taken = flow st log taken" "flow st (log\<lparr>lg_window := w\<rparr>) taken = flow st log taken"
  "flow st (log\<lparr>lg_ended := b\<rparr>) taken = flow st log taken" "flow st (log\<lparr>lg_commits := c\<rparr>) taken = flow st log taken"
  "flow st (log\<lparr>lg_marks := m\<rparr>) taken = flow st log taken" "flow st (log_ops r ops log) taken = flow st log taken"
  by (simp_all add: flow_def log_ops_def)

lemma flow_log_event [simp]: "flow st (log_event ext active cfg out ev st1 log) taken = flow st log taken"
  by (simp add: flow_def log_event_def log_ops_def Let_def split: change_event.split transaction_boundary.split prod.split sum.split)

lemma handled_log_event:
  "lg_handled (log_event ext active cfg out ev st log) = lg_handled log @
     (case ev of Row row \<Rightarrow> map Row (fst (gather (ou_held out) (es_batch_size cfg - 1) [row] st)) | _ \<Rightarrow> [ev])"
  by (simp add: log_event_def log_ops_def Let_def split: change_event.split transaction_boundary.split prod.split sum.split)

definition flow_ok :: "engine \<Rightarrow> run_log \<Rightarrow> bool" where
  "flow_ok st log \<longleftrightarrow> flow st log (lg_handled log @ opt_list (en_deferred st))"

lemma flow_handle:
  assumes "flow st log (lg_handled log @ [ev])" "en_deferred st = None"
    and "handle ext active cfg out ev st = r" "r = Inr st' \<or> (\<exists>e. r = Inl (e, st'))"
  shows "flow_ok st' (log_event ext active cfg out ev st log)"
proof (cases "\<exists>row. ev = Row row")
  case True
  then obtain row where ev: "ev = Row row" by blast
  obtain rows st1 where g: "gather (ou_held out) (es_batch_size cfg - 1) [row] st = (rows, st1)" by fastforce
  have f: "flow st1 log (lg_handled log @ map Row rows @ opt_list (en_deferred st1))"
    by (rule flow_gather [OF g assms(2)]) (use assms(1) ev in simp)
  from assms(3,4) g ev have same: "same_queues st1 st'"
    by (auto simp: handle_def handle_rows_def intro: same_queues_process_rows split: sum.splits)
  then have "en_deferred st' = en_deferred st1" by (simp add: same_queues_def)
  with g ev same_queues_flow [OF same f] show ?thesis
    by (simp add: flow_ok_def handled_log_event)
next
  case False
  then have h: "lg_handled (log_event ext active cfg out ev st log) = lg_handled log @ [ev]"
    by (simp add: handled_log_event split: change_event.splits)
  have "same_queues st st' \<or> (\<exists>l ts. ev = Transaction (Commit l ts) \<and> st' = handle_commit out l st)"
    using assms(3,4) False same_queues_mark same_queues_truncate
    by (auto simp: handle_def split: change_event.splits transaction_boundary.splits)
  then show ?thesis
  proof
    assume same: "same_queues st st'"
    with assms(1,2) h same_queues_flow [OF same assms(1)] show ?thesis by (simp add: flow_ok_def same_queues_def)
  next
    assume "\<exists>l ts. ev = Transaction (Commit l ts) \<and> st' = handle_commit out l st"
    with flow_handle_commit [OF assms(1,2)] h show ?thesis by (auto simp: flow_ok_def)
  qed
qed

lemma flow_next_event:
  "flow_ok st log \<Longrightarrow> next_event st = (Some ev, st1) \<Longrightarrow> flow st1 log (lg_handled log @ [ev]) \<and> en_deferred st1 = None"
  by (auto simp: flow_ok_def next_event_def split: option.splits dest: flow_try_next)

lemma engine_run_flow: "engine_run ext st log \<Longrightarrow> flow_ok st log"
proof (induction rule: engine_run.induct)
  case start
  show ?case by (simp add: flow_ok_def flow_def engine_start_def log_start_def)
next
  case (turn st log ev st1 active cfg out st2)
  with flow_next_event [OF turn.IH turn(3)] flow_handle show ?case by blast
next
  case (failed st log ev st1 active cfg out e st2)
  with flow_next_event [OF failed.IH failed(3)] flow_handle [of st1 log ev ext active cfg out "Inl (e, st2)" st2]
  show ?case by (auto simp: flow_ok_def)
qed (auto simp: flow_ok_def flow_def copy_closed_def)

subsection \<open>The window against late copied rows\<close>

text \<open>A versioned delete taken while a load runs outranks every older write of the same document,
  and a truncate every older write into an index it covers.\<close>

fun outranks :: "window_entry \<Rightarrow> window_entry \<Rightarrow> bool" where
  "outranks (Produced (OpDelete i d _ (Some v)) True) (Produced (OpUpsert i' d' _ _ (Some w) _) _) \<longleftrightarrow> i = i' \<and> d = d' \<and> w < v"
| "outranks (ClearedIndex pattern v) (Produced (OpUpsert i' _ _ _ (Some w) _) _) \<longleftrightarrow> w < v \<and> index_matches_pattern pattern i'"
| "outranks _ _ \<longleftrightarrow> False"

definition window_exact :: "engine \<Rightarrow> window_entry list \<Rightarrow> bool" where
  "window_exact st W \<longleftrightarrow>
     (\<forall>op b. superseded_by (en_superseded st) (en_cleared st) op = (\<exists>e \<in> set W. outranks e (Produced op b)))"

abbreviation window_sorted :: "window_entry list \<Rightarrow> bool" where
  "window_sorted W \<equiv> sorted_wrt (\<lambda>e x. \<not> outranks e x) W"

lemma remember_exact:
  "superseded_by (remember d seen) cl op \<longleftrightarrow> superseded_by seen cl op \<or> outranks (Produced d True) (Produced op b)"
  by (cases "(seen, cl, op)" rule: superseded_by.cases; cases "(d, seen)" rule: remember.cases)
     (auto simp: less_max_iff_disj is_some_and_def unwrap_or_def split: option.splits)

lemma remember_all_exact:
  "superseded_by (fold remember ds seen) cl op \<longleftrightarrow>
     superseded_by seen cl op \<or> (\<exists>d \<in> set ds. outranks (Produced d True) (Produced op b))"
proof (induction ds arbitrary: seen)
  case (Cons d ds)
  show ?case by (simp add: Cons.IH remember_exact [of d seen cl op b])
qed simp

lemma raise_floor_exact:
  "superseded_by seen (raise_floor pattern v cl) op \<longleftrightarrow>
     superseded_by seen cl op \<or> outranks (ClearedIndex pattern v) (Produced op b)"
proof (cases "(seen, cl, op)" rule: superseded_by.cases)
  case (1 s c index doc_id r j version p)
  have "list_ex (\<lambda>(pattern, at). at > version \<and> index_matches_pattern pattern index) (raise_floor pattern v cl) \<longleftrightarrow>
      list_ex (\<lambda>(pattern, at). at > version \<and> index_matches_pattern pattern index) cl \<or> v > version \<and> index_matches_pattern pattern index"
    by (induction pattern v cl rule: raise_floor.induct) (auto simp: less_max_iff_disj)
  with 1 show ?thesis by auto
qed auto

lemma not_outranks_late [simp]: "\<not> outranks (Produced d False) e"
  by (cases "(Produced d False, e)" rule: outranks.cases) auto

lemma not_outranks_clear [simp]: "\<not> outranks e (ClearedIndex pattern v)"
  by (cases "(e, ClearedIndex pattern v)" rule: outranks.cases) auto

lemma not_outranks_write [simp]: "is_upsert d \<Longrightarrow> \<not> outranks (Produced d b) e"
  by (cases "(Produced d b, e)" rule: outranks.cases) auto

lemma not_outranks_delete [simp]: "\<not> is_upsert d \<Longrightarrow> \<not> outranks e (Produced d b)"
  by (cases "(e, Produced d b)" rule: outranks.cases) auto

lemma outranks_flag: "outranks e (Produced d b) = outranks e (Produced d b')"
  by (cases "(e, Produced d b)" rule: outranks.cases) auto

lemma sorted_writes_first:
  "\<forall>op \<in> set ups. is_upsert (op_doc op) \<Longrightarrow> \<forall>op \<in> set dels. \<not> is_upsert (op_doc op) \<Longrightarrow>
   window_sorted (map (\<lambda>op. Produced (op_doc op) b) (ups @ dels))"
proof (induction ups)
  case Nil
  then show ?case by (induction dels) auto
qed auto

lemma window_exact_cong:
  "window_exact st W \<Longrightarrow> en_superseded st' = en_superseded st \<Longrightarrow> en_cleared st' = en_cleared st \<Longrightarrow> window_exact st' W"
  by (simp add: window_exact_def)

text \<open>The writes of a row come before its deletes, so a row's own operations never outrank each other.\<close>

lemma row_ops_sorted:
  assumes "row_ops ext active completions row st = Inr ops"
  shows "window_sorted (map (\<lambda>op. Produced (op_doc op) b) ops)"
proof (cases "target_for (rs_mapping active) (rc_schema row, rc_table row)")
  case None
  with assms show ?thesis by (simp add: row_ops_def)
next
  case (Some target)
  with assms obtain all left where m: "materialize ext target (rc_schema row, rc_table row) (rc_kind row) (rs_rules active)
        (completions_for ext active completions row) (rc_version row) = Inr (all, left)"
    and ops: "ops = filter (\<lambda>op. \<not> superseded_by (en_superseded st) (en_cleared st) (op_doc op)) all"
    by (auto simp: row_ops_def bindr_Inr_iff)
  from materialize_ops [OF m] obtain ups dels where "all = ups @ dels" "\<forall>op \<in> set ups. is_upsert (op_doc op)"
    "\<forall>op \<in> set dels. \<not> is_upsert (op_doc op)"
    by (auto simp: well_formed_ops_def)
  with ops show ?thesis using sorted_writes_first [of "filter P ups" "filter P dels" for P] by auto
qed

lemma row_ops_alive:
  "row_ops ext active completions row st = Inr ops \<Longrightarrow> op \<in> set ops \<Longrightarrow>
   \<not> superseded_by (en_superseded st) (en_cleared st) (op_doc op)"
  by (auto simp: row_ops_def bindr_Inr_iff split: option.splits)

definition window_ok :: "engine \<Rightarrow> window_entry list \<Rightarrow> bool" where
  "window_ok st W \<longleftrightarrow> window_exact st W \<and> window_sorted W"

lemma window_take_ops:
  assumes ok: "window_ok st W" and ops: "row_ops ext active completions row st = Inr ops"
  shows "window_ok (take_ops cfg ops st) (W @ map (\<lambda>op. Produced op (en_load_running st)) (map op_doc ops))"
proof -
  let ?seen = "if en_load_running st then fold remember (map op_doc ops) (en_superseded st) else en_superseded st"
  have st': "en_superseded (take_ops cfg ops st) = ?seen" "en_cleared (take_ops cfg ops st) = en_cleared st"
    by (simp_all add: take_ops_def Let_def flush_def send_def fold_map comp_def)
  have "superseded_by ?seen (en_cleared st) op \<longleftrightarrow>
      (\<exists>e \<in> set (W @ map (\<lambda>op. Produced op (en_load_running st)) (map op_doc ops)). outranks e (Produced op b))" for op b
  proof -
    have "superseded_by (en_superseded st) (en_cleared st) op \<longleftrightarrow> (\<exists>e \<in> set W. outranks e (Produced op b))"
      using ok unfolding window_ok_def window_exact_def by blast
    then show ?thesis
      using remember_all_exact [of "map op_doc ops" "en_superseded st" "en_cleared st" op b] by (simp add: bex_Un)
  qed
  then have "window_exact (take_ops cfg ops st) (W @ map (\<lambda>op. Produced op (en_load_running st)) (map op_doc ops))"
    unfolding window_exact_def st' by blast
  moreover have "\<not> outranks e (Produced (op_doc op) b)" if "e \<in> set W" "op \<in> set ops" for e op b
    using that ok row_ops_alive [OF ops] unfolding window_ok_def window_exact_def by blast
  then have "window_sorted (W @ map (\<lambda>op. Produced op (en_load_running st)) (map op_doc ops))"
    using ok row_ops_sorted [OF ops] by (simp add: window_ok_def sorted_wrt_append comp_def)
  ultimately show ?thesis by (simp add: window_ok_def)
qed

lemma window_process_rows:
  assumes "window_ok st (lg_window log)" "process_rows ext active cfg completions rows st = r" "r = Inr st' \<or> (\<exists>e. r = Inl (e, st'))"
  shows "window_ok st' (lg_window (log_ops (en_load_running st) (produced_by ext active cfg completions rows st) log))"
  using assms
proof (induction rows arbitrary: st log)
  case (Cons row rows)
  show ?case
  proof (cases "row_ops ext active completions row st")
    case (Inl e)
    then have "target_for (rs_mapping active) (rc_schema row, rc_table row) \<noteq> None"
      by (auto simp: row_ops_def split: option.splits)
    with Inl Cons.prems show ?thesis by (auto simp: process_row_def)
  next
    case (Inr ops)
    show ?thesis
    proof (cases "target_for (rs_mapping active) (rc_schema row, rc_table row)")
      case None
      with Inr have "ops = []" by (simp add: row_ops_def)
      with None Inr Cons.IH [OF Cons.prems(1)] Cons.prems(2,3) show ?thesis by (auto simp: process_row_def)
    next
      case (Some target)
      with Inr have p: "process_row ext active cfg completions row st = Inr (take_ops cfg ops st)"
        by (simp add: process_row_def)
      have load: "en_load_running (take_ops cfg ops st) = en_load_running st"
        using same_queues_take_ops [of st cfg ops] by (simp add: same_queues_def)
      have "window_ok (take_ops cfg ops st) (lg_window (log_ops (en_load_running st) (map op_doc ops) log))"
        using window_take_ops [OF Cons.prems(1) Inr] by (simp add: log_ops_def)
      from Cons.IH [OF this] p Inr Cons.prems(2,3) show ?thesis by (simp add: log_ops_append load)
    qed
  qed
qed auto

lemma window_ok_cong:
  "window_ok st W \<Longrightarrow> en_superseded st' = en_superseded st \<Longrightarrow> en_cleared st' = en_cleared st \<Longrightarrow> window_ok st' W"
  by (simp add: window_ok_def window_exact_def)

lemma window_ok_empty: "en_superseded st = Map.empty \<Longrightarrow> en_cleared st = [] \<Longrightarrow> window_ok st []"
  unfolding window_ok_def window_exact_def
  by (auto elim!: superseded_by.elims)

lemma same_books_window: "same_books st st' \<Longrightarrow> window_ok st W \<Longrightarrow> window_ok st' W"
  by (rule window_ok_cong) (auto simp: same_books_def)

lemma window_handle_rows:
  assumes "window_ok st (lg_window log)" "handle_rows ext active cfg out row st = r" "r = Inr st' \<or> (\<exists>e. r = Inl (e, st'))"
  shows "window_ok st' (lg_window (log_event ext active cfg out (Row row) st log))"
proof -
  obtain rows st1 where g: "gather (ou_held out) (es_batch_size cfg - 1) [row] st = (rows, st1)" by fastforce
  have ok1: "window_ok st1 (lg_window (log\<lparr>lg_handled := lg_handled log @ map Row rows\<rparr>))"
    using same_books_window [OF same_books_gather [OF g] assms(1)] by simp
  show ?thesis
  proof (cases "fetch_completions ext rows (rs_mapping active) (ou_documents out) (rs_rules active)")
    case (Inl e)
    with assms(2,3) g ok1 show ?thesis by (auto simp: handle_rows_def log_event_def)
  next
    case (Inr completions)
    with assms(2) g have "process_rows ext active cfg completions rows st1 = r" by (simp add: handle_rows_def)
    from window_process_rows [OF ok1 this assms(3)] show ?thesis
      using Inr g by (simp add: log_event_def)
  qed
qed

lemma window_clear:
  assumes "window_ok st W" "en_superseded st' = en_superseded st" "en_cleared st' = raise_floor pattern v (en_cleared st)"
  shows "window_ok st' (W @ [ClearedIndex pattern v])"
proof -
  have "superseded_by (en_superseded st') (en_cleared st') op \<longleftrightarrow>
      (\<exists>e \<in> set (W @ [ClearedIndex pattern v]). outranks e (Produced op b))" for op b
  proof -
    have "superseded_by (en_superseded st) (en_cleared st) op \<longleftrightarrow> (\<exists>e \<in> set W. outranks e (Produced op b))"
      using assms(1) unfolding window_ok_def window_exact_def by blast
    then show ?thesis
      using raise_floor_exact [of "en_superseded st" pattern v "en_cleared st" op b] assms(2,3) by auto
  qed
  then show ?thesis using assms(1) unfolding window_ok_def window_exact_def sorted_wrt_append by auto
qed

lemma window_handle_truncate:
  assumes "window_ok st W"
  shows "window_ok (handle_truncate active schema tab version st) (W @ clears active schema tab version st)"
proof -
  let ?st = "handle_truncate active schema tab version st"
  have sup: "en_superseded ?st = en_superseded st"
    by (simp add: handle_truncate_def Let_def flush_def send_def split: option.splits)
  have run: "en_load_running (if en_buffer st \<noteq> [] then flush st else st\<lparr>en_bytes := 0\<rparr>) = en_load_running st"
    by (simp add: flush_def send_def)
  show ?thesis
  proof (cases "clears active schema tab version st")
    case Nil
    then have "en_cleared ?st = en_cleared st"
      by (auto simp: clears_def handle_truncate_def Let_def flush_def send_def split: option.splits if_splits)
    with Nil window_ok_cong [OF assms sup] show ?thesis by simp
  next
    case (Cons e es)
    then obtain pattern v where e: "clears active schema tab version st = [ClearedIndex pattern v]"
      "en_cleared ?st = raise_floor pattern v (en_cleared st)"
      by (auto simp: clears_def handle_truncate_def Let_def flush_def send_def split: option.splits if_splits)
    with window_clear [OF assms sup] show ?thesis by simp
  qed
qed

lemma handle_commit_window:
  "en_superseded (handle_commit out l st) = en_superseded st \<and> en_cleared (handle_commit out l st) = en_cleared st"
proof -
  define st1 where "st1 = (if l = Lsn 0 then st else st\<lparr>en_txn_open := False, en_buffer := stamp_last l (en_buffer st)\<rparr>)"
  obtain nxt st2 where t: "try_next (ou_held out 0) st1 = (nxt, st2)" by fastforce
  have "en_superseded st2 = en_superseded st" "en_cleared st2 = en_cleared st"
    using same_books_try_next [OF t] by (simp_all add: same_books_def st1_def)
  then show ?thesis using t
    by (cases "l = Lsn 0"; cases nxt) (simp_all add: handle_commit_def Let_def st1_def release_mark_def flush_def send_def split: option.split)
qed

lemma window_handle:
  assumes "window_ok st (lg_window log)" "handle ext active cfg out ev st = r" "r = Inr st' \<or> (\<exists>e. r = Inl (e, st'))"
  shows "window_ok st' (lg_window (log_event ext active cfg out ev st log))"
proof (cases ev)
  case (Transaction b)
  with Transaction assms window_ok_cong [OF assms(1), of st'] show ?thesis
    by (cases b) (auto simp: handle_def log_event_def Let_def handle_commit_window)
next
  case (Row row)
  with assms window_handle_rows [OF assms(1), of ext active cfg out row r st'] show ?thesis by (simp add: handle_def)
next
  case (TableTruncated s t v)
  with assms window_handle_truncate [OF assms(1)] show ?thesis by (auto simp: handle_def log_event_def)
qed (use assms in \<open>auto simp: handle_def log_event_def handle_mark_def Let_def flush_def send_def intro!: window_ok_empty\<close>)

lemma engine_run_window: "engine_run ext st log \<Longrightarrow> window_ok st (lg_window log)"
proof (induction rule: engine_run.induct)
  case start
  show ?case by (simp add: window_ok_empty engine_start_def log_start_def)
next
  case (turn st log ev st1 active cfg out st2)
  from window_handle [OF same_books_window [OF same_books_next [OF turn(3)] turn.IH] turn(4)] show ?case by blast
next
  case (failed st log ev st1 active cfg out e st2)
  from window_handle [OF same_books_window [OF same_books_next [OF failed(3)] failed.IH] failed(4)] show ?case by auto
next
  case (copy_close st log)
  show ?case by (simp add: copy_closed_def window_ok_empty)
qed (auto intro: window_ok_cong)

subsection \<open>No empty batch\<close>

text \<open>The sinks refuse an empty batch as an error of the engine. The byte count is zero whenever
  the buffer is empty, which is what keeps the byte limit from flushing one.\<close>

definition batches_ok :: "engine \<Rightarrow> bool" where
  "batches_ok st \<longleftrightarrow> Write [] \<notin> set (en_sent st) \<and> (en_buffer st = [] \<longrightarrow> en_bytes st = 0)"

lemma batches_ok_simps [simp]:
  "batches_ok (st\<lparr>en_events := e\<rparr>) = batches_ok st" "batches_ok (st\<lparr>en_copy := e\<rparr>) = batches_ok st"
  "batches_ok (st\<lparr>en_deferred := d\<rparr>) = batches_ok st" "batches_ok (st\<lparr>en_coalescing := c\<rparr>) = batches_ok st"
  "batches_ok (st\<lparr>en_txn_open := t\<rparr>) = batches_ok st" "batches_ok (st\<lparr>en_pending := m\<rparr>) = batches_ok st"
  "batches_ok (st\<lparr>en_superseded := s\<rparr>) = batches_ok st" "batches_ok (st\<lparr>en_cleared := k\<rparr>) = batches_ok st"
  "batches_ok (send (Mark m') st) = batches_ok st" "batches_ok (send (Position l) st) = batches_ok st"
  "batches_ok (send (Truncate i v w) st) = batches_ok st"
  by (simp_all add: batches_ok_def send_def)

lemma batches_ok_flush: "batches_ok st \<Longrightarrow> en_buffer st \<noteq> [] \<Longrightarrow> batches_ok (flush st)"
  by (simp add: batches_ok_def flush_def send_def)

lemma batches_ok_release: "batches_ok st \<Longrightarrow> batches_ok (release_mark st)"
  by (simp add: release_mark_def split: option.split)

lemma stamp_last_Nil [simp]: "stamp_last l ops = [] \<longleftrightarrow> ops = []"
  by (simp add: stamp_last_def split: list.split)

lemma same_books_batches: "same_books st st' \<Longrightarrow> batches_ok st \<Longrightarrow> batches_ok st'"
  by (simp add: same_books_def batches_ok_def)

lemma batches_ok_commit:
  assumes "batches_ok st"
  shows "batches_ok (handle_commit out l st)"
proof -
  define st0 where "st0 = (if l = Lsn 0 then st else st\<lparr>en_txn_open := False\<rparr>)"
  define st1 where "st1 = (if l = Lsn 0 then st0 else st0\<lparr>en_buffer := stamp_last l (en_buffer st0)\<rparr>)"
  obtain nxt st2 where t: "try_next (ou_held out 0) st1 = (nxt, st2)" by fastforce
  define st3 where "st3 = (case nxt of Some ev \<Rightarrow> st2\<lparr>en_deferred := Some ev\<rparr> | None \<Rightarrow> st2)"
  have step: "handle_commit out l st = release_mark
      (if en_buffer st0 \<noteq> []
       then if nxt \<noteq> None \<and> \<not> (en_coalescing st3 \<and> ou_overdue out) then st3\<lparr>en_coalescing := True\<rparr>
            else flush (st3\<lparr>en_coalescing := False\<rparr>)
       else if l \<noteq> Lsn 0 then send (Position l) st0 else st0)"
    by (simp only: handle_commit_def Let_def st0_def [symmetric] st1_def [symmetric] t st3_def [symmetric] prod.case)
  have ok1: "batches_ok st0" "batches_ok st1" using assms by (auto simp: st0_def st1_def batches_ok_def)
  note same = same_books_try_next [OF t]
  have ok3: "batches_ok st3" using same_books_batches [OF same ok1(2)] by (simp add: st3_def split: option.split)
  have "en_buffer st3 = en_buffer st1" using same by (simp add: st3_def same_books_def split: option.split)
  then have "en_buffer st0 \<noteq> [] \<Longrightarrow> batches_ok (flush (st3\<lparr>en_coalescing := False\<rparr>))"
    using ok3 by (intro batches_ok_flush) (simp_all add: st1_def)
  with ok1 ok3 show ?thesis unfolding step by (auto intro: batches_ok_release)
qed

lemma batches_ok_take_ops:
  assumes "batches_ok st" "0 < es_batch_size cfg" "0 < es_batch_max_bytes cfg"
  shows "batches_ok (take_ops cfg ops st)"
proof -
  define st1 where "st1 = (if en_load_running st
      then st\<lparr>en_superseded := fold (\<lambda>op. remember (op_doc op)) ops (en_superseded st)\<rparr> else st)
      \<lparr>en_bytes := en_bytes st + sum_list (map op_size ops), en_buffer := en_buffer st @ ops\<rparr>"
  have ok: "batches_ok st1" using assms(1) by (auto simp: st1_def batches_ok_def)
  have "take_ops cfg ops st = (if es_batch_size cfg \<le> length (en_buffer st1) \<or> es_batch_max_bytes cfg \<le> en_bytes st1
      then flush st1 else st1)"
    by (auto simp: take_ops_def Let_def st1_def)
  moreover have "en_buffer st1 \<noteq> []" if "es_batch_size cfg \<le> length (en_buffer st1) \<or> es_batch_max_bytes cfg \<le> en_bytes st1"
    using that ok assms(2,3) by (auto simp: batches_ok_def)
  ultimately show ?thesis using ok by (auto intro: batches_ok_flush)
qed

lemma batches_ok_process_rows:
  assumes "0 < es_batch_size cfg" "0 < es_batch_max_bytes cfg"
  shows "batches_ok st \<Longrightarrow> process_rows ext active cfg completions rows st = r \<Longrightarrow> r = Inr st' \<or> (\<exists>e. r = Inl (e, st')) \<Longrightarrow>
    batches_ok st'"
proof (induction rows arbitrary: st)
  case (Cons row rows)
  show ?case
  proof (cases "process_row ext active cfg completions row st")
    case (Inr st1)
    then have "batches_ok st1"
      using Cons.prems(1) assms by (auto simp: process_row_def bindr_Inr_iff batches_ok_take_ops split: if_splits)
    with Cons.IH [of st1] Cons.prems(2,3) Inr show ?thesis by simp
  qed (use Cons.prems in auto)
qed auto

lemma batches_ok_handle:
  assumes "batches_ok st" "0 < es_batch_size cfg" "0 < es_batch_max_bytes cfg"
    and "handle ext active cfg out ev st = r" "r = Inr st' \<or> (\<exists>e. r = Inl (e, st'))"
  shows "batches_ok st'"
proof (cases ev)
  case (Transaction b)
  with assms show ?thesis by (cases b) (auto simp: handle_def batches_ok_commit)
next
  case (Row row)
  obtain rows st1 where g: "gather (ou_held out) (es_batch_size cfg - 1) [row] st = (rows, st1)" by fastforce
  have "batches_ok st1" by (rule same_books_batches [OF same_books_gather [OF g] assms(1)])
  with Row g assms(4,5) batches_ok_process_rows [OF assms(2,3)] show ?thesis
    by (auto simp: handle_def handle_rows_def split: sum.splits)
next
  case (LoadMark m)
  with assms show ?thesis by (auto simp: handle_def handle_mark_def Let_def batches_ok_flush)
next
  case (TableTruncated s t v)
  have "batches_ok (if en_buffer st \<noteq> [] then flush st else st\<lparr>en_bytes := 0\<rparr>)"
    using assms(1) by (auto simp: batches_ok_flush) (simp add: batches_ok_def)
  with TableTruncated assms show ?thesis by (auto simp: handle_def handle_truncate_def Let_def split: option.splits)
qed (use assms in \<open>auto simp: handle_def\<close>)

lemma log_event_positive:
  "lg_positive (log_event ext active cfg out ev st log) \<longleftrightarrow>
     lg_positive log \<and> 0 < es_batch_size cfg \<and> 0 < es_batch_max_bytes cfg"
  by (simp add: log_event_def)

lemma engine_run_batches: "engine_run ext st log \<Longrightarrow> lg_positive log \<Longrightarrow> batches_ok st"
proof (induction rule: engine_run.induct)
  case start
  show ?case by (simp add: batches_ok_def engine_start_def)
next
  case (turn st log ev st1 active cfg out st2)
  then have pos: "lg_positive log" "0 < es_batch_size cfg" "0 < es_batch_max_bytes cfg" by (simp_all add: log_event_positive)
  from batches_ok_handle [OF same_books_batches [OF same_books_next [OF turn(3)] turn.IH [OF pos(1)]] pos(2,3) turn(4)]
  show ?case by blast
next
  case (failed st log ev st1 active cfg out e st2)
  then have pos: "lg_positive log" "0 < es_batch_size cfg" "0 < es_batch_max_bytes cfg" by (simp_all add: log_event_positive)
  from batches_ok_handle [OF same_books_batches [OF same_books_next [OF failed(3)] failed.IH [OF pos(1)]] pos(2,3) failed(4)]
  show ?case by blast
qed (auto simp: copy_closed_def)

subsection \<open>Concrete runs\<close>

text \<open>A run given its arrivals: everything is waiting when the loop starts and the rules, the
  settings and the outside answers stay the same.\<close>

primrec run_turns ::
  "externs \<Rightarrow> rule_set \<Rightarrow> engine_settings \<Rightarrow> outside \<Rightarrow> nat \<Rightarrow> engine \<Rightarrow> run_log \<Rightarrow> engine \<times> run_log" where
  "run_turns ext active cfg out 0 st log = (st, log)"
| "run_turns ext active cfg out (Suc n) st log =
     (case next_event st of
        (None, _) \<Rightarrow> (st, log)
      | (Some ev, st1) \<Rightarrow>
          (case handle ext active cfg out ev st1 of
             Inr st2 \<Rightarrow> run_turns ext active cfg out n st2 (log_event ext active cfg out ev st1 log)
           | Inl (_, st2) \<Rightarrow> (st2, (log_event ext active cfg out ev st1 log)\<lparr>lg_ended := True\<rparr>)))"

lemma log_event_ended [simp]: "lg_ended (log_event ext active cfg out ev st log) = lg_ended log"
  by (simp add: log_event_def log_ops_def Let_def split: change_event.split transaction_boundary.split prod.split sum.split)

lemma engine_run_turns:
  "engine_run ext st log \<Longrightarrow> \<not> lg_ended log \<Longrightarrow> run_turns ext active cfg out n st log = (st', log') \<Longrightarrow> engine_run ext st' log'"
proof (induction n arbitrary: st log)
  case (Suc n)
  show ?case
  proof (cases "next_event st")
    case (Pair x st1)
    show ?thesis
    proof (cases x)
      case (Some ev)
      note step = engine_run.turn [OF Suc.prems(1,2) Pair [unfolded Some]]
        and stop = engine_run.failed [OF Suc.prems(1,2) Pair [unfolded Some]]
      show ?thesis
      proof (cases "handle ext active cfg out ev st1")
        case (Inl e)
        with stop Suc.prems(3) Pair Some show ?thesis by (cases e) auto
      next
        case (Inr st2)
        from Suc.IH [OF step [OF this]] Suc.prems(2,3) Pair Some Inr show ?thesis by simp
      qed
    qed (use Suc.prems Pair in simp)
  qed
qed simp

definition waiting :: "change_event list \<Rightarrow> change_event list \<Rightarrow> engine" where
  "waiting evs cs = engine_start\<lparr>en_events := evs, en_copy := cs\<rparr>"

definition arrived :: "change_event list \<Rightarrow> change_event list \<Rightarrow> run_log" where
  "arrived evs cs = log_start\<lparr>lg_stream := evs, lg_load := cs\<rparr>"

lemma engine_run_waiting: "engine_run ext (waiting evs cs) (arrived evs cs)"
proof -
  have *: "engine_run ext (waiting evs []) (arrived evs [])"
  proof (induction evs rule: rev_induct)
    case Nil
    show ?case using engine_run.start [of ext] by (simp add: waiting_def arrived_def engine_start_def log_start_def)
  next
    case (snoc ev evs)
    from engine_run.stream_event [OF this, of ev] show ?case by (simp add: waiting_def arrived_def engine_start_def log_start_def)
  qed
  show ?thesis
  proof (induction cs rule: rev_induct)
    case (snoc ev cs)
    from engine_run.copy_event [OF this, of ev] show ?case by (simp add: waiting_def arrived_def)
  qed (rule *)
qed

definition user_rules :: rule_set where
  "user_rules = \<lparr>rs_mapping = \<lparr>tm_map = [user_table \<mapsto> users], tm_shared = {}\<rparr>, rs_rules = no_rules\<rparr>"

definition small_batches :: engine_settings where
  "small_batches = \<lparr>es_batch_size = 3, es_batch_max_bytes = 1000000\<rparr>"

definition idle :: outside where
  "idle = \<lparr>ou_held = (\<lambda>_. False), ou_overdue = False, ou_documents = (\<lambda>_ _. Inr [])\<rparr>"

definition user_row :: "row_kind \<Rightarrow> u64 \<Rightarrow> change_event" where
  "user_row kind v = Row \<lparr>rc_schema = ''public'', rc_table = ''u'', rc_kind = kind, rc_version = Some v\<rparr>"

abbreviation user_saved :: "int \<Rightarrow> u64 \<Rightarrow> change_event" where
  "user_saved n v \<equiv> user_row (Insert (JNumber (NInt n)) (user n)) v"

abbreviation user_removed :: "int \<Rightarrow> u64 \<Rightarrow> change_event" where
  "user_removed n v \<equiv> user_row (Delete (JNumber (NInt n)) (Some (user n))) v"

abbreviation user_op :: "int \<Rightarrow> u64 \<Rightarrow> document_op" where
  "user_op n v \<equiv> OpUpsert ''users'' (show_int n) None (user n) (Some v) None"

abbreviation user_del :: "int \<Rightarrow> u64 \<Rightarrow> document_op" where
  "user_del n v \<equiv> OpDelete ''users'' (show_int n) None (Some v)"

lemma user_materialized [simp]:
  "materialize sample_externs users user_table (Insert (JNumber (NInt n)) (user n)) no_rules c (Some v) = Inr ([mk (user_op n v)], [])"
  "materialize sample_externs users user_table (Delete (JNumber (NInt n)) (Some (user n))) no_rules c (Some v) =
     Inr ([mk (user_del n v)], [])"
  by (auto simp: materialize_def no_rules_def filter_out_def materialize_insert_def materialize_delete_def derived_id_def
      pk_to_id_def sample_externs_def place_def shape_def place_one_def key_routing_def finish_def finish_one_def
      finish_doc_def projections_apply_def apply_except_def renames_apply_def flattens_apply_def constants_apply_def
      Let_def user_def)

lemma user_key [simp]: "completion_key ext (Insert pk d) r m t = None" "completion_key ext (Delete pk b) r m t = None"
  by (simp_all add: completion_key_def)

lemma show_int_one: "show_int 1 = ''1''"
  by code_simp

lemma user_sizes [simp]: "op_size (mk (user_op 1 v)) = 101" "op_size (mk (user_del 1 v)) = 70"
  by (simp_all add: op_size_def user_def OVERHEAD_def show_int_one)

lemma user_row_ops [simp]:
  "row_ops sample_externs user_rules c
     \<lparr>rc_schema = ''public'', rc_table = ''u'', rc_kind = Insert (JNumber (NInt n)) (user n), rc_version = Some v\<rparr> st =
     Inr (if superseded_by (en_superseded st) (en_cleared st) (user_op n v) then [] else [mk (user_op n v)])"
  "row_ops sample_externs user_rules c
     \<lparr>rc_schema = ''public'', rc_table = ''u'', rc_kind = Delete (JNumber (NInt n)) (Some (user n)), rc_version = Some v\<rparr> st =
     Inr [mk (user_del n v)]"
  by (simp_all add: row_ops_def user_rules_def target_for_def)

lemma user_target [simp]: "target_for (rs_mapping user_rules) user_table = Some users"
  by (simp add: user_rules_def target_for_def)

lemma small_batches_simps [simp]:
  "es_batch_size small_batches = Suc (Suc (Suc 0))" "es_batch_max_bytes small_batches = 1000000"
  by (simp_all add: small_batches_def)

lemmas run_simps = waiting_def arrived_def engine_start_def log_start_def next_event_def try_next_def intake_try_recv_def
  took_def handle_def handle_commit_def handle_mark_def handle_rows_def log_event_def log_ops_def release_mark_def flush_def
  send_def stamp_last_def process_row_def take_ops_def idle_def user_row_def fetch_completions_def Let_def

abbreviation user_turns :: "nat \<Rightarrow> change_event list \<Rightarrow> change_event list \<Rightarrow> engine \<times> run_log" where
  "user_turns n evs cs \<equiv> run_turns sample_externs user_rules small_batches idle n (waiting evs cs) (arrived evs cs)"

lemma user_run: "user_turns n evs cs = (st, log) \<Longrightarrow> engine_run sample_externs st log"
  by (rule engine_run_turns [OF engine_run_waiting]) (simp_all add: arrived_def log_start_def)

text \<open>A transaction of one row with a load mark behind it.\<close>

definition marked_run :: "engine \<times> run_log" where
  "marked_run = user_turns 4 [Transaction (Begin (Lsn 5)), user_saved 1 5, Transaction (Commit (Lsn 5) 0)] [LoadMark 7]"

lemma marked_run:
  obtains st log where "engine_run sample_externs st log"
    and "en_sent st = [Write [(mk (user_op 1 5))\<lparr>op_lsn := Lsn 5\<rparr>], Mark 7]" "en_buffer st = []" "en_deferred st = None"
    and "en_events st = []" "en_copy st = []" "lg_produced log = [user_op 1 5]" "lg_positive log"
proof -
  have four: "(4::nat) = Suc (Suc (Suc (Suc 0)))" by simp
  obtain st log where r: "marked_run = (st, log)" by (cases marked_run)
  then have "engine_run sample_externs st log" unfolding marked_run_def by (rule user_run)
  moreover have "en_sent st = [Write [(mk (user_op 1 5))\<lparr>op_lsn := Lsn 5\<rparr>], Mark 7] \<and> en_buffer st = [] \<and> en_deferred st = None \<and>
      en_events st = [] \<and> en_copy st = [] \<and> lg_produced log = [user_op 1 5] \<and> lg_positive log"
    using r unfolding marked_run_def four by (auto simp: run_simps)
  ultimately show ?thesis using that by blast
qed

text \<open>A streamed delete and, behind it, a copied row read before it.\<close>

lemma late_copy_run:
  obtains st log where "engine_run sample_externs st log" "lg_window log = [Produced (user_del 1 9) True]"
    "lg_handled log = [user_removed 1 9, user_saved 1 5]" "en_superseded st (''users'', show_int 1) = Some 9"
proof -
  obtain st log where r: "user_turns (Suc 0) [user_removed 1 9] [user_saved 1 5] = (st, log)" by fastforce
  from user_run [OF r] have "engine_run sample_externs st log" .
  moreover have "lg_window log = [Produced (user_del 1 9) True] \<and> lg_handled log = [user_removed 1 9, user_saved 1 5] \<and>
      en_superseded st (''users'', show_int 1) = Some 9"
    using r by (auto simp: run_simps)
  ultimately show ?thesis using that by blast
qed

subsection \<open>The properties\<close>

text \<open>C11. No event is dropped, doubled or reordered: what arrived on each channel is what was taken
  off it followed by what still waits, and the events handled so far, followed by the deferred
  one, are an interleaving of what was taken.\<close>

theorem engine_handles_every_event:
  assumes "engine_run ext st log"
  shows "\<exists>ts tc. lg_stream log = ts @ en_events st \<and> lg_load log = tc @ en_copy st \<and>
    lg_handled log @ opt_list (en_deferred st) \<in> shuffles ts tc"
  using engine_run_flow [OF assms] by (simp add: flow_ok_def flow_def)

theorem engine_handles_every_event_witness:
  "\<exists>st log. engine_run sample_externs st log \<and> lg_handled log = [user_removed 1 9, user_saved 1 5] \<and>
    (\<exists>ts tc. lg_stream log = ts @ en_events st \<and> lg_load log = tc @ en_copy st \<and>
      lg_handled log @ opt_list (en_deferred st) \<in> shuffles ts tc)"
proof -
  obtain st log where "engine_run sample_externs st log" "lg_handled log = [user_removed 1 9, user_saved 1 5]"
    by (rule late_copy_run)
  with engine_handles_every_event [of sample_externs st log] show ?thesis by blast
qed

text \<open>C5. The operations handed to the sink followed by the buffered ones are the operations the
  handled rows produced, each once and in the order they were produced, whatever the batches.\<close>

theorem engine_conserves_operations:
  assumes "engine_run ext st log"
  shows "map op_doc (written (en_sent st) @ en_buffer st) = lg_produced log"
  using engine_run_log [OF assms] by (simp add: log_ok_def)

theorem engine_conserves_operations_witness:
  "\<exists>st log. engine_run sample_externs st log \<and> lg_produced log = [user_op 1 5] \<and>
    map op_doc (written (en_sent st) @ en_buffer st) = [user_op 1 5]"
proof -
  obtain st log where "engine_run sample_externs st log" "lg_produced log = [user_op 1 5]" by (rule marked_run)
  with engine_conserves_operations [of sample_externs st log] show ?thesis by auto
qed

text \<open>The positions a command carries to the sink: the stamps of a batch, a bare position.\<close>

fun command_positions :: "sink_command \<Rightarrow> lsn list" where
  "command_positions (Write batch) = filter (\<lambda>l. l \<noteq> Lsn 0) (map op_lsn batch)"
| "command_positions (Position l) = [l]"
| "command_positions _ = []"

lemma produced_prefix:
  "log_ok st log \<Longrightarrow> en_sent st = before @ after \<Longrightarrow> n \<le> length (written before) \<Longrightarrow>
   map op_doc (take n (written before)) = take n (lg_produced log)"
  by (auto simp: log_ok_def dest!: sym [of "map op_doc _ @ _"] simp: take_map [symmetric])

lemma log_position:
  assumes ok: "log_ok st log" and sent: "en_sent st = before @ c # after" and l: "l \<in> set (command_positions c)"
  obtains n where "(l, n) \<in> set (lg_commits log)" "n \<le> length (written (before @ [c]))"
proof (cases c)
  case (Write batch)
  with l obtain i where i: "i < length batch" "op_lsn (batch ! i) = l" "l \<noteq> Lsn 0" by (auto simp: in_set_conv_nth)
  have "all_ops st ! (length (written before) + i) = batch ! i"
    using sent Write i(1) by (simp add: nth_append)
  moreover have "length (written before) + i < length (all_ops st)" using sent Write i(1) by simp
  moreover have "stamped (lg_commits log) (all_ops st)" using ok by (simp only: log_ok_def)
  ultimately have "(l, Suc (length (written before) + i)) \<in> set (lg_commits log)"
    using i unfolding stamped_def by metis
  with Write i(1) show ?thesis by (intro that [of "Suc (length (written before) + i)"]) auto
next
  case (Position p)
  with ok sent l have "(l, length (written before)) \<in> set (lg_commits log)"
    by (auto simp: log_ok_def positions_ok_def scan_append)
  with Position show ?thesis by (intro that) auto
qed (use l in auto)

text \<open>C4. A position is never handed to the sink before the work it stands for: whenever a command
  carries a position, the stream committed there, and every operation produced before that
  commit is in this command or an earlier one.\<close>

theorem engine_positions_cover_their_work:
  assumes "engine_run ext st log" "en_sent st = before @ c # after" "l \<in> set (command_positions c)"
  shows "\<exists>n. (l, n) \<in> set (lg_commits log) \<and> n \<le> length (written (before @ [c])) \<and>
    map op_doc (take n (written (before @ [c]))) = take n (lg_produced log)"
proof -
  note ok = engine_run_log [OF assms(1)]
  obtain n where "(l, n) \<in> set (lg_commits log)" "n \<le> length (written (before @ [c]))"
    by (rule log_position [OF ok assms(2,3)])
  with produced_prefix [OF ok, of "before @ [c]" after] assms(2) show ?thesis by auto
qed

theorem engine_positions_cover_their_work_witness:
  "\<exists>st log c after. engine_run sample_externs st log \<and> en_sent st = [] @ c # after \<and> Lsn 5 \<in> set (command_positions c) \<and>
    (\<exists>n. (Lsn 5, n) \<in> set (lg_commits log) \<and> map op_doc (take n (written ([] @ [c]))) = take n (lg_produced log))"
proof -
  obtain st log where run: "engine_run sample_externs st log"
    and sent: "en_sent st = [] @ Write [(mk (user_op 1 5))\<lparr>op_lsn := Lsn 5\<rparr>] # [Mark 7]"
    by (rule marked_run) simp
  have "Lsn 5 \<in> set (command_positions (Write [(mk (user_op 1 5))\<lparr>op_lsn := Lsn 5\<rparr>]))" by simp
  with engine_positions_cover_their_work [OF run sent] run sent show ?thesis by blast
qed

text \<open>A load mark is handed over only after every operation produced before it was asked for,
  so a load that waits for its mark never runs ahead of its own rows.\<close>

theorem engine_marks_follow_their_rows:
  assumes "engine_run ext st log" "en_sent st = before @ Mark m # after"
  shows "\<exists>k. (m, k) \<in> set (lg_marks log) \<and> k \<le> length (written before) \<and>
    map op_doc (take k (written before)) = take k (lg_produced log)"
proof -
  note ok = engine_run_log [OF assms(1)]
  have "(length (written before), Mark m) \<in> set (scan 0 (en_sent st))" using assms(2) by (simp add: scan_append)
  moreover have "marks_ok (lg_marks log) (en_sent st)" using ok by (simp only: log_ok_def)
  ultimately obtain k where "(m, k) \<in> set (lg_marks log)" "k \<le> length (written before)"
    unfolding marks_ok_def by blast
  with produced_prefix [OF ok assms(2)] show ?thesis by blast
qed

theorem engine_marks_follow_their_rows_witness:
  "\<exists>st log before. engine_run sample_externs st log \<and> en_sent st = before @ Mark 7 # [] \<and>
    (\<exists>k. (7, k) \<in> set (lg_marks log) \<and> k \<le> length (written before) \<and>
      map op_doc (take k (written before)) = take k (lg_produced log))"
proof -
  obtain st log where run: "engine_run sample_externs st log"
    and sent: "en_sent st = [Write [(mk (user_op 1 5))\<lparr>op_lsn := Lsn 5\<rparr>]] @ Mark 7 # []"
    by (rule marked_run) simp
  from engine_marks_follow_their_rows [OF run sent] run sent show ?thesis by blast
qed

text \<open>C6. While a load runs no write is taken that a delete or a truncate already taken outranks, and
  the two maps the loop keeps drop exactly the writes the history of the window outranks: a
  copied row never resurrects a document, and no other write is lost.\<close>

theorem engine_window_exact:
  assumes "engine_run ext st log"
  shows "sorted_wrt (\<lambda>e x. \<not> outranks e x) (lg_window log) \<and>
    (superseded_by (en_superseded st) (en_cleared st) op \<longleftrightarrow> (\<exists>e \<in> set (lg_window log). outranks e (Produced op b)))"
  using engine_run_window [OF assms] unfolding window_ok_def window_exact_def by blast

theorem engine_window_exact_witness:
  "\<exists>st log. engine_run sample_externs st log \<and> lg_window log = [Produced (user_del 1 9) True] \<and>
    superseded_by (en_superseded st) (en_cleared st) (user_op 1 5) \<and>
    \<not> superseded_by (en_superseded st) (en_cleared st) (user_op 1 9)"
proof -
  obtain st log where run: "engine_run sample_externs st log" and w: "lg_window log = [Produced (user_del 1 9) True]"
    by (rule late_copy_run)
  from engine_window_exact [OF run, of "user_op 1 5" True] engine_window_exact [OF run, of "user_op 1 9" True] run w
  show ?thesis by auto
qed

text \<open>With a batch size and a byte limit above zero the loop never hands the sink an empty batch,
  which every sink answers with an error that ends the pipeline.\<close>

theorem engine_sends_no_empty_batch:
  assumes "engine_run ext st log" "lg_positive log"
  shows "Write [] \<notin> set (en_sent st)"
  using engine_run_batches [OF assms] by (simp add: batches_ok_def)

theorem engine_sends_no_empty_batch_witness:
  "\<exists>st log. engine_run sample_externs st log \<and> lg_positive log \<and> en_sent st \<noteq> [] \<and> Write [] \<notin> set (en_sent st)"
proof -
  obtain st log where run: "engine_run sample_externs st log" "lg_positive log"
    and sent: "en_sent st = [Write [(mk (user_op 1 5))\<lparr>op_lsn := Lsn 5\<rparr>], Mark 7]"
    by (rule marked_run)
  from sent have "en_sent st \<noteq> []" by simp
  with run engine_sends_no_empty_batch [OF run] show ?thesis by blast
qed

subsection \<open>Where the loop and its comments part\<close>

text \<open>A boundary of the load flushes the buffer while a transaction of the stream is open, so the
  transaction reaches the target in two pieces.\<close>

lemma load_boundary_splits_transaction:
  "\<exists>st log. engine_run sample_externs st log \<and> en_txn_open st \<and> en_sent st = [Write [mk (user_op 1 5)]] \<and>
    lg_stream log = [Transaction (Begin (Lsn 5)), user_saved 1 5] \<and> lg_load log = [Transaction (Commit (Lsn 0) 0)]"
proof -
  obtain st log where r: "user_turns (Suc (Suc (Suc 0))) [Transaction (Begin (Lsn 5)), user_saved 1 5]
      [Transaction (Commit (Lsn 0) 0)] = (st, log)" by fastforce
  have "en_txn_open st \<and> en_sent st = [Write [mk (user_op 1 5)]] \<and>
    lg_stream log = [Transaction (Begin (Lsn 5)), user_saved 1 5] \<and> lg_load log = [Transaction (Commit (Lsn 0) 0)]"
    using r by (auto simp: run_simps)
  with user_run [OF r] show ?thesis by blast
qed

text \<open>A committed transaction whose commit found a load start waiting stays in the buffer when
  nothing follows: the window is looked at only by the next commit.\<close>

lemma coalesced_commit_waits:
  "\<exists>st log. engine_run sample_externs st log \<and> \<not> en_txn_open st \<and> en_sent st = [] \<and>
    en_buffer st = [(mk (user_op 1 5))\<lparr>op_lsn := Lsn 5\<rparr>] \<and> next_event st = (None, st)"
proof -
  obtain st log where r: "user_turns (Suc (Suc (Suc (Suc 0))))
      [Transaction (Begin (Lsn 5)), user_saved 1 5, Transaction (Commit (Lsn 5) 0)] [LoadStarted] = (st, log)" by fastforce
  have "\<not> en_txn_open st \<and> en_sent st = [] \<and>
    en_buffer st = [(mk (user_op 1 5))\<lparr>op_lsn := Lsn 5\<rparr>] \<and> next_event st = (None, st)"
    using r by (auto simp: run_simps)
  with user_run [OF r] show ?thesis by blast
qed

text \<open>A batch size of zero, which nothing refuses, sends an empty batch for a row whose write the
  window dropped.\<close>

lemma zero_batch_size_sends_empty_batch:
  "\<exists>st log. engine_run sample_externs st log \<and> Write [] \<in> set (en_sent st)"
proof -
  let ?cfg = "\<lparr>es_batch_size = 0, es_batch_max_bytes = 1000000\<rparr>"
  obtain st log where r: "run_turns sample_externs user_rules ?cfg idle (Suc (Suc 0))
      (waiting [user_removed 1 9] [user_saved 1 5]) (arrived [user_removed 1 9] [user_saved 1 5]) = (st, log)" by fastforce
  have "engine_run sample_externs st log"
    by (rule engine_run_turns [OF engine_run_waiting _ r]) (simp add: arrived_def log_start_def)
  moreover have "Write [] \<in> set (en_sent st)" using r by (auto simp: run_simps)
  ultimately show ?thesis by blast
qed

end
