(* ===== verification/Sink_Facts.thy ===== *)
theory Sink_Facts
  imports Sink_Loop Engine_Safety "HOL-Library.Sublist"
begin

section \<open>What an acknowledged position means\<close>

text \<open>
  The invariant of the sink task: the commands accounted for are a prefix of the commands sent,
  the acknowledged position was carried by one of them, every batch among them was answered and
  what it reports as refused is filed. The contract a sink has to keep is the locale \<open>batch_sink\<close>;
  the search sink is shown to keep it where it is defined.
\<close>

text \<open>The position a command reports once it is done.\<close>

fun carries :: "('w \<Rightarrow> lsn_op list \<Rightarrow> (core_error, sink_ack) result) \<Rightarrow> sink_command \<Rightarrow> lsn \<Rightarrow> bool" where
  "carries put (Position p) l \<longleftrightarrow> l = p"
| "carries put (Write batch) l \<longleftrightarrow> (\<exists>w ack. put w batch = Inr ack \<and> max_lsn ack = l)"
| "carries put _ l \<longleftrightarrow> False"

definition answered :: "('w \<Rightarrow> lsn_op list \<Rightarrow> (core_error, sink_ack) result) \<Rightarrow> rejection list \<Rightarrow> sink_command \<Rightarrow> bool" where
  "answered put filed c \<longleftrightarrow>
     (\<forall>batch. c = Write batch \<longrightarrow> (\<exists>w ack. put w batch = Inr ack \<and> set (rejected ack) \<subseteq> set filed))"

definition position_from :: "('w \<Rightarrow> lsn_op list \<Rightarrow> (core_error, sink_ack) result) \<Rightarrow> sink_command list \<Rightarrow> lsn option \<Rightarrow> bool" where
  "position_from put cs x \<longleftrightarrow> (\<forall>l. x = Some l \<longrightarrow> l \<noteq> Lsn 0 \<and> (\<exists>c \<in> set cs. carries put c l))"

definition acks_ok :: "('w \<Rightarrow> lsn_op list \<Rightarrow> (core_error, sink_ack) result) \<Rightarrow> sink_command list \<Rightarrow> acks \<Rightarrow> bool" where
  "acks_ok put cs ak \<longleftrightarrow> position_from put cs (ak_ack ak) \<and> ak_ckpt ak = ak_ack ak \<and>
     (\<forall>c \<in> set cs. answered put (ak_filed ak) c)"

lemma answered_mono: "answered put filed c \<Longrightarrow> set filed \<subseteq> set filed' \<Longrightarrow> answered put filed' c"
  unfolding answered_def by fastforce

lemma position_from_mono: "position_from put cs x \<Longrightarrow> set cs \<subseteq> set ds \<Longrightarrow> position_from put ds x"
  unfolding position_from_def by blast

lemma file_rejects_ok:
  "file_rejects cfg qe refused ak = Inr ak' \<Longrightarrow>
     ak_ack ak' = ak_ack ak \<and> ak_ckpt ak' = ak_ckpt ak \<and> set (ak_filed ak') = set (ak_filed ak) \<union> set refused"
  by (auto simp: file_rejects_def Let_def split: if_splits)

lemma file_rejects_halt:
  "file_rejects cfg qe refused ak = Inl ak' \<Longrightarrow>
     ak_ack ak' = ak_ack ak \<and> ak_ckpt ak' = ak_ckpt ak \<and> set (ak_filed ak) \<subseteq> set (ak_filed ak')"
  by (auto simp: file_rejects_def Let_def split: if_splits)

lemma acks_ok_halt: "acks_ok put cs ak \<Longrightarrow> file_rejects cfg qe refused ak = Inl ak' \<Longrightarrow> acks_ok put cs ak'"
  using file_rejects_halt [of cfg qe refused ak ak'] by (auto simp: acks_ok_def elim: answered_mono)

lemma lsn_pos_iff: "l > Lsn 0 \<longleftrightarrow> l \<noteq> Lsn 0"
  by (cases l) (simp add: word_neq_0_conv)

text \<open>One accounted command: the rejections of its answer are filed, and its position, when it has
  one, is the acknowledged one.\<close>

lemma acks_apply_ok:
  assumes ok: "acks_ok put cs ak" and step: "acks_apply cfg qe r ak = (okay, ak')"
    and from_c: "\<And>ack. r = Inr (Some ack) \<Longrightarrow>
      (max_lsn ack \<noteq> Lsn 0 \<longrightarrow> carries put c (max_lsn ack)) \<and> (\<forall>batch. c = Write batch \<longrightarrow> (\<exists>w. put w batch = Inr ack))"
    and write_c: "\<And>batch. c = Write batch \<Longrightarrow> r \<noteq> Inr None"
  shows "if okay then acks_ok put (cs @ [c]) ak' else acks_ok put cs ak'"
proof (cases r)
  case (Inl e)
  with step ok show ?thesis by (simp add: acks_apply_def)
next
  case (Inr x)
  show ?thesis
  proof (cases x)
    case None
    with Inr step have "ak' = ak" by (simp add: acks_apply_def)
    with ok write_c Inr None show ?thesis
      by (auto simp: acks_ok_def answered_def elim: position_from_mono)
  next
    case (Some ack)
    show ?thesis
    proof (cases "file_rejects cfg qe (rejected ack) ak")
      case (Inl ak1)
      with \<open>r = Inr x\<close> Some step acks_ok_halt [OF ok Inl] show ?thesis by (simp add: acks_apply_def)
    next
      case (Inr ak1)
      note f = file_rejects_ok [OF Inr]
      have base: "\<forall>d \<in> set cs. answered put (ak_filed ak1) d"
        using ok f by (auto simp: acks_ok_def elim!: answered_mono)
      have "answered put (ak_filed ak1) c"
        unfolding answered_def using from_c [of ack] f Some \<open>r = Inr x\<close> by (metis Un_upper2)
      moreover have ak': "okay" "ak' = (if max_lsn ack > Lsn 0
          then ak1\<lparr>ak_ack := Some (max_lsn ack), ak_ckpt := Some (max_lsn ack)\<rparr> else ak1)"
        using \<open>r = Inr x\<close> Some Inr step by (simp_all add: acks_apply_def)
      ultimately show ?thesis
        using base from_c [of ack] f ok Some \<open>r = Inr x\<close>
        by (auto simp: acks_ok_def position_from_def lsn_pos_iff)
    qed
  qed
qed

subsection \<open>The task\<close>

text \<open>\<open>pend\<close> is the command taken off the channel and not yet handled.\<close>

definition task_ok :: "('w \<Rightarrow> lsn_op list \<Rightarrow> (core_error, sink_ack) result) \<Rightarrow> sink_config \<Rightarrow> sink_command list \<Rightarrow> sink_command list \<Rightarrow> sink_task
   \<Rightarrow> bool" where
  "task_ok put cfg pend cs tk \<longleftrightarrow>
     (\<exists>rest. cs = tk_done tk @ map (Write \<circ> ow_batch) (tk_inflight tk) @ rest \<and> (\<not> tk_halted tk \<longrightarrow> rest = pend @ tk_commands tk)) \<and>
     (\<forall>w \<in> set (tk_inflight tk). answers put (ow_batch w) (ow_joined w)) \<and>
     acks_ok put (tk_done tk) (tk_acks tk) \<and>
     length (tk_inflight tk) \<le> max 1 (sc_concurrency cfg) \<and>
     (tk_load_done tk \<noteq> 0 \<longrightarrow> Mark (tk_load_done tk) \<in> set (tk_done tk))"

text \<open>The checkpoint side: what is durable is the token of the stored checkpoint, and it was
  acknowledged.\<close>

definition durable_ok :: "('w \<Rightarrow> lsn_op list \<Rightarrow> (core_error, sink_ack) result) \<Rightarrow> sink_task \<Rightarrow> bool" where
  "durable_ok put tk \<longleftrightarrow> position_from put (tk_done tk) (durable_load (tk_durable tk)) \<and>
     (case tk_stored tk of Some k \<Rightarrow> ckpt_token k = tk_durable tk | None \<Rightarrow> tk_durable tk = 0)"

lemma task_ok_halt: "task_ok put cfg pend cs tk \<Longrightarrow> task_ok put cfg pend cs (halt_task tk)"
  by (auto simp: task_ok_def halt_task_def)

lemma finish_write_ok:
  assumes "acks_ok put cs ak" "finish_write cfg w ak = (okay, ak')" "answers put (ow_batch w) (ow_joined w)"
  shows "if okay then acks_ok put (cs @ [Write (ow_batch w)]) ak' else acks_ok put cs ak'"
proof (cases "ow_joined w")
  case (Joined r)
  with assms(3) obtain v where r: "r = bindr (put v (ow_batch w)) (\<lambda>ack. Inr (Some ack))" by (auto simp: answers_def)
  show ?thesis
  proof (rule acks_apply_ok [OF assms(1)])
    show "acks_apply cfg (ow_quarantine w) r ak = (okay, ak')" using assms(2) Joined by (simp add: finish_write_def)
    show "(max_lsn ack \<noteq> Lsn 0 \<longrightarrow> carries put (Write (ow_batch w)) (max_lsn ack)) \<and>
        (\<forall>batch. Write (ow_batch w) = Write batch \<longrightarrow> (\<exists>w. put w batch = Inr ack))" if "r = Inr (Some ack)" for ack
      using that r by (auto simp: bindr_Inr_iff)
    show "r \<noteq> Inr None" using r by (auto simp: bindr_Inr_iff)
  qed
next
  case JoinError
  with assms(1,2) show ?thesis by (simp add: finish_write_def)
qed

text \<open>Taking the oldest write keeps the invariant whether it succeeds or not; what it leaves alone.\<close>

lemma take_one_ok:
  assumes ok: "task_ok put cfg pend cs tk" "\<not> tk_halted tk" and t: "take_one cfg tk = (okay, tk')"
  shows "(if okay then task_ok put cfg pend cs tk' else task_ok put cfg pend cs (halt_task tk')) \<and>
    tk_halted tk' = tk_halted tk \<and> tk_commands tk' = tk_commands tk \<and> tk_inflight tk' = tl (tk_inflight tk) \<and>
    set (tk_done tk) \<subseteq> set (tk_done tk') \<and> tk_stored tk' = tk_stored tk \<and> tk_durable tk' = tk_durable tk"
proof (cases "tk_inflight tk")
  case Nil
  with t ok show ?thesis by (auto simp: take_one_def)
next
  case (Cons w ws)
  obtain okay' ak where f: "finish_write cfg w (tk_acks tk) = (okay', ak)" by fastforce
  have "acks_ok put (tk_done tk) (tk_acks tk)" "answers put (ow_batch w) (ow_joined w)"
    using ok(1) Cons by (simp_all add: task_ok_def)
  note acks = finish_write_ok [OF this(1) f this(2)]
  have okay: "okay = okay'" using t Cons f by (auto simp: take_one_def split: bool.splits)
  show ?thesis
  proof (cases okay)
    case True
    then have tk': "tk' = tk\<lparr>tk_inflight := ws, tk_acks := ak, tk_done := tk_done tk @ [Write (ow_batch w)]\<rparr>"
      using t Cons f okay by (simp add: take_one_def)
    have "task_ok put cfg pend cs tk'"
      using ok acks True okay Cons unfolding tk' by (auto simp: task_ok_def)
    with True tk' Cons show ?thesis by auto
  next
    case False
    then have tk': "tk' = tk\<lparr>tk_inflight := ws, tk_acks := ak\<rparr>" using t Cons f okay by (simp add: take_one_def)
    have "task_ok put cfg pend cs (halt_task tk')"
      using ok acks False okay Cons unfolding tk' by (auto simp: task_ok_def halt_task_def)
    with False tk' Cons show ?thesis by auto
  qed
qed

lemma drain_open_ok:
  "task_ok put cfg pend cs tk \<Longrightarrow> \<not> tk_halted tk \<Longrightarrow> drain_open cfg n tk = (okay, tk') \<Longrightarrow>
   (if okay then task_ok put cfg pend cs tk' else task_ok put cfg pend cs (halt_task tk')) \<and>
   tk_halted tk' = tk_halted tk \<and> tk_commands tk' = tk_commands tk \<and> (okay \<longrightarrow> tk_inflight tk' = drop n (tk_inflight tk)) \<and>
   set (tk_done tk) \<subseteq> set (tk_done tk') \<and> tk_stored tk' = tk_stored tk \<and> tk_durable tk' = tk_durable tk"
proof (induction n arbitrary: tk)
  case (Suc n)
  obtain okay1 tk1 where t: "take_one cfg tk = (okay1, tk1)" by fastforce
  note s = take_one_ok [OF Suc.prems(1,2) t]
  show ?case
  proof (cases okay1)
    case True
    with Suc.prems(3) t have "drain_open cfg n tk1 = (okay, tk')" by simp
    from Suc.IH [OF _ _ this] s True Suc.prems(2) show ?thesis by (auto simp: drop_Suc)
  next
    case False
    with Suc.prems(3) t s show ?thesis by auto
  qed
qed auto

lemma drain_task_ok:
  assumes "task_ok put cfg pend cs tk" "\<not> tk_halted tk" "drain_task cfg tk = (okay, tk')"
  shows "(if okay then task_ok put cfg pend cs tk' \<and> tk_inflight tk' = [] else task_ok put cfg pend cs (halt_task tk')) \<and>
   tk_halted tk' = tk_halted tk \<and> tk_commands tk' = tk_commands tk \<and>
   set (tk_done tk) \<subseteq> set (tk_done tk') \<and> tk_stored tk' = tk_stored tk \<and> tk_durable tk' = tk_durable tk"
  using drain_open_ok [OF assms(1,2)] assms(3) unfolding drain_task_def by fastforce

lemma settle_ok:
  assumes ok: "task_ok put cfg [c] cs tk" "\<not> tk_halted tk" "tk_inflight tk = []"
    and from_c: "\<And>ack. r = Inr (Some ack) \<Longrightarrow> max_lsn ack \<noteq> Lsn 0 \<longrightarrow> carries put c (max_lsn ack)"
    and not_write: "\<And>batch. c \<noteq> Write batch"
  shows "task_ok put cfg [] cs (settle cfg c r tk)"
proof -
  obtain okay ak where a: "acks_apply cfg None r (tk_acks tk) = (okay, ak)" by fastforce
  have "if okay then acks_ok put (tk_done tk @ [c]) ak else acks_ok put (tk_done tk) ak"
    by (rule acks_apply_ok [OF _ a]) (use ok(1) from_c not_write in \<open>auto simp: task_ok_def\<close>)
  then show ?thesis using ok a by (cases okay) (auto simp: settle_def task_ok_def halt_task_def)
qed

lemma settle_keeps [simp]:
  "tk_stored (settle cfg c r tk) = tk_stored tk" "tk_durable (settle cfg c r tk) = tk_durable tk"
  by (auto simp: settle_def halt_task_def split: prod.splits bool.splits)

lemma settle_done: "d \<in> set (tk_done tk) \<Longrightarrow> d \<in> set (tk_done (settle cfg c r tk))"
  by (auto simp: settle_def halt_task_def split: prod.splits bool.splits)

lemma handle_command_ok:
  assumes ok: "task_ok put cfg [c] cs tk" "\<not> tk_halted tk" "length (tk_inflight tk) < max 1 (sc_concurrency cfg)"
    and ans: "\<And>batch. c = Write batch \<Longrightarrow> answers put batch (ca_joined ans)"
  shows "task_ok put cfg [] cs (handle_command cfg ans c tk) \<and> set (tk_done tk) \<subseteq> set (tk_done (handle_command cfg ans c tk)) \<and>
    tk_stored (handle_command cfg ans c tk) = tk_stored tk \<and> tk_durable (handle_command cfg ans c tk) = tk_durable tk"
proof (cases "\<exists>batch. c = Write batch")
  case True
  with ok ans show ?thesis by (auto simp: handle_command_def task_ok_def)
next
  case False
  obtain okay tk1 where d: "drain_task cfg tk = (okay, tk1)" by fastforce
  note s = drain_task_ok [OF ok(1,2) d]
  show ?thesis
  proof (cases okay)
    case False
    with \<open>\<nexists>batch. c = Write batch\<close> d have "handle_command cfg ans c tk = halt_task tk1"
      by (simp add: handle_command_def split: sink_command.splits)
    with s False show ?thesis by (auto simp: halt_task_def task_ok_def)
  next
    case True
    with s ok(2) have ok1: "task_ok put cfg [c] cs tk1" "\<not> tk_halted tk1" "tk_inflight tk1 = []" by auto
    show ?thesis
    proof (cases c)
      case (Write batch)
      with \<open>\<nexists>batch. c = Write batch\<close> show ?thesis by blast
    next
      case (Truncate i v scope)
      have "task_ok put cfg [] cs (settle cfg c (bindr (ca_truncate ans) (\<lambda>_. Inr None)) tk1)"
        by (rule settle_ok [OF ok1]) (auto simp: bindr_Inr_iff Truncate)
      with Truncate True d s show ?thesis by (auto simp: handle_command_def intro!: settle_done)
    next
      case (Mark m)
      have "handle_command cfg ans c tk = tk1\<lparr>tk_load_done := m, tk_done := tk_done tk1 @ [c]\<rparr>"
        using True d Mark by (simp add: handle_command_def settle_def acks_apply_def)
      moreover have "task_ok put cfg [] cs (tk1\<lparr>tk_load_done := m, tk_done := tk_done tk1 @ [c]\<rparr>)"
        using ok1 Mark position_from_mono [of put "tk_done tk1" _ "tk_done tk1 @ [c]"]
        by (auto simp: task_ok_def acks_ok_def answered_def)
      ultimately show ?thesis using s by auto
    next
      case (Position l)
      have "task_ok put cfg [] cs (settle cfg c (Inr (Some (sink_ack_written l))) tk1)"
        by (rule settle_ok [OF ok1]) (auto simp: Position sink_ack_written_def)
      with Position True d s show ?thesis by (auto simp: handle_command_def intro!: settle_done)
    qed
  qed
qed

lemma durable_mono:
  "durable_ok put tk \<Longrightarrow> set (tk_done tk) \<subseteq> set (tk_done tk') \<Longrightarrow> tk_stored tk' = tk_stored tk \<Longrightarrow> tk_durable tk' = tk_durable tk \<Longrightarrow>
   durable_ok put tk'"
  by (auto simp: durable_ok_def elim: position_from_mono split: option.splits)

lemma sink_run_ok: "sink_run put cfg cs tk \<Longrightarrow> task_ok put cfg [] cs tk \<and> durable_ok put tk"
proof (induction rule: sink_run.induct)
  case (start listed)
  show ?case
    by (auto simp: sink_start_def Let_def task_ok_def acks_ok_def position_from_def durable_ok_def durable_load_def
        split: rejection_policy.split sum.split)
next
  case (sent cs tk c)
  then have "task_ok put cfg [] (cs @ [c]) (tk\<lparr>tk_commands := tk_commands tk @ [c]\<rparr>)" by (auto simp: task_ok_def)
  moreover have "durable_ok put (tk\<lparr>tk_commands := tk_commands tk @ [c]\<rparr>)"
    using durable_mono [OF conjunct2 [OF sent.IH]] by simp
  ultimately show ?case by blast
next
  case (finished cs tk)
  obtain okay tk1 where t: "take_one cfg tk = (okay, tk1)" by fastforce
  note s = take_one_ok [OF conjunct1 [OF finished.IH] finished(2) t]
  have "finish_oldest cfg tk = (if okay then tk1 else halt_task tk1)" using t by (simp add: finish_oldest_def)
  with s durable_mono [OF conjunct2 [OF finished.IH], of tk1] durable_mono [OF conjunct2 [OF finished.IH], of "halt_task tk1"]
  show ?case by (auto simp: halt_task_def)
next
  case (received cs tk c rest ans)
  have "task_ok put cfg [c] cs (tk\<lparr>tk_commands := rest\<rparr>)" using received.IH received(2,4) by (auto simp: task_ok_def)
  from handle_command_ok [OF this] received(2,3,5)
  have h: "task_ok put cfg [] cs (handle_command cfg ans c (tk\<lparr>tk_commands := rest\<rparr>))"
    "set (tk_done tk) \<subseteq> set (tk_done (handle_command cfg ans c (tk\<lparr>tk_commands := rest\<rparr>)))"
    "tk_stored (handle_command cfg ans c (tk\<lparr>tk_commands := rest\<rparr>)) = tk_stored tk"
    "tk_durable (handle_command cfg ans c (tk\<lparr>tk_commands := rest\<rparr>)) = tk_durable tk" by auto
  from h(1) durable_mono [OF conjunct2 [OF received.IH] h(2-4)] show ?case by blast
next
  case (checkpoint cs tk sid show_position persisted)
  have "acks_ok put (tk_done tk) (tk_acks tk)" using checkpoint.IH by (simp add: task_ok_def)
  then have p: "position_from put (tk_done tk) (ak_ckpt (tk_acks tk))" by (simp add: acks_ok_def)
  have "task_ok put cfg [] cs (checkpoint_turn sid show_position persisted tk)"
    using checkpoint.IH by (simp add: checkpoint_turn_def task_ok_def split: option.split sum.split)
  moreover have "durable_ok put (checkpoint_turn sid show_position persisted tk)"
    using checkpoint.IH p
    by (auto simp: checkpoint_turn_def durable_ok_def position_from_def durable_load_def split: option.splits sum.splits if_splits)
  ultimately show ?case by blast
qed

subsection \<open>The quarantine budget\<close>

definition budget_ok :: "sink_config \<Rightarrow> acks \<Rightarrow> bool" where
  "budget_ok cfg ak \<longleftrightarrow> (sc_policy cfg = HaltPolicy \<longrightarrow> ak_filed ak = []) \<and>
     (ak_filed ak \<noteq> [] \<longrightarrow> ak_quarantined ak < sc_max_rejects cfg)"

abbreviation task_budget :: "sink_config \<Rightarrow> sink_task \<Rightarrow> bool" where
  "task_budget cfg tk \<equiv> (sc_policy cfg = HaltPolicy \<longrightarrow> ak_filed (tk_acks tk) = []) \<and>
     (\<not> tk_halted tk \<longrightarrow> budget_ok cfg (tk_acks tk))"

lemma acks_apply_budget:
  "budget_ok cfg ak \<Longrightarrow> acks_apply cfg qe r ak = (okay, ak') \<Longrightarrow>
   (sc_policy cfg = HaltPolicy \<longrightarrow> ak_filed ak' = []) \<and> (okay \<longrightarrow> budget_ok cfg ak')"
  by (auto simp: acks_apply_def file_rejects_def budget_ok_def Let_def split: sum.splits option.splits if_splits)

lemma finish_write_budget:
  assumes "budget_ok cfg ak" "finish_write cfg w ak = (okay, ak')"
  shows "(sc_policy cfg = HaltPolicy \<longrightarrow> ak_filed ak' = []) \<and> (okay \<longrightarrow> budget_ok cfg ak')"
proof (cases "ow_joined w")
  case (Joined r)
  with assms acks_apply_budget show ?thesis by (simp add: finish_write_def)
next
  case JoinError
  with assms show ?thesis by (auto simp: finish_write_def budget_ok_def)
qed

lemma take_one_budget:
  "budget_ok cfg (tk_acks tk) \<Longrightarrow> take_one cfg tk = (okay, tk') \<Longrightarrow>
   (sc_policy cfg = HaltPolicy \<longrightarrow> ak_filed (tk_acks tk') = []) \<and> (okay \<longrightarrow> budget_ok cfg (tk_acks tk')) \<and> tk_halted tk' = tk_halted tk"
  by (auto simp: take_one_def split: list.splits prod.splits bool.splits dest: finish_write_budget)
     (simp_all add: budget_ok_def)

lemma drain_open_budget:
  "budget_ok cfg (tk_acks tk) \<Longrightarrow> drain_open cfg n tk = (okay, tk') \<Longrightarrow>
   (sc_policy cfg = HaltPolicy \<longrightarrow> ak_filed (tk_acks tk') = []) \<and> (okay \<longrightarrow> budget_ok cfg (tk_acks tk')) \<and> tk_halted tk' = tk_halted tk"
proof (induction n arbitrary: tk)
  case (Suc n)
  obtain okay1 tk1 where t: "take_one cfg tk = (okay1, tk1)" by fastforce
  from take_one_budget [OF Suc.prems(1) t] Suc.IH [of tk1] Suc.prems(2) t show ?case by (cases okay1) auto
qed (auto simp: budget_ok_def)

lemma settle_budget:
  assumes "budget_ok cfg (tk_acks tk)"
  shows "task_budget cfg (settle cfg c r tk)"
proof -
  obtain okay ak where a: "acks_apply cfg None r (tk_acks tk) = (okay, ak)" by fastforce
  from acks_apply_budget [OF assms a] a show ?thesis by (cases okay) (simp_all add: settle_def halt_task_def)
qed

lemma handle_command_budget:
  assumes "budget_ok cfg (tk_acks tk)"
  shows "task_budget cfg (handle_command cfg ans c tk)"
proof (cases "\<exists>batch. c = Write batch")
  case True
  with assms show ?thesis by (auto simp: handle_command_def budget_ok_def)
next
  case False
  obtain okay tk1 where d: "drain_task cfg tk = (okay, tk1)" by fastforce
  note b = drain_open_budget [OF assms d [unfolded drain_task_def]]
  show ?thesis
  proof (cases okay)
    case True
    with b have "budget_ok cfg (tk_acks tk1)" by blast
    moreover from this have "budget_ok cfg (tk_acks (tk1\<lparr>tk_load_done := m\<rparr>))" for m by simp
    ultimately show ?thesis using True d False settle_budget
      by (cases c) (simp_all add: handle_command_def del: sink_task.simps)
  next
    case okay: False
    with d False have "handle_command cfg ans c tk = halt_task tk1" by (cases c) (auto simp: handle_command_def)
    with b show ?thesis by (simp add: halt_task_def)
  qed
qed

lemma sink_run_budget: "sink_run put cfg cs tk \<Longrightarrow> task_budget cfg tk"
proof (induction rule: sink_run.induct)
  case (start listed)
  show ?case by (auto simp: sink_start_def Let_def budget_ok_def split: rejection_policy.split sum.split)
next
  case (finished cs tk)
  obtain okay tk1 where t: "take_one cfg tk = (okay, tk1)" by fastforce
  with finished take_one_budget [OF _ t] show ?case by (cases okay) (auto simp: finish_oldest_def halt_task_def)
next
  case (received cs tk c rest ans)
  then have "budget_ok cfg (tk_acks (tk\<lparr>tk_commands := rest\<rparr>))" by simp
  then show ?case by (rule handle_command_budget)
qed (auto simp: checkpoint_turn_def split: option.splits sum.splits)

subsection \<open>The contract of a sink\<close>

locale batch_sink =
  fixes put :: "'w \<Rightarrow> lsn_op list \<Rightarrow> (core_error, sink_ack) result"
  assumes ack_in_batch: "put w batch = Inr ack \<Longrightarrow> max_lsn ack \<in> op_lsn ` set batch"
    and refused_in_batch: "put w batch = Inr ack \<Longrightarrow> r \<in> set (rejected ack) \<Longrightarrow>
      \<exists>op \<in> set batch. rej_op r = op_doc op \<and> rej_lsn r = op_lsn op"
begin

lemma carries_position: "carries put c l \<Longrightarrow> l \<noteq> Lsn 0 \<Longrightarrow> l \<in> set (command_positions c)"
  by (cases c) (auto dest: ack_in_batch)

text \<open>An acknowledged position was carried by a command whose predecessors are all accounted for.\<close>

lemma acked_position:
  assumes "task_ok put cfg [] cs tk" "position_from put (tk_done tk) (Some l)"
  obtains before c after where "cs = before @ c # after" "l \<in> set (command_positions c)" "prefix (before @ [c]) (tk_done tk)"
proof -
  from assms(2) obtain c where c: "c \<in> set (tk_done tk)" "carries put c l" "l \<noteq> Lsn 0" by (auto simp: position_from_def)
  then obtain before rest where d: "tk_done tk = before @ c # rest" by (meson split_list)
  moreover from assms(1) obtain more_cs where "cs = tk_done tk @ more_cs" by (auto simp: task_ok_def)
  ultimately show ?thesis using that [of before c "rest @ more_cs"] carries_position [OF c(2,3)] by simp
qed

text \<open>Every operation of an accounted write was answered, and a refused one is filed with its
  position.\<close>

lemma accounted_ops:
  assumes "task_ok put cfg [] cs tk" "Write batch \<in> set (tk_done tk)"
  shows "\<exists>w ack. put w batch = Inr ack \<and> (\<forall>r \<in> set (rejected ack). r \<in> set (ak_filed (tk_acks tk)) \<and>
    (\<exists>op \<in> set batch. rej_op r = op_doc op \<and> rej_lsn r = op_lsn op))"
proof -
  have "answered put (ak_filed (tk_acks tk)) (Write batch)" using assms by (simp add: task_ok_def acks_ok_def)
  then obtain w ack where "put w batch = Inr ack" "set (rejected ack) \<subseteq> set (ak_filed (tk_acks tk))"
    by (auto simp: answered_def)
  with refused_in_batch show ?thesis by blast
qed

end

end
