(* ===== verification/Search_Sink.thy ===== *)
theory Search_Sink
  imports Clear_Index Sink_Facts
begin

section \<open>The sink task over the search sink\<close>

text \<open>
  The search sink keeps the contract of \<^theory_text>\<open>Sink_Facts\<close>, so the engine's sink task may run over
  it. The properties of the task are stated for any sink, those of the whole path from the source
  to an acknowledged position for this one.
\<close>

definition search_put :: "target_answers \<times> search_sink \<Rightarrow> lsn_op list \<Rightarrow> (core_error, sink_ack) result" where
  "search_put w batch = snd (snd (sink_write (fst w) batch (snd w)))"

lemma search_put_Inr:
  assumes "search_put w batch = Inr ack"
  shows "batch \<noteq> [] \<and> max_lsn ack = op_lsn (last batch) \<and> (\<exists>permanent. rejections batch permanent = Inr (rejected ack))"
  using assms
  by (auto simp: search_put_def sink_write_def bindr_Inr_iff split: if_splits prod.splits sum.splits)

interpretation search: batch_sink search_put
proof unfold_locales
  fix w batch ack
  assume put: "search_put w batch = Inr ack"
  from search_put_Inr [OF this] show "max_lsn ack \<in> op_lsn ` set batch" by simp
  fix r
  assume r: "r \<in> set (rejected ack)"
  from search_put_Inr [OF put] obtain permanent where "map (rejection_of batch) permanent = map Inr (rejected ack)"
    by (auto simp: rejections_def mapr_Inr_iff)
  then have "Inr ` set (rejected ack) = rejection_of batch ` set permanent" by (metis list.set_map)
  with r obtain x where "rejection_of batch x = Inr r" by (metis imageE imageI)
  then show "\<exists>op \<in> set batch. rej_op r = op_doc op \<and> rej_lsn r = op_lsn op"
    by (auto simp: rejection_of_Inr)
qed

subsection \<open>A concrete run of the task\<close>

definition two_writes :: sink_config where
  "two_writes = \<lparr>sc_policy = QuarantinePolicy, sc_max_rejects = 100, sc_concurrency = 2\<rparr>"

abbreviation search_answer :: "target_answers \<Rightarrow> lsn_op list \<Rightarrow> command_answer" where
  "search_answer target batch \<equiv>
     \<lparr>ca_joined = Joined (bindr (search_put (target, fresh_sink) batch) (\<lambda>ack. Inr (Some ack))), ca_quarantine = None,
      ca_truncate = Inr ()\<rparr>"

definition user_batch :: "lsn_op list" where
  "user_batch = [(mk (user_op 1 5))\<lparr>op_lsn := Lsn 5\<rparr>]"

lemma user_batch_written: "search_put (calm_target, fresh_sink) user_batch = Inr \<lparr>max_lsn = Lsn 5, rejected = []\<rparr>"
  by (simp add: search_put_def sink_write_def calm_target_def user_batch_def mk_def fresh_sink_def ensure_batch_indexes_def
      unknown_indexes_def claiming_template_def map_filter_simps send_run_def shift_def rejections_def)

text \<open>A batch is opened, finished and acknowledged, the load mark behind it is passed on, and the
  position is persisted.\<close>

lemma task_run:
  obtains tk where "sink_run search_put two_writes [Write user_batch, Mark 7] tk" "ak_ack (tk_acks tk) = Some (Lsn 5)"
    "durable_load (tk_durable tk) = Some (Lsn 5)" "tk_load_done tk = 7" "tk_done tk = [Write user_batch, Mark 7]"
    "tk_stored tk = Some \<lparr>ckpt_stream = sid, ckpt_token = 5, ckpt_position = ''p''\<rparr>" "\<not> tk_halted tk" "ak_filed (tk_acks tk) = []"
proof -
  let ?t0 = "sink_start two_writes (Inr 0)"
  let ?t1 = "?t0\<lparr>tk_commands := tk_commands ?t0 @ [Write user_batch]\<rparr>"
  let ?t2 = "?t1\<lparr>tk_commands := tk_commands ?t1 @ [Mark 7]\<rparr>"
  let ?t3 = "handle_command two_writes (search_answer calm_target user_batch) (Write user_batch) (?t2\<lparr>tk_commands := [Mark 7]\<rparr>)"
  let ?t4 = "handle_command two_writes (search_answer calm_target user_batch) (Mark 7) (?t3\<lparr>tk_commands := []\<rparr>)"
  let ?t5 = "checkpoint_turn sid (\<lambda>_. ''p'') (Inr ()) ?t4"
  have "sink_run search_put two_writes [] ?t0" by (rule sink_run.start)
  from sink_run.sent [OF this] have "sink_run search_put two_writes [Write user_batch] ?t1" by (metis append_Nil)
  from sink_run.sent [OF this] have r2: "sink_run search_put two_writes [Write user_batch, Mark 7] ?t2" by simp
  have r3: "sink_run search_put two_writes [Write user_batch, Mark 7] ?t3"
    by (rule sink_run.received [OF r2]) (auto simp: sink_start_def two_writes_def answers_def)
  have r4: "sink_run search_put two_writes [Write user_batch, Mark 7] ?t4"
    by (rule sink_run.received [OF r3]) (auto simp: sink_start_def two_writes_def handle_command_def)
  note r5 = sink_run.checkpoint [OF this, of sid "\<lambda>_. ''p''" "Inr ()"]
  have "?t4 = \<lparr>tk_commands = [], tk_inflight = [],
     tk_acks = \<lparr>ak_ack = Some (Lsn 5), ak_ckpt = Some (Lsn 5), ak_quarantined = 0, ak_filed = []\<rparr>, tk_load_done = 7,
     tk_halted = False, tk_done = [Write user_batch, Mark 7], tk_last_persisted = None, tk_stored = None, tk_durable = 0\<rparr>"
    by (simp add: sink_start_def two_writes_def handle_command_def drain_task_def take_one_def finish_write_def acks_apply_def
        file_rejects_def user_batch_written settle_def)
  with r5 show ?thesis by (intro that [of ?t5]) (simp_all add: checkpoint_turn_def durable_load_def)
qed

subsection \<open>The properties of the task\<close>

text \<open>C9. Whatever the answers and the order in which they are read, the commands accounted for are a
  prefix of those sent, an acknowledged position was carried by one of them, and every batch up
  to it was answered with the documents it reports as refused on file.\<close>

theorem sink_acks_settled_work:
  assumes "sink_run put cfg cs tk" "ak_ack (tk_acks tk) = Some l"
  shows "l \<noteq> Lsn 0 \<and> prefix (tk_done tk) cs \<and>
    (\<exists>c \<in> set (tk_done tk). carries put c l) \<and> (\<forall>c \<in> set (tk_done tk). answered put (ak_filed (tk_acks tk)) c)"
proof -
  from sink_run_ok [OF assms(1)] obtain rest where "cs = tk_done tk @ rest" by (auto simp: task_ok_def)
  moreover have "acks_ok put (tk_done tk) (tk_acks tk)" using sink_run_ok [OF assms(1)] by (simp add: task_ok_def)
  ultimately show ?thesis using assms(2) by (auto simp: acks_ok_def position_from_def)
qed

theorem sink_acks_settled_work_witness:
  "\<exists>tk. sink_run search_put two_writes [Write user_batch, Mark 7] tk \<and> ak_ack (tk_acks tk) = Some (Lsn 5) \<and>
    (\<exists>c \<in> set (tk_done tk). carries search_put c (Lsn 5))"
proof -
  obtain tk where "sink_run search_put two_writes [Write user_batch, Mark 7] tk" "ak_ack (tk_acks tk) = Some (Lsn 5)"
    by (rule task_run)
  with sink_acks_settled_work [of search_put two_writes _ tk "Lsn 5"] show ?thesis by blast
qed



text \<open>What the source may forget is what the target has stored: the durable position is the token
  of the persisted checkpoint, and it had been acknowledged.\<close>

theorem durable_follows_checkpoint:
  assumes "sink_run put cfg cs tk" "durable_load (tk_durable tk) = Some l"
  shows "(\<exists>k. tk_stored tk = Some k \<and> ckpt_token k = lsn_val l) \<and> (\<exists>c \<in> set (tk_done tk). carries put c l)"
proof -
  have "durable_ok put tk" using sink_run_ok [OF assms(1)] by blast
  moreover have "tk_durable tk \<noteq> 0" "lsn_val l = tk_durable tk" using assms(2) by (auto simp: durable_load_def split: if_splits)
  ultimately show ?thesis using assms(2) by (auto simp: durable_ok_def position_from_def split: option.splits)
qed

theorem durable_follows_checkpoint_witness:
  "\<exists>tk k. sink_run search_put two_writes [Write user_batch, Mark 7] tk \<and> durable_load (tk_durable tk) = Some (Lsn 5) \<and>
    tk_stored tk = Some k \<and> ckpt_token k = 5"
proof -
  obtain tk where "sink_run search_put two_writes [Write user_batch, Mark 7] tk" "durable_load (tk_durable tk) = Some (Lsn 5)"
    by (rule task_run)
  with durable_follows_checkpoint [of search_put two_writes _ tk "Lsn 5"] show ?thesis by fastforce
qed

subsection \<open>From the source to the durable position\<close>

lemma prefix_commands: "prefix cs (en_sent st) \<Longrightarrow> cs = before @ c # after \<Longrightarrow> \<exists>after'. en_sent st = before @ c # after'"
  by (auto simp: prefix_def)

lemma covered_position:
  assumes run: "engine_run ext st log" "prefix cs (en_sent st)" and task: "task_ok search_put cfg [] cs tk"
    and l: "position_from search_put (tk_done tk) (Some l)"
  shows "\<exists>n cmds. (l, n) \<in> set (lg_commits log) \<and> prefix cmds (tk_done tk) \<and> n \<le> length (written cmds) \<and>
    map op_doc (take n (written cmds)) = take n (lg_produced log)"
proof -
  obtain before c after where c: "cs = before @ c # after" "l \<in> set (command_positions c)" "prefix (before @ [c]) (tk_done tk)"
    by (rule search.acked_position [OF task l])
  obtain after' where sent: "en_sent st = before @ c # after'" using prefix_commands [OF run(2) c(1)] by blast
  note ok = engine_run_log [OF run(1)]
  obtain n where n: "(l, n) \<in> set (lg_commits log)" "n \<le> length (written (before @ [c]))"
    by (rule log_position [OF ok sent c(2)])
  have "en_sent st = (before @ [c]) @ after'" using sent by simp
  from produced_prefix [OF ok this n(2)] n c(3) show ?thesis by blast
qed



text \<open>C10. A load mark the load sees confirmed was asked for, and every operation produced before it was
  asked for is in a batch already accounted for.\<close>

theorem confirmed_mark_covers_load:
  assumes "engine_run ext st log" "sink_run put cfg cs tk" "prefix cs (en_sent st)" "tk_load_done tk \<noteq> 0"
  shows "\<exists>k. (tk_load_done tk, k) \<in> set (lg_marks log) \<and> k \<le> length (written (tk_done tk)) \<and>
    map op_doc (take k (written (tk_done tk))) = take k (lg_produced log)"
proof -
  have task: "task_ok put cfg [] cs tk" using sink_run_ok [OF assms(2)] by blast
  with assms(4) have "Mark (tk_load_done tk) \<in> set (tk_done tk)" by (simp add: task_ok_def)
  then obtain before after where d: "tk_done tk = before @ Mark (tk_load_done tk) # after" by (meson split_list)
  from task assms(3) obtain rest where sent: "en_sent st = tk_done tk @ rest" by (auto simp: task_ok_def prefix_def)
  note ok = engine_run_log [OF assms(1)]
  have "(length (written before), Mark (tk_load_done tk)) \<in> set (scan 0 (en_sent st))" by (simp add: sent d scan_append)
  moreover have "marks_ok (lg_marks log) (en_sent st)" using ok by (simp only: log_ok_def)
  ultimately obtain k where k: "(tk_load_done tk, k) \<in> set (lg_marks log)" "k \<le> length (written before)"
    unfolding marks_ok_def by blast
  then have "k \<le> length (written (tk_done tk))" by (simp add: d)
  with k(1) produced_prefix [OF ok sent] show ?thesis by blast
qed

theorem confirmed_mark_covers_load_witness:
  "\<exists>st log tk. engine_run sample_externs st log \<and> sink_run search_put two_writes (en_sent st) tk \<and> tk_load_done tk = 7 \<and>
    (\<exists>k. (7, k) \<in> set (lg_marks log) \<and> map op_doc (take k (written (tk_done tk))) = take k (lg_produced log))"
proof -
  obtain st log where run: "engine_run sample_externs st log" and sent: "en_sent st = [Write [(mk (user_op 1 5))\<lparr>op_lsn := Lsn 5\<rparr>], Mark 7]"
    by (rule marked_run)
  obtain tk where task: "sink_run search_put two_writes [Write user_batch, Mark 7] tk" "tk_load_done tk = 7" by (rule task_run)
  have "en_sent st = [Write user_batch, Mark 7]" using sent by (simp add: user_batch_def)
  with task have task': "sink_run search_put two_writes (en_sent st) tk" by simp
  have "tk_load_done tk \<noteq> 0" using task(2) by simp
  from confirmed_mark_covers_load [OF run task' prefix_order.refl this] have "\<exists>k. (7, k) \<in> set (lg_marks log) \<and>
      map op_doc (take k (written (tk_done tk))) = take k (lg_produced log)"
    unfolding task(2) by blast
  with run task' task(2) show ?thesis by blast
qed

end
