(* ===== verification/Filter_Parser.thy ===== *)
theory Filter_Parser
  imports Row_Filter
begin

section \<open>Row filters: tokenizer and parser (\<open>crates/core/src/filter.rs\<close>)\<close>

text \<open>
  \<open>tokenize\<close>, \<open>scan_number\<close> and the recursive-descent methods of \<open>Parser\<close>. The scanner's
  byte index is the offset argument beside the bytes still to read; the parser's \<open>pos\<close> is
  the list of tokens still to read, and its \<open>columns\<close> are threaded as a list. The parser
  takes fuel, and \<open>filter_parse\<close> gives it four units per token and four more, which
  \<open>filter_parse_fuel\<close> proves to be enough for every input. Each error message is a
  constructor of \<open>filter_error\<close> that carries what the message names.
\<close>

datatype tok =
    TIdent string
  | TStr string
  | TInt int
  | TFloat f64
  | TOp cmp_op
  | TLParen
  | TRParen
  | TComma

record token =
  t_tok :: tok
  t_offset :: nat
  t_text :: string

datatype filter_error =
    EmptyPredicate
  | UnterminatedString nat
  | UnsupportedOperator string nat
  | UnexpectedCharacter nat
  | NumberOutOfRange string nat
  | AfterTheEnd token
  | ExpectedRParen nat
  | ExpectedRParenAtEnd
  | FunctionCall string nat
  | ExpectedColumn nat "token option"
  | ExpectedOperator string nat "token option"
  | IsNeedsNull nat
  | ExpectedInAfterNot nat "token option"
  | NullComparison string nat
  | ExpectedLiteral string nat "token option"
  | InNeedsList nat
  | InNeedsValue nat
  | InTakesLiterals nat
  | OutOfFuel

definition KEYWORDS :: "string list" where
  "KEYWORDS = [''AND'', ''OR'', ''NOT'', ''IS'', ''NULL'', ''IN'', ''TRUE'', ''FALSE'']"

definition WORD_OPERATORS :: "string list" where
  "WORD_OPERATORS = [''LIKE'', ''ILIKE'', ''BETWEEN'', ''SIMILAR'', ''ANY'', ''ALL'', ''EXISTS'']"

definition is_keyword :: "string \<Rightarrow> bool" where
  "is_keyword word \<longleftrightarrow> list_ex (eq_ignore_ascii_case word) KEYWORDS"

definition is_word_operator :: "string \<Rightarrow> bool" where
  "is_word_operator word \<longleftrightarrow> list_ex (eq_ignore_ascii_case word) WORD_OPERATORS"

fun tok_is_keyword :: "tok \<Rightarrow> string \<Rightarrow> bool" where
  "tok_is_keyword (TIdent word) keyword = eq_ignore_ascii_case word keyword"
| "tok_is_keyword _ keyword = False"

fun tok_is_word_operator :: "tok \<Rightarrow> bool" where
  "tok_is_word_operator (TIdent word) = is_word_operator word"
| "tok_is_word_operator _ = False"

subsection \<open>The tokenizer\<close>

text \<open>A string literal after its opening quote: what stands between the quotes, and what
  follows the closing one.\<close>

fun scan_string :: "string \<Rightarrow> (string \<times> string) option" where
  "scan_string [] = None"
| "scan_string [c] = (if c = CHR 0x27 then Some ([], []) else None)"
| "scan_string (c # d # s) =
     (if c = CHR 0x27 then
        (if d = CHR 0x27 then map_option (\<lambda>(a, r). (c # d # a, r)) (scan_string s)
         else Some ([], d # s))
      else map_option (\<lambda>(a, r). (c # a, r)) (scan_string (d # s)))"

lemma scan_string_shorter: "scan_string s = Some (a, r) \<Longrightarrow> length r < length s"
  by (induction s arbitrary: a r rule: scan_string.induct) (fastforce split: if_splits)+

definition ident_start :: "char \<Rightarrow> bool" where
  "ident_start c \<longleftrightarrow> is_ascii_alphabetic c \<or> c = CHR ''_''"

definition ident_part :: "char \<Rightarrow> bool" where
  "ident_part c \<longleftrightarrow> is_ascii_alphanumeric c \<or> c = CHR ''_'' \<or> c = CHR ''$''"

text \<open>\<open>scan_number\<close>: \<open>sign\<close> is the text before \<open>digits_at\<close>, the rest starts there.\<close>

definition scan_number :: "nat \<Rightarrow> string \<Rightarrow> string \<Rightarrow> (filter_error, token \<times> string) result" where
  "scan_number start sign s =
     (let (whole, rest) = span_digits s;
          is_float = (case rest of c # d # _ \<Rightarrow> c = CHR ''.'' \<and> is_ascii_digit d | _ \<Rightarrow> False);
          (text, after) = (if is_float
             then (sign @ whole @ ''.'' @ fst (span_digits (tl rest)), snd (span_digits (tl rest)))
             else (sign @ whole, rest));
          out_of_range = NumberOutOfRange text start
      in if is_float then
           bindr (ok_or out_of_range (parse_f64 text)) (\<lambda>f.
             if \<not> f64_is_finite f then Inl out_of_range
             else Inr (\<lparr>t_tok = TFloat f, t_offset = start, t_text = text\<rparr>, after))
         else
           bindr (ok_or out_of_range (parse_i64 text)) (\<lambda>i.
             Inr (\<lparr>t_tok = TInt i, t_offset = start, t_text = text\<rparr>, after)))"

text \<open>The comparison operators: one or two bytes.\<close>

definition scan_op :: "char \<Rightarrow> string \<Rightarrow> (cmp_op \<times> nat) option" where
  "scan_op c s =
     (case s of
        d # _ \<Rightarrow>
          if c = CHR ''<'' \<and> d = CHR ''>'' \<or> c = CHR ''!'' \<and> d = CHR ''='' then Some (Ne, 2)
          else if c = CHR ''<'' \<and> d = CHR ''='' then Some (Le, 2)
          else if c = CHR ''>'' \<and> d = CHR ''='' then Some (Ge, 2)
          else if c = CHR ''<'' then Some (Lt, 1)
          else if c = CHR ''>'' then Some (Gt, 1)
          else if c = CHR ''='' then Some (Eq, 1)
          else None
      | [] \<Rightarrow>
          if c = CHR ''<'' then Some (Lt, 1)
          else if c = CHR ''>'' then Some (Gt, 1)
          else if c = CHR ''='' then Some (Eq, 1)
          else None)"

definition is_tok_space :: "char \<Rightarrow> bool" where
  "is_tok_space c \<longleftrightarrow> asc c = 32 \<or> asc c = 9 \<or> asc c = 13 \<or> asc c = 10"

definition single :: "tok \<Rightarrow> nat \<Rightarrow> char \<Rightarrow> token" where
  "single t start c = \<lparr>t_tok = t, t_offset = start, t_text = [c]\<rparr>"

text \<open>One token: the token and what follows it.\<close>

definition next_token :: "nat \<Rightarrow> char \<Rightarrow> string \<Rightarrow> (filter_error, token \<times> string) result" where
  "next_token i c s =
     (if c = CHR ''('' then Inr (single TLParen i c, s)
      else if c = CHR '')'' then Inr (single TRParen i c, s)
      else if c = CHR '','' then Inr (single TComma i c, s)
      else if c = CHR 0x27 then
        (case scan_string s of
           None \<Rightarrow> Inl (UnterminatedString i)
         | Some (raw, after) \<Rightarrow>
             Inr (\<lparr>t_tok = TStr (replace_str [CHR 0x27, CHR 0x27] [CHR 0x27] raw), t_offset = i,
                   t_text = c # raw @ [CHR 0x27]\<rparr>, after))
      else if c = CHR ''-'' \<and> (case s of d # _ \<Rightarrow> is_ascii_digit d | [] \<Rightarrow> False)
        then scan_number i [c] s
      else if is_ascii_digit c then scan_number i [] (c # s)
      else if ident_start c then
        (let word = c # takeWhile ident_part s
         in Inr (\<lparr>t_tok = TIdent word, t_offset = i, t_text = word\<rparr>, dropWhile ident_part s))
      else if c \<in> set ''<>=!'' then
        (case scan_op c s of
           None \<Rightarrow> Inl (UnexpectedCharacter i)
         | Some (op, len) \<Rightarrow>
             Inr (\<lparr>t_tok = TOp op, t_offset = i, t_text = take len (c # s)\<rparr>, drop len (c # s)))
      else if c \<in> set ''~|&%*+/'' then Inl (UnsupportedOperator [c] i)
      else Inl (UnexpectedCharacter i))"

lemma span_digits_append: "fst (span_digits s) @ snd (span_digits s) = s"
  by (simp add: span_digits_def)

lemma span_digits_shorter: "length (snd (span_digits s)) \<le> length s"
  by (simp add: span_digits_def length_dropWhile_le)

lemma scan_number_rest:
  assumes "scan_number start sign s = Inr (t, r)"
  shows "length r \<le> length s" and "is_ascii_digit (hd s) \<Longrightarrow> s \<noteq> [] \<Longrightarrow> length r < length s"
proof -
  obtain w u where wu: "span_digits s = (w, u)" by (cases "span_digits s")
  then have s: "s = w @ u" using span_digits_append [of s] by simp
  have r: "r = u \<or> (\<exists>c u'. u = c # u' \<and> r = snd (span_digits u'))"
    using assms wu
    by (cases u) (auto simp: scan_number_def Let_def bindr_Inr_iff split: list.splits if_splits)
  then have ru: "length r \<le> length u"
    by (auto simp: le_SucI span_digits_shorter)
  then show "length r \<le> length s" using s by simp
  assume "is_ascii_digit (hd s)" "s \<noteq> []"
  then have "w \<noteq> []" using wu by (cases s) (auto simp: span_digits_def)
  with ru s show "length r < length s" by (cases w) auto
qed

lemma scan_op_len: "scan_op c s = Some (op, n) \<Longrightarrow> n = 1 \<or> n = 2"
  by (auto simp: scan_op_def split: list.splits if_splits)

lemma next_token_shorter:
  assumes "next_token i c s = Inr (t, r)"
  shows "length r \<le> length s"
proof -
  have "r = s \<or> (\<exists>raw. scan_string s = Some (raw, r)) \<or> (\<exists>j g. scan_number j g s = Inr (t, r))
      \<or> (is_ascii_digit c \<and> (\<exists>j g. scan_number j g (c # s) = Inr (t, r)))
      \<or> r = dropWhile ident_part s \<or> (\<exists>op len. scan_op c s = Some (op, len) \<and> r = drop len (c # s))"
    using assms unfolding next_token_def Let_def
    by (simp split: if_splits option.splits prod.splits) blast+
  then show ?thesis
    using scan_number_rest(1) [of _ _ s t r] scan_number_rest(2) [of _ _ "c # s" t r]
    by (auto simp: length_dropWhile_le less_Suc_eq_le dest: scan_string_shorter scan_op_len)
qed

function tokenize :: "nat \<Rightarrow> string \<Rightarrow> (filter_error, token list) result" where
  "tokenize i [] = Inr []"
| "tokenize i (c # s) =
     (if is_tok_space c then tokenize (i + 1) s
      else case next_token i c s of
        Inl e \<Rightarrow> Inl e
      | Inr (t, r) \<Rightarrow>
          bindr (tokenize (i + (Suc (length s) - length r)) r) (\<lambda>ts. Inr (t # ts)))"
  by pat_completeness auto
termination
  by (relation "measure (\<lambda>(i, s). length s)") (auto dest: next_token_shorter simp: le_imp_less_Suc)

subsection \<open>The parser\<close>

type_synonym pstate = "token list \<times> string list"

definition peek :: "token list \<Rightarrow> token option" where
  "peek ts = (case ts of [] \<Rightarrow> None | t # _ \<Rightarrow> Some t)"

definition peek_is :: "tok \<Rightarrow> token list \<Rightarrow> bool" where
  "peek_is t ts = is_some_and (\<lambda>x. t_tok x = t) (peek ts)"

definition peek_keyword :: "string \<Rightarrow> token list \<Rightarrow> bool" where
  "peek_keyword k ts = is_some_and (\<lambda>x. tok_is_keyword (t_tok x) k) (peek ts)"

text \<open>Where the next token starts, or the end of the input, whose length is \<open>n\<close>.\<close>

definition offset :: "nat \<Rightarrow> token list \<Rightarrow> nat" where
  "offset n ts = (case peek ts of None \<Rightarrow> n | Some t \<Rightarrow> t_offset t)"

fun literal_of :: "tok \<Rightarrow> literal option" where
  "literal_of (TStr s) = Some (LStr s)"
| "literal_of (TInt i) = Some (LInt i)"
| "literal_of (TFloat f) = Some (LFloat f)"
| "literal_of (TIdent w) =
     (if eq_ignore_ascii_case w ''TRUE'' then Some (LBool True)
      else if eq_ignore_ascii_case w ''FALSE'' then Some (LBool False) else None)"
| "literal_of _ = None"

definition expect_rparen :: "token list \<Rightarrow> (filter_error, token list) result" where
  "expect_rparen ts = (case ts of
       [] \<Rightarrow> Inl ExpectedRParenAtEnd
     | t # rest \<Rightarrow> if t_tok t = TRParen then Inr rest else Inl (ExpectedRParen (t_offset t)))"

definition comparison_rhs ::
  "nat \<Rightarrow> string \<Rightarrow> cmp_op \<Rightarrow> token \<Rightarrow> token list \<Rightarrow> (filter_error, expr \<times> token list) result" where
  "comparison_rhs n column op operator ts =
     (if (op = Eq \<or> op = Ne) \<and> peek_keyword ''NULL'' ts
      then Inl (NullComparison (t_text operator) (t_offset operator))
      else case Option.bind (peek ts) (\<lambda>t. literal_of (t_tok t)) of
        None \<Rightarrow> Inl (ExpectedLiteral (t_text operator) (offset n ts) (peek ts))
      | Some literal \<Rightarrow> Inr (Cmp column op literal, tl ts))"

fun in_items :: "nat \<Rightarrow> token list \<Rightarrow> (filter_error, literal list \<times> token list) result" where
  "in_items n [] = Inl ExpectedRParenAtEnd"
| "in_items n (t # ts) =
     (case literal_of (t_tok t) of
        None \<Rightarrow> Inl (InTakesLiterals (t_offset t))
      | Some literal \<Rightarrow>
          (case ts of
             c # rest \<Rightarrow>
               if t_tok c = TComma
               then bindr (in_items n rest) (\<lambda>(list, r). Inr (literal # list, r))
               else bindr (expect_rparen ts) (\<lambda>r. Inr ([literal], r))
           | [] \<Rightarrow> bindr (expect_rparen ts) (\<lambda>r. Inr ([literal], r))))"

definition in_list :: "nat \<Rightarrow> string \<Rightarrow> bool \<Rightarrow> token list \<Rightarrow> (filter_error, expr \<times> token list) result" where
  "in_list n column negated ts =
     (if \<not> peek_is TLParen ts then Inl (InNeedsList (offset n ts))
      else if peek_is TRParen (tl ts) then Inl (InNeedsValue (offset n (tl ts)))
      else bindr (in_items n (tl ts)) (\<lambda>(list, r). Inr (InList column list negated, r)))"

definition comparison_op ::
  "nat \<Rightarrow> string \<Rightarrow> token list \<Rightarrow> (filter_error, expr \<times> token list) result" where
  "comparison_op n column ts =
     (case ts of
        [] \<Rightarrow> Inl (ExpectedOperator column n None)
      | operator # rest \<Rightarrow>
          (case t_tok operator of
             TOp op \<Rightarrow> comparison_rhs n column op operator rest
           | TIdent w \<Rightarrow>
               if eq_ignore_ascii_case w ''IS'' then
                 (let negated = peek_keyword ''NOT'' rest;
                      rest' = (if negated then tl rest else rest)
                  in if peek_keyword ''NULL'' rest' then Inr (IsNull column negated, tl rest')
                     else Inl (IsNeedsNull (offset n rest')))
               else if eq_ignore_ascii_case w ''IN'' then in_list n column False rest
               else if eq_ignore_ascii_case w ''NOT'' then
                 (if peek_keyword ''IN'' rest then in_list n column True (tl rest)
                  else if is_some_and (\<lambda>t. tok_is_word_operator (t_tok t)) (peek rest)
                  then Inl (UnsupportedOperator (''NOT '' @ t_text (hd rest)) (t_offset operator))
                  else Inl (ExpectedInAfterNot (offset n rest) (peek rest)))
               else if is_word_operator w then Inl (UnsupportedOperator (t_text operator) (t_offset operator))
               else Inl (ExpectedOperator column (t_offset operator) (Some operator))
           | _ \<Rightarrow> Inl (ExpectedOperator column (t_offset operator) (Some operator))))"

definition comparison :: "nat \<Rightarrow> pstate \<Rightarrow> (filter_error, expr \<times> pstate) result" where
  "comparison n st =
     (case st of (ts, cols) \<Rightarrow>
       (case ts of
          [] \<Rightarrow> Inl (ExpectedColumn n None)
        | t # rest \<Rightarrow>
            (case t_tok t of
               TIdent name \<Rightarrow>
                 if is_keyword name then Inl (ExpectedColumn (t_offset t) (Some t))
                 else if peek_is TLParen rest then Inl (FunctionCall name (t_offset t))
                 else bindr (comparison_op n name rest) (\<lambda>(e, r). Inr (e, r, cols @ [name]))
             | _ \<Rightarrow> Inl (ExpectedColumn (t_offset t) (Some t)))))"

text \<open>The methods \<open>or_expr\<close>, \<open>and_expr\<close>, \<open>not_expr\<close> and \<open>primary\<close>, and the two loops, as one
  recursion over the fuel; \<open>level\<close> says which of them is called.\<close>

datatype level = Or_Expr | Or_Loop expr | And_Expr | And_Loop expr | Not_Expr | Primary

primrec parse_at :: "nat \<Rightarrow> nat \<Rightarrow> level \<Rightarrow> pstate \<Rightarrow> (filter_error, expr \<times> pstate) result" where
  "parse_at 0 n lvl st = Inl OutOfFuel"
| "parse_at (Suc f) n lvl st =
     (case lvl of
        Or_Expr \<Rightarrow> bindr (parse_at f n And_Expr st) (\<lambda>(left, st'). parse_at f n (Or_Loop left) st')
      | Or_Loop left \<Rightarrow>
          (if peek_keyword ''OR'' (fst st)
           then bindr (parse_at f n And_Expr (tl (fst st), snd st))
                  (\<lambda>(right, st'). parse_at f n (Or_Loop (FOr left right)) st')
           else Inr (left, st))
      | And_Expr \<Rightarrow> bindr (parse_at f n Not_Expr st) (\<lambda>(left, st'). parse_at f n (And_Loop left) st')
      | And_Loop left \<Rightarrow>
          (if peek_keyword ''AND'' (fst st)
           then bindr (parse_at f n Not_Expr (tl (fst st), snd st))
                  (\<lambda>(right, st'). parse_at f n (And_Loop (FAnd left right)) st')
           else Inr (left, st))
      | Not_Expr \<Rightarrow>
          (if peek_keyword ''NOT'' (fst st)
           then bindr (parse_at f n Not_Expr (tl (fst st), snd st)) (\<lambda>(e, st'). Inr (FNot e, st'))
           else parse_at f n Primary st)
      | Primary \<Rightarrow>
          (if peek_is TLParen (fst st)
           then bindr (parse_at f n Or_Expr (tl (fst st), snd st)) (\<lambda>(inner, ts', cols').
                  bindr (expect_rparen ts') (\<lambda>r. Inr (inner, r, cols')))
           else comparison n st))"

definition filter_parse :: "string \<Rightarrow> (filter_error, row_filter) result" where
  "filter_parse src =
     (if trim src = [] then Inl EmptyPredicate
      else bindr (tokenize 0 src) (\<lambda>tokens.
           bindr (parse_at (4 * length tokens + 4) (length src) Or_Expr (tokens, [])) (\<lambda>(e, ts, cols).
             case ts of
               extra # _ \<Rightarrow> Inl (AfterTheEnd extra)
             | [] \<Rightarrow> Inr \<lparr>f_expr = e, f_columns = dedup (sort cols)\<rparr>)))"

subsection \<open>The fuel is enough\<close>

definition advances :: "nat \<Rightarrow> (filter_error, 'a \<times> token list) result \<Rightarrow> bool" where
  "advances k r = (case r of Inl e \<Rightarrow> e \<noteq> OutOfFuel | Inr (_, ts) \<Rightarrow> length ts \<le> k)"

lemma advances_simps [simp]:
  "advances k (Inl e) \<longleftrightarrow> e \<noteq> OutOfFuel"
  "advances k (Inr (a, ts)) \<longleftrightarrow> length ts \<le> k"
  by (simp_all add: advances_def)

lemma advances_le: "advances k r \<Longrightarrow> k \<le> k' \<Longrightarrow> advances k' r"
  by (auto simp: advances_def split: sum.splits)

lemma expect_rparen_advances: "advances (length ts) (bindr (expect_rparen ts) (\<lambda>r. Inr (a, r)))"
  by (cases ts) (auto simp: expect_rparen_def)

lemma in_items_advances: "advances (length ts) (in_items n ts)"
proof (induction n ts rule: in_items.induct)
  case (2 n t ts)
  show ?case
  proof (cases "literal_of (t_tok t)")
    case (Some l)
    show ?thesis
    proof (cases "\<exists>c rest. ts = c # rest \<and> t_tok c = TComma")
      case True
      then obtain c rest where "ts = c # rest" "t_tok c = TComma" by blast
      moreover from this 2 Some have "advances (length rest) (in_items n rest)" by simp
      ultimately show ?thesis using Some by (cases "in_items n rest") auto
    next
      case False
      with Some expect_rparen_advances [of ts "[l]"] show ?thesis
        by (auto split: list.splits intro: advances_le)
    qed
  qed simp
qed simp

lemma in_list_advances: "advances (length ts) (in_list n column negated ts)"
  using in_items_advances [of "tl ts" n]
  by (cases "in_items n (tl ts)") (auto simp: in_list_def)

lemma comparison_rhs_advances: "advances (length ts) (comparison_rhs n column op operator ts)"
  by (cases ts) (auto simp: comparison_rhs_def split: option.splits)

lemma comparison_op_advances: "advances (length ts) (comparison_op n column ts)"
proof (cases ts)
  case (Cons t rest)
  have "advances (length ts) (in_list n column b rest)" "advances (length ts) (in_list n column b (tl rest))" for b
    using Cons by (auto intro: advances_le [OF in_list_advances])
  moreover have "advances (length ts) (comparison_rhs n column op t rest)" for op
    using Cons by (auto intro: advances_le [OF comparison_rhs_advances])
  ultimately show ?thesis
    using Cons by (auto simp: comparison_op_def Let_def split: tok.splits)
qed (simp add: comparison_op_def)

definition st_advances :: "nat \<Rightarrow> (filter_error, expr \<times> pstate) result \<Rightarrow> bool" where
  "st_advances k r = (case r of Inl e \<Rightarrow> e \<noteq> OutOfFuel | Inr (_, ts, _) \<Rightarrow> length ts \<le> k)"

lemma st_advances_simps [simp]:
  "st_advances k (Inl err) \<longleftrightarrow> err \<noteq> OutOfFuel"
  "st_advances k (Inr (e, st)) \<longleftrightarrow> length (fst st) \<le> k"
  by (simp_all add: st_advances_def split: prod.splits)

lemma st_advances_bindr:
  assumes "st_advances k r" "k \<le> k'"
    and "\<And>e st. length (fst st) \<le> k \<Longrightarrow> st_advances k' (g (e, st))"
  shows "st_advances k' (bindr r g)"
  using assms by (cases r) auto

lemma comparison_advances: "st_advances (length (fst st)) (comparison n st)"
proof -
  obtain ts cols where st: "st = (ts, cols)" by (cases st)
  have "st_advances (length ts) (bindr (comparison_op n name rest) (\<lambda>(e, r). Inr (e, r, cols @ [name])))"
    if "ts = t # rest" for t rest name
    using comparison_op_advances [of rest n name] that by (cases "comparison_op n name rest") auto
  then show ?thesis by (auto simp: st comparison_def split: list.splits tok.splits)
qed

fun need :: "level \<Rightarrow> nat \<Rightarrow> nat" where
  "need Or_Expr k = 4 * k + 4"
| "need (Or_Loop _) k = 4 * k + 1"
| "need And_Expr k = 4 * k + 3"
| "need (And_Loop _) k = 4 * k + 1"
| "need Not_Expr k = 4 * k + 2"
| "need Primary k = 4 * k + 1"

lemma peek_length:
  "peek_keyword k ts \<Longrightarrow> length ts = Suc (length (tl ts))"
  "peek_is t ts \<Longrightarrow> length ts = Suc (length (tl ts))"
  by (cases ts; simp add: peek_keyword_def peek_is_def peek_def)+

lemma st_advances_mono: "st_advances k r \<Longrightarrow> k \<le> k' \<Longrightarrow> st_advances k' r"
  by (auto simp: st_advances_def split: sum.splits)

lemma parse_at_advances:
  "need lvl (length (fst st)) \<le> f \<Longrightarrow> st_advances (length (fst st)) (parse_at f n lvl st)"
  supply length_tl [simp del]
proof (induction f arbitrary: lvl st)
  case 0
  then show ?case by (cases lvl) auto
next
  case (Suc f)
  let ?k = "length (fst st)"
  have then_level: "st_advances ?k (bindr (parse_at f n l1 st1) (\<lambda>(e, st'). parse_at f n (l2 e) st'))"
    if "need l1 (length (fst st1)) \<le> f" "length (fst st1) \<le> ?k"
      and "\<And>e k. k \<le> length (fst st1) \<Longrightarrow> need (l2 e) k \<le> f" for l1 l2 st1
    by (rule st_advances_bindr [OF Suc.IH [OF that(1)]])
       (use that in \<open>auto intro: st_advances_mono [OF Suc.IH]\<close>)
  note smaller = peek_length [of _ "fst st"]
  show ?case
  proof (cases lvl)
    case Or_Expr
    then show ?thesis using Suc.prems by (auto intro!: then_level)
  next
    case (Or_Loop left)
    have "st_advances ?k (bindr (parse_at f n And_Expr (tl (fst st), snd st))
        (\<lambda>(right, st'). parse_at f n (Or_Loop (FOr left right)) st'))"
      if "peek_keyword ''OR'' (fst st)"
      by (rule then_level) (use Or_Loop Suc.prems smaller(1) [OF that] in auto)
    then show ?thesis using Or_Loop by simp
  next
    case And_Expr
    then show ?thesis using Suc.prems by (auto intro!: then_level)
  next
    case (And_Loop left)
    have "st_advances ?k (bindr (parse_at f n Not_Expr (tl (fst st), snd st))
        (\<lambda>(right, st'). parse_at f n (And_Loop (FAnd left right)) st'))"
      if "peek_keyword ''AND'' (fst st)"
      by (rule then_level) (use And_Loop Suc.prems smaller(1) [OF that] in auto)
    then show ?thesis using And_Loop by simp
  next
    case Not_Expr
    have "st_advances ?k (bindr (parse_at f n Not_Expr (tl (fst st), snd st)) (\<lambda>(e, st'). Inr (FNot e, st')))"
      if "peek_keyword ''NOT'' (fst st)"
      by (rule st_advances_bindr [OF Suc.IH]) (use Not_Expr Suc.prems smaller(1) [OF that] in auto)
    moreover have "st_advances ?k (parse_at f n Primary st)"
      by (rule Suc.IH) (use Not_Expr Suc.prems in auto)
    ultimately show ?thesis using Not_Expr by simp
  next
    case Primary
    have "st_advances ?k (bindr (parse_at f n Or_Expr (tl (fst st), snd st)) (\<lambda>(inner, ts', cols').
        bindr (expect_rparen ts') (\<lambda>r. Inr (inner, r, cols'))))"
      if "peek_is TLParen (fst st)"
      by (rule st_advances_bindr [OF Suc.IH])
         (use Primary Suc.prems smaller(2) [OF that] in \<open>auto simp: expect_rparen_def split: list.splits\<close>)
    then show ?thesis using Primary comparison_advances [of st n] by simp
  qed
qed

lemma scan_number_fuel: "scan_number start sign s \<noteq> Inl OutOfFuel"
  unfolding scan_number_def Let_def
  by (cases "span_digits s"; cases "snd (span_digits s)")
     (auto simp: split_beta bindr_def ok_or_def split: option.splits list.splits)

lemma next_token_fuel: "next_token i c s \<noteq> Inl OutOfFuel"
  unfolding next_token_def Let_def by (simp add: scan_number_fuel split: option.splits)

lemma tokenize_fuel: "tokenize i s \<noteq> Inl OutOfFuel"
proof (induction i s rule: tokenize.induct)
  case (2 i c s)
  show ?case
  proof (cases "is_tok_space c")
    case False
    show ?thesis
    proof (cases "next_token i c s")
      case (Inr tr)
      then obtain t r where tr: "next_token i c s = Inr (t, r)" by (cases tr) auto
      from "2.IH"(2) [OF False tr refl] show ?thesis
        using False tr by (cases "tokenize (i + (Suc (length s) - length r)) r") auto
    qed (use False next_token_fuel [of i c s] in auto)
  qed (use 2 in simp)
qed simp

text \<open>Parsing a predicate always comes to an answer: the fuel the parser is given is enough
  for every input text.\<close>

theorem filter_parse_fuel: "filter_parse src \<noteq> Inl OutOfFuel"
proof (cases "tokenize 0 src")
  case (Inr ts)
  have "st_advances (length ts) (parse_at (4 * length ts + 4) (length src) Or_Expr (ts, []))"
    using parse_at_advances [of Or_Expr "(ts, [])"] by simp
  then show ?thesis using Inr
    by (auto simp: filter_parse_def bindr_def st_advances_def split: sum.splits list.splits)
qed (use tokenize_fuel [of 0 src] in \<open>auto simp: filter_parse_def\<close>)

end
