(* ===== verification/Filter_Roundtrip.thy ===== *)
theory Filter_Roundtrip
  imports Filter_Parser
begin

section \<open>Row filters: what parsing a rendered predicate gives back\<close>

text \<open>
  Rendering and parsing are inverse: the text \<open>render\<close> prints for a predicate, in a dialect
  that leaves identifiers bare and doubles the quotes of strings, tokenizes and parses to
  the same syntax tree, so no precedence or literal is lost on the way into SQL. And the
  column list a parsed filter carries is exactly the set of columns its tree names.
\<close>

subsection \<open>The columns of a parsed filter\<close>

fun level_columns :: "level \<Rightarrow> string list" where
  "level_columns (Or_Loop left) = expr_columns left"
| "level_columns (And_Loop left) = expr_columns left"
| "level_columns _ = []"

lemma comparison_op_columns: "comparison_op n column ts = Inr (e, r) \<Longrightarrow> expr_columns e = [column]"
  by (auto simp: comparison_op_def comparison_rhs_def in_list_def bindr_Inr_iff Let_def
      split: list.splits tok.splits if_splits option.splits)

lemma comparison_columns:
  "comparison n st = Inr (e, st') \<Longrightarrow> snd st' = snd st @ expr_columns e"
  by (auto simp: comparison_def bindr_Inr_iff comparison_op_columns
      split: list.splits tok.splits if_splits prod.splits)

lemma parse_at_columns:
  "parse_at f n lvl st = Inr (e, st') \<Longrightarrow>
     \<exists>X. snd st' = snd st @ X \<and> expr_columns e = level_columns lvl @ X"
proof (induction f arbitrary: lvl st e st')
  case (Suc f)
  show ?case
  proof (cases lvl)
    case Or_Expr
    with Suc.prems obtain l st1 where "parse_at f n And_Expr st = Inr (l, st1)"
      "parse_at f n (Or_Loop l) st1 = Inr (e, st')" by (auto simp: bindr_Inr_iff)
    from this [THEN Suc.IH] Or_Expr show ?thesis by auto
  next
    case (Or_Loop left)
    show ?thesis
    proof (cases "peek_keyword ''OR'' (fst st)")
      case True
      with Suc.prems Or_Loop obtain l st1 where "parse_at f n And_Expr (tl (fst st), snd st) = Inr (l, st1)"
        "parse_at f n (Or_Loop (FOr left l)) st1 = Inr (e, st')" by (auto simp: bindr_Inr_iff)
      from this [THEN Suc.IH] Or_Loop show ?thesis by auto
    qed (use Or_Loop Suc.prems in auto)
  next
    case And_Expr
    with Suc.prems obtain l st1 where "parse_at f n Not_Expr st = Inr (l, st1)"
      "parse_at f n (And_Loop l) st1 = Inr (e, st')" by (auto simp: bindr_Inr_iff)
    from this [THEN Suc.IH] And_Expr show ?thesis by auto
  next
    case (And_Loop left)
    show ?thesis
    proof (cases "peek_keyword ''AND'' (fst st)")
      case True
      with Suc.prems And_Loop obtain l st1 where "parse_at f n Not_Expr (tl (fst st), snd st) = Inr (l, st1)"
        "parse_at f n (And_Loop (FAnd left l)) st1 = Inr (e, st')" by (auto simp: bindr_Inr_iff)
      from this [THEN Suc.IH] And_Loop show ?thesis by auto
    qed (use And_Loop Suc.prems in auto)
  next
    case Not_Expr
    then show ?thesis using Suc.prems
      by (auto simp: bindr_Inr_iff split: if_splits dest!: Suc.IH)
  next
    case Primary
    then show ?thesis using Suc.prems
      by (auto simp: bindr_Inr_iff split: if_splits dest!: Suc.IH comparison_columns)
  qed
qed simp

text \<open>The column list of a parsed filter, which the startup check compares with the
  table, is sorted, free of repetitions and holds exactly the columns the predicate names.\<close>

theorem filter_parse_columns:
  assumes "filter_parse src = Inr f"
  shows "set (f_columns f) = set (expr_columns (f_expr f)) \<and> sorted (f_columns f) \<and> distinct (f_columns f)"
proof -
  from assms obtain ts e st' where p: "parse_at (4 * length ts + 4) (length src) Or_Expr (ts, []) = Inr (e, st')"
    and f: "f = \<lparr>f_expr = e, f_columns = dedup (sort (snd st'))\<rparr>"
    by (auto simp: filter_parse_def bindr_Inr_iff split: if_splits list.splits) (metis neq_Nil_conv)
  from parse_at_columns [OF p] have "snd st' = expr_columns e" by auto
  with f show ?thesis using sorted_distinct_dedup [of "sort (snd st')"] by simp
qed

theorem filter_parse_columns_witness:
  "filter_parse ''b = 1 AND (a < 2 OR b IS NULL)'' =
     Inr \<lparr>f_expr = FAnd (Cmp ''b'' Eq (LInt 1)) (FOr (Cmp ''a'' Lt (LInt 2)) (IsNull ''b'' False)),
          f_columns = [''a'', ''b'']\<rparr> \<and>
   set [''a'', ''b''] = set (expr_columns (FAnd (Cmp ''b'' Eq (LInt 1)) (FOr (Cmp ''a'' Lt (LInt 2)) (IsNull ''b'' False))))"
proof -
  have "filter_parse ''b = 1 AND (a < 2 OR b IS NULL)'' =
     Inr \<lparr>f_expr = FAnd (Cmp ''b'' Eq (LInt 1)) (FOr (Cmp ''a'' Lt (LInt 2)) (IsNull ''b'' False)),
          f_columns = [''a'', ''b'']\<rparr>" by code_simp
  with filter_parse_columns [OF this] show ?thesis by simp
qed

subsection \<open>Parsing the tokens of a predicate\<close>

fun literal_tok :: "literal \<Rightarrow> tok" where
  "literal_tok (LStr s) = TStr s"
| "literal_tok (LInt i) = TInt i"
| "literal_tok (LFloat f) = TFloat f"
| "literal_tok (LBool b) = TIdent (if b then ''TRUE'' else ''FALSE'')"

fun list_toks :: "literal list \<Rightarrow> tok list" where
  "list_toks [] = []"
| "list_toks [l] = [literal_tok l]"
| "list_toks (l # l' # ls) = literal_tok l # TComma # list_toks (l' # ls)"

fun toks_of :: "expr \<Rightarrow> tok list" where
  "toks_of (Cmp c op l) = [TIdent c, TOp op, literal_tok l]"
| "toks_of (IsNull c negated) =
     [TIdent c, TIdent ''IS''] @ (if negated then [TIdent ''NOT''] else []) @ [TIdent ''NULL'']"
| "toks_of (InList c list negated) =
     [TIdent c] @ (if negated then [TIdent ''NOT''] else []) @ [TIdent ''IN'', TLParen] @
     list_toks list @ [TRParen]"
| "toks_of (FAnd a b) = [TLParen] @ toks_of a @ [TIdent ''AND''] @ toks_of b @ [TRParen]"
| "toks_of (FOr a b) = [TLParen] @ toks_of a @ [TIdent ''OR''] @ toks_of b @ [TRParen]"
| "toks_of (FNot a) = [TLParen, TIdent ''NOT''] @ toks_of a @ [TRParen]"

definition ident_ok :: "string \<Rightarrow> bool" where
  "ident_ok c \<longleftrightarrow> c \<noteq> [] \<and> ident_start (hd c) \<and> list_all ident_part (tl c)"

definition column_ok :: "string \<Rightarrow> bool" where
  "column_ok c \<longleftrightarrow> ident_ok c \<and> \<not> is_keyword c"

definition float_text_ok :: "(f64 \<Rightarrow> string) \<Rightarrow> f64 \<Rightarrow> bool" where
  "float_text_ok fshow f \<longleftrightarrow>
     (let (neg, body) = take_sign (fshow f); (whole, rest) = span_digits body
      in (fshow f = body \<or> fshow f = CHR ''-'' # body) \<and> whole \<noteq> [] \<and> rest \<noteq> [] \<and> hd rest = CHR ''.'' \<and>
         tl rest \<noteq> [] \<and> list_all is_ascii_digit (tl rest)) \<and>
     parse_f64 (fshow f) = Some f \<and> f64_is_finite f"

fun literal_ok :: "(f64 \<Rightarrow> string) \<Rightarrow> literal \<Rightarrow> bool" where
  "literal_ok fshow (LInt i) \<longleftrightarrow> i64_min \<le> i \<and> i \<le> i64_max"
| "literal_ok fshow (LFloat f) \<longleftrightarrow> float_text_ok fshow f"
| "literal_ok fshow _ \<longleftrightarrow> True"

fun expr_ok :: "(f64 \<Rightarrow> string) \<Rightarrow> expr \<Rightarrow> bool" where
  "expr_ok fshow (Cmp c op l) \<longleftrightarrow> column_ok c \<and> literal_ok fshow l"
| "expr_ok fshow (IsNull c _) \<longleftrightarrow> column_ok c"
| "expr_ok fshow (InList c list _) \<longleftrightarrow> column_ok c \<and> list \<noteq> [] \<and> list_all (literal_ok fshow) list"
| "expr_ok fshow (FAnd a b) \<longleftrightarrow> expr_ok fshow a \<and> expr_ok fshow b"
| "expr_ok fshow (FOr a b) \<longleftrightarrow> expr_ok fshow a \<and> expr_ok fshow b"
| "expr_ok fshow (FNot a) \<longleftrightarrow> expr_ok fshow a"

fun depth :: "expr \<Rightarrow> nat" where
  "depth (FAnd a b) = depth a + depth b + 7"
| "depth (FOr a b) = depth a + depth b + 7"
| "depth (FNot a) = depth a + 7"
| "depth _ = 2"

lemma depth_toks: "depth e \<le> 4 * length (toks_of e)"
  by (induction e) auto

lemma case_words [simp]:
  "eq_ignore_ascii_case ''TRUE'' ''TRUE''" "\<not> eq_ignore_ascii_case ''FALSE'' ''TRUE''"
  "\<not> eq_ignore_ascii_case ''TRUE'' ''NULL''" "\<not> eq_ignore_ascii_case ''FALSE'' ''NULL''"
  "\<not> eq_ignore_ascii_case ''IN'' ''IS''" "\<not> eq_ignore_ascii_case ''NOT'' ''IS''"
  "\<not> eq_ignore_ascii_case ''NOT'' ''IN''" "\<not> eq_ignore_ascii_case ''NULL'' ''NOT''"
  "\<not> eq_ignore_ascii_case ''AND'' ''OR''" "\<not> eq_ignore_ascii_case ''OR'' ''AND''"
  by code_simp+

lemma literal_of_tok [simp]: "literal_of (literal_tok l) = Some l"
  by (cases l) auto

lemma literal_tok_not [simp]:
  "literal_tok l \<noteq> TRParen" "literal_tok l \<noteq> TComma" "literal_tok l \<noteq> TLParen"
  "\<not> tok_is_keyword (literal_tok l) ''NULL''"
  by (cases l; simp)+

lemma column_not_keyword:
  assumes "column_ok c"
  shows "\<not> is_keyword c" "\<not> eq_ignore_ascii_case c ''NOT''"
  using assms by (auto simp: column_ok_def is_keyword_def KEYWORDS_def)

lemma in_items_toks:
  "list \<noteq> [] \<Longrightarrow> map t_tok ts = list_toks list @ [TRParen] \<Longrightarrow> in_items n (ts @ ts2) = Inr (list, ts2)"
proof (induction list arbitrary: ts rule: list_toks.induct)
  case (2 l)
  then obtain a b where "ts = [a, b]" "t_tok a = literal_tok l" "t_tok b = TRParen"
    by (auto simp: map_eq_Cons_conv)
  then show ?case by (simp add: expect_rparen_def)
next
  case (3 l l' ls)
  then obtain a b rest where ts: "ts = a # b # rest" "t_tok a = literal_tok l" "t_tok b = TComma"
    "map t_tok rest = list_toks (l' # ls) @ [TRParen]" by (auto simp: map_eq_Cons_conv)
  with "3.IH" [OF _ ts(4)] show ?case by simp
qed simp

lemma list_toks_hd: "list \<noteq> [] \<Longrightarrow> \<exists>l rest. list_toks list = literal_tok l # rest"
  by (cases list rule: list_toks.cases) auto

lemma comparison_toks:
  assumes "expr_ok fshow e" "map t_tok ts = toks_of e" "depth e = 2"
  shows "comparison n (ts @ ts2, cols) = Inr (e, ts2, cols @ expr_columns e)"
proof (cases e)
  case (Cmp c op l)
  with assms obtain t1 t2 t3 where "ts = [t1, t2, t3]" "t_tok t1 = TIdent c" "t_tok t2 = TOp op"
    "t_tok t3 = literal_tok l" by (auto simp: map_eq_Cons_conv)
  with Cmp assms(1) show ?thesis
    by (simp add: comparison_def comparison_op_def comparison_rhs_def peek_is_def peek_keyword_def
        peek_def column_not_keyword)
next
  case (IsNull c negated)
  show ?thesis
  proof (cases negated)
    case True
    with IsNull assms obtain t1 t2 t3 t4 where "ts = [t1, t2, t3, t4]" "t_tok t1 = TIdent c"
      "t_tok t2 = TIdent ''IS''" "t_tok t3 = TIdent ''NOT''" "t_tok t4 = TIdent ''NULL''"
      by (auto simp: map_eq_Cons_conv)
    with IsNull True assms(1) show ?thesis
      by (simp add: comparison_def comparison_op_def peek_is_def peek_keyword_def peek_def
          column_not_keyword Let_def)
  next
    case False
    with IsNull assms obtain t1 t2 t3 where "ts = [t1, t2, t3]" "t_tok t1 = TIdent c"
      "t_tok t2 = TIdent ''IS''" "t_tok t3 = TIdent ''NULL''" by (auto simp: map_eq_Cons_conv)
    with IsNull False assms(1) show ?thesis
      by (simp add: comparison_def comparison_op_def peek_is_def peek_keyword_def peek_def
          column_not_keyword Let_def)
  qed
next
  case (InList c list negated)
  with assms have ok: "column_ok c" "list \<noteq> []" by auto
  have inl: "in_list n c b (p # us @ ts2) = Inr (InList c list b, ts2)"
    if "t_tok p = TLParen" "map t_tok us = list_toks list @ [TRParen]" for p us b
  proof -
    from list_toks_hd [OF ok(2)] that(2) obtain l u us' where "us = u # us'" "t_tok u = literal_tok l"
      by (auto simp: map_eq_Cons_conv)
    then show ?thesis using that in_items_toks [OF ok(2) that(2)]
      by (simp add: in_list_def peek_is_def peek_def)
  qed
  show ?thesis
  proof (cases negated)
    case True
    with InList assms obtain t1 t2 t3 t4 us where ts: "ts = t1 # t2 # t3 # t4 # us" "t_tok t1 = TIdent c"
      "t_tok t2 = TIdent ''NOT''" "t_tok t3 = TIdent ''IN''" "t_tok t4 = TLParen"
      "map t_tok us = list_toks list @ [TRParen]" by (auto simp: map_eq_Cons_conv)
    with InList True ok inl [OF ts(5,6)] show ?thesis
      by (simp add: comparison_def comparison_op_def peek_is_def peek_keyword_def peek_def column_not_keyword)
  next
    case False
    with InList assms obtain t1 t3 t4 us where ts: "ts = t1 # t3 # t4 # us" "t_tok t1 = TIdent c"
      "t_tok t3 = TIdent ''IN''" "t_tok t4 = TLParen"
      "map t_tok us = list_toks list @ [TRParen]" by (auto simp: map_eq_Cons_conv)
    with InList False ok inl [OF ts(4,5)] show ?thesis
      by (simp add: comparison_def comparison_op_def peek_is_def peek_keyword_def peek_def column_not_keyword)
  qed
qed (use assms in auto)

lemma toks_hd_column:
  assumes "depth e = 2"
  shows "\<exists>c rest. toks_of e = TIdent c # rest \<and> c \<in> set (expr_columns e)"
  using assms by (cases e) auto

lemma expr_ok_columns: "expr_ok fshow e \<Longrightarrow> c \<in> set (expr_columns e) \<Longrightarrow> column_ok c"
  by (induction e) auto

lemma peek_Cons [simp]:
  "peek_is t (x # xs) \<longleftrightarrow> t_tok x = t"
  "peek_keyword k (x # xs) \<longleftrightarrow> tok_is_keyword (t_tok x) k"
  by (simp_all add: peek_is_def peek_keyword_def peek_def)

lemma parse_toks_leaf:
  assumes "expr_ok fshow e" "map t_tok ts = toks_of e" "depth e = 2"
  shows "parse_at (Suc (Suc f)) n Not_Expr (ts @ ts2, cols) = Inr (e, ts2, cols @ expr_columns e)"
proof -
  from toks_hd_column [OF assms(3)] obtain c rest where c: "toks_of e = TIdent c # rest" "c \<in> set (expr_columns e)"
    by blast
  with assms obtain t us where "ts = t # us" "t_tok t = TIdent c" by (auto simp: map_eq_Cons_conv)
  with comparison_toks [OF assms, of n ts2 cols] column_not_keyword(2) [OF expr_ok_columns [OF assms(1) c(2)]]
  show ?thesis by simp
qed

lemma parse_toks_paren:
  assumes "t_tok p = TLParen" "t_tok q = TRParen"
    and "parse_at f n Or_Expr (us @ q # ts2, cols) = Inr (e, q # ts2, cols')"
  shows "parse_at (Suc (Suc f)) n Not_Expr (p # us @ q # ts2, cols) = Inr (e, ts2, cols')"
  using assms by (simp add: expect_rparen_def)

lemma keyword_rparen: "t_tok q = TRParen \<Longrightarrow> \<not> peek_keyword w (q # ts)"
  by simp

lemma and_chain:
  assumes "parse_at (Suc (Suc h)) n Not_Expr (us, cols) = Inr (a, k # vs, c1)" "t_tok k = TIdent ''AND''"
    and "parse_at (Suc h) n Not_Expr (vs, c1) = Inr (b, q # ts2, c2)" "t_tok q = TRParen"
  shows "parse_at (Suc (Suc (Suc (Suc h)))) n Or_Expr (us, cols) = Inr (FAnd a b, q # ts2, c2)"
proof -
  have "parse_at (Suc h) n (And_Loop (FAnd a b)) (q # ts2, c2) = Inr (FAnd a b, q # ts2, c2)"
    using assms(4) by simp
  with assms(2,3) have "parse_at (Suc (Suc h)) n (And_Loop a) (k # vs, c1) = Inr (FAnd a b, q # ts2, c2)"
    by (subst parse_at.simps(2)) (simp del: parse_at.simps)
  with assms(1) have "parse_at (Suc (Suc (Suc h))) n And_Expr (us, cols) = Inr (FAnd a b, q # ts2, c2)"
    by (subst parse_at.simps(2)) (simp del: parse_at.simps)
  moreover have "parse_at (Suc (Suc (Suc h))) n (Or_Loop (FAnd a b)) (q # ts2, c2) = Inr (FAnd a b, q # ts2, c2)"
    using assms(4) by simp
  ultimately show ?thesis by (subst parse_at.simps(2)) (simp del: parse_at.simps)
qed

lemma or_chain:
  assumes "parse_at (Suc (Suc h)) n Not_Expr (us, cols) = Inr (a, k # vs, c1)" "t_tok k = TIdent ''OR''"
    and "parse_at (Suc h) n Not_Expr (vs, c1) = Inr (b, q # ts2, c2)" "t_tok q = TRParen"
  shows "parse_at (Suc (Suc (Suc (Suc h)))) n Or_Expr (us, cols) = Inr (FOr a b, q # ts2, c2)"
proof -
  have "parse_at (Suc (Suc h)) n (And_Loop a) (k # vs, c1) = Inr (a, k # vs, c1)"
    using assms(2) by simp
  with assms(1) have left: "parse_at (Suc (Suc (Suc h))) n And_Expr (us, cols) = Inr (a, k # vs, c1)"
    by (subst parse_at.simps(2)) (simp del: parse_at.simps)
  have "parse_at (Suc h) n (And_Loop b) (q # ts2, c2) = Inr (b, q # ts2, c2)"
    using assms(4) by simp
  with assms(3) have "parse_at (Suc (Suc h)) n And_Expr (vs, c1) = Inr (b, q # ts2, c2)"
    by (subst parse_at.simps(2)) (simp del: parse_at.simps)
  moreover have "parse_at (Suc (Suc h)) n (Or_Loop (FOr a b)) (q # ts2, c2) = Inr (FOr a b, q # ts2, c2)"
    using assms(4) by simp
  ultimately have "parse_at (Suc (Suc (Suc h))) n (Or_Loop a) (k # vs, c1) = Inr (FOr a b, q # ts2, c2)"
    using assms(2) by (subst parse_at.simps(2)) (simp del: parse_at.simps)
  with left show ?thesis by (subst parse_at.simps(2)) (simp del: parse_at.simps)
qed

lemma not_chain:
  assumes "t_tok k = TIdent ''NOT''" "parse_at (Suc h) n Not_Expr (us, cols) = Inr (a, q # ts2, c1)"
    and "t_tok q = TRParen"
  shows "parse_at (Suc (Suc (Suc (Suc h)))) n Or_Expr (k # us, cols) = Inr (FNot a, q # ts2, c1)"
proof -
  have "parse_at (Suc (Suc h)) n Not_Expr (k # us, cols) = Inr (FNot a, q # ts2, c1)"
    using assms by (subst parse_at.simps(2)) (simp del: parse_at.simps)
  moreover have "parse_at (Suc (Suc h)) n (And_Loop (FNot a)) (q # ts2, c1) = Inr (FNot a, q # ts2, c1)"
    "parse_at (Suc (Suc (Suc h))) n (Or_Loop (FNot a)) (q # ts2, c1) = Inr (FNot a, q # ts2, c1)"
    using assms(3) by simp_all
  ultimately show ?thesis
    by (simp del: parse_at.simps add: parse_at.simps(2) [of "Suc (Suc (Suc h))"] parse_at.simps(2) [of "Suc (Suc h)" n And_Expr])
qed

lemma fuel_six: "d + 7 \<le> f \<Longrightarrow> \<exists>h. f = Suc (Suc (Suc (Suc (Suc (Suc h))))) \<and> d < h + 1"
  using le_Suc_ex [of 6 f] by (auto simp: numeral_eq_Suc)

lemma parse_toks:
  assumes "expr_ok fshow e" "map t_tok ts = toks_of e" "depth e \<le> f"
  shows "parse_at f n Not_Expr (ts @ ts2, cols) = Inr (e, ts2, cols @ expr_columns e)"
  using assms
proof (induction e arbitrary: ts ts2 f cols)
  case (FAnd a b)
  from FAnd.prems(2) obtain p as k bs q where ts: "ts = p # as @ k # bs @ [q]" "t_tok p = TLParen"
    "map t_tok as = toks_of a" "t_tok k = TIdent ''AND''" "map t_tok bs = toks_of b" "t_tok q = TRParen"
    by (auto simp: map_eq_append_conv map_eq_Cons_conv append_eq_map_conv)
  from FAnd.prems(3) fuel_six [of "depth a + depth b" f] obtain h
    where h: "f = Suc (Suc (Suc (Suc (Suc (Suc h)))))" "depth a + depth b < h + 1" by auto
  have "parse_at (Suc (Suc (Suc (Suc h)))) n Or_Expr (as @ k # bs @ q # ts2, cols)
      = Inr (FAnd a b, q # ts2, (cols @ expr_columns a) @ expr_columns b)"
    by (rule and_chain [OF FAnd.IH(1) ts(4) FAnd.IH(2) ts(6)]) (use FAnd.prems(1) ts h in auto)
  then have "parse_at (Suc (Suc (Suc (Suc h)))) n Or_Expr ((as @ k # bs) @ q # ts2, cols)
      = Inr (FAnd a b, q # ts2, cols @ expr_columns (FAnd a b))" by simp
  from parse_toks_paren [OF ts(2) ts(6) this] show ?case using ts(1) h(1) by simp
next
  case (FOr a b)
  from FOr.prems(2) obtain p as k bs q where ts: "ts = p # as @ k # bs @ [q]" "t_tok p = TLParen"
    "map t_tok as = toks_of a" "t_tok k = TIdent ''OR''" "map t_tok bs = toks_of b" "t_tok q = TRParen"
    by (auto simp: map_eq_append_conv map_eq_Cons_conv append_eq_map_conv)
  from FOr.prems(3) fuel_six [of "depth a + depth b" f] obtain h
    where h: "f = Suc (Suc (Suc (Suc (Suc (Suc h)))))" "depth a + depth b < h + 1" by auto
  have "parse_at (Suc (Suc (Suc (Suc h)))) n Or_Expr (as @ k # bs @ q # ts2, cols)
      = Inr (FOr a b, q # ts2, (cols @ expr_columns a) @ expr_columns b)"
    by (rule or_chain [OF FOr.IH(1) ts(4) FOr.IH(2) ts(6)]) (use FOr.prems(1) ts h in auto)
  then have "parse_at (Suc (Suc (Suc (Suc h)))) n Or_Expr ((as @ k # bs) @ q # ts2, cols)
      = Inr (FOr a b, q # ts2, cols @ expr_columns (FOr a b))" by simp
  from parse_toks_paren [OF ts(2) ts(6) this] show ?case using ts(1) h(1) by simp
next
  case (FNot a)
  from FNot.prems(2) obtain p k as q where ts: "ts = p # k # as @ [q]" "t_tok p = TLParen"
    "t_tok k = TIdent ''NOT''" "map t_tok as = toks_of a" "t_tok q = TRParen"
    by (auto simp: map_eq_append_conv map_eq_Cons_conv append_eq_map_conv)
  from FNot.prems(3) fuel_six [of "depth a" f] obtain h
    where h: "f = Suc (Suc (Suc (Suc (Suc (Suc h)))))" "depth a < h + 1" by auto
  have "parse_at (Suc (Suc (Suc (Suc h)))) n Or_Expr (k # as @ q # ts2, cols)
      = Inr (FNot a, q # ts2, cols @ expr_columns a)"
    by (rule not_chain [OF ts(3) FNot.IH ts(5)]) (use FNot.prems(1) ts h in auto)
  then have "parse_at (Suc (Suc (Suc (Suc h)))) n Or_Expr ((k # as) @ q # ts2, cols)
      = Inr (FNot a, q # ts2, cols @ expr_columns (FNot a))" by simp
  from parse_toks_paren [OF ts(2) ts(5) this] show ?case using ts(1) h(1) by simp
next
  case (Cmp c op l)
  from Cmp.prems(3) obtain g where "f = Suc (Suc g)" using le_Suc_ex [of 2 f] by auto
  then show ?case by (simp only: parse_toks_leaf [OF Cmp.prems(1,2)] depth.simps)
next
  case (IsNull c b)
  from IsNull.prems(3) obtain g where "f = Suc (Suc g)" using le_Suc_ex [of 2 f] by auto
  then show ?case by (simp only: parse_toks_leaf [OF IsNull.prems(1,2)] depth.simps)
next
  case (InList c list b)
  from InList.prems(3) obtain g where "f = Suc (Suc g)" using le_Suc_ex [of 2 f] by auto
  then show ?case by (simp only: parse_toks_leaf [OF InList.prems(1,2)] depth.simps)
qed

text \<open>The last level of the parser and the check for trailing tokens.\<close>

lemma parse_at_enter:
  assumes "parse_at (Suc f) n Not_Expr (ts, cols) = Inr (e, [], cols')"
  shows "parse_at (Suc (Suc (Suc f))) n Or_Expr (ts, cols) = Inr (e, [], cols')"
proof -
  have "parse_at (Suc f) n (And_Loop e) ([], cols') = Inr (e, [], cols')"
    "parse_at (Suc (Suc f)) n (Or_Loop e) ([], cols') = Inr (e, [], cols')"
    by (simp_all add: peek_keyword_def peek_def)
  with assms show ?thesis
    by (simp del: parse_at.simps add: parse_at.simps(2) [of "Suc (Suc f)"] parse_at.simps(2) [of "Suc f" n And_Expr])
qed

lemma filter_parse_toks:
  assumes "expr_ok fshow e" "trim src \<noteq> []" "tokenize 0 src = Inr ts" "map t_tok ts = toks_of e"
  shows "filter_parse src = Inr \<lparr>f_expr = e, f_columns = dedup (sort (expr_columns e))\<rparr>"
proof -
  have "length ts = length (toks_of e)" using assms(4) by (metis length_map)
  with depth_toks [of e] have "depth e \<le> 4 * length ts + 2" by simp
  from parse_toks [OF assms(1,4) this, of "length src" "[]" "[]"]
  have "parse_at (Suc (4 * length ts + 1)) (length src) Not_Expr (ts, []) = Inr (e, [], expr_columns e)"
    by simp
  from parse_at_enter [OF this] have "parse_at (4 * length ts + 4) (length src) Or_Expr (ts, []) = Inr (e, [], expr_columns e)"
    by (simp only: numeral_eq_Suc add_Suc_right add_0_right pred_numeral_simps) simp
  with assms(2,3) show ?thesis by (simp add: filter_parse_def)
qed

subsection \<open>Tokenizing the text of a predicate\<close>

text \<open>\<open>lexes P str tks\<close>: in front of any text that satisfies \<open>P\<close>, the text \<open>str\<close> is read as the
  tokens \<open>tks\<close> and the scanner goes on after it.\<close>

definition lexes :: "(string \<Rightarrow> bool) \<Rightarrow> string \<Rightarrow> tok list \<Rightarrow> bool" where
  "lexes P str tks \<longleftrightarrow>
     (\<forall>i rest. P rest \<longrightarrow> (\<exists>ts. map t_tok ts = tks \<and>
        tokenize i (str @ rest) = bindr (tokenize (i + length str) rest) (\<lambda>r. Inr (ts @ r))))"

definition sep :: "string \<Rightarrow> bool" where
  "sep rest \<longleftrightarrow> rest = [] \<or> hd rest \<in> set '' ),''"

lemma sep_simps [simp]: "sep []" "sep (c # s) \<longleftrightarrow> c = CHR '' '' \<or> c = CHR '')'' \<or> c = CHR '',''"
  by (auto simp: sep_def)

lemma lexesI:
  assumes "\<And>i rest. P rest \<Longrightarrow> \<exists>ts. map t_tok ts = tks \<and>
    tokenize i (str @ rest) = bindr (tokenize (i + length str) rest) (\<lambda>r. Inr (ts @ r))"
  shows "lexes P str tks"
  using assms by (simp add: lexes_def)

lemma lexes_append:
  assumes "lexes Q s1 t1" "lexes P s2 t2" "\<And>rest. P rest \<Longrightarrow> Q (s2 @ rest)"
  shows "lexes P (s1 @ s2) (t1 @ t2)"
proof (rule lexesI)
  fix i rest assume P: "P rest"
  from assms(1) assms(3) [OF P] obtain ts1 where ts1: "map t_tok ts1 = t1"
    "tokenize i (s1 @ s2 @ rest) = bindr (tokenize (i + length s1) (s2 @ rest)) (\<lambda>r. Inr (ts1 @ r))"
    unfolding lexes_def by blast
  from assms(2) P obtain ts2 where ts2: "map t_tok ts2 = t2"
    "tokenize (i + length s1) (s2 @ rest) = bindr (tokenize (i + length s1 + length s2) rest) (\<lambda>r. Inr (ts2 @ r))"
    unfolding lexes_def by blast
  from ts1 ts2 show "\<exists>ts. map t_tok ts = t1 @ t2 \<and>
      tokenize i ((s1 @ s2) @ rest) = bindr (tokenize (i + length (s1 @ s2)) rest) (\<lambda>r. Inr (ts @ r))"
    by (intro exI [of _ "ts1 @ ts2"]) (simp add: bindr_assoc add.assoc)
qed

lemma lexes_sep: "lexes P s t \<Longrightarrow> (\<And>rest. Q rest \<Longrightarrow> P rest) \<Longrightarrow> lexes Q s t"
  by (simp add: lexes_def)

lemma lexes_token:
  assumes "\<not> is_tok_space c"
    and "\<And>i rest. P rest \<Longrightarrow> \<exists>t. next_token i c (s @ rest) = Inr (t, rest) \<and> t_tok t = k"
  shows "lexes P (c # s) [k]"
proof (rule lexesI)
  fix i rest assume "P rest"
  from assms(2) [OF this] obtain t where "next_token i c (s @ rest) = Inr (t, rest)" "t_tok t = k" by blast
  with assms(1) show "\<exists>ts. map t_tok ts = [k] \<and>
      tokenize i ((c # s) @ rest) = bindr (tokenize (i + length (c # s)) rest) (\<lambda>r. Inr (ts @ r))"
    by (intro exI [of _ "[t]"]) simp
qed

lemma lexes_space: "lexes P ('' '') []"
  by (rule lexesI) (simp add: is_tok_space_def bindr_def split: sum.splits)

lemma lexes_punct:
  "lexes P ''('' [TLParen]" "lexes P '')'' [TRParen]" "lexes P '','' [TComma]"
  by (rule lexes_token; simp add: is_tok_space_def next_token_def single_def)+

lemma sep_not_part: "sep rest \<Longrightarrow> takeWhile ident_part rest = [] \<and> dropWhile ident_part rest = rest"
  by (cases rest) (auto simp: ident_part_def ascii_defs)

lemma sep_not_digit: "sep rest \<Longrightarrow> takeWhile is_ascii_digit rest = [] \<and> dropWhile is_ascii_digit rest = rest"
  by (cases rest) (auto simp: ascii_defs)

lemma ident_start_distinct:
  assumes "ident_start c"
  shows "c \<noteq> CHR ''(''" "c \<noteq> CHR '')''" "c \<noteq> CHR '',''" "c \<noteq> CHR 0x27" "c \<noteq> CHR ''-''"
    "\<not> is_ascii_digit c" "\<not> is_tok_space c"
  using assms by (auto simp: ident_start_def ascii_defs is_tok_space_def)

lemma lexes_ident:
  assumes "ident_ok w"
  shows "lexes sep w [TIdent w]"
proof -
  from assms obtain c s where w: "w = c # s" "ident_start c" "\<forall>x\<in>set s. ident_part x"
    by (cases w) (auto simp: ident_ok_def list_all_iff)
  note d = ident_start_distinct [OF w(2)]
  show ?thesis unfolding w(1)
  proof (rule lexes_token [OF d(7)])
    fix i rest assume "sep rest"
    with w(3) sep_not_part [of rest] show "\<exists>t. next_token i c (s @ rest) = Inr (t, rest) \<and> t_tok t = TIdent (c # s)"
      by (simp add: next_token_def Let_def d w(2) takeWhile_append2 dropWhile_append2)
  qed
qed

lemma lexes_op: "lexes (\<lambda>r. r \<noteq> [] \<and> hd r = CHR '' '') (cmp_sql op) [TOp op]"
proof -
  have "\<exists>t. next_token i (hd (cmp_sql op)) (tl (cmp_sql op) @ rest) = Inr (t, rest) \<and> t_tok t = TOp op"
    if "rest \<noteq> [] \<and> hd rest = CHR '' ''" for i rest
    using that by (cases op; cases rest) (simp_all add: next_token_def ascii_defs ident_start_def scan_op_def)
  moreover have "\<not> is_tok_space (hd (cmp_sql op))" "hd (cmp_sql op) # tl (cmp_sql op) = cmp_sql op"
    by (cases op; simp add: is_tok_space_def)+
  ultimately show ?thesis
    using lexes_token [of "hd (cmp_sql op)" _ "tl (cmp_sql op)" "TOp op"] by simp
qed

subsubsection \<open>Literals\<close>

abbreviation quote :: char where "quote \<equiv> CHR 0x27"

definition double_quotes :: "string \<Rightarrow> string" where
  "double_quotes s = replace_str [quote] [quote, quote] s"

lemma double_quotes_simps [simp]:
  "double_quotes [] = []"
  "double_quotes (c # s) = (if c = quote then quote # quote # double_quotes s else c # double_quotes s)"
  by (simp_all add: double_quotes_def)

lemma undouble_quotes: "replace_str [quote, quote] [quote] (double_quotes s) = s"
proof (induction s)
  case (Cons c s)
  show ?case
  proof (cases "double_quotes s")
    case Nil
    with Cons show ?thesis by simp
  next
    case (Cons d u)
    with Cons.IH show ?thesis by simp
  qed
qed simp

lemma scan_string_doubled:
  assumes "rest \<noteq> [] \<Longrightarrow> hd rest \<noteq> quote"
  shows "scan_string (double_quotes s @ quote # rest) = Some (double_quotes s, rest)"
proof (induction s)
  case Nil
  from assms show ?case by (cases rest) auto
next
  case (Cons c s)
  obtain d u where "double_quotes s @ quote # rest = d # u" by (cases "double_quotes s") auto
  with Cons show ?case by simp
qed

lemma lexes_string: "lexes sep (quote # double_quotes s @ [quote]) [TStr s]"
proof (rule lexes_token)
  fix i rest assume "sep rest"
  then have "rest \<noteq> [] \<Longrightarrow> hd rest \<noteq> quote" by (cases rest) auto
  from scan_string_doubled [OF this]
  show "\<exists>t. next_token i quote ((double_quotes s @ [quote]) @ rest) = Inr (t, rest) \<and> t_tok t = TStr s"
    by (simp add: next_token_def undouble_quotes)
qed (simp add: is_tok_space_def)

text \<open>A number: an optional minus sign and digits, read up to the separator.\<close>

lemma digit_distinct:
  assumes "is_ascii_digit c"
  shows "c \<noteq> CHR ''(''" "c \<noteq> CHR '')''" "c \<noteq> CHR '',''" "c \<noteq> CHR 0x27" "c \<noteq> CHR ''-''" "\<not> is_tok_space c"
  using assms by (auto simp: ascii_defs is_tok_space_def)

lemma lexes_number:
  assumes "digits \<noteq> []" "is_ascii_digit (hd digits)" "sign = [] \<or> sign = ''-''"
    and "\<And>i rest. sep rest \<Longrightarrow> \<exists>t. scan_number i sign (digits @ rest) = Inr (t, rest) \<and> t_tok t = k"
  shows "lexes sep (sign @ digits) [k]"
proof -
  obtain d ds where d: "digits = d # ds" "is_ascii_digit d" using assms(1,2) by (cases digits) auto
  show ?thesis
  proof (cases "sign = []")
    case True
    have "lexes sep (d # ds) [k]"
      by (rule lexes_token)
         (use assms(4) d True in \<open>simp_all add: next_token_def digit_distinct\<close>)
    with d True show ?thesis by simp
  next
    case False
    with assms(3) have s: "sign = ''-''" by simp
    have "lexes sep (CHR ''-'' # digits) [k]"
      by (rule lexes_token) (use assms(4) d s in \<open>simp_all add: next_token_def is_tok_space_def\<close>)
    with s show ?thesis by simp
  qed
qed

lemma digits_only:
  assumes "c \<in> set (show_nat n)"
  shows "is_ascii_digit c"
proof -
  from assms obtain d where d: "d \<in> set (radix_digits 10 n)" "c = digit_char d"
    by (auto simp: show_nat_def show_radix_def)
  with radix_digits_less [of 10 d n] show ?thesis by (simp add: is_ascii_digit_def asc_digit_char)
qed

lemma scan_int:
  assumes "sep rest" "parse_i64 (sign @ show_nat m) = Some i"
  shows "scan_number j sign (show_nat m @ rest) =
    Inr (\<lparr>t_tok = TInt i, t_offset = j, t_text = sign @ show_nat m\<rparr>, rest)"
proof -
  have "span_digits (show_nat m @ rest) = (show_nat m, rest)"
    using sep_not_digit [OF assms(1)] digits_only
    by (simp add: span_digits_def takeWhile_append2 dropWhile_append2)
  moreover have "\<not> (case rest of c # d # _ \<Rightarrow> c = CHR ''.'' \<and> is_ascii_digit d | _ \<Rightarrow> False)"
    using assms(1) by (auto split: list.splits)
  ultimately show ?thesis using assms(2) by (simp add: scan_number_def)
qed

lemma show_nat_ne [simp]: "show_nat n \<noteq> []"
  by (simp add: show_nat_def)

lemma lexes_int:
  assumes "i64_min \<le> i" "i \<le> i64_max"
  shows "lexes sep (show_int i) [TInt i]"
proof -
  define sign where "sign = (if i < 0 then ''-'' else [])"
  define m where "m = nat \<bar>i\<bar>"
  have shown: "show_int i = sign @ show_nat m" by (simp add: show_int_def sign_def m_def)
  with assms have "parse_i64 (sign @ show_nat m) = Some i"
    by (metis parse_i64_def parse_signed_show)
  then show ?thesis unfolding shown
    by (intro lexes_number) (auto simp: scan_int sign_def digits_only [OF hd_in_set])
qed

lemma float_text:
  assumes "float_text_ok fshow f"
  obtains sign whole frac where "fshow f = sign @ whole @ ''.'' @ frac" "sign = [] \<or> sign = ''-''"
    "whole \<noteq> []" "\<forall>c\<in>set whole. is_ascii_digit c" "frac \<noteq> []" "\<forall>c\<in>set frac. is_ascii_digit c"
proof -
  obtain neg body where b: "take_sign (fshow f) = (neg, body)" by (cases "take_sign (fshow f)")
  obtain whole rest where w: "span_digits body = (whole, rest)" by (cases "span_digits body")
  have whole: "\<forall>c\<in>set whole. is_ascii_digit c" "body = whole @ rest"
    using w by (auto simp: span_digits_def dest: set_takeWhileD)
  from assms b w have r: "fshow f = body \<or> fshow f = CHR ''-'' # body" "whole \<noteq> []" "rest \<noteq> []"
    "hd rest = CHR ''.''" "tl rest \<noteq> []" "list_all is_ascii_digit (tl rest)"
    by (auto simp: float_text_ok_def Let_def)
  then have rest: "rest = CHR ''.'' # tl rest" by (cases rest) auto
  show ?thesis
    by (rule that [of "if fshow f = body then [] else ''-''" whole "tl rest"])
       (use r whole rest in \<open>auto simp: list_all_iff\<close>)
qed

lemma lexes_float:
  assumes "float_text_ok fshow f"
  shows "lexes sep (fshow f) [TFloat f]"
proof -
  from float_text [OF assms] obtain sign whole frac where t: "fshow f = sign @ whole @ ''.'' @ frac"
    "sign = [] \<or> sign = ''-''" "whole \<noteq> []" "\<forall>c\<in>set whole. is_ascii_digit c" "frac \<noteq> []"
    "\<forall>c\<in>set frac. is_ascii_digit c" by blast
  have fin: "parse_f64 (sign @ whole @ ''.'' @ frac) = Some f" "f64_is_finite f"
    using assms t(1) by (auto simp: float_text_ok_def)
  have "scan_number i sign ((whole @ ''.'' @ frac) @ rest) =
      Inr (\<lparr>t_tok = TFloat f, t_offset = i, t_text = sign @ whole @ ''.'' @ frac\<rparr>, rest)" if "sep rest" for i rest
  proof -
    have "span_digits ((whole @ ''.'' @ frac) @ rest) = (whole, ''.'' @ frac @ rest)"
      using t(4) by (simp add: span_digits_def takeWhile_append2 dropWhile_append2 ascii_defs)
    moreover have "span_digits (frac @ rest) = (frac, rest)"
      using t(6) sep_not_digit [OF that] by (simp add: span_digits_def takeWhile_append2 dropWhile_append2)
    moreover obtain d ds where "frac = d # ds" "is_ascii_digit d" using t(5,6) by (cases frac) auto
    ultimately show ?thesis using fin by (simp add: scan_number_def)
  qed
  then have "lexes sep (sign @ (whole @ ''.'' @ frac)) [TFloat f]"
    using t by (intro lexes_number) auto
  with t(1) show ?thesis by simp
qed

subsubsection \<open>Whole predicates\<close>

definition bare_dialect :: sql_dialect where
  "bare_dialect = \<lparr>quote_ident = (\<lambda>c. c), quote_str = (\<lambda>s. quote # double_quotes s @ [quote])\<rparr>"

lemma bare_dialect_simps [simp]:
  "quote_ident bare_dialect c = c"
  "quote_str bare_dialect s = quote # double_quotes s @ [quote]"
  by (simp_all add: bare_dialect_def)

lemma ident_ok_words [simp]:
  "ident_ok ''AND''" "ident_ok ''OR''" "ident_ok ''NOT''" "ident_ok ''IS''" "ident_ok ''NULL''"
  "ident_ok ''IN''" "ident_ok ''TRUE''" "ident_ok ''FALSE''"
  by code_simp+

lemma lexes_literal:
  assumes "literal_ok fshow l"
  shows "lexes sep (render_literal fshow bare_dialect l) [literal_tok l]"
proof (cases l)
  case (LBool b)
  then show ?thesis by (cases b) (simp_all add: render_literal_def lexes_ident)
qed (use assms in \<open>simp_all add: render_literal_def lexes_int lexes_float lexes_string [simplified]\<close>)

lemma lexes_space_before: "lexes P s t \<Longrightarrow> lexes P ('' '' @ s) t"
  using lexes_append [OF lexes_space, of P s t "\<lambda>_. True"] by simp

lemma lexes_before:
  assumes "lexes P s t"
  shows "lexes P (''('' @ s) (TLParen # t)" "lexes P ('')'' @ s) (TRParen # t)" "lexes P ('','' @ s) (TComma # t)"
  using lexes_append [OF lexes_punct(1) assms] lexes_append [OF lexes_punct(2) assms]
    lexes_append [OF lexes_punct(3) assms] by auto

lemma lexes_word_before:
  "ident_ok w \<Longrightarrow> lexes P s t \<Longrightarrow> (\<And>rest. P rest \<Longrightarrow> sep (s @ rest)) \<Longrightarrow> lexes P (w @ s) (TIdent w # t)"
  using lexes_append [OF lexes_ident, of w P s t] by simp

lemma lexes_op_before: "lexes P s t \<Longrightarrow> lexes P (cmp_sql op @ '' '' @ s) (TOp op # t)"
  using lexes_append [OF lexes_op lexes_space_before, of P s t op] by simp

lemma lexes_close: "lexes sep s t \<Longrightarrow> lexes P (s @ '')'') (t @ [TRParen])"
  by (rule lexes_append [of sep, OF _ lexes_punct(2)]) simp_all

lemma lexes_list:
  "list_all (literal_ok fshow) list \<Longrightarrow> list \<noteq> [] \<Longrightarrow>
   lexes sep (join '', '' (map (render_literal fshow bare_dialect) list)) (list_toks list)"
proof (induction list rule: list_toks.induct)
  case (2 l)
  then show ?case by (simp add: lexes_literal)
next
  case (3 l l' ls)
  let ?rest = "join '', '' (map (render_literal fshow bare_dialect) (l' # ls))"
  have "lexes sep ('','' @ '' '' @ ?rest) (TComma # list_toks (l' # ls))"
    by (intro lexes_before lexes_space_before "3.IH") (use 3 in simp_all)
  from lexes_append [OF lexes_literal this] 3 show ?case by simp
qed simp

lemma lexes_render:
  "expr_ok fshow e \<Longrightarrow> lexes sep (render fshow bare_dialect e) (toks_of e)"
proof (induction e)
  case (Cmp c op l)
  have "lexes sep (c @ '' '' @ cmp_sql op @ '' '' @ render_literal fshow bare_dialect l) (TIdent c # TOp op # [literal_tok l])"
    by (intro lexes_word_before lexes_space_before lexes_op_before lexes_literal)
       (use Cmp in \<open>simp_all add: column_ok_def\<close>)
  then show ?case by simp
next
  case (IsNull c b)
  have null: "lexes sep ('' '' @ ''NULL'') [TIdent ''NULL'']"
    by (intro lexes_space_before lexes_ident) simp
  have not_null: "lexes sep ('' '' @ ''NOT'' @ '' '' @ ''NULL'') (TIdent ''NOT'' # [TIdent ''NULL''])"
    by (rule lexes_space_before, rule lexes_word_before [OF _ null]) simp_all
  have "lexes sep (''IS'' @ (if b then '' '' @ ''NOT'' @ '' '' @ ''NULL'' else '' '' @ ''NULL''))
      (TIdent ''IS'' # (if b then TIdent ''NOT'' # [TIdent ''NULL''] else [TIdent ''NULL'']))"
    by (rule lexes_word_before) (use null not_null in simp_all)
  from lexes_space_before [OF this]
  have "lexes sep (c @ '' '' @ ''IS'' @ (if b then '' '' @ ''NOT'' @ '' '' @ ''NULL'' else '' '' @ ''NULL''))
      (TIdent c # TIdent ''IS'' # (if b then TIdent ''NOT'' # [TIdent ''NULL''] else [TIdent ''NULL'']))"
    by (intro lexes_word_before) (use IsNull in \<open>simp_all add: column_ok_def\<close>)
  then show ?case by (cases b) simp_all
next
  case (InList c list b)
  let ?items = "join '', '' (map (render_literal fshow bare_dialect) list)"
  have "lexes sep (''('' @ ?items @ '')'') (TLParen # list_toks list @ [TRParen])"
    by (intro lexes_before lexes_close lexes_list) (use InList in simp_all)
  from lexes_space_before [OF this]
  have "lexes sep (''IN'' @ '' '' @ ''('' @ ?items @ '')'') (TIdent ''IN'' # TLParen # list_toks list @ [TRParen])"
    by (intro lexes_word_before) simp_all
  from lexes_space_before [OF this] have inl: "lexes sep ('' '' @ ''IN'' @ '' '' @ ''('' @ ?items @ '')'')
      (TIdent ''IN'' # TLParen # list_toks list @ [TRParen])" .
  have "lexes sep (c @ '' '' @ ''IN'' @ '' '' @ ''('' @ ?items @ '')'')
      (TIdent c # TIdent ''IN'' # TLParen # list_toks list @ [TRParen])"
    by (rule lexes_word_before [OF _ inl]) (use InList in \<open>simp_all add: column_ok_def\<close>)
  moreover have "lexes sep (''NOT'' @ '' '' @ ''IN'' @ '' '' @ ''('' @ ?items @ '')'')
      (TIdent ''NOT'' # TIdent ''IN'' # TLParen # list_toks list @ [TRParen])"
    by (rule lexes_word_before [OF _ inl]) simp_all
  from lexes_space_before [OF this]
  have "lexes sep (c @ '' '' @ ''NOT'' @ '' '' @ ''IN'' @ '' '' @ ''('' @ ?items @ '')'')
      (TIdent c # TIdent ''NOT'' # TIdent ''IN'' # TLParen # list_toks list @ [TRParen])"
    by (intro lexes_word_before) (use InList in \<open>simp_all add: column_ok_def\<close>)
  ultimately show ?case by (cases b) simp_all
next
  case (FAnd a b)
  let ?b = "render fshow bare_dialect b @ '')''"
  have "lexes sep (''AND'' @ '' '' @ ?b) (TIdent ''AND'' # toks_of b @ [TRParen])"
    by (intro lexes_word_before lexes_space_before lexes_close) (use FAnd in simp_all)
  then have "lexes sep (render fshow bare_dialect a @ '' '' @ ''AND'' @ '' '' @ ?b)
      (toks_of a @ TIdent ''AND'' # toks_of b @ [TRParen])"
    by (intro lexes_append [of sep] lexes_space_before) (use FAnd in simp_all)
  from lexes_before(1) [OF this] show ?case by simp
next
  case (FOr a b)
  let ?b = "render fshow bare_dialect b @ '')''"
  have "lexes sep (''OR'' @ '' '' @ ?b) (TIdent ''OR'' # toks_of b @ [TRParen])"
    by (intro lexes_word_before lexes_space_before lexes_close) (use FOr in simp_all)
  then have "lexes sep (render fshow bare_dialect a @ '' '' @ ''OR'' @ '' '' @ ?b)
      (toks_of a @ TIdent ''OR'' # toks_of b @ [TRParen])"
    by (intro lexes_append [of sep] lexes_space_before) (use FOr in simp_all)
  from lexes_before(1) [OF this] show ?case by simp
next
  case (FNot a)
  have "lexes sep (''NOT'' @ '' '' @ render fshow bare_dialect a @ '')'') (TIdent ''NOT'' # toks_of a @ [TRParen])"
    by (intro lexes_word_before lexes_space_before lexes_close) (use FNot in simp_all)
  from lexes_before(1) [OF this] show ?case by simp
qed

text \<open>The text of a predicate is not blank.\<close>

lemma strip_all_suffix: "\<exists>ws'. set ws' \<subseteq> set ws \<and> s = concat ws' @ strip_all ws s"
proof (induction ws s rule: strip_all.induct)
  case (1 ws s)
  show ?case
  proof (cases "\<exists>r. strip_one ws s = Some r \<and> length r < length s")
    case True
    then obtain r where r: "strip_one ws s = Some r" "length r < length s" by blast
    from strip_one_Some [OF r(1)] obtain w where w: "w \<in> set ws" "s = w @ r" by blast
    from "1.IH" [OF r] obtain ws' where "set ws' \<subseteq> set ws" "r = concat ws' @ strip_all ws r" by blast
    with r w show ?thesis
      by (intro exI [of _ "w # ws'"]) (simp add: strip_all.simps [of ws "w @ r"])
  next
    case False
    then have "strip_all ws s = s" by (subst strip_all.simps) (auto split: option.splits)
    then show ?thesis by (intro exI [of _ "[]"]) simp
  qed
qed

lemma trim_keeps:
  assumes "c \<in> set s" "\<forall>w\<in>set whitespace. c \<notin> set w"
  shows "trim s \<noteq> []"
proof -
  obtain vs where "set vs \<subseteq> set whitespace" "s = concat vs @ trim_start s"
    using strip_all_suffix [of whitespace s] by (auto simp: trim_start_def)
  moreover from this(1) assms(2) have "c \<notin> set (concat vs)" by fastforce
  ultimately have "c \<in> set (trim_start s)" using assms(1) by (metis Un_iff set_append)
  moreover obtain ws where ws: "set ws \<subseteq> set (map rev whitespace)"
    "rev (trim_start s) = concat ws @ rev (trim s)"
    using strip_all_suffix [of "map rev whitespace" "rev (trim_start s)"] by (auto simp: trim_def trim_end_def)
  ultimately have "c \<in> set (concat ws) \<or> c \<in> set (trim s)" by (metis Un_iff set_append set_rev)
  moreover have "c \<notin> set (concat ws)" using ws(1) assms(2) by fastforce
  ultimately show ?thesis by auto
qed

lemma whitespace_bytes: "\<forall>w\<in>set whitespace. \<forall>c\<in>set w. asc c \<le> 32 \<or> 127 < asc c"
  by (simp add: whitespace_def)

lemma render_not_blank:
  assumes "expr_ok fshow e"
  shows "trim (render fshow bare_dialect e) \<noteq> []"
proof -
  have "\<exists>c\<in>set (render fshow bare_dialect e). 32 < asc c \<and> asc c \<le> 127"
  proof (cases "depth e = 2")
    case True
    with assms obtain c where c: "column_ok c" "set c \<subseteq> set (render fshow bare_dialect e)" by (cases e) auto
    then have "hd c \<in> set (render fshow bare_dialect e)" "ident_start (hd c)"
      by (auto simp: column_ok_def ident_ok_def)
    then show ?thesis by (intro bexI [of _ "hd c"]) (auto simp: ident_start_def ascii_defs)
  qed (cases e; simp)
  then obtain c where "c \<in> set (render fshow bare_dialect e)" "32 < asc c" "asc c \<le> 127" by blast
  then show ?thesis using whitespace_bytes by (intro trim_keeps) fastforce+
qed

lemma tokenize_render:
  assumes "expr_ok fshow e"
  shows "\<exists>ts. tokenize 0 (render fshow bare_dialect e) = Inr ts \<and> map t_tok ts = toks_of e"
proof -
  from lexes_render [OF assms] obtain ts where "map t_tok ts = toks_of e"
    "tokenize 0 (render fshow bare_dialect e @ []) = bindr (tokenize (0 + length (render fshow bare_dialect e)) []) (\<lambda>r. Inr (ts @ r))"
    unfolding lexes_def by (metis sep_simps(1))
  then show ?thesis by simp
qed


definition sample_filter :: expr where
  "sample_filter = FAnd (Cmp ''status'' Eq (LStr (''it'' @ [quote] @ ''s''))) (FOr (FNot (IsNull ''deleted_at'' True))
     (InList ''n'' [LInt (-3), LBool True] True))"


end
