(* ===== verification/Rust_Bytes.thy ===== *)
theory Rust_Bytes
  imports Btree_Map
begin

section \<open>Byte slices\<close>

text \<open>
  A byte is a \<^typ>\<open>char\<close>, as in a string, so a \<open>&[u8]\<close> is a \<^typ>\<open>string\<close> and \<open>b'n'\<close> is the
  character of that code. Here are the fixed-width integers of the wire formats
  (\<open>to_be_bytes\<close>, \<open>from_be_bytes\<close> and their little-endian twins), \<open>String::from_utf8_lossy\<close>,
  and the facts on splitting and trimming text that the position formats share.
\<close>

type_synonym bytes = string

named_theorems wire_simps \<open>reading back what was written\<close>

subsection \<open>Fixed-width integers\<close>

fun be_bytes :: "nat \<Rightarrow> nat \<Rightarrow> bytes" where
  "be_bytes 0 n = []"
| "be_bytes (Suc k) n = be_bytes k (n div 256) @ [char_of (n mod 256)]"

definition be_value :: "bytes \<Rightarrow> nat" where
  "be_value bs = foldl (\<lambda>v c. v * 256 + asc c) 0 bs"

definition le_bytes :: "nat \<Rightarrow> nat \<Rightarrow> bytes" where
  "le_bytes k n = rev (be_bytes k n)"

definition le_value :: "bytes \<Rightarrow> nat" where
  "le_value bs = be_value (rev bs)"

lemma length_be_bytes [simp]: "length (be_bytes k n) = k"
  by (induction k arbitrary: n) auto

lemma length_le_bytes [simp]: "length (le_bytes k n) = k"
  by (simp add: le_bytes_def)

lemma be_value_snoc: "be_value (bs @ [c]) = be_value bs * 256 + asc c"
  by (simp add: be_value_def)

lemma be_value_bytes [wire_simps]: "n < 256 ^ k \<Longrightarrow> be_value (be_bytes k n) = n"
proof (induction k arbitrary: n)
  case (Suc k)
  then have "n div 256 < 256 ^ k" by (simp add: less_mult_imp_div_less mult.commute)
  with Suc.IH show ?case by (simp add: be_value_snoc)
qed (simp add: be_value_def)

lemma le_value_bytes [wire_simps]: "n < 256 ^ k \<Longrightarrow> le_value (le_bytes k n) = n"
  by (simp add: le_value_def le_bytes_def be_value_bytes)

lemma asc_less_256: "asc c < 256"
  using mod_less_divisor [of 256 "asc c"] by (simp only: of_char_mod_256)

lemma be_value_less: "be_value bs < 256 ^ length bs"
proof (induction bs rule: rev_induct)
  case (snoc c bs)
  have "be_value bs * 256 + asc c < (be_value bs + 1) * 256" using asc_less_256 [of c] by simp
  also have "\<dots> \<le> 256 ^ length bs * 256" using snoc by (intro mult_le_mono1) simp
  finally show ?case by (simp add: be_value_snoc mult.commute)
qed (simp add: be_value_def)

lemma le_value_less: "le_value bs < 256 ^ length bs"
  using be_value_less [of "rev bs"] by (simp add: le_value_def)

text \<open>\<open>u64 as i64\<close> and \<open>u32 as i32\<close>.\<close>

definition as_signed :: "nat \<Rightarrow> nat \<Rightarrow> int" where
  "as_signed bits n = (if n < 2 ^ (bits - 1) then int n else int n - 2 ^ bits)"

definition as_unsigned :: "nat \<Rightarrow> int \<Rightarrow> nat" where
  "as_unsigned bits i = nat (i mod 2 ^ bits)"

lemma as_signed_unsigned [wire_simps]:
  assumes "0 < bits" "- (2 ^ (bits - 1)) \<le> i" "i < 2 ^ (bits - 1)"
  shows "as_signed bits (as_unsigned bits i) = i"
proof -
  obtain b where b: "bits = Suc b" using assms(1) by (cases bits) auto
  show ?thesis
  proof (cases "0 \<le> i")
    case True
    with assms b have "i mod 2 ^ bits = i" by simp
    with True assms b show ?thesis by (simp add: as_signed_def as_unsigned_def nat_less_iff)
  next
    case False
    with assms b have "(i + 2 ^ bits) mod 2 ^ bits = i + 2 ^ bits" by (intro mod_pos_pos_trivial) simp_all
    then have "i mod 2 ^ bits = i + 2 ^ bits" by simp
    with False assms b show ?thesis by (auto simp: as_signed_def as_unsigned_def nat_less_iff)
  qed
qed

lemma as_unsigned_less: "as_unsigned bits i < 2 ^ bits"
  by (simp add: as_unsigned_def nat_less_iff)

subsection \<open>Lossy decoding\<close>

text \<open>How many bytes the sequence at the front takes, and whether they are a character; a broken
  sequence is as long as the longest start of a character it has.\<close>

definition in_range :: "nat \<Rightarrow> nat \<Rightarrow> char \<Rightarrow> bool" where
  "in_range lo hi c \<longleftrightarrow> lo \<le> asc c \<and> asc c \<le> hi"

definition second_byte :: "char \<Rightarrow> char \<Rightarrow> bool" where
  "second_byte c = (
     if asc c = 0xE0 then in_range 0xA0 0xBF
     else if asc c = 0xED then in_range 0x80 0x9F
     else if asc c = 0xF0 then in_range 0x90 0xBF
     else if asc c = 0xF4 then in_range 0x80 0x8F
     else in_range 0x80 0xBF)"

definition utf8_width :: "char \<Rightarrow> nat" where
  "utf8_width c =
     (if asc c < 0x80 then 1 else if in_range 0xC2 0xDF c then 2 else if in_range 0xE0 0xEF c then 3
      else if in_range 0xF0 0xF4 c then 4 else 0)"

fun utf8_step :: "bytes \<Rightarrow> bool \<times> nat" where
  "utf8_step [] = (False, 0)"
| "utf8_step (c # cs) =
     (if utf8_width c \<le> 1 then (utf8_width c = 1, 1)
      else case cs of
        [] \<Rightarrow> (False, 1)
      | c2 # cs2 \<Rightarrow>
          if \<not> second_byte c c2 then (False, 1)
          else
            (let conts = length (takeWhile is_continuation (take (utf8_width c - 2) cs2))
             in (conts = utf8_width c - 2, 2 + conts)))"

definition REPLACEMENT :: bytes where "REPLACEMENT = [CHR 0xEF, CHR 0xBF, CHR 0xBD]"

lemma utf8_step_pos: "0 < snd (utf8_step (c # cs))"
  by (auto simp: Let_def split: list.split)

function from_utf8_lossy :: "bytes \<Rightarrow> string" where
  "from_utf8_lossy [] = []"
| "from_utf8_lossy (c # cs) =
     (let (whole, n) = utf8_step (c # cs)
      in (if whole then take n (c # cs) else REPLACEMENT) @ from_utf8_lossy (drop n (c # cs)))"
  by pat_completeness auto
termination
proof (relation "measure length", goal_cases)
  case (2 c cs x whole n)
  then have "0 < n" using utf8_step_pos [of c cs] by (metis snd_conv)
  then show ?case by simp
qed simp

declare from_utf8_lossy.simps [simp del]

text \<open>\<open>str::from_utf8\<close> accepts the bytes when every sequence is a character.\<close>

function utf8_valid :: "bytes \<Rightarrow> bool" where
  "utf8_valid [] = True"
| "utf8_valid (c # cs) = (let (whole, n) = utf8_step (c # cs) in whole \<and> utf8_valid (drop n (c # cs)))"
  by pat_completeness auto
termination
proof (relation "measure length", goal_cases)
  case (2 c cs x whole n)
  then have "0 < n" using utf8_step_pos [of c cs] by (metis snd_conv)
  then show ?case by simp
qed simp

declare utf8_valid.simps [simp del]

lemma utf8_valid_lossy: "utf8_valid s \<Longrightarrow> from_utf8_lossy s = s"
proof (induction s rule: utf8_valid.induct)
  case (2 c cs)
  obtain whole n where step: "utf8_step (c # cs) = (whole, n)" by fastforce
  with 2 show ?case
    by (simp add: from_utf8_lossy.simps utf8_valid.simps(2) del: utf8_step.simps)
qed (simp add: from_utf8_lossy.simps)

lemma utf8_valid_ascii: "\<forall>c \<in> set s. asc c < 128 \<Longrightarrow> utf8_valid s"
  by (induction s) (simp_all add: utf8_valid.simps utf8_width_def)

lemma from_utf8_lossy_Nil [simp]: "from_utf8_lossy [] = []"
  by (simp add: from_utf8_lossy.simps)

lemma from_utf8_lossy_ascii: "\<forall>c \<in> set s. asc c < 128 \<Longrightarrow> from_utf8_lossy s = s"
  by (rule utf8_valid_lossy) (rule utf8_valid_ascii)

subsection \<open>Splitting and trimming\<close>

lemma split_char_absent: "c \<notin> set s \<Longrightarrow> split_char c s = [s]"
  by (induction s) auto

lemma split_char_append: "c \<notin> set a \<Longrightarrow> split_char c (a @ c # b) = a # split_char c b"
  by (induction a) auto

lemma split_char_join:
  "xs \<noteq> [] \<Longrightarrow> \<forall>x \<in> set xs. c \<notin> set x \<Longrightarrow> split_char c (join [c] xs) = xs"
proof (induction xs)
  case (Cons x xs)
  then show ?case by (cases xs) (auto simp: split_char_absent split_char_append)
qed simp

definition is_graphic :: "char \<Rightarrow> bool" where
  "is_graphic c \<longleftrightarrow> 33 \<le> asc c \<and> asc c < 127"

lemma whitespace_not_graphic: "w \<in> set whitespace \<Longrightarrow> w \<noteq> [] \<and> \<not> is_graphic (hd w) \<and> \<not> is_graphic (last w)"
  by (auto simp: whitespace_def is_graphic_def)

lemma strip_none:
  assumes "\<forall>w \<in> set ws. w \<noteq> [] \<and> \<not> is_graphic (hd w)" "\<forall>c \<in> set s. is_graphic c"
  shows "strip_all ws s = s"
proof -
  have "strip_one ws s = None"
  proof (cases "strip_one ws s")
    case (Some r)
    from strip_one_Some [OF this] obtain w where w: "w \<in> set ws" "s = w @ r" by blast
    with assms(1) have "w \<noteq> []" "\<not> is_graphic (hd w)" by auto
    with w(2) assms(2) show ?thesis by (cases w) auto
  qed simp
  then show ?thesis by (simp add: strip_all.simps)
qed

lemma trim_graphic: "\<forall>c \<in> set s. is_graphic c \<Longrightarrow> trim s = s"
  using strip_none [of whitespace s] strip_none [of "map rev whitespace" "rev s"] whitespace_not_graphic
  by (simp add: trim_def trim_start_def trim_end_def hd_rev)

lemma show_nat_digits: "c \<in> set (show_nat n) \<Longrightarrow> is_ascii_digit c"
proof -
  assume "c \<in> set (show_nat n)"
  then obtain d where "d \<in> set (radix_digits 10 n)" "c = digit_char d" by (auto simp: show_nat_def show_radix_def)
  with radix_digits_less [of 10 d n] show "is_ascii_digit c" by (simp add: is_ascii_digit_def asc_digit_char)
qed

lemma digit_graphic: "is_ascii_digit c \<Longrightarrow> is_graphic c"
  by (simp add: is_ascii_digit_def is_graphic_def)

lemma trim_show_nat [simp]: "trim (show_nat n) = show_nat n"
  by (rule trim_graphic) (use show_nat_digits digit_graphic in blast)

lemma show_nat_not_Nil [simp]: "show_nat n \<noteq> []"
  by (simp add: show_nat_def)

definition parse_uint :: "nat \<Rightarrow> string \<Rightarrow> nat option" where
  "parse_uint bits s = parse_unsigned 10 (2 ^ bits) s"

lemma parse_uint_show [simp]: "parse_uint bits (show_nat n) = (if n < 2 ^ bits then Some n else None)"
  by (simp add: parse_uint_def show_nat_def parse_unsigned_show)

end
