(* ===== verification/Gtid_Set.thy ===== *)
theory Gtid_Set
  imports Rust_Bytes "HOL-Library.Product_Lexorder"
begin

section \<open>MySQL transaction sets (\<open>MySqlGtidSet\<close> of \<open>crates/source-mysql/src/gtid.rs\<close>)\<close>

text \<open>
  The transactions consumed, as inclusive intervals per source uuid. Numbers are \<open>u64\<close>: a
  successor wraps, as the arithmetic of a release build does. The intervals denote a set of
  numbers; \<open>intervals_ok\<close> is their normal form (ordered, apart from each other, below the
  largest number), which \<open>add\<close> keeps and \<open>coalesce\<close> restores, and which is unique for the set:
  the text of a checkpoint depends only on what was consumed.
\<close>

type_synonym interval = "nat \<times> nat"
type_synonym mysql_gtid_set = "(string, interval list) btree_map"

definition succ64 :: "nat \<Rightarrow> nat" where
  "succ64 n = (n + 1) mod 2 ^ 64"

text \<open>\<open>merged\<close> is held newest first.\<close>

fun coalesce_into :: "interval list \<Rightarrow> interval list \<Rightarrow> interval list" where
  "coalesce_into merged [] = rev merged"
| "coalesce_into [] (x # rest) = coalesce_into [x] rest"
| "coalesce_into ((s, e) # merged) ((start, stop) # rest) =
     (if start \<le> succ64 e then coalesce_into ((s, max e stop) # merged) rest
      else coalesce_into ((start, stop) # (s, e) # merged) rest)"

abbreviation coalesce :: "interval list \<Rightarrow> interval list" where
  "coalesce \<equiv> coalesce_into []"

text \<open>\<open>partition_point\<close> is the number of leading intervals that start at or before the number: the
  intervals are in order.\<close>

definition add_gno :: "nat \<Rightarrow> interval list \<Rightarrow> interval list" where
  "add_gno gno intervals =
     (if intervals \<noteq> [] \<and> gno = succ64 (snd (last intervals)) then butlast intervals @ [(fst (last intervals), gno)]
      else
        (let at = length (takeWhile (\<lambda>i. fst i \<le> gno) intervals); (start, stop) = intervals ! (at - 1)
         in if 0 < at \<and> start \<le> gno \<and> gno \<le> stop then intervals
            else if 0 < at \<and> gno = succ64 stop then coalesce (intervals[at - 1 := (start, gno)])
            else if at < length intervals \<and> succ64 gno = fst (intervals ! at)
                 then coalesce (intervals[at := (gno, snd (intervals ! at))])
            else take at intervals @ (gno, gno) # drop at intervals))"

definition mysql_add :: "string \<Rightarrow> nat \<Rightarrow> mysql_gtid_set \<Rightarrow> mysql_gtid_set" where
  "mysql_add uuid gno uuids = bt_insert uuid (add_gno gno (unwrap_or [] (bt_get uuids uuid))) uuids"

definition range_text :: "interval \<Rightarrow> string" where
  "range_text i = (if fst i = snd i then show_nat (fst i) else show_nat (fst i) @ ''-'' @ show_nat (snd i))"

definition entry_text :: "string \<times> interval list \<Rightarrow> string" where
  "entry_text entry = fst entry @ concat (map (\<lambda>i. '':'' @ range_text i) (snd entry))"

definition mysql_to_text :: "mysql_gtid_set \<Rightarrow> string" where
  "mysql_to_text uuids = join '','' (map entry_text uuids)"

definition parse_range :: "string \<Rightarrow> interval option" where
  "parse_range r =
     Option.bind
       (case split_once (CHR ''-'') r of
          Some (s, e) \<Rightarrow> Option.bind (parse_uint 64 (trim s)) (\<lambda>start. map_option (\<lambda>stop. (start, stop)) (parse_uint 64 (trim e)))
        | None \<Rightarrow> map_option (\<lambda>one. (one, one)) (parse_uint 64 (trim r)))
       (\<lambda>(start, stop). if stop < start then None else Some (start, stop))"

definition parse_entry :: "string \<Rightarrow> mysql_gtid_set \<Rightarrow> mysql_gtid_set option" where
  "parse_entry entry uuids =
     (case split_char (CHR '':'') entry of
        [] \<Rightarrow> None
      | first # ranges \<Rightarrow>
          (let uuid = trim first
           in if uuid = [] then None
              else Option.bind (those (map parse_range ranges)) (\<lambda>parsed.
                let intervals = unwrap_or [] (bt_get uuids uuid) @ parsed
                in if intervals = [] then None else Some (bt_insert uuid (coalesce (sort intervals)) uuids))))"

fun parse_entries :: "string list \<Rightarrow> mysql_gtid_set \<Rightarrow> mysql_gtid_set option" where
  "parse_entries [] uuids = Some uuids"
| "parse_entries (entry # entries) uuids = Option.bind (parse_entry entry uuids) (parse_entries entries)"

definition mysql_parse :: "string \<Rightarrow> mysql_gtid_set option" where
  "mysql_parse s =
     Option.bind (parse_entries (filter (\<lambda>e. e \<noteq> []) (map trim (split_char (CHR '','') s))) [])
       (\<lambda>uuids. if uuids = [] then None else Some uuids)"

fun hex_bytes :: "string \<Rightarrow> bytes option" where
  "hex_bytes [] = Some []"
| "hex_bytes [c] = None"
| "hex_bytes (a # b # rest) =
     Option.bind (parse_unsigned 16 256 [a, b]) (\<lambda>v. map_option (\<lambda>bs. char_of v # bs) (hex_bytes rest))"

definition parse_uuid :: "string \<Rightarrow> bytes option" where
  "parse_uuid s = (let hex = filter (\<lambda>c. c \<noteq> CHR ''-'') s in if length hex \<noteq> 32 then None else hex_bytes hex)"

definition encode_intervals :: "interval list \<Rightarrow> bytes" where
  "encode_intervals intervals =
     le_bytes 8 (length intervals) @ concat (map (\<lambda>(start, stop). le_bytes 8 start @ le_bytes 8 (succ64 stop)) intervals)"

definition mysql_encode :: "mysql_gtid_set \<Rightarrow> bytes option" where
  "mysql_encode uuids =
     map_option (\<lambda>blocks. le_bytes 8 (length uuids) @ concat blocks)
       (those (map (\<lambda>(uuid, intervals). map_option (\<lambda>sid. sid @ encode_intervals intervals) (parse_uuid uuid)) uuids))"

subsection \<open>Intervals as sets\<close>

definition members :: "interval list \<Rightarrow> nat set" where
  "members xs = (\<Union>i \<in> set xs. {fst i..snd i})"

definition interval_ok :: "interval \<Rightarrow> bool" where
  "interval_ok i \<longleftrightarrow> fst i \<le> snd i \<and> snd i < 2 ^ 64 - 1"

definition intervals_ok :: "interval list \<Rightarrow> bool" where
  "intervals_ok xs \<longleftrightarrow> sorted_wrt (\<lambda>i j. snd i + 1 < fst j) xs \<and> (\<forall>i \<in> set xs. interval_ok i)"

lemma members_simps [simp]:
  "members [] = {}" "members (x # xs) = {fst x..snd x} \<union> members xs" "members (xs @ ys) = members xs \<union> members ys"
  "members (rev xs) = members xs"
  by (auto simp: members_def)

lemma members_sort [simp]: "members (sort xs) = members xs"
  by (simp add: members_def)

lemma intervals_ok_simps [simp]:
  "intervals_ok []"
  "intervals_ok (x # xs) \<longleftrightarrow> interval_ok x \<and> (\<forall>y \<in> set xs. snd x + 1 < fst y) \<and> intervals_ok xs"
  by (auto simp: intervals_ok_def)

lemma intervals_ok_append [simp]:
  "intervals_ok (xs @ ys) \<longleftrightarrow> intervals_ok xs \<and> intervals_ok ys \<and> (\<forall>x \<in> set xs. \<forall>y \<in> set ys. snd x + 1 < fst y)"
  by (auto simp: intervals_ok_def sorted_wrt_append)

lemma succ64_ok [simp]: "n < 2 ^ 64 - 1 \<Longrightarrow> succ64 n = n + 1"
  by (simp add: succ64_def)

text \<open>Ordered intervals coalesce to their normal form.\<close>

lemma coalesce_into_ok:
  assumes "intervals_ok (rev merged)" "\<forall>i \<in> set rest. interval_ok i" "sorted_wrt (\<lambda>i j. fst i \<le> fst j) rest"
    and "\<forall>m \<in> set merged. \<forall>i \<in> set rest. fst m \<le> fst i"
  shows "intervals_ok (coalesce_into merged rest) \<and> members (coalesce_into merged rest) = members merged \<union> members rest"
  using assms
proof (induction merged rest rule: coalesce_into.induct)
  case (3 s e merged start stop rest)
  from "3.prems" have e: "s \<le> e" "e < 2 ^ 64 - 1" "start \<le> stop" "stop < 2 ^ 64 - 1" "s \<le> start"
    by (auto simp: interval_ok_def)
  show ?case
  proof (cases "start \<le> succ64 e")
    case True
    then have "{s..max e stop} = {s..e} \<union> {start..stop}" using e by auto
    moreover have "intervals_ok (coalesce_into ((s, max e stop) # merged) rest) \<and>
        members (coalesce_into ((s, max e stop) # merged) rest) = members ((s, max e stop) # merged) \<union> members rest"
      by (rule "3.IH"(1) [OF True]) (use "3.prems" e in \<open>auto simp: interval_ok_def\<close>)
    ultimately show ?thesis using True by auto
  next
    case False
    have "intervals_ok (coalesce_into ((start, stop) # (s, e) # merged) rest) \<and>
        members (coalesce_into ((start, stop) # (s, e) # merged) rest) = members ((start, stop) # (s, e) # merged) \<union> members rest"
    proof (rule "3.IH"(2) [OF False])
      have "snd m + 1 < start" if "m \<in> set merged" for m
        using that "3.prems"(1) e(1) False e(2) by fastforce
      then show "intervals_ok (rev ((start, stop) # (s, e) # merged))" using "3.prems" False e by (auto simp: interval_ok_def)
    qed (use "3.prems" in auto)
    then show ?thesis using False by auto
  qed
qed auto

lemma coalesce_ok:
  assumes "\<forall>i \<in> set xs. interval_ok i" "sorted_wrt (\<lambda>i j. fst i \<le> fst j) xs"
  shows "intervals_ok (coalesce xs)" "members (coalesce xs) = members xs"
  using coalesce_into_ok [of "[]" xs] assms by simp_all

lemma sorted_fst: "sorted (xs :: interval list) \<Longrightarrow> sorted_wrt (\<lambda>i j. fst i \<le> fst j) xs"
  by (rule sorted_wrt_mono_rel [of _ "(\<le>)"]) (auto simp: less_eq_prod_def)

lemma coalesce_same: "intervals_ok xs \<Longrightarrow> coalesce xs = xs"
proof -
  have "intervals_ok (rev merged @ xs) \<Longrightarrow> coalesce_into merged xs = rev merged @ xs" for merged
  proof (induction merged xs rule: coalesce_into.induct)
    case (3 s e merged start stop rest)
    then have "\<not> start \<le> succ64 e" by (auto simp: interval_ok_def)
    with 3 show ?case by auto
  qed auto
  from this [of "[]"] show "intervals_ok xs \<Longrightarrow> coalesce xs = xs" by simp
qed

text \<open>The normal form of a set is unique.\<close>

lemma members_above: "intervals_ok (x # xs) \<Longrightarrow> n \<in> members xs \<Longrightarrow> snd x + 1 < n"
  by (fastforce simp: members_def)

lemma interval_not_shorter:
  assumes "intervals_ok ((a, b) # xs)" "intervals_ok ((a, d) # ys)" "members ((a, b) # xs) = members ((a, d) # ys)"
  shows "d \<le> b"
proof (rule ccontr)
  assume "\<not> d \<le> b"
  with assms(1) have "b + 1 \<in> members ((a, d) # ys)" by (auto simp: interval_ok_def)
  with assms(3) have "b + 1 \<in> members ((a, b) # xs)" by blast
  then have "b + 1 \<in> members xs" by simp
  with members_above [OF assms(1)] show False by fastforce
qed

lemma intervals_unique:
  "intervals_ok xs \<Longrightarrow> intervals_ok ys \<Longrightarrow> members xs = members ys \<Longrightarrow> xs = ys"
proof (induction xs arbitrary: ys)
  case Nil
  then show ?case by (cases ys) (auto simp: interval_ok_def)
next
  case (Cons x xs)
  obtain a b where x: "x = (a, b)" by (cases x)
  with Cons.prems have "a \<in> members ys" by (auto simp: interval_ok_def)
  then obtain c d ys' where ys: "ys = (c, d) # ys'" by (cases ys) auto
  have "c \<in> members (x # xs)" using Cons.prems ys by (auto simp: interval_ok_def)
  then have "a \<le> c" using members_above [OF Cons.prems(1)] x Cons.prems(1) by (fastforce simp: interval_ok_def)
  moreover have "c \<le> a" using members_above [of "(c, d)" ys' a] Cons.prems(2) \<open>a \<in> members ys\<close> ys by (fastforce simp: interval_ok_def)
  ultimately have ac: "a = c" by simp
  with Cons.prems x ys interval_not_shorter [of a b xs d ys'] interval_not_shorter [of a d ys' b xs] have bd: "b = d"
    by (simp only: le_antisym)
  have "n \<in> members xs \<longleftrightarrow> n \<in> members (x # xs) \<and> b < n" for n
    using members_above [OF Cons.prems(1), of n] x by auto
  moreover have "n \<in> members ys' \<longleftrightarrow> n \<in> members ys \<and> b < n" for n
    using members_above [of "(c, d)" ys' n] Cons.prems(2) ys bd by auto
  ultimately have "members xs = members ys'" using Cons.prems(3) by blast
  with Cons.IH [of ys'] Cons.prems ys x ac bd show ?case by simp
qed

subsection \<open>Adding a transaction\<close>

lemma fst_sorted: "intervals_ok xs \<Longrightarrow> sorted_wrt (\<lambda>i j. fst i \<le> fst j) xs"
  unfolding intervals_ok_def
  by (rule sorted_wrt_mono_rel [where P = "\<lambda>i j. snd i + 1 < fst j"]) (auto simp: interval_ok_def)

lemma split_at:
  assumes "intervals_ok xs"
  obtains ys zs where "xs = ys @ zs" "takeWhile (\<lambda>i. fst i \<le> g) xs = ys" "\<forall>i \<in> set ys. fst i \<le> g" "\<forall>i \<in> set zs. g < fst i"
proof
  let ?ys = "takeWhile (\<lambda>i. fst i \<le> g) xs" and ?zs = "dropWhile (\<lambda>i. fst i \<le> g) xs"
  show "xs = ?ys @ ?zs" by simp
  show "\<forall>i \<in> set ?ys. fst i \<le> g" by (auto dest: set_takeWhileD)
  show "\<forall>i \<in> set ?zs. g < fst i"
  proof (cases ?zs)
    case (Cons z zs)
    then have "\<not> fst z \<le> g" by (metis hd_dropWhile list.distinct(1) list.sel(1))
    moreover have "sorted_wrt (\<lambda>i j. fst i \<le> fst j) (?ys @ z # zs)"
      using fst_sorted [OF assms] by (simp flip: Cons)
    ultimately show ?thesis by (auto simp: Cons sorted_wrt_append)
  next
    case Nil
    then show ?thesis by (simp only: list.set ball_empty)
  qed
qed simp

lemma widen_last:
  assumes "intervals_ok (ys @ (s, e) # zs)" "g = e + 1" "g < 2 ^ 64 - 1" "\<forall>i \<in> set zs. g < fst i"
  shows "\<forall>i \<in> set (ys @ (s, g) # zs). interval_ok i" "sorted_wrt (\<lambda>i j. fst i \<le> fst j) (ys @ (s, g) # zs)"
    "members (ys @ (s, g) # zs) = insert g (members (ys @ (s, e) # zs))"
proof -
  have "s \<le> e" using assms(1) by (simp add: interval_ok_def)
  then have "{s..g} = insert g {s..e}" using assms(2) by auto
  then show "members (ys @ (s, g) # zs) = insert g (members (ys @ (s, e) # zs))" by simp
  show "sorted_wrt (\<lambda>i j. fst i \<le> fst j) (ys @ (s, g) # zs)"
    using fst_sorted [OF assms(1)] by (simp add: sorted_wrt_append)
  have "\<forall>i \<in> set ys \<union> set zs. interval_ok i" using assms(1) by (auto simp: intervals_ok_def)
  with \<open>s \<le> e\<close> assms(2,3) show "\<forall>i \<in> set (ys @ (s, g) # zs). interval_ok i" by (simp add: interval_ok_def ball_Un)
qed

lemma widen_first:
  assumes "intervals_ok (ys @ (s, e) # zs)" "g + 1 = s" "\<forall>i \<in> set ys. snd i < g"
  shows "\<forall>i \<in> set (ys @ (g, e) # zs). interval_ok i" "sorted_wrt (\<lambda>i j. fst i \<le> fst j) (ys @ (g, e) # zs)"
    "members (ys @ (g, e) # zs) = insert g (members (ys @ (s, e) # zs))"
proof -
  have e: "s \<le> e" "e < 2 ^ 64 - 1" using assms(1) by (simp_all add: interval_ok_def)
  then have "{g..e} = insert g {s..e}" using assms(2) by auto
  then show "members (ys @ (g, e) # zs) = insert g (members (ys @ (s, e) # zs))" by simp
  have all: "\<forall>i \<in> set ys \<union> set zs. interval_ok i" using assms(1) by (auto simp: intervals_ok_def)
  with e assms(2) show "\<forall>i \<in> set (ys @ (g, e) # zs). interval_ok i" by (simp add: interval_ok_def ball_Un)
  have "fst i \<le> g" if "i \<in> set ys" for i
  proof -
    have "interval_ok i" using all that by blast
    moreover have "snd i < g" using assms(3) that by blast
    ultimately show ?thesis by (simp add: interval_ok_def)
  qed
  moreover have "g \<le> fst i" if "i \<in> set zs" for i
  proof -
    have "s \<le> fst i" using that fst_sorted [OF assms(1)] by (simp add: sorted_wrt_append)
    with assms(2) show ?thesis by simp
  qed
  ultimately show "sorted_wrt (\<lambda>i j. fst i \<le> fst j) (ys @ (g, e) # zs)"
    using fst_sorted [OF assms(1)] by (simp add: sorted_wrt_append)
qed

lemma add_gno_split:
  assumes "takeWhile (\<lambda>i. fst i \<le> g) (ys @ zs) = ys" "ys @ zs = [] \<or> g \<noteq> succ64 (snd (last (ys @ zs)))"
  shows "add_gno g (ys @ zs) =
    (if ys \<noteq> [] \<and> fst (last ys) \<le> g \<and> g \<le> snd (last ys) then ys @ zs
     else if ys \<noteq> [] \<and> g = succ64 (snd (last ys)) then coalesce (butlast ys @ (fst (last ys), g) # zs)
     else if zs \<noteq> [] \<and> succ64 g = fst (hd zs) then coalesce (ys @ (g, snd (hd zs)) # tl zs)
     else ys @ (g, g) # zs)"
proof -
  have last: "(ys @ zs) ! (length ys - 1) = last ys" "(ys @ zs)[length ys - 1 := v] = butlast ys @ v # zs" if "ys \<noteq> []" for v
    using that by (cases ys rule: rev_cases; simp add: nth_append list_update_append)+
  have first: "(ys @ zs) ! length ys = hd zs" "(ys @ zs)[length ys := v] = ys @ v # tl zs" if "zs \<noteq> []" for v
    using that by (cases zs; simp add: nth_append list_update_append)+
  from assms(2) have slow: "\<not> (ys @ zs \<noteq> [] \<and> g = succ64 (snd (last (ys @ zs))))" by blast
  show ?thesis
  proof (cases "ys = []")
    case True
    with first slow assms(1) show ?thesis by (cases zs) (simp_all add: add_gno_def Let_def)
  next
    case False
    have at: "(length ys < length (ys @ zs)) = (zs \<noteq> [])" by simp
    show ?thesis
      unfolding add_gno_def assms(1) Let_def if_not_P [OF slow] last(1) [OF False] at
      using False last(2) first by (cases "zs = []") (simp_all add: split_beta)
  qed
qed

lemma add_at:
  assumes ok: "intervals_ok (ys @ zs)" and g: "g < 2 ^ 64 - 1"
    and ys: "\<forall>i \<in> set ys. fst i \<le> g" and zs: "\<forall>i \<in> set zs. g < fst i" and tw: "takeWhile (\<lambda>i. fst i \<le> g) (ys @ zs) = ys"
    and nfast: "ys @ zs = [] \<or> g \<noteq> succ64 (snd (last (ys @ zs)))"
  shows "intervals_ok (add_gno g (ys @ zs)) \<and> members (add_gno g (ys @ zs)) = insert g (members (ys @ zs))"
proof -
  have right: ?thesis if far: "\<forall>i \<in> set ys. snd i + 1 < g"
    and eq: "add_gno g (ys @ zs) = (if zs \<noteq> [] \<and> succ64 g = fst (hd zs) then coalesce (ys @ (g, snd (hd zs)) # tl zs) else ys @ (g, g) # zs)"
  proof (cases "zs \<noteq> [] \<and> succ64 g = fst (hd zs)")
    case True
    then obtain s e zs' where z: "zs = (s, e) # zs'" "g + 1 = s" using g by (cases zs) auto
    have "\<forall>i \<in> set ys. snd i < g" using far by auto
    note w = widen_first [OF ok [unfolded z(1)] z(2) this]
    show ?thesis using coalesce_ok [OF w(1,2)] w(3) True eq by (simp add: z(1))
  next
    case False
    have "g + 1 < fst i" if "i \<in> set zs" for i
    proof (cases zs)
      case (Cons z zs')
      with False g have "g + 1 \<noteq> fst z" by simp
      moreover have "g < fst z" "fst z \<le> fst i" using Cons that zs fst_sorted [OF ok] by (auto simp: sorted_wrt_append)
      ultimately show ?thesis by simp
    qed (use that in simp)
    with False eq ok far g show ?thesis by (auto simp: interval_ok_def)
  qed
  show ?thesis
  proof (cases ys rule: rev_cases)
    case Nil
    with add_gno_split [OF tw nfast] show ?thesis by (intro right) simp_all
  next
    case (snoc ys' i)
    obtain s e where i: "i = (s, e)" by (cases i)
    have e: "s \<le> g" "e < 2 ^ 64 - 1" using ys ok snoc i by (auto simp: interval_ok_def)
    have add: "add_gno g (ys @ zs) =
       (if g \<le> e then ys @ zs else if g = succ64 e then coalesce (ys' @ (s, g) # zs)
        else if zs \<noteq> [] \<and> succ64 g = fst (hd zs) then coalesce (ys @ (g, snd (hd zs)) # tl zs) else ys @ (g, g) # zs)"
      using add_gno_split [OF tw nfast] e by (simp add: snoc i)
    consider "g \<le> e" | "g = e + 1" | "e + 1 < g" by linarith
    then show ?thesis
    proof cases
      case 1
      with add e snoc i ok show ?thesis by (auto simp: insert_absorb)
    next
      case 2
      have "intervals_ok (ys' @ (s, e) # zs)" using ok snoc i by simp
      note w = widen_last [OF this 2 g zs]
      show ?thesis using coalesce_ok [OF w(1,2)] w(3) add 2 e by (simp add: snoc i)
    next
      case 3
      have "snd j + 1 < g" if "j \<in> set ys" for j
      proof (cases "j = i")
        case False
        with that snoc have "j \<in> set ys'" by simp
        moreover have "\<forall>y \<in> set ys'. snd y + 1 < fst i" using ok snoc by simp
        ultimately have "snd j + 1 < s" using i by simp
        with e(1) show ?thesis by simp
      qed (use 3 i in simp)
      with 3 add e show ?thesis by (intro right) auto
    qed
  qed
qed

lemma add_gno_ok:
  assumes "intervals_ok xs" "g < 2 ^ 64 - 1"
  shows "intervals_ok (add_gno g xs)" "members (add_gno g xs) = insert g (members xs)"
proof -
  have "intervals_ok (add_gno g xs) \<and> members (add_gno g xs) = insert g (members xs)"
  proof (cases "xs \<noteq> [] \<and> g = succ64 (snd (last xs))")
    case True
    then obtain ys s e where xs: "xs = ys @ [(s, e)]" by (metis append_butlast_last_id prod.collapse)
    with assms have "e < 2 ^ 64 - 1" by (simp add: interval_ok_def)
    with True xs have g: "g = e + 1" by simp
    have "add_gno g xs = ys @ [(s, g)]" using True xs by (simp add: add_gno_def)
    with assms xs g show ?thesis by (auto simp: interval_ok_def)
  next
    case False
    from split_at [OF assms(1), of g] obtain ys zs where "xs = ys @ zs" "takeWhile (\<lambda>i. fst i \<le> g) xs = ys"
      "\<forall>i \<in> set ys. fst i \<le> g" "\<forall>i \<in> set zs. g < fst i" by metis
    with add_at [of ys zs g] assms False show ?thesis by auto
  qed
  then show "intervals_ok (add_gno g xs)" "members (add_gno g xs) = insert g (members xs)" by simp_all
qed

subsection \<open>Sets of transactions\<close>

definition uuid_ok :: "string \<Rightarrow> bool" where
  "uuid_ok u \<longleftrightarrow> u \<noteq> [] \<and> (\<forall>c \<in> set u. is_ascii_alphanumeric c \<or> c = CHR ''-'')"

definition gtid_set_ok :: "mysql_gtid_set \<Rightarrow> bool" where
  "gtid_set_ok uuids \<longleftrightarrow> bt_wf uuids \<and> (\<forall>e \<in> set uuids. uuid_ok (fst e) \<and> snd e \<noteq> [] \<and> intervals_ok (snd e))"

definition covered :: "mysql_gtid_set \<Rightarrow> (string \<times> nat) set" where
  "covered uuids = {(u, n). \<exists>xs. bt_get uuids u = Some xs \<and> n \<in> members xs}"

lemma gtid_set_ok_Nil [simp]: "gtid_set_ok []"
  by (simp add: gtid_set_ok_def)

lemma gtid_set_ok_get:
  assumes "gtid_set_ok s"
  shows "intervals_ok (unwrap_or [] (bt_get s u))" "bt_get s u = Some xs \<Longrightarrow> xs \<noteq> [] \<and> intervals_ok xs \<and> uuid_ok u"
  using assms by (auto simp: gtid_set_ok_def bt_get_Some_iff unwrap_or_def split: option.split)

lemma bt_insert_subset: "set (bt_insert k v m) \<subseteq> insert (k, v) (set m)"
  by (induction k v m rule: bt_insert.induct) auto

lemma add_gno_ne: "members (add_gno g xs) = insert g (members xs) \<Longrightarrow> add_gno g xs \<noteq> []"
  by force

lemma mysql_add_ok:
  assumes "gtid_set_ok s" "uuid_ok u" "g < 2 ^ 64 - 1"
  shows "gtid_set_ok (mysql_add u g s)" "covered (mysql_add u g s) = insert (u, g) (covered s)"
proof -
  let ?xs = "unwrap_or [] (bt_get s u)"
  note add = add_gno_ok [OF gtid_set_ok_get(1) [OF assms(1)] assms(3), of u]
  show "gtid_set_ok (mysql_add u g s)"
    using assms(1,2) add add_gno_ne [OF add(2)] bt_insert_subset [of u "add_gno g ?xs" s]
    by (fastforce simp: gtid_set_ok_def mysql_add_def bt_wf_insert)
  show "covered (mysql_add u g s) = insert (u, g) (covered s)"
    using add(2) by (auto simp: covered_def mysql_add_def split: if_splits option.splits; cases "bt_get s u"; auto)
qed

lemma covered_get: "bt_get s u = Some xs \<Longrightarrow> (u, n) \<in> covered s \<longleftrightarrow> n \<in> members xs"
  by (simp add: covered_def)

lemma gtid_set_unique:
  assumes "gtid_set_ok s" "gtid_set_ok t" "covered s = covered t"
  shows "s = t"
proof (rule bt_ext)
  have sub: "bt_get q u = Some xs" if "gtid_set_ok p" "gtid_set_ok q" "covered p = covered q" "bt_get p u = Some xs" for p q u xs
  proof -
    from gtid_set_ok_get(2) [OF that(1,4)] have xs: "xs \<noteq> []" "intervals_ok xs" by auto
    then have "fst (hd xs) \<in> members xs" by (cases xs) (auto simp: interval_ok_def)
    with that(3,4) obtain ys where ys: "bt_get q u = Some ys" by (fastforce simp: covered_def)
    have "members xs = members ys" using covered_get [OF that(4)] covered_get [OF ys] that(3) by blast
    with intervals_unique xs gtid_set_ok_get(2) [OF that(2) ys] ys show ?thesis by blast
  qed
  from sub [OF assms] sub [OF assms(2,1) assms(3) [symmetric]] show "bt_get s = bt_get t"
    by (intro ext) (metis not_None_eq)
qed (use assms in \<open>simp_all add: gtid_set_ok_def\<close>)

lemma mysql_add_all_ok:
  assumes "gtid_set_ok s" "\<forall>g \<in> set gs. uuid_ok (fst g) \<and> snd g < 2 ^ 64 - 1"
  shows "gtid_set_ok (fold (\<lambda>(u, g). mysql_add u g) gs s) \<and>
    covered (fold (\<lambda>(u, g). mysql_add u g) gs s) = covered s \<union> set gs"
  using assms by (induction gs arbitrary: s) (auto simp: mysql_add_ok)

text \<open>The set of consumed transactions loses none and invents none, and its stored form depends
  only on what was consumed: whatever the order transactions arrive in, with gaps, repetitions
  and late numbers, the set holds exactly those it started from and those added, and two
  orders of the same transactions give the same intervals and so the same text.\<close>

theorem gtid_set_canonical:
  assumes "gtid_set_ok s" "\<forall>g \<in> set gs. uuid_ok (fst g) \<and> snd g < 2 ^ 64 - 1" "set hs = set gs"
  shows "covered (fold (\<lambda>(u, g). mysql_add u g) gs s) = covered s \<union> set gs \<and>
    fold (\<lambda>(u, g). mysql_add u g) gs s = fold (\<lambda>(u, g). mysql_add u g) hs s"
  using mysql_add_all_ok [OF assms(1,2)] mysql_add_all_ok [OF assms(1), of hs] assms(2,3)
  by (metis (no_types, lifting) gtid_set_unique)

theorem gtid_set_canonical_witness:
  "mysql_to_text (fold (\<lambda>(u, g). mysql_add u g) [(''a'', 5), (''a'', 1), (''a'', 3), (''a'', 2), (''a'', 5)] []) = ''a:1-3:5'' \<and>
   fold (\<lambda>(u, g). mysql_add u g) [(''a'', 5), (''a'', 1), (''a'', 3), (''a'', 2), (''a'', 5)] [] =
   fold (\<lambda>(u, g). mysql_add u g) [(''a'', 1), (''a'', 2), (''a'', 3), (''a'', 5)] []"
proof
  show "mysql_to_text (fold (\<lambda>(u, g). mysql_add u g) [(''a'', 5), (''a'', 1), (''a'', 3), (''a'', 2), (''a'', 5)] []) = ''a:1-3:5''"
  proof -
    have "show_nat 1 = ''1''" "show_nat 3 = ''3''" "show_nat 5 = ''5''" by code_simp+
    then show ?thesis
      by (simp add: mysql_add_def add_gno_def succ64_def bt_get_def Let_def mysql_to_text_def entry_text_def range_text_def)
  qed
  have "set [(''a'', 1), (''a'', 2), (''a'', 3), (''a'', 5)] = set [(''a'', 5), (''a'', 1), (''a'', 3), (''a'', 2), (''a'', 5 :: nat)]"
    by auto
  from gtid_set_canonical [OF gtid_set_ok_Nil _ this]
  show "fold (\<lambda>(u, g). mysql_add u g) [(''a'', 5), (''a'', 1), (''a'', 3), (''a'', 2), (''a'', 5)] [] =
    fold (\<lambda>(u, g). mysql_add u g) [(''a'', 1), (''a'', 2), (''a'', 3), (''a'', 5)] []"
    by (simp add: uuid_ok_def ascii_defs)
qed

subsection \<open>The text of a set\<close>

lemma show_nat_only_digits: "c \<in> set (show_nat n) \<Longrightarrow> \<not> is_ascii_digit c \<Longrightarrow> False"
  using show_nat_digits by blast

lemma show_nat_free: "CHR '':'' \<notin> set (show_nat n)" "CHR '','' \<notin> set (show_nat n)" "CHR ''-'' \<notin> set (show_nat n)"
  using show_nat_only_digits [of "CHR '':''" n] show_nat_only_digits [of "CHR '',''" n] show_nat_only_digits [of "CHR ''-''" n]
  by (auto simp: is_ascii_digit_def)

lemma range_text_free: "CHR '':'' \<notin> set (range_text i)" "CHR '','' \<notin> set (range_text i)"
  by (simp_all add: range_text_def show_nat_free)

lemma range_text_graphic: "\<forall>c \<in> set (range_text i). is_graphic c"
  using show_nat_digits digit_graphic by (auto simp: range_text_def is_graphic_def)

lemma uuid_free: "uuid_ok u \<Longrightarrow> CHR '':'' \<notin> set u" "uuid_ok u \<Longrightarrow> CHR '','' \<notin> set u" "uuid_ok u \<Longrightarrow> \<forall>c \<in> set u. is_graphic c"
  by (auto simp: uuid_ok_def ascii_defs is_graphic_def)

lemma entry_text_free: "uuid_ok (fst e) \<Longrightarrow> CHR '','' \<notin> set (entry_text e)"
  by (auto simp: entry_text_def uuid_free range_text_free)

lemma entry_text_graphic: "uuid_ok (fst e) \<Longrightarrow> \<forall>c \<in> set (entry_text e). is_graphic c"
proof -
  assume u: "uuid_ok (fst e)"
  have "is_graphic (CHR '':'')" by (simp add: is_graphic_def)
  then show ?thesis using uuid_free(3) [OF u] range_text_graphic unfolding entry_text_def by auto
qed

lemma entry_text_join: "entry_text (u, xs) = join '':'' (u # map range_text xs)"
proof -
  have "join '':'' (r # map range_text xs) = r @ concat (map (\<lambda>i. '':'' @ range_text i) xs)" for r
    by (induction xs arbitrary: r) auto
  then show ?thesis by (simp add: entry_text_def)
qed

lemma parse_range_text: "interval_ok i \<Longrightarrow> parse_range (range_text i) = Some i"
proof -
  assume ok: "interval_ok i"
  have n: "split_once (CHR ''-'') (show_nat k) = None" for k by (simp add: split_once_None_iff show_nat_free)
  have r: "split_once (CHR ''-'') (show_nat k @ CHR ''-'' # show_nat l) = Some (show_nat k, show_nat l)" for k l
    by (rule split_once_append) (rule show_nat_free)
  from ok show "parse_range (range_text i) = Some i"
    by (cases i) (auto simp: parse_range_def range_text_def n r interval_ok_def)
qed

lemma those_map_eq_Some: "\<forall>x \<in> set xs. f x = Some (g x) \<Longrightarrow> those (map f xs) = Some (map g xs)"
  by (induction xs) auto

lemma sort_ok: "intervals_ok xs \<Longrightarrow> sort xs = xs"
proof -
  assume ok: "intervals_ok xs"
  have "sorted_wrt (\<le>) xs"
    by (rule sorted_wrt_mono_rel [OF _ ok [unfolded intervals_ok_def, THEN conjunct1]])
       (use ok in \<open>auto simp: less_eq_prod_def intervals_ok_def interval_ok_def\<close>)
  then show ?thesis by (rule sorted_sort_id)
qed

lemma bt_insert_last: "\<forall>e \<in> set m. fst e < k \<Longrightarrow> bt_insert k v m = m @ [(k, v)]"
  by (induction k v m rule: bt_insert.induct) auto

lemma parse_entry_text:
  assumes "uuid_ok u" "xs \<noteq> []" "intervals_ok xs" "bt_get s u = None"
  shows "parse_entry (entry_text (u, xs)) s = Some (bt_insert u xs s)"
proof -
  have "split_char (CHR '':'') (entry_text (u, xs)) = u # map range_text xs"
    unfolding entry_text_join by (rule split_char_join) (use assms(1) in \<open>auto simp: uuid_free range_text_free\<close>)
  moreover have "those (map parse_range (map range_text xs)) = Some xs"
    using those_map_eq_Some [of xs "parse_range \<circ> range_text" id] assms(3) by (simp add: parse_range_text intervals_ok_def)
  moreover have "trim u = u" "u \<noteq> []" using assms(1) trim_graphic [OF uuid_free(3)] by (simp_all add: uuid_ok_def)
  ultimately show ?thesis using assms by (simp add: parse_entry_def Let_def sort_ok coalesce_same)
qed

lemma parse_entries_text:
  assumes "gtid_set_ok (done @ s)"
  shows "parse_entries (map entry_text s) done = Some (done @ s)"
  using assms
proof (induction s arbitrary: "done")
  case (Cons e s)
  obtain u xs where e: "e = (u, xs)" by (cases e)
  from Cons.prems e have u: "uuid_ok u" "xs \<noteq> []" "intervals_ok xs" "\<forall>e \<in> set done. fst e < u"
    by (auto simp: gtid_set_ok_def bt_wf_def sorted_wrt_append)
  then have "bt_get done u = None" by (auto simp: bt_get_None_iff)
  with u parse_entry_text bt_insert_last [OF u(4)] Cons.IH [of "done @ [e]"] Cons.prems e show ?case by simp
qed simp

lemma mysql_text_roundtrip:
  assumes "gtid_set_ok s" "s \<noteq> []"
  shows "mysql_parse (mysql_to_text s) = Some s"
proof -
  have ok: "uuid_ok (fst e)" if "e \<in> set s" for e using assms(1) that by (simp add: gtid_set_ok_def)
  then have "split_char (CHR '','') (mysql_to_text s) = map entry_text s"
    unfolding mysql_to_text_def by (intro split_char_join) (use assms(2) entry_text_free in auto)
  moreover have "map trim (map entry_text s) = map entry_text s"
    unfolding map_map by (rule map_cong [OF refl]) (simp add: trim_graphic [OF entry_text_graphic [OF ok]])
  moreover have "filter (\<lambda>e. e \<noteq> []) (map entry_text s) = map entry_text s"
    using ok by (intro filter_True) (auto simp: entry_text_def uuid_ok_def)
  ultimately show ?thesis using parse_entries_text [of "[]" s] assms by (simp add: mysql_parse_def del: map_map)
qed

subsection \<open>The binary form\<close>

text \<open>What the server reads: a count of uuids, then per uuid its sixteen bytes, a count of intervals
  and each interval as its first number and the first number after it.\<close>

fun decode_intervals :: "nat \<Rightarrow> bytes \<Rightarrow> (interval list \<times> bytes) option" where
  "decode_intervals 0 bs = Some ([], bs)"
| "decode_intervals (Suc k) bs =
     (if length bs < 16 then None
      else map_option (\<lambda>(is, rest). ((le_value (take 8 bs), le_value (take 8 (drop 8 bs))) # is, rest)) (decode_intervals k (drop 16 bs)))"

fun decode_sids :: "nat \<Rightarrow> bytes \<Rightarrow> ((bytes \<times> interval list) list \<times> bytes) option" where
  "decode_sids 0 bs = Some ([], bs)"
| "decode_sids (Suc k) bs =
     (if length bs < 24 then None
      else Option.bind (decode_intervals (le_value (take 8 (drop 16 bs))) (drop 24 bs)) (\<lambda>(is, rest).
        map_option (\<lambda>(sids, rest). ((take 16 bs, is) # sids, rest)) (decode_sids k rest)))"

definition decode_set :: "bytes \<Rightarrow> (bytes \<times> interval list) list option" where
  "decode_set bs =
     (if length bs < 8 then None
      else case decode_sids (le_value (take 8 bs)) (drop 8 bs) of Some (sids, []) \<Rightarrow> Some sids | _ \<Rightarrow> None)"

definition half_open :: "interval list \<Rightarrow> interval list" where
  "half_open xs = map (\<lambda>(start, stop). (start, stop + 1)) xs"

lemma decode_intervals_encode:
  "\<forall>i \<in> set xs. interval_ok i \<Longrightarrow>
   decode_intervals (length xs) (concat (map (\<lambda>(start, stop). le_bytes 8 start @ le_bytes 8 (succ64 stop)) xs) @ rest) =
   Some (half_open xs, rest)"
proof (induction xs)
  case (Cons i xs)
  obtain a b where i: "i = (a, b)" by (cases i)
  with Cons.prems have "a < 256 ^ 8" "b + 1 < 256 ^ 8" "b < 2 ^ 64 - 1" by (auto simp: interval_ok_def)
  with Cons i show ?case by (simp add: le_value_bytes half_open_def)
qed (simp add: half_open_def)

lemma hex_bytes_length: "hex_bytes s = Some bs \<Longrightarrow> length s = 2 * length bs"
  by (induction s arbitrary: bs rule: hex_bytes.induct) (auto simp: bind_eq_Some_conv)

lemma parse_uuid_length: "parse_uuid u = Some sid \<Longrightarrow> length sid = 16"
  using hex_bytes_length by (fastforce simp: parse_uuid_def Let_def split: if_splits)

lemma decode_sids_encode:
  assumes "those (map (\<lambda>(u, xs). map_option (\<lambda>sid. sid @ encode_intervals xs) (parse_uuid u)) s) = Some blocks"
    and "\<forall>e \<in> set s. length (snd e) < 2 ^ 64 \<and> (\<forall>i \<in> set (snd e). interval_ok i)"
  shows "decode_sids (length s) (concat blocks @ rest) = Some (map (\<lambda>(u, xs). (the (parse_uuid u), half_open xs)) s, rest)"
  using assms
proof (induction s arbitrary: blocks)
  case (Cons e s)
  obtain u xs where e: "e = (u, xs)" by (cases e)
  with Cons.prems(1) obtain sid bs where sid: "parse_uuid u = Some sid" and blocks: "blocks = (sid @ encode_intervals xs) # bs"
    and bs: "those (map (\<lambda>(u, xs). map_option (\<lambda>sid. sid @ encode_intervals xs) (parse_uuid u)) s) = Some bs"
    by (auto split: option.splits)
  have n: "length xs < 256 ^ 8" "\<forall>i \<in> set xs. interval_ok i" using Cons.prems(2) e by auto
  note dec = decode_intervals_encode [OF n(2), of "concat bs @ rest"]
  show ?case
    using Cons.IH [OF bs] Cons.prems(2) parse_uuid_length [OF sid] sid dec le_value_bytes [OF n(1)]
    by (simp add: e blocks encode_intervals_def)
qed simp

text \<open>What goes to the server is the set that was consumed: read the way the server reads it, the
  binary form names each source by its sixteen bytes and holds, half-open, exactly the intervals
  kept here inclusive; nothing is left over.\<close>

theorem mysql_encode_decodes:
  assumes "gtid_set_ok s" "mysql_encode s = Some out" "length s < 2 ^ 64" "\<forall>e \<in> set s. length (snd e) < 2 ^ 64"
  shows "decode_set out = Some (map (\<lambda>(u, xs). (the (parse_uuid u), half_open xs)) s)"
proof -
  from assms(2) obtain blocks where out: "out = le_bytes 8 (length s) @ concat blocks"
    and blocks: "those (map (\<lambda>(u, xs). map_option (\<lambda>sid. sid @ encode_intervals xs) (parse_uuid u)) s) = Some blocks"
    by (auto simp: mysql_encode_def)
  have "\<forall>e \<in> set s. length (snd e) < 2 ^ 64 \<and> (\<forall>i \<in> set (snd e). interval_ok i)"
    using assms(1,4) by (auto simp: gtid_set_ok_def intervals_ok_def)
  from decode_sids_encode [OF blocks this, of "[]"] assms(3) show ?thesis
    by (simp add: decode_set_def out le_value_bytes)
qed

theorem mysql_encode_decodes_witness:
  "\<exists>out. mysql_encode [(''3E11FA47-71CA-11E1-9E33-C80AA9429562'', [(1, 5)])] = Some out \<and>
     map_option (map snd) (decode_set out) = Some [[(1, 6)]]"
proof -
  let ?u = "''3E11FA47-71CA-11E1-9E33-C80AA9429562''"
  have "parse_uuid ?u \<noteq> None" by code_simp
  then obtain out where out: "mysql_encode [(?u, [(1, 5)])] = Some out" by (auto simp: mysql_encode_def)
  have "gtid_set_ok [(?u, [(1, 5)])]" by (simp add: gtid_set_ok_def bt_wf_def interval_ok_def uuid_ok_def ascii_defs)
  from mysql_encode_decodes [OF this out] out show ?thesis by (simp add: half_open_def)
qed

end
