(* ===== verification/Gtid_Position.thy ===== *)
theory Gtid_Position
  imports Gtid_Set
begin

section \<open>Positions and what a checkpoint may claim (\<open>crates/source-mysql/src/gtid.rs\<close>)\<close>

text \<open>
  MariaDB's position, the choice between the two servers' forms, and the tracker that folds a
  transaction into the position only once a checkpoint covers its commit. What the tracker needs
  of a position is the locale \<open>gtid_log\<close>; both servers' positions are interpretations of it.
\<close>

type_synonym maria_gtid_pos = "(nat, nat \<times> nat) btree_map"

definition maria_add :: "nat \<Rightarrow> nat \<Rightarrow> nat \<Rightarrow> maria_gtid_pos \<Rightarrow> maria_gtid_pos" where
  "maria_add domain server_id seq_no domains =
     (let entry = unwrap_or (server_id, seq_no) (bt_get domains domain)
      in bt_insert domain (if seq_no \<ge> snd entry then (server_id, seq_no) else entry) domains)"

definition maria_entry_text :: "nat \<times> nat \<times> nat \<Rightarrow> string" where
  "maria_entry_text e = join ''-'' [show_nat (fst e), show_nat (fst (snd e)), show_nat (snd (snd e))]"

definition maria_to_text :: "maria_gtid_pos \<Rightarrow> string" where
  "maria_to_text domains = join '','' (map maria_entry_text domains)"

definition maria_parse_entry :: "string \<Rightarrow> maria_gtid_pos \<Rightarrow> maria_gtid_pos option" where
  "maria_parse_entry entry domains =
     (case split_char (CHR ''-'') entry of
        [d, s, q] \<Rightarrow>
          Option.bind (parse_uint 32 (trim d)) (\<lambda>domain.
          Option.bind (parse_uint 32 (trim s)) (\<lambda>server_id.
          map_option (\<lambda>seq_no. bt_insert domain (server_id, seq_no) domains) (parse_uint 64 (trim q))))
      | _ \<Rightarrow> None)"

fun maria_parse_entries :: "string list \<Rightarrow> maria_gtid_pos \<Rightarrow> maria_gtid_pos option" where
  "maria_parse_entries [] domains = Some domains"
| "maria_parse_entries (entry # entries) domains = Option.bind (maria_parse_entry entry domains) (maria_parse_entries entries)"

definition maria_parse :: "string \<Rightarrow> maria_gtid_pos option" where
  "maria_parse s =
     Option.bind (maria_parse_entries (filter (\<lambda>e. e \<noteq> []) (map trim (split_char (CHR '','') s))) [])
       (\<lambda>pos. if pos = [] then None else Some pos)"

datatype gtid_position = MySql mysql_gtid_set | MariaDb maria_gtid_pos

definition position_parse :: "string \<Rightarrow> gtid_position option" where
  "position_parse s =
     (let s = trim s
      in if s = [] then None
         else if CHR '':'' \<in> set s then map_option MySql (mysql_parse s)
         else map_option MariaDb (maria_parse s))"

fun position_to_text :: "gtid_position \<Rightarrow> string" where
  "position_to_text (MySql uuids) = mysql_to_text uuids"
| "position_to_text (MariaDb domains) = maria_to_text domains"

fun position_is_empty :: "gtid_position \<Rightarrow> bool" where
  "position_is_empty (MySql uuids) \<longleftrightarrow> uuids = []"
| "position_is_empty (MariaDb domains) \<longleftrightarrow> domains = []"

subsection \<open>The tracker\<close>

datatype consumed = ConsumedMySql string nat | ConsumedMariaDb nat nat nat

record gtid_tracker =
  gt_position :: gtid_position
  gt_pending :: "(nat \<times> consumed) list"
  gt_incomplete :: "string option"

definition tracker_new :: "bool \<Rightarrow> gtid_position option \<Rightarrow> gtid_tracker" where
  "tracker_new mariadb resume_from =
     \<lparr>gt_position = unwrap_or (if mariadb then MariaDb [] else MySql []) resume_from, gt_pending = [], gt_incomplete = None\<rparr>"

definition tracker_record :: "nat \<Rightarrow> consumed \<Rightarrow> gtid_tracker \<Rightarrow> gtid_tracker" where
  "tracker_record token c tr = tr\<lparr>gt_pending := gt_pending tr @ [(token, c)]\<rparr>"

definition mark_incomplete :: "string \<Rightarrow> gtid_tracker \<Rightarrow> gtid_tracker" where
  "mark_incomplete why tr = (if gt_incomplete tr = None then tr\<lparr>gt_incomplete := Some why\<rparr> else tr)"

definition OTHER_FORM :: string where
  "OTHER_FORM = ''a GTID arrived in the other server's form''"

text \<open>\<open>Inl\<close> is a transaction in the other server's form: the position is emptied.\<close>

fun consume :: "consumed list \<Rightarrow> gtid_position \<Rightarrow> (gtid_position, gtid_position) result" where
  "consume [] pos = Inr pos"
| "consume (ConsumedMySql uuid gno # cs) (MySql uuids) = consume cs (MySql (mysql_add uuid gno uuids))"
| "consume (ConsumedMariaDb domain server_id seq_no # cs) (MariaDb domains) =
     consume cs (MariaDb (maria_add domain server_id seq_no domains))"
| "consume (_ # cs) (MySql uuids) = Inl (MySql [])"
| "consume (_ # cs) (MariaDb domains) = Inl (MariaDb [])"

definition position_at :: "nat \<Rightarrow> gtid_tracker \<Rightarrow> string option \<times> gtid_tracker" where
  "position_at token tr =
     (let i = length (takeWhile (\<lambda>p. fst p \<le> token) (gt_pending tr));
          tr' = tr\<lparr>gt_pending := drop i (gt_pending tr)\<rparr>
      in case consume (map snd (take i (gt_pending tr))) (gt_position tr) of
           Inl pos \<Rightarrow> (None, tr'\<lparr>gt_position := pos, gt_incomplete := Some OTHER_FORM\<rparr>)
         | Inr pos \<Rightarrow>
             (if gt_incomplete tr \<noteq> None \<or> position_is_empty pos then None else Some (position_to_text pos),
              tr'\<lparr>gt_position := pos\<rparr>))"

subsection \<open>What a position promises\<close>

locale gtid_log =
  fixes add :: "'g \<Rightarrow> 'p \<Rightarrow> 'p"
    and covers :: "'p \<Rightarrow> 'c set"
    and implied :: "'g \<Rightarrow> 'c set"
    and valid :: "'p \<Rightarrow> bool"
    and admissible :: "'g \<Rightarrow> bool"
  assumes add_valid: "valid p \<Longrightarrow> admissible g \<Longrightarrow> valid (add g p)"
    and add_covers: "valid p \<Longrightarrow> admissible g \<Longrightarrow> covers (add g p) = covers p \<union> implied g"
begin

lemma fold_valid: "valid p \<Longrightarrow> \<forall>g \<in> set gs. admissible g \<Longrightarrow> valid (fold add gs p)"
  by (induction gs arbitrary: p) (simp_all add: add_valid)

lemma fold_covers:
  "valid p \<Longrightarrow> \<forall>g \<in> set gs. admissible g \<Longrightarrow> covers (fold add gs p) = covers p \<union> (\<Union>g \<in> set gs. implied g)"
  by (induction gs arbitrary: p) (auto simp: add_valid add_covers)

text \<open>A batch already covered changes nothing that is covered.\<close>

lemma fold_again:
  assumes "valid p" "\<forall>g \<in> set gs. admissible g"
  shows "covers (fold add gs (fold add gs p)) = covers (fold add gs p)"
  using fold_covers [OF fold_valid [OF assms] assms(2)] fold_covers [OF assms] by blast

end

interpretation mysql: gtid_log "\<lambda>(u, g). mysql_add u g" covered "\<lambda>g. {g}" gtid_set_ok
  "\<lambda>g. uuid_ok (fst g) \<and> snd g < 2 ^ 64 - 1"
  by unfold_locales (auto simp: mysql_add_ok)

definition maria_ok :: "maria_gtid_pos \<Rightarrow> bool" where
  "maria_ok domains \<longleftrightarrow> bt_wf domains \<and> (\<forall>e \<in> set domains. fst e < 2 ^ 32 \<and> fst (snd e) < 2 ^ 32 \<and> snd (snd e) < 2 ^ 64)"

definition maria_covers :: "maria_gtid_pos \<Rightarrow> (nat \<times> nat) set" where
  "maria_covers domains = {(d, n). \<exists>s q. bt_get domains d = Some (s, q) \<and> n \<le> q}"

definition maria_admissible :: "nat \<times> nat \<times> nat \<Rightarrow> bool" where
  "maria_admissible g \<longleftrightarrow> fst g < 2 ^ 32 \<and> fst (snd g) < 2 ^ 32 \<and> snd (snd g) < 2 ^ 64"

lemma maria_ok_Nil [simp]: "maria_ok []"
  by (simp add: maria_ok_def)

lemma ball_bt_insert: "\<forall>e \<in> set m. P e \<Longrightarrow> P (k, v) \<Longrightarrow> \<forall>e \<in> set (bt_insert k v m). P e"
  using bt_insert_subset [of k v m] by blast

lemma maria_add_ok:
  assumes "maria_ok p" "maria_admissible (d, s, q)"
  shows "maria_ok (maria_add d s q p)"
proof -
  let ?e = "unwrap_or (s, q) (bt_get p d)"
  let ?new = "if q \<ge> snd ?e then (s, q) else ?e"
  have all: "\<forall>e \<in> set p. maria_admissible e" and wf: "bt_wf p" using assms(1) by (auto simp: maria_ok_def maria_admissible_def)
  have "maria_admissible (d, ?e)"
  proof (cases "bt_get p d")
    case (Some e)
    then have "(d, e) \<in> set p" using bt_get_Some_iff [OF wf] by blast
    with all Some show ?thesis by auto
  qed (use assms(2) in simp)
  with assms(2) have "maria_admissible (d, ?new)" by (simp split: if_split)
  from ball_bt_insert [OF all this] wf show ?thesis
    by (simp add: maria_ok_def maria_admissible_def maria_add_def Let_def bt_wf_insert)
qed

lemma maria_add_covers: "maria_covers (maria_add d s q p) = maria_covers p \<union> {d} \<times> {..q}"
  by (cases "bt_get p d") (auto simp: maria_covers_def maria_add_def Let_def split: if_splits)

interpretation maria: gtid_log "\<lambda>(d, s, q). maria_add d s q" maria_covers "\<lambda>(d, s, q). {d} \<times> {..q}" maria_ok maria_admissible
  by unfold_locales (auto simp: maria_add_ok maria_add_covers)

subsection \<open>The text of a position\<close>

lemma maria_entry_free: "CHR '','' \<notin> set (maria_entry_text e)" "CHR '':'' \<notin> set (maria_entry_text e)"
  by (simp_all add: maria_entry_text_def show_nat_free)

lemma maria_entry_graphic: "\<forall>c \<in> set (maria_entry_text e). is_graphic c"
proof -
  have "is_graphic (CHR ''-'')" by (simp add: is_graphic_def)
  then show ?thesis using show_nat_digits digit_graphic by (auto simp: maria_entry_text_def)
qed

lemma maria_parse_entry_text: "maria_admissible e \<Longrightarrow> maria_parse_entry (maria_entry_text e) m = Some (bt_insert (fst e) (snd e) m)"
proof -
  assume e: "maria_admissible e"
  have "split_char (CHR ''-'') (maria_entry_text e) = [show_nat (fst e), show_nat (fst (snd e)), show_nat (snd (snd e))]"
    unfolding maria_entry_text_def by (rule split_char_join) (simp_all add: show_nat_free)
  with e show ?thesis by (simp add: maria_parse_entry_def maria_admissible_def)
qed

lemma maria_parse_entries_text:
  assumes "maria_ok (done @ p)"
  shows "maria_parse_entries (map maria_entry_text p) done = Some (done @ p)"
  using assms
proof (induction p arbitrary: "done")
  case (Cons e p)
  have "maria_admissible e" "\<forall>x \<in> set done. fst x < fst e"
    using Cons.prems by (auto simp: maria_ok_def bt_wf_def sorted_wrt_append maria_admissible_def)
  with maria_parse_entry_text [of e "done"] bt_insert_last [of "done" "fst e" "snd e"] Cons.IH [of "done @ [e]"] Cons.prems
  show ?case by simp
qed simp

lemma maria_text_roundtrip:
  assumes "maria_ok p" "p \<noteq> []"
  shows "maria_parse (maria_to_text p) = Some p"
proof -
  have "split_char (CHR '','') (maria_to_text p) = map maria_entry_text p"
    unfolding maria_to_text_def by (rule split_char_join) (use assms(2) in \<open>auto simp: maria_entry_free\<close>)
  moreover have "map trim (map maria_entry_text p) = map maria_entry_text p"
    unfolding map_map by (rule map_cong [OF refl]) (simp add: trim_graphic [OF maria_entry_graphic])
  moreover have "filter (\<lambda>e. e \<noteq> []) (map maria_entry_text p) = map maria_entry_text p"
    by (intro filter_True) (auto simp: maria_entry_text_def)
  ultimately show ?thesis using maria_parse_entries_text [of "[]" p] assms by (simp add: maria_parse_def del: map_map)
qed

lemma set_join: "set (join sep xs) \<subseteq> set sep \<union> \<Union> (set ` set xs)"
proof (induction xs)
  case (Cons x xs)
  then show ?case by (cases xs) auto
qed simp

lemma join_graphic:
  assumes "\<forall>x \<in> set xs. \<forall>c \<in> set x. is_graphic c"
  shows "\<forall>c \<in> set (join '','' xs). is_graphic c"
proof
  fix c assume "c \<in> set (join '','' xs)"
  with set_join [of "'',''" xs] have "c = CHR '','' \<or> (\<exists>x \<in> set xs. c \<in> set x)" by auto
  moreover have "is_graphic (CHR '','')" by (simp add: is_graphic_def)
  ultimately show "is_graphic c" using assms by blast
qed

lemma maria_text_no_colon: "CHR '':'' \<notin> set (maria_to_text p)"
proof
  assume "CHR '':'' \<in> set (maria_to_text p)"
  with set_join [of "'',''" "map maria_entry_text p"] show False by (auto simp: maria_to_text_def maria_entry_free)
qed

lemma join_prefix: "join sep (x # xs) = x @ (if xs = [] then [] else sep @ join sep xs)"
  by (cases xs) simp_all

lemma mysql_text_colon: "gtid_set_ok s \<Longrightarrow> s \<noteq> [] \<Longrightarrow> CHR '':'' \<in> set (mysql_to_text s)"
proof -
  assume s: "gtid_set_ok s" "s \<noteq> []"
  obtain u i js t where "s = (u, i # js) # t" using s by (cases s; cases "snd (hd s)") (auto simp: gtid_set_ok_def)
  then show ?thesis by (simp add: mysql_to_text_def join_prefix entry_text_def)
qed

fun position_ok :: "gtid_position \<Rightarrow> bool" where
  "position_ok (MySql s) \<longleftrightarrow> gtid_set_ok s"
| "position_ok (MariaDb p) \<longleftrightarrow> maria_ok p"

lemma mysql_text_graphic: "gtid_set_ok s \<Longrightarrow> \<forall>c \<in> set (mysql_to_text s). is_graphic c"
  unfolding mysql_to_text_def
  by (rule join_graphic) (use entry_text_graphic in \<open>fastforce simp: gtid_set_ok_def\<close>)

lemma maria_text_graphic: "\<forall>c \<in> set (maria_to_text p). is_graphic c"
  unfolding maria_to_text_def by (rule join_graphic) (use maria_entry_graphic in auto)

lemma position_roundtrip:
  assumes "position_ok pos" "\<not> position_is_empty pos"
  shows "position_parse (position_to_text pos) = Some pos"
proof (cases pos)
  case (MySql s)
  with assms have "gtid_set_ok s" "s \<noteq> []" by simp_all
  with MySql mysql_text_colon [of s] trim_graphic [OF mysql_text_graphic, of s] mysql_text_roundtrip [of s] show ?thesis
    by (auto simp: position_parse_def Let_def)
next
  case (MariaDb p)
  with assms have p: "maria_ok p" "p \<noteq> []" by simp_all
  then have "maria_to_text p \<noteq> []" by (cases p) (simp_all add: maria_to_text_def join_prefix maria_entry_text_def)
  with p MariaDb maria_text_no_colon [of p] trim_graphic [OF maria_text_graphic] maria_text_roundtrip [OF p] show ?thesis
    by (simp add: position_parse_def Let_def)
qed

subsection \<open>What the tracker claims\<close>

type_synonym claim = "(string \<times> nat) + (nat \<times> nat)"

fun position_covers :: "gtid_position \<Rightarrow> claim set" where
  "position_covers (MySql s) = Inl ` covered s"
| "position_covers (MariaDb p) = Inr ` maria_covers p"

fun implied :: "consumed \<Rightarrow> claim set" where
  "implied (ConsumedMySql u g) = {Inl (u, g)}"
| "implied (ConsumedMariaDb d s q) = Inr ` ({d} \<times> {..q})"

text \<open>A transaction in the form of the position's server, within the range of its numbers.\<close>

fun fits :: "gtid_position \<Rightarrow> consumed \<Rightarrow> bool" where
  "fits (MySql s) (ConsumedMySql u g) \<longleftrightarrow> uuid_ok u \<and> g < 2 ^ 64 - 1"
| "fits (MariaDb p) (ConsumedMariaDb d s q) \<longleftrightarrow> maria_admissible (d, s, q)"
| "fits _ _ \<longleftrightarrow> False"

lemma position_is_empty_iff: "position_ok pos \<Longrightarrow> position_is_empty pos \<longleftrightarrow> position_covers pos = {}"
proof (induction pos)
  case (MySql s)
  show ?case
  proof
    assume "position_covers (MySql s) = {}"
    then have "covered s = covered []" by (simp add: covered_def bt_get_def)
    with MySql gtid_set_unique [of s "[]"] show "position_is_empty (MySql s)" by simp
  qed (simp add: covered_def bt_get_def)
next
  case (MariaDb p)
  have "p = []" if "maria_covers p = {}"
  proof (rule ccontr)
    assume "p \<noteq> []"
    then obtain d s q p' where "p = (d, s, q) # p'" by (cases p) auto
    then have "(d, q) \<in> maria_covers p" by (simp add: maria_covers_def bt_get_def)
    with that show False by simp
  qed
  then show ?case by (auto simp: maria_covers_def bt_get_def)
qed

lemma consume_mysql:
  "\<forall>c \<in> set cs. fits (MySql s) c \<Longrightarrow> \<exists>gs. cs = map (\<lambda>(u, g). ConsumedMySql u g) gs \<and>
     consume cs (MySql s) = Inr (MySql (fold (\<lambda>(u, g). mysql_add u g) gs s)) \<and> (\<forall>g \<in> set gs. uuid_ok (fst g) \<and> snd g < 2 ^ 64 - 1)"
proof (induction cs arbitrary: s)
  case (Cons c cs)
  then obtain u g where c: "c = ConsumedMySql u g" "uuid_ok u" "g < 2 ^ 64 - 1" by (cases c) auto
  have "\<forall>c \<in> set cs. fits (MySql (mysql_add u g s)) c" using Cons.prems by (auto elim!: fits.elims)
  from Cons.IH [OF this] c show ?case by (force intro: exI [of _ "(u, g) # _"])
qed simp

lemma consume_maria:
  "\<forall>c \<in> set cs. fits (MariaDb p) c \<Longrightarrow> \<exists>gs. cs = map (\<lambda>(d, s, q). ConsumedMariaDb d s q) gs \<and>
     consume cs (MariaDb p) = Inr (MariaDb (fold (\<lambda>(d, s, q). maria_add d s q) gs p)) \<and> (\<forall>g \<in> set gs. maria_admissible g)"
proof (induction cs arbitrary: p)
  case (Cons c cs)
  then obtain d s q where c: "c = ConsumedMariaDb d s q" "maria_admissible (d, s, q)" by (cases c) auto
  have "\<forall>c \<in> set cs. fits (MariaDb (maria_add d s q p)) c" using Cons.prems by (auto elim!: fits.elims)
  from Cons.IH [OF this] c show ?case by (force intro: exI [of _ "(d, s, q) # _"])
qed simp

lemma consume_ok:
  assumes "position_ok pos" "\<forall>c \<in> set cs. fits pos c"
  obtains pos' where "consume cs pos = Inr pos'" "position_ok pos'" "\<And>c. fits pos' c = fits pos c"
    "position_covers pos' = position_covers pos \<union> (\<Union>c \<in> set cs. implied c)"
proof (cases pos)
  case (MySql s)
  from consume_mysql [of cs s] assms(2) MySql obtain gs where gs: "cs = map (\<lambda>(u, g). ConsumedMySql u g) gs"
    "consume cs pos = Inr (MySql (fold (\<lambda>(u, g). mysql_add u g) gs s))" "\<forall>g \<in> set gs. uuid_ok (fst g) \<and> snd g < 2 ^ 64 - 1" by blast
  have s: "gtid_set_ok s" using assms(1) MySql by simp
  have eq: "(\<Union>c \<in> set cs. implied c) = Inl ` (\<Union>g \<in> set gs. {g})" by (auto simp: gs(1))
  show ?thesis
  proof (rule that [OF gs(2)])
    show "position_ok (MySql (fold (\<lambda>(u, g). mysql_add u g) gs s))" using mysql.fold_valid [OF s gs(3)] by simp
    show "fits (MySql (fold (\<lambda>(u, g). mysql_add u g) gs s)) c = fits pos c" for c by (cases c) (simp_all add: MySql)
    show "position_covers (MySql (fold (\<lambda>(u, g). mysql_add u g) gs s)) = position_covers pos \<union> (\<Union>c \<in> set cs. implied c)"
      using mysql.fold_covers [OF s gs(3)] by (simp add: MySql eq image_Un)
  qed
next
  case (MariaDb p)
  from consume_maria [of cs p] assms(2) MariaDb obtain gs where gs: "cs = map (\<lambda>(d, s, q). ConsumedMariaDb d s q) gs"
    "consume cs pos = Inr (MariaDb (fold (\<lambda>(d, s, q). maria_add d s q) gs p))" "\<forall>g \<in> set gs. maria_admissible g" by blast
  have p: "maria_ok p" using assms(1) MariaDb by simp
  have eq: "(\<Union>c \<in> set cs. implied c) = Inr ` (\<Union>g \<in> set gs. case g of (d, s, q) \<Rightarrow> {d} \<times> {..q})" by (fastforce simp: gs(1))
  show ?thesis
  proof (rule that [OF gs(2)])
    show "position_ok (MariaDb (fold (\<lambda>(d, s, q). maria_add d s q) gs p))" using maria.fold_valid [OF p gs(3)] by simp
    show "fits (MariaDb (fold (\<lambda>(d, s, q). maria_add d s q) gs p)) c = fits pos c" for c by (cases c) (simp_all add: MariaDb)
    show "position_covers (MariaDb (fold (\<lambda>(d, s, q). maria_add d s q) gs p)) = position_covers pos \<union> (\<Union>c \<in> set cs. implied c)"
      using maria.fold_covers [OF p gs(3)] by (simp add: MariaDb eq image_Un)
  qed
qed

text \<open>The history of a tracker: transactions recorded at the position of their commit, checkpoints that
  asked, transactions no set can name.\<close>

datatype tracker_op = Recorded nat consumed | Asked nat | Unnamed string

fun tracker_step :: "tracker_op \<Rightarrow> gtid_tracker \<Rightarrow> gtid_tracker" where
  "tracker_step (Recorded token c) tr = tracker_record token c tr"
| "tracker_step (Asked token) tr = snd (position_at token tr)"
| "tracker_step (Unnamed why) tr = mark_incomplete why tr"

fun op_recorded :: "tracker_op \<Rightarrow> (nat \<times> consumed) list" where
  "op_recorded (Recorded token c) = [(token, c)]"
| "op_recorded _ = []"

definition recorded :: "tracker_op list \<Rightarrow> (nat \<times> consumed) list" where
  "recorded ops = concat (map op_recorded ops)"

definition claims :: "gtid_position \<Rightarrow> (nat \<times> consumed) list \<Rightarrow> claim set" where
  "claims start recs = position_covers start \<union> (\<Union>r \<in> set recs. implied (snd r))"

lemma recorded_simps [simp]: "recorded [] = []" "recorded (ops @ [op]) = recorded ops @ op_recorded op"
  by (simp_all add: recorded_def)

definition tracker_ok :: "gtid_position \<Rightarrow> tracker_op list \<Rightarrow> gtid_tracker \<Rightarrow> (nat \<times> consumed) list \<Rightarrow> bool" where
  "tracker_ok start ops tr folded \<longleftrightarrow>
     recorded ops = folded @ gt_pending tr \<and> position_ok (gt_position tr) \<and> (\<forall>c. fits (gt_position tr) c = fits start c) \<and>
     position_covers (gt_position tr) = claims start folded \<and> (gt_incomplete tr = None \<longleftrightarrow> (\<forall>why. Unnamed why \<notin> set ops)) \<and>
     (\<forall>r \<in> set folded. \<exists>token. Asked token \<in> set ops \<and> fst r \<le> token)"

lemma position_at_ok:
  assumes "tracker_ok start ops tr folded" "\<forall>r \<in> set (recorded ops). fits start (snd r)"
    and "taken = takeWhile (\<lambda>p. fst p \<le> token) (gt_pending tr)"
  obtains pos where "position_ok pos" "position_covers pos = claims start (folded @ taken)"
    "position_at token tr = (if gt_incomplete tr \<noteq> None \<or> position_is_empty pos then None else Some (position_to_text pos),
       tr\<lparr>gt_pending := dropWhile (\<lambda>p. fst p \<le> token) (gt_pending tr), gt_position := pos\<rparr>)"
    "\<And>c. fits pos c = fits start c"
proof -
  have take: "take (length taken) (gt_pending tr) = taken" "drop (length taken) (gt_pending tr) = dropWhile (\<lambda>p. fst p \<le> token) (gt_pending tr)"
    by (simp_all add: assms(3) takeWhile_eq_take [symmetric] dropWhile_eq_drop [symmetric])
  have "set taken \<subseteq> set (recorded ops)" using assms(1,3) by (auto simp: tracker_ok_def dest: set_takeWhileD)
  then have f: "\<forall>c \<in> set (map snd taken). fits (gt_position tr) c" using assms(1,2) by (auto simp: tracker_ok_def)
  have ok: "position_ok (gt_position tr)" using assms(1) by (simp add: tracker_ok_def)
  from consume_ok [OF ok f] obtain pos where pos: "consume (map snd taken) (gt_position tr) = Inr pos" "position_ok pos"
    "\<And>c. fits pos c = fits (gt_position tr) c" "position_covers pos = position_covers (gt_position tr) \<union> (\<Union>c \<in> set (map snd taken). implied c)"
    by blast
  have cov: "position_covers pos = claims start (folded @ taken)" using pos(4) assms(1) by (auto simp: tracker_ok_def claims_def)
  show ?thesis
    by (rule that [OF pos(2) cov]) (use pos(1,3) assms(1,3) take in \<open>simp_all add: position_at_def Let_def tracker_ok_def\<close>)
qed

lemma tracker_step_ok:
  assumes "tracker_ok start ops tr folded" "\<forall>r \<in> set (recorded (ops @ [op])). fits start (snd r)"
  shows "\<exists>folded'. tracker_ok start (ops @ [op]) (tracker_step op tr) folded'"
proof (cases op)
  case (Recorded token c)
  with assms(1) show ?thesis by (intro exI [of _ folded]) (auto simp: tracker_ok_def tracker_record_def)
next
  case (Unnamed why)
  with assms(1) show ?thesis by (intro exI [of _ folded]) (auto simp: tracker_ok_def mark_incomplete_def)
next
  case (Asked token)
  let ?taken = "takeWhile (\<lambda>p. fst p \<le> token) (gt_pending tr)"
  have "\<forall>r \<in> set (recorded ops). fits start (snd r)" using assms(2) by simp
  from position_at_ok [OF assms(1) this refl, of token] obtain pos where
    pos: "position_ok pos" "position_covers pos = claims start (folded @ ?taken)" "\<And>c. fits pos c = fits start c"
    and at: "snd (position_at token tr) = tr\<lparr>gt_pending := dropWhile (\<lambda>p. fst p \<le> token) (gt_pending tr), gt_position := pos\<rparr>"
    by (metis snd_conv)
  have "tracker_ok start (ops @ [op]) (tracker_step op tr) (folded @ ?taken)"
    using assms(1) pos at Asked by (auto simp: tracker_ok_def dest: set_takeWhileD)
  then show ?thesis by blast
qed

lemma tracker_run_ok:
  assumes "position_ok start" "\<forall>r \<in> set (recorded ops). fits start (snd r)"
    and "tr = \<lparr>gt_position = start, gt_pending = [], gt_incomplete = None\<rparr>"
  shows "\<exists>folded. tracker_ok start ops (fold tracker_step ops tr) folded"
  using assms(2)
proof (induction ops rule: rev_induct)
  case Nil
  show ?case using assms(1,3) by (intro exI [of _ "[]"]) (simp add: tracker_ok_def claims_def)
next
  case (snoc op ops)
  then obtain folded where "tracker_ok start ops (fold tracker_step ops tr) folded" by auto
  from tracker_step_ok [OF this snoc.prems] show ?case by simp
qed

lemma takeWhile_sorted: "sorted (map fst (rs :: (nat \<times> 'a) list)) \<Longrightarrow> takeWhile (\<lambda>p. fst p \<le> token) rs = filter (\<lambda>p. fst p \<le> token) rs"
  by (induction rs) (auto simp: filter_empty_conv intro!: filter_False [symmetric])

abbreviation resumed :: "bool \<Rightarrow> gtid_position option \<Rightarrow> gtid_position" where
  "resumed mariadb resume \<equiv> gt_position (tracker_new mariadb resume)"

text \<open>C35. A checkpoint claims the transactions its position covers, no more and no fewer: whatever was
  recorded and asked before, the text a MySQL or MariaDB tracker gives for a position reads back
  as a position that covers what it resumed from and the transactions whose commits are at or
  before it; it gives none when there is nothing to claim or something arrived that no set can
  name.\<close>

theorem tracker_claims_exactly:
  assumes "position_ok (resumed mariadb resume)"
    and "\<forall>r \<in> set (recorded ops). fits (resumed mariadb resume) (snd r)" "sorted (map fst (recorded ops))" "\<forall>q. Asked q \<in> set ops \<longrightarrow> q \<le> token"
  shows "case fst (position_at token (fold tracker_step ops (tracker_new mariadb resume))) of
      None \<Rightarrow> claims (resumed mariadb resume) (filter (\<lambda>r. fst r \<le> token) (recorded ops)) = {} \<or> (\<exists>why. Unnamed why \<in> set ops)
    | Some s \<Rightarrow> (\<forall>why. Unnamed why \<notin> set ops) \<and>
        (\<exists>pos. position_parse s = Some pos \<and> position_covers pos = claims (resumed mariadb resume) (filter (\<lambda>r. fst r \<le> token) (recorded ops)))"
proof -
  let ?start = "resumed mariadb resume"
  define tr where "tr = fold tracker_step ops (tracker_new mariadb resume)"
  obtain folded where ok: "tracker_ok ?start ops tr folded"
    using tracker_run_ok [OF assms(1,2), of "tracker_new mariadb resume"] by (auto simp: tr_def tracker_new_def)
  let ?taken = "takeWhile (\<lambda>p. fst p \<le> token) (gt_pending tr)"
  have recs: "recorded ops = folded @ gt_pending tr" using ok by (simp add: tracker_ok_def)
  have "fst r \<le> token" if "r \<in> set folded" for r using ok that assms(4) by (fastforce simp: tracker_ok_def)
  then have "filter (\<lambda>r. fst r \<le> token) (recorded ops) = folded @ ?taken"
    using assms(3) takeWhile_sorted [of "gt_pending tr" token] by (simp add: recs sorted_append)
  moreover obtain pos where "position_ok pos" "position_covers pos = claims ?start (folded @ ?taken)"
    "fst (position_at token tr) = (if gt_incomplete tr \<noteq> None \<or> position_is_empty pos then None else Some (position_to_text pos))"
    by (rule position_at_ok [OF ok assms(2) refl, of token]) (simp only: fst_conv)
  moreover have "gt_incomplete tr = None \<longleftrightarrow> (\<forall>why. Unnamed why \<notin> set ops)" using ok by (simp add: tracker_ok_def)
  ultimately show ?thesis
    using position_roundtrip [of pos] position_is_empty_iff [of pos] by (auto simp: tr_def [symmetric])
qed

theorem tracker_claims_exactly_witness:
  "\<exists>s pos. fst (position_at 250 (fold tracker_step [Recorded 100 (ConsumedMySql ''a'' 2), Asked 150, Recorded 200 (ConsumedMySql ''a'' 3),
      Recorded 300 (ConsumedMySql ''a'' 4)] (tracker_new False None))) = Some s \<and>
    position_parse s = Some pos \<and> position_covers pos = {Inl (''a'', 2), Inl (''a'', 3)}"
proof -
  let ?ops = "[Recorded 100 (ConsumedMySql ''a'' 2), Asked 150, Recorded 200 (ConsumedMySql ''a'' 3), Recorded 300 (ConsumedMySql ''a'' 4)]"
  have recs: "recorded ?ops = [(100, ConsumedMySql ''a'' 2), (200, ConsumedMySql ''a'' 3), (300, ConsumedMySql ''a'' 4)]"
    by (simp add: recorded_def)
  have "claims (MySql []) (filter (\<lambda>r. fst r \<le> 250) (recorded ?ops)) = {Inl (''a'', 2), Inl (''a'', 3)}"
    by (auto simp: recs claims_def covered_def bt_get_def)
  with tracker_claims_exactly [of False None ?ops 250] show ?thesis
    by (auto simp: recs tracker_new_def uuid_ok_def ascii_defs split: option.splits)
qed

end
