(* ===== verification/Pg_Output.thy ===== *)
theory Pg_Output
  imports Rust_Bytes
begin

section \<open>The pgoutput decoder (\<open>crates/source/src/pgoutput.rs\<close>)\<close>

text \<open>
  The messages of PostgreSQL's logical replication protocol, the reader and the parser. A reader
  takes the bytes that are left and gives a value with the rest, or an error. What a reader
  promises is the locale \<open>reader\<close>: it looks at nothing behind the value it read. The format the
  server documents is \<open>encode_message\<close>.
\<close>

datatype parse_error = UnexpectedEnd | UnknownMessage char | TrailingBytes nat

record pg_begin =
  bg_final_lsn :: nat
  bg_commit_ts :: int
  bg_xid :: nat

record pg_commit =
  cm_flags :: char
  cm_commit_lsn :: nat
  cm_end_lsn :: nat
  cm_commit_ts :: int

datatype replica_identity = IdentityDefault | IdentityNone | IdentityFull | IdentityIndex

record relation_column =
  rc_name :: string
  rc_type_oid :: nat
  rc_typmod :: int
  rc_in_identity :: bool

record relation =
  rl_rel_id :: nat
  rl_schema :: string
  rl_name :: string
  rl_identity :: replica_identity
  rl_columns :: "relation_column list"

datatype tuple_value = TNull | UnchangedToast | TText bytes

type_synonym tuple = "tuple_value list"

datatype old_tuple = OldKey tuple | OldFull tuple

record type_def =
  td_oid :: nat
  td_schema :: string
  td_name :: string

datatype message =
    MBegin pg_begin
  | MRelation relation
  | MType type_def
  | MInsert nat tuple
  | MUpdate nat "old_tuple option" tuple
  | MDelete nat old_tuple
  | MTruncate char "nat list"
  | MCommit pg_commit

subsection \<open>Drift\<close>

definition column_names_of :: "relation \<Rightarrow> string list" where
  "column_names_of r = map rc_name (rl_columns r)"

definition retyped :: "relation \<Rightarrow> relation_column \<Rightarrow> string option" where
  "retyped after b =
     Option.bind (List.find (\<lambda>a. rc_name a = rc_name b) (rl_columns after)) (\<lambda>a.
       if rc_type_oid a \<noteq> rc_type_oid b
       then Some (rc_name b @ '' ('' @ show_nat (rc_type_oid b) @ '' -> '' @ show_nat (rc_type_oid a) @ '')'') else None)"

definition column_drift :: "relation \<Rightarrow> relation \<Rightarrow> string option" where
  "column_drift before after =
     (let old = column_names_of before; new = column_names_of after;
          added = filter (\<lambda>c. c \<notin> set old) new;
          removed = filter (\<lambda>c. c \<notin> set new) old;
          changed = List.map_filter (retyped after) (rl_columns before);
          parts = (if added \<noteq> [] then [''added '' @ join '', '' added] else []) @
            (if removed \<noteq> [] then [''removed '' @ join '', '' removed] else []) @
            (if changed \<noteq> [] then [''retyped '' @ join '', '' changed] else [])
      in if parts = [] then None else Some (join ''; '' parts))"

subsection \<open>The reader\<close>

type_synonym 'a reading = "bytes \<Rightarrow> (parse_error, 'a \<times> bytes) result"

definition take_bytes :: "nat \<Rightarrow> bytes reading" where
  "take_bytes n buf = (if length buf < n then Inl UnexpectedEnd else Inr (take n buf, drop n buf))"

definition read_u8 :: "char reading" where
  "read_u8 buf = bindr (take_bytes 1 buf) (\<lambda>(b, buf). Inr (hd b, buf))"

definition read_uint :: "nat \<Rightarrow> nat reading" where
  "read_uint n buf = bindr (take_bytes n buf) (\<lambda>(b, buf). Inr (be_value b, buf))"

definition read_int :: "nat \<Rightarrow> int reading" where
  "read_int n buf = bindr (read_uint n buf) (\<lambda>(v, buf). Inr (as_signed (8 * n) v, buf))"

definition read_string :: "string reading" where
  "read_string buf =
     (case split_once (CHR 0x00) buf of None \<Rightarrow> Inl UnexpectedEnd | Some (s, buf) \<Rightarrow> Inr (from_utf8_lossy s, buf))"

fun read_many :: "'a reading \<Rightarrow> nat \<Rightarrow> 'a list reading" where
  "read_many rd 0 buf = Inr ([], buf)"
| "read_many rd (Suc n) buf = bindr (rd buf) (\<lambda>(x, buf). bindr (read_many rd n buf) (\<lambda>(xs, buf). Inr (x # xs, buf)))"

definition read_value :: "tuple_value reading" where
  "read_value buf = bindr (read_u8 buf) (\<lambda>(kind, buf).
     if kind = CHR ''n'' then Inr (TNull, buf)
     else if kind = CHR ''u'' then Inr (UnchangedToast, buf)
     else if kind = CHR ''t'' \<or> kind = CHR ''b'' then
       bindr (read_int 4 buf) (\<lambda>(len, buf).
         if len < 0 then Inl UnexpectedEnd else bindr (take_bytes (nat len) buf) (\<lambda>(b, buf). Inr (TText b, buf)))
     else Inl (UnknownMessage kind))"

definition read_tuple :: "tuple reading" where
  "read_tuple buf = bindr (read_uint 2 buf) (\<lambda>(ncols, buf). read_many read_value ncols buf)"

definition read_column :: "relation_column reading" where
  "read_column buf =
     bindr (read_u8 buf) (\<lambda>(flag, buf).
     bindr (read_string buf) (\<lambda>(cname, buf).
     bindr (read_uint 4 buf) (\<lambda>(oid, buf).
     bindr (read_int 4 buf) (\<lambda>(typmod, buf).
       Inr (\<lparr>rc_name = cname, rc_type_oid = oid, rc_typmod = typmod, rc_in_identity = (flag = CHR 0x01 \<or> flag = CHR ''1'')\<rparr>, buf)))))"

definition read_identity :: "replica_identity reading" where
  "read_identity buf = bindr (read_u8 buf) (\<lambda>(kind, buf).
     if kind = CHR ''d'' then Inr (IdentityDefault, buf)
     else if kind = CHR ''n'' then Inr (IdentityNone, buf)
     else if kind = CHR ''f'' then Inr (IdentityFull, buf)
     else if kind = CHR ''i'' then Inr (IdentityIndex, buf)
     else Inl (UnknownMessage (CHR ''R'')))"

definition read_relation :: "relation reading" where
  "read_relation buf =
     bindr (read_uint 4 buf) (\<lambda>(rel_id, buf).
     bindr (read_string buf) (\<lambda>(schema, buf).
     bindr (read_string buf) (\<lambda>(name, buf).
     bindr (read_identity buf) (\<lambda>(identity, buf).
     bindr (read_uint 2 buf) (\<lambda>(ncols, buf).
     bindr (read_many read_column ncols buf) (\<lambda>(columns, buf).
       Inr (\<lparr>rl_rel_id = rel_id, rl_schema = schema, rl_name = name, rl_identity = identity, rl_columns = columns\<rparr>, buf)))))))"

definition read_new :: "tuple reading" where
  "read_new buf = bindr (read_u8 buf) (\<lambda>(marker, buf).
     if marker \<noteq> CHR ''N'' then Inl (UnknownMessage marker) else read_tuple buf)"

definition read_begin :: "pg_begin reading" where
  "read_begin buf =
     bindr (read_uint 8 buf) (\<lambda>(final_lsn, buf).
     bindr (read_int 8 buf) (\<lambda>(ts, buf).
     bindr (read_uint 4 buf) (\<lambda>(xid, buf).
       Inr (\<lparr>bg_final_lsn = final_lsn, bg_commit_ts = ts, bg_xid = xid\<rparr>, buf))))"

definition read_commit :: "pg_commit reading" where
  "read_commit buf =
     bindr (read_u8 buf) (\<lambda>(flags, buf).
     bindr (read_uint 8 buf) (\<lambda>(commit_lsn, buf).
     bindr (read_uint 8 buf) (\<lambda>(end_lsn, buf).
     bindr (read_int 8 buf) (\<lambda>(ts, buf).
       Inr (\<lparr>cm_flags = flags, cm_commit_lsn = commit_lsn, cm_end_lsn = end_lsn, cm_commit_ts = ts\<rparr>, buf)))))"

definition read_type :: "type_def reading" where
  "read_type buf =
     bindr (read_uint 4 buf) (\<lambda>(oid, buf).
     bindr (read_string buf) (\<lambda>(schema, buf).
     bindr (read_string buf) (\<lambda>(name, buf).
       Inr (\<lparr>td_oid = oid, td_schema = schema, td_name = name\<rparr>, buf))))"

definition read_insert :: "message reading" where
  "read_insert buf =
     bindr (read_uint 4 buf) (\<lambda>(rel_id, buf).
     bindr (read_new buf) (\<lambda>(new_tuple, buf). Inr (MInsert rel_id new_tuple, buf)))"

text \<open>The old tuple of an update is there when the next byte says so; nothing is taken otherwise.\<close>

definition read_old :: "old_tuple option reading" where
  "read_old buf =
     (case buf of
        k # rest \<Rightarrow>
          if k = CHR ''K'' \<or> k = CHR ''O'' then
            bindr (read_tuple rest) (\<lambda>(t, buf). Inr (Some (if k = CHR ''K'' then OldKey t else OldFull t), buf))
          else Inr (None, buf)
      | [] \<Rightarrow> Inr (None, buf))"

definition read_update :: "message reading" where
  "read_update buf =
     bindr (read_uint 4 buf) (\<lambda>(rel_id, buf).
     bindr (read_old buf) (\<lambda>(old_tuple, buf).
     bindr (read_new buf) (\<lambda>(new_tuple, buf). Inr (MUpdate rel_id old_tuple new_tuple, buf))))"

definition read_delete :: "message reading" where
  "read_delete buf =
     bindr (read_uint 4 buf) (\<lambda>(rel_id, buf).
     bindr (read_u8 buf) (\<lambda>(k, buf).
       if k \<noteq> CHR ''K'' \<and> k \<noteq> CHR ''O'' then Inl (UnknownMessage k)
       else bindr (read_tuple buf) (\<lambda>(t, buf). Inr (MDelete rel_id (if k = CHR ''K'' then OldKey t else OldFull t), buf))))"

definition read_truncate :: "message reading" where
  "read_truncate buf =
     bindr (read_uint 4 buf) (\<lambda>(nrels, buf).
     bindr (read_u8 buf) (\<lambda>(flags, buf).
     bindr (read_many (read_uint 4) nrels buf) (\<lambda>(rel_ids, buf). Inr (MTruncate flags rel_ids, buf))))"

definition read_body :: "char \<Rightarrow> message reading" where
  "read_body tag buf =
     (if tag = CHR ''B'' then bindr (read_begin buf) (\<lambda>(b, buf). Inr (MBegin b, buf))
      else if tag = CHR ''C'' then bindr (read_commit buf) (\<lambda>(c, buf). Inr (MCommit c, buf))
      else if tag = CHR ''R'' then bindr (read_relation buf) (\<lambda>(r, buf). Inr (MRelation r, buf))
      else if tag = CHR ''Y'' then bindr (read_type buf) (\<lambda>(t, buf). Inr (MType t, buf))
      else if tag = CHR ''I'' then read_insert buf
      else if tag = CHR ''U'' then read_update buf
      else if tag = CHR ''D'' then read_delete buf
      else if tag = CHR ''T'' then read_truncate buf
      else Inl (UnknownMessage tag))"

definition pg_parse :: "bytes \<Rightarrow> (parse_error, message) result" where
  "pg_parse msg =
     (case msg of
        [] \<Rightarrow> Inl UnexpectedEnd
      | tag # body \<Rightarrow>
          bindr (read_body tag body) (\<lambda>(out, left). if left \<noteq> [] then Inl (TrailingBytes (length left)) else Inr out))"

subsection \<open>What a reader promises\<close>

locale reader =
  fixes rd :: "'a reading"
  assumes stable: "rd buf = Inr (x, left) \<Longrightarrow> rd (buf @ behind) = Inr (x, left @ behind)"
begin

lemma many_stable: "read_many rd n buf = Inr (xs, left) \<Longrightarrow> read_many rd n (buf @ behind) = Inr (xs, left @ behind)"
  by (induction n arbitrary: buf xs) (fastforce simp: bindr_Inr_iff stable)+

lemma many_reader: "reader (read_many rd n)"
  by unfold_locales (rule many_stable)

end

lemma reader_bind:
  assumes "reader rd" "\<And>x. reader (f x)"
  shows "reader (\<lambda>buf. bindr (rd buf) (\<lambda>(x, buf). f x buf))"
proof
  fix buf y left behind
  assume "bindr (rd buf) (\<lambda>(x, buf). f x buf) = Inr (y, left)"
  then obtain x mid where "rd buf = Inr (x, mid)" "f x mid = Inr (y, left)" by (auto simp: bindr_Inr_iff)
  with reader.stable [OF assms(1)] reader.stable [OF assms(2)]
  show "bindr (rd (buf @ behind)) (\<lambda>(x, buf). f x buf) = Inr (y, left @ behind)" by (fastforce simp: bindr_Inr_iff)
qed

lemma reader_ret: "reader (\<lambda>buf. Inr (x, buf))"
  by unfold_locales simp

lemma reader_fail: "reader (\<lambda>buf. Inl e)"
  by unfold_locales simp

lemma reader_if: "reader f \<Longrightarrow> reader g \<Longrightarrow> reader (\<lambda>buf. if b then f buf else g buf)"
  by (cases b) simp_all

lemmas reader_intros = reader_bind reader_ret reader_fail reader_if

interpretation taken: reader "take_bytes n" for n
  by unfold_locales (auto simp: take_bytes_def split: if_splits)

interpretation u8: reader read_u8
  unfolding read_u8_def by (intro reader_intros taken.reader_axioms)

interpretation uint: reader "read_uint n" for n
  unfolding read_uint_def by (intro reader_intros taken.reader_axioms)

interpretation sint: reader "read_int n" for n
  unfolding read_int_def by (intro reader_intros uint.reader_axioms)

lemma read_string_append: "CHR 0x00 \<notin> set a \<Longrightarrow> read_string (a @ CHR 0x00 # b) = Inr (from_utf8_lossy a, b)"
  by (simp add: read_string_def split_once_append)

interpretation cstring: reader read_string
proof
  fix buf x left behind
  assume "read_string buf = Inr (x, left)"
  then obtain a where "buf = a @ CHR 0x00 # left" "CHR 0x00 \<notin> set a" "x = from_utf8_lossy a"
    by (auto simp: read_string_def split_once_Some_iff split: option.splits)
  then show "read_string (buf @ behind) = Inr (x, left @ behind)" by (simp add: read_string_append)
qed

interpretation val: reader read_value
  unfolding read_value_def
  by (intro reader_intros u8.reader_axioms sint.reader_axioms taken.reader_axioms)

interpretation tup: reader read_tuple
  unfolding read_tuple_def by (intro reader_intros uint.reader_axioms val.many_reader)

interpretation new: reader read_new
  unfolding read_new_def by (intro reader_intros u8.reader_axioms tup.reader_axioms)

interpretation col: reader read_column
  unfolding read_column_def
  by (intro reader_intros u8.reader_axioms cstring.reader_axioms uint.reader_axioms sint.reader_axioms)

interpretation rel: reader read_relation
proof -
  have "reader read_identity" unfolding read_identity_def by (intro reader_intros u8.reader_axioms)
  then show "reader read_relation"
    unfolding read_relation_def
    by (intro reader_intros uint.reader_axioms cstring.reader_axioms col.many_reader)
qed

lemma new_Nil: "read_new [] = Inl UnexpectedEnd"
  by (simp add: read_new_def read_u8_def take_bytes_def)

lemma reader_old_new: "reader (\<lambda>buf. bindr (read_old buf) (\<lambda>(old, buf). bindr (read_new buf) (\<lambda>(t, buf). Inr (MUpdate i old t, buf))))"
proof
  fix buf y left behind
  assume r: "bindr (read_old buf) (\<lambda>(old, buf). bindr (read_new buf) (\<lambda>(t, buf). Inr (MUpdate i old t, buf))) = Inr (y, left)"
  then obtain k rest where buf: "buf = k # rest" by (cases buf) (auto simp: read_old_def new_Nil)
  from r obtain old mid t where old: "read_old buf = Inr (old, mid)" and t: "read_new mid = Inr (t, left)" "y = MUpdate i old t"
    by (auto simp: bindr_Inr_iff)
  from old have "read_old (buf @ behind) = Inr (old, mid @ behind)"
    by (auto simp: buf read_old_def bindr_Inr_iff tup.stable split: if_splits)
  with new.stable [OF t(1)] t(2)
  show "bindr (read_old (buf @ behind)) (\<lambda>(old, buf). bindr (read_new buf) (\<lambda>(t, buf). Inr (MUpdate i old t, buf))) = Inr (y, left @ behind)"
    by simp
qed

interpretation body: reader "read_body tag" for tag
proof -
  have "reader read_insert" unfolding read_insert_def by (intro reader_intros uint.reader_axioms new.reader_axioms)
  moreover have "reader read_update" unfolding read_update_def by (intro reader_bind uint.reader_axioms reader_old_new)
  moreover have "reader read_delete" unfolding read_delete_def
    by (intro reader_intros uint.reader_axioms u8.reader_axioms tup.reader_axioms)
  moreover have "reader read_truncate" unfolding read_truncate_def
    by (intro reader_intros uint.reader_axioms u8.reader_axioms uint.many_reader)
  moreover have "reader read_begin" unfolding read_begin_def by (intro reader_intros uint.reader_axioms sint.reader_axioms)
  moreover have "reader read_commit" unfolding read_commit_def
    by (intro reader_intros uint.reader_axioms u8.reader_axioms sint.reader_axioms)
  moreover have "reader read_type" unfolding read_type_def by (intro reader_intros uint.reader_axioms cstring.reader_axioms)
  ultimately show "reader (read_body tag)" unfolding read_body_def by (intro reader_intros rel.reader_axioms)
qed

text \<open>No message is the start of another: bytes behind a message that parses are counted and
  refused, so a message cut short is never taken for a shorter one, and a longer one is never
  read as its beginning.\<close>

theorem pg_parse_exact:
  assumes "pg_parse msg = Inr m" "behind \<noteq> []"
  shows "pg_parse (msg @ behind) = Inl (TrailingBytes (length behind))"
proof -
  from assms(1) obtain tag body where msg: "msg = tag # body" "read_body tag body = Inr (m, [])"
    by (auto simp: pg_parse_def bindr_Inr_iff split: list.splits if_splits)
  from body.stable [OF this(2), of behind] assms(2) show ?thesis by (simp add: pg_parse_def msg(1))
qed

theorem pg_parse_exact_witness:
  "pg_parse (''T'' @ be_bytes 4 1 @ [CHR 0x00] @ be_bytes 4 7) = Inr (MTruncate (CHR 0x00) [7]) \<and>
   pg_parse ((''T'' @ be_bytes 4 1 @ [CHR 0x00] @ be_bytes 4 7) @ ''x'') = Inl (TrailingBytes 1)"
proof -
  have p: "pg_parse (''T'' @ be_bytes 4 1 @ [CHR 0x00] @ be_bytes 4 7) = Inr (MTruncate (CHR 0x00) [7])" by code_simp
  from pg_parse_exact [OF this, of "''x''"] p show ?thesis by simp
qed

subsection \<open>The documented format\<close>

definition encode_string :: "string \<Rightarrow> bytes" where
  "encode_string s = s @ [CHR 0x00]"

definition encode_int :: "nat \<Rightarrow> int \<Rightarrow> bytes" where
  "encode_int n i = be_bytes n (as_unsigned (8 * n) i)"

fun encode_value :: "tuple_value \<Rightarrow> bytes" where
  "encode_value TNull = ''n''"
| "encode_value UnchangedToast = ''u''"
| "encode_value (TText b) = ''t'' @ be_bytes 4 (length b) @ b"

definition encode_tuple :: "tuple \<Rightarrow> bytes" where
  "encode_tuple t = be_bytes 2 (length t) @ concat (map encode_value t)"

fun encode_old :: "old_tuple \<Rightarrow> bytes" where
  "encode_old (OldKey t) = ''K'' @ encode_tuple t"
| "encode_old (OldFull t) = ''O'' @ encode_tuple t"

definition encode_column :: "relation_column \<Rightarrow> bytes" where
  "encode_column c = [if rc_in_identity c then CHR 0x01 else CHR 0x00] @ encode_string (rc_name c) @
     be_bytes 4 (rc_type_oid c) @ encode_int 4 (rc_typmod c)"

fun identity_byte :: "replica_identity \<Rightarrow> char" where
  "identity_byte IdentityDefault = CHR ''d''"
| "identity_byte IdentityNone = CHR ''n''"
| "identity_byte IdentityFull = CHR ''f''"
| "identity_byte IdentityIndex = CHR ''i''"

definition encode_relation :: "relation \<Rightarrow> bytes" where
  "encode_relation r = be_bytes 4 (rl_rel_id r) @ encode_string (rl_schema r) @ encode_string (rl_name r) @
     [identity_byte (rl_identity r)] @ be_bytes 2 (length (rl_columns r)) @ concat (map encode_column (rl_columns r))"

fun encode_message :: "message \<Rightarrow> bytes" where
  "encode_message (MBegin b) = ''B'' @ be_bytes 8 (bg_final_lsn b) @ encode_int 8 (bg_commit_ts b) @ be_bytes 4 (bg_xid b)"
| "encode_message (MCommit c) = ''C'' @ [cm_flags c] @ be_bytes 8 (cm_commit_lsn c) @ be_bytes 8 (cm_end_lsn c) @ encode_int 8 (cm_commit_ts c)"
| "encode_message (MRelation r) = ''R'' @ encode_relation r"
| "encode_message (MType t) = ''Y'' @ be_bytes 4 (td_oid t) @ encode_string (td_schema t) @ encode_string (td_name t)"
| "encode_message (MInsert i t) = ''I'' @ be_bytes 4 i @ ''N'' @ encode_tuple t"
| "encode_message (MUpdate i old t) = ''U'' @ be_bytes 4 i @ (case old of None \<Rightarrow> [] | Some ot \<Rightarrow> encode_old ot) @ ''N'' @ encode_tuple t"
| "encode_message (MDelete i old) = ''D'' @ be_bytes 4 i @ encode_old old"
| "encode_message (MTruncate flags is) = ''T'' @ be_bytes 4 (length is) @ [flags] @ concat (map (be_bytes 4) is)"

text \<open>What a server can send: numbers within their width, names of well-formed text without a zero
  byte.\<close>

definition name_ok :: "string \<Rightarrow> bool" where
  "name_ok s \<longleftrightarrow> CHR 0x00 \<notin> set s \<and> from_utf8_lossy s = s"

definition signed_ok :: "nat \<Rightarrow> int \<Rightarrow> bool" where
  "signed_ok bits i \<longleftrightarrow> - (2 ^ (bits - 1)) \<le> i \<and> i < 2 ^ (bits - 1)"

fun value_ok :: "tuple_value \<Rightarrow> bool" where
  "value_ok (TText b) \<longleftrightarrow> length b < 2 ^ 31"
| "value_ok _ \<longleftrightarrow> True"

definition tuple_ok :: "tuple \<Rightarrow> bool" where
  "tuple_ok t \<longleftrightarrow> length t < 2 ^ 16 \<and> (\<forall>v \<in> set t. value_ok v)"

fun old_ok :: "old_tuple \<Rightarrow> bool" where
  "old_ok (OldKey t) \<longleftrightarrow> tuple_ok t"
| "old_ok (OldFull t) \<longleftrightarrow> tuple_ok t"

definition pg_column_ok :: "relation_column \<Rightarrow> bool" where
  "pg_column_ok c \<longleftrightarrow> name_ok (rc_name c) \<and> rc_type_oid c < 2 ^ 32 \<and> signed_ok 32 (rc_typmod c)"

definition relation_ok :: "relation \<Rightarrow> bool" where
  "relation_ok r \<longleftrightarrow> rl_rel_id r < 2 ^ 32 \<and> name_ok (rl_schema r) \<and> name_ok (rl_name r) \<and> length (rl_columns r) < 2 ^ 16 \<and>
     (\<forall>c \<in> set (rl_columns r). pg_column_ok c)"

fun message_ok :: "message \<Rightarrow> bool" where
  "message_ok (MBegin b) \<longleftrightarrow> bg_final_lsn b < 2 ^ 64 \<and> signed_ok 64 (bg_commit_ts b) \<and> bg_xid b < 2 ^ 32"
| "message_ok (MCommit c) \<longleftrightarrow> cm_commit_lsn c < 2 ^ 64 \<and> cm_end_lsn c < 2 ^ 64 \<and> signed_ok 64 (cm_commit_ts c)"
| "message_ok (MRelation r) \<longleftrightarrow> relation_ok r"
| "message_ok (MType t) \<longleftrightarrow> td_oid t < 2 ^ 32 \<and> name_ok (td_schema t) \<and> name_ok (td_name t)"
| "message_ok (MInsert i t) \<longleftrightarrow> i < 2 ^ 32 \<and> tuple_ok t"
| "message_ok (MUpdate i old t) \<longleftrightarrow> i < 2 ^ 32 \<and> (\<forall>ot. old = Some ot \<longrightarrow> old_ok ot) \<and> tuple_ok t"
| "message_ok (MDelete i old) \<longleftrightarrow> i < 2 ^ 32 \<and> old_ok old"
| "message_ok (MTruncate flags is) \<longleftrightarrow> length is < 2 ^ 32 \<and> (\<forall>i \<in> set is. i < 2 ^ 32)"

lemma read_u8_Cons [wire_simps]: "read_u8 (c # rest) = Inr (c, rest)"
  by (simp add: read_u8_def take_bytes_def)

lemma take_bytes_append [wire_simps]: "length a = n \<Longrightarrow> take_bytes n (a @ rest) = Inr (a, rest)"
  by (simp add: take_bytes_def)

lemma read_uint_bytes [wire_simps]: "v < 256 ^ n \<Longrightarrow> read_uint n (be_bytes n v @ rest) = Inr (v, rest)"
  by (simp add: read_uint_def take_bytes_append be_value_bytes)

lemma read_int_bytes [wire_simps]: "0 < n \<Longrightarrow> signed_ok (8 * n) i \<Longrightarrow> read_int n (encode_int n i @ rest) = Inr (i, rest)"
proof -
  assume n: "0 < n" "signed_ok (8 * n) i"
  have "as_unsigned (8 * n) i < 256 ^ n" using as_unsigned_less [of "8 * n" i] by (simp add: power_mult)
  with n show ?thesis by (simp add: read_int_def encode_int_def read_uint_bytes as_signed_unsigned signed_ok_def)
qed

lemma read_string_bytes [wire_simps]: "name_ok s \<Longrightarrow> read_string (encode_string s @ rest) = Inr (s, rest)"
  using read_string_append [of s rest] by (simp add: encode_string_def name_ok_def)

lemma read_many_bytes:
  assumes "\<And>x rest. x \<in> set xs \<Longrightarrow> rd (enc x @ rest) = Inr (x, rest)"
  shows "read_many rd (length xs) (concat (map enc xs) @ rest) = Inr (xs, rest)"
  using assms by (induction xs) simp_all

lemma read_value_bytes: "value_ok v \<Longrightarrow> read_value (encode_value v @ rest) = Inr (v, rest)"
proof (cases v)
  case (TText b)
  assume "value_ok v"
  with TText have l: "length b < 2 ^ 31" by simp
  then have "signed_ok (8 * 4) (int (length b))" "as_unsigned (8 * 4) (int (length b)) = length b"
    by (simp_all add: signed_ok_def as_unsigned_def)
  with read_int_bytes [of 4 "int (length b)" "b @ rest"] TText show ?thesis
    by (simp add: read_value_def read_u8_Cons encode_int_def take_bytes_append)
qed (simp_all add: read_value_def read_u8_Cons)

lemma read_tuple_bytes [wire_simps]: "tuple_ok t \<Longrightarrow> read_tuple (encode_tuple t @ rest) = Inr (t, rest)"
  using read_uint_bytes [of "length t" 2] read_many_bytes [of t read_value encode_value] read_value_bytes
  by (simp add: read_tuple_def encode_tuple_def tuple_ok_def)

lemma read_new_bytes [wire_simps]: "tuple_ok t \<Longrightarrow> read_new (CHR ''N'' # encode_tuple t) = Inr (t, [])"
  using read_tuple_bytes [of t "[]"] by (simp add: read_new_def read_u8_Cons)

lemma read_old_bytes [wire_simps]: "old_ok old \<Longrightarrow> read_old (encode_old old @ rest) = Inr (Some old, rest)"
  by (cases old) (simp_all add: read_old_def read_tuple_bytes)

lemma read_column_bytes: "pg_column_ok c \<Longrightarrow> read_column (encode_column c @ rest) = Inr (c, rest)"
  by (simp add: read_column_def encode_column_def pg_column_ok_def wire_simps)

lemma read_relation_bytes [wire_simps]: "relation_ok r \<Longrightarrow> read_relation (encode_relation r) = Inr (r, [])"
  using read_many_bytes [of "rl_columns r" read_column encode_column "[]"] read_column_bytes
  by (cases "rl_identity r")
     (simp_all add: read_relation_def encode_relation_def relation_ok_def wire_simps read_identity_def)

lemma pg_parse_truncate: "message_ok (MTruncate flags ids) \<Longrightarrow> pg_parse (encode_message (MTruncate flags ids)) = Inr (MTruncate flags ids)"
  using read_many_bytes [of ids "read_uint 4" "be_bytes 4" "[]"]
  by (simp add: pg_parse_def read_body_def read_truncate_def wire_simps)

lemma pg_parse_relation: "message_ok (MRelation r) \<Longrightarrow> pg_parse (encode_message (MRelation r)) = Inr (MRelation r)"
  by (simp add: pg_parse_def read_body_def wire_simps)

lemma pg_parse_insert: "message_ok (MInsert i t) \<Longrightarrow> pg_parse (encode_message (MInsert i t)) = Inr (MInsert i t)"
  by (simp add: pg_parse_def read_body_def read_insert_def wire_simps)

lemma pg_parse_update: "message_ok (MUpdate i old t) \<Longrightarrow> pg_parse (encode_message (MUpdate i old t)) = Inr (MUpdate i old t)"
  by (cases old) (simp_all add: pg_parse_def read_body_def read_update_def wire_simps read_old_def [of "CHR ''N'' # _"])

text \<open>C36. Every message a server can send is read as what it says: decoding the documented bytes of a
  message gives the message back, for every kind of message, with null, unchanged and empty
  values, key and full old tuples, and any number of columns and relations.\<close>

theorem pg_parse_encode:
  assumes "message_ok m"
  shows "pg_parse (encode_message m) = Inr m"
proof (cases m)
  case (MDelete i old)
  with assms read_tuple_bytes [of _ "[]"] show ?thesis
    by (cases old) (simp_all add: pg_parse_def read_body_def read_delete_def wire_simps)
next
  case (MType t)
  with assms read_string_bytes [of _ "[]"] show ?thesis by (simp add: pg_parse_def read_body_def read_type_def wire_simps)
next
  case (MBegin b)
  with assms read_uint_bytes [of _ 4 "[]"] show ?thesis by (simp add: pg_parse_def read_body_def read_begin_def wire_simps)
next
  case (MCommit c)
  with assms read_int_bytes [of 8 _ "[]"] show ?thesis by (simp add: pg_parse_def read_body_def read_commit_def wire_simps)
qed (use assms pg_parse_truncate pg_parse_relation pg_parse_insert pg_parse_update in simp_all)

theorem pg_parse_encode_witness:
  "pg_parse (encode_message (MUpdate 7 (Some (OldKey [TText ''1'', TNull])) [TText ''2'', UnchangedToast])) =
   Inr (MUpdate 7 (Some (OldKey [TText ''1'', TNull])) [TText ''2'', UnchangedToast])"
  by (rule pg_parse_encode) (simp add: tuple_ok_def)

subsection \<open>Drift is a change of the columns\<close>

definition typed_columns :: "relation \<Rightarrow> (string \<times> nat) set" where
  "typed_columns r = (\<lambda>c. (rc_name c, rc_type_oid c)) ` set (rl_columns r)"

lemma find_named:
  "distinct (column_names_of r) \<Longrightarrow> List.find (\<lambda>a. rc_name a = n) (rl_columns r) = Some c \<longleftrightarrow> c \<in> set (rl_columns r) \<and> rc_name c = n"
proof -
  have "distinct (map rc_name cs) \<Longrightarrow> List.find (\<lambda>a. rc_name a = n) cs = Some c \<longleftrightarrow> c \<in> set cs \<and> rc_name c = n" for cs
    by (induction cs) auto
  then show "distinct (column_names_of r) \<Longrightarrow> ?thesis" by (simp add: column_names_of_def)
qed

lemma map_filter_Nil: "List.map_filter f xs = [] \<longleftrightarrow> (\<forall>x \<in> set xs. f x = None)"
  by (auto simp: List.map_filter_def filter_empty_conv)

lemma column_drift_None_iff:
  "column_drift before after = None \<longleftrightarrow>
   set (column_names_of after) \<subseteq> set (column_names_of before) \<and> set (column_names_of before) \<subseteq> set (column_names_of after) \<and>
   (\<forall>c \<in> set (rl_columns before). retyped after c = None)"
  by (auto simp: column_drift_def Let_def filter_empty_conv map_filter_Nil)

text \<open>A new description of a table is reported as drift exactly when the columns or their types
  are not the same as before, whatever their order.\<close>

theorem column_drift_exact:
  assumes "distinct (column_names_of before)" "distinct (column_names_of after)"
  shows "column_drift before after = None \<longleftrightarrow> typed_columns before = typed_columns after"
proof -
  have same: "retyped after c = None \<longleftrightarrow> (\<forall>a \<in> set (rl_columns after). rc_name a = rc_name c \<longrightarrow> rc_type_oid a = rc_type_oid c)" for c
  proof (cases "List.find (\<lambda>a. rc_name a = rc_name c) (rl_columns after)")
    case None
    then have "\<forall>a \<in> set (rl_columns after). rc_name a \<noteq> rc_name c" by (auto simp: find_None_iff)
    then show ?thesis by (simp add: retyped_def None)
  next
    case (Some a)
    have "x \<in> set (rl_columns after) \<and> rc_name x = rc_name c \<longleftrightarrow> x = a" for x
      using find_named [OF assms(2), of "rc_name c" x] Some by auto
    then have "(\<forall>x \<in> set (rl_columns after). rc_name x = rc_name c \<longrightarrow> rc_type_oid x = rc_type_oid c) \<longleftrightarrow> rc_type_oid a = rc_type_oid c"
      by metis
    then show ?thesis by (simp add: retyped_def Some)
  qed
  have names: "set (column_names_of r) = fst ` typed_columns r" for r by (force simp: column_names_of_def typed_columns_def)
  have one: "(n, t) \<in> typed_columns r \<Longrightarrow> (n, t') \<in> typed_columns r \<Longrightarrow> t = t'" if "distinct (column_names_of r)" for r n t t'
  proof -
    assume "(n, t) \<in> typed_columns r" "(n, t') \<in> typed_columns r"
    then obtain c c' where c: "c \<in> set (rl_columns r)" "rc_name c = n" "t = rc_type_oid c"
      and c': "c' \<in> set (rl_columns r)" "rc_name c' = n" "t' = rc_type_oid c'" by (auto simp: typed_columns_def)
    with find_named [OF that, of n c] find_named [OF that, of n c'] show "t = t'" by simp
  qed
  have kept: "(\<forall>c \<in> set (rl_columns before). retyped after c = None) \<longleftrightarrow>
      (\<forall>n t t'. (n, t) \<in> typed_columns before \<longrightarrow> (n, t') \<in> typed_columns after \<longrightarrow> t = t')"
    unfolding same by (auto simp: typed_columns_def) (metis (mono_tags, lifting) image_eqI)
  show ?thesis
  proof
    assume "column_drift before after = None"
    then have n: "fst ` typed_columns before = fst ` typed_columns after"
      and k: "\<And>n t t'. (n, t) \<in> typed_columns before \<Longrightarrow> (n, t') \<in> typed_columns after \<Longrightarrow> t = t'"
      unfolding column_drift_None_iff names kept by blast+
    show "typed_columns before = typed_columns after"
    proof (intro set_eqI iffI; clarify)
      fix n t assume b: "(n, t) \<in> typed_columns before"
      with n obtain t' where "(n, t') \<in> typed_columns after" by force
      with k [OF b] show "(n, t) \<in> typed_columns after" by blast
    next
      fix n t assume a: "(n, t) \<in> typed_columns after"
      with n obtain t' where "(n, t') \<in> typed_columns before" by force
      with k [OF _ a] show "(n, t) \<in> typed_columns before" by blast
    qed
  next
    assume "typed_columns before = typed_columns after"
    then show "column_drift before after = None"
      unfolding column_drift_None_iff names kept using one [OF assms(2)] by auto
  qed
qed

theorem column_drift_exact_witness:
  "\<exists>before after. distinct (column_names_of before) \<and> distinct (column_names_of after) \<and> column_drift before after \<noteq> None"
proof -
  let ?c = "\<lambda>t. \<lparr>rc_name = ''id'', rc_type_oid = t, rc_typmod = 0, rc_in_identity = True\<rparr>"
  let ?r = "\<lambda>t. \<lparr>rl_rel_id = 1, rl_schema = ''public'', rl_name = ''t'', rl_identity = IdentityDefault, rl_columns = [?c t]\<rparr>"
  have d: "distinct (column_names_of (?r t))" for t by (simp add: column_names_of_def)
  have "typed_columns (?r 23) \<noteq> typed_columns (?r 20)" by (simp add: typed_columns_def)
  with column_drift_exact [OF d d, of 23 20] d show ?thesis by blast
qed

end
