(* ===== verification/Pg_Types.thy ===== *)
theory Pg_Types
  imports Rust_Bytes Json_Value
begin

section \<open>PostgreSQL text values as JSON (\<open>crates/source/src/typemap.rs\<close>)\<close>

text \<open>
  Every column value arrives in its type's text form. The JSON parser is a parameter
  (\<open>value_from_str\<close>), as is the base64 alphabet. The array literal is read byte by byte; the
  characters that matter are ASCII, so that is reading it character by character.
\<close>

datatype type_error = BadNumber nat string | BadArray string | BadBytea

definition element_type :: "nat \<Rightarrow> nat option" where
  "element_type array_oid =
     (if array_oid = 1000 then Some 16 else if array_oid = 1005 then Some 21 else if array_oid = 1007 then Some 23
      else if array_oid = 1016 then Some 20 else if array_oid = 1021 then Some 700 else if array_oid = 1022 then Some 701
      else if array_oid = 199 then Some 114 else if array_oid = 3807 then Some 3802
      else if array_oid = 1009 \<or> array_oid = 1015 \<or> array_oid = 1014 then Some 0 else None)"

definition make_element :: "string \<Rightarrow> bool \<Rightarrow> string option" where
  "make_element cur quoted = (if \<not> quoted \<and> cur = ''NULL'' then None else Some cur)"

fun scan_array :: "string \<Rightarrow> bool \<Rightarrow> bool \<Rightarrow> string option list \<Rightarrow> string \<Rightarrow> string option list option" where
  "scan_array cur in_quotes quoted out [] = None"
| "scan_array cur in_quotes quoted out (c # cs) =
     (if c = CHR 0x22 then
        (if \<not> in_quotes then scan_array cur True True out cs
         else case cs of
           c' # cs' \<Rightarrow> if c' = CHR 0x22 then scan_array (cur @ [CHR 0x22]) in_quotes quoted out cs' else scan_array cur False quoted out cs
         | [] \<Rightarrow> scan_array cur False quoted out cs)
      else if c = CHR 0x5C \<and> in_quotes then
        (case cs of c' # cs' \<Rightarrow> scan_array (cur @ [c']) in_quotes quoted out cs' | [] \<Rightarrow> scan_array cur in_quotes quoted out cs)
      else if c = CHR '','' \<and> \<not> in_quotes then scan_array [] False False (out @ [make_element cur quoted]) cs
      else if c = CHR ''}'' \<and> \<not> in_quotes then Some (out @ [make_element cur quoted])
      else scan_array (cur @ [c]) in_quotes quoted out cs)"

definition parse_array_literal :: "string \<Rightarrow> (type_error, string option list) result" where
  "parse_array_literal lit =
     (case lit of
        c # cs \<Rightarrow>
          if c \<noteq> CHR ''{'' then Inl (BadArray lit)
          else if starts_with cs ''}'' then Inr []
          else ok_or (BadArray lit) (scan_array [] False False [] cs)
      | [] \<Rightarrow> Inl (BadArray lit))"

fun hex_digits :: "string \<Rightarrow> bytes option" where
  "hex_digits [] = Some []"
| "hex_digits [c] = None"
| "hex_digits (a # b # rest) =
     Option.bind (to_digit 16 a) (\<lambda>hi. Option.bind (to_digit 16 b) (\<lambda>lo.
       map_option (\<lambda>bs. char_of (hi * 16 + lo) # bs) (hex_digits rest)))"

definition decode_bytea :: "(bytes \<Rightarrow> string) \<Rightarrow> string \<Rightarrow> (type_error, json) result" where
  "decode_bytea base64 s =
     (case strip_prefix [CHR 0x5C, CHR ''x''] s of
        None \<Rightarrow> Inl BadBytea
      | Some hex \<Rightarrow> bindr (ok_or BadBytea (hex_digits hex)) (\<lambda>out. Inr (JString (base64 out))))"

definition convert_scalar :: "externs \<Rightarrow> (bytes \<Rightarrow> string) \<Rightarrow> nat \<Rightarrow> string \<Rightarrow> (type_error, json) result" where
  "convert_scalar ext base64 oid s =
     (if oid = 16 then
        (if s = ''t'' \<or> s = ''true'' then Inr (JBool True) else if s = ''f'' \<or> s = ''false'' then Inr (JBool False)
         else Inl (BadNumber 16 s))
      else if oid = 21 \<or> oid = 23 \<or> oid = 20 \<or> oid = 26 then
        ok_or (BadNumber oid s) (map_option (\<lambda>n. JNumber (NInt n)) (parse_i64 s))
      else if oid = 700 \<or> oid = 701 then
        ok_or (BadNumber oid s)
          (Option.bind (parse_f64 s) (\<lambda>f. if f64_is_finite f then Some (JNumber (NFloat f)) else None))
      else if oid = 114 \<or> oid = 3802 then ok_or (BadArray s) (value_from_str ext s)
      else if oid = 17 then decode_bytea base64 s
      else Inr (JString s))"

definition convert_element :: "externs \<Rightarrow> (bytes \<Rightarrow> string) \<Rightarrow> nat \<Rightarrow> string option \<Rightarrow> (type_error, json) result" where
  "convert_element ext base64 elem e = (case e of
       None \<Rightarrow> Inr JNull
     | Some s \<Rightarrow> if elem = 0 then Inr (JString s) else convert_scalar ext base64 elem (if utf8_valid s then s else []))"

definition convert :: "externs \<Rightarrow> (bytes \<Rightarrow> string) \<Rightarrow> nat \<Rightarrow> bytes option \<Rightarrow> (type_error, json) result" where
  "convert ext base64 oid raw =
     (case raw of
        None \<Rightarrow> Inr JNull
      | Some bs \<Rightarrow>
          (let s = (if utf8_valid bs then bs else [])
           in case element_type oid of
                Some elem \<Rightarrow> bindr (parse_array_literal s) (\<lambda>es. bindr (mapr (convert_element ext base64 elem) es) (\<lambda>vs. Inr (JArray vs)))
              | None \<Rightarrow> convert_scalar ext base64 oid s))"

subsection \<open>Arrays read back\<close>

text \<open>What the server prints: elements between braces, in quotes where they are empty, read as null,
  or hold a brace, comma, quote, backslash or space; inside quotes, quotes and backslashes have a
  backslash in front.\<close>

definition needs_quotes :: "string \<Rightarrow> bool" where
  "needs_quotes s \<longleftrightarrow> s = [] \<or> eq_ignore_ascii_case s ''NULL'' \<or>
     (\<exists>c \<in> set s. c = CHR ''{'' \<or> c = CHR ''}'' \<or> c = CHR '','' \<or> c = CHR 0x22 \<or> c = CHR 0x5C \<or> 9 \<le> asc c \<and> asc c \<le> 13 \<or> asc c = 32)"

definition escape :: "string \<Rightarrow> string" where
  "escape s = concat (map (\<lambda>c. if c = CHR 0x22 \<or> c = CHR 0x5C then [CHR 0x5C, c] else [c]) s)"

fun element_out :: "string option \<Rightarrow> string" where
  "element_out None = ''NULL''"
| "element_out (Some s) = (if needs_quotes s then [CHR 0x22] @ escape s @ [CHR 0x22] else s)"

definition array_out :: "string option list \<Rightarrow> string" where
  "array_out es = ''{'' @ join '','' (map element_out es) @ ''}''"

definition closes :: "char \<Rightarrow> bool" where
  "closes c \<longleftrightarrow> c = CHR '','' \<or> c = CHR ''}''"

lemma scan_steps:
  "scan_array cur False quoted out (CHR 0x22 # cs) = scan_array cur True True out cs"
  "c \<noteq> CHR 0x22 \<Longrightarrow> scan_array cur True quoted out (CHR 0x22 # c # cs) = scan_array cur False quoted out (c # cs)"
  "scan_array cur True quoted out (CHR 0x5C # c # cs) = scan_array (cur @ [c]) True quoted out cs"
  "c \<noteq> CHR 0x22 \<Longrightarrow> c \<noteq> CHR 0x5C \<Longrightarrow> scan_array cur True quoted out (c # cs) = scan_array (cur @ [c]) True quoted out cs"
  "c \<noteq> CHR 0x22 \<Longrightarrow> c \<noteq> CHR '','' \<Longrightarrow> c \<noteq> CHR ''}'' \<Longrightarrow> scan_array cur False quoted out (c # cs) = scan_array (cur @ [c]) False quoted out cs"
  "scan_array cur False quoted out (CHR '','' # cs) = scan_array [] False False (out @ [make_element cur quoted]) cs"
  "scan_array cur False quoted out (CHR ''}'' # cs) = Some (out @ [make_element cur quoted])"
  by simp_all

declare scan_array.simps [simp del]

lemma escape_Cons: "escape (c # s) = (if c = CHR 0x22 \<or> c = CHR 0x5C then [CHR 0x5C, c] else [c]) @ escape s"
  by (simp add: escape_def)

lemma scan_escaped:
  assumes "c \<noteq> CHR 0x22"
  shows "scan_array cur True True out (escape s @ CHR 0x22 # c # cs) = scan_array (cur @ s) False True out (c # cs)"
proof (induction s arbitrary: cur)
  case Nil
  show ?case by (simp add: escape_def scan_steps(2) [OF assms])
next
  case (Cons a s)
  from Cons [of "cur @ [a]"] show ?case by (simp add: escape_Cons scan_steps)
qed

lemma scan_plain:
  "\<forall>c \<in> set s. c \<noteq> CHR 0x22 \<and> c \<noteq> CHR '','' \<and> c \<noteq> CHR ''}'' \<Longrightarrow>
   scan_array cur False quoted out (s @ cs) = scan_array (cur @ s) False quoted out cs"
  by (induction s arbitrary: cur) (simp_all add: scan_steps)

lemma not_quoted:
  assumes "\<not> needs_quotes s"
  shows "\<forall>c \<in> set s. c \<noteq> CHR 0x22 \<and> c \<noteq> CHR '','' \<and> c \<noteq> CHR ''}''" "s \<noteq> ''NULL''" "s \<noteq> []"
  using assms eq_ignore_ascii_case_refl [of "''NULL''"] unfolding needs_quotes_def by blast+

lemma scan_element:
  assumes "closes c"
  shows "scan_array [] False False out (element_out e @ c # cs) =
    (if c = CHR '','' then scan_array [] False False (out @ [e]) cs else Some (out @ [e]))"
proof (cases e)
  case None
  have "scan_array [] False False out (''NULL'' @ c # cs) = scan_array ''NULL'' False False out (c # cs)"
    using scan_plain [of "''NULL''" "[]" False out "c # cs"] by simp
  with None assms show ?thesis by (auto simp: closes_def make_element_def scan_steps)
next
  case (Some s)
  show ?thesis
  proof (cases "needs_quotes s")
    case True
    from assms have "c \<noteq> CHR 0x22" by (auto simp: closes_def)
    from scan_escaped [OF this, of "[]" out s cs] True Some assms show ?thesis by (auto simp: closes_def make_element_def scan_steps)
  next
    case False
    from scan_plain [OF not_quoted(1) [OF False], of "[]" False out "c # cs"] not_quoted(2) [OF False] False Some assms show ?thesis by (auto simp: closes_def make_element_def scan_steps)
  qed
qed

lemma scan_elements:
  "es \<noteq> [] \<Longrightarrow> scan_array [] False False out (join '','' (map element_out es) @ ''}'') = Some (out @ es)"
proof (induction es arbitrary: out)
  case (Cons e es)
  show ?case
  proof (cases es)
    case Nil
    with scan_element [of "CHR ''}''" out e "[]"] show ?thesis by (simp add: closes_def)
  next
    case (Cons e' es')
    with Cons.IH [of "out @ [e]"] scan_element [of "CHR '',''" out e "join '','' (map element_out es) @ ''}''"] show ?thesis
      by (simp add: closes_def)
  qed
qed simp

lemma element_out_head: "\<exists>c cs. element_out e = c # cs \<and> c \<noteq> CHR ''}''"
proof (cases e)
  case (Some s)
  show ?thesis
  proof (cases "needs_quotes s")
    case False
    from not_quoted(1,3) [OF this] have "\<exists>c cs. s = c # cs \<and> c \<noteq> CHR ''}''" by (cases s) simp_all
    with False Some show ?thesis by simp
  qed (simp add: Some)
qed simp

text \<open>An array column reaches the documents with the elements it has: reading the literal the
  server prints gives back every element, in order, with nulls told from the text NULL and from
  empty strings, whatever commas, braces, quotes, backslashes or spaces the elements hold.\<close>

theorem array_literal_roundtrip: "parse_array_literal (array_out es) = Inr es"
proof (cases es)
  case (Cons e es')
  let ?body = "join '','' (map element_out es) @ ''}''"
  obtain c cs where e: "element_out e = c # cs" "c \<noteq> CHR ''}''" using element_out_head by blast
  have "join '','' (map element_out es) = c # cs @ (if es' = [] then [] else '','' @ join '','' (map element_out es'))"
    by (cases es') (simp_all add: Cons e)
  then have "\<not> starts_with ?body ''}''" using e(2) by (simp add: starts_with_iff)
  with scan_elements [of es "[]"] Cons show ?thesis by (simp add: parse_array_literal_def array_out_def)
qed (simp add: parse_array_literal_def array_out_def starts_with_iff)

text \<open>A literal of two dimensions is cut at the first inner brace: the elements behind it are lost
  and the first keeps the brace, with no error.\<close>

lemma nested_array_cut: "parse_array_literal ''{{a,b},{c,d}}'' = Inr [Some ''{a'', Some ''b'']"
  by code_simp

text \<open>A float column that holds a value JSON has no number for is an error, which ends the stream.\<close>

lemma float_special_refused:
  "convert ext base64 701 (Some ''NaN'') = Inl (BadNumber 701 ''NaN'')"
  "convert ext base64 701 (Some ''Infinity'') = Inl (BadNumber 701 ''Infinity'')"
proof -
  have p: "Option.bind (parse_f64 ''NaN'') (\<lambda>f. if f64_is_finite f then Some (JNumber (NFloat f)) else None) = None"
    "Option.bind (parse_f64 ''Infinity'') (\<lambda>f. if f64_is_finite f then Some (JNumber (NFloat f)) else None) = None"
    by code_simp+
  have "utf8_valid ''NaN''" "utf8_valid ''Infinity''" by (simp_all add: utf8_valid_ascii)
  with p show "convert ext base64 701 (Some ''NaN'') = Inl (BadNumber 701 ''NaN'')"
    "convert ext base64 701 (Some ''Infinity'') = Inl (BadNumber 701 ''Infinity'')"
    by (simp_all add: convert_def convert_scalar_def element_type_def)
qed

end
