(* ===== verification/Pg_Rows.thy ===== *)
theory Pg_Rows
  imports Pg_Output Pg_Types Sink_Types
begin

section \<open>From tuples to row changes (\<open>crates/source/src/docbuild.rs\<close>)\<close>

text \<open>
  A decoded tuple becomes a document, its key and the list of columns whose value the wire left
  out. \<open>convert\<close>, with the JSON parser and the base64 alphabet, is given as one argument.
\<close>

datatype build_error =
    NoReplicaIdentity string string
  | ColumnConvert string string string type_error
  | AppendOnlyTable string string string

type_synonym converter = "nat \<Rightarrow> bytes option \<Rightarrow> (type_error, json) result"

definition convert_column :: "converter \<Rightarrow> relation \<Rightarrow> string \<Rightarrow> nat \<Rightarrow> bytes option \<Rightarrow> (build_error, json) result" where
  "convert_column conv rel col_name oid raw = map_err (ColumnConvert col_name (rl_schema rel) (rl_name rel)) (conv oid raw)"

definition tuple_get :: "tuple \<Rightarrow> nat \<Rightarrow> tuple_value option" where
  "tuple_get t idx = (if idx < length t then Some (t ! idx) else None)"

definition is_key :: "relation \<Rightarrow> string list option \<Rightarrow> relation_column \<Rightarrow> bool" where
  "is_key rel key_columns col =
     (case key_columns of
        Some keys \<Rightarrow> if rl_identity rel = IdentityFull \<and> keys \<noteq> [] then rc_name col \<in> set keys else rc_in_identity col
      | None \<Rightarrow> rc_in_identity col)"

text \<open>The key columns with their values, in the order of the relation; a column the tuple does not
  carry is null.\<close>

fun key_values :: "converter \<Rightarrow> relation \<Rightarrow> string list option \<Rightarrow> tuple \<Rightarrow> nat \<Rightarrow> relation_column list
    \<Rightarrow> (build_error, (string \<times> json) list) result" where
  "key_values conv rel keys t idx [] = Inr []"
| "key_values conv rel keys t idx (col # cols) =
     (if \<not> is_key rel keys col then key_values conv rel keys t (Suc idx) cols
      else bindr (case tuple_get t idx of
                    Some (TText b) \<Rightarrow> convert_column conv rel (rc_name col) (rc_type_oid col) (Some b)
                  | _ \<Rightarrow> Inr JNull) (\<lambda>v.
             bindr (key_values conv rel keys t (Suc idx) cols) (\<lambda>vs. Inr ((rc_name col, v) # vs))))"

definition extract_pk :: "converter \<Rightarrow> relation \<Rightarrow> tuple \<Rightarrow> string list option \<Rightarrow> (build_error, json) result" where
  "extract_pk conv rel t keys =
     bindr (key_values conv rel keys t 0 (rl_columns rel)) (\<lambda>vs.
       let obj = bt_extend [] vs
       in if obj = [] then Inl (NoReplicaIdentity (rl_schema rel) (rl_name rel))
          else Inr (if length obj = 1 then snd (hd vs) else JObject obj))"

definition tuple_slices :: "tuple \<Rightarrow> bytes option list" where
  "tuple_slices t = map (\<lambda>v. case v of TText b \<Rightarrow> Some b | _ \<Rightarrow> None) t"

definition old_value :: "bytes option list option \<Rightarrow> nat \<Rightarrow> bytes option" where
  "old_value old idx = Option.bind old (\<lambda>slices. if idx < length slices then slices ! idx else None)"

fun doc_values :: "converter \<Rightarrow> relation \<Rightarrow> bytes option list option \<Rightarrow> tuple \<Rightarrow> nat \<Rightarrow> relation_column list
    \<Rightarrow> (build_error, (string \<times> json) list \<times> string list) result" where
  "doc_values conv rel old t idx [] = Inr ([], [])"
| "doc_values conv rel old t idx (col # cols) =
     bindr (case tuple_get t idx of
              Some TNull \<Rightarrow> Inr ([(rc_name col, JNull)], [])
            | Some UnchangedToast \<Rightarrow>
                (case old_value old idx of
                   Some b \<Rightarrow> bindr (convert_column conv rel (rc_name col) (rc_type_oid col) (Some b)) (\<lambda>v. Inr ([(rc_name col, v)], []))
                 | None \<Rightarrow> Inr ([(rc_name col, JNull)], [rc_name col]))
            | Some (TText b) \<Rightarrow>
                bindr (convert_column conv rel (rc_name col) (rc_type_oid col) (Some b)) (\<lambda>v. Inr ([(rc_name col, v)], []))
            | None \<Rightarrow> Inr ([], [])) (\<lambda>(kv, missing).
       bindr (doc_values conv rel old t (Suc idx) cols) (\<lambda>(kvs, toast). Inr (kv @ kvs, missing @ toast)))"

definition build_doc :: "converter \<Rightarrow> relation \<Rightarrow> tuple \<Rightarrow> bytes option list option \<Rightarrow> (build_error, json \<times> string list) result" where
  "build_doc conv rel t old =
     bindr (doc_values conv rel old t 0 (rl_columns rel)) (\<lambda>(kvs, toast). Inr (JObject (bt_extend [] kvs), toast))"

datatype incoming = InInsert tuple | InUpdate "tuple option" tuple | InDelete tuple

fun incoming_tuple :: "incoming \<Rightarrow> tuple" where
  "incoming_tuple (InInsert t) = t"
| "incoming_tuple (InUpdate _ t) = t"
| "incoming_tuple (InDelete t) = t"

fun incoming_tuples :: "incoming \<Rightarrow> tuple list" where
  "incoming_tuples (InInsert t) = [t]"
| "incoming_tuples (InDelete t) = [t]"
| "incoming_tuples (InUpdate None t) = [t]"
| "incoming_tuples (InUpdate (Some old) t) = [t, old]"

definition check_delete_capability :: "relation \<Rightarrow> (build_error, unit) result" where
  "check_delete_capability rel =
     (if rl_identity rel = IdentityNone then Inl (NoReplicaIdentity (rl_schema rel) (rl_name rel)) else Inr ())"

definition before_image :: "converter \<Rightarrow> relation \<Rightarrow> tuple option \<Rightarrow> (build_error, json option) result" where
  "before_image conv rel old =
     (case old of
        Some prev \<Rightarrow>
          if rl_identity rel = IdentityFull then bindr (build_doc conv rel prev None) (\<lambda>(doc, _). Inr (Some doc)) else Inr None
      | None \<Rightarrow> Inr None)"

definition insert_kind :: "converter \<Rightarrow> relation \<Rightarrow> string list option \<Rightarrow> bool \<Rightarrow> tuple \<Rightarrow> (build_error, row_kind) result" where
  "insert_kind conv rel keys append_only new =
     bindr (if append_only then Inr JNull else extract_pk conv rel new keys) (\<lambda>pk.
     bindr (build_doc conv rel new None) (\<lambda>(doc, _). Inr (Insert pk doc)))"

definition update_kind :: "converter \<Rightarrow> relation \<Rightarrow> string list option \<Rightarrow> tuple option \<Rightarrow> tuple \<Rightarrow> (build_error, row_kind) result" where
  "update_kind conv rel keys old new =
     bindr (extract_pk conv rel new keys) (\<lambda>pk.
       let previous_pk = Option.bind old (\<lambda>prev. ok (extract_pk conv rel prev keys))
       in bindr (build_doc conv rel new (map_option tuple_slices old)) (\<lambda>(doc, toast).
          bindr (before_image conv rel old) (\<lambda>before. Inr (Update pk previous_pk doc toast before))))"

definition delete_kind :: "converter \<Rightarrow> relation \<Rightarrow> string list option \<Rightarrow> tuple \<Rightarrow> (build_error, row_kind) result" where
  "delete_kind conv rel keys key =
     bindr (extract_pk conv rel key keys) (\<lambda>pk.
     bindr (before_image conv rel (Some key)) (\<lambda>before. Inr (Delete pk before)))"

definition build_row_change ::
  "converter \<Rightarrow> relation \<Rightarrow> incoming \<Rightarrow> string list option \<Rightarrow> bool \<Rightarrow> (build_error, row_change) result" where
  "build_row_change conv rel inc keys append_only =
     (let change = (\<lambda>kind. \<lparr>rc_schema = rl_schema rel, rc_table = rl_name rel, rc_kind = kind, rc_version = None\<rparr>)
      in map_sum id change
           (case inc of
              InInsert new \<Rightarrow> insert_kind conv rel keys append_only new
            | InUpdate old new \<Rightarrow>
                if append_only then Inl (AppendOnlyTable (rl_schema rel) (rl_name rel) ''an UPDATE'')
                else bindr (check_delete_capability rel) (\<lambda>_. update_kind conv rel keys old new)
            | InDelete key \<Rightarrow>
                if append_only then Inl (AppendOnlyTable (rl_schema rel) (rl_name rel) ''a DELETE'')
                else bindr (check_delete_capability rel) (\<lambda>_. delete_kind conv rel keys key)))"

definition column_index :: "relation \<Rightarrow> string \<Rightarrow> nat option" where
  "column_index rel name =
     (let i = length (takeWhile (\<lambda>c. rc_name c \<noteq> name) (rl_columns rel)) in if i < length (rl_columns rel) then Some i else None)"

text \<open>Indexing past the columns panics, which is \<open>None\<close>.\<close>

definition convert_column_at :: "converter \<Rightarrow> relation \<Rightarrow> nat \<Rightarrow> tuple \<Rightarrow> (build_error, json) result option" where
  "convert_column_at conv rel idx t =
     (if idx < length (rl_columns rel) then
        let col = rl_columns rel ! idx
        in Some (convert_column conv rel (rc_name col) (rc_type_oid col)
             (case tuple_get t idx of Some (TText b) \<Rightarrow> Some b | _ \<Rightarrow> None))
      else None)"

subsection \<open>Facts\<close>

text \<open>The row an update writes, with the unchanged columns taken from the old tuple.\<close>

definition fill_cell :: "bytes option list option \<Rightarrow> nat \<Rightarrow> tuple_value \<Rightarrow> tuple_value" where
  "fill_cell old idx v =
     (case (v, old_value old idx) of (UnchangedToast, Some b) \<Rightarrow> TText b | _ \<Rightarrow> v)"

definition fill_row :: "tuple \<Rightarrow> tuple \<Rightarrow> tuple" where
  "fill_row old t = map (\<lambda>i. fill_cell (Some (tuple_slices old)) i (t ! i)) [0..<length t]"

definition whole_row :: "tuple \<Rightarrow> bool" where
  "whole_row t \<longleftrightarrow> UnchangedToast \<notin> set t"

definition key_arrives :: "relation \<Rightarrow> string list option \<Rightarrow> tuple \<Rightarrow> bool" where
  "key_arrives rel keys t \<longleftrightarrow>
     list_all (\<lambda>(col, v). is_key rel keys col \<longrightarrow> v \<noteq> UnchangedToast) (zip (rl_columns rel) t)"

lemma tuple_get_fill: "tuple_get (fill_row old t) i = map_option (fill_cell (Some (tuple_slices old)) i) (tuple_get t i)"
  by (simp add: tuple_get_def fill_row_def)

lemma whole_row_get: "whole_row t \<Longrightarrow> tuple_get t i \<noteq> Some UnchangedToast"
  by (auto simp: whole_row_def tuple_get_def in_set_conv_nth)

lemma old_value_None [simp]: "old_value None i = None"
  by (simp add: old_value_def)

lemma key_arrives_get:
  assumes "key_arrives rel keys t" "i < length (rl_columns rel)" "is_key rel keys (rl_columns rel ! i)"
  shows "tuple_get t i \<noteq> Some UnchangedToast"
proof
  assume get: "tuple_get t i = Some UnchangedToast"
  then have i: "i < length t" "t ! i = UnchangedToast" by (auto simp: tuple_get_def split: if_splits)
  then have "(rl_columns rel ! i, t ! i) \<in> set (zip (rl_columns rel) t)"
    using assms(2) by (auto simp: set_zip)
  then show False using assms(1,3) i(2) by (auto simp: key_arrives_def list_all_iff)
qed

lemma doc_values_fill:
  "whole_row (fill_row old t) \<Longrightarrow>
   doc_values conv rel (Some (tuple_slices old)) t i cols = doc_values conv rel None (fill_row old t) i cols"
proof (induction cols arbitrary: i)
  case (Cons col cols)
  show ?case
  proof (cases "tuple_get t i")
    case (Some v)
    have "fill_cell (Some (tuple_slices old)) i v \<noteq> UnchangedToast"
      using whole_row_get[OF Cons.prems, of i] Some by (simp add: tuple_get_fill)
    then show ?thesis
      using Some Cons by (cases v) (auto simp: tuple_get_fill fill_cell_def split: option.splits)
  qed (use Cons in \<open>simp add: tuple_get_fill\<close>)
qed simp

lemma doc_values_no_toast: "whole_row t \<Longrightarrow> doc_values conv rel None t i cols = Inr (kvs, toast) \<Longrightarrow> toast = []"
proof (induction cols arbitrary: i kvs toast)
  case (Cons col cols)
  then show ?case
    using whole_row_get[OF Cons.prems(1), of i]
    by (fastforce simp: bindr_Inr_iff split: option.splits tuple_value.splits)
qed simp

lemma key_values_fill:
  assumes "key_arrives rel keys t"
  shows "n + length cols = length (rl_columns rel) \<Longrightarrow> drop n (rl_columns rel) = cols \<Longrightarrow>
    key_values conv rel keys (fill_row old t) n cols = key_values conv rel keys t n cols"
proof (induction cols arbitrary: n)
  case (Cons col cols)
  have n: "n < length (rl_columns rel)" "rl_columns rel ! n = col"
    using Cons.prems by (auto simp: nth_via_drop)
  have "drop (Suc n) (rl_columns rel) = tl (drop n (rl_columns rel))" by (simp add: drop_Suc tl_drop)
  then have rest: "drop (Suc n) (rl_columns rel) = cols" using Cons.prems by simp
  have IH: "key_values conv rel keys (fill_row old t) (Suc n) cols = key_values conv rel keys t (Suc n) cols"
    using Cons rest by simp
  have "is_key rel keys col \<Longrightarrow> tuple_get (fill_row old t) n = tuple_get t n"
    using key_arrives_get[OF assms n(1)] n(2)
    by (cases "tuple_get t n") (auto simp: tuple_get_fill fill_cell_def split: tuple_value.splits)
  then show ?case using IH by simp
qed simp

lemma key_values_of_doc:
  "doc_values conv rel old t i cols = Inr r \<Longrightarrow> \<exists>vs. key_values conv rel keys t i cols = Inr vs"
  by (induction cols arbitrary: i r)
     (fastforce simp: bindr_Inr_iff split: option.splits tuple_value.splits)+

lemma key_values_names:
  "key_values conv rel keys t i cols = Inr vs \<Longrightarrow> map fst vs = map rc_name (filter (is_key rel keys) cols)"
  by (induction cols arbitrary: i vs) (auto simp: bindr_Inr_iff split: if_splits)

lemma bt_get_Nil [simp]: "bt_get [] = Map.empty"
  by (simp add: bt_get_def fun_eq_iff)

lemma bt_get_extend_Nil: "bt_get (bt_extend [] kvs) = map_of (rev kvs)"
  by (simp add: bt_extend_ins_all bt.get_ins_all)

lemma bt_wf_extend_Nil: "bt_wf (bt_extend [] kvs)"
  by (simp add: bt_extend_ins_all bt.invar_ins_all)

lemma bt_extend_eq_Nil: "bt_extend [] kvs = [] \<longleftrightarrow> kvs = []"
proof
  assume "bt_extend [] kvs = []"
  then have "map_of (rev kvs) = Map.empty"
    using bt_get_extend_Nil[of kvs] by (simp add: bt_get_def fun_eq_iff)
  then show "kvs = []" by (simp add: map_of_eq_empty_iff)
qed (simp add: bt_extend_def)

text \<open>
  Under REPLICA IDENTITY FULL an update is the pair of the row that was and the row that is:
  the key and the document are those of an insert of the completed new row, the previous key
  and the before-image those of an insert of the old row, and nothing is left to read back.
\<close>


definition sample_relation :: relation where
  "sample_relation = \<lparr>rl_rel_id = 7, rl_schema = ''public'', rl_name = ''docs'', rl_identity = IdentityFull,
     rl_columns = [\<lparr>rc_name = ''id'', rc_type_oid = 23, rc_typmod = -1, rc_in_identity = True\<rparr>,
                   \<lparr>rc_name = ''body'', rc_type_oid = 25, rc_typmod = -1, rc_in_identity = True\<rparr>]\<rparr>"

definition sample_converter :: converter where
  "sample_converter oid raw = Inr (case raw of None \<Rightarrow> JNull | Some b \<Rightarrow> JString b)"

lemmas row_defs = build_row_change_def insert_kind_def update_kind_def delete_kind_def before_image_def
  check_delete_capability_def extract_pk_def build_doc_def convert_column_def tuple_get_def is_key_def
  tuple_slices_def old_value_def sample_relation_def sample_converter_def bt_extend_def ok_def


text \<open>The key is read off the document the change carries.\<close>

lemma key_values_filter_doc:
  assumes "whole_row t" "distinct (map rc_name cols)" "i + length cols \<le> length t"
    "doc_values conv rel None t i cols = Inr (kvs, toast)" "key_values conv rel keys t i cols = Inr vs"
  shows "map fst kvs = map rc_name cols \<and>
    vs = filter (\<lambda>(k, _). k \<in> rc_name ` set (filter (is_key rel keys) cols)) kvs"
  using assms
proof (induction cols arbitrary: i kvs toast vs)
  case (Cons col cols)
  obtain cell where cell: "tuple_get t i = Some cell" "cell \<noteq> UnchangedToast"
    using Cons.prems(3) whole_row_get[OF Cons.prems(1), of i] by (auto simp: tuple_get_def)
  then obtain v kvs' toast' where step: "kvs = (rc_name col, v) # kvs'"
      "doc_values conv rel None t (Suc i) cols = Inr (kvs', toast')"
      "(case cell of TText b \<Rightarrow> convert_column conv rel (rc_name col) (rc_type_oid col) (Some b) | _ \<Rightarrow> Inr JNull) = Inr v"
    using Cons.prems(4) by (cases cell) (auto simp: bindr_Inr_iff)
  obtain vs' where vs': "key_values conv rel keys t (Suc i) cols = Inr vs'"
      "vs = (if is_key rel keys col then (rc_name col, v) # vs' else vs')"
    using Cons.prems(5) cell step(3) by (cases cell) (auto simp: bindr_Inr_iff split: if_splits)
  have IH: "map fst kvs' = map rc_name cols"
    "vs' = filter (\<lambda>(k, _). k \<in> rc_name ` set (filter (is_key rel keys) cols)) kvs'"
    using Cons.IH[OF Cons.prems(1) _ _ step(2) vs'(1)] Cons.prems(2,3) by auto
  have "rc_name col \<notin> fst ` set kvs'" using IH(1) Cons.prems(2) by (metis distinct.simps(2) list.simps(9) set_map)
  then have "filter (\<lambda>(k, _). k \<in> rc_name ` set (filter (is_key rel keys) (col # cols))) kvs' = vs'"
    unfolding IH(2) by (intro filter_cong) (auto, metis fst_conv image_eqI)
  moreover have "\<not> is_key rel keys col \<Longrightarrow> rc_name col \<notin> rc_name ` set (filter (is_key rel keys) cols)"
    using Cons.prems(2) by auto
  ultimately show ?case using step(1) vs'(2) IH(1) by auto
qed simp

lemma map_of_rev_filter_keys:
  "map_of (rev (filter (\<lambda>(k, _). k \<in> K) kvs)) = (\<lambda>k. if k \<in> K then map_of (rev kvs) k else None)"
  by (induction kvs rule: rev_induct) (auto simp: fun_eq_iff)

lemma bt_extend_filter:
  "bt_extend [] (filter (\<lambda>(k, _). k \<in> K) kvs) = bt_retain (\<lambda>k. k \<in> K) (bt_extend [] kvs)"
  by (rule bt_ext) (auto simp: bt_get_extend_Nil map_of_rev_filter_keys bt_wf_extend_Nil bt_wf_retain)

text \<open>A whole row with as many values as the relation has distinctly named columns is
  inserted under the key its own document holds: the value of the key column where there is
  one, and the object of the key columns, cut out of the document, where there are more.\<close>

lemma insert_key_in_document:
  assumes whole: "whole_row t" and len: "length (rl_columns rel) \<le> length t"
    and names: "distinct (map rc_name (rl_columns rel))"
    and change: "build_row_change conv rel (InInsert t) keys False = Inr c"
  shows "\<exists>pk doc. rc_kind c = Insert pk (JObject doc) \<and> map fst doc = sort (map rc_name (rl_columns rel)) \<and>
    (let ks = map rc_name (filter (is_key rel keys) (rl_columns rel))
     in ks \<noteq> [] \<and> (if length ks = 1 then bt_get doc (hd ks) = Some pk
                    else pk = JObject (bt_retain (\<lambda>k. k \<in> set ks) doc)))"
proof -
  define ks where "ks = map rc_name (filter (is_key rel keys) (rl_columns rel))"
  from change obtain pk kvs toast where c: "rc_kind c = Insert pk (JObject (bt_extend [] kvs))"
    and pk: "extract_pk conv rel t keys = Inr pk"
    and kvs: "doc_values conv rel None t 0 (rl_columns rel) = Inr (kvs, toast)"
    by (cases "insert_kind conv rel keys False t")
       (auto simp: build_row_change_def insert_kind_def build_doc_def bindr_Inr_iff)
  from pk obtain vs where vs: "key_values conv rel keys t 0 (rl_columns rel) = Inr vs" "vs \<noteq> []"
    and pk': "pk = (if length (bt_extend [] vs) = 1 then snd (hd vs) else JObject (bt_extend [] vs))"
    by (auto simp: extract_pk_def bindr_Inr_iff Let_def bt_extend_eq_Nil split: if_splits)
  have doc: "map fst kvs = map rc_name (rl_columns rel)" "vs = filter (\<lambda>(k, _). k \<in> set ks) kvs"
    using key_values_filter_doc[OF whole names _ kvs vs(1)] len by (auto simp: ks_def)
  have fst_vs: "map fst vs = ks" using key_values_names[OF vs(1)] by (simp add: ks_def)
  have obj: "bt_extend [] vs = bt_retain (\<lambda>k. k \<in> set ks) (bt_extend [] kvs)"
    unfolding doc(2) by (rule bt_extend_filter)
  have dist: "distinct ks" using names by (auto simp: ks_def distinct_map_filter)
  have keys_sorted: "map fst (bt_extend [] xs) = sort (map fst xs)" if "distinct (map fst xs)" for xs :: "(string \<times> json) list"
  proof (rule sorted_distinct_set_unique)
    show "sorted (map fst (bt_extend [] xs))" "distinct (map fst (bt_extend [] xs))"
      using bt_wf_extend_Nil[of xs] bt_wf_distinct by (auto simp: bt_wf_def strict_sorted_imp_sorted)
    show "set (map fst (bt_extend [] xs)) = set (sort (map fst xs))"
      using bt_get_None_iff[of "bt_extend [] xs"] by (fastforce simp: bt_get_extend_Nil map_of_eq_None_iff)
  qed (use that in auto)
  have "length (bt_extend [] vs) = length ks"
    using keys_sorted[of vs] fst_vs dist by (metis length_map length_sort)
  moreover have "bt_get (bt_extend [] kvs) (hd ks) = Some (snd (hd vs))" if "length ks = 1"
  proof -
    from that obtain k where "ks = [k]" by (cases ks) auto
    then obtain v where v: "vs = [(k, v)]" using fst_vs by (cases vs) auto
    then have "(k, v) \<in> set (filter (\<lambda>(k, _). k \<in> set ks) kvs)" using doc(2) by simp
    then have "(k, v) \<in> set kvs" by simp
    then show ?thesis using \<open>ks = [k]\<close> v doc(1) names
      by (simp add: bt_get_extend_Nil) (metis distinct_rev in_set_conv_decomp map_of_is_SomeI rev_map set_rev)
  qed
  ultimately show ?thesis
    using c pk' obj fst_vs vs(2) doc(1) keys_sorted[of kvs] names by (auto simp: ks_def[symmetric] Let_def)
qed

lemma insert_key_in_document_witness:
  "\<exists>pk doc. build_row_change sample_converter sample_relation (InInsert [TText ''2'', TText ''long'']) (Some [''id'']) False
      = Inr \<lparr>rc_schema = ''public'', rc_table = ''docs'', rc_kind = Insert pk (JObject doc), rc_version = None\<rparr> \<and>
    bt_get doc ''id'' = Some pk"
proof -
  let ?t = "[TText ''2'', TText ''long'']"
  let ?c = "\<lparr>rc_schema = ''public'', rc_table = ''docs'',
    rc_kind = Insert (JString ''2'') (JObject (bt_extend [] [(''id'', JString ''2''), (''body'', JString ''long'')])),
    rc_version = None\<rparr>"
  have change: "build_row_change sample_converter sample_relation (InInsert ?t) (Some [''id'']) False = Inr ?c"
    by (simp add: row_defs)
  have "whole_row ?t" "length (rl_columns sample_relation) \<le> length ?t"
    "distinct (map rc_name (rl_columns sample_relation))"
    by (simp_all add: whole_row_def sample_relation_def)
  from insert_key_in_document[OF this change] show ?thesis
    using change by (auto simp: Let_def row_defs)
qed

text \<open>
  A key column that arrives as an unchanged TOAST value is read as null, although the old tuple
  carries it: the update names a document no row has, and asks for the one it has to be removed.
\<close>

lemma toasted_key_reads_null:
  "\<exists>doc toast before.
    build_row_change sample_converter sample_relation
      (InUpdate (Some [TText ''key'', TText ''a'']) [UnchangedToast, TText ''b'']) (Some [''id'']) False
    = Inr \<lparr>rc_schema = ''public'', rc_table = ''docs'',
           rc_kind = Update JNull (Some (JString ''key'')) (JObject doc) toast before, rc_version = None\<rparr> \<and>
    bt_get doc ''id'' = Some (JString ''key'')"
  by (simp add: row_defs bt_get_def)

end
