(* ===== verification/Pg_Children.thy ===== *)
theory Pg_Children
  imports Child_Rows Pg_Rows
begin

section \<open>Reading children and counts from PostgreSQL (\<open>crates/source/src/children.rs\<close>, \<open>aggregate.rs\<close>, \<open>error.rs\<close>)\<close>

text \<open>
  The text of the child, count, parent and junction queries, and how their answers land on the
  parent documents. The SQL connection is a parameter: one function per shape of row the code
  reads, from the text of a statement and its one parameter to the rows or an error. A
  \<open>HashMap\<close> collected from rows keeps the last row of a key. An error keeps the sentence the code
  gives it; the failure underneath, which is only printed, is left out.
\<close>

datatype source_error =
    Connect string
  | Refused string
  | Catalog string
  | Protocol string
  | Config string
  | ChannelClosed
  | Tls string
  | Build build_error
  | Core core_error

definition source_is_retryable :: "source_error \<Rightarrow> bool" where
  "source_is_retryable e = (case e of Config _ \<Rightarrow> False | _ \<Rightarrow> True)"

definition source_is_unreachable :: "source_error \<Rightarrow> bool" where
  "source_is_unreachable e = (case e of Connect _ \<Rightarrow> True | _ \<Rightarrow> False)"

datatype sql_param = BigInts "int list" | Texts "string list"

record pg_client =
  pc_collections :: "string \<Rightarrow> sql_param \<Rightarrow> (string, (string \<times> json \<times> int) list) result"
  pc_counts :: "string \<Rightarrow> sql_param \<Rightarrow> (string, (string \<times> int) list) result"
  pc_documents :: "string \<Rightarrow> sql_param \<Rightarrow> (string, (string \<times> json) list) result"
  pc_keys :: "string \<Rightarrow> sql_param \<Rightarrow> (string, json list) result"

definition collect_rows :: "('k \<times> 'v) list \<Rightarrow> 'k \<rightharpoonup> 'v" where
  "collect_rows rows = map_of (rev rows)"

subsection \<open>The statements\<close>

definition DQUOTE :: string where "DQUOTE = [CHR 0x22]"
definition QUOTE :: string where "QUOTE = [CHR 0x27]"

definition pg_quote_ident :: "string \<Rightarrow> string" where
  "pg_quote_ident name = DQUOTE @ replace_str DQUOTE (DQUOTE @ DQUOTE) name @ DQUOTE"

definition pg_quote_literal :: "string \<Rightarrow> string" where
  "pg_quote_literal v = QUOTE @ replace_str QUOTE (QUOTE @ QUOTE) v @ QUOTE"

definition fk_ref :: "child_spec \<Rightarrow> string" where
  "fk_ref spec = (if cs_through spec \<noteq> None then ''j'' else ''t'') @ ''.'' @ pg_quote_ident (cs_foreign_key spec)"

definition any_predicate :: "externs \<Rightarrow> string \<Rightarrow> json list \<Rightarrow> string \<times> sql_param" where
  "any_predicate ext quoted_column keys =
     (case those (map (\<lambda>k. case k of JNumber n \<Rightarrow> as_i64 n | _ \<Rightarrow> None) keys) of
        Some ints \<Rightarrow> (quoted_column @ '' = ANY($1::bigint[])'', BigInts ints)
      | None \<Rightarrow> (quoted_column @ ''::text = ANY($1::text[])'',
                 Texts (map (\<lambda>k. case k of JString s \<Rightarrow> s | other \<Rightarrow> value_to_string ext other) keys)))"

definition element_expr :: "child_spec \<Rightarrow> string" where
  "element_expr spec =
     (case cs_columns spec of
        Some columns \<Rightarrow>
          ''jsonb_build_object('' @ join '', '' (map (\<lambda>c. pg_quote_literal c @ '', t.'' @ pg_quote_ident c) columns) @ '')''
      | None \<Rightarrow>
          if cs_exclude_columns spec = [] then ''to_jsonb(t)''
          else ''to_jsonb(t) - ARRAY['' @ join '', '' (map pg_quote_literal (cs_exclude_columns spec)) @ '']::text[]'')"

definition agg_subquery :: "child_spec \<Rightarrow> string option \<Rightarrow> string" where
  "agg_subquery spec key_filter =
     (let fk = fk_ref spec;
          ordered = (if cs_order_by spec = [] then []
                     else '' ORDER BY '' @ join '', '' (map (\<lambda>c. ''t.'' @ pg_quote_ident c) (cs_order_by spec)));
          junction = (case cs_through spec of
              Some th \<Rightarrow> '' JOIN '' @ pg_quote_ident (th_schema th) @ ''.'' @ pg_quote_ident (th_table th) @ '' j ON j.''
                @ pg_quote_ident (th_through_key th) @ '' = t.'' @ pg_quote_ident (th_child_key th)
            | None \<Rightarrow> []);
          where_clause = (case key_filter of Some predicate \<Rightarrow> '' WHERE '' @ predicate | None \<Rightarrow> []);
          ranked = ''SELECT '' @ fk @ '' AS k, '' @ element_expr spec @ '' AS doc, row_number() OVER (PARTITION BY '' @ fk
            @ ordered @ '') AS rn, count(*) OVER (PARTITION BY '' @ fk @ '') AS total FROM ''
            @ pg_quote_ident (cs_schema spec) @ ''.'' @ pg_quote_ident (cs_table spec) @ '' t'' @ junction @ where_clause;
          capped = (case cs_max_rows spec of
              Some n \<Rightarrow> ''SELECT * FROM ('' @ ranked @ '') r WHERE r.rn <= '' @ show_nat (unat n)
            | None \<Rightarrow> ''SELECT * FROM ('' @ ranked @ '') r'')
      in ''SELECT k, COALESCE(jsonb_agg(doc ORDER BY rn), '' @ QUOTE @ ''[]'' @ QUOTE
           @ ''::jsonb) AS agg, max(total) AS total FROM ('' @ capped @ '') c GROUP BY k'')"

definition count_dialect :: sql_dialect where
  "count_dialect = \<lparr>quote_ident = (\<lambda>name. ''t.'' @ pg_quote_ident name), quote_str = pg_quote_literal\<rparr>"

definition count_subquery :: "(f64 \<Rightarrow> string) \<Rightarrow> aggregate_spec \<Rightarrow> string option \<Rightarrow> string" where
  "count_subquery fshow spec key_predicate =
     (let fk = ''t.'' @ pg_quote_ident (as_foreign_key spec);
          conditions = (case as_filter spec of Some f \<Rightarrow> [''('' @ to_sql fshow count_dialect f @ '')''] | None \<Rightarrow> [])
            @ (case key_predicate of Some predicate \<Rightarrow> [predicate] | None \<Rightarrow> []);
          where_clause = (if conditions = [] then [] else '' WHERE '' @ join '' AND '' conditions)
      in ''SELECT '' @ fk @ '' AS k, count(*) AS n FROM '' @ pg_quote_ident (as_schema spec) @ ''.''
           @ pg_quote_ident (as_table spec) @ '' t'' @ where_clause @ '' GROUP BY '' @ fk)"

subsection \<open>The reads\<close>

definition fetch_many :: "externs \<Rightarrow> pg_client \<Rightarrow> child_spec \<Rightarrow> json list \<Rightarrow> (source_error, string \<rightharpoonup> json \<times> int) result" where
  "fetch_many ext client spec keys =
     (if keys = [] then Inr Map.empty
      else
        (let (predicate, param) = any_predicate ext (fk_ref spec) keys;
             sql = ''SELECT to_jsonb(c.k)::text, c.agg, c.total FROM ('' @ agg_subquery spec (Some predicate) @ '') c''
         in bindr (map_err (\<lambda>_. Catalog (''child fetch failed for '' @ child_qualified spec)) (pc_collections client sql param))
              (\<lambda>rows. Inr (collect_rows rows))))"

definition fetch_counts :: "externs \<Rightarrow> (f64 \<Rightarrow> string) \<Rightarrow> pg_client \<Rightarrow> aggregate_spec \<Rightarrow> json list \<Rightarrow> (source_error, string \<rightharpoonup> int) result" where
  "fetch_counts ext fshow client spec keys =
     (if keys = [] then Inr Map.empty
      else
        (let (predicate, param) = any_predicate ext (''t.'' @ pg_quote_ident (as_foreign_key spec)) keys;
             sql = ''SELECT to_jsonb(c.k)::text, c.n FROM ('' @ count_subquery fshow spec (Some predicate) @ '') c''
         in bindr (map_err (\<lambda>_. Catalog (''aggregate read failed for '' @ aggregate_qualified spec)) (pc_counts client sql param))
              (\<lambda>rows. Inr (collect_rows rows))))"

definition refetch_parents :: "externs \<Rightarrow> pg_client \<Rightarrow> table \<Rightarrow> string \<Rightarrow> json list \<Rightarrow> (source_error, string \<rightharpoonup> json) result" where
  "refetch_parents ext client tab pk_column keys =
     (if keys = [] then Inr Map.empty
      else
        (let quoted_pk = pg_quote_ident pk_column;
             (predicate, param) = any_predicate ext quoted_pk keys;
             sql = ''SELECT to_jsonb(t.'' @ quoted_pk @ '')::text, to_jsonb(t) FROM '' @ pg_quote_ident (fst tab) @ ''.''
               @ pg_quote_ident (snd tab) @ '' t WHERE '' @ predicate
         in bindr (map_err (\<lambda>_. Catalog (''parent refetch failed for '' @ fst tab @ ''.'' @ snd tab)) (pc_documents client sql param))
              (\<lambda>rows. Inr (collect_rows rows))))"

definition parents_through :: "externs \<Rightarrow> pg_client \<Rightarrow> child_spec \<Rightarrow> json list \<Rightarrow> (source_error, json list) result" where
  "parents_through ext client spec child_keys =
     (case cs_through spec of
        None \<Rightarrow> Inr []
      | Some th \<Rightarrow>
          if child_keys = [] then Inr []
          else
            (let (predicate, param) = any_predicate ext (''j.'' @ pg_quote_ident (th_through_key th)) child_keys;
                 sql = ''SELECT DISTINCT to_jsonb(j.'' @ pg_quote_ident (cs_foreign_key spec) @ '') FROM ''
                   @ pg_quote_ident (th_schema th) @ ''.'' @ pg_quote_ident (th_table th) @ '' j WHERE '' @ predicate
             in map_err (\<lambda>_. Catalog (''junction lookup failed for '' @ through_qualified th)) (pc_keys client sql param)))"

text \<open>The documents of a group are given as pairs of the parent key and the document; the
  warnings about duplicates and cut arrays go to the log only.\<close>

definition attach_collection :: "externs \<Rightarrow> child_spec \<Rightarrow> (string \<rightharpoonup> json \<times> int) \<Rightarrow> json \<times> json \<Rightarrow> json \<times> json" where
  "attach_collection ext spec by_key entry =
     (let (arr, all_rows) = (case by_key (key_lookup ext (fst entry)) of Some found \<Rightarrow> found | None \<Rightarrow> (JArray [], 0))
      in (fst entry, fst (apply_collection (snd entry) spec arr all_rows)))"

fun attach_collections :: "externs \<Rightarrow> pg_client \<Rightarrow> child_spec list \<Rightarrow> json list \<Rightarrow> (json \<times> json) list
    \<Rightarrow> (source_error, (json \<times> json) list) result" where
  "attach_collections ext client [] keys docs = Inr docs"
| "attach_collections ext client (spec # specs) keys docs =
     bindr (fetch_many ext client spec keys) (\<lambda>by_key.
       attach_collections ext client specs keys (map (attach_collection ext spec by_key) docs))"

definition attach_children_batch :: "externs \<Rightarrow> pg_client \<Rightarrow> child_spec list \<Rightarrow> (json \<times> json) list
    \<Rightarrow> (source_error, (json \<times> json) list) result" where
  "attach_children_batch ext client specs docs =
     (if docs = [] then Inr [] else attach_collections ext client specs (map fst docs) docs)"

fun attach_counts :: "externs \<Rightarrow> (f64 \<Rightarrow> string) \<Rightarrow> pg_client \<Rightarrow> aggregate_spec list \<Rightarrow> json list \<Rightarrow> (json \<times> json) list
    \<Rightarrow> (source_error, (json \<times> json) list) result" where
  "attach_counts ext fshow client [] keys docs = Inr docs"
| "attach_counts ext fshow client (spec # specs) keys docs =
     bindr (fetch_counts ext fshow client spec keys) (\<lambda>by_key.
       attach_counts ext fshow client specs keys
         (map (\<lambda>(key, doc). (key, apply_count doc spec (unwrap_or 0 (by_key (key_lookup ext key))))) docs))"

definition attach_aggregates_batch :: "externs \<Rightarrow> (f64 \<Rightarrow> string) \<Rightarrow> pg_client \<Rightarrow> aggregate_spec list \<Rightarrow> (json \<times> json) list
    \<Rightarrow> (source_error, (json \<times> json) list) result" where
  "attach_aggregates_batch ext fshow client specs docs =
     (if docs = [] then Inr [] else attach_counts ext fshow client specs (map fst docs) docs)"

subsection \<open>Facts\<close>

lemma attach_collections_keys:
  "attach_collections ext client specs keys docs = Inr docs' \<Longrightarrow> map fst docs' = map fst docs"
  by (induction specs arbitrary: docs)
     (auto simp: bindr_Inr_iff attach_collection_def Let_def comp_def split: option.splits prod.splits)

lemma attach_counts_keys:
  "attach_counts ext fshow client specs keys docs = Inr docs' \<Longrightarrow> map fst docs' = map fst docs"
  by (induction specs arbitrary: docs) (auto simp: bindr_Inr_iff comp_def split_beta)

text \<open>Attaching changes the documents of a group and neither their number nor their keys.\<close>

lemma attach_batch_keys:
  "attach_children_batch ext client specs docs = Inr docs' \<Longrightarrow> map fst docs' = map fst docs"
  "attach_aggregates_batch ext fshow client aggs docs = Inr docs' \<Longrightarrow> map fst docs' = map fst docs"
  by (auto simp: attach_children_batch_def attach_aggregates_batch_def dest: attach_collections_keys attach_counts_keys
           split: if_splits)

text \<open>How the server reads a quoted identifier or literal behind its opening quote: up to the
  first quote that is not doubled.\<close>

fun scan_quoted :: "char \<Rightarrow> string \<Rightarrow> (string \<times> string) option" where
  "scan_quoted q [] = None"
| "scan_quoted q [c] = (if c = q then Some ([], []) else None)"
| "scan_quoted q (c # d # rest) =
     (if c \<noteq> q then map_option (map_prod ((#) c) id) (scan_quoted q (d # rest))
      else if d = q then map_option (map_prod ((#) q) id) (scan_quoted q rest)
      else Some ([], d # rest))"

lemma replace_one: "replace_str [q] [q, q] s = concat (map (\<lambda>c. if c = q then [q, q] else [c]) s)"
  by (induction s) auto

lemma scan_quoted_end: "rest = [] \<or> hd rest \<noteq> q \<Longrightarrow> scan_quoted q (q # rest) = Some ([], rest)"
  by (cases rest) auto

lemma scan_quoted_Cons: "c \<noteq> q \<Longrightarrow> scan_quoted q (c # rest) = map_option (map_prod ((#) c) id) (scan_quoted q rest)"
  by (cases rest) auto

lemma scan_quoted_doubled:
  "rest = [] \<or> hd rest \<noteq> q \<Longrightarrow> scan_quoted q (replace_str [q] [q, q] s @ q # rest) = Some (s, rest)"
  by (induction s) (auto simp: replace_one scan_quoted_end scan_quoted_Cons)

text \<open>A name or a text placed into a statement stays inside its quotes: read the way the server
  reads it, a quoted identifier or literal is the name or text it was made of, and whatever
  follows the quotes, as long as it is not another quote, is what follows in the statement.\<close>

lemma quoting_contains:
  assumes "rest = [] \<or> hd rest \<notin> {CHR 0x22, CHR 0x27}"
  shows "\<exists>body. pg_quote_ident name @ rest = CHR 0x22 # body \<and> scan_quoted (CHR 0x22) body = Some (name, rest)"
    and "\<exists>body. pg_quote_literal name @ rest = CHR 0x27 # body \<and> scan_quoted (CHR 0x27) body = Some (name, rest)"
  using assms scan_quoted_doubled [of rest "CHR 0x22" name] scan_quoted_doubled [of rest "CHR 0x27" name]
  by (auto simp: pg_quote_ident_def pg_quote_literal_def DQUOTE_def QUOTE_def)

end
