(* ===== verification/Table_Set.thy ===== *)
theory Table_Set
  imports Sink_Types
begin

section \<open>The set of streamed tables (\<open>crates/core/src/tables.rs\<close>)\<close>

text \<open>
  \<open>TableSet\<close> and the operations of \<open>SharedTables\<close>. The lock and the reference count make
  each \<open>edit\<close> one atomic replacement of the set, so the shared cell is the set it holds and
  an operation is a function on it. The promise the module makes, that no reader ever sees
  a table admitted without its key columns, is the invariant \<open>set_ok\<close>: it holds of the
  empty set and every operation keeps it.
\<close>

record table_set =
  ts_tables :: "table list"
  ts_key_columns :: "table \<rightharpoonup> string list"
  ts_append_only :: "table set"

definition ts_default :: table_set where
  "ts_default = \<lparr>ts_tables = [], ts_key_columns = Map.empty, ts_append_only = {}\<rparr>"

definition ts_contains :: "table_set \<Rightarrow> string \<Rightarrow> string \<Rightarrow> bool" where
  "ts_contains ts schema tab \<longleftrightarrow> list_ex (\<lambda>(s, t). s = schema \<and> t = tab) (ts_tables ts)"

definition ts_qualified :: "table_set \<Rightarrow> string list" where
  "ts_qualified ts = map (\<lambda>(s, t). s @ ''.'' @ t) (ts_tables ts)"

definition ts_add :: "string \<Rightarrow> string \<Rightarrow> string list \<Rightarrow> bool \<Rightarrow> table_set \<Rightarrow> table_set" where
  "ts_add schema tab key_columns append_only ts =
     (let key = (schema, tab) in
      \<lparr>ts_tables = (if ts_contains ts schema tab then ts_tables ts else ts_tables ts @ [key]),
       ts_key_columns = (ts_key_columns ts)(key \<mapsto> key_columns),
       ts_append_only = (if append_only then insert key (ts_append_only ts) else ts_append_only ts - {key})\<rparr>)"

definition ts_remove :: "string \<Rightarrow> string \<Rightarrow> table_set \<Rightarrow> table_set" where
  "ts_remove schema tab ts =
     (let key = (schema, tab) in
      \<lparr>ts_tables = filter (\<lambda>entry. entry \<noteq> key) (ts_tables ts),
       ts_key_columns = (ts_key_columns ts)(key := None),
       ts_append_only = ts_append_only ts - {key}\<rparr>)"

text \<open>An edit of the shared set, and a sequence of them.\<close>

datatype ts_edit = AddTable string string "string list" bool | RemoveTable string string

fun apply_edit :: "ts_edit \<Rightarrow> table_set \<Rightarrow> table_set" where
  "apply_edit (AddTable s t cols ao) ts = ts_add s t cols ao ts"
| "apply_edit (RemoveTable s t) ts = ts_remove s t ts"

fun edit_table :: "ts_edit \<Rightarrow> table" where
  "edit_table (AddTable s t _ _) = (s, t)"
| "edit_table (RemoveTable s t) = (s, t)"

definition set_ok :: "table_set \<Rightarrow> bool" where
  "set_ok ts \<longleftrightarrow> distinct (ts_tables ts) \<and> dom (ts_key_columns ts) = set (ts_tables ts) \<and>
     ts_append_only ts \<subseteq> set (ts_tables ts)"

subsection \<open>Facts\<close>

lemma ts_contains_iff [simp]: "ts_contains ts s t \<longleftrightarrow> (s, t) \<in> set (ts_tables ts)"
  by (auto simp: ts_contains_def list_ex_iff)

lemma set_ok_default: "set_ok ts_default"
  by (simp add: set_ok_def ts_default_def)

lemma set_ok_add: "set_ok ts \<Longrightarrow> set_ok (ts_add s t cols ao ts)"
  by (auto simp: set_ok_def ts_add_def Let_def)

lemma set_ok_remove: "set_ok ts \<Longrightarrow> set_ok (ts_remove s t ts)"
  by (auto simp: set_ok_def ts_remove_def Let_def)

lemma set_ok_edits: "set_ok ts \<Longrightarrow> set_ok (fold apply_edit es ts)"
proof (induction es arbitrary: ts)
  case (Cons e es)
  then have "set_ok (apply_edit e ts)" by (cases e) (auto simp: set_ok_add set_ok_remove)
  then show ?case by (simp add: Cons.IH)
qed simp

lemma apply_edit_other:
  assumes "edit_table e \<noteq> (s, t)"
  shows "ts_contains (apply_edit e ts) s t = ts_contains ts s t"
    "ts_key_columns (apply_edit e ts) (s, t) = ts_key_columns ts (s, t)"
    "(s, t) \<in> ts_append_only (apply_edit e ts) \<longleftrightarrow> (s, t) \<in> ts_append_only ts"
  using assms by (cases e; auto simp: ts_add_def ts_remove_def Let_def)+

lemma apply_edits_other:
  assumes "\<forall>e \<in> set es. edit_table e \<noteq> (s, t)"
  shows "ts_contains (fold apply_edit es ts) s t = ts_contains ts s t"
    "ts_key_columns (fold apply_edit es ts) (s, t) = ts_key_columns ts (s, t)"
    "(s, t) \<in> ts_append_only (fold apply_edit es ts) \<longleftrightarrow> (s, t) \<in> ts_append_only ts"
  using assms by (induction es arbitrary: ts) (simp_all add: apply_edit_other del: ts_contains_iff)

text \<open>Whatever edits a running pipeline makes, a reader of the shared set never sees a
  table admitted twice, a table admitted without its key columns, or facts kept about a
  table that is not admitted.\<close>

theorem shared_tables_consistent:
  "set_ok (fold apply_edit es ts_default) \<and>
   (ts_contains (fold apply_edit es ts_default) s t \<longleftrightarrow>
      ts_key_columns (fold apply_edit es ts_default) (s, t) \<noteq> None)"
proof -
  have ok: "set_ok (fold apply_edit es ts_default)" by (rule set_ok_edits [OF set_ok_default])
  then have "dom (ts_key_columns (fold apply_edit es ts_default)) = set (ts_tables (fold apply_edit es ts_default))"
    by (simp add: set_ok_def)
  with ok show ?thesis by auto
qed

text \<open>C35. What the set says of a table is what its last edit said: after an \<open>add\<close> and any
  edits of other tables the table is admitted with the key columns and the append-only flag
  it was added with, whatever was known of it before.\<close>

theorem shared_tables_last_edit:
  assumes "\<forall>e \<in> set es. edit_table e \<noteq> (s, t)"
  shows "ts_contains (fold apply_edit (AddTable s t cols ao # es) ts) s t \<and>
    ts_key_columns (fold apply_edit (AddTable s t cols ao # es) ts) (s, t) = Some cols \<and>
    ((s, t) \<in> ts_append_only (fold apply_edit (AddTable s t cols ao # es) ts) \<longleftrightarrow> ao)"
  using apply_edits_other [OF assms, of "ts_add s t cols ao ts"]
  by (simp add: ts_add_def Let_def)

theorem shared_tables_last_edit_witness:
  "edit_table (RemoveTable ''public'' ''b'') \<noteq> (''public'', ''a'') \<and>
   ts_key_columns (fold apply_edit [AddTable ''public'' ''a'' [''id''] True, RemoveTable ''public'' ''b''] ts_default)
     (''public'', ''a'') = Some [''id'']"
  using shared_tables_last_edit [of "[RemoveTable ''public'' ''b'']" "''public''" "''a''" "[''id'']" True ts_default]
  by simp

end
