(* ===== verification/Pg_Stream.thy ===== *)
theory Pg_Stream
  imports Pg_Children Table_Set
begin

section \<open>The replication stream (\<open>crates/source/src/runner.rs\<close>)\<close>

text \<open>
  \<open>WalSource::stream\<close> as a step on the state of its loop: the relations seen, whether a
  transaction is open and at which position, the rows and parent keys held back, and the tables
  already warned about. The replication client delivers the arrivals; what the loop reads
  beside them, the shared table set, the durable position and the answers of the SQL
  connection, is the \<open>wal_env\<close> of each arrival, since all three change while the stream runs. The
  channel to the engine is the list of events sent and the number of events the receiver still
  takes before it is dropped. A step gives the error it ended the stream with, if any, beside
  the state it leaves. The configuration keeps what the loop reads; addresses and credentials
  belong to the connection, which is not modelled, and neither are log lines.
\<close>

record wal_config =
  wc_publication :: string
  wc_children :: "(table \<times> child_spec list) list"
  wc_aggregates :: "(table \<times> aggregate_spec list) list"
  wc_child_parents :: "(table \<times> table) list"
  wc_parent_pk_columns :: "(table \<times> string) list"

record wal_env =
  we_tables :: table_set
  we_durable :: "u64 option"
  we_client :: pg_client

record wal_stream =
  ws_relations :: "nat \<rightharpoonup> relation"
  ws_in_transaction :: bool
  ws_pending :: pending
  ws_txn_version :: "u64 option"
  ws_unmapped :: "table set"
  ws_sent :: "change_event list"
  ws_room :: nat
  ws_applied :: "u64 list"

record decoding =
  de_ext :: externs
  de_fshow :: "f64 \<Rightarrow> string"
  de_conv :: converter

definition PENDING_FLUSH_ROWS :: nat where "PENDING_FLUSH_ROWS = 5000"

type_synonym stepped = "source_error option \<times> wal_stream"

definition and_then :: "stepped \<Rightarrow> (wal_stream \<Rightarrow> stepped) \<Rightarrow> stepped" where
  "and_then r f = (case fst r of None \<Rightarrow> f (snd r) | Some e \<Rightarrow> r)"

definition or_end :: "(source_error, 'a) result \<Rightarrow> ('a \<Rightarrow> wal_stream \<Rightarrow> stepped) \<Rightarrow> wal_stream \<Rightarrow> stepped" where
  "or_end r f st = (case r of Inl e \<Rightarrow> (Some e, st) | Inr a \<Rightarrow> f a st)"

definition push_event :: "change_event \<Rightarrow> wal_stream \<Rightarrow> wal_stream" where
  "push_event ev st = st\<lparr>ws_sent := ws_sent st @ [ev], ws_room := ws_room st - 1\<rparr>"

definition tx_send :: "change_event \<Rightarrow> wal_stream \<Rightarrow> stepped" where
  "tx_send ev st = (if ws_room st = 0 then (Some ChannelClosed, st) else (None, push_event ev st))"

fun send_all :: "change_event list \<Rightarrow> wal_stream \<Rightarrow> stepped" where
  "send_all [] st = (None, st)"
| "send_all (ev # evs) st = and_then (tx_send ev st) (send_all evs)"

definition is_configured :: "wal_config \<Rightarrow> table_set \<Rightarrow> table \<Rightarrow> bool" where
  "is_configured cfg ts tab \<longleftrightarrow>
     map_of (wc_children cfg) tab \<noteq> None \<or> map_of (wc_aggregates cfg) tab \<noteq> None \<or>
     map_of (wc_child_parents cfg) tab \<noteq> None \<or> ts_contains ts (fst tab) (snd tab)"

definition parent_pk_column :: "wal_config \<Rightarrow> table \<Rightarrow> string" where
  "parent_pk_column cfg tab = unwrap_or ''id'' (map_of (wc_parent_pk_columns cfg) tab)"

subsection \<open>What a row is\<close>

datatype classified =
    CRow row_change
  | CParentRow table row_change
  | CNamesParent table "json list"
  | CNamesThrough table string json
  | CSkip

fun old_image :: "old_tuple \<Rightarrow> tuple" where
  "old_image (OldKey t) = t"
| "old_image (OldFull t) = t"

fun incoming_of :: "message \<Rightarrow> (nat \<times> incoming) option" where
  "incoming_of (MInsert rel_id t) = Some (rel_id, InInsert t)"
| "incoming_of (MUpdate rel_id old t) = Some (rel_id, InUpdate (map_option old_image old) t)"
| "incoming_of (MDelete rel_id key) = Some (rel_id, InDelete (old_image key))"
| "incoming_of _ = None"

text \<open>The value of the column of a given name in a tuple. The index comes from \<open>column_index\<close>, so
  the out-of-range case, a panic, is never taken.\<close>

definition column_at :: "converter \<Rightarrow> relation \<Rightarrow> string \<Rightarrow> nat \<Rightarrow> tuple \<Rightarrow> (source_error, json) result" where
  "column_at conv rel ctx idx t =
     (case convert_column_at conv rel idx t of
        Some r \<Rightarrow> map_err (\<lambda>_. Protocol ctx) r
      | None \<Rightarrow> Inl (Protocol ''index out of bounds''))"

definition index_of :: "relation \<Rightarrow> string \<Rightarrow> (source_error, nat) result" where
  "index_of rel column =
     ok_or (Protocol (''column '' @ column @ '' missing on '' @ rl_schema rel @ ''.'' @ rl_name rel)) (column_index rel column)"

text \<open>The parents the tuples of a changed row name, without repetitions: the first tuple has to
  name one.\<close>

fun aggregate_keys :: "converter \<Rightarrow> relation \<Rightarrow> aggregate_spec \<Rightarrow> nat \<Rightarrow> bool \<Rightarrow> json list \<Rightarrow> tuple list
    \<Rightarrow> (source_error, json list) result" where
  "aggregate_keys conv rel spec idx first keys [] = Inr keys"
| "aggregate_keys conv rel spec idx first keys (t # ts) =
     bindr (column_at conv rel ''aggregate key decode'' idx t) (\<lambda>v.
       if v = JNull then
         (if first then
            Inl (Protocol (''row of '' @ rl_schema rel @ ''.'' @ rl_name rel @ '' carries NULL '' @ as_foreign_key spec
              @ ''; cannot locate the parent whose '' @ as_field spec @ '' it counts towards. Consider ALTER TABLE ''
              @ rl_schema rel @ ''.'' @ rl_name rel @ '' REPLICA IDENTITY FULL''))
          else aggregate_keys conv rel spec idx False keys ts)
       else aggregate_keys conv rel spec idx False (if v \<in> set keys then keys else keys @ [v]) ts)"

definition names_aggregate_parent :: "wal_config \<Rightarrow> converter \<Rightarrow> relation \<Rightarrow> table \<Rightarrow> incoming \<Rightarrow> (source_error, classified) result" where
  "names_aggregate_parent cfg conv rel parent inc =
     (let specs = unwrap_or [] (map_of (wc_aggregates cfg) parent) in
      bindr (ok_or (Protocol (''child '' @ rl_schema rel @ ''.'' @ rl_name rel @ '' has no matching children entry''))
               (List.find (\<lambda>s. aggregate_reads s (rl_schema rel) (rl_name rel)) specs)) (\<lambda>spec.
      bindr (index_of rel (as_foreign_key spec)) (\<lambda>idx.
      bindr (aggregate_keys conv rel spec idx True [] (incoming_tuples inc)) (\<lambda>keys.
        Inr (CNamesParent parent keys)))))"

text \<open>A row of a child table reached through a junction is the child half when the table is the
  child's own, and the junction half otherwise.\<close>

definition through_child :: "relation \<Rightarrow> child_spec \<Rightarrow> through option" where
  "through_child rel cspec =
     (case cs_through cspec of
        Some th \<Rightarrow> if cs_schema cspec = rl_schema rel \<and> cs_table cspec = rl_name rel then Some th else None
      | None \<Rightarrow> None)"

definition names_child_parent :: "converter \<Rightarrow> relation \<Rightarrow> table \<Rightarrow> child_spec \<Rightarrow> incoming \<Rightarrow> (source_error, classified) result" where
  "names_child_parent conv rel parent cspec inc =
     (let column = (case through_child rel cspec of Some th \<Rightarrow> th_child_key th | None \<Rightarrow> cs_foreign_key cspec) in
      bindr (index_of rel column) (\<lambda>idx.
      bindr (column_at conv rel ''child key decode'' idx (incoming_tuple inc)) (\<lambda>v.
        if v = JNull then
          Inl (Protocol (''child row carries NULL '' @ column @ ''; cannot locate parent. Consider ALTER TABLE ''
            @ rl_schema rel @ ''.'' @ rl_name rel @ '' REPLICA IDENTITY FULL''))
        else Inr (case through_child rel cspec of
                    Some _ \<Rightarrow> CNamesThrough parent (cs_field cspec) v
                  | None \<Rightarrow> CNamesParent parent [v]))))"

definition classify_row :: "wal_config \<Rightarrow> converter \<Rightarrow> table_set \<Rightarrow> relation \<Rightarrow> incoming \<Rightarrow> (source_error, classified) result" where
  "classify_row cfg conv ts rel inc =
     (let tab = (rl_schema rel, rl_name rel) in
      case map_of (wc_child_parents cfg) tab of
        Some parent \<Rightarrow>
          (case List.find (\<lambda>s. child_reads s (rl_schema rel) (rl_name rel)) (unwrap_or [] (map_of (wc_children cfg) parent)) of
             None \<Rightarrow> names_aggregate_parent cfg conv rel parent inc
           | Some cspec \<Rightarrow> names_child_parent conv rel parent cspec inc)
      | None \<Rightarrow>
          if \<not> is_configured cfg ts tab then Inr CSkip
          else bindr (map_err Build (build_row_change conv rel inc (ts_key_columns ts tab) (tab \<in> ts_append_only ts))) (\<lambda>change.
                 Inr (if map_of (wc_children cfg) tab \<noteq> None \<or> map_of (wc_aggregates cfg) tab \<noteq> None
                      then CParentRow tab change else CRow change)))"

definition classify :: "wal_config \<Rightarrow> converter \<Rightarrow> table_set \<Rightarrow> message \<Rightarrow> wal_stream \<Rightarrow> (source_error, classified) result \<times> wal_stream" where
  "classify cfg conv ts msg st =
     (case incoming_of msg of
        None \<Rightarrow> (Inr CSkip, st)
      | Some (rel_id, inc) \<Rightarrow>
          (case ws_relations st rel_id of
             None \<Rightarrow> (Inl (Protocol (''row for unknown relation oid '' @ show_nat rel_id)), st)
           | Some rel \<Rightarrow>
               (classify_row cfg conv ts rel inc,
                if map_of (wc_child_parents cfg) (rl_schema rel, rl_name rel) = None \<and>
                   \<not> is_configured cfg ts (rl_schema rel, rl_name rel)
                then st\<lparr>ws_unmapped := insert (rl_schema rel, rl_name rel) (ws_unmapped st)\<rparr> else st)))"

subsection \<open>Resolving what is held\<close>

fun resolve_entries :: "decoding \<Rightarrow> wal_config \<Rightarrow> pg_client \<Rightarrow> ((table \<times> string) \<times> json list) list \<Rightarrow> pending
    \<Rightarrow> (source_error, pending) result" where
  "resolve_entries de cfg client [] p = Inr p"
| "resolve_entries de cfg client (((tab, field), child_keys) # rest) p =
     (case List.find (\<lambda>s. cs_field s = field) (unwrap_or [] (map_of (wc_children cfg) tab)) of
        None \<Rightarrow> resolve_entries de cfg client rest p
      | Some spec \<Rightarrow>
          bindr (parents_through (de_ext de) client spec child_keys) (\<lambda>keys.
            resolve_entries de cfg client rest (fold (name_parent (de_ext de) tab) keys p)))"

definition resolve_through :: "decoding \<Rightarrow> wal_config \<Rightarrow> pg_client \<Rightarrow> pending \<Rightarrow> (source_error, pending) result" where
  "resolve_through de cfg client p = (case take_through p of (entries, p) \<Rightarrow> resolve_entries de cfg client entries p)"

text \<open>The documents of the rows that have one, by key, and the rows with the documents put back in
  order: the code edits them in place.\<close>

definition row_doc :: "row_change \<Rightarrow> json option" where
  "row_doc r = (case rc_kind r of Insert _ doc \<Rightarrow> Some doc | Update _ _ doc _ _ \<Rightarrow> Some doc | Delete _ _ \<Rightarrow> None)"

definition docs_of :: "row_change list \<Rightarrow> (json \<times> json) list" where
  "docs_of rows = List.map_filter (\<lambda>r. map_option (\<lambda>doc. (rc_pk r, doc)) (row_doc r)) rows"

fun put_docs :: "(json \<times> json) list \<Rightarrow> row_change list \<Rightarrow> row_change list" where
  "put_docs docs [] = []"
| "put_docs docs (r # rows) =
     (if row_doc r = None then r # put_docs docs rows
      else r\<lparr>rc_kind := kind_doc_mut (\<lambda>_. snd (hd docs)) (rc_kind r)\<rparr> # put_docs (tl docs) rows)"

definition refetched_rows :: "externs \<Rightarrow> table \<Rightarrow> (string \<rightharpoonup> json) \<Rightarrow> json list \<Rightarrow> row_change list" where
  "refetched_rows ext tab found missing =
     List.map_filter (\<lambda>key. map_option (\<lambda>doc. \<lparr>rc_schema = fst tab, rc_table = snd tab, rc_kind = Insert key doc, rc_version = None\<rparr>)
       (found (key_lookup ext key))) missing"

definition resolve_table :: "decoding \<Rightarrow> wal_config \<Rightarrow> pg_client \<Rightarrow> table \<Rightarrow> row_change list \<Rightarrow> json list
    \<Rightarrow> (source_error, row_change list) result" where
  "resolve_table de cfg client tab rows named =
     (let missing = keys_needing_refetch (de_ext de) rows named in
      bindr (if missing = [] then Inr Map.empty
             else refetch_parents (de_ext de) client tab (parent_pk_column cfg tab) missing) (\<lambda>found.
      let emitted = rows @ refetched_rows (de_ext de) tab found missing in
      bindr (attach_children_batch (de_ext de) client (unwrap_or [] (map_of (wc_children cfg) tab)) (docs_of emitted)) (\<lambda>docs.
      bindr (attach_aggregates_batch (de_ext de) (de_fshow de) client (unwrap_or [] (map_of (wc_aggregates cfg) tab)) docs) (\<lambda>docs.
        Inr (put_docs docs emitted)))))"

fun flush_tables :: "decoding \<Rightarrow> wal_config \<Rightarrow> pg_client \<Rightarrow> u64 option \<Rightarrow> table list \<Rightarrow> wal_stream \<Rightarrow> stepped" where
  "flush_tables de cfg client version [] st = (None, st)"
| "flush_tables de cfg client version (tab # tabs) st =
     (case pending_take tab (ws_pending st) of
        ((rows, named), p) \<Rightarrow>
          or_end (resolve_table de cfg client tab rows named)
            (\<lambda>emitted st. and_then (send_all (map (\<lambda>r. Row (r\<lparr>rc_version := version\<rparr>)) emitted) st)
               (flush_tables de cfg client version tabs))
            (st\<lparr>ws_pending := p\<rparr>))"

definition flush_pending :: "decoding \<Rightarrow> wal_config \<Rightarrow> pg_client \<Rightarrow> wal_stream \<Rightarrow> stepped" where
  "flush_pending de cfg client st =
     (if pending_is_empty (ws_pending st) then (None, st)
      else or_end (resolve_through de cfg client (ws_pending st))
        (\<lambda>p st. and_then (flush_tables de cfg client (ws_txn_version st) (pending_tables p) (st\<lparr>ws_pending := p\<rparr>))
           (\<lambda>st. (None, st\<lparr>ws_pending := clear_seen (ws_pending st)\<rparr>))) st)"

subsection \<open>The loop\<close>

definition needs_admin :: "wal_config \<Rightarrow> bool" where
  "needs_admin cfg \<longleftrightarrow> wc_children cfg \<noteq> [] \<or> wc_aggregates cfg \<noteq> [] \<or> wc_child_parents cfg \<noteq> []"

datatype repl_event =
    EvBegin u64
  | EvCommit u64 int
  | EvXLogData bytes
  | EvMessage u64
  | EvKeepAlive u64
  | EvOther

definition observe_relation :: "relation \<Rightarrow> wal_stream \<Rightarrow> stepped" where
  "observe_relation rel st =
     and_then
       (case Option.bind (ws_relations st (rl_rel_id rel)) (\<lambda>previous. column_drift previous rel) of
          Some drift \<Rightarrow> tx_send (SchemaDrift (rl_schema rel) (rl_name rel) drift) st
        | None \<Rightarrow> (None, st))
       (\<lambda>st. (None, st\<lparr>ws_relations := (ws_relations st)(rl_rel_id rel \<mapsto> rel)\<rparr>))"

fun truncate_relations :: "nat list \<Rightarrow> wal_stream \<Rightarrow> stepped" where
  "truncate_relations [] st = (None, st)"
| "truncate_relations (rel_id # rest) st =
     (case ws_relations st rel_id of
        None \<Rightarrow> (Some (Protocol (''TRUNCATE for unknown relation oid '' @ show_nat rel_id)), st)
      | Some rel \<Rightarrow>
          and_then (tx_send (TableTruncated (rl_schema rel) (rl_name rel) (ws_txn_version st)) st) (truncate_relations rest))"

definition take_classified :: "externs \<Rightarrow> classified \<Rightarrow> wal_stream \<Rightarrow> stepped" where
  "take_classified ext c st =
     (case c of
        CRow change \<Rightarrow> tx_send (Row (change\<lparr>rc_version := ws_txn_version st\<rparr>)) st
      | CParentRow tab change \<Rightarrow> (None, st\<lparr>ws_pending := hold_parent tab change (ws_pending st)\<rparr>)
      | CNamesParent parent keys \<Rightarrow> (None, st\<lparr>ws_pending := fold (name_parent ext parent) keys (ws_pending st)\<rparr>)
      | CNamesThrough parent field child_key \<Rightarrow>
          (None, st\<lparr>ws_pending := name_through ext parent field child_key (ws_pending st)\<rparr>)
      | CSkip \<Rightarrow> (None, st))"

definition take_row :: "decoding \<Rightarrow> wal_config \<Rightarrow> wal_env \<Rightarrow> message \<Rightarrow> wal_stream \<Rightarrow> stepped" where
  "take_row de cfg env msg st =
     (case classify cfg (de_conv de) (we_tables env) msg st of
        (r, st) \<Rightarrow> or_end r (\<lambda>c st. and_then (take_classified (de_ext de) c st) (\<lambda>st.
          if pending_len (ws_pending st) \<ge> PENDING_FLUSH_ROWS \<and> needs_admin cfg
          then flush_pending de cfg (we_client env) st else (None, st))) st)"

definition take_data :: "decoding \<Rightarrow> wal_config \<Rightarrow> wal_env \<Rightarrow> bytes \<Rightarrow> wal_stream \<Rightarrow> stepped" where
  "take_data de cfg env data =
     or_end (map_err (\<lambda>_. Protocol ''pgoutput decode failed'') (pg_parse data)) (\<lambda>msg st.
       case msg of
         MRelation rel \<Rightarrow> observe_relation rel st
       | MTruncate _ rel_ids \<Rightarrow> truncate_relations rel_ids st
       | MInsert _ _ \<Rightarrow> take_row de cfg env msg st
       | MUpdate _ _ _ \<Rightarrow> take_row de cfg env msg st
       | MDelete _ _ \<Rightarrow> take_row de cfg env msg st
       | _ \<Rightarrow> (None, st))"

definition take_commit :: "decoding \<Rightarrow> wal_config \<Rightarrow> wal_env \<Rightarrow> u64 \<Rightarrow> int \<Rightarrow> wal_stream \<Rightarrow> stepped" where
  "take_commit de cfg env end_lsn commit_ts st =
     and_then (if needs_admin cfg then flush_pending de cfg (we_client env) st else (None, st)) (\<lambda>st.
       tx_send (Transaction (Commit (Lsn end_lsn) commit_ts)) (st\<lparr>ws_in_transaction := False, ws_txn_version := None\<rparr>))"

text \<open>Feedback is clamped to the durable position; without one there is no clamp.\<close>

definition take_keepalive :: "wal_env \<Rightarrow> u64 \<Rightarrow> wal_stream \<Rightarrow> stepped" where
  "take_keepalive env wal_end st =
     and_then (if ws_in_transaction st then (None, st) else tx_send (Transaction (Commit (Lsn wal_end) 0)) st) (\<lambda>st.
       (None, st\<lparr>ws_applied := ws_applied st @ [min wal_end (unwrap_or (- 1) (we_durable env))]\<rparr>))"

definition stream_event :: "decoding \<Rightarrow> wal_config \<Rightarrow> wal_env \<Rightarrow> repl_event \<Rightarrow> wal_stream \<Rightarrow> stepped" where
  "stream_event de cfg env ev st =
     (case ev of
        EvBegin final_lsn \<Rightarrow>
          tx_send (Transaction (Begin (Lsn final_lsn))) (st\<lparr>ws_in_transaction := True, ws_txn_version := Some final_lsn\<rparr>)
      | EvCommit end_lsn commit_ts \<Rightarrow> take_commit de cfg env end_lsn commit_ts st
      | EvXLogData data \<Rightarrow> take_data de cfg env data st
      | EvMessage l \<Rightarrow> if ws_in_transaction st then (None, st) else tx_send (Transaction (Commit (Lsn l) 0)) st
      | EvKeepAlive wal_end \<Rightarrow> take_keepalive env wal_end st
      | EvOther \<Rightarrow> (None, st))"

datatype arrival = Shutdown | Ended | RecvFailed string | Received repl_event

text \<open>How the loop ended: by itself, or with an error; \<open>None\<close> is a loop still waiting.\<close>

fun stream_loop :: "decoding \<Rightarrow> wal_config \<Rightarrow> (wal_env \<times> arrival) list \<Rightarrow> wal_stream
    \<Rightarrow> (source_error, unit) result option \<times> wal_stream" where
  "stream_loop de cfg [] st = (None, st)"
| "stream_loop de cfg ((env, a) # rest) st =
     (case a of
        Shutdown \<Rightarrow> (Some (Inr ()), st)
      | Ended \<Rightarrow> (Some (Inr ()), st)
      | RecvFailed _ \<Rightarrow> (Some (Inl (Connect ''replication stream failed'')), st)
      | Received ev \<Rightarrow>
          (case stream_event de cfg env ev st of
             (None, st) \<Rightarrow> stream_loop de cfg rest st
           | (Some e, st) \<Rightarrow> (Some (Inl e), st)))"

definition stream_start :: "nat \<Rightarrow> wal_stream" where
  "stream_start room = \<lparr>ws_relations = Map.empty, ws_in_transaction = False, ws_pending = pending_default,
     ws_txn_version = None, ws_unmapped = {}, ws_sent = [], ws_room = room, ws_applied = []\<rparr>"

definition stream :: "decoding \<Rightarrow> wal_config \<Rightarrow> bool \<Rightarrow> nat \<Rightarrow> (wal_env \<times> arrival) list
    \<Rightarrow> (source_error, unit) result option \<times> wal_stream" where
  "stream de cfg admin_given room arrivals =
     (if needs_admin cfg \<and> \<not> admin_given
      then (Some (Inl (Config ''nested children are configured but no SQL connection was provided'')), stream_start room)
      else stream_loop de cfg arrivals (stream_start room))"

end
