(* ===== verification/Pg_Stream_Facts.thy ===== *)
theory Pg_Stream_Facts
  imports Pg_Stream
begin

section \<open>What the replication stream promises\<close>

text \<open>
  The steps of the loop compose by \<open>and_then\<close> and \<open>or_end\<close>, and so do the claims about them:
  \<open>ends\<close> says what holds after a step that went through and what holds after one that ended the
  stream. The locale \<open>step_contract\<close> proves the composition once for a pair of predicates of
  which the first gives the second; it is interpreted for the transaction brackets of the
  events sent and for the debt of rows not yet sent.
\<close>

definition ends :: "(wal_stream \<Rightarrow> bool) \<Rightarrow> (wal_stream \<Rightarrow> bool) \<Rightarrow> stepped \<Rightarrow> bool" where
  "ends good safe r \<longleftrightarrow> (case fst r of None \<Rightarrow> good (snd r) | Some _ \<Rightarrow> safe (snd r))"

lemma ends_simps [simp]:
  "ends good safe (None, st) = good st"
  "ends good safe (Some e, st) = safe st"
  by (simp_all add: ends_def)

lemma and_then_simps [simp]:
  "and_then (None, st) f = f st"
  "and_then (Some e, st) f = (Some e, st)"
  by (simp_all add: and_then_def)

lemma and_then_None_iff: "and_then r f = (None, st') \<longleftrightarrow> (\<exists>st. r = (None, st) \<and> f st = (None, st'))"
  by (cases r; cases "fst r") (auto simp: and_then_def)

lemma or_end_simps [simp]:
  "or_end (Inl e) f st = (Some e, st)"
  "or_end (Inr a) f st = f a st"
  by (simp_all add: or_end_def)

lemma or_end_None_iff: "or_end r f st = (None, st') \<longleftrightarrow> (\<exists>a. r = Inr a \<and> f a st = (None, st'))"
  by (cases r) auto

lemma tx_send_None_iff:
  "tx_send ev st = (None, st') \<longleftrightarrow> ws_room st \<noteq> 0 \<and> st' = push_event ev st"
  by (auto simp: tx_send_def)

lemma push_event_simps [simp]:
  "ws_sent (push_event ev st) = ws_sent st @ [ev]"
  "ws_pending (push_event ev st) = ws_pending st"
  "ws_relations (push_event ev st) = ws_relations st"
  "ws_txn_version (push_event ev st) = ws_txn_version st"
  "ws_in_transaction (push_event ev st) = ws_in_transaction st"
  "ws_applied (push_event ev st) = ws_applied st"
  by (simp_all add: push_event_def)

lemma tx_send_fails: "ws_room st = 0 \<Longrightarrow> tx_send ev st = (Some ChannelClosed, st)"
  by (simp add: tx_send_def)

locale step_contract =
  fixes good safe :: "wal_stream \<Rightarrow> bool"
  assumes good_safe: "good st \<Longrightarrow> safe st"
begin

lemma ends_and_then: "ends mid safe r \<Longrightarrow> (\<And>st. mid st \<Longrightarrow> ends good safe (f st)) \<Longrightarrow> ends good safe (and_then r f)"
  by (cases r; cases "fst r") (auto simp: and_then_def ends_def)

lemma ends_or_end: "safe st \<Longrightarrow> (\<And>a. r = Inr a \<Longrightarrow> ends good safe (f a st)) \<Longrightarrow> ends good safe (or_end r f st)"
  by (cases r) auto

lemma ends_send:
  assumes "safe st" "good (push_event ev st)"
  shows "ends good safe (tx_send ev st)"
  using assms by (simp add: tx_send_def)

lemma ends_send_all:
  assumes "good st" "\<And>st ev. ev \<in> set evs \<Longrightarrow> good st \<Longrightarrow> good (push_event ev st)"
  shows "ends good safe (send_all evs st)"
  using assms
proof (induction evs arbitrary: st)
  case (Cons ev evs)
  have "ends good safe (tx_send ev st)" using Cons.prems by (intro ends_send good_safe) auto
  then show ?case unfolding send_all.simps by (rule ends_and_then) (use Cons in auto)
qed simp

lemma ends_loop:
  assumes "good st" "\<And>env ev st. (env, Received ev) \<in> set arrivals \<Longrightarrow> good st \<Longrightarrow> ends good safe (stream_event de cfg env ev st)"
  shows "safe (snd (stream_loop de cfg arrivals st))"
  using assms
proof (induction arrivals arbitrary: st)
  case (Cons arrival arrivals)
  obtain env a where arrival: "arrival = (env, a)" by (cases arrival)
  show ?case
  proof (cases a)
    case (Received ev)
    then have "ends good safe (stream_event de cfg env ev st)" using Cons.prems arrival by auto
    then show ?thesis
      using Cons.IH Cons.prems(2) arrival Received by (auto split: prod.splits option.splits)
  qed (use Cons.prems good_safe arrival in auto)
qed (simp add: good_safe)

end

subsection \<open>Transaction brackets\<close>

text \<open>The version of the transaction open after some events: a row or a truncate has to carry the
  version of the one open, or none between transactions.\<close>

fun txn_scan :: "u64 option \<Rightarrow> change_event list \<Rightarrow> u64 option option" where
  "txn_scan v [] = Some v"
| "txn_scan v (Transaction (Begin l) # evs) = txn_scan (Some (lsn_val l)) evs"
| "txn_scan v (Transaction (Commit _ _) # evs) = txn_scan None evs"
| "txn_scan v (Row r # evs) = (if rc_version r = v then txn_scan v evs else None)"
| "txn_scan v (TableTruncated _ _ w # evs) = (if w = v then txn_scan v evs else None)"
| "txn_scan v (_ # evs) = txn_scan v evs"

lemma txn_scan_append: "txn_scan v (xs @ ys) = Option.bind (txn_scan v xs) (\<lambda>w. txn_scan w ys)"
  by (induction v xs rule: txn_scan.induct) auto

definition bracket_safe :: "wal_stream \<Rightarrow> bool" where
  "bracket_safe st \<longleftrightarrow> txn_scan None (ws_sent st) \<noteq> None"

definition bracket_ok :: "wal_stream \<Rightarrow> bool" where
  "bracket_ok st \<longleftrightarrow> txn_scan None (ws_sent st) = Some (ws_txn_version st) \<and>
     (ws_in_transaction st \<longleftrightarrow> ws_txn_version st \<noteq> None)"

definition bracket_at :: "u64 option \<Rightarrow> wal_stream \<Rightarrow> bool" where
  "bracket_at v st \<longleftrightarrow> bracket_ok st \<and> ws_txn_version st = v"

interpretation bracket: step_contract bracket_ok bracket_safe
  by unfold_locales (simp add: bracket_ok_def bracket_safe_def)

interpretation bracket_at: step_contract "bracket_at v" bracket_safe for v
  by unfold_locales (simp add: bracket_at_def bracket.good_safe)

lemma bracket_at_cong [simp]:
  "bracket_at v (st\<lparr>ws_pending := p\<rparr>) = bracket_at v st"
  "bracket_at v (st\<lparr>ws_relations := r\<rparr>) = bracket_at v st"
  "bracket_at v (st\<lparr>ws_unmapped := u\<rparr>) = bracket_at v st"
  "bracket_at v (st\<lparr>ws_applied := ap\<rparr>) = bracket_at v st"
  by (simp_all add: bracket_at_def bracket_ok_def)

lemma bracket_at_sent:
  "bracket_at v st \<Longrightarrow> txn_scan v [ev] = Some v \<Longrightarrow> bracket_at v (push_event ev st)"
  by (auto simp: bracket_at_def bracket_ok_def txn_scan_append)

lemma bracket_at_send: "bracket_at v st \<Longrightarrow> txn_scan v [ev] = Some v \<Longrightarrow> ends (bracket_at v) bracket_safe (tx_send ev st)"
  by (rule bracket_at.ends_send) (auto simp: bracket_at.good_safe bracket_at_sent)

lemma bracket_at_send_all:
  "bracket_at v st \<Longrightarrow> (\<And>ev. ev \<in> set evs \<Longrightarrow> txn_scan v [ev] = Some v) \<Longrightarrow> ends (bracket_at v) bracket_safe (send_all evs st)"
  by (rule bracket_at.ends_send_all) (auto simp: bracket_at_sent)

lemma bracket_flush_tables:
  "bracket_at v st \<Longrightarrow> ends (bracket_at v) bracket_safe (flush_tables de cfg client v tabs st)"
proof (induction tabs arbitrary: st)
  case (Cons tab tabs)
  obtain rows named p where take: "pending_take tab (ws_pending st) = ((rows, named), p)"
    by (metis prod.exhaust)
  have "ends (bracket_at v) bracket_safe
      (and_then (send_all (map (\<lambda>r. Row (r\<lparr>rc_version := v\<rparr>)) emitted) (st\<lparr>ws_pending := p\<rparr>)) (flush_tables de cfg client v tabs))"
    for emitted
    by (rule bracket_at.ends_and_then [OF bracket_at_send_all]) (use Cons in auto)
  then show ?case
    using take Cons.prems by (auto intro!: bracket_at.ends_or_end bracket_at.good_safe)
qed simp

lemma bracket_flush_pending: "bracket_at v st \<Longrightarrow> ends (bracket_at v) bracket_safe (flush_pending de cfg client st)"
proof -
  assume st: "bracket_at v st"
  then have "ends (bracket_at v) bracket_safe
    (and_then (flush_tables de cfg client v (pending_tables p) (st\<lparr>ws_pending := p\<rparr>))
      (\<lambda>st. (None, st\<lparr>ws_pending := clear_seen (ws_pending st)\<rparr>)))" for p
    by (intro bracket_at.ends_and_then [OF bracket_flush_tables]) auto
  with st show ?thesis
    by (auto simp: flush_pending_def bracket_at_def intro!: bracket_at.ends_or_end bracket.good_safe)
qed

lemma bracket_observe: "bracket_at v st \<Longrightarrow> ends (bracket_at v) bracket_safe (observe_relation rel st)"
  unfolding observe_relation_def
  by (rule bracket_at.ends_and_then [where mid = "bracket_at v"]) (auto split: option.splits intro!: bracket_at_send)

lemma bracket_truncate: "bracket_at v st \<Longrightarrow> ends (bracket_at v) bracket_safe (truncate_relations ids st)"
proof (induction ids arbitrary: st)
  case (Cons i ids)
  then have "ws_txn_version st = v" by (simp add: bracket_at_def)
  with Cons show ?case
    by (auto split: option.splits intro!: bracket_at.ends_and_then [OF bracket_at_send] bracket_at.good_safe)
qed simp

lemma bracket_take_row: "bracket_at v st \<Longrightarrow> ends (bracket_at v) bracket_safe (take_row de cfg env msg st)"
proof -
  assume st: "bracket_at v st"
  obtain r st' where cl: "classify cfg (de_conv de) (we_tables env) msg st = (r, st')" by (metis prod.exhaust)
  then have st': "bracket_at v st'"
    using st by (auto simp: classify_def split: option.splits prod.splits if_splits)
  have taken: "ends (bracket_at v) bracket_safe (take_classified (de_ext de) c st')" for c
    using st' bracket_at_send [OF st'] by (cases c) (auto simp: take_classified_def bracket_at_def [of v st'])
  have "ends (bracket_at v) bracket_safe (and_then (take_classified (de_ext de) c st') (\<lambda>st.
      if pending_len (ws_pending st) \<ge> PENDING_FLUSH_ROWS \<and> needs_admin cfg
      then flush_pending de cfg (we_client env) st else (None, st)))" for c
    by (rule bracket_at.ends_and_then [OF taken]) (simp add: bracket_flush_pending)
  then show ?thesis
    using st' cl by (auto simp: take_row_def intro!: bracket_at.ends_or_end bracket_at.good_safe)
qed

lemma bracket_event: "bracket_ok st \<Longrightarrow> ends bracket_ok bracket_safe (stream_event de cfg env ev st)"
proof -
  assume st: "bracket_ok st"
  then have at: "bracket_at (ws_txn_version st) st" by (simp add: bracket_at_def)
  have weaken: "ends (bracket_at v) bracket_safe r \<Longrightarrow> ends bracket_ok bracket_safe r" for v r
    by (cases r; cases "fst r") (auto simp: ends_def bracket_at_def)
  show ?thesis
  proof (cases ev)
    case (EvBegin l)
    then show ?thesis using st
      by (auto simp: stream_event_def bracket_ok_def bracket_safe_def txn_scan_append intro!: bracket.ends_send)
  next
    case (EvCommit l ts)
    have flush: "ends (bracket_at (ws_txn_version st)) bracket_safe
        (if needs_admin cfg then flush_pending de cfg (we_client env) st else (None, st))"
      using at bracket_flush_pending by auto
    show ?thesis unfolding EvCommit stream_event_def take_commit_def repl_event.case
      by (rule bracket.ends_and_then [OF flush], rule bracket.ends_send)
         (auto simp: bracket_at_def bracket_ok_def bracket_safe_def txn_scan_append)
  next
    case (EvXLogData data)
    have "ends (bracket_at (ws_txn_version st)) bracket_safe (take_data de cfg env data st)"
      unfolding take_data_def
      using at by (intro bracket_at.ends_or_end)
        (auto simp: bracket_observe bracket_truncate bracket_take_row bracket_at.good_safe split: message.splits)
    then show ?thesis using weaken EvXLogData by (auto simp: stream_event_def)
  next
    case (EvMessage l)
    then show ?thesis using st
      by (auto simp: stream_event_def bracket_ok_def bracket_safe_def txn_scan_append intro!: bracket.ends_send)
  next
    case (EvKeepAlive l)
    have "ends bracket_ok bracket_safe (if ws_in_transaction st then (None, st) else tx_send (Transaction (Commit (Lsn l) 0)) st)"
      using st by (auto simp: bracket_ok_def bracket_safe_def txn_scan_append intro!: bracket.ends_send)
    then show ?thesis unfolding EvKeepAlive stream_event_def take_keepalive_def repl_event.case
      by (rule bracket.ends_and_then) (simp add: bracket_ok_def)
  qed (use st in \<open>simp add: stream_event_def\<close>)
qed

text \<open>C17. Whatever arrives and however the stream ends, every row and every truncate among the
  events sent carries the position of the transaction that was opened last and is not committed
  yet, and none between transactions: a reader of the events who keeps track of the open
  transaction never meets a version that is not its own, so no position of a keepalive or a
  message comes before rows of the transaction it would fall into.\<close>

theorem stream_versions_bracketed:
  "txn_scan None (ws_sent (snd (stream de cfg admin_given room arrivals))) \<noteq> None"
proof -
  have "bracket_safe (snd (stream_loop de cfg arrivals (stream_start room)))"
    by (rule bracket.ends_loop) (auto simp: bracket_event bracket_ok_def stream_start_def)
  then show ?thesis by (simp add: stream_def bracket_safe_def stream_start_def)
qed

subsection \<open>Debts\<close>

text \<open>
  What a received row obliges the stream to: to send it, to send it with its children, to read
  the parent it names again, or to ask the junction for the parents it belongs to. A debt is
  paid by the events sent, or by an answer of the database that there is no such parent.
\<close>

datatype debt =
    SendRow row_change
  | SendParent table row_change
  | ReadParent table json
  | AskJunction table string json

fun debts_of :: "classified \<Rightarrow> debt list" where
  "debts_of (CRow change) = [SendRow change]"
| "debts_of (CParentRow tab change) = [SendParent tab change]"
| "debts_of (CNamesParent parent keys) = map (ReadParent parent) keys"
| "debts_of (CNamesThrough parent field child_key) = [AskJunction parent field child_key]"
| "debts_of CSkip = []"

definition row_table :: "row_change \<Rightarrow> table" where
  "row_table r = (rc_schema r, rc_table r)"

definition same_row :: "row_change \<Rightarrow> row_change \<Rightarrow> bool" where
  "same_row r r' \<longleftrightarrow> row_table r = row_table r' \<and>
     kind_doc_mut (\<lambda>_. JNull) (rc_kind r) = kind_doc_mut (\<lambda>_. JNull) (rc_kind r')"

definition key_paid :: "externs \<Rightarrow> wal_config \<Rightarrow> pg_client set \<Rightarrow> change_event list \<Rightarrow> table \<Rightarrow> json \<Rightarrow> bool" where
  "key_paid ext cfg clients sent tab k \<longleftrightarrow>
     (\<exists>r. Row r \<in> set sent \<and> row_table r = tab \<and> key_lookup ext (rc_pk r) = key_lookup ext k) \<or>
     (\<exists>client \<in> clients. \<exists>keys found. (\<exists>k' \<in> set keys. key_lookup ext k' = key_lookup ext k) \<and>
        refetch_parents ext client tab (parent_pk_column cfg tab) keys = Inr found \<and> found (key_lookup ext k) = None)"

definition key_held :: "externs \<Rightarrow> pending \<Rightarrow> table \<Rightarrow> json \<Rightarrow> bool" where
  "key_held ext p tab k \<longleftrightarrow> (\<exists>k' \<in> set (entry_list (pe_named p) tab). key_lookup ext k' = key_lookup ext k)"

definition spec_for :: "wal_config \<Rightarrow> table \<Rightarrow> string \<Rightarrow> child_spec option" where
  "spec_for cfg tab field = List.find (\<lambda>s. cs_field s = field) (unwrap_or [] (map_of (wc_children cfg) tab))"

fun paid :: "externs \<Rightarrow> wal_config \<Rightarrow> pg_client set \<Rightarrow> change_event list \<Rightarrow> debt \<Rightarrow> bool" where
  "paid ext cfg clients sent (SendRow change) \<longleftrightarrow> (\<exists>v. Row (change\<lparr>rc_version := v\<rparr>) \<in> set sent)"
| "paid ext cfg clients sent (SendParent tab change) \<longleftrightarrow> (\<exists>r. Row r \<in> set sent \<and> same_row change r)"
| "paid ext cfg clients sent (ReadParent tab k) \<longleftrightarrow> key_paid ext cfg clients sent tab k"
| "paid ext cfg clients sent (AskJunction tab field k) \<longleftrightarrow>
     (\<exists>client \<in> clients. \<exists>spec child_keys keys. spec_for cfg tab field = Some spec \<and>
        (\<exists>k' \<in> set child_keys. key_lookup ext k' = key_lookup ext k) \<and>
        parents_through ext client spec child_keys = Inr keys \<and>
        (\<forall>key \<in> set keys. key_paid ext cfg clients sent tab key))"

fun still_held :: "externs \<Rightarrow> pending \<Rightarrow> debt \<Rightarrow> bool" where
  "still_held ext p (SendRow change) \<longleftrightarrow> False"
| "still_held ext p (SendParent tab change) \<longleftrightarrow> change \<in> set (entry_list (pe_parents p) tab)"
| "still_held ext p (ReadParent tab k) \<longleftrightarrow> key_held ext p tab k"
| "still_held ext p (AskJunction tab field k) \<longleftrightarrow>
     (\<exists>k' \<in> set (entry_list (pe_through p) (tab, field)). key_lookup ext k' = key_lookup ext k)"

definition named_wf :: "externs \<Rightarrow> pending \<Rightarrow> bool" where
  "named_wf ext p \<longleftrightarrow> (\<forall>tab k. (tab, key_lookup ext k) \<in> pe_seen p \<longrightarrow> key_held ext p tab k)"

definition parents_wf :: "pending \<Rightarrow> bool" where
  "parents_wf p \<longleftrightarrow> (\<forall>tab. \<forall>r \<in> set (entry_list (pe_parents p) tab). row_table r = tab)"

definition through_wf :: "externs \<Rightarrow> wal_config \<Rightarrow> pending \<Rightarrow> bool" where
  "through_wf ext cfg p \<longleftrightarrow>
     (\<forall>tab field k. (tab, field, key_lookup ext k) \<in> pe_seen_through p \<longrightarrow> still_held ext p (AskJunction tab field k)) \<and>
     (\<forall>tab field. entry_list (pe_through p) (tab, field) \<noteq> [] \<longrightarrow> spec_for cfg tab field \<noteq> None)"

text \<open>Tables are pairs, and the quantifiers over them are kept whole.\<close>

declare split_paired_All [simp del] split_paired_Ex [simp del]

lemma key_paid_mono:
  "key_paid ext cfg clients sent tab k \<Longrightarrow> set sent \<subseteq> set sent' \<Longrightarrow> key_paid ext cfg clients sent' tab k"
  unfolding key_paid_def by blast

lemma paid_mono: "paid ext cfg clients sent d \<Longrightarrow> set sent \<subseteq> set sent' \<Longrightarrow> paid ext cfg clients sent' d"
proof (induction d)
  case (AskJunction tab field k)
  then show ?case unfolding paid.simps by (meson key_paid_mono)
qed (auto dest: key_paid_mono)

lemma key_held_name: "named_wf ext p \<Longrightarrow> key_held ext (name_parent ext tab k p) tab k"
  by (auto simp: name_parent_def Let_def named_wf_def key_held_def entry_list_push)

lemma key_held_name_other: "key_held ext p tab' k' \<Longrightarrow> key_held ext (name_parent ext tab k p) tab' k'"
  by (auto simp: name_parent_def Let_def key_held_def entry_list_push)

lemma name_parent_simps [simp]:
  "pe_parents (name_parent ext tab k p) = pe_parents p" "pe_through (name_parent ext tab k p) = pe_through p"
  "pe_seen_through (name_parent ext tab k p) = pe_seen_through p"
  by (simp_all add: name_parent_def Let_def)

lemma named_wf_name: "named_wf ext p \<Longrightarrow> named_wf ext (name_parent ext tab k p)"
  unfolding named_wf_def
  by (auto simp: name_parent_def Let_def key_held_def entry_list_push)

lemma name_keys:
  assumes "named_wf ext p"
  shows "named_wf ext (fold (name_parent ext tab) keys p) \<and> (\<forall>k \<in> set keys. key_held ext (fold (name_parent ext tab) keys p) tab k) \<and>
    (\<forall>tab' k'. key_held ext p tab' k' \<longrightarrow> key_held ext (fold (name_parent ext tab) keys p) tab' k') \<and>
    pe_parents (fold (name_parent ext tab) keys p) = pe_parents p \<and> pe_through (fold (name_parent ext tab) keys p) = pe_through p"
  using assms
proof (induction keys arbitrary: p)
  case (Cons k keys)
  then show ?case using Cons.IH [OF named_wf_name [OF Cons.prems, of tab k]]
    by (auto simp: key_held_name key_held_name_other)
qed simp

subsubsection \<open>Resolving a group\<close>

lemma resolve_entries_ok:
  assumes "named_wf ext p" "de_ext de = ext" "resolve_entries de cfg client entries p = Inr p'"
  shows "named_wf ext p' \<and> pe_parents p' = pe_parents p \<and> pe_through p' = pe_through p \<and>
    (\<forall>tab k. key_held ext p tab k \<longrightarrow> key_held ext p' tab k) \<and>
    (\<forall>tab field child_keys spec. ((tab, field), child_keys) \<in> set entries \<longrightarrow> spec_for cfg tab field = Some spec \<longrightarrow>
       (\<exists>keys. parents_through ext client spec child_keys = Inr keys \<and> (\<forall>k \<in> set keys. key_held ext p' tab k)))"
  using assms
proof (induction entries arbitrary: p)
  case (Cons entry entries)
  obtain tab field child_keys where entry: "entry = ((tab, field), child_keys)" by (metis prod.exhaust)
  show ?case
  proof (cases "spec_for cfg tab field")
    case None
    then have "resolve_entries de cfg client entries p = Inr p'"
      using Cons.prems(3) entry by (simp add: spec_for_def)
    from Cons.IH [OF Cons.prems(1,2) this] None entry show ?thesis by auto
  next
    case (Some spec)
    then obtain keys where keys: "parents_through ext client spec child_keys = Inr keys"
        "resolve_entries de cfg client entries (fold (name_parent ext tab) keys p) = Inr p'"
      using Cons.prems(2,3) entry by (auto simp: spec_for_def bindr_Inr_iff)
    note named = name_keys [OF Cons.prems(1), of tab keys]
    have IH: "named_wf ext p'" "pe_parents p' = pe_parents p" "pe_through p' = pe_through p"
      "\<forall>t k. key_held ext (fold (name_parent ext tab) keys p) t k \<longrightarrow> key_held ext p' t k"
      "\<forall>t f cks s. ((t, f), cks) \<in> set entries \<longrightarrow> spec_for cfg t f = Some s \<longrightarrow>
         (\<exists>keys. parents_through ext client s cks = Inr keys \<and> (\<forall>k \<in> set keys. key_held ext p' t k))"
      using Cons.IH [OF _ Cons.prems(2) keys(2)] named by auto
    have "\<forall>k \<in> set keys. key_held ext p' tab k" using named IH(4) by blast
    with IH named keys(1) Some entry show ?thesis by auto
  qed
qed simp

lemma put_docs_same: "list_all2 same_row rows (put_docs docs rows)"
proof (induction docs rows rule: put_docs.induct)
  case (2 docs r rows)
  have "kind_doc_mut (\<lambda>_. JNull) (kind_doc_mut f k) = kind_doc_mut (\<lambda>_. JNull) k" for f k by (cases k) auto
  with 2 show ?case by (auto simp: same_row_def row_table_def)
qed simp

lemma list_all2_left_in: "list_all2 P xs ys \<Longrightarrow> x \<in> set xs \<Longrightarrow> \<exists>y \<in> set ys. P x y"
  by (induction rule: list_all2_induct) auto

lemma same_row_pk: "same_row r r' \<Longrightarrow> rc_pk r' = rc_pk r"
  by (cases "rc_kind r"; cases "rc_kind r'") (auto simp: same_row_def rc_pk_def)

lemma refetched_row:
  assumes "k \<in> set missing" "found (key_lookup ext k) = Some doc"
  shows "\<exists>r \<in> set (refetched_rows ext tab found missing). row_table r = tab \<and> rc_pk r = k"
  using assms
  by (force simp: refetched_rows_def map_filter_def row_table_def rc_pk_def)

lemma resolve_table_ok:
  assumes resolved: "resolve_table de cfg client tab rows named = Inr emitted" and ext: "de_ext de = ext"
    and tables: "\<forall>r \<in> set rows. row_table r = tab"
  shows "(\<forall>r \<in> set rows. \<exists>r' \<in> set emitted. same_row r r') \<and>
    (\<forall>k \<in> set named. (\<exists>r \<in> set emitted. row_table r = tab \<and> key_lookup ext (rc_pk r) = key_lookup ext k) \<or>
       (\<exists>keys found. k \<in> set keys \<and> refetch_parents ext client tab (parent_pk_column cfg tab) keys = Inr found \<and>
          found (key_lookup ext k) = None))"
proof -
  define missing where "missing = keys_needing_refetch ext rows named"
  from resolved ext obtain found docs where
    found: "(if missing = [] then Inr Map.empty else refetch_parents ext client tab (parent_pk_column cfg tab) missing) = Inr found"
    and emitted: "emitted = put_docs docs (rows @ refetched_rows ext tab found missing)"
    unfolding resolve_table_def missing_def by (auto simp: Let_def bindr_Inr_iff)
  have same: "\<exists>r' \<in> set emitted. same_row r r'" if "r \<in> set (rows @ refetched_rows ext tab found missing)" for r
    using list_all2_left_in [OF put_docs_same that] unfolding emitted .
  have carried: "\<exists>r' \<in> set emitted. row_table r' = tab \<and> rc_pk r' = rc_pk r"
    if "r \<in> set (rows @ refetched_rows ext tab found missing)" "row_table r = tab" for r
  proof -
    from same [OF that(1)] obtain r' where "r' \<in> set emitted" "same_row r r'" by blast
    then show ?thesis using that(2) same_row_pk [of r r'] by (intro bexI [of _ r']) (simp_all add: same_row_def)
  qed
  show ?thesis
  proof (intro conjI ballI)
    fix k assume "k \<in> set named"
    then consider (row) r where "r \<in> set rows" "key_lookup ext (rc_pk r) = key_lookup ext k" | (missing) "k \<in> set missing"
      using refetch_covers [of k named rows ext] by (auto simp: missing_def)
    then show "(\<exists>r \<in> set emitted. row_table r = tab \<and> key_lookup ext (rc_pk r) = key_lookup ext k) \<or>
       (\<exists>keys found. k \<in> set keys \<and> refetch_parents ext client tab (parent_pk_column cfg tab) keys = Inr found \<and>
          found (key_lookup ext k) = None)"
    proof cases
      case row
      then show ?thesis using carried [of r] tables by auto
    next
      case missing
      then have read: "refetch_parents ext client tab (parent_pk_column cfg tab) missing = Inr found"
        using found by (auto split: if_splits)
      show ?thesis
      proof (cases "found (key_lookup ext k)")
        case None
        then show ?thesis using read missing by blast
      next
        case (Some doc)
        from refetched_row [of k missing found ext doc tab, OF missing this] obtain r
          where "r \<in> set (refetched_rows ext tab found missing)" "row_table r = tab" "rc_pk r = k" by blast
        then show ?thesis using carried [of r] by fastforce
      qed
    qed
  qed (use same in auto)
qed

lemma send_all_None_iff:
  "send_all evs st = (None, st') \<Longrightarrow> ws_sent st' = ws_sent st @ evs \<and> ws_pending st' = ws_pending st"
  by (induction evs arbitrary: st) (auto simp: and_then_None_iff tx_send_None_iff)

lemma flush_tables_ok:
  assumes "flush_tables de cfg client v tabs st = (None, st')" "de_ext de = ext" "client \<in> clients"
    "\<forall>tab. \<forall>r \<in> set (entry_list (pe_parents (ws_pending st)) tab). row_table r = tab"
  shows "set (ws_sent st) \<subseteq> set (ws_sent st') \<and>
    ws_pending st' = fold (\<lambda>tab p. snd (pending_take tab p)) tabs (ws_pending st) \<and>
    (\<forall>tab \<in> set tabs. (\<forall>r \<in> set (entry_list (pe_parents (ws_pending st)) tab). paid ext cfg clients (ws_sent st') (SendParent tab r)) \<and>
       (\<forall>k \<in> set (entry_list (pe_named (ws_pending st)) tab). key_paid ext cfg clients (ws_sent st') tab k))"
  using assms
proof (induction tabs arbitrary: st)
  case (Cons tab tabs)
  let ?p = "ws_pending st" and ?next = "snd (pending_take tab (ws_pending st))"
  let ?rows = "entry_list (pe_parents ?p) tab" and ?named = "entry_list (pe_named ?p) tab"
  from Cons.prems(1) obtain emitted mid where
    resolved: "resolve_table de cfg client tab ?rows ?named = Inr emitted"
    and sent: "send_all (map (\<lambda>r. Row (r\<lparr>rc_version := v\<rparr>)) emitted) (st\<lparr>ws_pending := ?next\<rparr>) = (None, mid)"
    and rest: "flush_tables de cfg client v tabs mid = (None, st')"
    by (auto simp: pending_take_def or_end_None_iff and_then_None_iff)
  have mid: "ws_sent mid = ws_sent st @ map (\<lambda>r. Row (r\<lparr>rc_version := v\<rparr>)) emitted" "ws_pending mid = ?next"
    using send_all_None_iff [OF sent] by simp_all
  have lists: "entry_list (pe_parents ?next) t = (if t = tab then [] else entry_list (pe_parents ?p) t)"
    "entry_list (pe_named ?next) t = (if t = tab then [] else entry_list (pe_named ?p) t)" for t
    by (simp_all add: pending_take_def entry_list_remove)
  have IH: "set (ws_sent mid) \<subseteq> set (ws_sent st')"
    "ws_pending st' = fold (\<lambda>tab p. snd (pending_take tab p)) tabs ?next"
    "\<And>t. t \<in> set tabs \<Longrightarrow> t \<noteq> tab \<Longrightarrow>
       (\<forall>r \<in> set (entry_list (pe_parents ?p) t). paid ext cfg clients (ws_sent st') (SendParent t r)) \<and>
       (\<forall>k \<in> set (entry_list (pe_named ?p) t). key_paid ext cfg clients (ws_sent st') t k)"
    using Cons.IH [OF rest Cons.prems(2,3)] Cons.prems(4) unfolding mid(2) by (auto simp: lists)
  have on: "Row (r\<lparr>rc_version := v\<rparr>) \<in> set (ws_sent st')" if "r \<in> set emitted" for r
    using that IH(1) mid(1) by auto
  have keep: "same_row r (r'\<lparr>rc_version := v\<rparr>) = same_row r r'" "row_table (r'\<lparr>rc_version := v\<rparr>) = row_table r'"
    "rc_pk (r'\<lparr>rc_version := v\<rparr>) = rc_pk r'" for r r'
    by (simp_all add: same_row_def row_table_def rc_pk_def)
  note ok = resolve_table_ok [OF resolved Cons.prems(2)]
  have rows: "\<forall>r \<in> set ?rows. paid ext cfg clients (ws_sent st') (SendParent tab r)"
    using ok Cons.prems(4) on keep(1) by (metis paid.simps(2))
  have named: "key_paid ext cfg clients (ws_sent st') tab k" if "k \<in> set ?named" for k
  proof -
    from ok Cons.prems(4) that consider
        (row) r where "r \<in> set emitted" "row_table r = tab" "key_lookup ext (rc_pk r) = key_lookup ext k"
      | (gone) keys found where "k \<in> set keys" "refetch_parents ext client tab (parent_pk_column cfg tab) keys = Inr found"
          "found (key_lookup ext k) = None" by blast
    then show ?thesis
    proof cases
      case row
      then show ?thesis unfolding key_paid_def using on [of r] keep(2,3) [of r] by metis
    next
      case gone
      then show ?thesis unfolding key_paid_def using Cons.prems(3) by blast
    qed
  qed
  show ?case using IH mid(1) rows named by auto
qed simp

lemma entry_list_mem: "x \<in> set (entry_list m k) \<Longrightarrow> \<exists>xs. (k, xs) \<in> set m \<and> x \<in> set xs"
  by (cases "map_of m k") (auto simp: entry_list_def dest: map_of_SomeD)

lemma entry_list_tables:
  assumes "x \<in> set (entry_list (pe_parents p) tab) \<or> y \<in> set (entry_list (pe_named p) tab)"
  shows "tab \<in> set (pending_tables p)"
  using assms entry_list_mem [of x "pe_parents p" tab] entry_list_mem [of y "pe_named p" tab]
  by (force simp: pending_tables_def)

lemma pending_empty_waits: "pending_is_empty p \<Longrightarrow> \<not> still_held ext p d"
  by (cases d) (auto simp: pending_is_empty_def key_held_def)

lemma cleared_wf:
  "pending_is_empty p \<Longrightarrow> named_wf ext (clear_seen p) \<and> parents_wf (clear_seen p) \<and> through_wf ext cfg (clear_seen p) \<and>
   pending_is_empty (clear_seen p)"
  by (simp add: clear_seen_def named_wf_def parents_wf_def through_wf_def pending_is_empty_def)

lemma flush_pending_ok:
  assumes flush: "flush_pending de cfg client st = (None, st')" and ext: "de_ext de = ext" and client: "client \<in> clients"
    and wf: "named_wf ext (ws_pending st)" "parents_wf (ws_pending st)" "through_wf ext cfg (ws_pending st)"
  shows "set (ws_sent st) \<subseteq> set (ws_sent st') \<and> pending_is_empty (ws_pending st') \<and>
    named_wf ext (ws_pending st') \<and> parents_wf (ws_pending st') \<and> through_wf ext cfg (ws_pending st') \<and>
    (\<forall>d. still_held ext (ws_pending st) d \<longrightarrow> paid ext cfg clients (ws_sent st') d)"
proof (cases "pending_is_empty (ws_pending st)")
  case True
  then show ?thesis using flush wf pending_empty_waits by (auto simp: flush_pending_def)
next
  case False
  let ?p = "ws_pending st" and ?cut = "(ws_pending st)\<lparr>pe_through := []\<rparr>"
  from False flush have "\<exists>p. resolve_entries de cfg client (pe_through ?p) ?cut = Inr p \<and>
      and_then (flush_tables de cfg client (ws_txn_version st) (pending_tables p) (st\<lparr>ws_pending := p\<rparr>))
        (\<lambda>st. (None, st\<lparr>ws_pending := clear_seen (ws_pending st)\<rparr>)) = (None, st')"
    by (simp add: flush_pending_def resolve_through_def take_through_def or_end_None_iff)
  then obtain p mid where
    resolved: "resolve_entries de cfg client (pe_through ?p) ?cut = Inr p"
    and tables: "flush_tables de cfg client (ws_txn_version st) (pending_tables p) (st\<lparr>ws_pending := p\<rparr>) = (None, mid)"
    and st': "st' = mid\<lparr>ws_pending := clear_seen (ws_pending mid)\<rparr>"
    unfolding and_then_None_iff by blast
  have "named_wf ext ?cut" using wf(1) by (simp add: named_wf_def key_held_def)
  note named = resolve_entries_ok [OF this ext resolved]
  have same: "pe_parents p = pe_parents ?p" "pe_through p = []" using named by simp_all
  have "parents_wf p" using wf(2) same by (simp add: parents_wf_def)
  note flushed = flush_tables_ok [OF tables ext client, simplified, OF this [unfolded parents_wf_def]]
  have empty: "pending_is_empty (ws_pending mid)" using flushed pending_take_all [OF same(2)] by simp
  have keys: "key_paid ext cfg clients (ws_sent mid) tab k" if held: "key_held ext p tab k" for tab k
  proof -
    from held obtain k' where k': "k' \<in> set (entry_list (pe_named p) tab)" "key_lookup ext k' = key_lookup ext k"
      by (auto simp: key_held_def)
    then have "key_paid ext cfg clients (ws_sent mid) tab k'" using flushed entry_list_tables by blast
    with k'(2) show ?thesis by (simp add: key_paid_def)
  qed
  have "paid ext cfg clients (ws_sent mid) d" if held: "still_held ext ?p d" for d
  proof (cases d)
    case (SendParent tab r)
    then have "r \<in> set (entry_list (pe_parents p) tab)" using held same(1) by simp
    then show ?thesis unfolding SendParent paid.simps using flushed entry_list_tables by blast
  next
    case (ReadParent tab k)
    then have "key_held ext ?cut tab k" using held by (simp add: key_held_def)
    then show ?thesis using named keys ReadParent by auto
  next
    case (AskJunction tab field k)
    then obtain k' where k': "k' \<in> set (entry_list (pe_through ?p) (tab, field))" "key_lookup ext k' = key_lookup ext k"
      using held by auto
    from entry_list_mem [OF k'(1)] obtain child_keys where entry: "((tab, field), child_keys) \<in> set (pe_through ?p)" "k' \<in> set child_keys"
      by blast
    have "spec_for cfg tab field \<noteq> None" using wf(3) k'(1) unfolding through_wf_def by (metis empty_iff empty_set)
    then obtain spec where spec: "spec_for cfg tab field = Some spec" by blast
    with named entry(1) obtain keys where "parents_through ext client spec child_keys = Inr keys" "\<forall>k \<in> set keys. key_held ext p tab k"
      by blast
    then show ?thesis unfolding AskJunction paid.simps using client spec entry(2) k'(2) keys by blast
  qed (use held in auto)
  then show ?thesis using flushed empty cleared_wf [OF empty] st' by auto
qed

subsubsection \<open>The loop\<close>

definition classified_ok :: "wal_config \<Rightarrow> classified \<Rightarrow> bool" where
  "classified_ok cfg c \<longleftrightarrow> (case c of
       CParentRow tab change \<Rightarrow> needs_admin cfg \<and> row_table change = tab
     | CNamesParent _ _ \<Rightarrow> needs_admin cfg
     | CNamesThrough tab field _ \<Rightarrow> needs_admin cfg \<and> spec_for cfg tab field \<noteq> None
     | _ \<Rightarrow> True)"

lemma build_row_change_table: "build_row_change conv rel inc keys ao = Inr change \<Longrightarrow> row_table change = (rl_schema rel, rl_name rel)"
  by (auto simp: build_row_change_def row_table_def Let_def map_sum_def split: sum.splits)

lemma classify_row_ok:
  assumes "classify_row cfg conv ts rel inc = Inr c"
  shows "classified_ok cfg c"
proof (cases "map_of (wc_child_parents cfg) (rl_schema rel, rl_name rel)")
  case None
  then show ?thesis using assms build_row_change_table
    by (fastforce simp: classify_row_def Let_def bindr_Inr_iff classified_ok_def needs_admin_def split: if_splits)
next
  case (Some parent)
  then have admin: "needs_admin cfg" by (auto simp: needs_admin_def)
  show ?thesis
  proof (cases "List.find (\<lambda>s. child_reads s (rl_schema rel) (rl_name rel)) (unwrap_or [] (map_of (wc_children cfg) parent))")
    case None
    then show ?thesis using assms Some admin
      by (auto simp: classify_row_def Let_def names_aggregate_parent_def bindr_Inr_iff classified_ok_def)
  next
    case found: (Some cspec)
    then have "cspec \<in> set (unwrap_or [] (map_of (wc_children cfg) parent))" by (auto simp: find_Some_iff)
    then have "spec_for cfg parent (cs_field cspec) \<noteq> None" by (auto simp: spec_for_def find_None_iff)
    then show ?thesis using assms Some found admin
      by (auto simp: classify_row_def Let_def names_child_parent_def bindr_Inr_iff classified_ok_def split: if_splits option.splits)
  qed
qed

lemma classify_ok:
  assumes "classify cfg conv ts msg st = (Inr c, st')"
  shows "classified_ok cfg c \<and> ws_sent st' = ws_sent st \<and> ws_pending st' = ws_pending st"
  using assms classify_row_ok
  by (auto simp: classify_def classified_ok_def [of cfg CSkip] split: option.splits prod.splits if_splits)

definition debt_ok :: "externs \<Rightarrow> wal_config \<Rightarrow> pg_client set \<Rightarrow> debt list \<Rightarrow> wal_stream \<Rightarrow> bool" where
  "debt_ok ext cfg clients D st \<longleftrightarrow>
     named_wf ext (ws_pending st) \<and> parents_wf (ws_pending st) \<and> through_wf ext cfg (ws_pending st) \<and>
     (\<not> needs_admin cfg \<longrightarrow> pending_is_empty (ws_pending st)) \<and>
     (\<forall>d \<in> set D. paid ext cfg clients (ws_sent st) d \<or> still_held ext (ws_pending st) d)"

lemma debt_ok_more:
  "debt_ok ext cfg clients D st \<Longrightarrow> set (ws_sent st) \<subseteq> set (ws_sent st') \<Longrightarrow> ws_pending st' = ws_pending st \<Longrightarrow>
   debt_ok ext cfg clients D st'"
  unfolding debt_ok_def using paid_mono by metis

lemma debt_ok_cong [simp]:
  "debt_ok ext cfg clients D (st\<lparr>ws_relations := r\<rparr>) = debt_ok ext cfg clients D st"
  "debt_ok ext cfg clients D (st\<lparr>ws_applied := ap\<rparr>) = debt_ok ext cfg clients D st"
  "debt_ok ext cfg clients D (st\<lparr>ws_in_transaction := b, ws_txn_version := v\<rparr>) = debt_ok ext cfg clients D st"
  by (simp_all add: debt_ok_def)

lemma debt_ok_push: "debt_ok ext cfg clients D st \<Longrightarrow> debt_ok ext cfg clients D (push_event ev st)"
  by (rule debt_ok_more) auto

lemma debt_ok_flush:
  assumes "debt_ok ext cfg clients D st" "flush_pending de cfg client st = (None, st')" "de_ext de = ext" "client \<in> clients"
  shows "debt_ok ext cfg clients D st' \<and> pending_is_empty (ws_pending st') \<and> (\<forall>d \<in> set D. paid ext cfg clients (ws_sent st') d)"
  using assms(1) flush_pending_ok [OF assms(2-4)] paid_mono unfolding debt_ok_def by meson

lemma waiting_kept:
  "still_held ext p d \<Longrightarrow> still_held ext (hold_parent tab change p) d"
  "still_held ext p d \<Longrightarrow> still_held ext (name_through ext tab field k p) d"
  by (cases d; auto simp: hold_parent_def name_through_def Let_def key_held_def entry_list_push)+

lemma waiting_named:
  assumes "named_wf ext p" "still_held ext p d"
  shows "still_held ext (fold (name_parent ext tab) keys p) d"
  using assms name_keys [OF assms(1), of tab keys] by (cases d) auto

lemma through_wf_name:
  assumes wf: "through_wf ext cfg p" and spec: "spec_for cfg tab field \<noteq> None"
  shows "through_wf ext cfg (name_through ext tab field k p)"
  unfolding through_wf_def
proof (intro conjI allI impI)
  fix t f k' assume seen: "(t, f, key_lookup ext k') \<in> pe_seen_through (name_through ext tab field k p)"
  show "still_held ext (name_through ext tab field k p) (AskJunction t f k')"
  proof (cases "(t, f, key_lookup ext k') \<in> pe_seen_through p")
    case True
    then have "still_held ext p (AskJunction t f k')" using wf by (simp add: through_wf_def)
    then show ?thesis by (rule waiting_kept)
  next
    case False
    then show ?thesis using seen by (auto simp: name_through_def Let_def entry_list_push split: if_splits)
  qed
next
  fix t f assume "entry_list (pe_through (name_through ext tab field k p)) (t, f) \<noteq> []"
  then show "spec_for cfg t f \<noteq> None"
    using wf spec by (auto simp: through_wf_def name_through_def Let_def entry_list_push split: if_splits)
qed

lemma debt_ok_wait:
  assumes "debt_ok ext cfg clients D st" "needs_admin cfg"
    "named_wf ext p" "parents_wf p" "through_wf ext cfg p"
    "\<And>d. still_held ext (ws_pending st) d \<Longrightarrow> still_held ext p d" "\<And>d. d \<in> set news \<Longrightarrow> still_held ext p d"
  shows "debt_ok ext cfg clients (D @ news) (st\<lparr>ws_pending := p\<rparr>)"
  using assms by (auto simp: debt_ok_def)

lemma debt_ok_take:
  assumes debt: "debt_ok ext cfg clients D st" and c: "classified_ok cfg c" and taken: "take_classified ext c st = (None, st')"
  shows "debt_ok ext cfg clients (D @ debts_of c) st'"
proof (cases c)
  case (CRow change)
  let ?row = "Row (change\<lparr>rc_version := ws_txn_version st\<rparr>)"
  have st': "st' = push_event ?row st" using taken CRow by (simp add: take_classified_def tx_send_None_iff push_event_def)
  then have "paid ext cfg clients (ws_sent st') (SendRow change)" by auto
  then show ?thesis using debt_ok_more [OF debt, of st'] st' CRow by (auto simp: debt_ok_def)
next
  case (CParentRow tab change)
  have st': "st' = st\<lparr>ws_pending := hold_parent tab change (ws_pending st)\<rparr>" using taken CParentRow by (simp add: take_classified_def)
  show ?thesis unfolding st' using debt c CParentRow
    by (intro debt_ok_wait [OF debt _ _ _ _ waiting_kept(1)])
       (auto simp: debt_ok_def classified_ok_def hold_parent_def named_wf_def key_held_def parents_wf_def through_wf_def entry_list_push)
next
  case (CNamesParent tab keys)
  have wf: "named_wf ext (ws_pending st)" using debt by (simp add: debt_ok_def)
  note named = name_keys [OF wf, of tab keys]
  have st': "st' = st\<lparr>ws_pending := fold (name_parent ext tab) keys (ws_pending st)\<rparr>" using taken CNamesParent by (simp add: take_classified_def)
  have seen: "pe_seen_through (fold (name_parent ext tab) keys p) = pe_seen_through p" for p
    by (induction keys arbitrary: p) simp_all
  show ?thesis unfolding st' using debt c CNamesParent named
    by (intro debt_ok_wait [OF debt _ _ _ _ waiting_named [OF wf]]) (auto simp: debt_ok_def classified_ok_def parents_wf_def through_wf_def seen)
next
  case (CNamesThrough tab field k)
  have st': "st' = st\<lparr>ws_pending := name_through ext tab field k (ws_pending st)\<rparr>" using taken CNamesThrough by (simp add: take_classified_def)
  show ?thesis unfolding st' using debt c CNamesThrough
    by (intro debt_ok_wait [OF debt _ _ _ through_wf_name waiting_kept(2)])
       (auto simp: debt_ok_def classified_ok_def through_wf_def, auto simp: name_through_def Let_def named_wf_def key_held_def parents_wf_def entry_list_push)
qed (use debt taken in \<open>simp add: take_classified_def\<close>)

text \<open>The debts an arrival brings, and those of a run.\<close>

definition event_debts :: "decoding \<Rightarrow> wal_config \<Rightarrow> wal_env \<Rightarrow> repl_event \<Rightarrow> wal_stream \<Rightarrow> debt list" where
  "event_debts de cfg env ev st =
     (case ev of
        EvXLogData data \<Rightarrow>
          (case pg_parse data of
             Inl _ \<Rightarrow> []
           | Inr msg \<Rightarrow> (case fst (classify cfg (de_conv de) (we_tables env) msg st) of Inl _ \<Rightarrow> [] | Inr c \<Rightarrow> debts_of c))
      | _ \<Rightarrow> [])"

fun loop_debts :: "decoding \<Rightarrow> wal_config \<Rightarrow> (wal_env \<times> arrival) list \<Rightarrow> wal_stream \<Rightarrow> debt list" where
  "loop_debts de cfg ((env, Received ev) # rest) st =
     event_debts de cfg env ev st @
     (case stream_event de cfg env ev st of (None, st) \<Rightarrow> loop_debts de cfg rest st | _ \<Rightarrow> [])"
| "loop_debts de cfg _ st = []"

lemma debt_ok_send: "debt_ok ext cfg clients D st \<Longrightarrow> tx_send ev st = (None, st') \<Longrightarrow> debt_ok ext cfg clients D st'"
  by (simp add: tx_send_None_iff debt_ok_push)

lemma debt_ok_truncate:
  "debt_ok ext cfg clients D st \<Longrightarrow> truncate_relations ids st = (None, st') \<Longrightarrow> debt_ok ext cfg clients D st'"
  by (induction ids arbitrary: st) (auto simp: and_then_None_iff split: option.splits dest: debt_ok_send)

lemma debt_ok_observe:
  "debt_ok ext cfg clients D st \<Longrightarrow> observe_relation rel st = (None, st') \<Longrightarrow> debt_ok ext cfg clients D st'"
  by (auto simp: observe_relation_def and_then_None_iff split: option.splits dest: debt_ok_send)

lemma debt_ok_row:
  assumes "debt_ok ext cfg clients D st" "take_row de cfg env msg st = (None, st')" "de_ext de = ext" "we_client env \<in> clients"
  shows "\<exists>c. fst (classify cfg (de_conv de) (we_tables env) msg st) = Inr c \<and> debt_ok ext cfg clients (D @ debts_of c) st'"
proof -
  obtain r mid where cl: "classify cfg (de_conv de) (we_tables env) msg st = (r, mid)" by (metis prod.exhaust)
  with assms(2,3) obtain c taken where c: "r = Inr c" and taken: "take_classified ext c mid = (None, taken)"
    and rest: "(if pending_len (ws_pending taken) \<ge> PENDING_FLUSH_ROWS \<and> needs_admin cfg
          then flush_pending de cfg (we_client env) taken else (None, taken)) = (None, st')"
    by (auto simp: take_row_def or_end_None_iff and_then_None_iff)
  note ok = classify_ok [OF cl [unfolded c]]
  have "debt_ok ext cfg clients D mid" using ok by (intro debt_ok_more [OF assms(1)]) simp_all
  then have "debt_ok ext cfg clients (D @ debts_of c) taken" using ok taken by (intro debt_ok_take) auto
  then have "debt_ok ext cfg clients (D @ debts_of c) st'"
    using rest assms(3,4) debt_ok_flush by (auto split: if_splits)
  with cl c show ?thesis by auto
qed

lemma debt_ok_commit:
  assumes "debt_ok ext cfg clients D st" "take_commit de cfg env l ts st = (None, st')" "de_ext de = ext" "we_client env \<in> clients"
  shows "\<exists>sent. ws_sent st' = sent @ [Transaction (Commit (Lsn l) ts)] \<and> pending_is_empty (ws_pending st') \<and>
    (\<forall>d \<in> set D. paid ext cfg clients sent d) \<and> debt_ok ext cfg clients D st'"
proof -
  from assms(2) obtain mid where
    mid: "(if needs_admin cfg then flush_pending de cfg (we_client env) st else (None, st)) = (None, mid)"
    and sent: "tx_send (Transaction (Commit (Lsn l) ts)) (mid\<lparr>ws_in_transaction := False, ws_txn_version := None\<rparr>) = (None, st')"
    by (auto simp: take_commit_def and_then_None_iff)
  have "debt_ok ext cfg clients D mid \<and> pending_is_empty (ws_pending mid) \<and> (\<forall>d \<in> set D. paid ext cfg clients (ws_sent mid) d)"
  proof (cases "needs_admin cfg")
    case True
    then show ?thesis using mid debt_ok_flush [OF assms(1) _ assms(3,4), of mid] by simp
  next
    case False
    then have "mid = st" "pending_is_empty (ws_pending st)" using mid assms(1) by (simp_all add: debt_ok_def)
    then show ?thesis using assms(1) pending_empty_waits [of "ws_pending st" ext] by (auto simp: debt_ok_def)
  qed
  then have paid: "debt_ok ext cfg clients D mid" "pending_is_empty (ws_pending mid)" "\<forall>d \<in> set D. paid ext cfg clients (ws_sent mid) d"
    by blast+
  have "debt_ok ext cfg clients D (mid\<lparr>ws_in_transaction := False, ws_txn_version := None\<rparr>)"
    using paid(1) by simp
  then have "debt_ok ext cfg clients D st'" using sent by (rule debt_ok_send)
  then show ?thesis using sent paid by (intro exI [of _ "ws_sent mid"]) (auto simp: tx_send_None_iff)
qed

lemma debt_ok_event:
  assumes debt: "debt_ok ext cfg clients D st" and ev: "stream_event de cfg env ev st = (None, st')"
    and ext: "de_ext de = ext" and client: "we_client env \<in> clients"
  shows "debt_ok ext cfg clients (D @ event_debts de cfg env ev st) st'"
proof (cases ev)
  case (EvBegin l)
  have "debt_ok ext cfg clients D (st\<lparr>ws_in_transaction := True, ws_txn_version := Some l\<rparr>)"
    using debt by simp
  from debt_ok_send [OF this, of "Transaction (Begin (Lsn l))" st'] show ?thesis
    using ev EvBegin by (simp add: stream_event_def event_debts_def)
next
  case (EvCommit l ts)
  then show ?thesis using ev debt_ok_commit [OF debt _ ext client] by (auto simp: stream_event_def event_debts_def)
next
  case (EvXLogData data)
  then obtain msg where msg: "pg_parse data = Inr msg"
    using ev by (auto simp: stream_event_def take_data_def or_end_None_iff)
  show ?thesis
  proof (cases "incoming_of msg")
    case None
    then have "event_debts de cfg env ev st = []" using EvXLogData msg by (simp add: event_debts_def classify_def)
    moreover have "debt_ok ext cfg clients D st'"
      using None ev EvXLogData msg debt debt_ok_observe [OF debt, of _ st'] debt_ok_truncate [OF debt, of _ st']
      by (cases msg) (simp_all add: stream_event_def take_data_def)
    ultimately show ?thesis by simp
  next
    case (Some inc)
    then have "take_row de cfg env msg st = (None, st')"
      using ev EvXLogData msg by (cases msg) (simp_all add: stream_event_def take_data_def)
    from debt_ok_row [OF debt this ext client] EvXLogData msg show ?thesis by (auto simp: event_debts_def)
  qed
next
  case (EvKeepAlive l)
  then show ?thesis using ev debt
    by (auto simp: stream_event_def take_keepalive_def event_debts_def and_then_None_iff split: if_splits
             dest: debt_ok_send)
qed (use ev debt debt_ok_send in \<open>auto simp: stream_event_def event_debts_def split: if_splits\<close>)

lemma debt_ok_loop:
  assumes "debt_ok ext cfg clients D st" "stream_loop de cfg arrivals st = (None, st')" "de_ext de = ext"
    "we_client ` fst ` set arrivals \<subseteq> clients"
  shows "debt_ok ext cfg clients (D @ loop_debts de cfg arrivals st) st'"
  using assms
proof (induction arrivals arbitrary: D st)
  case (Cons arrival arrivals)
  obtain env a where arrival: "arrival = (env, a)" by (cases arrival)
  with Cons.prems(2) obtain ev mid where a: "a = Received ev" and mid: "stream_event de cfg env ev st = (None, mid)"
      "stream_loop de cfg arrivals mid = (None, st')"
    by (cases a) (auto split: prod.splits option.splits)
  have "debt_ok ext cfg clients (D @ event_debts de cfg env ev st) mid"
    using Cons.prems arrival by (intro debt_ok_event [OF Cons.prems(1) mid(1)]) auto
  from Cons.IH [OF this mid(2) Cons.prems(3)] Cons.prems(4) mid(1) arrival a show ?case by simp
qed simp

lemma stream_loop_append:
  "stream_loop de cfg (xs @ ys) st = (case stream_loop de cfg xs st of (None, st) \<Rightarrow> stream_loop de cfg ys st | r \<Rightarrow> r)"
  by (induction xs arbitrary: st) (auto split: prod.splits option.splits arrival.splits)


subsection \<open>Runs\<close>

text \<open>Orders with their items: a table of parents and the child table whose rows name them.\<close>

definition column :: "string \<Rightarrow> relation_column" where
  "column name = \<lparr>rc_name = name, rc_type_oid = 25, rc_typmod = -1, rc_in_identity = True\<rparr>"

definition items_spec :: child_spec where
  "items_spec = \<lparr>cs_schema = ''public'', cs_table = ''items'', cs_field = ''items'', cs_foreign_key = ''order_id'',
     cs_parent_column = ''id'', cs_order_by = [], cs_max_rows = None, cs_columns = None, cs_exclude_columns = [],
     cs_single = False, cs_through = None\<rparr>"

abbreviation orders :: table where "orders \<equiv> (''public'', ''orders'')"
abbreviation items :: table where "items \<equiv> (''public'', ''items'')"

definition orders_config :: wal_config where
  "orders_config = \<lparr>wc_publication = ''pub'', wc_children = [(orders, [items_spec])], wc_aggregates = [],
     wc_child_parents = [(items, orders)], wc_parent_pk_columns = []\<rparr>"

definition orders_env :: wal_env where
  "orders_env = \<lparr>we_tables = ts_add ''public'' ''orders'' [''id''] False ts_default, we_durable = Some 3,
     we_client = \<lparr>pc_collections = (\<lambda>_ _. Inr []), pc_counts = (\<lambda>_ _. Inr []),
       pc_documents = (\<lambda>_ _. Inr [(plain_text (JString ''7''), JObject [(''id'', JString ''7'')])]), pc_keys = (\<lambda>_ _. Inr [])\<rparr>\<rparr>"

definition sample_decoding :: decoding where
  "sample_decoding = \<lparr>de_ext = sample_externs, de_fshow = (\<lambda>_. []), de_conv = sample_converter\<rparr>"

definition items_relation :: relation where
  "items_relation = \<lparr>rl_rel_id = 2, rl_schema = ''public'', rl_name = ''items'', rl_identity = IdentityFull,
     rl_columns = [column ''id'', column ''order_id'']\<rparr>"

definition orders_relation :: relation where
  "orders_relation = \<lparr>rl_rel_id = 3, rl_schema = ''public'', rl_name = ''orders'', rl_identity = IdentityFull,
     rl_columns = [column ''id'']\<rparr>"

definition data :: "message \<Rightarrow> wal_env \<times> arrival" where
  "data msg = (orders_env, Received (EvXLogData (encode_message msg)))"

lemma parse_relations:
  "pg_parse (encode_message (MRelation items_relation)) = Inr (MRelation items_relation)"
  "pg_parse (encode_message (MRelation orders_relation)) = Inr (MRelation orders_relation)"
  by (rule pg_parse_relation, simp add: relation_ok_def items_relation_def orders_relation_def pg_column_ok_def column_def
        name_ok_def signed_ok_def from_utf8_lossy_ascii)+

lemma parse_rows:
  "pg_parse (encode_message (MInsert 2 [TText ''1'', TText ''7''])) = Inr (MInsert 2 [TText ''1'', TText ''7''])"
  "pg_parse (encode_message (MUpdate 2 (Some (OldFull [TText ''1'', TText ''7''])) [TText ''1'', TText ''8'']))
     = Inr (MUpdate 2 (Some (OldFull [TText ''1'', TText ''7''])) [TText ''1'', TText ''8''])"
  "pg_parse (encode_message (MInsert 3 [TText ''7''])) = Inr (MInsert 3 [TText ''7''])"
  "pg_parse (encode_message (MTruncate (CHR 0x00) [3])) = Inr (MTruncate (CHR 0x00) [3])"
  by (rule pg_parse_insert pg_parse_update pg_parse_truncate, simp add: tuple_ok_def)+

lemma data_event:
  assumes "pg_parse (encode_message m) = Inr m"
  shows "stream_event de cfg env (EvXLogData (encode_message m)) st =
    (case m of
       MRelation rel \<Rightarrow> observe_relation rel st
     | MTruncate _ rel_ids \<Rightarrow> truncate_relations rel_ids st
     | MInsert _ _ \<Rightarrow> take_row de cfg env m st
     | MUpdate _ _ _ \<Rightarrow> take_row de cfg env m st
     | MDelete _ _ \<Rightarrow> take_row de cfg env m st
     | _ \<Rightarrow> (None, st))"
  using assms by (simp add: stream_event_def take_data_def)

declare encode_message.simps [simp del]

lemma relation_simps [simp]:
  "rl_rel_id items_relation = 2" "rl_schema items_relation = ''public''" "rl_name items_relation = ''items''"
  "rl_columns items_relation = [column ''id'', column ''order_id'']" "rl_identity items_relation = IdentityFull"
  "rl_rel_id orders_relation = 3" "rl_schema orders_relation = ''public''" "rl_name orders_relation = ''orders''"
  "rl_columns orders_relation = [column ''id'']" "rl_identity orders_relation = IdentityFull"
  "rc_name (column name) = name" "rc_type_oid (column name) = 25"
  by (simp_all add: items_relation_def orders_relation_def column_def)

lemma boundary_event:
  "stream_event de cfg env (EvBegin l) st =
     tx_send (Transaction (Begin (Lsn l))) (st\<lparr>ws_in_transaction := True, ws_txn_version := Some l\<rparr>)"
  "stream_event de cfg env (EvCommit l ts) st = take_commit de cfg env l ts st"
  by (simp_all add: stream_event_def)

lemmas run_defs = stream_def data_def data_event [OF parse_relations(1)] data_event [OF parse_relations(2)]
  data_event [OF parse_rows(1)] data_event [OF parse_rows(2)] data_event [OF parse_rows(3)] data_event [OF parse_rows(4)]
  observe_relation_def take_row_def take_classified_def classify_def classify_row_def names_child_parent_def
  index_of_def column_index_def column_at_def convert_column_at_def convert_column_def through_child_def child_reads_def
  tuple_get_def tx_send_def push_event_def stream_start_def needs_admin_def is_configured_def PENDING_FLUSH_ROWS_def
  pending_default_def name_parent_def hold_parent_def pending_len_def key_lookup_def ok_or_def
  orders_config_def orders_env_def items_spec_def boundary_event
  sample_decoding_def sample_converter_def sample_externs_def

lemmas flush_defs = take_commit_def flush_pending_def resolve_through_def take_through_def pending_is_empty_def
  pending_tables_def pending_take_def entry_list_def entry_remove_def resolve_table_def keys_needing_refetch_def
  refetch_parents_def refetched_rows_def docs_of_def row_doc_def attach_children_batch_def attach_aggregates_batch_def
  fetch_many_def attach_collection_def collect_rows_def clear_seen_def map_filter_simps rc_pk_def

abbreviation item_arrivals :: "(wal_env \<times> arrival) list" where
  "item_arrivals \<equiv> [(orders_env, Received (EvBegin 5)), data (MRelation items_relation), data (MInsert 2 [TText ''1'', TText ''7''])]"

lemma item_run: "\<exists>st. stream sample_decoding orders_config True 9 (item_arrivals @ [(orders_env, Received (EvCommit 6 0))]) = (None, st)"
  by (simp add: run_defs flush_defs)

lemma item_debts: "loop_debts sample_decoding orders_config item_arrivals (stream_start 9) = [ReadParent orders (JString ''7'')]"
  by (simp add: run_defs event_debts_def parse_relations parse_rows)


text \<open>A child row whose foreign key moves names the parent it joined and not the one it left, although
  the old tuple carries it: the array of the parent it left keeps the row.\<close>

lemma moved_child_names_new_parent_only:
  "fst (classify orders_config sample_converter ts (MUpdate 2 (Some (OldFull [TText ''1'', TText ''7''])) [TText ''1'', TText ''8''])
     ((stream_start 9)\<lparr>ws_relations := [2 \<mapsto> items_relation]\<rparr>)) = Inr (CNamesParent orders [JString ''8''])"
  by (simp add: run_defs)

text \<open>A row of a table with children is held until the commit while a truncate goes out at once: a row
  inserted and truncated away in one transaction is sent after the truncate, at the same version,
  and stays in the target.\<close>

lemma held_row_outlives_truncate:
  "\<exists>st doc. stream sample_decoding orders_config True 9
      [(orders_env, Received (EvBegin 5)), data (MRelation orders_relation), data (MInsert 3 [TText ''7'']),
       data (MTruncate (CHR 0x00) [3]), (orders_env, Received (EvCommit 6 0))] = (None, st) \<and>
    ws_sent st = [Transaction (Begin (Lsn 5)), TableTruncated ''public'' ''orders'' (Some 5),
      Row \<lparr>rc_schema = ''public'', rc_table = ''orders'', rc_kind = Insert (JString ''7'') doc, rc_version = Some 5\<rparr>,
      Transaction (Commit (Lsn 6) 0)]"
  by (simp add: run_defs flush_defs build_row_change_def insert_kind_def extract_pk_def is_key_def build_doc_def
        bt_extend_def ts_add_def ts_default_def Let_def)

end
