(* ===== verification/My_Types.thy ===== *)
theory My_Types
  imports Rust_Bytes Json_Value
begin

section \<open>What a MySQL column's value is (\<open>crates/source-mysql/src/typemap.rs\<close>)\<close>

text \<open>
  The shape of a column, read off its declared type, and the reading of a value of the text
  protocol, which the initial load uses. The labels of an enumeration or set come out of the
  declaration. Base64 is an argument, and the JSON parser is the \<open>value_from_str\<close> of \<open>externs\<close>.
\<close>

datatype value_shape =
    ShapeInt
  | ShapeFloat
  | ShapeDecimal
  | ShapeText
  | ShapeBytes
  | ShapeBits
  | ShapeJson
  | ShapeEnum "string list"
  | ShapeSet "string list"

text \<open>The scan of the labels: outside a label, and inside one with what it holds so far.\<close>

definition SQUOTE :: char where "SQUOTE = CHR 0x27"

fun scan_labels :: "string option \<Rightarrow> string list \<Rightarrow> string \<Rightarrow> string list" where
  "scan_labels None out [] = out"
| "scan_labels (Some label) out [] = out @ [label]"
| "scan_labels None out (c # cs) = scan_labels (if c = SQUOTE then Some [] else None) out cs"
| "scan_labels (Some label) out (c # cs) =
     (if c \<noteq> SQUOTE then scan_labels (Some (label @ [c])) out cs
      else case cs of
        c' # cs' \<Rightarrow> if c' = SQUOTE then scan_labels (Some (label @ [SQUOTE])) out cs' else scan_labels None (out @ [label]) cs
      | [] \<Rightarrow> scan_labels None (out @ [label]) cs)"

definition trim_end_char :: "char \<Rightarrow> string \<Rightarrow> string" where
  "trim_end_char c s = rev (dropWhile (\<lambda>d. d = c) (rev s))"

definition labels :: "string \<Rightarrow> string list" where
  "labels column_type =
     (case split_once (CHR ''('') column_type of
        None \<Rightarrow> []
      | Some (_, inner) \<Rightarrow> scan_labels None [] (trim_end_char (CHR '')'') inner))"

definition shape_of :: "string \<Rightarrow> string \<Rightarrow> value_shape" where
  "shape_of data_type column_type =
     (if data_type \<in> {''tinyint'', ''smallint'', ''mediumint'', ''int'', ''integer'', ''bigint'', ''year''} then ShapeInt
      else if data_type \<in> {''float'', ''double''} then ShapeFloat
      else if data_type \<in> {''decimal'', ''numeric''} then ShapeDecimal
      else if data_type = ''json'' then ShapeJson
      else if data_type = ''bit'' then ShapeBits
      else if data_type = ''enum'' then ShapeEnum (labels column_type)
      else if data_type = ''set'' then ShapeSet (labels column_type)
      else if data_type \<in> {''binary'', ''varbinary'', ''tinyblob'', ''blob'', ''mediumblob'', ''longblob'', ''geometry'', ''point'',
        ''linestring'', ''polygon'', ''multipoint'', ''multilinestring'', ''multipolygon'', ''geomcollection'', ''geometrycollection''}
      then ShapeBytes
      else ShapeText)"

text \<open>The accumulator is a \<open>u64\<close>: eight bytes never overflow it.\<close>

definition be_uint :: "bytes \<Rightarrow> nat" where
  "be_uint bs = be_value (take 8 bs)"

definition my_convert :: "externs \<Rightarrow> (bytes \<Rightarrow> string) \<Rightarrow> value_shape \<Rightarrow> bytes option \<Rightarrow> json" where
  "my_convert ext base64 shape raw =
     (case raw of
        None \<Rightarrow> JNull
      | Some raw \<Rightarrow>
          (let txt = from_utf8_lossy raw in
           case shape of
             ShapeInt \<Rightarrow> (case parse_i64 txt of Some n \<Rightarrow> JNumber (NInt n) | None \<Rightarrow> JString txt)
           | ShapeFloat \<Rightarrow>
               (case Option.bind (parse_f64 txt) (\<lambda>f. if f64_is_finite f then Some (JNumber (NFloat f)) else None) of
                  Some v \<Rightarrow> v | None \<Rightarrow> JString txt)
           | ShapeJson \<Rightarrow> (if utf8_valid raw then unwrap_or (JString txt) (value_from_str ext raw) else JString txt)
           | ShapeBytes \<Rightarrow> JString (base64 raw)
           | ShapeBits \<Rightarrow> JNumber (NInt (int (be_uint raw)))
           | ShapeEnum _ \<Rightarrow> JString txt
           | ShapeSet _ \<Rightarrow> JArray (map JString (filter (\<lambda>s. s \<noteq> []) (split_char (CHR '','') txt)))
           | ShapeDecimal \<Rightarrow> JString txt
           | ShapeText \<Rightarrow> JString txt))"

definition enum_label :: "string list \<Rightarrow> nat \<Rightarrow> json" where
  "enum_label names ordinal =
     (if 0 < ordinal \<and> ordinal - 1 < length names then JString (names ! (ordinal - 1)) else JString [])"

definition set_labels :: "string list \<Rightarrow> nat \<Rightarrow> json" where
  "set_labels names bits =
     JArray (map (\<lambda>(_, label). JString label) (filter (\<lambda>(i, _). i < 64 \<and> bit bits i) (enumerate 0 names)))"

subsection \<open>The declared labels\<close>

text \<open>How the server prints a declaration: each label between quotes, a quote inside one doubled.\<close>

definition quote_label :: "string \<Rightarrow> string" where
  "quote_label label = [SQUOTE] @ concat (map (\<lambda>c. if c = SQUOTE then [SQUOTE, SQUOTE] else [c]) label) @ [SQUOTE]"

lemma scan_label:
  "rest = [] \<or> hd rest \<noteq> SQUOTE \<Longrightarrow>
   scan_labels (Some acc) out (concat (map (\<lambda>c. if c = SQUOTE then [SQUOTE, SQUOTE] else [c]) label) @ SQUOTE # rest)
     = scan_labels None (out @ [acc @ label]) rest"
proof (induction label arbitrary: acc)
  case Nil
  then show ?case by (cases rest) auto
next
  case (Cons c label)
  then show ?case by (cases "c = SQUOTE") auto
qed

lemma scan_quoted_labels:
  "scan_labels None out (join '','' (map quote_label names)) = out @ names"
proof (induction names arbitrary: out rule: induct_list012)
  case (3 x y zs)
  have comma: "CHR '','' \<noteq> SQUOTE" by (simp add: SQUOTE_def)
  have "scan_labels None out (join '','' (map quote_label (x # y # zs))) =
      scan_labels (Some []) out (concat (map (\<lambda>c. if c = SQUOTE then [SQUOTE, SQUOTE] else [c]) x) @ SQUOTE # CHR '','' # join '','' (map quote_label (y # zs)))"
    by (simp add: quote_label_def [of x])
  also have "\<dots> = scan_labels None (out @ [x]) (CHR '','' # join '','' (map quote_label (y # zs)))"
    using scan_label [of "CHR '','' # join '','' (map quote_label (y # zs))" "[]" out x] comma by simp
  also have "\<dots> = out @ x # y # zs" using 3(2) [of "out @ [x]"] comma by simp
  finally show ?case .
qed (use scan_label [of "[]" "[]"] in \<open>simp_all add: quote_label_def\<close>)

text \<open>The labels of an enumeration or set are read off the declaration the server prints for them,
  whatever quotes, commas and parentheses they hold.\<close>

lemma labels_of_declaration:
  assumes "names \<noteq> []" "CHR ''('' \<notin> set kind"
  shows "labels (kind @ ''('' @ join '','' (map quote_label names) @ '')'') = names"
proof -
  let ?inner = "join '','' (map quote_label names)"
  have "last ?inner = SQUOTE \<and> ?inner \<noteq> []"
    using assms(1) by (induction names rule: induct_list012) (auto simp: quote_label_def)
  then obtain front where front: "?inner = front @ [SQUOTE]" by (metis append_butlast_last_id)
  have "trim_end_char (CHR '')'') (?inner @ '')'') = ?inner"
    unfolding front by (simp add: trim_end_char_def SQUOTE_def)
  moreover have "split_once (CHR ''('') (kind @ ''('' @ ?inner @ '')'') = Some (kind, ?inner @ '')'')"
    using assms(2) by (simp add: split_once_append)
  ultimately show ?thesis by (simp add: labels_def scan_quoted_labels)
qed

end
