(* ===== verification/My_Decimal.thy ===== *)
theory My_Decimal
  imports Rust_Bytes Json_Value
begin

section \<open>Binlog payloads and packed decimals (\<open>crates/source-mysql/src/binlog.rs\<close>)\<close>

text \<open>
  The reader over an event payload, as a function from the bytes not yet read to the value and
  the bytes left: the code keeps the whole payload and a position, and a failed read leaves it
  where it was. \<open>Panic\<close> stands for an index out of bounds, which is not a value of the code's error
  type. Below it, the packed form of a decimal number: nine digits in four bytes, the sign in the
  top bit, a negative number as the complement.
\<close>

datatype decode_error =
    Eof
  | UnknownTable nat
  | UnsupportedType nat string
  | UnknownType nat
  | Panic string

type_synonym 'a my_reading = "bytes \<Rightarrow> (decode_error, 'a \<times> bytes) result"

definition my_take :: "nat \<Rightarrow> bytes my_reading" where
  "my_take n b = (if length b < n then Inl Eof else Inr (take n b, drop n b))"

definition my_uint :: "nat \<Rightarrow> nat my_reading" where
  "my_uint n b = bindr (my_take n b) (\<lambda>(s, b). Inr (le_value s, b))"

definition lenenc :: "nat my_reading" where
  "lenenc b = bindr (my_uint 1 b) (\<lambda>(v, b).
     if v = 0xFB then Inr (0, b)
     else if v = 0xFC then my_uint 2 b
     else if v = 0xFD then my_uint 3 b
     else if v = 0xFE then my_uint 8 b
     else Inr (v, b))"

definition read_uint_n :: "nat \<Rightarrow> nat my_reading" where
  "read_uint_n n b = my_uint (min n 8) b"

definition pad_left :: "nat \<Rightarrow> string \<Rightarrow> string" where
  "pad_left width s = replicate (width - length s) (CHR ''0'') @ s"

definition dig2bytes :: "nat \<Rightarrow> nat" where
  "dig2bytes d = [0, 1, 1, 2, 2, 3, 3, 4, 4, 4] ! d"

definition group_value :: "nat \<Rightarrow> bytes \<Rightarrow> nat" where
  "group_value digits buf = be_value (take (dig2bytes digits) buf)"

fun full_groups :: "nat \<Rightarrow> bytes \<Rightarrow> string \<times> bytes" where
  "full_groups 0 buf = ([], buf)"
| "full_groups (Suc n) buf =
     (case full_groups n (drop (dig2bytes 9) buf) of
        (s, buf') \<Rightarrow> (pad_left 9 (show_nat (group_value 9 buf)) @ s, buf'))"

definition flip_byte :: "char \<Rightarrow> char" where
  "flip_byte b = char_of (255 - asc b)"

fun clear_sign :: "bytes \<Rightarrow> bytes" where
  "clear_sign [] = []"
| "clear_sign (b # bs) = char_of (asc b mod 128) # bs"

definition decimal_size :: "nat \<Rightarrow> nat \<Rightarrow> nat" where
  "decimal_size precision scale =
     (let intg = precision - scale
      in intg div 9 * 4 + dig2bytes (intg - intg div 9 * 9) + scale div 9 * 4 + dig2bytes (scale - scale div 9 * 9))"

text \<open>What the digits of the buffer, its sign bit cleared, print as.\<close>

definition decimal_digits_of :: "nat \<Rightarrow> nat \<Rightarrow> bytes \<Rightarrow> string \<times> string" where
  "decimal_digits_of precision scale buf =
     (let intg = precision - scale; intg0 = intg div 9; intg_first = intg - intg0 * 9;
          frac0 = scale div 9; frac_last = scale - frac0 * 9;
          first = (if 0 < intg_first then show_nat (group_value intg_first buf) else []);
          (ints, buf) = full_groups intg0 (if 0 < intg_first then drop (dig2bytes intg_first) buf else buf);
          (fracs, buf) = full_groups frac0 buf;
          frac_tail = (if 0 < frac_last then pad_left frac_last (show_nat (group_value frac_last buf)) else [])
      in (dropWhile (\<lambda>c. c = CHR ''0'') (first @ ints), take scale (fracs @ frac_tail)))"

definition print_decimal :: "nat \<Rightarrow> bool \<Rightarrow> string \<times> string \<Rightarrow> string" where
  "print_decimal scale positive digits =
     (let (int_digits, frac_digits) = digits;
          sign = (if positive \<or> (int_digits = [] \<and> frac_digits = []) then [] else ''-'');
          int_digits = (if int_digits = [] then ''0'' else int_digits)
      in if scale = 0 then sign @ int_digits
         else sign @ int_digits @ ''.'' @ (if frac_digits = [] then replicate scale (CHR ''0'') else frac_digits))"

definition decode_decimal :: "nat \<Rightarrow> nat \<Rightarrow> string my_reading" where
  "decode_decimal precision scale b =
     bindr (my_take (decimal_size precision scale) b) (\<lambda>(raw, b).
       if raw = [] then Inl (Panic ''index out of bounds'')
       else
         (let positive = 128 \<le> asc (hd raw);
              buf = clear_sign (if positive then raw else map flip_byte raw)
          in Inr (print_decimal scale positive (decimal_digits_of precision scale buf), b)))"

text \<open>Outside a row event the bytes left over do not matter.\<close>

definition decode_packed_decimal :: "bytes \<Rightarrow> nat \<Rightarrow> nat \<Rightarrow> (decode_error, string) result" where
  "decode_packed_decimal bs precision scale = bindr (decode_decimal precision scale bs) (\<lambda>(s, _). Inr s)"

subsection \<open>Readers\<close>

lemma my_take_append [simp]: "length xs = n \<Longrightarrow> my_take n (xs @ rest) = Inr (xs, rest)"
  by (simp add: my_take_def)

lemma my_uint_bytes [simp]: "v < 256 ^ n \<Longrightarrow> my_uint n (le_bytes n v @ rest) = Inr (v, rest)"
  by (simp add: my_uint_def le_value_bytes)

lemma my_uint_byte: "my_uint 1 (c # rest) = Inr (asc c, rest)"
  by (simp add: my_uint_def my_take_def le_value_def be_value_def)

subsection \<open>Digits\<close>

definition digits_text :: "nat list \<Rightarrow> string" where
  "digits_text ds = map digit_char ds"

lemma show_nat_digits_text: "show_nat n = digits_text (radix_digits 10 n)"
  by (simp add: show_nat_def show_radix_def digits_text_def)

lemma radix_value_replicate: "radix_value 10 (replicate n 0 @ ds) = radix_value 10 ds"
  by (induction n) (simp_all add: radix_value_def)

lemma radix_value_less: "(\<forall>d \<in> set ds. d < 10) \<Longrightarrow> radix_value 10 ds < 10 ^ length ds"
proof (induction ds rule: rev_induct)
  case (snoc d ds)
  then have "radix_value 10 ds + 1 \<le> 10 ^ length ds" "d < 10" by auto
  then have "radix_value 10 ds * 10 + d < 10 ^ length ds * 10" by linarith
  then show ?case by simp
qed (simp add: radix_value_def)

lemma padded_digits:
  assumes "ds \<noteq> []" "\<forall>d \<in> set ds. d < 10"
  shows "replicate (length ds - length (radix_digits 10 (radix_value 10 ds))) 0 @ radix_digits 10 (radix_value 10 ds) = ds"
  using assms
proof (induction ds rule: rev_induct)
  case (snoc d ds)
  let ?v = "radix_value 10 ds"
  have d: "d < 10" using snoc.prems by simp
  show ?case
  proof (cases "ds = []")
    case True
    then show ?thesis using d by (simp add: radix_value_def radix_digits.simps)
  next
    case False
    then have IH: "replicate (length ds - length (radix_digits 10 ?v)) 0 @ radix_digits 10 ?v = ds" using snoc by simp
    show ?thesis
    proof (cases "?v = 0")
      case True
      then have "radix_digits 10 (?v * 10 + d) = [d]" using d by (simp add: radix_digits.simps)
      moreover have "replicate (length ds) 0 = ds"
        using IH True False by (simp add: radix_digits.simps) (metis One_nat_def Suc_pred length_greater_0_conv replicate_Suc replicate_append_same)
      ultimately show ?thesis by simp
    next
      case nonzero: False
      then have "radix_digits 10 (?v * 10 + d) = radix_digits 10 ?v @ [d]" using d by (simp add: radix_digits.simps [of 10 "?v * 10 + d"])
      then show ?thesis using IH by (simp flip: append_assoc)
    qed
  qed
qed simp

lemma digit_char_0: "digit_char 0 = CHR ''0''"
  by code_simp

lemma pad_digits:
  assumes "ds \<noteq> []" "\<forall>d \<in> set ds. d < 10"
  shows "pad_left (length ds) (show_nat (radix_value 10 ds)) = digits_text ds"
proof -
  have "pad_left (length ds) (show_nat (radix_value 10 ds)) =
      digits_text (replicate (length ds - length (radix_digits 10 (radix_value 10 ds))) 0 @ radix_digits 10 (radix_value 10 ds))"
    by (simp add: pad_left_def show_nat_digits_text digits_text_def digit_char_0)
  then show ?thesis using padded_digits [OF assms] by simp
qed

lemma drop_padding: "dropWhile (\<lambda>c. c = CHR ''0'') (pad_left n s @ t) = dropWhile (\<lambda>c. c = CHR ''0'') (s @ t)"
proof -
  have "dropWhile (\<lambda>c. c = CHR ''0'') (replicate m (CHR ''0'') @ u) = dropWhile (\<lambda>c. c = CHR ''0'') u" for m u
    by (induction m) auto
  then show ?thesis by (simp add: pad_left_def)
qed

lemma digit_zero:
  assumes "d < 10"
  shows "(digit_char d = CHR ''0'') = (d = 0)"
proof
  assume "digit_char d = CHR ''0''"
  then have "asc (digit_char d) = 48" by simp
  then show "d = 0" using assms by (simp add: asc_digit_char)
qed (simp add: digit_char_0)

lemma trim_digits:
  "(\<forall>d \<in> set ds. d < 10) \<Longrightarrow> dropWhile (\<lambda>c. c = CHR ''0'') (digits_text ds) = digits_text (dropWhile (\<lambda>d. d = 0) ds)"
  by (induction ds) (auto simp: digits_text_def digit_zero)

subsection \<open>The packed form, as the server writes it\<close>

text \<open>
  The digits of the column, most significant first, as many as its precision. The first group of
  the integer part and the last of the fraction hold the digits that do not fill nine.
\<close>

definition pack_group :: "nat list \<Rightarrow> bytes" where
  "pack_group ds = be_bytes (dig2bytes (length ds)) (radix_value 10 ds)"

fun pack_groups :: "nat \<Rightarrow> nat list \<Rightarrow> bytes" where
  "pack_groups 0 ds = []"
| "pack_groups (Suc n) ds = pack_group (take 9 ds) @ pack_groups n (drop 9 ds)"

definition pack_digits :: "nat \<Rightarrow> nat list \<Rightarrow> bytes" where
  "pack_digits scale ds =
     (let intg = length ds - scale; intg_first = intg mod 9; ints = drop intg_first (take intg ds);
          fracs = drop intg ds
      in pack_group (take intg_first ds) @ pack_groups (intg div 9) ints @
         pack_groups (scale div 9) fracs @ pack_group (drop (scale div 9 * 9) fracs))"

fun set_sign :: "bytes \<Rightarrow> bytes" where
  "set_sign [] = []"
| "set_sign (b # bs) = char_of (asc b + 128) # bs"

definition pack_decimal :: "bool \<Rightarrow> nat \<Rightarrow> nat list \<Rightarrow> bytes" where
  "pack_decimal negative scale ds =
     (let buf = set_sign (pack_digits scale ds) in if negative then map flip_byte buf else buf)"

text \<open>The text the server prints for it: no leading zeros, the whole declared scale.\<close>

definition decimal_text :: "bool \<Rightarrow> nat \<Rightarrow> nat list \<Rightarrow> string" where
  "decimal_text negative scale ds =
     (let intg = length ds - scale; ints = dropWhile (\<lambda>d. d = 0) (take intg ds)
      in (if negative then ''-'' else []) @ digits_text (if ints = [] then [0] else ints) @
         (if scale = 0 then [] else ''.'' @ digits_text (drop intg ds)))"

abbreviation decimal_digits :: "nat list \<Rightarrow> bool" where
  "decimal_digits ds \<equiv> (\<forall>d \<in> set ds. d < 10)"

lemma digits_below_nine: "n \<le> 9 \<Longrightarrow> n \<in> {0, 1, 2, 3, 4, 5, 6, 7, 8, 9 :: nat}"
  by auto

lemma pack_group_fits:
  assumes "length ds \<le> 9" "decimal_digits ds"
  shows "radix_value 10 ds < 256 ^ dig2bytes (length ds)" "0 < length ds \<Longrightarrow> 2 * radix_value 10 ds < 256 ^ dig2bytes (length ds)"
proof -
  have "(length ds = 0 \<longrightarrow> radix_value 10 ds = 0) \<and> radix_value 10 ds < 10 ^ length ds"
    using radix_value_less [OF assms(2)] by auto
  then show "radix_value 10 ds < 256 ^ dig2bytes (length ds)" "0 < length ds \<Longrightarrow> 2 * radix_value 10 ds < 256 ^ dig2bytes (length ds)"
    using digits_below_nine [OF assms(1)] by (auto simp: dig2bytes_def)
qed

lemma length_pack_group [simp]: "length (pack_group ds) = dig2bytes (length ds)"
  by (simp add: pack_group_def)

lemma group_value_pack:
  "length ds \<le> 9 \<Longrightarrow> decimal_digits ds \<Longrightarrow> group_value (length ds) (pack_group ds @ rest) = radix_value 10 ds"
  using pack_group_fits(1) [of ds] by (simp add: group_value_def be_value_bytes pack_group_def)

lemma full_groups_pack:
  "9 * n \<le> length ds \<Longrightarrow> decimal_digits ds \<Longrightarrow> full_groups n (pack_groups n ds @ rest) = (digits_text (take (9 * n) ds), rest)"
proof (induction n arbitrary: ds)
  case (Suc n)
  let ?g = "take 9 ds"
  have len: "length ?g = 9" using Suc.prems(1) by simp
  have g: "decimal_digits ?g" "decimal_digits (drop 9 ds)" using Suc.prems(2) by (auto dest: in_set_takeD in_set_dropD)
  have "group_value 9 (pack_group ?g @ pack_groups n (drop 9 ds) @ rest) = radix_value 10 ?g"
    using group_value_pack [of ?g] len g by simp
  moreover have "pad_left 9 (show_nat (radix_value 10 ?g)) = digits_text ?g"
    using pad_digits [of ?g] len g by fastforce
  moreover have "length (pack_group ?g) = dig2bytes 9" using len by simp
  moreover have "digits_text ?g @ digits_text (take (9 * n) (drop 9 ds)) = digits_text (take (9 * Suc n) ds)"
    by (simp add: digits_text_def take_add [of 9 "9 * n" ds])
  ultimately show ?case using Suc.IH [of "drop 9 ds"] Suc.prems(1) g by simp
qed (simp add: digits_text_def)

text \<open>The bit the sign takes is clear in what the digits pack to.\<close>

definition low_head :: "bytes \<Rightarrow> bool" where
  "low_head b \<longleftrightarrow> b = [] \<or> asc (hd b) < 128"

lemma low_head_append: "low_head a \<Longrightarrow> low_head b \<Longrightarrow> low_head (a @ b)"
  by (auto simp: low_head_def hd_append)

lemma low_head_be_bytes: "2 * v < 256 ^ k \<Longrightarrow> low_head (be_bytes k v)"
proof (induction k arbitrary: v)
  case (Suc k)
  show ?case
  proof (cases k)
    case 0
    then show ?thesis using Suc.prems by (simp add: low_head_def)
  next
    case (Suc j)
    then have "2 * (v div 256) < 256 ^ k" using Suc.prems by simp
    then have "low_head (be_bytes k (v div 256))" by (rule Suc.IH)
    moreover have "be_bytes k (v div 256) \<noteq> []" using Suc by simp
    ultimately show ?thesis by (simp add: low_head_def hd_append)
  qed
qed (simp add: low_head_def)

lemma low_head_group: "length ds \<le> 9 \<Longrightarrow> decimal_digits ds \<Longrightarrow> low_head (pack_group ds)"
  using pack_group_fits(2) [of ds] low_head_be_bytes
  by (cases "ds = []") (auto simp: pack_group_def low_head_def dig2bytes_def)

lemma low_head_groups: "decimal_digits ds \<Longrightarrow> low_head (pack_groups n ds)"
  by (induction n arbitrary: ds)
     (auto simp: low_head_def [of "[]"] intro!: low_head_append low_head_group dest: in_set_takeD in_set_dropD)

lemma decimal_digits_part: "decimal_digits ds \<Longrightarrow> decimal_digits (take n ds)" "decimal_digits ds \<Longrightarrow> decimal_digits (drop n ds)"
  by (auto dest: in_set_takeD in_set_dropD)

lemma length_tail_group: "scale \<le> length ds \<Longrightarrow> length (drop (scale div 9 * 9) (drop (length ds - scale) ds)) = scale mod 9"
  by (simp add: minus_div_mult_eq_mod)

lemma length_first_group:
  assumes "scale \<le> length ds"
  shows "length (take ((length ds - scale) mod 9) ds) = (length ds - scale) mod 9"
proof -
  have "(length ds - scale) mod 9 \<le> length ds" using mod_less_eq_dividend [of "length ds - scale" 9] by linarith
  then show ?thesis by simp
qed

lemma nine_left: "m mod 9 \<le> (9 :: nat)"
  by (simp add: less_imp_le)

lemma low_head_pack:
  assumes "decimal_digits ds" "scale \<le> length ds"
  shows "low_head (pack_digits scale ds)"
  unfolding pack_digits_def Let_def
proof (intro low_head_append low_head_groups low_head_group)
  show "length (take ((length ds - scale) mod 9) ds) \<le> 9" "length (drop (scale div 9 * 9) (drop (length ds - scale) ds)) \<le> 9"
    using nine_left by (simp_all only: length_tail_group length_first_group assms(2))
qed (intro decimal_digits_part assms(1))+

lemma length_pack_groups: "9 * n \<le> length ds \<Longrightarrow> length (pack_groups n ds) = n * 4"
  by (induction n arbitrary: ds) (simp_all add: dig2bytes_def)

lemma nine_groups: "9 * (m div 9) \<le> (m :: nat)"
  by simp

lemma length_pack_digits:
  assumes "scale \<le> length ds"
  shows "length (pack_digits scale ds) = decimal_size (length ds) scale"
proof -
  let ?intg = "length ds - scale"
  have "length (pack_groups (?intg div 9) (drop (?intg mod 9) (take ?intg ds))) = ?intg div 9 * 4"
    by (rule length_pack_groups) (simp add: minus_mod_eq_mult_div)
  moreover have "length (pack_groups (scale div 9) (drop ?intg ds)) = scale div 9 * 4"
    by (rule length_pack_groups) (simp add: assms)
  ultimately show ?thesis unfolding pack_digits_def decimal_size_def Let_def length_append length_pack_group
      length_tail_group [OF assms] length_first_group [OF assms] by (simp add: minus_div_mult_eq_mod)
qed

lemma dig2bytes_pos: "n \<le> 9 \<Longrightarrow> 0 < n \<Longrightarrow> 0 < dig2bytes n"
  using digits_below_nine [of n] by (auto simp: dig2bytes_def)

lemma decimal_size_pos:
  assumes "0 < m + scale"
  shows "0 < decimal_size (m + scale) scale"
proof -
  consider "0 < m mod 9" | "0 < scale mod 9" | "0 < m div 9" | "0 < scale div 9"
    using assms by (metis add_is_0 div_mult_mod_eq mult_is_0 neq0_conv)
  then show ?thesis
    using dig2bytes_pos [of "m mod 9"] dig2bytes_pos [of "scale mod 9"] nine_left
    by cases (simp_all add: decimal_size_def Let_def minus_div_mult_eq_mod)
qed

lemma pack_digits_nonempty: "ds \<noteq> [] \<Longrightarrow> scale \<le> length ds \<Longrightarrow> pack_digits scale ds \<noteq> []"
  using decimal_size_pos [of "length ds - scale" scale] length_pack_digits [of scale ds] by auto

lemma flip_flip [simp]: "flip_byte (flip_byte b) = b"
proof -
  have "255 - (255 - asc b) = asc b" using asc_less_256 [of b] by linarith
  then show ?thesis by (simp add: flip_byte_def)
qed

lemma clear_set_sign: "low_head b \<Longrightarrow> clear_sign (set_sign b) = b"
  by (cases b) (auto simp: low_head_def)

lemma sign_bit:
  assumes "low_head b" "b \<noteq> []"
  shows "128 \<le> asc (hd (set_sign b))" "\<not> 128 \<le> asc (hd (map flip_byte (set_sign b)))"
  using assms by (cases b; simp add: low_head_def flip_byte_def)+

lemma trim_first:
  assumes "ds \<noteq> []" "decimal_digits ds" "decimal_digits es"
  shows "dropWhile (\<lambda>c. c = CHR ''0'') (show_nat (radix_value 10 ds) @ digits_text es) = digits_text (dropWhile (\<lambda>d. d = 0) (ds @ es))"
proof -
  have "dropWhile (\<lambda>c. c = CHR ''0'') (show_nat (radix_value 10 ds) @ digits_text es) = dropWhile (\<lambda>c. c = CHR ''0'') (digits_text ds @ digits_text es)"
    using drop_padding [of "length ds" "show_nat (radix_value 10 ds)" "digits_text es"] pad_digits [OF assms(1,2)] by simp
  also have "digits_text ds @ digits_text es = digits_text (ds @ es)" by (simp add: digits_text_def)
  finally show ?thesis using trim_digits [of "ds @ es"] assms by auto
qed

lemma int_digits_pack:
  assumes "decimal_digits first" "decimal_digits ints" "length first < 9" "length ints = 9 * n"
  shows "let first_text = (if 0 < length first then show_nat (group_value (length first) (pack_group first @ pack_groups n ints @ rest)) else []);
      (text, buf) = full_groups n (if 0 < length first then drop (dig2bytes (length first)) (pack_group first @ pack_groups n ints @ rest)
        else pack_group first @ pack_groups n ints @ rest)
    in dropWhile (\<lambda>c. c = CHR ''0'') (first_text @ text) = digits_text (dropWhile (\<lambda>d. d = 0) (first @ ints)) \<and> buf = rest"
proof (cases "first = []")
  case True
  then show ?thesis using full_groups_pack [of n ints rest] trim_digits [of ints] assms by (simp add: pack_group_def dig2bytes_def)
next
  case False
  then show ?thesis
    using full_groups_pack [of n ints rest] trim_first [of first ints] group_value_pack [of first "pack_groups n ints @ rest"] assms
    by simp
qed

lemma frac_digits_pack:
  assumes "decimal_digits fracs" "length fracs = scale"
  shows "let (text, buf) = full_groups (scale div 9) (pack_groups (scale div 9) fracs @ pack_group (drop (scale div 9 * 9) fracs));
      tail = (if 0 < scale - scale div 9 * 9 then pad_left (scale - scale div 9 * 9) (show_nat (group_value (scale - scale div 9 * 9) buf)) else [])
    in take scale (text @ tail) = digits_text fracs"
proof -
  let ?last = "drop (scale div 9 * 9) fracs"
  have last: "length ?last = scale - scale div 9 * 9" "decimal_digits ?last" "length ?last \<le> 9"
    using assms nine_left [of scale] by (auto simp: minus_div_mult_eq_mod dest: in_set_dropD)
  have groups: "full_groups (scale div 9) (pack_groups (scale div 9) fracs @ pack_group ?last) =
      (digits_text (take (9 * (scale div 9)) fracs), pack_group ?last)"
    using full_groups_pack [of "scale div 9" fracs] assms by simp
  have split: "digits_text (take (9 * (scale div 9)) fracs) @ digits_text ?last = digits_text fracs"
    by (simp add: digits_text_def mult.commute flip: map_append)
  have whole: "take scale (digits_text fracs) = digits_text fracs" using assms(2) by (simp add: digits_text_def)
  show ?thesis
  proof (cases "?last = []")
    case True
    then show ?thesis using groups split whole last(1) by (simp add: digits_text_def)
  next
    case False
    then have "pad_left (length ?last) (show_nat (group_value (length ?last) (pack_group ?last))) = digits_text ?last"
      using group_value_pack [of ?last "[]"] pad_digits [of ?last] last by simp
    moreover have "0 < scale - scale div 9 * 9" using False unfolding last(1) [symmetric] by simp
    ultimately show ?thesis using groups split whole last(1) by (simp del: take_append)
  qed
qed

lemma unpack_digits:
  assumes "decimal_digits ds" "scale \<le> length ds"
  shows "decimal_digits_of (length ds) scale (pack_digits scale ds) =
    (digits_text (dropWhile (\<lambda>d. d = 0) (take (length ds - scale) ds)), digits_text (drop (length ds - scale) ds))"
proof -
  let ?intg = "length ds - scale"
  let ?first = "take (?intg mod 9) ds" and ?ints = "drop (?intg mod 9) (take ?intg ds)" and ?fracs = "drop ?intg ds"
  let ?rest = "pack_groups (scale div 9) ?fracs @ pack_group (drop (scale div 9 * 9) ?fracs)"
  have lens: "length ?first = ?intg - ?intg div 9 * 9" "length ?first < 9" "length ?ints = 9 * (?intg div 9)" "length ?fracs = scale"
    using assms(2) length_first_group [OF assms(2)] by (simp_all add: minus_div_mult_eq_mod minus_mod_eq_mult_div)
  have join: "?first @ ?ints = take ?intg ds"
    using append_take_drop_id [of "?intg mod 9" "take ?intg ds"] by (simp add: min_absorb1)
  have buf: "pack_digits scale ds = pack_group ?first @ pack_groups (?intg div 9) ?ints @ ?rest"
    by (simp add: pack_digits_def Let_def)
  let ?from = "if 0 < length ?first then drop (dig2bytes (length ?first)) (pack_digits scale ds) else pack_digits scale ds"
  have parts: "decimal_digits ?first" "decimal_digits ?ints" "decimal_digits ?fracs" by (intro decimal_digits_part assms(1))+
  obtain t b where tb: "full_groups (?intg div 9) ?from = (t, b)" by fastforce
  have ints: "dropWhile (\<lambda>c. c = CHR ''0'') ((if 0 < length ?first then show_nat (group_value (length ?first) (pack_digits scale ds)) else []) @ t) =
      digits_text (dropWhile (\<lambda>d. d = 0) (take ?intg ds)) \<and> b = ?rest"
    using int_digits_pack [OF parts(1,2) lens(2,3), of ?rest] tb unfolding buf [symmetric] join Let_def by (simp only: prod.case)
  obtain u c where uc: "full_groups (scale div 9) ?rest = (u, c)" by fastforce
  show ?thesis
    using ints uc frac_digits_pack [OF parts(3) lens(4)] tb
    unfolding decimal_digits_of_def Let_def lens(1) [symmetric] by (simp only: prod.case)
qed

lemma print_digits:
  assumes "scale \<le> length ds" "negative \<Longrightarrow> \<exists>d \<in> set ds. d \<noteq> 0"
  shows "print_decimal scale (\<not> negative)
      (digits_text (dropWhile (\<lambda>d. d = 0) (take (length ds - scale) ds)), digits_text (drop (length ds - scale) ds)) =
    decimal_text negative scale ds"
proof -
  let ?ints = "dropWhile (\<lambda>d. d = 0) (take (length ds - scale) ds)"
  have empty: "digits_text xs = [] \<longleftrightarrow> xs = []" for xs by (simp add: digits_text_def)
  have zero: "digits_text [0] = ''0''" by (simp add: digits_text_def digit_char_0)
  have frac: "drop (length ds - scale) ds = [] \<longleftrightarrow> scale = 0" using assms(1) by auto
  have "scale = 0 \<Longrightarrow> negative \<Longrightarrow> ?ints \<noteq> []" using assms(2) by auto
  then show ?thesis unfolding print_decimal_def decimal_text_def Let_def prod.case empty frac
    by (cases "?ints = []"; cases negative; cases "scale = 0") (simp_all only: zero if_True if_False simp_thms append_Nil append_Nil2)
qed

text \<open>
  A decimal the server packed is read back as the text it prints, and the reader stands at the
  column after it. The server packs no negative zero.
\<close>

lemma unpack_decimal:
  assumes digits: "decimal_digits ds" and size: "ds \<noteq> []" "scale \<le> length ds"
    and sign: "negative \<Longrightarrow> \<exists>d \<in> set ds. d \<noteq> 0"
  shows "decode_decimal (length ds) scale (pack_decimal negative scale ds @ rest) = Inr (decimal_text negative scale ds, rest)"
proof -
  let ?buf = "pack_digits scale ds" and ?raw = "pack_decimal negative scale ds"
  have low: "low_head ?buf" using low_head_pack digits size(2) by blast
  have len: "length ?raw = decimal_size (length ds) scale"
    using length_pack_digits [OF size(2)] by (cases ?buf) (auto simp: pack_decimal_def Let_def)
  have some: "?buf \<noteq> []" using pack_digits_nonempty size by blast
  then have signed: "set_sign ?buf \<noteq> []" by (cases ?buf) simp_all
  have raw: "?raw \<noteq> []" "(128 \<le> asc (hd ?raw)) = (\<not> negative)" "clear_sign (if negative then map flip_byte ?raw else ?raw) = ?buf"
    using sign_bit [OF low some] clear_set_sign [OF low] signed
    by (simp_all add: pack_decimal_def Let_def o_def split: if_split)
  have "decode_decimal (length ds) scale (?raw @ rest) = Inr (print_decimal scale (\<not> negative) (decimal_digits_of (length ds) scale ?buf), rest)"
    using raw unfolding decode_decimal_def my_take_append [OF len] Let_def by (cases negative) simp_all
  then show ?thesis using unpack_digits [OF digits size(2)] print_digits [OF size(2) sign] by simp
qed

end
