(* ===== verification/My_Json.thy ===== *)
theory My_Json
  imports My_Decimal
begin

section \<open>MySQL's binary JSON (\<open>crates/source-mysql/src/json.rs\<close>)\<close>

text \<open>
  The document a JSON column holds in a row event, and the value it stands for. The code answers
  \<open>None\<close> for a malformed document, which is \<open>Malformed\<close> here. A nested container is decoded by a
  recursive call on the bytes its offset names, and nothing in the code bounds that recursion: the
  model carries the depth it may still descend, and a call below it is \<open>Crash\<close>, the exhausted
  stack. \<open>Crash\<close> is also the index out of bounds of a decimal without digits.

  The capacity a container reserves for its declared count is not modelled.
\<close>

datatype json_failure = Malformed | Crash

type_synonym json_decoder = "nat \<Rightarrow> bytes \<Rightarrow> (json_failure, json) result"

subsection \<open>Reading fields\<close>

definition head_bytes :: "nat \<Rightarrow> bytes \<Rightarrow> bytes option" where
  "head_bytes n data = (if n \<le> length data then Some (take n data) else None)"

definition tail_from :: "nat \<Rightarrow> bytes \<Rightarrow> bytes option" where
  "tail_from at data = (if at \<le> length data then Some (drop at data) else None)"

definition head_uint :: "nat \<Rightarrow> bytes \<Rightarrow> nat option" where
  "head_uint n data = map_option le_value (head_bytes n data)"

definition head_int :: "nat \<Rightarrow> bytes \<Rightarrow> int option" where
  "head_int n data = map_option (as_signed (8 * n)) (head_uint n data)"

definition json_int :: "int option \<Rightarrow> json option" where
  "json_int i = map_option (\<lambda>i. JNumber (NInt i)) i"

definition json_literal :: "nat \<Rightarrow> json option" where
  "json_literal code =
     (if code = 0 then Some JNull else if code = 1 then Some (JBool True) else if code = 2 then Some (JBool False) else None)"

text \<open>The length of a string: at most five bytes, seven bits each, the low group first.\<close>

fun var_len_from :: "nat \<Rightarrow> nat \<Rightarrow> bytes \<Rightarrow> (nat \<times> bytes) option" where
  "var_len_from i len [] = None"
| "var_len_from i len (b # bs) =
     (if 5 \<le> i then None
      else
        (let len = len + asc b mod 128 * 2 ^ (7 * i)
         in if asc b < 128 then Some (len, bs) else var_len_from (Suc i) len bs))"

definition var_len :: "bytes \<Rightarrow> (nat \<times> bytes) option" where
  "var_len data = var_len_from 0 0 data"

definition offset_field :: "bytes \<Rightarrow> nat \<Rightarrow> bool \<Rightarrow> nat option" where
  "offset_field data at large = Option.bind (tail_from at data) (head_uint (if large then 4 else 2))"

text \<open>\<open>f64::from_le_bytes\<close>, on the bits.\<close>

definition f64_of_bits :: "nat \<Rightarrow> f64" where
  "f64_of_bits bits =
     (let neg = 2 ^ 63 \<le> bits; e = bits div 2 ^ 52 mod 2048; m = bits mod 2 ^ 52;
          units = (if e = 0 then m else (2 ^ 52 + m) * 2 ^ (e - 1))
      in if e = 2047 then (if m \<noteq> 0 then F64_NaN else if neg then F64_NegInf else F64_PosInf)
         else F64_Fin (if neg then - int units else int units))"

definition number_from_f64 :: "f64 \<Rightarrow> json option" where
  "number_from_f64 f = (if f64_is_finite f then Some (JNumber (NFloat f)) else None)"

subsection \<open>Dates, times and decimals inside a document\<close>

definition packed :: "bytes \<Rightarrow> int" where
  "packed body = as_signed 64 (le_value (take 8 body))"

text \<open>Division of the language rounds toward zero; shifting and masking do not.\<close>

definition trunc_div :: "int \<Rightarrow> int \<Rightarrow> int" where
  "trunc_div a b = (if a < 0 then - ((- a) div b) else a div b)"

definition trunc_mod :: "int \<Rightarrow> int \<Rightarrow> int" where
  "trunc_mod a b = a - b * trunc_div a b"

definition packed_parts :: "int \<Rightarrow> int \<times> int \<times> int \<times> int \<times> int \<times> int \<times> int" where
  "packed_parts p =
     (let micros = p mod 2 ^ 24; hms = p div 2 ^ 24 mod 2 ^ 17; ymd = p div 2 ^ 41; day = ymd mod 32; ym = ymd div 32
      in (trunc_div ym 13, trunc_mod ym 13, day, hms div 2 ^ 12, hms div 2 ^ 6 mod 64, hms mod 64, micros))"

text \<open>A number printed with at least so many characters, the zeros after its sign.\<close>

definition pad_int :: "nat \<Rightarrow> int \<Rightarrow> string" where
  "pad_int width i = (if i < 0 then ''-'' @ pad_left (width - 1) (show_nat (nat (- i))) else pad_left width (show_nat (nat i)))"

definition clock :: "int \<Rightarrow> int \<Rightarrow> int \<Rightarrow> int \<Rightarrow> string" where
  "clock hour minute second micros =
     pad_int 2 hour @ '':'' @ pad_int 2 minute @ '':'' @ pad_int 2 second @ (if 0 < micros then ''.'' @ pad_int 6 micros else [])"

definition date_from :: "bytes \<Rightarrow> json" where
  "date_from body =
     (case packed_parts (packed body) of (year, month, day, _) \<Rightarrow>
        JString (pad_int 4 year @ ''-'' @ pad_int 2 month @ ''-'' @ pad_int 2 day))"

definition time_from :: "bytes \<Rightarrow> json" where
  "time_from body = (case packed_parts (packed body) of (_, _, _, hour, minute, second, micros) \<Rightarrow> JString (clock hour minute second micros))"

definition datetime_from :: "bytes \<Rightarrow> json" where
  "datetime_from body =
     (case packed_parts (packed body) of (year, month, day, hour, minute, second, micros) \<Rightarrow>
        JString (pad_int 4 year @ ''-'' @ pad_int 2 month @ ''-'' @ pad_int 2 day @ '' '' @ clock hour minute second micros))"

definition json_decimal :: "bytes \<Rightarrow> (json_failure, json) result" where
  "json_decimal body =
     (if length body < 2 then Inl Malformed
      else case decode_packed_decimal (drop 2 body) (asc (body ! 0)) (asc (body ! 1)) of
        Inl (Panic _) \<Rightarrow> Inl Crash
      | Inl _ \<Rightarrow> Inl Malformed
      | Inr txt \<Rightarrow> Inr (unwrap_or (JString txt) (Option.bind (parse_f64 txt) number_from_f64)))"

definition decode_opaque :: "(bytes \<Rightarrow> string) \<Rightarrow> bytes \<Rightarrow> (json_failure, json) result" where
  "decode_opaque base64 data =
     (case data of
        [] \<Rightarrow> Inl Malformed
      | field_type # data \<Rightarrow>
          bindr (ok_or Malformed (var_len data)) (\<lambda>(len, rest).
          bindr (ok_or Malformed (head_bytes len rest)) (\<lambda>body.
            if asc field_type = 246 then json_decimal body
            else if asc field_type = 10 then Inr (date_from body)
            else if asc field_type = 11 then Inr (time_from body)
            else if asc field_type = 12 \<or> asc field_type = 7 then Inr (datetime_from body)
            else Inr (JString (base64 body)))))"

subsection \<open>Values and containers\<close>

text \<open>The first argument is the decoder a value entry calls for a value stored elsewhere.\<close>

definition entry_value :: "json_decoder \<Rightarrow> bytes \<Rightarrow> nat \<Rightarrow> bool \<Rightarrow> (json_failure, json) result" where
  "entry_value decode body at large =
     (case tail_from at body of
        None \<Rightarrow> Inl Malformed
      | Some [] \<Rightarrow> Inl Malformed
      | Some (code # inline) \<Rightarrow>
          if asc code = 4 then ok_or Malformed (Option.bind (head_uint 1 inline) json_literal)
          else if asc code = 5 then ok_or Malformed (json_int (head_int 2 inline))
          else if asc code = 6 then ok_or Malformed (json_int (map_option int (head_uint 2 inline)))
          else if asc code = 7 \<and> large then ok_or Malformed (json_int (head_int 4 inline))
          else if asc code = 8 \<and> large then ok_or Malformed (json_int (map_option int (head_uint 4 inline)))
          else
            bindr (ok_or Malformed (offset_field body (at + 1) large)) (\<lambda>offset.
            bindr (ok_or Malformed (tail_from offset body)) (decode (asc code))))"

definition decode_array :: "json_decoder \<Rightarrow> bytes \<Rightarrow> bool \<Rightarrow> (json_failure, json) result" where
  "decode_array decode body large =
     (let width = (if large then 4 else 2) in
      bindr (ok_or Malformed (offset_field body 0 large)) (\<lambda>count.
      bindr (mapr (\<lambda>i. entry_value decode body (width * 2 + i * (width + 1)) large) [0..<count]) (\<lambda>vs.
        Inr (JArray vs))))"

definition object_entry :: "json_decoder \<Rightarrow> bytes \<Rightarrow> bool \<Rightarrow> nat \<Rightarrow> nat \<Rightarrow> (json_failure, string \<times> json) result" where
  "object_entry decode body large count i =
     (let width = (if large then 4 else 2); key_at = width * 2 + i * (width + 2) in
      bindr (ok_or Malformed (offset_field body key_at large)) (\<lambda>key_offset.
      bindr (ok_or Malformed (Option.bind (tail_from (key_at + width) body) (head_uint 2))) (\<lambda>key_len.
      bindr (ok_or Malformed (Option.bind (tail_from key_offset body) (head_bytes key_len))) (\<lambda>key.
      bindr (entry_value decode body (width * 2 + count * (width + 2) + i * (width + 1)) large) (\<lambda>v.
        Inr (from_utf8_lossy key, v))))))"

definition decode_object :: "json_decoder \<Rightarrow> bytes \<Rightarrow> bool \<Rightarrow> (json_failure, json) result" where
  "decode_object decode body large =
     bindr (ok_or Malformed (offset_field body 0 large)) (\<lambda>count.
     bindr (mapr (object_entry decode body large count) [0..<count]) (\<lambda>kvs.
       Inr (JObject (bt_extend [] kvs))))"

definition json_string :: "bytes \<Rightarrow> json option" where
  "json_string data = Option.bind (var_len data) (\<lambda>(len, rest). map_option (\<lambda>b. JString (from_utf8_lossy b)) (head_bytes len rest))"

definition decode_value_with :: "(bytes \<Rightarrow> string) \<Rightarrow> json_decoder \<Rightarrow> json_decoder" where
  "decode_value_with base64 decode code data =
     (if code = 0 then decode_object decode data False
      else if code = 1 then decode_object decode data True
      else if code = 2 then decode_array decode data False
      else if code = 3 then decode_array decode data True
      else if code = 4 then ok_or Malformed (Option.bind (head_uint 1 data) json_literal)
      else if code = 5 then ok_or Malformed (json_int (head_int 2 data))
      else if code = 6 then ok_or Malformed (json_int (map_option int (head_uint 2 data)))
      else if code = 7 then ok_or Malformed (json_int (head_int 4 data))
      else if code = 8 then ok_or Malformed (json_int (map_option int (head_uint 4 data)))
      else if code = 9 then ok_or Malformed (json_int (head_int 8 data))
      else if code = 10 then ok_or Malformed (json_int (map_option int (head_uint 8 data)))
      else if code = 11 then ok_or Malformed (Option.bind (head_uint 8 data) (\<lambda>bits. number_from_f64 (f64_of_bits bits)))
      else if code = 12 then ok_or Malformed (json_string data)
      else if code = 15 then decode_opaque base64 data
      else Inl Malformed)"

primrec decode_json_value :: "(bytes \<Rightarrow> string) \<Rightarrow> nat \<Rightarrow> json_decoder" where
  "decode_json_value base64 0 = decode_value_with base64 (\<lambda>_ _. Inl Crash)"
| "decode_json_value base64 (Suc depth) = decode_value_with base64 (decode_json_value base64 depth)"

definition decode_json :: "(bytes \<Rightarrow> string) \<Rightarrow> nat \<Rightarrow> bytes \<Rightarrow> (json_failure, json) result" where
  "decode_json base64 depth doc =
     (case doc of [] \<Rightarrow> Inr JNull | code # data \<Rightarrow> decode_json_value base64 depth (asc code) data)"

subsection \<open>More stack never changes an answer\<close>

text \<open>One call answers as another unless it ran out of stack.\<close>

definition same_answer :: "(json_failure, 'a) result \<Rightarrow> (json_failure, 'a) result \<Rightarrow> bool" where
  "same_answer x y \<longleftrightarrow> x = Inl Crash \<or> y = x"

lemma same_answer_refl: "same_answer x x"
  by (simp add: same_answer_def)

lemma same_answer_crash: "same_answer (Inl Crash) x"
  by (simp add: same_answer_def)

lemma same_answer_bindr: "same_answer x y \<Longrightarrow> (\<And>a. same_answer (f a) (g a)) \<Longrightarrow> same_answer (bindr x f) (bindr y g)"
  by (cases x) (auto simp: same_answer_def)

lemma same_answer_mapr: "(\<And>x. same_answer (f x) (g x)) \<Longrightarrow> same_answer (mapr f xs) (mapr g xs)"
  by (induction xs) (simp_all add: same_answer_refl same_answer_bindr)

lemma same_answer_if: "same_answer x x' \<Longrightarrow> same_answer y y' \<Longrightarrow> same_answer (if c then x else y) (if c then x' else y')"
  by simp

lemma entry_value_deeper:
  "(\<And>code data. same_answer (f code data) (g code data)) \<Longrightarrow> same_answer (entry_value f body at large) (entry_value g body at large)"
  unfolding entry_value_def
  by (split option.split list.split)+ (auto simp: same_answer_refl intro!: same_answer_if same_answer_bindr)

lemma object_entry_deeper:
  "(\<And>code data. same_answer (f code data) (g code data)) \<Longrightarrow> same_answer (object_entry f body large count i) (object_entry g body large count i)"
  unfolding object_entry_def Let_def by (intro same_answer_bindr same_answer_refl entry_value_deeper)

lemma decode_value_deeper:
  "(\<And>code data. same_answer (f code data) (g code data)) \<Longrightarrow> same_answer (decode_value_with base64 f code data) (decode_value_with base64 g code data)"
  unfolding decode_value_with_def decode_object_def decode_array_def Let_def
  by (intro same_answer_if same_answer_bindr same_answer_refl same_answer_mapr entry_value_deeper object_entry_deeper)

lemma decode_json_value_deeper: "d \<le> d' \<Longrightarrow> same_answer (decode_json_value base64 d code data) (decode_json_value base64 d' code data)"
proof (induction d arbitrary: d' code data)
  case 0
  show ?case by (cases d') (simp_all add: same_answer_refl same_answer_crash decode_value_deeper)
next
  case (Suc d)
  then show ?case by (cases d') (simp_all add: decode_value_deeper)
qed

lemma decode_json_deeper:
  assumes "d \<le> d'" "decode_json base64 d doc = Inr v"
  shows "decode_json base64 d' doc = Inr v"
  using decode_json_value_deeper [OF assms(1), of base64 "asc (hd doc)" "tl doc"] assms(2)
  by (cases doc) (auto simp: decode_json_def same_answer_def)

text \<open>
  An array whose one element is an array at offset zero holds itself: whatever the stack, decoding it
  exhausts it.
\<close>

lemma self_reference_crashes:
  "decode_json base64 depth (map char_of [2, 1, 0, 7, 0, 2, 0, 0 :: nat]) = Inl Crash"
proof -
  let ?doc = "map char_of [1, 0, 7, 0, 2, 0, 0 :: nat]"
  have fields: "offset_field ?doc 0 False = Some 1" "tail_from 4 ?doc = Some (char_of (2 :: nat) # map char_of [0, 0 :: nat])"
    "offset_field ?doc 5 False = Some 0" "tail_from 0 ?doc = Some ?doc"
    by code_simp+
  have entry: "entry_value f ?doc 4 False = f 2 ?doc" for f
    using fields by (simp add: entry_value_def)
  have read: "decode_value_with base64 f 2 ?doc = bindr (f 2 ?doc) (\<lambda>v. Inr (JArray [v]))" for f
    using fields(1) entry by (simp add: decode_value_with_def decode_array_def bindr_assoc del: list.map)
  have "decode_json_value base64 depth 2 ?doc = Inl Crash"
    by (induction depth) (simp_all only: decode_json_value.simps read bindr_simps)
  then show ?thesis by (simp add: decode_json_def)
qed

subsection \<open>The stored form, as the server writes it\<close>

text \<open>
  A value is a type code and the bytes stored for it; an entry of a small container is the code and
  two bytes, the value itself where it fits them and the offset of its bytes otherwise.
\<close>

type_synonym slot = "nat \<times> bytes"

definition inline_code :: "nat \<Rightarrow> bool" where
  "inline_code c \<longleftrightarrow> c = 4 \<or> c = 5"

definition stored :: "slot list \<Rightarrow> bytes" where
  "stored xs = concat (map (\<lambda>(c, p). if inline_code c then [] else p) xs)"

definition entry_cell :: "nat \<Rightarrow> slot \<Rightarrow> bytes" where
  "entry_cell off x = (case x of (c, p) \<Rightarrow> if c = 4 then p @ [CHR 0x00] else if c = 5 then p else le_bytes 2 off)"

fun pack_entries :: "nat \<Rightarrow> slot list \<Rightarrow> bytes" where
  "pack_entries off [] = []"
| "pack_entries off (x # xs) = char_of (fst x) # entry_cell off x @ pack_entries (off + length (stored [x])) xs"

fun key_entries :: "nat \<Rightarrow> string list \<Rightarrow> bytes" where
  "key_entries off [] = []"
| "key_entries off (k # ks) = le_bytes 2 off @ le_bytes 2 (length k) @ key_entries (off + length k) ks"

definition pack_array :: "slot list \<Rightarrow> bytes" where
  "pack_array xs =
     (let start = 4 + 3 * length xs in
      (le_bytes 2 (length xs) @ le_bytes 2 (start + length (stored xs))) @ pack_entries start xs @ [] @ stored xs)"

definition pack_object :: "(string \<times> slot) list \<Rightarrow> bytes" where
  "pack_object kvs =
     (let keys = map fst kvs; xs = map snd kvs; start = 4 + 7 * length kvs; values = start + length (concat keys) in
      (le_bytes 2 (length kvs) @ le_bytes 2 (values + length (stored xs)) @ key_entries start keys) @
        pack_entries values xs @ concat keys @ stored xs)"

function var_bytes :: "nat \<Rightarrow> bytes" where
  "var_bytes n = (if n < 128 then [char_of n] else char_of (128 + n mod 128) # var_bytes (n div 128))"
  by auto
termination by (relation "measure id") auto

declare var_bytes.simps [simp del]

definition int_code :: "int \<Rightarrow> nat" where
  "int_code i =
     (if - (2 ^ 15) \<le> i \<and> i < 2 ^ 15 then 5 else if - (2 ^ 31) \<le> i \<and> i < 2 ^ 31 then 7 else if i < 2 ^ 63 then 9 else 10)"

definition int_width :: "int \<Rightarrow> nat" where
  "int_width i = (if int_code i = 5 then 2 else if int_code i = 7 then 4 else 8)"

fun json_code :: "json \<Rightarrow> nat" where
  "json_code (JObject _) = 0"
| "json_code (JArray _) = 2"
| "json_code (JString _) = 12"
| "json_code (JNumber (NInt i)) = int_code i"
| "json_code (JNumber (NFloat _)) = 11"
| "json_code _ = 4"

fun json_payload :: "json \<Rightarrow> bytes" where
  "json_payload JNull = [CHR 0x00]"
| "json_payload (JBool b) = [if b then CHR 0x01 else CHR 0x02]"
| "json_payload (JNumber (NInt i)) = le_bytes (int_width i) (as_unsigned (8 * int_width i) i)"
| "json_payload (JNumber (NFloat _)) = []"
| "json_payload (JString s) = var_bytes (length s) @ s"
| "json_payload (JArray xs) = pack_array (map (\<lambda>x. (json_code x, json_payload x)) xs)"
| "json_payload (JObject m) = pack_object (map (\<lambda>kv. (fst kv, (json_code (snd kv), json_payload (snd kv)))) m)"

text \<open>The values it covers: no floating-point number, and containers of the small form, their sizes
  in two bytes.\<close>

fun small_json :: "json \<Rightarrow> bool" where
  "small_json (JNumber n) = (case n of NInt _ \<Rightarrow> number_wf n | NFloat _ \<Rightarrow> False)"
| "small_json (JString s) = (utf8_valid s \<and> length s < 2 ^ 35)"
| "small_json (JArray xs) = (length (json_payload (JArray xs)) < 2 ^ 16 \<and> (\<forall>x \<in> set xs. small_json x))"
| "small_json (JObject m) =
     (length (json_payload (JObject m)) < 2 ^ 16 \<and> bt_wf m \<and> (\<forall>kv \<in> set m. utf8_valid (fst kv) \<and> small_json (snd kv)))"
| "small_json _ = True"

fun json_depth :: "json \<Rightarrow> nat" where
  "json_depth (JArray xs) = Suc (Max (insert 0 (json_depth ` set xs)))"
| "json_depth (JObject m) = Suc (Max (insert 0 ((\<lambda>kv. json_depth (snd kv)) ` set m)))"
| "json_depth _ = 0"

definition encode_json :: "json \<Rightarrow> bytes" where
  "encode_json v = char_of (json_code v) # json_payload v"

subsection \<open>Entries of a container\<close>

definition slot_ok :: "slot \<Rightarrow> bool" where
  "slot_ok x \<longleftrightarrow> (fst x = 4 \<longrightarrow> length (snd x) = 1) \<and> (fst x = 5 \<longrightarrow> length (snd x) = 2)"

lemma length_entry_cell [simp]: "slot_ok x \<Longrightarrow> length (entry_cell off x) = 2"
  by (cases x) (auto simp: slot_ok_def entry_cell_def)

lemma length_pack_entries [simp]: "(\<forall>x \<in> set xs. slot_ok x) \<Longrightarrow> length (pack_entries off xs) = 3 * length xs"
  by (induction xs arbitrary: off) simp_all

lemma stored_append: "stored (a @ b) = stored a @ stored b"
  by (simp add: stored_def)

lemma pack_entries_append:
  "pack_entries off (a @ b) = pack_entries off a @ pack_entries (off + length (stored a)) b"
proof (induction a arbitrary: off)
  case (Cons x a)
  have "stored (x # a) = stored [x] @ stored a" by (simp add: stored_def)
  with Cons show ?case by (simp add: add.assoc)
qed (simp add: stored_def)

lemma tail_from_append: "length a = n \<Longrightarrow> tail_from n (a @ b) = Some b"
  by (simp add: tail_from_def)

lemma head_uint_append: "v < 256 ^ n \<Longrightarrow> head_uint n (le_bytes n v @ b) = Some v"
  by (simp add: head_uint_def head_bytes_def le_value_bytes)

lemma offset_field_append: "length a = n \<Longrightarrow> v < 2 ^ 16 \<Longrightarrow> offset_field (a @ le_bytes 2 v @ b) n False = Some v"
  by (simp add: offset_field_def tail_from_append head_uint_append)

lemma entry_at:
  assumes body: "body = hdr @ pack_entries off (a @ x # b) @ mid @ stored (a @ x # b) @ rest"
    and ok: "\<forall>y \<in> set (a @ x # b). slot_ok y" and at: "at = length hdr + 3 * length a"
    and off: "off = length hdr + 3 * length (a @ x # b) + length mid"
  shows "\<exists>more. body = (hdr @ pack_entries off a) @ char_of (fst x) # entry_cell (off + length (stored a)) x @ more"
    "length (hdr @ pack_entries off a) = at"
    "tail_from (off + length (stored a)) body = Some ((if inline_code (fst x) then [] else snd x) @ stored b @ rest)"
proof -
  show "\<exists>more. body = (hdr @ pack_entries off a) @ char_of (fst x) # entry_cell (off + length (stored a)) x @ more"
    by (simp add: body pack_entries_append)
  show "length (hdr @ pack_entries off a) = at" using ok at by simp
  have "stored (a @ x # b) = stored a @ (if inline_code (fst x) then [] else snd x) @ stored b"
    by (simp add: stored_def split_beta)
  then have "body = (hdr @ pack_entries off (a @ x # b) @ mid @ stored a) @ (if inline_code (fst x) then [] else snd x) @ stored b @ rest"
    by (simp add: body)
  moreover have "length (hdr @ pack_entries off (a @ x # b) @ mid @ stored a) = off + length (stored a)"
    using length_pack_entries [OF ok, of off] by (simp add: off)
  ultimately show "tail_from (off + length (stored a)) body = Some ((if inline_code (fst x) then [] else snd x) @ stored b @ rest)"
    using tail_from_append by metis
qed

definition slot_of :: "json \<Rightarrow> slot" where
  "slot_of v = (json_code v, json_payload v)"

lemma code_cases:
  "json_code v \<in> {0, 2, 4, 5, 7, 9, 10, 11, 12}"
  "json_code v = 4 \<longleftrightarrow> v = JNull \<or> (\<exists>b. v = JBool b)"
  "json_code v = 5 \<longleftrightarrow> (\<exists>i. v = JNumber (NInt i) \<and> - (2 ^ 15) \<le> i \<and> i < 2 ^ 15)"
  by (cases v rule: json_code.cases; simp add: int_code_def; fail)+

lemma code_mod: "json_code v mod 256 = json_code v"
  using code_cases(1) [of v] by auto

lemma slot_ok_value: "slot_ok (slot_of v)"
  using code_cases(2,3) [of v] by (auto simp: slot_of_def slot_ok_def int_width_def int_code_def)

lemma head_int_append:
  "0 < n \<Longrightarrow> - (2 ^ (8 * n - 1)) \<le> i \<Longrightarrow> i < 2 ^ (8 * n - 1) \<Longrightarrow> head_int n (le_bytes n (as_unsigned (8 * n) i) @ b) = Some i"
proof -
  assume n: "0 < n" "- (2 ^ (8 * n - 1)) \<le> i" "i < 2 ^ (8 * n - 1)"
  have "i mod 2 ^ (8 * n) < 2 ^ (8 * n)" by simp
  then have "nat (i mod 2 ^ (8 * n)) < 2 ^ (8 * n)" by (simp add: nat_less_iff)
  then have "as_unsigned (8 * n) i < 256 ^ n" by (simp add: as_unsigned_def power_mult)
  then show ?thesis using n as_signed_unsigned [of "8 * n" i] by (simp add: head_int_def head_uint_append)
qed

lemma entry_value_read:
  assumes body: "body = hdr @ pack_entries off (a @ slot_of v # b) @ mid @ stored (a @ slot_of v # b) @ rest"
    and ok: "\<forall>y \<in> set (a @ slot_of v # b). slot_ok y" and at: "at = length hdr + 3 * length a"
    and off: "off = length hdr + 3 * length (a @ slot_of v # b) + length mid"
    and fits: "off + length (stored a) < 2 ^ 16" "small_json v"
    and dec: "\<And>rest. dec (json_code v) (json_payload v @ rest) = Inr v"
  shows "entry_value dec body at False = Inr v"
proof -
  let ?cell = "entry_cell (off + length (stored a)) (slot_of v)"
  obtain more where more: "body = (hdr @ pack_entries off a) @ char_of (json_code v) # ?cell @ more"
    using entry_at(1) [OF body ok at off] by (auto simp: slot_of_def)
  have len: "length (hdr @ pack_entries off a) = at" by (rule entry_at(2) [OF body ok at off])
  have tail: "tail_from at body = Some (char_of (json_code v) # ?cell @ more)"
    using tail_from_append [OF len] more by simp
  consider (literal) "json_code v = 4" | (short) "json_code v = 5" | (far) "json_code v \<noteq> 4" "json_code v \<noteq> 5" by blast
  then show ?thesis
  proof cases
    case literal
    then show ?thesis using tail code_cases(2) [of v]
      by (auto simp: entry_value_def code_mod slot_of_def entry_cell_def head_uint_def head_bytes_def le_value_def be_value_def json_literal_def split: if_splits)
  next
    case short
    then obtain i where i: "v = JNumber (NInt i)" "- (2 ^ 15) \<le> i" "i < 2 ^ 15" using code_cases(3) by blast
    then have "?cell = le_bytes 2 (as_unsigned 16 i)" by (simp add: slot_of_def entry_cell_def int_code_def int_width_def)
    then show ?thesis using tail short i head_int_append [of 2 i more] by (simp add: entry_value_def code_mod json_int_def)
  next
    case far
    then have cell: "?cell = le_bytes 2 (off + length (stored a))" by (simp add: slot_of_def entry_cell_def)
    have "body = ((hdr @ pack_entries off a) @ [char_of (json_code v)]) @ le_bytes 2 (off + length (stored a)) @ more"
      using more cell by simp
    then have "offset_field body (at + 1) False = Some (off + length (stored a))"
      using offset_field_append [of "(hdr @ pack_entries off a) @ [char_of (json_code v)]" "at + 1"] fits(1) len by simp
    moreover have "tail_from (off + length (stored a)) body = Some (json_payload v @ stored b @ rest)"
      using entry_at(3) [OF body ok at off] far by (simp add: slot_of_def inline_code_def)
    moreover have "json_code v \<noteq> 6" using code_cases(1) [of v] by auto
    ultimately show ?thesis using tail far dec by (simp add: entry_value_def code_mod)
  qed
qed

text \<open>Every entry of a container written for \<open>vs\<close> reads back its value.\<close>

lemma entries_read:
  assumes body: "body = hdr @ pack_entries off (map slot_of vs) @ mid @ stored (map slot_of vs) @ rest"
    and off: "off = length hdr + 3 * length vs + length mid"
    and fits: "off + length (stored (map slot_of vs)) < 2 ^ 16" "i < length vs"
    and vs: "\<forall>v \<in> set vs. small_json v \<and> (\<forall>rest. dec (json_code v) (json_payload v @ rest) = Inr v)"
  shows "entry_value dec body (length hdr + 3 * i) False = Inr (vs ! i)"
proof -
  have split: "map slot_of vs = map slot_of (take i vs) @ slot_of (vs ! i) # map slot_of (drop (Suc i) vs)"
    using fits(2) by (metis id_take_nth_drop list.simps(9) map_append)
  have "stored (map slot_of vs) = stored (map slot_of (take i vs)) @ stored (slot_of (vs ! i) # map slot_of (drop (Suc i) vs))"
    by (subst split) (rule stored_append)
  then have "off + length (stored (map slot_of (take i vs))) < 2 ^ 16" using fits(1) by simp
  moreover have "vs ! i \<in> set vs" using fits(2) by simp
  ultimately show ?thesis
    using entry_value_read [of body hdr off "map slot_of (take i vs)" "vs ! i" "map slot_of (drop (Suc i) vs)" mid rest "length hdr + 3 * i" dec]
      body off fits(2) vs slot_ok_value unfolding split [symmetric] by auto
qed

lemma decode_array_pack:
  assumes "length (pack_array (map slot_of vs)) < 2 ^ 16"
    and vs: "\<forall>v \<in> set vs. small_json v \<and> (\<forall>rest. dec (json_code v) (json_payload v @ rest) = Inr v)"
  shows "decode_array dec (pack_array (map slot_of vs) @ rest) False = Inr (JArray vs)"
proof -
  let ?n = "length vs" and ?xs = "map slot_of vs"
  let ?hdr = "le_bytes 2 ?n @ le_bytes 2 (4 + 3 * ?n + length (stored ?xs))"
  let ?body = "pack_array ?xs @ rest"
  have body: "?body = ?hdr @ pack_entries (4 + 3 * ?n) ?xs @ [] @ stored ?xs @ rest" by (simp add: pack_array_def Let_def)
  have size: "4 + 3 * ?n + length (stored ?xs) < 2 ^ 16"
    using assms(1) slot_ok_value by (simp add: pack_array_def Let_def)
  have count: "offset_field ?body 0 False = Some ?n"
    using offset_field_append [of "[]" 0 ?n] size unfolding body by simp
  have "entry_value dec ?body (4 + 3 * i) False = Inr (vs ! i)" if "i < ?n" for i
    using entries_read [OF body _ size that vs] by simp
  then have "mapr (\<lambda>i. entry_value dec ?body (4 + 3 * i) False) [0..<?n] = Inr vs"
    by (auto simp: mapr_Inr_iff intro!: nth_equalityI)
  then show ?thesis using count by (simp add: decode_array_def)
qed

lemma length_key_entries [simp]: "length (key_entries off ks) = 4 * length ks"
  by (induction ks arbitrary: off) simp_all

lemma key_entries_append: "key_entries off (a @ b) = key_entries off a @ key_entries (off + length (concat a)) b"
  by (induction a arbitrary: off) (simp_all add: add.assoc)

lemma key_read:
  assumes body: "body = hdr @ key_entries off ks @ mid @ concat ks @ rest"
    and off: "off = length hdr + 4 * length ks + length mid"
    and fits: "off + length (concat ks) < 2 ^ 16" "i < length ks"
  shows "offset_field body (length hdr + 4 * i) False = Some (off + length (concat (take i ks)))"
    "Option.bind (tail_from (length hdr + 4 * i + 2) body) (head_uint 2) = Some (length (ks ! i))"
    "Option.bind (tail_from (off + length (concat (take i ks))) body) (head_bytes (length (ks ! i))) = Some (ks ! i)"
proof -
  let ?a = "take i ks" and ?b = "drop (Suc i) ks" and ?k = "ks ! i"
  have ks: "ks = ?a @ ?k # ?b" using fits(2) by (rule id_take_nth_drop)
  have cat: "concat ks = concat ?a @ ?k @ concat ?b" by (subst ks) simp
  have small: "off + length (concat ?a) < 2 ^ 16" "length ?k < 2 ^ 16" using fits(1) unfolding cat by simp_all
  let ?more = "key_entries (off + length (concat ?a) + length ?k) ?b"
  have more: "key_entries off ks = key_entries off ?a @ le_bytes 2 (off + length (concat ?a)) @ le_bytes 2 (length ?k) @ ?more"
    by (subst ks) (simp only: key_entries_append key_entries.simps)
  have len: "length (hdr @ key_entries off ?a) = length hdr + 4 * i" using fits(2) by simp
  show "offset_field body (length hdr + 4 * i) False = Some (off + length (concat ?a))"
    using offset_field_append [OF len small(1)] by (simp add: body more)
  have "length (hdr @ key_entries off ?a @ le_bytes 2 (off + length (concat ?a))) = length hdr + 4 * i + 2" using fits(2) by simp
  from tail_from_append [OF this] show "Option.bind (tail_from (length hdr + 4 * i + 2) body) (head_uint 2) = Some (length ?k)"
    using small(2) head_uint_append [of "length ?k" 2] by (simp add: body more)
  have "length (hdr @ key_entries off ks @ mid @ concat ?a) = off + length (concat ?a)" by (simp add: off)
  from tail_from_append [OF this] show "Option.bind (tail_from (off + length (concat ?a)) body) (head_bytes (length ?k)) = Some ?k"
    by (simp add: body cat head_bytes_def)
qed

lemma bt_extend_wf:
  assumes "bt_wf m"
  shows "bt_extend [] m = m"
proof (rule bt_ext)
  have "map_of (rev m) = map_of m"
    using bt_wf_distinct [OF assms] by (subst map_of_inject_set) (simp_all add: rev_map [symmetric])
  then show "bt_get (bt_extend [] m) = bt_get m" by (simp add: bt_get_extend fun_eq_iff bt_get_def map_add_def split: option.split)
qed (use assms in auto)

lemma decode_object_pack:
  assumes size: "length (pack_object (map (\<lambda>kv. (fst kv, slot_of (snd kv))) m)) < 2 ^ 16" and wf: "bt_wf m"
    and m: "\<forall>kv \<in> set m. utf8_valid (fst kv) \<and> small_json (snd kv) \<and> (\<forall>rest. dec (json_code (snd kv)) (json_payload (snd kv) @ rest) = Inr (snd kv))"
  shows "decode_object dec (pack_object (map (\<lambda>kv. (fst kv, slot_of (snd kv))) m) @ rest) False = Inr (JObject m)"
proof -
  let ?n = "length m" and ?ks = "map fst m" and ?vs = "map snd m"
  let ?xs = "map slot_of ?vs" and ?start = "4 + 7 * length m"
  let ?off = "?start + length (concat ?ks)"
  let ?top = "le_bytes 2 ?n @ le_bytes 2 (?off + length (stored ?xs))"
  let ?hdr = "?top @ key_entries ?start ?ks"
  let ?body = "pack_object (map (\<lambda>kv. (fst kv, slot_of (snd kv))) m) @ rest"
  have body: "?body = ?hdr @ pack_entries ?off ?xs @ concat ?ks @ stored ?xs @ rest"
    by (simp add: pack_object_def Let_def o_def)
  then have keys: "?body = ?top @ key_entries ?start ?ks @ pack_entries ?off ?xs @ concat ?ks @ (stored ?xs @ rest)" by simp
  have entries: "length (pack_entries ?off ?xs) = 3 * ?n" using slot_ok_value by simp
  have fits: "?off + length (stored ?xs) < 2 ^ 16"
    using size entries by (simp add: pack_object_def Let_def o_def)
  have count: "offset_field ?body 0 False = Some ?n"
    using offset_field_append [of "[]" 0 ?n] fits unfolding body by simp
  have vs: "\<forall>v \<in> set ?vs. small_json v \<and> (\<forall>rest. dec (json_code v) (json_payload v @ rest) = Inr v)" using m by auto
  have "object_entry dec ?body False ?n i = Inr (m ! i)" if i: "i < ?n" for i
  proof -
    have v: "entry_value dec ?body (4 + 4 * ?n + 3 * i) False = Inr (snd (m ! i))"
      using entries_read [OF body _ fits _ vs, of i] i by (simp add: eval_nat_numeral)
    have ends: "?start = length ?top + 4 * length ?ks + length (pack_entries ?off ?xs)" "?start + length (concat ?ks) < 2 ^ 16" "i < length ?ks"
      using entries fits i by simp_all
    have "from_utf8_lossy (?ks ! i) = ?ks ! i" using m i by (simp add: utf8_valid_lossy)
    then show ?thesis using key_read [OF keys ends] v i by (simp add: object_entry_def ac_simps)
  qed
  then have "mapr (object_entry dec ?body False ?n) [0..<?n] = Inr m"
    by (auto simp: mapr_Inr_iff intro!: nth_equalityI)
  then show ?thesis using count wf by (simp add: decode_object_def bt_extend_wf)
qed

lemma var_len_bytes:
  "n < 2 ^ (7 * (5 - i)) \<Longrightarrow> i < 5 \<Longrightarrow> var_len_from i acc (var_bytes n @ rest) = Some (acc + n * 2 ^ (7 * i), rest)"
proof (induction n arbitrary: i acc rule: var_bytes.induct)
  case (1 n)
  show ?case
  proof (cases "n < 128")
    case True
    then show ?thesis using 1(3) by (subst var_bytes.simps) simp
  next
    case False
    have "i \<noteq> 4" using False 1(2) by auto
    then have i: "Suc i < 5" "7 * (5 - i) = 7 + 7 * (5 - Suc i)" using 1(3) by auto
    have div: "n div 128 < 2 ^ (7 * (5 - Suc i))" using 1(2) unfolding i(2) power_add by (simp add: less_mult_imp_div_less)
    have "n mod 128 * 2 ^ (7 * i) + n div 128 * 2 ^ (7 * Suc i) = (n mod 128 + n div 128 * 128) * 2 ^ (7 * i)"
      by (simp only: power_add distrib_right mult_Suc_right) simp
    then have "acc + n mod 128 * 2 ^ (7 * i) + n div 128 * 2 ^ (7 * Suc i) = acc + n * 2 ^ (7 * i)" by simp
    moreover have "128 + n mod 128 < 256" "(128 + n mod 128) mod 128 = n mod 128" by simp_all
    ultimately show ?thesis using 1(1) [OF False div i(1), of "acc + n mod 128 * 2 ^ (7 * i)"] False i(1)
      by (subst var_bytes.simps) simp
  qed
qed

lemma json_string_bytes: "utf8_valid s \<Longrightarrow> length s < 2 ^ 35 \<Longrightarrow> json_string ((var_bytes (length s) @ s) @ rest) = Some (JString s)"
  using var_len_bytes [of "length s" 0 0 "s @ rest"]
  by (simp add: json_string_def var_len_def head_bytes_def utf8_valid_lossy)

lemma decode_int_bytes:
  assumes "number_wf (NInt i)"
  shows "decode_value_with base64 dec (int_code i) (le_bytes (int_width i) (as_unsigned (8 * int_width i) i) @ rest) = Inr (JNumber (NInt i))"
proof -
  consider "int_code i = 5" | "int_code i = 7" | "int_code i = 9" | "int_code i = 10" unfolding int_code_def by meson
  then show ?thesis
  proof cases
    case 4
    then have i: "2 ^ 63 \<le> i" "i < 2 ^ 64" using assms by (auto simp: int_code_def split: if_splits)
    then have "as_unsigned 64 i < 256 ^ 8" "int (as_unsigned 64 i) = i" by (auto simp: as_unsigned_def)
    then show ?thesis using 4 head_uint_append [of "as_unsigned 64 i" 8 rest] by (simp add: decode_value_with_def int_width_def json_int_def)
  qed (use assms head_int_append [of 2 i rest] head_int_append [of 4 i rest] head_int_append [of 8 i rest] in
      \<open>auto simp: decode_value_with_def int_width_def json_int_def i64_min_def int_code_def split: if_splits\<close>)
qed

lemma depth_elem: "x \<in> set xs \<Longrightarrow> f x \<le> Max (insert 0 (f ` set xs))" for f :: "'a \<Rightarrow> nat"
  by (auto intro: Max_ge)

lemma decode_payload:
  "small_json v \<Longrightarrow> json_depth v \<le> depth \<Longrightarrow> decode_json_value base64 depth (json_code v) (json_payload v @ rest) = Inr v"
proof (induction v arbitrary: depth rest)
  case (JArray xs)
  then obtain d where d: "depth = Suc d" "Max (insert 0 (json_depth ` set xs)) \<le> d" by (cases depth) auto
  have "\<forall>v \<in> set xs. small_json v \<and> (\<forall>rest. decode_json_value base64 d (json_code v) (json_payload v @ rest) = Inr v)"
    using JArray d(2) depth_elem [of _ xs json_depth] by fastforce
  from decode_array_pack [OF _ this, of rest] show ?case
    using JArray.prems(1) d(1) by (simp add: decode_value_with_def flip: slot_of_def)
next
  case (JObject m)
  then obtain d where d: "depth = Suc d" "Max (insert 0 ((\<lambda>kv. json_depth (snd kv)) ` set m)) \<le> d" by (cases depth) auto
  have "\<forall>kv \<in> set m. utf8_valid (fst kv) \<and> small_json (snd kv) \<and>
      (\<forall>rest. decode_json_value base64 d (json_code (snd kv)) (json_payload (snd kv) @ rest) = Inr (snd kv))"
    using JObject d(2) depth_elem [of _ m "\<lambda>kv. json_depth (snd kv)"] by (fastforce simp: snds.simps)
  from decode_object_pack [OF _ _ this, of rest] show ?case
    using JObject.prems(1) d(1) by (simp add: decode_value_with_def flip: slot_of_def)
next
  case (JNumber n)
  then obtain i where "n = NInt i" "number_wf (NInt i)" by (auto split: number.splits)
  then show ?case using decode_int_bytes by (cases depth) simp_all
next
  case (JString s)
  then show ?case using json_string_bytes [of s rest] by (cases depth) (simp_all add: decode_value_with_def)
next
  case JNull
  then show ?case
    by (cases depth) (simp_all add: decode_value_with_def head_uint_def head_bytes_def le_value_def be_value_def json_literal_def)
next
  case (JBool b)
  then show ?case
    by (cases depth) (simp_all add: decode_value_with_def head_uint_def head_bytes_def le_value_def be_value_def json_literal_def)
qed



end
