(* ===== verification/My_Values.thy ===== *)
theory My_Values
  imports My_Types My_Json
begin

section \<open>Values of a row event (\<open>crates/source-mysql/src/binlog.rs\<close>)\<close>

text \<open>
  One column of a row image, read by the type code of the table map and by the shape the catalog
  resolved. The fraction of a date or time has at most six digits: the arithmetic on a
  larger number of digits overflows, which is a panic here, as it is where overflow is checked. \<open>stack\<close> is the nesting a JSON document may
  have before decoding it exhausts the stack.
\<close>

definition my_num :: "nat \<Rightarrow> json" where
  "my_num v = JNumber (NInt (int v))"

definition meta_at :: "bytes \<Rightarrow> nat \<Rightarrow> nat \<Rightarrow> nat" where
  "meta_at meta i absent = (if i < length meta then asc (meta ! i) else absent)"

definition string_like :: "(bytes \<Rightarrow> string) \<Rightarrow> value_shape option \<Rightarrow> bytes \<Rightarrow> json" where
  "string_like base64 shape b =
     (case shape of Some ShapeBytes \<Rightarrow> JString (base64 b) | _ \<Rightarrow> JString (from_utf8_lossy b))"

definition signed_int :: "nat \<Rightarrow> json my_reading" where
  "signed_int n b = bindr (my_take n b) (\<lambda>(raw, b). Inr (JNumber (NInt (as_signed (8 * n) (le_value raw))), b))"

definition unsigned_int :: "nat \<Rightarrow> json my_reading" where
  "unsigned_int n b = bindr (my_uint n b) (\<lambda>(v, b). Inr (my_num v, b))"

definition my_read_int :: "bool \<Rightarrow> nat \<Rightarrow> json my_reading" where
  "my_read_int uns n = (if uns then unsigned_int n else signed_int n)"

text \<open>The three-byte integer is sign-extended and then read as an uns one.\<close>

definition read_mediumint :: "bool \<Rightarrow> json my_reading" where
  "read_mediumint uns b =
     bindr (my_uint 3 b) (\<lambda>(v, b). Inr (my_num (if uns then v else as_unsigned 64 (as_signed 24 v)), b))"

definition date_text :: "nat \<Rightarrow> nat \<Rightarrow> nat \<Rightarrow> string" where
  "date_text year month day = pad_left 4 (show_nat year) @ ''-'' @ pad_left 2 (show_nat month) @ ''-'' @ pad_left 2 (show_nat day)"

definition time_text :: "nat \<Rightarrow> nat \<Rightarrow> nat \<Rightarrow> string" where
  "time_text hour minute second = pad_left 2 (show_nat hour) @ '':'' @ pad_left 2 (show_nat minute) @ '':'' @ pad_left 2 (show_nat second)"

definition read_date :: "json my_reading" where
  "read_date b = bindr (my_uint 3 b) (\<lambda>(v, b). Inr (JString (date_text (v div 2 ^ 9) (v div 2 ^ 5 mod 2 ^ 4) (v mod 2 ^ 5)), b))"

definition format_unix_ts :: "nat \<Rightarrow> nat \<Rightarrow> string" where
  "format_unix_ts secs micros =
     (let days = secs div 86400; rem = secs mod 86400; z = days + 719468; era = z div 146097; doe = z mod 146097;
          yoe = (doe - doe div 1460 + doe div 36524 - doe div 146096) div 365; y = yoe + era * 400;
          doy = doe - (365 * yoe + yoe div 4 - yoe div 100); mp = (5 * doy + 2) div 153;
          d = doy - (153 * mp + 2) div 5 + 1; m = (if mp < 10 then mp + 3 else mp - 9); y = (if m \<le> 2 then y + 1 else y)
      in date_text y m d @ '' '' @ time_text (rem div 3600) (rem mod 3600 div 60) (rem mod 60) @
         (if 0 < micros then ''.'' @ pad_left 6 (show_nat micros) else []))"

definition OVERFLOW :: decode_error where
  "OVERFLOW = Panic ''arithmetic overflow''"

text \<open>The length of a fraction of so many digits: half as many bytes, rounded up.\<close>

definition frac_bytes :: "nat \<Rightarrow> nat" where
  "frac_bytes fsp = (fsp + 1) div 2"

definition read_timestamp :: "nat \<Rightarrow> json my_reading" where
  "read_timestamp fsp b =
     bindr (my_take 4 b) (\<lambda>(secs_raw, b).
     bindr (my_take (frac_bytes fsp) b) (\<lambda>(frac_raw, b).
       if 6 < fsp then Inl OVERFLOW
       else Inr (JString (format_unix_ts (be_value secs_raw) (le_value frac_raw * 10 ^ (6 - fsp))), b)))"

definition read_datetime :: "nat \<Rightarrow> json my_reading" where
  "read_datetime fsp b =
     bindr (my_take 5 b) (\<lambda>(raw, b).
     bindr (my_take (frac_bytes fsp) b) (\<lambda>(frac_raw, b).
       if 6 < fsp then Inl OVERFLOW
       else
         (let int_part = be_value raw; ym = int_part div 2 ^ 22 mod 2 ^ 17; day = int_part div 2 ^ 17 mod 2 ^ 5;
              hour = int_part div 2 ^ 12 mod 2 ^ 5; minute = int_part div 2 ^ 6 mod 2 ^ 6; second = int_part mod 2 ^ 6;
              micros = be_value frac_raw * 10 ^ (6 - fsp);
              frac_str = (if 0 < fsp then ''.'' @ pad_left fsp (show_nat (micros div 10 ^ (6 - fsp))) else [])
          in Inr (JString (date_text (ym div 13) (ym mod 13) day @ '' '' @ time_text hour minute second @ frac_str), b))))"

definition read_time :: "nat \<Rightarrow> json my_reading" where
  "read_time fsp b =
     (let nbytes = 3 + frac_bytes fsp in
      bindr (my_take nbytes b) (\<lambda>(raw, b).
        if 8 < nbytes then Inl OVERFLOW
        else
          (let negative = asc (hd raw) < 128;
               v = be_value (if negative then map flip_byte raw else raw) mod 2 ^ (nbytes * 8 - 1)
           in Inr (JString ((if negative then ''-'' else []) @ time_text (v div 2 ^ 24) (v div 2 ^ 16 mod 2 ^ 8) (v div 2 ^ 8 mod 2 ^ 8)), b))))"

definition read_blob :: "(bytes \<Rightarrow> json) \<Rightarrow> nat \<Rightarrow> json my_reading" where
  "read_blob f width b = bindr (read_uint_n width b) (\<lambda>(len, b). bindr (my_take len b) (\<lambda>(s, b). Inr (f s, b)))"

definition my_read_string :: "(bytes \<Rightarrow> string) \<Rightarrow> bytes \<Rightarrow> value_shape option \<Rightarrow> json my_reading" where
  "my_read_string base64 meta shape b =
     (let real = meta_at meta 0 254 in
      if real = 247 then
        bindr (my_uint 1 b) (\<lambda>(ordinal, b).
          Inr (case shape of Some (ShapeEnum names) \<Rightarrow> enum_label names ordinal | _ \<Rightarrow> my_num ordinal, b))
      else if real = 248 then
        bindr (read_uint_n (meta_at meta 1 1) b) (\<lambda>(bits, b).
          Inr (case shape of Some (ShapeSet names) \<Rightarrow> set_labels names bits | _ \<Rightarrow> my_num bits, b))
      else
        bindr (my_uint (if 128 \<le> meta_at meta 1 0 then 2 else 1) b) (\<lambda>(len, b).
        bindr (my_take len b) (\<lambda>(s, b). Inr (string_like base64 shape s, b))))"

text \<open>A document that does not decode is kept as its bytes.\<close>

definition hex_text :: "bytes \<Rightarrow> string" where
  "hex_text b = concat (map (\<lambda>c. map (\<lambda>d. if d < 10 then char_of (48 + d) else char_of (87 + d)) [asc c div 16, asc c mod 16]) b)"

definition read_json :: "(bytes \<Rightarrow> string) \<Rightarrow> nat \<Rightarrow> nat \<Rightarrow> json my_reading" where
  "read_json base64 stack width b =
     bindr (read_uint_n width b) (\<lambda>(len, b).
     bindr (my_take len b) (\<lambda>(doc, b).
       case decode_json base64 stack doc of
         Inr v \<Rightarrow> Inr (v, b)
       | Inl Malformed \<Rightarrow> Inr (JString (''__mysql_json_hex:'' @ hex_text doc), b)
       | Inl Crash \<Rightarrow> Inl (Panic ''decoding a JSON document'')))"

definition read_bits :: "bytes \<Rightarrow> json my_reading" where
  "read_bits meta b =
     (let bits = meta_at meta 1 0 * 8 + meta_at meta 0 0
      in bindr (my_take (max ((bits + 7) div 8) 1) b) (\<lambda>(s, b). Inr (my_num (be_uint s), b)))"

definition decode_value_inner ::
  "(bytes \<Rightarrow> string) \<Rightarrow> nat \<Rightarrow> nat \<Rightarrow> bytes \<Rightarrow> bool \<Rightarrow> value_shape option \<Rightarrow> json my_reading" where
  "decode_value_inner base64 stack ty meta uns shape b =
     (if ty = 1 then my_read_int uns 1 b
      else if ty = 2 then my_read_int uns 2 b
      else if ty = 9 then read_mediumint uns b
      else if ty = 3 then my_read_int uns 4 b
      else if ty = 8 then my_read_int uns 8 b
      else if ty = 13 then bindr (my_uint 1 b) (\<lambda>(v, b). Inr (my_num (v + 1900), b))
      else if ty = 10 \<or> ty = 14 then read_date b
      else if ty = 17 then read_timestamp (meta_at meta 0 0) b
      else if ty = 18 then read_datetime (meta_at meta 0 0) b
      else if ty = 19 then read_time (meta_at meta 0 0) b
      else if ty = 246 then bindr (decode_decimal (meta_at meta 0 0) (meta_at meta 1 0) b) (\<lambda>(s, b). Inr (JString s, b))
      else if ty = 15 \<or> ty = 253 then
        bindr (my_uint (if meta_at meta 0 0 + 256 * meta_at meta 1 0 < 256 then 1 else 2) b) (\<lambda>(len, b).
        bindr (my_take len b) (\<lambda>(s, b). Inr (string_like base64 shape s, b)))
      else if ty = 254 then my_read_string base64 meta shape b
      else if ty = 245 then read_json base64 stack (meta_at meta 0 4) b
      else if 249 \<le> ty \<and> ty \<le> 252 then read_blob (string_like base64 shape) (meta_at meta 0 1) b
      else if ty = 16 then read_bits meta b
      else if ty = 255 then read_blob (\<lambda>s. JString (base64 s)) (meta_at meta 0 1) b
      else Inl (UnsupportedType ty (if ty = 0 then ''decimal'' else ''?'')))"

end
