(* ===== verification/My_Events.thy ===== *)
theory My_Events
  imports My_Decimal Load_State
begin

section \<open>Binlog events (\<open>crates/source-mysql/src/binlog.rs\<close>)\<close>

text \<open>
  The header of an event and the bodies that carry no rows: transaction identifiers, the format
  description, the rotation to another file, the end of a transaction, a statement, and the table a
  statement names. \<open>alnum\<close> is \<open>char::is_alphanumeric\<close> beyond ASCII, as in \<^theory_text>\<open>Load_State\<close>.
\<close>

abbreviation (input) "T_QUERY \<equiv> 2 :: nat"
abbreviation (input) "T_ROTATE \<equiv> 4 :: nat"
abbreviation (input) "T_FORMAT_DESCRIPTION \<equiv> 15 :: nat"
abbreviation (input) "T_XID \<equiv> 16 :: nat"
abbreviation (input) "T_TABLE_MAP \<equiv> 19 :: nat"
abbreviation (input) "T_WRITE_ROWS_V1 \<equiv> 20 :: nat"
abbreviation (input) "T_UPDATE_ROWS_V1 \<equiv> 21 :: nat"
abbreviation (input) "T_DELETE_ROWS_V1 \<equiv> 22 :: nat"
abbreviation (input) "T_MARIA_WRITE_ROWS_V2 \<equiv> 23 :: nat"
abbreviation (input) "T_MARIA_UPDATE_ROWS_V2 \<equiv> 24 :: nat"
abbreviation (input) "T_MARIA_DELETE_ROWS_V2 \<equiv> 25 :: nat"
abbreviation (input) "T_HEARTBEAT \<equiv> 27 :: nat"
abbreviation (input) "T_WRITE_ROWS_V2 \<equiv> 30 :: nat"
abbreviation (input) "T_UPDATE_ROWS_V2 \<equiv> 31 :: nat"
abbreviation (input) "T_DELETE_ROWS_V2 \<equiv> 32 :: nat"
abbreviation (input) "T_GTID \<equiv> 33 :: nat"
abbreviation (input) "T_ANONYMOUS_GTID \<equiv> 34 :: nat"
abbreviation (input) "T_PARTIAL_UPDATE_ROWS \<equiv> 39 :: nat"
abbreviation (input) "T_GTID_TAGGED \<equiv> 42 :: nat"
abbreviation (input) "T_MARIA_GTID \<equiv> 162 :: nat"
abbreviation (input) "HEADER_LEN \<equiv> 19 :: nat"

subsection \<open>Headers and bodies without rows\<close>

record event_header =
  eh_timestamp :: nat
  eh_event_type :: nat
  eh_event_size :: nat
  eh_log_pos :: nat
  eh_server_id :: nat

definition sub_bytes :: "nat \<Rightarrow> nat \<Rightarrow> bytes \<Rightarrow> bytes" where
  "sub_bytes a b s = take (b - a) (drop a s)"

definition parse_header :: "bytes \<Rightarrow> event_header option" where
  "parse_header ev =
     (if length ev < HEADER_LEN then None
      else Some \<lparr>eh_timestamp = le_value (sub_bytes 0 4 ev), eh_event_type = asc (ev ! 4),
             eh_event_size = le_value (sub_bytes 9 13 ev), eh_log_pos = le_value (sub_bytes 13 17 ev),
             eh_server_id = le_value (sub_bytes 5 9 ev)\<rparr>)"

definition hex2 :: "char \<Rightarrow> string" where
  "hex2 b = map (\<lambda>d. if d < 10 then char_of (48 + d) else char_of (87 + d)) [asc b div 16, asc b mod 16]"

definition format_uuid :: "bytes \<Rightarrow> string" where
  "format_uuid raw =
     (let hex = concat (map hex2 raw)
      in sub_bytes 0 8 hex @ ''-'' @ sub_bytes 8 12 hex @ ''-'' @ sub_bytes 12 16 hex @ ''-'' @ sub_bytes 16 20 hex @ ''-'' @ sub_bytes 20 32 hex)"

definition parse_mysql_gtid :: "bytes \<Rightarrow> (string \<times> nat) option" where
  "parse_mysql_gtid body =
     (if length body < 25 then None
      else
        (let gno = as_signed 64 (le_value (sub_bytes 17 25 body))
         in if 0 < gno then Some (format_uuid (sub_bytes 1 17 body), nat gno) else None))"

definition parse_maria_gtid :: "bytes \<Rightarrow> (nat \<times> nat) option" where
  "parse_maria_gtid body =
     (if length body < 13 then None
      else
        (let seq_no = le_value (sub_bytes 0 8 body); domain = le_value (sub_bytes 8 12 body)
         in if 0 < seq_no then Some (domain, seq_no) else None))"

definition parse_fde :: "bytes \<Rightarrow> nat \<times> nat" where
  "parse_fde body =
     (if length body < 62 then (19, 4)
      else
        (let alg = asc (body ! (length body - 5))
         in (max (asc (body ! 56)) 19, if alg = 1 then 4 else 0)))"

text \<open>
  The position of the terminating zero is counted from the name and used as an index into the
  payload: a slice that ends before it begins is a panic.
\<close>

record rotate_info =
  ri_next_file :: string
  ri_position :: nat

definition parse_rotate :: "bytes \<Rightarrow> (decode_error, rotate_info option) result" where
  "parse_rotate payload =
     (case my_uint 8 payload of
        Inl _ \<Rightarrow> Inr None
      | Inr (position, rest) \<Rightarrow>
          (let end = (if CHR 0x00 \<in> set rest then length (takeWhile (\<lambda>b. b \<noteq> CHR 0x00) rest) else length payload)
           in if end < 8 then Inl (Panic ''slice index starts after its end'')
              else Inr (Some \<lparr>ri_next_file = from_utf8_lossy (sub_bytes 8 end payload), ri_position = position\<rparr>)))"

definition parse_xid :: "bytes \<Rightarrow> nat option" where
  "parse_xid payload = (case my_uint 8 payload of Inl _ \<Rightarrow> None | Inr (xid, _) \<Rightarrow> Some xid)"

record query_info =
  qi_database :: string
  qi_sql :: string

definition read_query :: "query_info my_reading" where
  "read_query b =
     bindr (my_uint 4 b) (\<lambda>(_, b).
     bindr (my_uint 4 b) (\<lambda>(_, b).
     bindr (my_uint 1 b) (\<lambda>(db_len, b).
     bindr (my_uint 2 b) (\<lambda>(_, b).
     bindr (my_uint 2 b) (\<lambda>(status_len, b).
     bindr (my_take status_len b) (\<lambda>(_, b).
     bindr (my_take db_len b) (\<lambda>(db, b).
     bindr (my_uint 1 b) (\<lambda>(_, b).
       Inr (\<lparr>qi_database = from_utf8_lossy db, qi_sql = from_utf8_lossy b\<rparr>, b)))))))))"

definition parse_query :: "bytes \<Rightarrow> query_info option" where
  "parse_query payload = (case read_query payload of Inl _ \<Rightarrow> None | Inr (q, _) \<Rightarrow> Some q)"

subsection \<open>The table a statement names\<close>

fun words_of :: "string \<Rightarrow> string list \<Rightarrow> string list" where
  "words_of acc [] = (if acc = [] then [] else [acc])"
| "words_of acc (c # cs) =
     (if c \<in> set whitespace then (if acc = [] then words_of [] cs else acc # words_of [] cs) else words_of (acc @ c) cs)"

definition split_whitespace :: "string \<Rightarrow> string list" where
  "split_whitespace s = words_of [] (utf8_chars s)"

definition read_identifier :: "(string \<Rightarrow> bool) \<Rightarrow> string \<Rightarrow> (string \<times> string) option" where
  "read_identifier alnum raw =
     (case strip_prefix ''`'' raw of
        Some quoted \<Rightarrow> split_once (CHR ''`'') quoted
      | None \<Rightarrow>
          (let ident = concat (takeWhile (\<lambda>c. is_alphanumeric alnum c \<or> c = ''_'' \<or> c = ''$'') (utf8_chars raw))
           in if ident = [] then None else Some (ident, drop (length ident) raw)))"

definition split_qualified_name :: "(string \<Rightarrow> bool) \<Rightarrow> string \<Rightarrow> string \<Rightarrow> (string \<times> string) option" where
  "split_qualified_name alnum raw default_db =
     Option.bind (read_identifier alnum raw) (\<lambda>(first, rest).
       case strip_prefix ''.'' rest of
         Some after_dot \<Rightarrow>
           Option.bind (read_identifier alnum after_dot) (\<lambda>(table, _).
             if first \<noteq> [] \<and> table \<noteq> [] then Some (first, table) else None)
       | None \<Rightarrow>
           (let schema = trim default_db in if schema \<noteq> [] \<and> first \<noteq> [] then Some (schema, first) else None))"

text \<open>An optional word of the statement, skipped where it is the next one.\<close>

fun skip_word :: "string \<Rightarrow> string list \<Rightarrow> string list" where
  "skip_word w [] = []"
| "skip_word w (x # xs) = (if eq_ignore_ascii_case x w then xs else x # xs)"

definition truncated_table :: "(string \<Rightarrow> bool) \<Rightarrow> string \<Rightarrow> string \<Rightarrow> (string \<times> string) option" where
  "truncated_table alnum sql default_db =
     (case split_whitespace sql of
        [] \<Rightarrow> None
      | verb # words \<Rightarrow>
          if \<not> eq_ignore_ascii_case verb ''TRUNCATE'' then None
          else case skip_word ''TABLE'' words of [] \<Rightarrow> None | name # _ \<Rightarrow> split_qualified_name alnum name default_db)"

definition dropped_table :: "(string \<Rightarrow> bool) \<Rightarrow> string \<Rightarrow> string \<Rightarrow> (string \<times> string) option" where
  "dropped_table alnum sql default_db =
     (case split_whitespace sql of
        verb # what # words \<Rightarrow>
          if \<not> eq_ignore_ascii_case verb ''DROP'' \<or> \<not> eq_ignore_ascii_case what ''TABLE'' then None
          else
            (case skip_word ''EXISTS'' (skip_word ''IF'' words) of
               [] \<Rightarrow> None
             | name # _ \<Rightarrow> split_qualified_name alnum name default_db)
      | _ \<Rightarrow> None)"

subsection \<open>Words of a statement\<close>

definition plain_word :: "string \<Rightarrow> bool" where
  "plain_word w \<longleftrightarrow> w \<noteq> [] \<and> (\<forall>c \<in> set w. 33 \<le> asc c \<and> asc c \<le> 126)"

lemma ascii_chars: "(\<forall>c \<in> set s. asc c < 128) \<Longrightarrow> utf8_chars s = map (\<lambda>c. [c]) s"
proof (induction s)
  case (Cons c cs)
  have "cs = [] \<or> \<not> is_continuation (hd cs)" using Cons.prems by (cases cs) (auto simp: is_continuation_def)
  then have "takeWhile is_continuation cs = []" "dropWhile is_continuation cs = cs" by (cases cs; simp)+
  then have "utf8_chars (c # cs) = [c] # utf8_chars cs" by (subst utf8_chars.simps) simp
  then show ?case using Cons by simp
qed simp

lemma space_is_white: "'' '' \<in> set whitespace"
  by code_simp

lemma plain_not_white: "33 \<le> asc c \<Longrightarrow> asc c \<le> 126 \<Longrightarrow> [c] \<notin> set whitespace"
  by (auto simp: whitespace_def)

lemma words_of_plain: "(\<forall>c \<in> set w. 33 \<le> asc c \<and> asc c \<le> 126) \<Longrightarrow> words_of acc (map (\<lambda>c. [c]) w @ cs) = words_of (acc @ w) cs"
  by (induction w arbitrary: acc) (simp_all add: plain_not_white)

lemma words_of_join: "(\<forall>w \<in> set ws. plain_word w) \<Longrightarrow> words_of [] (map (\<lambda>c. [c]) (join '' '' ws)) = ws"
proof (induction ws rule: induct_list012)
  case (2 w)
  then show ?case using words_of_plain [of w "[]" "[]"] by (simp add: plain_word_def)
next
  case (3 v w ws)
  then show ?case using words_of_plain [of v "[]"] space_is_white by (simp add: plain_word_def)
qed simp

lemma join_set: "set (join sep ws) \<subseteq> set sep \<union> (\<Union>w \<in> set ws. set w)"
  by (induction ws rule: induct_list012) auto

lemma split_whitespace_join:
  assumes "\<forall>w \<in> set ws. plain_word w"
  shows "split_whitespace (join '' '' ws) = ws"
proof -
  have "asc c < 128" if "c \<in> set (join '' '' ws)" for c
  proof -
    from that join_set [of "'' ''" ws] consider "c = CHR '' ''" | w where "w \<in> set ws" "c \<in> set w" by auto
    then show ?thesis
    proof cases
      case 2
      then have "asc c \<le> 126" using assms unfolding plain_word_def by blast
      then show ?thesis by simp
    qed simp
  qed
  then show ?thesis using words_of_join [OF assms] by (simp add: split_whitespace_def ascii_chars)
qed

lemma read_quoted: "CHR ''`'' \<notin> set a \<Longrightarrow> read_identifier alnum (''`'' @ a @ ''`'' @ rest) = Some (a, rest)"
  using split_once_append [of "CHR ''`''" a rest] by (simp add: read_identifier_def)

lemma qualified_quoted:
  assumes "schema \<noteq> []" "table \<noteq> []" "CHR ''`'' \<notin> set schema" "CHR ''`'' \<notin> set table"
  shows "split_qualified_name alnum (''`'' @ schema @ ''`.`'' @ table @ ''`'' @ rest) db = Some (schema, table)"
  using read_quoted [OF assms(3), of alnum "''.`'' @ table @ ''`'' @ rest"] read_quoted [OF assms(4), of alnum rest] assms(1,2)
  by (simp add: split_qualified_name_def)

text \<open>
  A truncation is seen whatever the case of its keywords, whether or not it says \<open>TABLE\<close>, and
  whatever follows the quoted name.
\<close>

lemma truncation_seen:
  assumes "eq_ignore_ascii_case verb ''TRUNCATE''" "eq_ignore_ascii_case what ''TABLE''"
    and words: "plain_word verb" "plain_word what" "plain_word schema" "plain_word table" "\<forall>w \<in> set (rest # others). w = [] \<or> plain_word w"
    and quotes: "CHR ''`'' \<notin> set schema" "CHR ''`'' \<notin> set table" and others: "[] \<notin> set others"
    and stated: "opt = [] \<or> opt = [what]"
  shows "truncated_table alnum (join '' '' (verb # opt @ (''`'' @ schema @ ''`.`'' @ table @ ''`'' @ rest) # others)) db = Some (schema, table)"
proof -
  let ?name = "''`'' @ schema @ ''`.`'' @ table @ ''`'' @ rest"
  have "\<forall>w \<in> set (verb # opt @ ?name # others). plain_word w" using words others stated by (auto simp: plain_word_def)
  then have split: "split_whitespace (join '' '' (verb # opt @ ?name # others)) = verb # opt @ ?name # others" by (rule split_whitespace_join)
  have "\<not> eq_ignore_ascii_case ?name ''TABLE''"
  proof -
    have "to_ascii_uppercase (CHR ''`'') \<noteq> to_ascii_uppercase (CHR ''T'')" by code_simp
    then show ?thesis by (simp add: eq_ignore_ascii_case_def)
  qed
  then have "skip_word ''TABLE'' (opt @ ?name # others) = ?name # others" using stated assms(2) by auto
  then show ?thesis
    unfolding truncated_table_def split using assms(1) words qualified_quoted [of schema table alnum rest db] quotes
    by (simp add: plain_word_def)
qed

subsection \<open>What the statement reader misses\<close>

text \<open>The name is taken from the word it starts in, quoted or not: a quoted name with a space in it is
  not read at all, and the truncation of such a table goes unseen.\<close>

lemma truncate_spaced_name_unseen: "truncated_table alnum ''TRUNCATE TABLE `order items`'' ''shop'' = None"
proof -
  have "split_whitespace ''TRUNCATE TABLE `order items`'' = [''TRUNCATE'', ''TABLE'', ''`order'', ''items`'']"
    using split_whitespace_join [of "[''TRUNCATE'', ''TABLE'', ''`order'', ''items`'']"] by (simp add: plain_word_def)
  then show ?thesis by (simp add: truncated_table_def split_qualified_name_def read_identifier_def)
qed

text \<open>A comment before the statement hides it.\<close>

lemma truncate_commented_unseen: "truncated_table alnum ''/* nightly */ TRUNCATE TABLE orders'' ''shop'' = None"
proof -
  have "split_whitespace ''/* nightly */ TRUNCATE TABLE orders'' = [''/*'', ''nightly'', ''*/'', ''TRUNCATE'', ''TABLE'', ''orders'']"
    using split_whitespace_join [of "[''/*'', ''nightly'', ''*/'', ''TRUNCATE'', ''TABLE'', ''orders'']"] by (simp add: plain_word_def)
  then show ?thesis by (simp add: truncated_table_def eq_ignore_ascii_case_def)
qed

lemma rotate_terminated_name_panics:
  "parse_rotate (map char_of [4, 0, 0, 0, 0, 0, 0, 0, 98, 46, 49, 0 :: nat]) = Inl (Panic ''slice index starts after its end'')"
  by code_simp

end
