(* ===== verification/My_Rows.thy ===== *)
theory My_Rows
  imports My_Values My_Events
begin

section \<open>Table maps and row events (\<open>crates/source-mysql/src/binlog.rs\<close>)\<close>

text \<open>
  The table a row event belongs to is described by a table map event before it; the row event holds
  a bitmap of the columns present and, for each row, a bitmap of the nulls and the values of the
  rest. Nothing in the loop over the rows requires a row to hold a byte, so it is a partial function:
  \<open>None\<close> is a loop that does not end.
\<close>

record col_meta =
  cm_name :: string
  cm_type_code :: nat
  cm_meta :: bytes
  cm_unsigned :: bool
  cm_primary_key :: bool
  cm_shape :: "value_shape option"

record table_meta =
  tm_schema :: string
  tm_name :: string
  tm_columns :: "col_meta list"

record optional_meta =
  om_column_names :: "string list"
  om_pk_column_indexes :: "nat list"

subsection \<open>Table maps\<close>

definition meta_size :: "nat \<Rightarrow> nat" where
  "meta_size ty =
     (if ty = 15 \<or> ty = 253 \<or> ty = 254 \<or> ty = 246 \<or> ty = 16 then 2
      else if 17 \<le> ty \<and> ty \<le> 19 then 1
      else if ty = 245 then 1
      else if 250 \<le> ty \<and> ty \<le> 252 then 1
      else 0)"

fun column_metas :: "bytes \<Rightarrow> nat list \<Rightarrow> col_meta list" where
  "column_metas area [] = []"
| "column_metas area (ty # tys) =
     (let sz = meta_size ty
      in \<lparr>cm_name = [], cm_type_code = ty, cm_meta = (if sz \<le> length area then take sz area else []),
          cm_unsigned = False, cm_primary_key = False, cm_shape = None\<rparr> # column_metas (drop sz area) tys)"

lemma my_take_shorter: "my_take n b = Inr (s, b') \<Longrightarrow> length b = n + length b'"
  by (auto simp: my_take_def split: if_splits)

lemma my_uint_shorter: "my_uint n b = Inr (v, b') \<Longrightarrow> length b = n + length b'"
  by (auto simp: my_uint_def bindr_Inr_iff dest: my_take_shorter)

lemma lenenc_shorter: "lenenc b = Inr (v, b') \<Longrightarrow> length b' < length b"
  by (auto simp: lenenc_def bindr_Inr_iff dest!: my_uint_shorter split: if_splits)

function lenenc_all :: "bytes \<Rightarrow> nat list" where
  "lenenc_all b = (case lenenc b of Inl _ \<Rightarrow> [] | Inr (i, b') \<Rightarrow> i # lenenc_all b')"
  by auto
termination by (relation "measure length") (auto dest: lenenc_shorter)

declare lenenc_all.simps [simp del]

definition read_tlv :: "(nat \<times> bytes) my_reading" where
  "read_tlv b =
     bindr (my_uint 2 b) (\<lambda>(ty, b). bindr (my_uint 2 b) (\<lambda>(ln, b). bindr (my_take ln b) (\<lambda>(val, b). Inr ((ty, val), b))))"

lemma read_tlv_shorter: "read_tlv b = Inr (x, b') \<Longrightarrow> length b' < length b"
  by (auto simp: read_tlv_def bindr_Inr_iff dest!: my_uint_shorter my_take_shorter)

definition apply_tlv :: "nat \<times> bytes \<Rightarrow> optional_meta \<Rightarrow> optional_meta" where
  "apply_tlv tlv opt =
     (case tlv of (ty, val) \<Rightarrow>
        if ty = 3 then opt\<lparr>om_column_names := filter (\<lambda>s. s \<noteq> []) (split_char (CHR 0x00) (from_utf8_lossy val))\<rparr>
        else if ty = 5 then opt\<lparr>om_pk_column_indexes := om_pk_column_indexes opt @ lenenc_all val\<rparr>
        else opt)"

function read_tlvs :: "bytes \<Rightarrow> optional_meta \<Rightarrow> optional_meta" where
  "read_tlvs b opt =
     (if length b < 4 then opt
      else case read_tlv b of Inl _ \<Rightarrow> opt | Inr (tlv, b') \<Rightarrow> read_tlvs b' (apply_tlv tlv opt))"
  by pat_completeness auto
termination by (relation "measure (\<lambda>(b, _). length b)") (auto dest: read_tlv_shorter)

declare read_tlvs.simps [simp del]

definition name_columns :: "optional_meta \<Rightarrow> col_meta list \<Rightarrow> col_meta list" where
  "name_columns opt cs =
     map (\<lambda>(i, cm). cm\<lparr>cm_name := (if i < length (om_column_names opt) then om_column_names opt ! i else cm_name cm),
                        cm_primary_key := (i \<in> set (om_pk_column_indexes opt))\<rparr>) (enumerate 0 cs)"

definition parse_table_map :: "bytes \<Rightarrow> (decode_error, nat \<times> table_meta \<times> optional_meta) result" where
  "parse_table_map payload =
     bindr (my_uint 6 payload) (\<lambda>(table_id, b).
     bindr (my_uint 2 b) (\<lambda>(_, b).
     bindr (my_uint 1 b) (\<lambda>(slen, b).
     bindr (my_take slen b) (\<lambda>(schema, b).
     bindr (my_uint 1 b) (\<lambda>(_, b).
     bindr (my_uint 1 b) (\<lambda>(tlen, b).
     bindr (my_take tlen b) (\<lambda>(name, b).
     bindr (my_uint 1 b) (\<lambda>(_, b).
     bindr (lenenc b) (\<lambda>(ncols, b).
     bindr (my_take ncols b) (\<lambda>(types, b).
     bindr (lenenc b) (\<lambda>(meta_block_len, b).
     bindr (my_take meta_block_len b) (\<lambda>(meta_area, b).
     bindr (my_take ((ncols + 7) div 8) b) (\<lambda>(_, b).
       let opt = read_tlvs b \<lparr>om_column_names = [], om_pk_column_indexes = []\<rparr>
       in Inr (table_id, \<lparr>tm_schema = from_utf8_lossy schema, tm_name = from_utf8_lossy name,
            tm_columns = name_columns opt (column_metas meta_area (map asc types))\<rparr>, opt))))))))))))))"

subsection \<open>Row events\<close>

datatype rows_kind = WriteRows | UpdateRows | DeleteRows

definition rows_kind_for_type :: "nat \<Rightarrow> rows_kind option" where
  "rows_kind_for_type ty =
     (if ty = T_WRITE_ROWS_V1 \<or> ty = T_WRITE_ROWS_V2 \<or> ty = T_MARIA_WRITE_ROWS_V2 then Some WriteRows
      else if ty = T_UPDATE_ROWS_V1 \<or> ty = T_UPDATE_ROWS_V2 \<or> ty = T_MARIA_UPDATE_ROWS_V2 then Some UpdateRows
      else if ty = T_DELETE_ROWS_V1 \<or> ty = T_DELETE_ROWS_V2 \<or> ty = T_MARIA_DELETE_ROWS_V2 then Some DeleteRows
      else None)"

definition bmp_bit :: "bytes \<Rightarrow> nat \<Rightarrow> bool" where
  "bmp_bit bmp i \<longleftrightarrow> i div 8 < length bmp \<and> odd (asc (bmp ! (i div 8)) div 2 ^ (i mod 8))"

type_synonym row_image = "json option list"

record rows_row =
  rr_before :: "row_image option"
  rr_after :: "row_image option"

record rows_row_set =
  rs_table_id :: nat
  rs_kind :: rows_kind
  rs_rows :: "rows_row list"

fun image_columns :: "(col_meta \<Rightarrow> json my_reading) \<Rightarrow> bytes \<Rightarrow> bytes \<Rightarrow> nat \<Rightarrow> nat \<Rightarrow> col_meta list \<Rightarrow> row_image my_reading" where
  "image_columns decode present nulls i k [] b = Inr ([], b)"
| "image_columns decode present nulls i k (cm # cms) b =
     (if \<not> bmp_bit present i then
        bindr (image_columns decode present nulls (Suc i) k cms b) (\<lambda>(out, b). Inr (None # out, b))
      else
        bindr (if bmp_bit nulls k then Inr (JNull, b) else decode cm b) (\<lambda>(v, b).
        bindr (image_columns decode present nulls (Suc i) (Suc k) cms b) (\<lambda>(out, b). Inr (Some v # out, b))))"

definition decode_column :: "(bytes \<Rightarrow> string) \<Rightarrow> nat \<Rightarrow> col_meta \<Rightarrow> json my_reading" where
  "decode_column base64 stack cm = decode_value_inner base64 stack (cm_type_code cm) (cm_meta cm) (cm_unsigned cm) (cm_shape cm)"

definition present_count :: "nat \<Rightarrow> bytes \<Rightarrow> nat" where
  "present_count ncols present = length (filter (bmp_bit present) [0..<ncols])"

definition decode_image :: "(col_meta \<Rightarrow> json my_reading) \<Rightarrow> table_meta \<Rightarrow> nat \<Rightarrow> bytes \<Rightarrow> row_image my_reading" where
  "decode_image decode meta ncols present b =
     bindr (my_take ((present_count ncols present + 7) div 8) b) (\<lambda>(nulls, b).
       image_columns decode present nulls 0 0 (tm_columns meta) b)"

definition read_row :: "(bytes \<Rightarrow> row_image my_reading) \<Rightarrow> rows_kind \<Rightarrow> bytes \<Rightarrow> bytes \<Rightarrow> rows_row my_reading" where
  "read_row img_of kind after_bmp before_bmp b =
     bindr (if kind = UpdateRows then bindr (img_of before_bmp b) (\<lambda>(img, b). Inr (Some img, b)) else Inr (None, b)) (\<lambda>(before, b).
     bindr (img_of after_bmp b) (\<lambda>(after, b).
       Inr (\<lparr>rr_before = before, rr_after = Some after\<rparr>, b)))"

partial_function (option) rows_loop :: "rows_row my_reading \<Rightarrow> rows_row list \<Rightarrow> bytes \<Rightarrow> (decode_error, rows_row list) result option" where
  "rows_loop read rows b =
     (if b = [] then Some (Inr rows)
      else case read b of
        Inl Eof \<Rightarrow> Some (Inr rows)
      | Inl e \<Rightarrow> Some (Inl e)
      | Inr (row, b) \<Rightarrow> rows_loop read (rows @ [row]) b)"

text \<open>What precedes the rows: the table, the number of columns and the bitmaps of those present.\<close>

definition read_rows_head :: "nat \<Rightarrow> rows_kind \<Rightarrow> (nat \<times> nat \<times> bytes \<times> bytes) my_reading" where
  "read_rows_head ev_type kind b =
     bindr (my_uint 6 b) (\<lambda>(table_id, b).
     bindr (my_uint 2 b) (\<lambda>(_, b).
     bindr (if ev_type = T_WRITE_ROWS_V2 \<or> ev_type = T_UPDATE_ROWS_V2 \<or> ev_type = T_DELETE_ROWS_V2
            then bindr (my_uint 2 b) (\<lambda>(extra, b). my_take (extra - 2) b) else Inr ([], b)) (\<lambda>(_, b).
     bindr (lenenc b) (\<lambda>(ncols, b).
     bindr (my_take ((ncols + 7) div 8) b) (\<lambda>(after_bmp, b).
     bindr (if kind = UpdateRows then my_take ((ncols + 7) div 8) b else Inr ([], b)) (\<lambda>(before_bmp, b).
       Inr ((table_id, ncols, after_bmp, before_bmp), b)))))))"

definition my_parse_rows ::
  "(col_meta \<Rightarrow> json my_reading) \<Rightarrow> nat \<Rightarrow> bytes \<Rightarrow> table_meta \<Rightarrow> (decode_error, rows_row_set) result option" where
  "my_parse_rows decode ev_type payload meta =
     (case rows_kind_for_type ev_type of
        None \<Rightarrow> Some (Inl (UnknownType ev_type))
      | Some kind \<Rightarrow>
          (case read_rows_head ev_type kind payload of
             Inl e \<Rightarrow> Some (Inl e)
           | Inr ((table_id, ncols, after_bmp, before_bmp), b) \<Rightarrow>
               map_option (map_sum id (\<lambda>rows. \<lparr>rs_table_id = table_id, rs_kind = kind, rs_rows = rows\<rparr>))
                 (rows_loop (read_row (decode_image decode meta ncols) kind after_bmp before_bmp) [] b)))"

end
