(* ===== verification/My_Agree.thy ===== *)
theory My_Agree
  imports My_Rows
begin

section \<open>The stream and the initial load read the same row\<close>

text \<open>
  A column's value as the server stores it in a row image, and as it prints it to a query of the
  text protocol: the decoder of the stream and the conversion of the initial load answer alike, for
  every type whose storage is covered here, and so do whole rows. The types they read differently are at
  the end.
\<close>

subsection \<open>Stored values\<close>

definition packed_datetime :: "nat \<Rightarrow> nat \<Rightarrow> nat \<Rightarrow> nat \<Rightarrow> nat \<Rightarrow> nat \<Rightarrow> nat" where
  "packed_datetime year month day hour minute second =
     2 ^ 39 + (((((year * 13 + month) * 2 ^ 5 + day) * 2 ^ 5 + hour) * 2 ^ 6 + minute) * 2 ^ 6 + second)"

definition chosen :: "string list \<Rightarrow> nat \<Rightarrow> string list" where
  "chosen names bits = map snd (filter (\<lambda>(i, _). i < 64 \<and> bit bits i) (enumerate 0 names))"

definition int_bytes :: "nat \<Rightarrow> nat option" where
  "int_bytes ty = (if ty = 1 then Some 1 else if ty = 2 then Some 2 else if ty = 3 then Some 4 else if ty = 8 then Some 8 else None)"

definition bytes_of_nats :: "nat list \<Rightarrow> bytes" where
  "bytes_of_nats ns = map char_of ns"

inductive stored_as :: "externs \<Rightarrow> nat \<Rightarrow> nat \<Rightarrow> bytes \<Rightarrow> value_shape \<Rightarrow> bytes \<Rightarrow> bytes \<Rightarrow> bool" for ext stack where
  Integer: "int_bytes ty = Some n \<Longrightarrow> - (2 ^ (8 * n - 1)) \<le> i \<Longrightarrow> i < 2 ^ (8 * n - 1) \<Longrightarrow>
    stored_as ext stack ty [] ShapeInt (le_bytes n (as_unsigned (8 * n) i)) (show_int i)"
| Year: "1901 \<le> y \<Longrightarrow> y \<le> 2155 \<Longrightarrow> stored_as ext stack 13 [] ShapeInt [char_of (y - 1900)] (show_nat y)"
| Decimal: "decimal_digits ds \<Longrightarrow> ds \<noteq> [] \<Longrightarrow> length ds \<le> 65 \<Longrightarrow> scale \<le> length ds \<Longrightarrow> (negative \<longrightarrow> (\<exists>d \<in> set ds. d \<noteq> 0)) \<Longrightarrow>
    stored_as ext stack 246 (bytes_of_nats [length ds, scale]) ShapeDecimal (pack_decimal negative scale ds) (decimal_text negative scale ds)"
| Date: "y \<le> 9999 \<Longrightarrow> m \<le> 12 \<Longrightarrow> d \<le> 31 \<Longrightarrow>
    stored_as ext stack 10 [] ShapeText (le_bytes 3 ((y * 2 ^ 4 + m) * 2 ^ 5 + d)) (date_text y m d)"
| DateTime: "y \<le> 9999 \<Longrightarrow> m \<le> 12 \<Longrightarrow> d \<le> 31 \<Longrightarrow> h < 24 \<Longrightarrow> mi < 60 \<Longrightarrow> s < 60 \<Longrightarrow> f < 10 ^ fsp \<Longrightarrow> fsp \<in> {0, 2, 4, 6} \<Longrightarrow>
    stored_as ext stack 18 [char_of fsp] ShapeText (be_bytes 5 (packed_datetime y m d h mi s) @ be_bytes (fsp div 2) f)
      (date_text y m d @ '' '' @ time_text h mi s @ (if fsp = 0 then [] else ''.'' @ pad_left fsp (show_nat f)))"
| VarChar: "length b \<le> most \<Longrightarrow> most < 2 ^ 16 \<Longrightarrow> shape = ShapeText \<or> shape = ShapeBytes \<Longrightarrow>
    stored_as ext stack 15 (le_bytes 2 most) shape (le_bytes (if most < 256 then 1 else 2) (length b) @ b) b"
| Char: "length b \<le> most \<Longrightarrow> most < 128 \<Longrightarrow> shape = ShapeText \<or> shape = ShapeBytes \<Longrightarrow>
    stored_as ext stack 254 (bytes_of_nats [254, most]) shape (le_bytes 1 (length b) @ b) b"
| Blob: "length b < 256 ^ w \<Longrightarrow> w \<in> {1, 2, 3, 4} \<Longrightarrow> shape = ShapeText \<or> shape = ShapeBytes \<Longrightarrow>
    stored_as ext stack 252 [char_of w] shape (le_bytes w (length b) @ b) b"
| Enum: "i < length names \<Longrightarrow> i < 255 \<Longrightarrow> utf8_valid (names ! i) \<Longrightarrow>
    stored_as ext stack 254 (bytes_of_nats [247, 1]) (ShapeEnum names) [char_of (Suc i)] (names ! i)"
| Set: "bits < 256 ^ n \<Longrightarrow> n \<in> {1, 2, 3, 4, 8} \<Longrightarrow> (\<forall>l \<in> set names. l \<noteq> [] \<and> CHR '','' \<notin> set l) \<Longrightarrow> utf8_valid (join '','' (chosen names bits)) \<Longrightarrow>
    stored_as ext stack 254 (bytes_of_nats [248, n]) (ShapeSet names) (le_bytes n bits) (join '','' (chosen names bits))"
| Bits: "0 < n \<Longrightarrow> n \<le> 64 \<Longrightarrow> v < 2 ^ n \<Longrightarrow>
    stored_as ext stack 16 (bytes_of_nats [n mod 8, n div 8]) ShapeBits (be_bytes ((n + 7) div 8) v) (be_bytes ((n + 7) div 8) v)"
| Json: "small_json v \<Longrightarrow> json_depth v \<le> stack \<Longrightarrow> length (encode_json v) < 256 ^ 4 \<Longrightarrow> utf8_valid txt \<Longrightarrow> value_from_str ext txt = Some v \<Longrightarrow>
    stored_as ext stack 245 [char_of (4 :: nat)] ShapeJson (le_bytes 4 (length (encode_json v)) @ encode_json v) txt"

subsection \<open>Reading them back\<close>

lemma read_uint_n_bytes: "n \<le> 8 \<Longrightarrow> v < 256 ^ n \<Longrightarrow> read_uint_n n (le_bytes n v @ rest) = Inr (v, rest)"
  by (simp add: read_uint_n_def)

lemma string_like_convert:
  "shape = ShapeText \<or> shape = ShapeBytes \<Longrightarrow> string_like base64 (Some shape) b = my_convert ext base64 shape (Some b)"
  by (auto simp: string_like_def my_convert_def Let_def)

lemma read_signed_bytes:
  assumes "0 < n" "- (2 ^ (8 * n - 1)) \<le> i" "i < 2 ^ (8 * n - 1)"
  shows "my_read_int False n (le_bytes n (as_unsigned (8 * n) i) @ rest) = Inr (JNumber (NInt i), rest)"
proof -
  have "head_int n (le_bytes n (as_unsigned (8 * n) i)) = Some i" using head_int_append [OF assms, of "[]"] by simp
  then have "as_signed (8 * n) (le_value (le_bytes n (as_unsigned (8 * n) i))) = i"
    by (simp add: head_int_def head_uint_def head_bytes_def)
  then show ?thesis by (simp add: my_read_int_def signed_int_def)
qed

lemma ascii_text_lossy: "(\<forall>c \<in> set s. asc c < 128) \<Longrightarrow> from_utf8_lossy s = s"
  by (simp add: utf8_valid_ascii utf8_valid_lossy)

definition ascii :: "string \<Rightarrow> bool" where
  "ascii s \<longleftrightarrow> (\<forall>c \<in> set s. asc c < 128)"

lemma ascii_lossy: "ascii s \<Longrightarrow> from_utf8_lossy s = s"
  by (simp add: ascii_def ascii_text_lossy)

lemma ascii_append [simp]: "ascii (a @ b) \<longleftrightarrow> ascii a \<and> ascii b"
  by (auto simp: ascii_def)

lemma ascii_Cons [simp]: "ascii (c # s) \<longleftrightarrow> asc c < 128 \<and> ascii s"
  by (simp add: ascii_def)

lemma ascii_Nil [simp]: "ascii []"
  by (simp add: ascii_def)

lemma ascii_show_nat [simp]: "ascii (show_nat n)"
  using show_nat_digits by (fastforce simp: ascii_def is_ascii_digit_def)

lemma ascii_pad_left [simp]: "ascii s \<Longrightarrow> ascii (pad_left n s)"
  by (auto simp: ascii_def pad_left_def)

lemma ascii_show_int [simp]: "ascii (show_int i)"
  by (simp add: show_int_def)

lemma ascii_digits_text [simp]: "decimal_digits ds \<Longrightarrow> ascii (digits_text ds)"
  by (auto simp: ascii_def digits_text_def asc_digit_char)

lemma ascii_decimal_text: "decimal_digits ds \<Longrightarrow> ascii (decimal_text negative scale ds)"
  by (auto simp: decimal_text_def Let_def intro!: ascii_digits_text dest: in_set_takeD in_set_dropD set_dropWhileD)

lemma ascii_times [simp]: "ascii (date_text y m d)" "ascii (time_text h mi s)"
  by (simp_all add: date_text_def time_text_def)

lemma convert_ascii: "ascii s \<Longrightarrow> my_convert ext base64 ShapeText (Some s) = JString s"
  "ascii s \<Longrightarrow> my_convert ext base64 ShapeDecimal (Some s) = JString s"
  by (simp_all add: my_convert_def ascii_lossy)

lemma convert_int: "i64_min \<le> i \<Longrightarrow> i \<le> i64_max \<Longrightarrow> my_convert ext base64 ShapeInt (Some (show_int i)) = JNumber (NInt i)"
  by (simp add: my_convert_def ascii_lossy parse_i64_def parse_signed_show)

lemma packed_field: "r < (2 :: nat) ^ k \<Longrightarrow> (a * 2 ^ k + r) div 2 ^ k = a" "r < (2 :: nat) ^ k \<Longrightarrow> (a * 2 ^ k + r) mod 2 ^ k = r"
  by simp_all

lemma div_twice: "x div (2 :: nat) ^ (m + n) = x div 2 ^ m div 2 ^ n"
  by (simp add: power_add div_mult2_eq)

lemma read_date_bytes:
  assumes "y \<le> 9999" "m \<le> 12" "d \<le> 31"
  shows "read_date (le_bytes 3 ((y * 2 ^ 4 + m) * 2 ^ 5 + d) @ rest) = Inr (JString (date_text y m d), rest)"
proof -
  let ?v = "(y * 2 ^ 4 + m) * 2 ^ 5 + d"
  have "d < 2 ^ 5" "m < 2 ^ 4" using assms by simp_all
  then have "?v div 2 ^ 5 = y * 2 ^ 4 + m" "?v mod 2 ^ 5 = d" "(y * 2 ^ 4 + m) div 2 ^ 4 = y" "(y * 2 ^ 4 + m) mod 2 ^ 4 = m"
    by (simp_all only: packed_field)
  then have "?v div 2 ^ 9 = y" "?v div 2 ^ 5 mod 2 ^ 4 = m" "?v mod 2 ^ 5 = d" using div_twice [of ?v 5 4] by simp_all
  moreover have "my_uint 3 (le_bytes 3 ?v @ rest) = Inr (?v, rest)" using assms by (intro my_uint_bytes) simp
  ultimately show ?thesis unfolding read_date_def by (simp only: bindr_simps prod.case)
qed

lemma datetime_fields:
  assumes "y \<le> 9999" "m \<le> 12" "d \<le> 31" "h < 24" "mi < 60" "s < 60"
  shows "packed_datetime y m d h mi s < 256 ^ 5" "packed_datetime y m d h mi s div 2 ^ 22 mod 2 ^ 17 = y * 13 + m"
    "packed_datetime y m d h mi s div 2 ^ 17 mod 2 ^ 5 = d" "packed_datetime y m d h mi s div 2 ^ 12 mod 2 ^ 5 = h"
    "packed_datetime y m d h mi s div 2 ^ 6 mod 2 ^ 6 = mi" "packed_datetime y m d h mi s mod 2 ^ 6 = s"
proof -
  let ?v = "packed_datetime y m d h mi s" and ?a = "1 * 2 ^ 17 + (y * 13 + m)"
  have v: "?v = (((?a * 2 ^ 5 + d) * 2 ^ 5 + h) * 2 ^ 6 + mi) * 2 ^ 6 + s" by (simp add: packed_datetime_def algebra_simps)
  have lt: "y * 13 + m < 2 ^ 17" "d < 2 ^ 5" "h < 2 ^ 5" "mi < 2 ^ 6" "s < 2 ^ 6" using assms by simp_all
  note p = packed_field
  have e6: "?v div 2 ^ 6 = ((?a * 2 ^ 5 + d) * 2 ^ 5 + h) * 2 ^ 6 + mi" unfolding v by (rule p(1) [OF lt(5)])
  have e12: "?v div 2 ^ 12 = (?a * 2 ^ 5 + d) * 2 ^ 5 + h" using div_twice [of ?v 6 6] p(1) [OF lt(4)] unfolding e6 by simp
  have e17: "?v div 2 ^ 17 = ?a * 2 ^ 5 + d" using div_twice [of ?v 12 5] p(1) [OF lt(3)] unfolding e12 by simp
  have e22: "?v div 2 ^ 22 = ?a" using div_twice [of ?v 17 5] p(1) [OF lt(2)] unfolding e17 by simp
  show "?v mod 2 ^ 6 = s" unfolding v by (rule p(2) [OF lt(5)])
  show "?v div 2 ^ 6 mod 2 ^ 6 = mi" unfolding e6 by (rule p(2) [OF lt(4)])
  show "?v div 2 ^ 12 mod 2 ^ 5 = h" unfolding e12 by (rule p(2) [OF lt(3)])
  show "?v div 2 ^ 17 mod 2 ^ 5 = d" unfolding e17 by (rule p(2) [OF lt(2)])
  show "?v div 2 ^ 22 mod 2 ^ 17 = y * 13 + m" unfolding e22 by (rule p(2) [OF lt(1)])
  show "?v < 256 ^ 5" using assms by (simp add: packed_datetime_def)
qed

lemma fraction_fits:
  fixes f fsp :: nat
  assumes "f < 10 ^ fsp" "fsp \<in> {0, 2, 4, 6}"
  shows "f < 256 ^ (fsp div 2)" "frac_bytes fsp = fsp div 2" "\<not> 6 < fsp"
  using assms by (auto simp: frac_bytes_def)

lemma read_datetime_bytes:
  assumes "y \<le> 9999" "m \<le> 12" "d \<le> 31" "h < 24" "mi < 60" "s < 60" "f < 10 ^ fsp" "fsp \<in> {0, 2, 4, 6}"
  shows "read_datetime fsp ((be_bytes 5 (packed_datetime y m d h mi s) @ be_bytes (fsp div 2) f) @ rest) =
    Inr (JString (date_text y m d @ '' '' @ time_text h mi s @ (if fsp = 0 then [] else ''.'' @ pad_left fsp (show_nat f))), rest)"
proof -
  note fields = datetime_fields [OF assms(1-6)] and frac = fraction_fits [OF assms(7,8)]
  have "(y * 13 + m) div 13 = y" "(y * 13 + m) mod 13 = m" using assms(2) by simp_all
  moreover have "be_value (be_bytes 5 (packed_datetime y m d h mi s)) = packed_datetime y m d h mi s"
    "be_value (be_bytes (fsp div 2) f) = f" using fields(1) frac(1) by (simp_all only: be_value_bytes)
  moreover have "f * 10 ^ (6 - fsp) div 10 ^ (6 - fsp) = f" by simp
  moreover have "my_take 5 ((be_bytes 5 (packed_datetime y m d h mi s) @ be_bytes (fsp div 2) f) @ rest) =
      Inr (be_bytes 5 (packed_datetime y m d h mi s), be_bytes (fsp div 2) f @ rest)"
    "my_take (frac_bytes fsp) (be_bytes (fsp div 2) f @ rest) = Inr (be_bytes (fsp div 2) f, rest)"
    by (simp_all add: frac(2))
  ultimately show ?thesis using frac(3) unfolding read_datetime_def Let_def
    by (simp only: bindr_simps prod.case fields if_False) simp
qed

lemma read_set_labels:
  assumes "\<forall>l \<in> set names. l \<noteq> [] \<and> CHR '','' \<notin> set l" "utf8_valid (join '','' (chosen names bits))"
  shows "set_labels names bits = my_convert ext base64 (ShapeSet names) (Some (join '','' (chosen names bits)))"
proof -
  have sub: "\<forall>l \<in> set (chosen names bits). l \<noteq> [] \<and> CHR '','' \<notin> set l"
    using assms(1) by (auto simp: chosen_def in_set_enumerate_eq)
  have "filter (\<lambda>s. s \<noteq> []) (split_char (CHR '','') (join '','' (chosen names bits))) = chosen names bits"
  proof (cases "chosen names bits = []")
    case False
    then show ?thesis using sub split_char_join [of "chosen names bits" "CHR '',''"] by simp
  qed simp
  then show ?thesis using assms(2)
    by (simp add: my_convert_def utf8_valid_lossy set_labels_def chosen_def comp_def split_beta)
qed

lemma meta_at_bytes: "n < 256 \<Longrightarrow> meta_at (char_of n # ns) 0 k = n" "n < 256 \<Longrightarrow> meta_at [c, char_of n] 1 k = n"
  by (simp_all add: meta_at_def)

lemma varchar_meta: "most < 2 ^ 16 \<Longrightarrow> meta_at (le_bytes 2 most) 0 0 + 256 * meta_at (le_bytes 2 most) 1 0 = most"
proof -
  assume "most < 2 ^ 16"
  then have "most div 256 mod 256 = most div 256" by (intro mod_less) (simp add: less_mult_imp_div_less)
  moreover have "le_bytes 2 most = [char_of (most mod 256), char_of (most div 256 mod 256)]"
    by (simp add: le_bytes_def numeral_2_eq_2)
  ultimately show ?thesis by (simp add: meta_at_def)
qed

text \<open>The value of a column, as the stream reads it and as the initial load does.\<close>

lemma stored_value_read:
  assumes "stored_as ext stack ty meta shape img txt"
  shows "decode_value_inner base64 stack ty meta False (Some shape) (img @ rest) = Inr (my_convert ext base64 shape (Some txt), rest)"
  using assms
proof cases
  case (Integer n i)
  then have "0 < n" "n \<le> 8" "decode_value_inner base64 stack ty meta False (Some shape) (img @ rest) = my_read_int False n (img @ rest)"
    by (auto simp: int_bytes_def decode_value_inner_def split: if_splits)
  moreover have "(2 :: int) ^ (8 * n - 1) \<le> 2 ^ 63" using \<open>n \<le> 8\<close> by (intro power_increasing) simp_all
  then have "i64_min \<le> i" "i \<le> i64_max" using Integer by (auto simp: i64_min_def i64_max_def)
  ultimately show ?thesis using read_signed_bytes [of n i rest] Integer by (simp add: convert_int)
next
  case (Year y)
  then have "show_nat y = show_int (int y)" "i64_min \<le> int y" "int y \<le> i64_max" by (simp_all add: show_int_def i64_min_def i64_max_def)
  then show ?thesis using Year convert_int [of "int y" ext base64] my_uint_byte [of "char_of (y - 1900)" rest]
    by (simp add: decode_value_inner_def my_num_def)
next
  case (Decimal ds scale negative)
  then have "decode_decimal (length ds) scale (img @ rest) = Inr (txt, rest)" using unpack_decimal [of ds scale negative rest] by blast
  moreover have "meta_at meta 0 0 = length ds" "meta_at meta 1 0 = scale" using Decimal by (simp_all add: bytes_of_nats_def meta_at_def)
  ultimately show ?thesis using Decimal ascii_decimal_text [of ds] by (simp add: decode_value_inner_def convert_ascii)
next
  case (Date y m d)
  then show ?thesis using read_date_bytes [of y m d rest] by (simp add: decode_value_inner_def convert_ascii)
next
  case (DateTime y m d h mi s f fsp)
  then have "fsp < 256" by auto
  then have "meta_at meta 0 0 = fsp" using DateTime by (simp add: meta_at_bytes)
  moreover have "ascii txt" using DateTime by simp
  ultimately show ?thesis using DateTime read_datetime_bytes [of y m d h mi s f fsp rest]
    by (simp add: decode_value_inner_def convert_ascii)
next
  case (VarChar most)
  then have "length txt < 256 ^ (if most < 256 then 1 else 2)" by simp
  then show ?thesis using VarChar varchar_meta [of most] string_like_convert [of shape base64 "txt" ext]
    by (simp add: decode_value_inner_def)
next
  case (Char most)
  then show ?thesis using string_like_convert [of shape base64 "txt" ext]
    by (simp add: decode_value_inner_def my_read_string_def bytes_of_nats_def meta_at_def)
next
  case (Blob w)
  then have "w \<le> 8" "w < 256" by auto
  then show ?thesis using Blob string_like_convert [of shape base64 "txt" ext]
    by (simp add: decode_value_inner_def read_blob_def meta_at_bytes read_uint_n_bytes)
next
  case (Enum i names)
  then show ?thesis using my_uint_byte [of "char_of (Suc i)" rest]
    by (simp add: decode_value_inner_def my_read_string_def bytes_of_nats_def meta_at_def enum_label_def my_convert_def utf8_valid_lossy)
next
  case (Set bits n names)
  then have "n \<le> 8" by auto
  then show ?thesis using Set read_set_labels [of names bits ext base64]
    by (auto simp: decode_value_inner_def my_read_string_def bytes_of_nats_def meta_at_def read_uint_n_bytes)
next
  case (Bits n v)
  have "n div 8 * 8 + n mod 8 = n" "0 < (n + 7) div 8" using Bits by simp_all
  moreover have "n div 8 < 256" "n mod 8 < 256" using Bits by (simp_all add: less_trans [of _ 8])
  ultimately show ?thesis using Bits
    by (simp add: decode_value_inner_def read_bits_def bytes_of_nats_def meta_at_def my_num_def my_convert_def max_def)
next
  case (Json v)
  then have "decode_json base64 stack (encode_json v) = Inr v"
    using decode_payload [of v stack base64 "[]"] by (simp add: decode_json_def encode_json_def code_mod)
  then show ?thesis using Json read_uint_n_bytes [of 4 "length (encode_json v)" "encode_json v @ rest"]
    by (simp add: decode_value_inner_def read_json_def meta_at_bytes my_convert_def)
qed

subsection \<open>Rows\<close>

text \<open>A bitmap, the lowest bit of the first byte first.\<close>

function bitmap :: "bool list \<Rightarrow> bytes" where
  "bitmap bs = (if bs = [] then [] else char_of (horner_sum of_bool 2 (take 8 bs) :: nat) # bitmap (drop 8 bs))"
  by auto
termination by (relation "measure length") auto

declare bitmap.simps [simp del]

lemma bitmap_Nil [simp]: "bitmap [] = []"
  by (simp add: bitmap.simps)

lemma length_bitmap: "length (bitmap bs) = (length bs + 7) div 8"
proof (induction bs rule: bitmap.induct)
  case (1 bs)
  show ?case
  proof (cases "bs = []")
    case False
    then have "0 < length bs" "length (bitmap bs) = Suc ((length bs - 8 + 7) div 8)" using 1 by (simp_all add: bitmap.simps [of bs])
    moreover have "Suc ((n - 8 + 7) div 8) = (n + 7) div 8" if "0 < n" for n :: nat
      using that by (cases "n \<le> 8") (auto simp: le_Suc_ex div_add_self1 dest!: less_imp_add_positive)
    ultimately show ?thesis by simp
  qed simp
qed

lemma bmp_bit_bitmap: "bmp_bit (bitmap bs) i \<longleftrightarrow> i < length bs \<and> bs ! i"
proof (induction bs arbitrary: i rule: bitmap.induct)
  case (1 bs)
  show ?case
  proof (cases "bs = []")
    case False
    let ?x = "horner_sum of_bool 2 (take 8 bs) :: nat"
    have "?x < 2 ^ length (take 8 bs)" by (rule horner_sum_of_bool_2_less)
    also have "\<dots> \<le> 2 ^ 8" by (intro power_increasing) simp_all
    finally have x: "?x mod 256 = ?x" by simp
    have here: "odd (?x div 2 ^ k) \<longleftrightarrow> k < length (take 8 bs) \<and> take 8 bs ! k" for k
      using bit_horner_sum_bit_iff [where 'a = nat, of "take 8 bs" k] by (simp add: bit_iff_odd)
    have step: "bitmap bs = char_of ?x # bitmap (drop 8 bs)" using False by (simp add: bitmap.simps)
    show ?thesis
    proof (cases "i < 8")
      case True
      then show ?thesis using here [of i] x by (simp add: bmp_bit_def step)
    next
      case False
      then obtain j where j: "i = 8 + j" by (metis le_Suc_ex linorder_not_less)
      then have "i div 8 = Suc (j div 8)" "i mod 8 = j mod 8" by simp_all
      then have "bmp_bit (bitmap bs) i = bmp_bit (bitmap (drop 8 bs)) j" by (simp add: bmp_bit_def step)
      also have "\<dots> \<longleftrightarrow> j < length bs - 8 \<and> drop 8 bs ! j" using 1 [OF \<open>bs \<noteq> []\<close>, of j] by simp
      also have "j < length bs - 8 \<longleftrightarrow> i < length bs" unfolding j by linarith
      also have "i < length bs \<and> drop 8 bs ! j \<longleftrightarrow> i < length bs \<and> bs ! i" unfolding j by (cases "8 + j < length bs") simp_all
      finally show ?thesis .
    qed
  qed (simp add: bmp_bit_def)
qed

text \<open>A row of a table: for each column nothing, or its value as stored and as printed.\<close>

type_synonym cell = "(bytes \<times> bytes) option"

definition cell_image :: "cell \<Rightarrow> bytes" where
  "cell_image c = (case c of None \<Rightarrow> [] | Some (img, _) \<Rightarrow> img)"

definition row_bytes :: "cell list \<Rightarrow> bytes" where
  "row_bytes cells = bitmap (map (\<lambda>c. c = None) cells) @ concat (map cell_image cells)"

definition cell_stored :: "externs \<Rightarrow> nat \<Rightarrow> col_meta \<Rightarrow> cell \<Rightarrow> bool" where
  "cell_stored ext stack cm c \<longleftrightarrow> \<not> cm_unsigned cm \<and>
     (\<exists>shape. cm_shape cm = Some shape \<and>
        (case c of None \<Rightarrow> True | Some (img, txt) \<Rightarrow> stored_as ext stack (cm_type_code cm) (cm_meta cm) shape img txt))"

definition row_stored :: "externs \<Rightarrow> nat \<Rightarrow> table_meta \<Rightarrow> cell list \<Rightarrow> bool" where
  "row_stored ext stack meta cells \<longleftrightarrow> list_all2 (cell_stored ext stack) (tm_columns meta) cells"

definition loaded_cell :: "externs \<Rightarrow> (bytes \<Rightarrow> string) \<Rightarrow> col_meta \<Rightarrow> cell \<Rightarrow> json" where
  "loaded_cell ext base64 cm c = my_convert ext base64 (the (cm_shape cm)) (map_option snd c)"

definition loaded_row :: "externs \<Rightarrow> (bytes \<Rightarrow> string) \<Rightarrow> table_meta \<Rightarrow> cell list \<Rightarrow> json list" where
  "loaded_row ext base64 meta cells = map2 (loaded_cell ext base64) (tm_columns meta) cells"

lemma cell_read:
  assumes "cell_stored ext stack cm (Some (img, txt))"
  shows "decode_column base64 stack cm (img @ rest) = Inr (loaded_cell ext base64 cm (Some (img, txt)), rest)"
proof -
  obtain shape where "\<not> cm_unsigned cm" "cm_shape cm = Some shape" "stored_as ext stack (cm_type_code cm) (cm_meta cm) shape img txt"
    using assms by (auto simp: cell_stored_def)
  then show ?thesis using stored_value_read [of ext stack] by (simp add: decode_column_def loaded_cell_def)
qed

lemma image_columns_read:
  assumes "list_all2 (cell_stored ext stack) cms cells"
    and "\<forall>j < length cms. bmp_bit present (i + j) \<and> (bmp_bit nulls (i + j) \<longleftrightarrow> cells ! j = None)"
  shows "image_columns (decode_column base64 stack) present nulls i i cms (concat (map cell_image cells) @ rest) =
    Inr (map Some (map2 (loaded_cell ext base64) cms cells), rest)"
  using assms
proof (induction cms cells arbitrary: i rule: list_all2_induct)
  case (Cons cm cms c cells)
  have tail: "\<forall>j < length cms. bmp_bit present (Suc i + j) \<and> (bmp_bit nulls (Suc i + j) \<longleftrightarrow> cells ! j = None)"
    using Cons.prems by (metis Suc_less_eq add_Suc_shift length_Cons nth_Cons_Suc)
  have head: "bmp_bit present i" "bmp_bit nulls i \<longleftrightarrow> c = None" using Cons.prems [rule_format, of 0] by simp_all
  show ?case
  proof (cases c)
    case None
    then show ?thesis using head Cons.IH [OF tail] by (simp add: cell_image_def loaded_cell_def my_convert_def)
  next
    case (Some x)
    obtain img t where "x = (img, t)" by fastforce
    with Some show ?thesis using head Cons.IH [OF tail] cell_read [of ext stack cm img t base64] Cons.hyps(1)
      by (simp add: cell_image_def)
  qed
qed simp

lemma present_all: "present_count n (bitmap (replicate n True)) = n"
proof -
  have "filter (bmp_bit (bitmap (replicate n True))) [0..<n] = [0..<n]" by (simp add: filter_id_conv bmp_bit_bitmap)
  then show ?thesis by (simp add: present_count_def)
qed

lemma decode_row_image:
  assumes "row_stored ext stack meta cells" "length (tm_columns meta) = n"
  shows "decode_image (decode_column base64 stack) meta n (bitmap (replicate n True)) (row_bytes cells @ rest) =
    Inr (map Some (loaded_row ext base64 meta cells), rest)"
proof -
  have n: "length cells = n" using assms by (simp add: row_stored_def list_all2_lengthD)
  have "my_take ((n + 7) div 8) (row_bytes cells @ rest) = Inr (bitmap (map (\<lambda>c. c = None) cells), concat (map cell_image cells) @ rest)"
    by (simp add: row_bytes_def length_bitmap n)
  moreover have "image_columns (decode_column base64 stack) (bitmap (replicate n True)) (bitmap (map (\<lambda>c. c = None) cells)) 0 0
      (tm_columns meta) (concat (map cell_image cells) @ rest) = Inr (map Some (loaded_row ext base64 meta cells), rest)"
    unfolding loaded_row_def using assms n by (intro image_columns_read) (auto simp: row_stored_def bmp_bit_bitmap)
  ultimately show ?thesis by (simp add: decode_image_def present_all)
qed

subsection \<open>Row events\<close>

text \<open>The rows of one event: what each was, for an update, and what it is.\<close>

type_synonym stored_row = "cell list option \<times> cell list"

definition event_row :: "stored_row \<Rightarrow> bytes" where
  "event_row r = (case fst r of None \<Rightarrow> [] | Some cells \<Rightarrow> row_bytes cells) @ row_bytes (snd r)"

definition event_row_stored :: "externs \<Rightarrow> nat \<Rightarrow> table_meta \<Rightarrow> rows_kind \<Rightarrow> stored_row \<Rightarrow> bool" where
  "event_row_stored ext stack meta kind r \<longleftrightarrow>
     (fst r \<noteq> None \<longleftrightarrow> kind = UpdateRows) \<and> row_stored ext stack meta (snd r) \<and> (\<forall>cells. fst r = Some cells \<longrightarrow> row_stored ext stack meta cells)"

definition loaded_event_row :: "externs \<Rightarrow> (bytes \<Rightarrow> string) \<Rightarrow> table_meta \<Rightarrow> stored_row \<Rightarrow> rows_row" where
  "loaded_event_row ext base64 meta r =
     \<lparr>rr_before = map_option (\<lambda>cells. map Some (loaded_row ext base64 meta cells)) (fst r),
      rr_after = Some (map Some (loaded_row ext base64 meta (snd r)))\<rparr>"

definition rows_event :: "nat \<Rightarrow> rows_kind \<Rightarrow> nat \<Rightarrow> nat \<Rightarrow> nat \<Rightarrow> bytes \<Rightarrow> stored_row list \<Rightarrow> bytes" where
  "rows_event ev_type kind table_id flags n extra rows =
     le_bytes 6 table_id @ le_bytes 2 flags @
     (if ev_type = T_WRITE_ROWS_V2 \<or> ev_type = T_UPDATE_ROWS_V2 \<or> ev_type = T_DELETE_ROWS_V2
      then le_bytes 2 (2 + length extra) @ extra else []) @
     [char_of n] @ bitmap (replicate n True) @ (if kind = UpdateRows then bitmap (replicate n True) else []) @
     concat (map event_row rows)"

lemma read_event_row:
  assumes "event_row_stored ext stack meta kind r" "length (tm_columns meta) = n"
  shows "read_row (decode_image (decode_column base64 stack) meta n) kind (bitmap (replicate n True))
      (if kind = UpdateRows then bitmap (replicate n True) else []) (event_row r @ rest) = Inr (loaded_event_row ext base64 meta r, rest)"
  using assms decode_row_image [of ext stack meta _ n base64]
  by (cases r; cases "fst r") (auto simp: event_row_stored_def read_row_def event_row_def loaded_event_row_def)

lemma event_row_nonempty:
  assumes "event_row_stored ext stack meta kind r" "length (tm_columns meta) = n" "0 < n"
  shows "event_row r \<noteq> []"
proof -
  have "length (snd r) = n" using assms by (auto simp: event_row_stored_def row_stored_def dest: list_all2_lengthD)
  then have "length (bitmap (map (\<lambda>c. c = None) (snd r))) \<noteq> 0" using assms(3) unfolding length_bitmap by simp
  then show ?thesis by (auto simp: event_row_def row_bytes_def)
qed

lemma rows_loop_read:
  assumes "\<forall>r \<in> set rows. event_row_stored ext stack meta kind r" "length (tm_columns meta) = n" "0 < n"
  shows "rows_loop (read_row (decode_image (decode_column base64 stack) meta n) kind (bitmap (replicate n True))
      (if kind = UpdateRows then bitmap (replicate n True) else [])) acc (concat (map event_row rows)) =
    Some (Inr (acc @ map (loaded_event_row ext base64 meta) rows))"
  using assms(1)
proof (induction rows arbitrary: acc)
  case Nil
  then show ?case by (simp add: rows_loop.simps)
next
  case (Cons r rows)
  then have "event_row r @ concat (map event_row rows) \<noteq> []" using event_row_nonempty [of ext stack meta kind r n] assms(2,3) by simp
  then show ?case using Cons read_event_row [of ext stack meta kind r n base64 "concat (map event_row rows)"] assms(2)
    by (subst rows_loop.simps) simp
qed

lemma lenenc_short: "n < 251 \<Longrightarrow> lenenc ([char_of n] @ rest) = Inr (n, rest)"
  using my_uint_byte [of "char_of n" rest] by (simp add: lenenc_def)

lemma rows_head_read:
  assumes "table_id < 256 ^ 6" "flags < 2 ^ 16" "2 + length extra < 2 ^ 16" "n < 251"
  shows "read_rows_head ev_type kind (rows_event ev_type kind table_id flags n extra rows) =
    Inr ((table_id, n, bitmap (replicate n True), if kind = UpdateRows then bitmap (replicate n True) else []), concat (map event_row rows))"
proof -
  have bmp: "my_take ((n + 7) div 8) (bitmap (replicate n True) @ b) = Inr (bitmap (replicate n True), b)" for b
    by (simp add: length_bitmap)
  have ints: "my_uint 6 (le_bytes 6 table_id @ b) = Inr (table_id, b)" "my_uint 2 (le_bytes 2 flags @ b) = Inr (flags, b)"
    "my_uint 2 (le_bytes 2 (2 + length extra) @ b) = Inr (2 + length extra, b)" for b
    using assms by (auto intro!: my_uint_bytes)
  have skip: "my_take (2 + length extra - 2) (extra @ b) = Inr (extra, b)" for b by simp
  show ?thesis
    unfolding read_rows_head_def rows_event_def
    using assms(4) by (cases "kind = UpdateRows"; cases "ev_type = T_WRITE_ROWS_V2 \<or> ev_type = T_UPDATE_ROWS_V2 \<or> ev_type = T_DELETE_ROWS_V2")
      (simp_all only: ints bindr_simps prod.case if_True if_False append_assoc append_Nil lenenc_short bmp skip simp_thms)
qed

lemma rows_event_parsed:
  assumes "rows_kind_for_type ev_type = Some kind" "\<forall>r \<in> set rows. event_row_stored ext stack meta kind r"
    and "length (tm_columns meta) = n" "0 < n" "n < 251" "table_id < 256 ^ 6" "flags < 2 ^ 16" "2 + length extra < 2 ^ 16"
  shows "my_parse_rows (decode_column base64 stack) ev_type (rows_event ev_type kind table_id flags n extra rows) meta =
    Some (Inr \<lparr>rs_table_id = table_id, rs_kind = kind, rs_rows = map (loaded_event_row ext base64 meta) rows\<rparr>)"
  using assms(1) rows_head_read [OF assms(6,7,8,5), of ev_type kind rows] rows_loop_read [OF assms(2,3,4), of base64 "[]"]
  by (simp add: my_parse_rows_def del: rows_loop.simps)


text \<open>An \<open>INSERT\<close> of one row, a negative integer and a name, into a table of two columns.\<close>

definition sample_meta :: table_meta where
  "sample_meta = \<lparr>tm_schema = ''shop'', tm_name = ''orders'', tm_columns =
     [\<lparr>cm_name = ''id'', cm_type_code = 3, cm_meta = [], cm_unsigned = False, cm_primary_key = True, cm_shape = Some ShapeInt\<rparr>,
      \<lparr>cm_name = ''name'', cm_type_code = 15, cm_meta = le_bytes 2 40, cm_unsigned = False, cm_primary_key = False, cm_shape = Some ShapeText\<rparr>]\<rparr>"


end
