(* ===== verification/My_Edges.thy ===== *)
theory My_Edges
  imports My_Agree
begin

section \<open>Where reading a row event ends, and what it misreads\<close>

text \<open>
  The loop over the rows of an event ends whenever the event has a column, because every row then
  holds a byte of its bitmap and no value reads backwards. After it, the columns the stream reads
  otherwise than the load does.
\<close>

subsection \<open>No reader reads backwards\<close>

lemma bindr_InrE: "bindr r f = Inr c \<Longrightarrow> (\<And>a. r = Inr a \<Longrightarrow> f a = Inr c \<Longrightarrow> P) \<Longrightarrow> P"
  by (auto simp: bindr_Inr_iff)

named_theorems reads_on \<open>the bytes left over are no more than there were\<close>

lemma my_take_on [reads_on]: "my_take n b = Inr (s, b') \<Longrightarrow> length b' \<le> length b"
  by (auto dest: my_take_shorter)

lemma my_uint_on [reads_on]: "my_uint n b = Inr (v, b') \<Longrightarrow> length b' \<le> length b"
  by (auto dest: my_uint_shorter)

lemma read_uint_n_on [reads_on]: "read_uint_n n b = Inr (v, b') \<Longrightarrow> length b' \<le> length b"
  by (auto simp: read_uint_n_def dest: my_uint_shorter)

lemma decode_decimal_on [reads_on]: "decode_decimal p s b = Inr (v, b') \<Longrightarrow> length b' \<le> length b"
  by (auto simp: decode_decimal_def bindr_Inr_iff Let_def dest: my_take_shorter split: if_splits)

lemma read_int_on [reads_on]: "my_read_int uns n b = Inr (v, b') \<Longrightarrow> length b' \<le> length b"
  by (auto simp: my_read_int_def unsigned_int_def signed_int_def bindr_Inr_iff dest: my_take_shorter my_uint_shorter split: if_splits)

lemma read_numbers_on [reads_on]:
  "read_mediumint uns b = Inr (v, b') \<Longrightarrow> length b' \<le> length b" "read_date b = Inr (v, b') \<Longrightarrow> length b' \<le> length b"
  "read_bits meta b = Inr (v, b') \<Longrightarrow> length b' \<le> length b"
  by (auto simp: read_mediumint_def read_date_def read_bits_def Let_def bindr_Inr_iff dest: my_take_shorter my_uint_shorter)

lemma read_times_on [reads_on]:
  "read_timestamp fsp b = Inr (v, b') \<Longrightarrow> length b' \<le> length b" "read_datetime fsp b = Inr (v, b') \<Longrightarrow> length b' \<le> length b"
  "read_time fsp b = Inr (v, b') \<Longrightarrow> length b' \<le> length b"
  by (auto simp: read_timestamp_def read_datetime_def read_time_def Let_def bindr_Inr_iff dest!: my_take_shorter split: if_splits)

lemma read_blob_on [reads_on]: "read_blob f n b = Inr (v, b') \<Longrightarrow> length b' \<le> length b"
  by (auto simp: read_blob_def bindr_Inr_iff dest!: reads_on)

lemma read_string_on [reads_on]: "my_read_string base64 meta shape b = Inr (v, b') \<Longrightarrow> length b' \<le> length b"
  by (auto simp: my_read_string_def Let_def bindr_Inr_iff dest!: reads_on split: if_splits)

lemma read_json_on [reads_on]:
  assumes "read_json base64 stack width b = Inr (v, b')"
  shows "length b' \<le> length b"
proof -
  obtain len b1 doc b2 where "read_uint_n width b = Inr (len, b1)" "my_take len b1 = Inr (doc, b2)"
    and last: "(case decode_json base64 stack doc of
         Inr v \<Rightarrow> Inr (v, b2)
       | Inl Malformed \<Rightarrow> Inr (JString (''__mysql_json_hex:'' @ hex_text doc), b2)
       | Inl Crash \<Rightarrow> Inl (Panic ''decoding a JSON document'')) = Inr (v, b')"
    using assms unfolding read_json_def by (auto elim!: bindr_InrE)
  then have "length b2 \<le> length b" using read_uint_n_on my_take_on by fastforce
  moreover have "b' = b2" using last by (simp split: sum.splits json_failure.splits)
  ultimately show ?thesis by simp
qed

lemma decode_value_on: "decode_value_inner base64 stack ty meta uns shape b = Inr (v, b') \<Longrightarrow> length b' \<le> length b"
  unfolding decode_value_inner_def
  by (auto simp: bindr_Inr_iff dest!: reads_on split: if_splits)

lemma image_columns_on:
  assumes "\<And>cm b v b'. decode cm b = Inr (v, b') \<Longrightarrow> length b' \<le> length b"
  shows "image_columns decode present nulls i k cms b = Inr (out, b') \<Longrightarrow> length b' \<le> length b"
proof (induction cms arbitrary: i k b out)
  case (Cons cm cms)
  then show ?case by (fastforce simp: bindr_Inr_iff dest!: assms split: if_splits)
qed simp

lemma decode_image_shorter:
  assumes "\<And>cm b v b'. decode cm b = Inr (v, b') \<Longrightarrow> length b' \<le> length b"
    and "decode_image decode meta ncols present b = Inr (out, b')"
  shows "length b' + (present_count ncols present + 7) div 8 \<le> length b"
  using assms(2) image_columns_on [of decode, OF assms(1)]
  by (fastforce simp: decode_image_def bindr_Inr_iff dest: my_take_shorter)

lemma read_row_shorter:
  assumes "\<And>cm b v b'. decode cm b = Inr (v, b') \<Longrightarrow> length b' \<le> length b" "0 < present_count ncols after_bmp"
    and "read_row (decode_image decode meta ncols) kind after_bmp before_bmp b = Inr (row, b')"
  shows "length b' < length b"
proof -
  let ?image = "decode_image decode meta ncols"
  obtain before b1 where before: "(if kind = UpdateRows then bindr (?image before_bmp b) (\<lambda>(img, b). Inr (Some img, b)) else Inr (None, b)) = Inr (before, b1)"
    and "bindr (?image after_bmp b1) (\<lambda>(img, b). Inr (\<lparr>rr_before = before, rr_after = Some img\<rparr>, b)) = Inr (row, b')"
    using assms(3) unfolding read_row_def by (elim bindr_InrE) (simp split: prod.splits)
  then obtain img where "?image after_bmp b1 = Inr (img, b')" by (auto simp: bindr_Inr_iff)
  then have "length b' < length b1" using decode_image_shorter [of decode meta ncols after_bmp b1, OF assms(1)] assms(2) by fastforce
  moreover have "length b1 \<le> length b"
    using before decode_image_shorter [of decode meta ncols before_bmp b, OF assms(1)] by (fastforce simp: bindr_Inr_iff split: if_splits)
  ultimately show ?thesis by simp
qed

lemma rows_loop_ends:
  assumes "\<And>b row b'. read b = Inr (row, b') \<Longrightarrow> length b' < length b"
  shows "\<exists>y. rows_loop read acc b = Some y"
proof (induction "length b" arbitrary: b acc rule: less_induct)
  case less
  show ?case
  proof (cases "read b")
    case (Inr x)
    obtain row b' where "x = (row, b')" by fastforce
    then have "\<exists>y. rows_loop read (acc @ [row]) b' = Some y" using less assms Inr by blast
    then show ?thesis using Inr \<open>x = (row, b')\<close> by (subst rows_loop.simps) simp
  qed (subst rows_loop.simps, simp split: decode_error.split)
qed

text \<open>Reading a row event ends, whatever its bytes: where the header announces at least one
  column present, the loop over the rows returns, with the rows or with an error, for every payload
  and every table.\<close>

theorem rows_event_read_ends:
  assumes "rows_kind_for_type ev_type = Some kind"
    and "read_rows_head ev_type kind payload = Inr ((table_id, ncols, after_bmp, before_bmp), b)" "0 < present_count ncols after_bmp"
  shows "\<exists>y. my_parse_rows (decode_column base64 stack) ev_type payload meta = Some y"
proof -
  have "\<exists>y. rows_loop (read_row (decode_image (decode_column base64 stack) meta ncols) kind after_bmp before_bmp) [] b = Some y"
    using decode_value_on by (intro rows_loop_ends read_row_shorter [OF _ assms(3)]) (auto simp: decode_column_def)
  then show ?thesis using assms(1,2) by (auto simp: my_parse_rows_def)
qed

text \<open>An insert event of a table of two columns, cut off after its bitmap, on any table.\<close>

theorem rows_event_read_ends_witness:
  "\<exists>y. my_parse_rows (decode_column (\<lambda>b. b) 8) 30 (rows_event 30 WriteRows 7 1 2 [] []) sample_meta = Some y"
proof -
  have "read_rows_head 30 WriteRows (rows_event 30 WriteRows 7 1 2 [] []) =
      Inr ((7, 2, bitmap (replicate 2 True), []), [])"
    using rows_head_read [of 7 1 "[]" 2 30 WriteRows "[]"] by simp
  moreover have "0 < present_count 2 (bitmap (replicate 2 True))" by (simp only: present_all)
  ultimately show ?thesis by (intro rows_event_read_ends) (simp_all add: rows_kind_for_type_def)
qed

text \<open>
  Where it announces none, a byte after the bitmaps is enough to loop forever: a row of no columns is
  read without reading anything.
\<close>

definition reads_nothing :: "rows_row my_reading \<Rightarrow> bool" where
  "reads_nothing read \<longleftrightarrow> (\<forall>c. \<exists>row. read c = Inr (row, c))"

lemma rows_loop_stuck:
  assumes "reads_nothing read" "b \<noteq> []"
  shows "rows_loop read acc b = None"
proof -
  have "reads_nothing read \<longrightarrow> b = []" if "rows_loop read acc b = Some y" for y
  proof (rule rows_loop.raw_induct [of "\<lambda>read acc b y. reads_nothing read \<longrightarrow> b = []", OF _ that])
    fix loop :: "rows_row my_reading \<Rightarrow> rows_row list \<Rightarrow> bytes \<Rightarrow> (decode_error, rows_row list) result option" and read rows b y
    assume IH: "\<And>read rows b y. loop read rows b = Some y \<Longrightarrow> reads_nothing read \<longrightarrow> b = []"
      and step: "(if b = [] then Some (Inr rows) else case read b of Inl Eof \<Rightarrow> Some (Inr rows) | Inl (UnknownTable n) \<Rightarrow> Some (Inl (UnknownTable n))
        | Inl (UnsupportedType n l) \<Rightarrow> Some (Inl (UnsupportedType n l)) | Inl (UnknownType n) \<Rightarrow> Some (Inl (UnknownType n))
        | Inl (Panic l) \<Rightarrow> Some (Inl (Panic l)) | Inr (row, b) \<Rightarrow> loop read (rows @ [row]) b) = Some y"
    show "reads_nothing read \<longrightarrow> b = []"
    proof
      assume stuck: "reads_nothing read"
      then obtain row where "read b = Inr (row, b)" unfolding reads_nothing_def by blast
      then show "b = []" using step IH [of read "rows @ [row]" b y] stuck by (auto split: if_splits)
    qed
  qed
  then show ?thesis using assms by (cases "rows_loop read acc b") auto
qed

lemma empty_image: "\<forall>i. \<not> bmp_bit present i \<Longrightarrow> \<exists>out. image_columns decode present nulls i k cms b = Inr (out, b)"
proof (induction cms arbitrary: i)
  case (Cons cm cms)
  then obtain out where "image_columns decode present nulls (Suc i) k cms b = Inr (out, b)" by blast
  then show ?case using Cons.prems by simp
qed simp

text \<open>The head of an insert event of no columns, and one more byte.\<close>

lemma rows_event_without_columns_hangs:
  "my_parse_rows decode 20 (le_bytes 6 7 @ le_bytes 2 1 @ [CHR 0x00] @ [CHR 0x01]) meta = None"
proof -
  have head: "read_rows_head 20 WriteRows (le_bytes 6 7 @ le_bytes 2 1 @ [CHR 0x00] @ [CHR 0x01]) = Inr ((7, 0, [], []), [CHR 0x01])"
    by code_simp
  have "reads_nothing (read_row (decode_image decode meta 0) WriteRows [] [])"
    unfolding reads_nothing_def
  proof
    fix c
    obtain out where "image_columns decode [] [] 0 0 (tm_columns meta) c = Inr (out, c)"
      using empty_image [of "[]" decode "[]" 0 0 "tm_columns meta" c] by (auto simp: bmp_bit_def)
    then show "\<exists>row. read_row (decode_image decode meta 0) WriteRows [] [] c = Inr (row, c)"
      by (simp add: read_row_def decode_image_def my_take_def present_count_def)
  qed
  then show ?thesis using head rows_loop_stuck by (simp add: my_parse_rows_def rows_kind_for_type_def)
qed

subsection \<open>Columns the two readers disagree on\<close>

text \<open>No table map marks a column unsigned, so every integer of the stream is read as signed.\<close>

lemma table_map_never_unsigned:
  assumes "parse_table_map payload = Inr (table_id, meta, opt)" "cm \<in> set (tm_columns meta)"
  shows "\<not> cm_unsigned cm"
proof -
  have "\<not> cm_unsigned c" if "c \<in> set (column_metas area tys)" for area tys c
    using that by (induction area tys rule: column_metas.induct) (auto simp: Let_def)
  moreover obtain area tys where "tm_columns meta = name_columns opt (column_metas area tys)"
    using assms(1) by (auto simp: parse_table_map_def Let_def elim!: bindr_InrE)
  ultimately show ?thesis using assms(2) nth_mem by (fastforce simp: name_columns_def in_set_enumerate_eq)
qed

lemma unsigned_int_read_negative:
  "decode_value_inner base64 stack 3 [] False (Some ShapeInt) (le_bytes 4 4294967295) = Inr (JNumber (NInt (-1)), [])"
  "my_convert ext base64 ShapeInt (Some (show_int 4294967295)) = JNumber (NInt 4294967295)"
proof -
  have "as_unsigned 32 (-1) = 4294967295" by (simp add: as_unsigned_def)
  then show "decode_value_inner base64 stack 3 [] False (Some ShapeInt) (le_bytes 4 4294967295) = Inr (JNumber (NInt (-1)), [])"
    using read_signed_bytes [of 4 "-1" "[]"] by (simp add: decode_value_inner_def)
  show "my_convert ext base64 ShapeInt (Some (show_int 4294967295)) = JNumber (NInt 4294967295)"
    by (rule convert_int) (simp_all add: i64_min_def i64_max_def)
qed

text \<open>A negative \<open>MEDIUMINT\<close> is read as an unsigned number of sixty-four bits.\<close>

lemma mediumint_read_unsigned:
  "decode_value_inner base64 stack 9 [] False (Some ShapeInt) (le_bytes 3 (as_unsigned 24 (-1))) = Inr (my_num (2 ^ 64 - 1), [])"
  "my_convert ext base64 ShapeInt (Some (show_int (-1))) = JNumber (NInt (-1))"
proof -
  have "as_unsigned 24 (-1) < 256 ^ 3" by (simp add: as_unsigned_def)
  moreover have "as_unsigned 64 (as_signed 24 (as_unsigned 24 (-1))) = 2 ^ 64 - 1" by (simp add: as_unsigned_def as_signed_def)
  ultimately show "decode_value_inner base64 stack 9 [] False (Some ShapeInt) (le_bytes 3 (as_unsigned 24 (-1))) = Inr (my_num (2 ^ 64 - 1), [])"
    using my_uint_bytes [of "as_unsigned 24 (-1)" 3 "[]"] by (simp add: decode_value_inner_def read_mediumint_def)
  show "my_convert ext base64 ShapeInt (Some (show_int (-1))) = JNumber (NInt (-1))"
    by (rule convert_int) (simp_all add: i64_min_def i64_max_def)
qed

text \<open>The time 12:34:56, packed in three bytes as hours, minutes and seconds of 12, 6 and 6 bits after the sign.\<close>

lemma time_misread:
  "be_value (bytes_of_nats [128, 200, 184]) = 2 ^ 23 + (12 * 2 ^ 12 + 34 * 2 ^ 6 + 56)"
  "read_time 0 (bytes_of_nats [128, 200, 184]) = Inr (JString ''00:00:200'', [])"
proof -
  show v: "be_value (bytes_of_nats [128, 200, 184]) = 2 ^ 23 + (12 * 2 ^ 12 + 34 * 2 ^ 6 + 56)"
    by (simp add: be_value_def bytes_of_nats_def)
  have "time_text 0 0 200 = ''00:00:200''" by code_simp
  moreover have "my_take 3 (bytes_of_nats [128, 200, 184]) = Inr (bytes_of_nats [128, 200, 184], [])" "\<not> asc (hd (bytes_of_nats [128, 200, 184])) < 128"
    by (simp_all add: my_take_def bytes_of_nats_def)
  ultimately show "read_time 0 (bytes_of_nats [128, 200, 184]) = Inr (JString ''00:00:200'', [])"
    by (simp add: read_time_def frac_bytes_def v)
qed

text \<open>A \<open>CHAR\<close> of 144 bytes, 36 characters of four, has a length of one byte; the reader takes two.\<close>

lemma wide_char_misread:
  "decode_value_inner base64 stack 254 (bytes_of_nats [254, 144]) False (Some ShapeText) (bytes_of_nats [2, 97, 98]) = Inl Eof"
  by (simp add: decode_value_inner_def my_read_string_def meta_at_def bytes_of_nats_def my_uint_def my_take_def le_value_def be_value_def)

text \<open>Half a second of a \<open>DATETIME(1)\<close> is stored in hundredths and printed as two digits.\<close>

lemma odd_fraction_misread:
  "read_datetime 1 (be_bytes 5 (packed_datetime 2024 1 2 3 4 5) @ be_bytes 1 50) = Inr (JString ''2024-01-02 03:04:05.50'', [])"
proof -
  let ?v = "packed_datetime 2024 1 2 3 4 5"
  have fields: "?v < 256 ^ 5" "?v div 2 ^ 22 mod 2 ^ 17 = 2024 * 13 + 1" "?v div 2 ^ 17 mod 2 ^ 5 = 2" "?v div 2 ^ 12 mod 2 ^ 5 = 3"
    "?v div 2 ^ 6 mod 2 ^ 6 = 4" "?v mod 2 ^ 6 = 5"
    using datetime_fields [of 2024 1 2 3 4 5] by simp_all
  have texts: "date_text 2024 1 2 = ''2024-01-02''" "time_text 3 4 5 = ''03:04:05''" "pad_left 1 (show_nat 50) = ''50''" by code_simp+
  have "be_value (be_bytes 5 ?v) = ?v" "be_value (be_bytes 1 50) = 50" using fields(1) by (simp_all only: be_value_bytes) (simp add: be_value_def)
  moreover have "(2024 * 13 + 1) div 13 = (2024 :: nat)" "(2024 * 13 + 1) mod 13 = (1 :: nat)" "50 * 10 ^ 5 div 10 ^ 5 = (50 :: nat)" by simp_all
  moreover have "my_take 5 (be_bytes 5 ?v @ be_bytes 1 50) = Inr (be_bytes 5 ?v, be_bytes 1 50)" "my_take 1 (be_bytes 1 50) = Inr (be_bytes 1 50, [])"
    using my_take_append [of "be_bytes 1 50" 1 "[]"] by simp_all
  moreover have "frac_bytes 1 = 1" "6 - 1 = (5 :: nat)" "\<not> 6 < (1 :: nat)" "0 < (1 :: nat)" by (simp_all add: frac_bytes_def)
  ultimately show ?thesis unfolding read_datetime_def Let_def
    by (simp only: bindr_simps prod.case fields if_False if_True texts) simp
qed

text \<open>Floating-point columns are not read at all.\<close>

lemma float_columns_refused:
  "decode_value_inner base64 stack 4 meta uns shape b = Inl (UnsupportedType 4 ''?'')"
  "decode_value_inner base64 stack 5 meta uns shape b = Inl (UnsupportedType 5 ''?'')"
  by (simp_all add: decode_value_inner_def)

end
