(* ===== verification/My_Catalog.thy ===== *)
theory My_Catalog
  imports My_Values Gtid_Position Load_State Child_Rows
begin

section \<open>The MySQL catalogue and stored positions (\<open>crates/source-mysql/src/catalog.rs\<close>, \<open>error.rs\<close>)\<close>

text \<open>
  The columns of a table as the catalogue answers for them, the cache of those answers with the
  change of shape it notices, the document the load builds from a row, and the text of a
  stored position. The SQL connection is a parameter: a query answers with rows of text, or with
  rows of bytes that may end in an error. \<open>lower\<close> and \<open>upper\<close> are \<open>str::to_lowercase\<close> and \<open>to_uppercase\<close>, which
  consult the tables of Unicode, and \<open>debug_str\<close> is the debug form of a string, which does too.
\<close>

datatype my_error =
    MyConnect string "my_error option"
  | MyAuth string
  | MyProtocol string
  | MyCatalog string
  | MyConfig string
  | MyChannelClosed
  | MyLoadInterrupted string
  | MyTls string
  | MyDecode decode_error
  | MyCore core_error
  | MyIo string

definition my_is_retryable :: "my_error \<Rightarrow> bool" where
  "my_is_retryable e = (case e of MyConfig _ \<Rightarrow> False | _ \<Rightarrow> True)"

fun my_is_unreachable :: "my_error \<Rightarrow> bool" where
  "my_is_unreachable (MyConnect _ (Some inner)) = my_is_unreachable inner"
| "my_is_unreachable (MyConnect _ None) = True"
| "my_is_unreachable (MyIo _) = True"
| "my_is_unreachable _ = False"

type_synonym text_row = "string option list"
type_synonym byte_row = "bytes option list"

record my_client =
  mc_text_rows :: "string \<Rightarrow> (my_error, text_row list) result"
  mc_query :: "string \<Rightarrow> (my_error, byte_row list \<times> my_error option) result"

record my_world =
  mw_ext :: externs
  mw_base64 :: "bytes \<Rightarrow> string"
  mw_lower :: "string \<Rightarrow> string"
  mw_upper :: "string \<Rightarrow> string"
  mw_alnum :: "string \<Rightarrow> bool"
  mw_debug_str :: "string \<Rightarrow> string"
  mw_fshow :: "f64 \<Rightarrow> string"
  mw_stack :: nat

subsection \<open>Columns\<close>

record my_column =
  mcol_name :: string
  mcol_shape :: value_shape

record my_schema =
  msc_columns :: "my_column list"
  msc_pk_columns :: "string list"

definition schema_names :: "my_schema \<Rightarrow> string list" where
  "schema_names s = map mcol_name (msc_columns s)"

definition my_quote_ident :: "string \<Rightarrow> string" where
  "my_quote_ident name = ''`'' @ replace_str ''`'' ''``'' name @ ''`''"

definition my_quote_str :: "string \<Rightarrow> string" where
  "my_quote_str v = [SQUOTE] @ replace_str [SQUOTE] [SQUOTE, SQUOTE] (replace_str [CHR 0x5C] [CHR 0x5C, CHR 0x5C] v) @ [SQUOTE]"

definition column_shape :: "my_world \<Rightarrow> text_row \<Rightarrow> my_column" where
  "column_shape w r =
     (let cell = (\<lambda>i. if i < length r then unwrap_or [] (r ! i) else [])
      in \<lparr>mcol_name = cell 0, mcol_shape = shape_of (mw_lower w (cell 1)) (mw_lower w (cell 2))\<rparr>)"

definition table_schema :: "my_world \<Rightarrow> my_client \<Rightarrow> string \<Rightarrow> string \<Rightarrow> bool \<Rightarrow> (my_error, my_schema) result" where
  "table_schema w client schema table keyless_ok =
     bindr (map_err (\<lambda>_. MyCatalog (''cannot read columns of '' @ schema @ ''.'' @ table))
       (mc_text_rows client (''SELECT column_name, data_type, column_type FROM information_schema.columns WHERE table_schema = ''
          @ my_quote_str schema @ '' AND table_name = '' @ my_quote_str table @ '' ORDER BY ordinal_position''))) (\<lambda>rows.
       if rows = [] then Inl (MyConfig (''table '' @ schema @ ''.'' @ table @ '' does not exist or is not visible to this user''))
       else
         bindr (mc_text_rows client (''SELECT column_name FROM information_schema.statistics WHERE table_schema = ''
           @ my_quote_str schema @ '' AND table_name = '' @ my_quote_str table @ '' AND index_name = '' @ my_quote_str ''PRIMARY''
           @ '' ORDER BY seq_in_index'')) (\<lambda>pk_rows.
         let pk_columns = List.map_filter (\<lambda>r. case r of [] \<Rightarrow> None | c # _ \<Rightarrow> c) pk_rows
         in if pk_columns = [] \<and> \<not> keyless_ok then Inl (MyConfig (''table '' @ schema @ ''.'' @ table
                 @ '' has no PRIMARY KEY; pg2osync needs one to derive a stable document id, or `append_only = true` on its [sync] section to index its rows as they arrive''))
            else Inr \<lparr>msc_columns = map (column_shape w) rows, msc_pk_columns = pk_columns\<rparr>))"

subsection \<open>What changed about a table\<close>

fun shape_debug :: "(string \<Rightarrow> string) \<Rightarrow> value_shape \<Rightarrow> string" where
  "shape_debug d ShapeInt = ''Int''"
| "shape_debug d ShapeFloat = ''Float''"
| "shape_debug d ShapeDecimal = ''Decimal''"
| "shape_debug d ShapeText = ''Text''"
| "shape_debug d ShapeBytes = ''Bytes''"
| "shape_debug d ShapeBits = ''Bits''"
| "shape_debug d ShapeJson = ''Json''"
| "shape_debug d (ShapeEnum ls) = ''Enum(['' @ join '', '' (map d ls) @ ''])''"
| "shape_debug d (ShapeSet ls) = ''Set(['' @ join '', '' (map d ls) @ ''])''"

definition my_retyped :: "my_world \<Rightarrow> my_schema \<Rightarrow> my_column \<Rightarrow> string option" where
  "my_retyped w after b =
     Option.bind (List.find (\<lambda>a. mcol_name a = mcol_name b) (msc_columns after)) (\<lambda>a.
       if mcol_shape a \<noteq> mcol_shape b
       then Some (mcol_name b @ '' ('' @ shape_debug (mw_debug_str w) (mcol_shape b) @ '' -> '' @ shape_debug (mw_debug_str w) (mcol_shape a) @ '')'')
       else None)"

definition my_column_drift :: "my_world \<Rightarrow> my_schema \<Rightarrow> my_schema \<Rightarrow> string option" where
  "my_column_drift w before after =
     (let old = schema_names before; new = schema_names after;
          added = filter (\<lambda>c. c \<notin> set old) new; removed = filter (\<lambda>c. c \<notin> set new) old;
          retyped = List.map_filter (my_retyped w after) (msc_columns before);
          parts = (if added = [] then [] else [''added '' @ join '', '' added])
            @ (if removed = [] then [] else [''removed '' @ join '', '' removed])
            @ (if retyped = [] then [] else [''retyped '' @ join '', '' retyped])
      in if parts = [] then None else Some (join ''; '' parts))"

record schema_cache =
  sc_entries :: "table \<rightharpoonup> my_schema"
  sc_dropped :: "table \<rightharpoonup> my_schema"
  sc_drift :: "table \<rightharpoonup> string"

definition cache_default :: schema_cache where
  "cache_default = \<lparr>sc_entries = Map.empty, sc_dropped = Map.empty, sc_drift = Map.empty\<rparr>"

definition cache_invalidate :: "table \<Rightarrow> schema_cache \<Rightarrow> schema_cache" where
  "cache_invalidate key c =
     (case sc_entries c key of
        None \<Rightarrow> c
      | Some previous \<Rightarrow> c\<lparr>sc_entries := (sc_entries c)(key := None), sc_dropped := (sc_dropped c)(key \<mapsto> previous)\<rparr>)"

definition cache_invalidate_all :: "schema_cache \<Rightarrow> schema_cache" where
  "cache_invalidate_all c = c\<lparr>sc_entries := Map.empty, sc_dropped := sc_dropped c ++ sc_entries c\<rparr>"

definition take_drift :: "table \<Rightarrow> schema_cache \<Rightarrow> string option \<times> schema_cache" where
  "take_drift key c = (sc_drift c key, c\<lparr>sc_drift := (sc_drift c)(key := None)\<rparr>)"

definition cache_get :: "my_world \<Rightarrow> my_client \<Rightarrow> table \<Rightarrow> bool \<Rightarrow> schema_cache \<Rightarrow> (my_error, my_schema \<times> schema_cache) result" where
  "cache_get w client key keyless_ok c =
     (case sc_entries c key of
        Some s \<Rightarrow> Inr (s, c)
      | None \<Rightarrow>
          bindr (table_schema w client (fst key) (snd key) keyless_ok) (\<lambda>resolved.
            let drift = Option.bind (sc_dropped c key) (\<lambda>previous. my_column_drift w previous resolved)
            in Inr (resolved, c\<lparr>sc_entries := (sc_entries c)(key \<mapsto> resolved), sc_dropped := (sc_dropped c)(key := None),
                 sc_drift := (case drift of None \<Rightarrow> sc_drift c | Some d \<Rightarrow> (sc_drift c)(key \<mapsto> d))\<rparr>)))"

subsection \<open>Positions\<close>

fun rsplit_once :: "char \<Rightarrow> string \<Rightarrow> (string \<times> string) option" where
  "rsplit_once c [] = None"
| "rsplit_once c (x # xs) =
     (case rsplit_once c xs of
        Some (a, b) \<Rightarrow> Some (x # a, b)
      | None \<Rightarrow> if x = c then Some ([], xs) else None)"

definition split_binlog_file :: "string \<Rightarrow> (string \<times> nat) option" where
  "split_binlog_file file =
     Option.bind (rsplit_once (CHR ''.'') file) (\<lambda>(prefix, idx). map_option (\<lambda>i. (prefix, i)) (parse_unsigned 10 (2 ^ 32) idx))"

text \<open>The position is a \<open>u32\<close>, so the shifted index and the position share no bit.\<close>

definition position_token :: "string \<Rightarrow> nat \<Rightarrow> u64" where
  "position_token file pos =
     (let index = (case split_binlog_file file of Some (_, i) \<Rightarrow> i | None \<Rightarrow> 0) in of_nat (index * 2 ^ 32 + pos))"

definition saturating_sub :: "u64 \<Rightarrow> u64 \<Rightarrow> u64" where
  "saturating_sub a b = (if b \<le> a then a - b else 0)"

definition position_text :: "string \<Rightarrow> u64 \<Rightarrow> string" where
  "position_text prefix token =
     prefix @ ''.'' @ pad_left 6 (show_nat (unat token div 2 ^ 32)) @ '':'' @ show_nat (unat token mod 2 ^ 32)"

record stored_position =
  sp_file :: string
  sp_pos :: nat
  sp_gtid :: "gtid_position option"
  sp_base :: u64

definition stored_token :: "stored_position \<Rightarrow> u64" where
  "stored_token s = saturating_add (sp_base s) (position_token (sp_file s) (sp_pos s))"

definition position_text_full :: "string \<Rightarrow> u64 \<Rightarrow> u64 \<Rightarrow> string option \<Rightarrow> string" where
  "position_text_full prefix token base gtid =
     position_text prefix (saturating_sub token base) @ (case gtid of Some g \<Rightarrow> '';gtid='' @ g | None \<Rightarrow> [])
       @ (if 0 < base then '';base='' @ show_nat (unat base) else [])"

definition stored_field :: "string \<Rightarrow> stored_position \<Rightarrow> stored_position" where
  "stored_field field s =
     (case split_once (CHR ''='') field of
        Some (k, v) \<Rightarrow>
          if k = ''gtid'' then s\<lparr>sp_gtid := position_parse v\<rparr>
          else if k = ''base'' then s\<lparr>sp_base := of_nat (unwrap_or 0 (parse_unsigned 10 (2 ^ 64) (trim v)))\<rparr>
          else s
      | None \<Rightarrow> s)"

definition parse_stored_position :: "string \<Rightarrow> stored_position option" where
  "parse_stored_position txt =
     (case split_char (CHR '';'') txt of
        [] \<Rightarrow> None
      | coordinate # fs \<Rightarrow>
          Option.bind (rsplit_once (CHR '':'') coordinate) (\<lambda>(file, pos).
          Option.bind (parse_unsigned 10 (2 ^ 32) (trim pos)) (\<lambda>pos.
            Some (fold stored_field fs \<lparr>sp_file = file, sp_pos = pos, sp_gtid = None, sp_base = 0\<rparr>))))"

definition parse_position :: "string \<Rightarrow> (string \<times> nat) option" where
  "parse_position txt = map_option (\<lambda>s. (sp_file s, sp_pos s)) (parse_stored_position txt)"

subsection \<open>The document of a loaded row\<close>

definition row_cell :: "byte_row \<Rightarrow> nat \<Rightarrow> bytes option" where
  "row_cell row i = (if i < length row then row ! i else None)"

definition row_values :: "my_world \<Rightarrow> my_schema \<Rightarrow> byte_row \<Rightarrow> (string \<times> json) list" where
  "row_values w s row =
     map (\<lambda>(i, col). (mcol_name col, my_convert (mw_ext w) (mw_base64 w) (mcol_shape col) (row_cell row i))) (enumerate 0 (msc_columns s))"

definition build_document :: "my_world \<Rightarrow> my_schema \<Rightarrow> byte_row \<Rightarrow> json \<times> json" where
  "build_document w s row =
     (let values = row_values w s row;
          pk = bt_extend [] (filter (\<lambda>(name, _). name \<in> set (msc_pk_columns s)) values)
      in (JObject (bt_extend [] values), case pk of [] \<Rightarrow> JNull | [(_, v)] \<Rightarrow> v | _ \<Rightarrow> JObject pk))"

subsection \<open>What the server must be\<close>

definition query_text_row :: "my_client \<Rightarrow> string \<Rightarrow> (my_error, text_row) result" where
  "query_text_row client sql = bindr (mc_text_rows client sql) (\<lambda>rows. Inr (case rows of [] \<Rightarrow> [] | r # _ \<Rightarrow> r))"

definition first_cell :: "text_row \<Rightarrow> string option" where
  "first_cell r = (case r of [] \<Rightarrow> None | c # _ \<Rightarrow> c)"

definition global_var :: "my_client \<Rightarrow> string \<Rightarrow> (my_error, string option) result" where
  "global_var client name = bindr (query_text_row client (''SELECT @@GLOBAL.'' @ name)) (\<lambda>r. Inr (first_cell r))"

definition check_prerequisites :: "my_world \<Rightarrow> my_client \<Rightarrow> (my_error, unit) result" where
  "check_prerequisites w client =
     bindr (global_var client ''log_bin'') (\<lambda>log_bin.
     let log_bin = unwrap_or [] log_bin in
     if log_bin \<noteq> ''1'' \<and> mw_upper w log_bin \<noteq> ''ON''
     then Inl (MyConfig (''binary logging is disabled (log_bin='' @ mw_debug_str w log_bin @ ''); enable it and restart MySQL''))
     else bindr (global_var client ''binlog_format'') (\<lambda>format.
     let format = mw_upper w (unwrap_or [] format) in
     if format \<noteq> ''ROW''
     then Inl (MyConfig (''binlog_format is '' @ mw_debug_str w format @ '' but must be ROW; set `binlog_format = ROW` in my.cnf and restart MySQL''))
     else
       case (case global_var client ''binlog_row_image'' of Inr (Some img) \<Rightarrow> if mw_upper w img \<noteq> ''FULL'' then Some img else None | _ \<Rightarrow> None) of
         Some img \<Rightarrow> Inl (MyConfig (''binlog_row_image is '' @ mw_debug_str w img
           @ '' but must be FULL; MINIMAL/NOBLOB images omit unchanged columns, which loses data''))
       | None \<Rightarrow>
           (case global_var client ''binlog_row_value_options'' of
              Inr (Some options) \<Rightarrow>
                if trim options \<noteq> []
                then Inl (MyConfig (''binlog_row_value_options is '' @ mw_debug_str w options
                  @ '' but must be empty; PARTIAL_JSON writes JSON updates as diffs, which are not decoded here''))
                else Inr ()
            | _ \<Rightarrow> Inr ())))"

fun first_position :: "my_client \<Rightarrow> string list \<Rightarrow> (string \<times> nat) option" where
  "first_position client [] = None"
| "first_position client (stmt # stmts) =
     (case query_text_row client stmt of
        Inr (Some file # r) \<Rightarrow> Some (file, unwrap_or 4 (Option.bind (first_cell r) (parse_unsigned 10 (2 ^ 32))))
      | _ \<Rightarrow> first_position client stmts)"

definition master_position :: "my_client \<Rightarrow> (my_error, string \<times> nat) result" where
  "master_position client =
     ok_or (MyConfig ''cannot read binlog position; the replication user needs REPLICATION CLIENT'')
       (first_position client [''SHOW BINARY LOG STATUS'', ''SHOW MASTER STATUS''])"

record gtid_support_of =
  gs_mariadb :: bool
  gs_usable :: bool

definition first_text :: "my_client \<Rightarrow> string \<Rightarrow> string option" where
  "first_text client sql = (case query_text_row client sql of Inl _ \<Rightarrow> None | Inr r \<Rightarrow> first_cell r)"

definition contains_str :: "string \<Rightarrow> string \<Rightarrow> bool" where
  "contains_str s pat \<longleftrightarrow> list_ex (\<lambda>i. take (length pat) (drop i s) = pat) [0..<length s + 1]"

definition gtid_support :: "my_world \<Rightarrow> my_client \<Rightarrow> gtid_support_of" where
  "gtid_support w client =
     (if contains_str (mw_lower w (unwrap_or [] (first_text client ''SELECT VERSION()''))) ''mariadb''
      then \<lparr>gs_mariadb = True, gs_usable = True\<rparr>
      else \<lparr>gs_mariadb = False, gs_usable = (mw_upper w (unwrap_or [] (first_text client ''SELECT @@GLOBAL.gtid_mode'')) = ''ON'')\<rparr>)"

definition gtid_baseline :: "my_client \<Rightarrow> gtid_support_of \<Rightarrow> gtid_position option" where
  "gtid_baseline client support =
     (if \<not> gs_usable support then None
      else
        Option.bind (first_text client (''SELECT '' @ (if gs_mariadb support then ''@@GLOBAL.gtid_binlog_pos'' else ''@@GLOBAL.gtid_executed'')))
          (\<lambda>txt. position_parse (replace_str [CHR 0x0A] [] txt)))"

text \<open>A server that passes the checks writes whole rows and no partial updates, as far as it answers.\<close>

lemma prerequisites_checked:
  assumes "check_prerequisites w client = Inr ()"
  shows "\<exists>format. global_var client ''binlog_format'' = Inr format \<and> mw_upper w (unwrap_or [] format) = ''ROW''"
    and "global_var client ''binlog_row_image'' = Inr (Some img) \<Longrightarrow> mw_upper w img = ''FULL''"
    and "global_var client ''binlog_row_value_options'' = Inr (Some opts) \<Longrightarrow> trim opts = []"
  using assms by (auto simp: check_prerequisites_def bindr_Inr_iff Let_def split: if_splits sum.splits option.splits)

subsection \<open>A stored position reads back\<close>

lemma rsplit_once_append: "c \<notin> set b \<Longrightarrow> rsplit_once c (a @ c # b) = Some (a, b)"
proof -
  assume c: "c \<notin> set b"
  then have "rsplit_once c b = None" by (induction b) auto
  then show ?thesis by (induction a) auto
qed

lemma parse_padded:
  assumes "n < limit"
  shows "parse_unsigned 10 limit (pad_left k (show_nat n)) = Some n"
proof -
  let ?ds = "replicate (k - length (show_nat n)) 0 @ radix_digits 10 n"
  have shown: "pad_left k (show_nat n) = map digit_char ?ds"
    by (simp add: pad_left_def show_nat_digits_text digits_text_def digit_char_0)
  have less: "\<forall>d \<in> set ?ds. d < 10" using radix_digits_less [of 10 _ n] by auto
  have some: "?ds \<noteq> []" by (simp add: radix_digits.simps)
  have "hd (map digit_char ?ds) \<noteq> CHR ''+''"
  proof -
    have "hd ?ds < 10" using less some hd_in_set by blast
    then have "asc (digit_char (hd ?ds)) \<noteq> asc (CHR ''+'')" by (simp add: asc_digit_char)
    then show ?thesis unfolding hd_map [OF some] by metis
  qed
  moreover have "read_digits 10 (map digit_char ?ds) = Some ?ds" using less by (intro read_digits_map) simp_all
  moreover have "radix_value 10 ?ds = n" by (simp add: radix_value_replicate radix_value_digits)
  ultimately show ?thesis
    unfolding shown parse_unsigned_def Let_def using some assms by (cases "map digit_char ?ds") simp_all
qed

lemma show_nat_plain:
  assumes "\<not> is_ascii_digit c"
  shows "c \<notin> set (show_nat n)" "c \<notin> set (pad_left k (show_nat n))"
proof -
  have zero: "is_ascii_digit (CHR ''0'')" by (simp add: is_ascii_digit_def)
  show "c \<notin> set (show_nat n)" using show_nat_digits assms by blast
  then show "c \<notin> set (pad_left k (show_nat n))" using zero assms by (auto simp: pad_left_def)
qed

lemma gtid_text_plain:
  assumes "position_ok g"
  shows "CHR '';'' \<notin> set (position_to_text g)"
proof -
  have semi: "\<not> is_ascii_digit (CHR '';'')" "\<not> is_ascii_alphanumeric (CHR '';'')" by (simp_all add: ascii_defs)
  have "CHR '';'' \<notin> set (range_text i)" for i using show_nat_plain(1) [OF semi(1)] by (simp add: range_text_def)
  then have "CHR '';'' \<notin> set (entry_text e)" if "uuid_ok (fst e)" for e
    using that semi set_join [of "'':''" "fst e # map range_text (snd e)"] by (cases e) (auto simp: entry_text_join uuid_ok_def)
  moreover have "CHR '';'' \<notin> set (maria_entry_text e)" for e
    using show_nat_plain(1) [OF semi(1)] by (cases e) (simp add: maria_entry_text_def)
  ultimately show ?thesis
    using assms set_join [of "'',''"] by (cases g) (fastforce simp: mysql_to_text_def maria_to_text_def gtid_set_ok_def)+
qed

lemma token_parts: "unat (t :: u64) div 2 ^ 32 < 2 ^ 32" "unat t mod 2 ^ 32 < 2 ^ 32"
  using unsigned_less [where 'a = nat, of t] by (simp_all add: less_mult_imp_div_less)

lemma position_token_text:
  "position_token (prefix @ ''.'' @ pad_left 6 (show_nat (unat t div 2 ^ 32))) (unat t mod 2 ^ 32) = t"
proof -
  have "\<not> is_ascii_digit (CHR ''.'')" by (simp add: is_ascii_digit_def)
  then have "split_binlog_file (prefix @ ''.'' @ pad_left 6 (show_nat (unat t div 2 ^ 32))) = Some (prefix, unat t div 2 ^ 32)"
    using rsplit_once_append [of "CHR ''.''" "pad_left 6 (show_nat (unat t div 2 ^ 32))" prefix] show_nat_plain(2)
      parse_padded [OF token_parts(1) [of t], of 6] by (simp add: split_binlog_file_def)
  moreover have "(of_nat (unat t div 2 ^ 32 * 2 ^ 32 + unat t mod 2 ^ 32) :: u64) = t" by (simp only: div_mult_mod_eq) simp
  ultimately show ?thesis unfolding position_token_def Let_def by (simp only: option.case prod.case)
qed

text \<open>C34. A checkpoint position survives its text: what is rendered for a token, with the generation the
  versions count from and the transactions consumed so far, parses back to the same coordinate,
  generation and transactions, and the version it resumes from is the token it was written for.\<close>

theorem stored_position_roundtrip:
  assumes prefix: "CHR '';'' \<notin> set prefix" and base: "base \<le> token"
    and gtid: "\<forall>g \<in> set_option gtid. position_ok g \<and> \<not> position_is_empty g"
  shows "\<exists>s. parse_stored_position (position_text_full prefix token base (map_option position_to_text gtid)) = Some s \<and>
    stored_token s = token \<and> sp_gtid s = gtid \<and> sp_base s = base"
proof -
  let ?t = "token - base"
  let ?file = "prefix @ ''.'' @ pad_left 6 (show_nat (unat ?t div 2 ^ 32))" and ?pos = "show_nat (unat ?t mod 2 ^ 32)"
  let ?coordinate = "?file @ '':'' @ ?pos"
  let ?fields = "(case gtid of Some g \<Rightarrow> [''gtid='' @ position_to_text g] | None \<Rightarrow> []) @ (if 0 < base then [''base='' @ show_nat (unat base)] else [])"
  have semi: "\<not> is_ascii_digit (CHR '';'')" and colon: "\<not> is_ascii_digit (CHR '':'')" by (simp_all add: is_ascii_digit_def)
  have "position_text_full prefix token base (map_option position_to_text gtid) = join '';'' (?coordinate # ?fields)"
    using base by (cases gtid) (auto simp: position_text_full_def saturating_sub_def position_text_def)
  moreover have "\<forall>x \<in> set (?coordinate # ?fields). CHR '';'' \<notin> set x"
    using prefix gtid gtid_text_plain show_nat_plain [OF semi] by (cases gtid) auto
  ultimately have split: "split_char (CHR '';'') (position_text_full prefix token base (map_option position_to_text gtid)) = ?coordinate # ?fields"
    using split_char_join [of "?coordinate # ?fields" "CHR '';''"] by simp
  have pos: "rsplit_once (CHR '':'') ?coordinate = Some (?file, ?pos)" "parse_unsigned 10 (2 ^ 32) (trim ?pos) = Some (unat ?t mod 2 ^ 32)"
    using rsplit_once_append [of "CHR '':''" ?pos ?file] show_nat_plain(1) [OF colon] parse_padded [OF token_parts(2) [of ?t], of 0]
    by (simp_all add: pad_left_def)
  have field: "split_once (CHR ''='') (k @ ''='' @ v) = Some (k, v)" if "CHR ''='' \<notin> set k" for k v
    using that split_once_append by simp
  have fs: "fold stored_field ?fields \<lparr>sp_file = ?file, sp_pos = unat ?t mod 2 ^ 32, sp_gtid = None, sp_base = 0\<rparr> =
      \<lparr>sp_file = ?file, sp_pos = unat ?t mod 2 ^ 32, sp_gtid = gtid, sp_base = base\<rparr>"
    using field [of "''gtid''"] field [of "''base''"] gtid position_roundtrip parse_padded [of "unat base" "2 ^ 64" 0] unsigned_less [where 'a = nat, of base]
    by (cases gtid) (auto simp: stored_field_def pad_left_def word_gt_0)
  have "unat base + unat ?t = unat token" using base by (simp add: unat_sub word_le_nat_alt)
  then have "saturating_add base ?t = token" using unsigned_less [where 'a = nat, of token] by (simp add: saturating_add_def)
  then show ?thesis using split pos fs position_token_text [of prefix ?t]
    by (auto simp: parse_stored_position_def stored_token_def)
qed

theorem stored_position_roundtrip_witness:
  "\<exists>s. parse_stored_position (position_text_full ''binlog'' 17179874180 4096 (map_option position_to_text (Some (MariaDb [(0, 3307, 1431)])))) = Some s \<and>
     stored_token s = 17179874180 \<and> sp_gtid s = Some (MariaDb [(0, 3307, 1431)]) \<and> sp_base s = 4096"
  by (rule stored_position_roundtrip) (simp_all add: maria_ok_def bt_wf_def)

end
