(* ===== verification/My_Children.thy ===== *)
theory My_Children
  imports My_Catalog
begin

section \<open>Reading children and counts from MySQL (\<open>crates/source-mysql/src/children.rs\<close>, \<open>aggregate.rs\<close>)\<close>

text \<open>
  The text of the child, parent, junction and count queries, and what their rows become. The rows of
  a query may end in an error, which discards those read before it.
\<close>

subsection \<open>The statements\<close>

definition key_list :: "externs \<Rightarrow> json list \<Rightarrow> string" where
  "key_list ext keys =
     join '', '' (map (\<lambda>k. case k of
        JNumber n \<Rightarrow> value_to_string ext (JNumber n)
      | JString s \<Rightarrow> my_quote_str s
      | other \<Rightarrow> my_quote_str (value_to_string ext other)) keys)"

definition my_fk_ref :: "child_spec \<Rightarrow> string" where
  "my_fk_ref spec = (if cs_through spec \<noteq> None then ''j'' else ''t'') @ ''.'' @ my_quote_ident (cs_foreign_key spec)"

definition my_project :: "child_spec \<Rightarrow> my_schema \<Rightarrow> my_schema" where
  "my_project spec resolved =
     (let keep = (\<lambda>name. case cs_columns spec of Some columns \<Rightarrow> name \<in> set columns | None \<Rightarrow> name \<notin> set (cs_exclude_columns spec))
      in \<lparr>msc_columns = filter (\<lambda>c. keep (mcol_name c)) (msc_columns resolved), msc_pk_columns = msc_pk_columns resolved\<rparr>)"

definition fetch_statement :: "externs \<Rightarrow> child_spec \<Rightarrow> my_schema \<Rightarrow> json list \<Rightarrow> string" where
  "fetch_statement ext spec resolved keys =
     (let columns = map (\<lambda>c. ''t.'' @ my_quote_ident (mcol_name c)) (msc_columns resolved);
          ordered = (if cs_order_by spec = [] then []
                     else '' ORDER BY '' @ join '', '' (map (\<lambda>c. ''t.'' @ my_quote_ident c) (cs_order_by spec)));
          junction = (case cs_through spec of
              Some th \<Rightarrow> '' JOIN '' @ my_quote_ident (th_schema th) @ ''.'' @ my_quote_ident (th_table th) @ '' j ON j.''
                @ my_quote_ident (th_through_key th) @ '' = t.'' @ my_quote_ident (th_child_key th)
            | None \<Rightarrow> []);
          fk = my_fk_ref spec;
          ranked = ''SELECT '' @ join '', '' columns @ '', '' @ fk @ '' AS pg2osync_fk, ROW_NUMBER() OVER (PARTITION BY '' @ fk @ ordered
            @ '') AS pg2osync_rn, COUNT(*) OVER (PARTITION BY '' @ fk @ '') AS pg2osync_total FROM ''
            @ my_quote_ident (cs_schema spec) @ ''.'' @ my_quote_ident (cs_table spec) @ '' t'' @ junction @ '' WHERE '' @ fk
            @ '' IN ('' @ key_list ext keys @ '')'';
          selected = map (\<lambda>c. ''r.'' @ my_quote_ident (mcol_name c)) (msc_columns resolved)
      in ''SELECT '' @ join '', '' selected @ '', r.pg2osync_fk, r.pg2osync_total FROM ('' @ ranked @ '') r ''
           @ (case cs_max_rows spec of Some n \<Rightarrow> ''WHERE r.pg2osync_rn <= '' @ show_nat (unat n) @ '' '' | None \<Rightarrow> [])
           @ ''ORDER BY r.pg2osync_fk, r.pg2osync_rn'')"

definition my_count_dialect :: sql_dialect where
  "my_count_dialect = \<lparr>quote_ident = (\<lambda>name. ''t.'' @ my_quote_ident name), quote_str = my_quote_str\<rparr>"

definition count_statement :: "my_world \<Rightarrow> aggregate_spec \<Rightarrow> json list \<Rightarrow> string" where
  "count_statement w spec keys =
     (let fk = ''t.'' @ my_quote_ident (as_foreign_key spec);
          conditions = (if keys = [] then [] else [fk @ '' IN ('' @ key_list (mw_ext w) keys @ '')''])
            @ (case as_filter spec of Some f \<Rightarrow> [''('' @ to_sql (mw_fshow w) my_count_dialect f @ '')''] | None \<Rightarrow> []);
          where_clause = (if conditions = [] then [] else '' WHERE '' @ join '' AND '' conditions)
      in ''SELECT '' @ fk @ '', COUNT(*) FROM '' @ my_quote_ident (as_schema spec) @ ''.'' @ my_quote_ident (as_table spec)
           @ '' t'' @ where_clause @ '' GROUP BY '' @ fk)"

subsection \<open>The reads\<close>

definition column_shape_of :: "string \<Rightarrow> my_schema \<Rightarrow> value_shape" where
  "column_shape_of name s = (case List.find (\<lambda>c. mcol_name c = name) (msc_columns s) of Some c \<Rightarrow> mcol_shape c | None \<Rightarrow> ShapeText)"

definition my_fk_shape :: "child_spec \<Rightarrow> my_schema \<Rightarrow> my_schema option \<Rightarrow> value_shape" where
  "my_fk_shape spec resolved junction = column_shape_of (cs_foreign_key spec) (unwrap_or resolved junction)"

definition junction_schema :: "my_world \<Rightarrow> my_client \<Rightarrow> child_spec \<Rightarrow> (my_error, my_schema option) result" where
  "junction_schema w client spec =
     (case cs_through spec of
        None \<Rightarrow> Inr None
      | Some th \<Rightarrow> bindr (table_schema w client (th_schema th) (th_table th) True) (\<lambda>s. Inr (Some s)))"

definition EM_DASH :: string where "EM_DASH = [CHR 0xE2, CHR 0x80, CHR 0x94]"

definition my_resolve_order :: "my_world \<Rightarrow> my_client \<Rightarrow> child_spec \<Rightarrow> (my_error, child_spec) result" where
  "my_resolve_order w client spec =
     bindr (table_schema w client (cs_schema spec) (cs_table spec) False) (\<lambda>resolved.
       let pks = msc_pk_columns resolved in
       if pks = [] \<and> cs_single spec
       then Inl (MyConfig (''[[sync.*.children]] single is set on '' @ child_qualified spec
         @ '', which has no primary key to order by '' @ EM_DASH @ '' with no order there is no first row, so two runs could embed different ones. Add a primary key or drop single''))
       else if pks = [] \<and> cs_max_rows spec \<noteq> None
       then Inl (MyConfig (''[[sync.*.children]] max_rows is set on '' @ child_qualified spec
         @ '', which has no primary key to order by '' @ EM_DASH @ '' the same rows would not be kept twice running. Add a primary key or drop max_rows''))
       else
         case cs_through spec of
           None \<Rightarrow> Inr (spec\<lparr>cs_order_by := pks\<rparr>)
         | Some th \<Rightarrow>
             (case pks of
                [child_key] \<Rightarrow> Inr (spec\<lparr>cs_through := Some (th\<lparr>th_child_key := child_key\<rparr>), cs_order_by := pks\<rparr>)
              | _ \<Rightarrow> Inl (MyConfig (''[[sync.*.children]] '' @ child_qualified spec @ '' is reached through '' @ through_qualified th
                  @ '', so it needs a single-column primary key for the junction to point at; it has '' @ show_nat (length pks)))))"

lemma keyless_child_refused:
  assumes "my_resolve_order w client spec = Inr spec'"
  shows "cs_order_by spec' \<noteq> []"
  using assms by (auto simp: my_resolve_order_def bindr_Inr_iff table_schema_def Let_def split: if_splits option.splits list.splits)

definition text_rows :: "my_client \<Rightarrow> string \<Rightarrow> string \<Rightarrow> (my_error, byte_row list) result" where
  "text_rows client context sql =
     bindr (map_err (\<lambda>_. MyCatalog context) (mc_query client sql)) (\<lambda>(rows, failure).
       case failure of Some e \<Rightarrow> Inl e | None \<Rightarrow> Inr rows)"

definition count_cell :: "byte_row \<Rightarrow> nat \<Rightarrow> int" where
  "count_cell row i = (case row_cell row i of Some b \<Rightarrow> unwrap_or 0 (parse_i64 (from_utf8_lossy b)) | None \<Rightarrow> 0)"

definition child_row :: "my_world \<Rightarrow> my_schema \<Rightarrow> value_shape \<Rightarrow> byte_row \<Rightarrow> (string \<rightharpoonup> json list \<times> int) \<Rightarrow> (string \<rightharpoonup> json list \<times> int)" where
  "child_row w projected shape row out =
     (let n = length (msc_columns projected); doc = fst (build_document w projected row);
          k = key_lookup (mw_ext w) (my_convert (mw_ext w) (mw_base64 w) shape (row_cell row n));
          arr = (case out k of Some (arr, _) \<Rightarrow> arr | None \<Rightarrow> [])
      in out(k \<mapsto> (arr @ [doc], count_cell row (n + 1))))"

definition my_fetch_many :: "my_world \<Rightarrow> my_client \<Rightarrow> child_spec \<Rightarrow> json list \<Rightarrow> (my_error, string \<rightharpoonup> json list \<times> int) result" where
  "my_fetch_many w client spec keys =
     (if keys = [] then Inr Map.empty
      else
        bindr (table_schema w client (cs_schema spec) (cs_table spec) False) (\<lambda>resolved.
        bindr (junction_schema w client spec) (\<lambda>junction.
        let projected = my_project spec resolved in
        bindr (text_rows client (''child fetch failed for '' @ child_qualified spec) (fetch_statement (mw_ext w) spec projected keys)) (\<lambda>rows.
          Inr (fold (child_row w projected (my_fk_shape spec resolved junction)) rows Map.empty)))))"

definition my_refetch_parents :: "my_world \<Rightarrow> my_client \<Rightarrow> table \<Rightarrow> json list \<Rightarrow> (my_error, string \<rightharpoonup> json) result" where
  "my_refetch_parents w client tab keys =
     (if keys = [] then Inr Map.empty
      else
        bindr (table_schema w client (fst tab) (snd tab) False) (\<lambda>resolved.
        case msc_pk_columns resolved of
          [pk_column] \<Rightarrow>
            bindr (text_rows client (''parent refetch failed for '' @ fst tab @ ''.'' @ snd tab)
              (''SELECT '' @ join '', '' (map (\<lambda>c. my_quote_ident (mcol_name c)) (msc_columns resolved)) @ '' FROM ''
                @ my_quote_ident (fst tab) @ ''.'' @ my_quote_ident (snd tab) @ '' WHERE '' @ my_quote_ident pk_column
                @ '' IN ('' @ key_list (mw_ext w) keys @ '')'')) (\<lambda>rows.
              Inr (map_of (rev (map (\<lambda>row. case build_document w resolved row of (doc, pk) \<Rightarrow> (key_lookup (mw_ext w) pk, doc)) rows))))
        | pks \<Rightarrow> Inl (MyConfig (fst tab @ ''.'' @ snd tab
            @ '' is a parent of a nested collection, so it needs a single-column primary key to be located by; it has ''
            @ show_nat (length pks)))))"

definition my_parents_through :: "my_world \<Rightarrow> my_client \<Rightarrow> child_spec \<Rightarrow> json list \<Rightarrow> (my_error, json list) result" where
  "my_parents_through w client spec child_keys =
     (case cs_through spec of
        None \<Rightarrow> Inr []
      | Some th \<Rightarrow>
          if child_keys = [] then Inr []
          else
            bindr (table_schema w client (th_schema th) (th_table th) True) (\<lambda>junction.
            bindr (text_rows client (''junction lookup failed for '' @ through_qualified th)
              (''SELECT DISTINCT j.'' @ my_quote_ident (cs_foreign_key spec) @ '' FROM '' @ my_quote_ident (th_schema th) @ ''.''
                @ my_quote_ident (th_table th) @ '' j WHERE j.'' @ my_quote_ident (th_through_key th)
                @ '' IN ('' @ key_list (mw_ext w) child_keys @ '')'')) (\<lambda>rows.
              Inr (map (\<lambda>row. my_convert (mw_ext w) (mw_base64 w) (my_fk_shape spec junction (Some junction)) (row_cell row 0)) rows))))"

definition my_fetch_counts :: "my_world \<Rightarrow> my_client \<Rightarrow> aggregate_spec \<Rightarrow> json list \<Rightarrow> (my_error, string \<rightharpoonup> int) result" where
  "my_fetch_counts w client spec keys =
     (if keys = [] then Inr Map.empty
      else
        bindr (table_schema w client (as_schema spec) (as_table spec) True) (\<lambda>resolved.
        bindr (text_rows client (''aggregate read failed for '' @ aggregate_qualified spec) (count_statement w spec keys)) (\<lambda>rows.
          Inr (map_of (rev (map (\<lambda>row.
            (key_lookup (mw_ext w) (my_convert (mw_ext w) (mw_base64 w) (column_shape_of (as_foreign_key spec) resolved) (row_cell row 0)),
             count_cell row 1)) rows))))))"

subsection \<open>On the documents of a group\<close>

text \<open>What happens to the document of each row that has one.\<close>

definition edit_docs :: "(json \<Rightarrow> json \<Rightarrow> json) \<Rightarrow> row_change list \<Rightarrow> row_change list" where
  "edit_docs f rows = map (\<lambda>r. r\<lparr>rc_kind := kind_doc_mut (f (rc_pk r)) (rc_kind r)\<rparr>) rows"

definition my_attach_collection :: "my_world \<Rightarrow> child_spec \<Rightarrow> (string \<rightharpoonup> json list \<times> int) \<Rightarrow> json \<Rightarrow> json \<Rightarrow> json" where
  "my_attach_collection w spec by_key key doc =
     (let (arr, all_rows) = (case by_key (key_lookup (mw_ext w) key) of Some (arr, n) \<Rightarrow> (JArray arr, n) | None \<Rightarrow> (JArray [], 0))
      in fst (apply_collection doc spec arr all_rows))"

fun my_attach_children :: "my_world \<Rightarrow> my_client \<Rightarrow> child_spec list \<Rightarrow> row_change list \<Rightarrow> (my_error, row_change list) result" where
  "my_attach_children w client [] rows = Inr rows"
| "my_attach_children w client (spec # specs) rows =
     bindr (my_fetch_many w client spec (map rc_pk rows)) (\<lambda>by_key.
       my_attach_children w client specs (edit_docs (my_attach_collection w spec by_key) rows))"

fun my_attach_counts :: "my_world \<Rightarrow> my_client \<Rightarrow> aggregate_spec list \<Rightarrow> row_change list \<Rightarrow> (my_error, row_change list) result" where
  "my_attach_counts w client [] rows = Inr rows"
| "my_attach_counts w client (spec # specs) rows =
     bindr (my_fetch_counts w client spec (map rc_pk rows)) (\<lambda>by_key.
       my_attach_counts w client specs (edit_docs (\<lambda>key doc. apply_count doc spec (unwrap_or 0 (by_key (key_lookup (mw_ext w) key)))) rows))"

definition attach_aggregates :: "my_world \<Rightarrow> my_client \<Rightarrow> aggregate_spec list \<Rightarrow> row_change list \<Rightarrow> (my_error, row_change list) result" where
  "attach_aggregates w client specs rows = (if rows = [] then Inr [] else my_attach_counts w client specs rows)"

end
