(* ===== verification/My_Stream.thy ===== *)
theory My_Stream
  imports My_Children My_Rows Table_Set
begin

section \<open>The binlog stream (\<open>crates/source-mysql/src/runner.rs\<close>)\<close>

text \<open>
  \<open>MySqlSource::stream\<close> as a step on the state of its loop: the file and position it is at, the length
  of the checksum, the tables registered by their table maps, the cache of the catalogue, the rows and parent
  keys held back, and the tracker of transactions where one is configured. A packet arrives with the
  table set and the SQL connection as they are then. The channel is the list of events sent and the
  number the receiver still takes. A step gives the error it ended the stream with, if any. A panic of the
  code, and a row event that is read forever, are errors \<open>MyDecode (Panic _)\<close> here. Opening the
  connections and asking the server for the stream are in \<open>My_Login\<close> and \<open>My_Start\<close>; log lines are not modelled.
\<close>

record my_config =
  mcf_children :: "(table \<times> child_spec list) list"
  mcf_aggregates :: "(table \<times> aggregate_spec list) list"
  mcf_child_parents :: "(table \<times> table) list"
  mcf_version_base :: u64

record my_env =
  me_tables :: table_set
  me_client :: my_client

record registered_table =
  rt_schema :: string
  rt_table :: string
  rt_meta :: table_meta
  rt_columns :: "string list"
  rt_pk_columns :: "string list"
  rt_append_only :: bool

record my_stream =
  ms_file :: string
  ms_pos :: nat
  ms_checksum :: nat
  ms_registered :: "nat \<rightharpoonup> registered_table"
  ms_schemas :: schema_cache
  ms_pending :: pending
  ms_tracker :: "gtid_tracker option"
  ms_sent :: "change_event list"
  ms_room :: nat

definition MY_PENDING_FLUSH_ROWS :: nat where "MY_PENDING_FLUSH_ROWS = 5000"

type_synonym my_stepped = "my_error option \<times> my_stream"

definition my_then :: "my_stepped \<Rightarrow> (my_stream \<Rightarrow> my_stepped) \<Rightarrow> my_stepped" where
  "my_then r f = (case fst r of None \<Rightarrow> f (snd r) | Some e \<Rightarrow> r)"

definition my_or_end :: "(my_error, 'a) result \<Rightarrow> ('a \<Rightarrow> my_stream \<Rightarrow> my_stepped) \<Rightarrow> my_stream \<Rightarrow> my_stepped" where
  "my_or_end r f st = (case r of Inl e \<Rightarrow> (Some e, st) | Inr a \<Rightarrow> f a st)"

definition my_send :: "change_event \<Rightarrow> my_stream \<Rightarrow> my_stepped" where
  "my_send ev st =
     (if ms_room st = 0 then (Some MyChannelClosed, st) else (None, st\<lparr>ms_sent := ms_sent st @ [ev], ms_room := ms_room st - 1\<rparr>))"

fun my_send_all :: "change_event list \<Rightarrow> my_stream \<Rightarrow> my_stepped" where
  "my_send_all [] st = (None, st)"
| "my_send_all (ev # evs) st = my_then (my_send ev st) (my_send_all evs)"

subsection \<open>From a decoded row to a change\<close>

definition document :: "string list \<Rightarrow> row_image \<Rightarrow> json_map" where
  "document columns values = bt_extend [] (List.map_filter (\<lambda>(name, v). map_option (Pair name) v) (zip columns values))"

definition position_of :: "string \<Rightarrow> string list \<Rightarrow> nat option" where
  "position_of name names = (if name \<in> set names then Some (length (takeWhile (\<lambda>c. c \<noteq> name) names)) else None)"

definition image_value :: "row_image \<Rightarrow> nat \<Rightarrow> json option" where
  "image_value values i = (if i < length values then values ! i else None)"

definition key_value :: "string list \<Rightarrow> row_image \<Rightarrow> string \<Rightarrow> (my_error, string \<times> json) result" where
  "key_value columns values pk =
     bindr (ok_or (MyProtocol (''primary key column '' @ pk @ '' not present in binlog row'')) (position_of pk columns)) (\<lambda>idx.
     bindr (ok_or (MyProtocol (''primary key column '' @ pk @ '' missing from row image'')) (image_value values idx)) (\<lambda>v.
       Inr (pk, v)))"

definition primary_key :: "string list \<Rightarrow> row_image \<Rightarrow> string list \<Rightarrow> (my_error, json) result" where
  "primary_key columns values pk_columns =
     bindr (mapr (key_value columns values) pk_columns) (\<lambda>kvs.
       Inr (case bt_extend [] kvs of [(_, v)] \<Rightarrow> v | key \<Rightarrow> JObject key))"

definition change_images :: "rows_kind \<Rightarrow> rows_row \<Rightarrow> (my_error, row_image) result" where
  "change_images kind row =
     (if kind = DeleteRows
      then ok_or (MyProtocol ''delete event carries no row image'') (case rr_before row of Some b \<Rightarrow> Some b | None \<Rightarrow> rr_after row)
      else ok_or (MyProtocol ''row event carries no after image'') (rr_after row))"

definition build_change :: "registered_table \<Rightarrow> rows_kind \<Rightarrow> rows_row \<Rightarrow> u64 \<Rightarrow> (my_error, row_change) result" where
  "build_change rt kind row version =
     (if rt_append_only rt \<and> kind \<noteq> WriteRows then
        Inl (MyConfig (rt_schema rt @ ''.'' @ rt_table rt @ '': '' @ (if kind = UpdateRows then ''an UPDATE'' else ''a DELETE'')
          @ '' arrived on an append-only table; nothing can say which document it is''))
      else
        bindr (change_images kind row) (\<lambda>values.
        bindr (if rt_append_only rt then Inr JNull else primary_key (rt_columns rt) values (rt_pk_columns rt)) (\<lambda>pk.
          let doc = JObject (document (rt_columns rt) values);
              change = (case kind of
                  WriteRows \<Rightarrow> Insert pk doc
                | UpdateRows \<Rightarrow>
                    Update pk (Option.bind (rr_before row) (\<lambda>before. case primary_key (rt_columns rt) before (rt_pk_columns rt) of Inr k \<Rightarrow> Some k | Inl _ \<Rightarrow> None))
                      doc [] (map_option (\<lambda>before. JObject (document (rt_columns rt) before)) (rr_before row))
                | DeleteRows \<Rightarrow> Delete pk (Some doc))
          in Inr \<lparr>rc_schema = rt_schema rt, rc_table = rt_table rt, rc_kind = change, rc_version = Some version\<rparr>)))"

definition image_column :: "registered_table \<Rightarrow> table \<Rightarrow> row_image \<Rightarrow> string \<Rightarrow> (my_error, json) result" where
  "image_column rt tab values column =
     bindr (ok_or (MyProtocol (''column '' @ column @ '' missing on '' @ fst tab @ ''.'' @ snd tab)) (position_of column (rt_columns rt))) (\<lambda>idx.
       ok_or (MyProtocol (''child row of '' @ fst tab @ ''.'' @ snd tab @ '' carries no '' @ column @ ''; cannot locate its parent''))
         (image_value values idx))"

definition row_column :: "registered_table \<Rightarrow> table \<Rightarrow> rows_row \<Rightarrow> string \<Rightarrow> (my_error, json) result" where
  "row_column rt tab row column =
     bindr (ok_or (MyProtocol ''child row carries no image'') (case rr_after row of Some a \<Rightarrow> Some a | None \<Rightarrow> rr_before row)) (\<lambda>values.
       image_column rt tab values column)"

subsection \<open>Resolving what is held\<close>

fun my_resolve_entries :: "my_world \<Rightarrow> my_config \<Rightarrow> my_client \<Rightarrow> ((table \<times> string) \<times> json list) list \<Rightarrow> pending \<Rightarrow> (my_error, pending) result" where
  "my_resolve_entries w cfg client [] p = Inr p"
| "my_resolve_entries w cfg client (((tab, field), child_keys) # rest) p =
     (case List.find (\<lambda>s. cs_field s = field) (unwrap_or [] (map_of (mcf_children cfg) tab)) of
        None \<Rightarrow> my_resolve_entries w cfg client rest p
      | Some spec \<Rightarrow>
          bindr (my_parents_through w client spec child_keys) (\<lambda>keys.
            my_resolve_entries w cfg client rest (fold (name_parent (mw_ext w) tab) keys p)))"

definition my_resolve_through :: "my_world \<Rightarrow> my_config \<Rightarrow> my_client \<Rightarrow> pending \<Rightarrow> (my_error, pending) result" where
  "my_resolve_through w cfg client p = (case take_through p of (entries, p) \<Rightarrow> my_resolve_entries w cfg client entries p)"

definition my_refetched_rows :: "my_world \<Rightarrow> table \<Rightarrow> (string \<rightharpoonup> json) \<Rightarrow> json list \<Rightarrow> row_change list" where
  "my_refetched_rows w tab found missing =
     List.map_filter (\<lambda>key. map_option (\<lambda>doc. \<lparr>rc_schema = fst tab, rc_table = snd tab, rc_kind = Insert key doc, rc_version = None\<rparr>)
       (found (key_lookup (mw_ext w) key))) missing"

definition my_resolve_table :: "my_world \<Rightarrow> my_config \<Rightarrow> my_client \<Rightarrow> table \<Rightarrow> row_change list \<Rightarrow> json list \<Rightarrow> (my_error, row_change list) result" where
  "my_resolve_table w cfg client tab rows named =
     (let missing = keys_needing_refetch (mw_ext w) rows named in
      bindr (if missing = [] then Inr Map.empty else my_refetch_parents w client tab missing) (\<lambda>found.
      bindr (my_attach_children w client (unwrap_or [] (map_of (mcf_children cfg) tab)) (rows @ my_refetched_rows w tab found missing)) (\<lambda>emitted.
        attach_aggregates w client (unwrap_or [] (map_of (mcf_aggregates cfg) tab)) emitted)))"

fun my_flush_tables :: "my_world \<Rightarrow> my_config \<Rightarrow> my_client \<Rightarrow> u64 option \<Rightarrow> table list \<Rightarrow> my_stream \<Rightarrow> my_stepped" where
  "my_flush_tables w cfg client version [] st = (None, st)"
| "my_flush_tables w cfg client version (tab # tabs) st =
     (case pending_take tab (ms_pending st) of
        ((rows, named), p) \<Rightarrow>
          my_or_end (my_resolve_table w cfg client tab rows named)
            (\<lambda>emitted st. my_then (my_send_all (map (\<lambda>r. Row (r\<lparr>rc_version := version\<rparr>)) emitted) st)
               (my_flush_tables w cfg client version tabs))
            (st\<lparr>ms_pending := p\<rparr>))"

definition my_flush_pending :: "my_world \<Rightarrow> my_config \<Rightarrow> my_client \<Rightarrow> u64 option \<Rightarrow> my_stream \<Rightarrow> my_stepped" where
  "my_flush_pending w cfg client version st =
     (if pending_is_empty (ms_pending st) then (None, st)
      else my_or_end (my_resolve_through w cfg client (ms_pending st))
        (\<lambda>p st. my_then (my_flush_tables w cfg client version (pending_tables p) (st\<lparr>ms_pending := p\<rparr>))
           (\<lambda>st. (None, st\<lparr>ms_pending := clear_seen (ms_pending st)\<rparr>))) st)"

subsection \<open>Positions\<close>

definition event_body :: "bytes \<Rightarrow> nat \<Rightarrow> nat \<Rightarrow> (my_error, bytes) result" where
  "event_body ev event_type checksum_len =
     (let end = length ev - checksum_len
      in if HEADER_LEN \<le> end then Inr (sub_bytes HEADER_LEN end ev)
         else Inl (MyProtocol (''binlog event type '' @ show_nat event_type @ '' is '' @ show_nat (length ev)
           @ '' bytes, too short for its header and '' @ show_nat checksum_len @ ''-byte checksum'')))"

definition token_at :: "my_config \<Rightarrow> string \<Rightarrow> nat \<Rightarrow> u64" where
  "token_at cfg file pos = saturating_add (mcf_version_base cfg) (position_token file pos)"

text \<open>Positions are \<open>u32\<close>: the sum saturates.\<close>

definition event_end_pos :: "event_header \<Rightarrow> nat \<Rightarrow> nat" where
  "event_end_pos h pos =
     (if eh_event_type h = T_HEARTBEAT then max pos (eh_log_pos h)
      else if eh_event_type h = T_FORMAT_DESCRIPTION \<or> eh_event_type h = T_ROTATE then pos
      else if eh_log_pos h = 0 then min (pos + eh_event_size h) (2 ^ 32 - 1)
      else eh_log_pos h)"

definition here :: "my_config \<Rightarrow> my_stream \<Rightarrow> u64" where
  "here cfg st = token_at cfg (ms_file st) (ms_pos st)"

subsection \<open>Events without rows\<close>

definition my_is_configured :: "my_env \<Rightarrow> table \<Rightarrow> bool" where
  "my_is_configured env tab = ts_contains (me_tables env) (fst tab) (snd tab)"

definition configured :: "my_env \<Rightarrow> table option \<Rightarrow> table option" where
  "configured env t = Option.bind t (\<lambda>tab. if my_is_configured env tab then Some tab else None)"

definition take_rotate :: "bytes \<Rightarrow> my_stream \<Rightarrow> my_stepped" where
  "take_rotate body =
     my_or_end (map_err MyDecode (parse_rotate body)) (\<lambda>rot st. (None,
       case rot of
         Some r \<Rightarrow>
           if ri_next_file r \<noteq> ms_file st
           then st\<lparr>ms_file := ri_next_file r, ms_pos := ri_position r mod 2 ^ 32, ms_registered := Map.empty\<rparr> else st
       | None \<Rightarrow> st))"

definition take_statement :: "my_world \<Rightarrow> my_config \<Rightarrow> my_env \<Rightarrow> query_info \<Rightarrow> my_stream \<Rightarrow> my_stepped" where
  "take_statement w cfg env q st =
     (case configured env (truncated_table (mw_alnum w) (qi_sql q) (qi_database q)) of
        Some (schema, tab) \<Rightarrow> my_send (TableTruncated schema tab (Some (here cfg st))) st
      | None \<Rightarrow>
          (case configured env (dropped_table (mw_alnum w) (qi_sql q) (qi_database q)) of
             Some _ \<Rightarrow> (None, st)
           | None \<Rightarrow>
               (let sql = mw_upper w (trim_start (qi_sql q)) in
                (None, if starts_with sql ''ALTER'' \<or> starts_with sql ''RENAME''
                       then st\<lparr>ms_schemas := cache_invalidate_all (ms_schemas st), ms_registered := Map.empty\<rparr> else st))))"

definition take_gtid :: "my_config \<Rightarrow> event_header \<Rightarrow> bytes \<Rightarrow> my_stream \<Rightarrow> my_stepped" where
  "take_gtid cfg h body st =
     (let consumed = (if eh_event_type h = T_GTID then map_option (\<lambda>(uuid, gno). ConsumedMySql uuid gno) (parse_mysql_gtid body)
            else map_option (\<lambda>(domain, seq_no). ConsumedMariaDb domain (eh_server_id h) seq_no) (parse_maria_gtid body))
      in (None, st\<lparr>ms_tracker := map_option (case consumed of
             Some c \<Rightarrow> tracker_record (unat (here cfg st)) c
           | None \<Rightarrow> mark_incomplete ''a GTID event could not be read'') (ms_tracker st)\<rparr>))"

definition take_unnamed :: "string \<Rightarrow> my_stream \<Rightarrow> my_stepped" where
  "take_unnamed why st = (None, st\<lparr>ms_tracker := map_option (mark_incomplete why) (ms_tracker st)\<rparr>)"

definition take_heartbeat :: "my_config \<Rightarrow> my_stream \<Rightarrow> my_stepped" where
  "take_heartbeat cfg st = my_send (Transaction (Commit (Lsn (here cfg st)) 0)) st"

definition take_xid :: "my_world \<Rightarrow> my_config \<Rightarrow> my_env \<Rightarrow> event_header \<Rightarrow> my_stream \<Rightarrow> my_stepped" where
  "take_xid w cfg env h st =
     my_then (my_flush_pending w cfg (me_client env) (Some (here cfg st)) st)
       (my_send (Transaction (Commit (Lsn (here cfg st)) (int (eh_timestamp h) * 1000000 - 946684800000000))))"

subsection \<open>Table maps\<close>

definition my_column_names :: "optional_meta \<Rightarrow> table_meta \<Rightarrow> my_schema \<Rightarrow> string list" where
  "my_column_names opt meta resolved =
     (if length (om_column_names opt) = length (tm_columns meta) then om_column_names opt else schema_names resolved)"

definition with_schema :: "my_world \<Rightarrow> my_env \<Rightarrow> table \<Rightarrow> (my_schema \<Rightarrow> my_stream \<Rightarrow> my_stepped) \<Rightarrow> my_stream \<Rightarrow> my_stepped" where
  "with_schema w env key f st =
     my_or_end (cache_get w (me_client env) key (key \<in> ts_append_only (me_tables env)) (ms_schemas st))
       (\<lambda>(resolved, c) st. f resolved (st\<lparr>ms_schemas := c\<rparr>)) st"

definition report_drift :: "table \<Rightarrow> string option \<Rightarrow> my_stream \<Rightarrow> my_stepped" where
  "report_drift key otherwise st =
     (case take_drift key (ms_schemas st) of
        (drift, c) \<Rightarrow>
          (case (case drift of Some d \<Rightarrow> Some d | None \<Rightarrow> otherwise) of
             Some d \<Rightarrow> my_send (SchemaDrift (fst key) (snd key) d) (st\<lparr>ms_schemas := c\<rparr>)
           | None \<Rightarrow> (None, st\<lparr>ms_schemas := c\<rparr>)))"

fun set_shapes :: "col_meta list \<Rightarrow> my_column list \<Rightarrow> col_meta list" where
  "set_shapes (cm # cms) (col # cols) = cm\<lparr>cm_shape := Some (mcol_shape col)\<rparr> # set_shapes cms cols"
| "set_shapes cms _ = cms"

definition register_table :: "my_env \<Rightarrow> nat \<Rightarrow> table_meta \<Rightarrow> string list \<Rightarrow> my_schema \<Rightarrow> my_stream \<Rightarrow> my_stream" where
  "register_table env tid meta columns resolved st =
     st\<lparr>ms_registered := (ms_registered st)(tid :=
       (if length columns \<noteq> length (tm_columns meta) then None
        else Some \<lparr>rt_schema = tm_schema meta, rt_table = tm_name meta,
               rt_meta = meta\<lparr>tm_columns := set_shapes (tm_columns meta) (msc_columns resolved)\<rparr>, rt_columns = columns,
               rt_pk_columns = msc_pk_columns resolved, rt_append_only = ((tm_schema meta, tm_name meta) \<in> ts_append_only (me_tables env))\<rparr>))\<rparr>"

text \<open>The catalogue is asked again where its answer has another number of columns.\<close>

definition take_table_map :: "my_world \<Rightarrow> my_env \<Rightarrow> bytes \<Rightarrow> my_stream \<Rightarrow> my_stepped" where
  "take_table_map w env body =
     my_or_end (map_err MyDecode (parse_table_map body)) (\<lambda>(tid, meta, opt) st.
       let key = (tm_schema meta, tm_name meta) in
       if \<not> my_is_configured env key then (None, st\<lparr>ms_registered := (ms_registered st)(tid := None)\<rparr>)
       else with_schema w env key (\<lambda>resolved st.
         let columns = my_column_names opt meta resolved in
         my_then (report_drift key None st) (\<lambda>st.
           if length columns = length (tm_columns meta) then (None, register_table env tid meta columns resolved st)
           else with_schema w env key (\<lambda>resolved st.
             my_then (report_drift key (Some (''binlog reports '' @ show_nat (length (tm_columns meta)) @ '' columns, the catalog had ''
                 @ show_nat (length columns))) st)
               (\<lambda>st. (None, register_table env tid meta (my_column_names opt meta resolved) resolved st)))
             (st\<lparr>ms_schemas := cache_invalidate key (ms_schemas st)\<rparr>))) st)"

subsection \<open>Row events\<close>

definition my_through_child :: "table \<Rightarrow> child_spec \<Rightarrow> through option" where
  "my_through_child tab spec =
     (case cs_through spec of
        Some th \<Rightarrow> if cs_schema spec = fst tab \<and> cs_table spec = snd tab then Some th else None
      | None \<Rightarrow> None)"

fun name_child_rows :: "my_world \<Rightarrow> registered_table \<Rightarrow> table \<Rightarrow> table \<Rightarrow> child_spec \<Rightarrow> rows_row list \<Rightarrow> pending
    \<Rightarrow> (my_error, pending) result" where
  "name_child_rows w rt tab parent spec [] p = Inr p"
| "name_child_rows w rt tab parent spec (row # rows) p =
     (case my_through_child tab spec of
        Some th \<Rightarrow> bindr (row_column rt tab row (th_child_key th)) (\<lambda>key.
          name_child_rows w rt tab parent spec rows (name_through (mw_ext w) parent (cs_field spec) key p))
      | None \<Rightarrow> bindr (row_column rt tab row (cs_foreign_key spec)) (\<lambda>key.
          name_child_rows w rt tab parent spec rows (name_parent (mw_ext w) parent key p)))"

definition images :: "rows_row \<Rightarrow> row_image list" where
  "images row = List.map_filter (\<lambda>i. i) [rr_after row, rr_before row]"

definition name_counted_rows :: "my_world \<Rightarrow> registered_table \<Rightarrow> table \<Rightarrow> table \<Rightarrow> aggregate_spec \<Rightarrow> rows_row list \<Rightarrow> pending
    \<Rightarrow> (my_error, pending) result" where
  "name_counted_rows w rt tab parent spec rows p =
     bindr (mapr (\<lambda>img. image_column rt tab img (as_foreign_key spec)) (concat (map images rows))) (\<lambda>keys.
       Inr (fold (name_parent (mw_ext w) parent) keys p))"

definition name_rows :: "my_world \<Rightarrow> my_config \<Rightarrow> registered_table \<Rightarrow> table \<Rightarrow> table \<Rightarrow> rows_row list \<Rightarrow> pending
    \<Rightarrow> (my_error, pending) result" where
  "name_rows w cfg rt tab parent rows p =
     (case List.find (\<lambda>s. child_reads s (fst tab) (snd tab)) (unwrap_or [] (map_of (mcf_children cfg) parent)) of
        Some spec \<Rightarrow> name_child_rows w rt tab parent spec rows p
      | None \<Rightarrow>
          bindr (ok_or (MyProtocol (''child '' @ fst tab @ ''.'' @ snd tab @ '' has no matching children entry''))
            (List.find (\<lambda>s. aggregate_reads s (fst tab) (snd tab)) (unwrap_or [] (map_of (mcf_aggregates cfg) parent)))) (\<lambda>spec.
            name_counted_rows w rt tab parent spec rows p))"

definition hold_rows :: "registered_table \<Rightarrow> table \<Rightarrow> rows_kind \<Rightarrow> u64 \<Rightarrow> rows_row list \<Rightarrow> pending \<Rightarrow> (my_error, pending) result" where
  "hold_rows rt tab kind version rows p =
     bindr (mapr (\<lambda>row. build_change rt kind row version) rows) (\<lambda>changes. Inr (fold (hold_parent tab) changes p))"

fun send_rows :: "registered_table \<Rightarrow> rows_kind \<Rightarrow> u64 \<Rightarrow> rows_row list \<Rightarrow> my_stream \<Rightarrow> my_stepped" where
  "send_rows rt kind version [] st = (None, st)"
| "send_rows rt kind version (row # rows) st =
     my_or_end (build_change rt kind row version) (\<lambda>change st. my_then (my_send (Row change) st) (send_rows rt kind version rows)) st"

definition dispatch_rows :: "my_world \<Rightarrow> my_config \<Rightarrow> registered_table \<Rightarrow> rows_row_set \<Rightarrow> my_stream \<Rightarrow> my_stepped" where
  "dispatch_rows w cfg rt rs st =
     (let tab = (rt_schema rt, rt_table rt); keep = (\<lambda>p st. (None, st\<lparr>ms_pending := p\<rparr>)) in
      case map_of (mcf_child_parents cfg) tab of
        Some parent \<Rightarrow> my_or_end (name_rows w cfg rt tab parent (rs_rows rs) (ms_pending st)) keep st
      | None \<Rightarrow>
          if map_of (mcf_children cfg) tab \<noteq> None \<or> map_of (mcf_aggregates cfg) tab \<noteq> None
          then my_or_end (hold_rows rt tab (rs_kind rs) (here cfg st) (rs_rows rs) (ms_pending st)) keep st
          else send_rows rt (rs_kind rs) (here cfg st) (rs_rows rs) st)"

definition parsed_rows :: "my_world \<Rightarrow> nat \<Rightarrow> bytes \<Rightarrow> table_meta \<Rightarrow> (my_error, rows_row_set) result" where
  "parsed_rows w event_type body meta =
     (case my_parse_rows (decode_column (mw_base64 w) (mw_stack w)) event_type body meta of
        None \<Rightarrow> Inl (MyDecode (Panic ''the rows are read forever''))
      | Some r \<Rightarrow> map_err MyDecode r)"

definition take_rows :: "my_world \<Rightarrow> my_config \<Rightarrow> my_env \<Rightarrow> nat \<Rightarrow> bytes \<Rightarrow> my_stream \<Rightarrow> my_stepped" where
  "take_rows w cfg env event_type body st =
     (if length body < 6 then (Some (MyDecode (Panic ''range end index 6 out of range'')), st)
      else case ms_registered st (le_value (take 6 body)) of
        None \<Rightarrow> (None, st)
      | Some rt \<Rightarrow>
          my_or_end (parsed_rows w event_type body (rt_meta rt)) (\<lambda>rs st.
            my_then (dispatch_rows w cfg rt rs st) (\<lambda>st.
              if MY_PENDING_FLUSH_ROWS \<le> pending_len (ms_pending st)
              then my_flush_pending w cfg (me_client env) (Some (here cfg st)) st else (None, st))) st)"

subsection \<open>The loop\<close>

definition take_event :: "my_world \<Rightarrow> my_config \<Rightarrow> my_env \<Rightarrow> bytes \<Rightarrow> event_header \<Rightarrow> bytes \<Rightarrow> my_stream \<Rightarrow> my_stepped" where
  "take_event w cfg env ev h body st =
     (let ty = eh_event_type h; tracking = ms_tracker st \<noteq> None in
      if ty = T_FORMAT_DESCRIPTION then (None, st\<lparr>ms_checksum := snd (parse_fde (drop HEADER_LEN ev))\<rparr>)
      else if ty = T_ROTATE then take_rotate body st
      else if ty = T_QUERY then (case parse_query body of Some q \<Rightarrow> take_statement w cfg env q st | None \<Rightarrow> (None, st))
      else if (ty = T_GTID \<or> ty = T_MARIA_GTID) \<and> tracking then take_gtid cfg h body st
      else if ty = T_ANONYMOUS_GTID \<and> tracking then take_unnamed ''a transaction was written with no GTID'' st
      else if ty = T_GTID_TAGGED \<and> tracking then take_unnamed ''a tagged GTID arrived, which this reader cannot decode'' st
      else if ty = T_HEARTBEAT then take_heartbeat cfg st
      else if ty = T_XID then take_xid w cfg env h st
      else if ty = T_TABLE_MAP then take_table_map w env body st
      else if rows_kind_for_type ty \<noteq> None then take_rows w cfg env ty body st
      else if ty = T_PARTIAL_UPDATE_ROWS
      then (Some (MyConfig ''the server sent a partial JSON update, which is not decoded here; set binlog_row_value_options to the empty string''), st)
      else (None, st))"

definition my_stream_packet :: "my_world \<Rightarrow> my_config \<Rightarrow> my_env \<Rightarrow> bytes \<Rightarrow> my_stream \<Rightarrow> my_stepped" where
  "my_stream_packet w cfg env pkt st =
     (case pkt of
        [] \<Rightarrow> (Some (MyDecode (Panic ''range start index 1 out of range'')), st)
      | b # ev \<Rightarrow>
          if b = CHR 0xFF then (Some (MyProtocol (''server error: '' @ from_utf8_lossy (drop 9 pkt))), st)
          else case parse_header ev of
            None \<Rightarrow> (None, st)
          | Some h \<Rightarrow>
              my_or_end (event_body ev (eh_event_type h) (ms_checksum st))
                (\<lambda>body st. take_event w cfg env ev h body (st\<lparr>ms_pos := event_end_pos h (ms_pos st)\<rparr>)) st)"

datatype my_arrival = MyShutdown | MyReadFailed my_error | MyPacket bytes

fun my_stream_loop :: "my_world \<Rightarrow> my_config \<Rightarrow> (my_env \<times> my_arrival) list \<Rightarrow> my_stream
    \<Rightarrow> (my_error, unit) result option \<times> my_stream" where
  "my_stream_loop w cfg [] st = (None, st)"
| "my_stream_loop w cfg ((env, a) # rest) st =
     (case a of
        MyShutdown \<Rightarrow> (Some (Inr ()), st)
      | MyReadFailed e \<Rightarrow> (Some (Inl (MyConnect ''binlog stream failed'' (Some e))), st)
      | MyPacket pkt \<Rightarrow>
          (case my_stream_packet w cfg env pkt st of
             (None, st) \<Rightarrow> my_stream_loop w cfg rest st
           | (Some e, st) \<Rightarrow> (Some (Inl e), st)))"

definition my_stream_start :: "string \<Rightarrow> nat \<Rightarrow> gtid_tracker option \<Rightarrow> nat \<Rightarrow> my_stream" where
  "my_stream_start file pos tracker room = \<lparr>ms_file = file, ms_pos = pos, ms_checksum = 4, ms_registered = Map.empty,
     ms_schemas = cache_default, ms_pending = pending_default, ms_tracker = tracker, ms_sent = [], ms_room = room\<rparr>"

end
