(* ===== verification/My_Stream_Facts.thy ===== *)
theory My_Stream_Facts
  imports My_Stream
begin

section \<open>What the binlog stream promises\<close>

text \<open>
  Every event that carries a position carries the one the stream has reached: a step sends nothing
  older or newer than the token of the stream_place it ends at, so tokens never go down while the server's positions do not.
  At the end of a transaction everything held has been sent before the boundary. A streamed insert is the document the
  load builds from the same values.
\<close>

subsection \<open>What a step may send\<close>

fun event_token :: "change_event \<Rightarrow> u64 option" where
  "event_token (Row r) = rc_version r"
| "event_token (TableTruncated _ _ v) = v"
| "event_token (Transaction (Commit (Lsn l) _)) = Some l"
| "event_token _ = None"

definition stream_place :: "my_stream \<Rightarrow> string \<times> nat" where
  "stream_place st = (ms_file st, ms_pos st)"

text \<open>A step that stays where it is and sends nothing but events of the token given.\<close>

definition sends :: "u64 \<Rightarrow> my_stream \<Rightarrow> my_stepped \<Rightarrow> bool" where
  "sends v st r \<longleftrightarrow> stream_place (snd r) = stream_place st \<and>
     (\<exists>evs. ms_sent (snd r) = ms_sent st @ evs \<and> (\<forall>ev \<in> set evs. event_token ev \<in> {None, Some v}))"

named_theorems sending

lemma here_stream_place: "stream_place st' = stream_place st \<Longrightarrow> here cfg st' = here cfg st"
  by (simp add: stream_place_def here_def)

lemma sends_quiet [sending]: "stream_place st' = stream_place st \<Longrightarrow> ms_sent st' = ms_sent st \<Longrightarrow> sends v st (e, st')"
  by (auto simp: sends_def)

lemma sends_then:
  assumes "sends v st r" "\<And>st'. stream_place st' = stream_place st \<Longrightarrow> sends v st' (f st')"
  shows "sends v st (my_then r f)"
proof (cases "fst r")
  case None
  from assms(1) have "stream_place (snd r) = stream_place st" by (simp add: sends_def)
  with assms(2) have "sends v (snd r) (f (snd r))" .
  then show ?thesis using assms(1) None by (fastforce simp: sends_def my_then_def)
qed (simp add: my_then_def assms(1))

lemma sends_or_end:
  assumes "\<And>a. r = Inr a \<Longrightarrow> sends v st (f a st)"
  shows "sends v st (my_or_end r f st)"
  using assms by (auto simp: my_or_end_def sends_quiet split: sum.splits)

lemma stream_place_update [simp]:
  "stream_place (st\<lparr>ms_pending := p\<rparr>) = stream_place st" "stream_place (st\<lparr>ms_schemas := c\<rparr>) = stream_place st" "stream_place (st\<lparr>ms_registered := m\<rparr>) = stream_place st"
  "stream_place (st\<lparr>ms_tracker := tr\<rparr>) = stream_place st" "stream_place (st\<lparr>ms_checksum := n\<rparr>) = stream_place st"
  by (simp_all add: stream_place_def)

lemma sends_update [simp]:
  "sends v (st\<lparr>ms_pending := p\<rparr>) r = sends v st r" "sends v (st\<lparr>ms_schemas := c\<rparr>) r = sends v st r"
  by (simp_all add: sends_def)

lemma sends_send [sending]: "event_token ev \<in> {None, Some v} \<Longrightarrow> sends v st (my_send ev st)"
  by (auto simp: my_send_def sends_def stream_place_def)

lemma sends_all: "(\<And>ev. ev \<in> set evs \<Longrightarrow> event_token ev \<in> {None, Some v}) \<Longrightarrow> sends v st (my_send_all evs st)"
proof (induction evs arbitrary: st)
  case (Cons ev evs)
  then show ?case unfolding my_send_all.simps by (intro sends_then sends_send Cons.IH) simp_all
qed (simp add: sends_quiet)

lemma sends_flush_tables: "sends v st (my_flush_tables w cfg client (Some v) tabs st)"
proof (induction tabs arbitrary: st)
  case (Cons tab tabs)
  obtain rows named p where p: "pending_take tab (ms_pending st) = ((rows, named), p)" by (metis prod.exhaust)
  have "sends v (st\<lparr>ms_pending := p\<rparr>) (my_then (my_send_all (map (\<lambda>r. Row (r\<lparr>rc_version := Some v\<rparr>)) emitted) (st\<lparr>ms_pending := p\<rparr>))
      (my_flush_tables w cfg client (Some v) tabs))" for emitted
    by (intro sends_then sends_all Cons.IH) auto
  then have "sends v (st\<lparr>ms_pending := p\<rparr>) (my_flush_tables w cfg client (Some v) (tab # tabs) st)"
    unfolding my_flush_tables.simps p prod.case by (rule sends_or_end)
  then show ?case by simp
qed (simp add: sends_quiet)

lemma sends_flush [sending]: "sends v st (my_flush_pending w cfg client (Some v) st)"
proof -
  have "sends v st (my_flush_tables w cfg client (Some v) tabs (st\<lparr>ms_pending := p\<rparr>))" for tabs p
    using sends_flush_tables [of v "st\<lparr>ms_pending := p\<rparr>"] by simp
  then have "sends v st (my_then (my_flush_tables w cfg client (Some v) (pending_tables p) (st\<lparr>ms_pending := p\<rparr>))
      (\<lambda>st. (None, st\<lparr>ms_pending := clear_seen (ms_pending st)\<rparr>)))" for p
    by (rule sends_then) (simp add: sends_quiet)
  then show ?thesis unfolding my_flush_pending_def by (simp add: sends_quiet sends_or_end)
qed

subsection \<open>Each event of the binlog\<close>

lemma build_change_version: "build_change rt kind row v = Inr r \<Longrightarrow> rc_version r = Some v"
  by (auto simp: build_change_def Let_def bindr_Inr_iff split: if_splits)

lemma sends_rows: "sends v st (send_rows rt kind v rows st)"
  by (induction rows arbitrary: st)
     (auto intro!: sends_quiet sends_or_end sends_then sends_send dest: build_change_version)

lemma sends_dispatch: "sends (here cfg st) st (dispatch_rows w cfg rt rs st)"
  by (auto simp: dispatch_rows_def Let_def stream_place_def intro!: sends_or_end sends_quiet sends_rows split: option.splits)

lemma sends_take_rows: "sends (here cfg st) st (take_rows w cfg env ty body st)"
proof -
  have "sends (here cfg st) st (my_then (dispatch_rows w cfg rt rs st) (\<lambda>st.
      if MY_PENDING_FLUSH_ROWS \<le> pending_len (ms_pending st)
      then my_flush_pending w cfg (me_client env) (Some (here cfg st)) st else (None, st)))" for rt rs
  proof (rule sends_then [OF sends_dispatch])
    fix st' assume "stream_place st' = stream_place st"
    then have "here cfg st' = here cfg st" by (rule here_stream_place)
    then show "sends (here cfg st) st' (if MY_PENDING_FLUSH_ROWS \<le> pending_len (ms_pending st')
        then my_flush_pending w cfg (me_client env) (Some (here cfg st')) st' else (None, st'))"
      by (simp add: sends_flush sends_quiet)
  qed
  then show ?thesis unfolding take_rows_def by (auto intro: sends_quiet sends_or_end split: option.split)
qed

lemma sends_report: "sends v st (report_drift key otherwise st)"
proof -
  have "sends v st (my_send (SchemaDrift a b d) (st\<lparr>ms_schemas := c\<rparr>))" for a b d c
    using sends_send [of "SchemaDrift a b d" v "st\<lparr>ms_schemas := c\<rparr>"] by simp
  then show ?thesis by (auto simp: report_drift_def sends_quiet split: option.split prod.split)
qed

lemma sends_with_schema:
  assumes "\<And>s st'. stream_place st' = stream_place st \<Longrightarrow> sends v st' (f s st')"
  shows "sends v st (with_schema w env key f st)"
proof -
  have "sends v st (f s (st\<lparr>ms_schemas := c\<rparr>))" for s c using assms [of "st\<lparr>ms_schemas := c\<rparr>" s] by simp
  then show ?thesis unfolding with_schema_def by (auto intro: sends_or_end)
qed

lemma sends_take_table_map: "sends v st (take_table_map w env body st)"
proof -
  have placed: "stream_place (register_table env tid meta columns s st) = stream_place st"
    "ms_sent (register_table env tid meta columns s st) = ms_sent st" for tid meta columns s st
    by (simp_all add: register_table_def)
  have again: "sends v st (with_schema w env key f (st\<lparr>ms_schemas := c\<rparr>))"
    if "\<And>s st'. sends v st' (f s st')" for st key f c
    using sends_with_schema [of "st\<lparr>ms_schemas := c\<rparr>" v f w env key] that by simp
  show ?thesis
    unfolding take_table_map_def
    by (rule sends_or_end)
      (auto simp: Let_def split_beta intro!: sends_quiet sends_with_schema sends_then sends_report again placed)
qed

lemma sends_take_statement: "sends (here cfg st) st (take_statement w cfg env q st)"
  by (auto simp: take_statement_def Let_def stream_place_def intro!: sends_quiet sends_send split: option.splits prod.splits)

lemma sends_take_xid: "sends (here cfg st) st (take_xid w cfg env h st)"
  unfolding take_xid_def by (intro sends_then sends_flush sends_send) simp

lemma sends_take_event:
  assumes "eh_event_type h \<noteq> T_ROTATE"
  shows "sends (here cfg st) st (take_event w cfg env ev h body st)"
  using assms
  by (auto simp: take_event_def Let_def take_gtid_def take_unnamed_def take_heartbeat_def
      intro!: sends_quiet sends_send sends_take_statement sends_take_xid sends_take_table_map sends_take_rows split: option.split)

lemma rotate_sends_nothing: "ms_sent (snd (take_rotate body st)) = ms_sent st"
  by (auto simp: take_rotate_def my_or_end_def split: sum.split option.split)

lemma packet_sends:
  assumes "my_stream_packet w cfg env pkt st = (e, st')"
  shows "\<exists>evs. ms_sent st' = ms_sent st @ evs \<and> (\<forall>ev \<in> set evs. event_token ev \<in> {None, Some (here cfg st')})"
proof (cases "ms_sent st' = ms_sent st")
  case False
  then obtain b ev h body where pkt: "pkt = b # ev" "parse_header ev = Some h" "event_body ev (eh_event_type h) (ms_checksum st) = Inr body"
    using assms by (auto simp: my_stream_packet_def my_or_end_def split: list.splits if_splits option.splits sum.splits)
  let ?st = "st\<lparr>ms_pos := event_end_pos h (ms_pos st)\<rparr>"
  have step: "take_event w cfg env ev h body ?st = (e, st')"
    using assms pkt False by (auto simp: my_stream_packet_def my_or_end_def split: if_splits)
  have "eh_event_type h \<noteq> T_ROTATE"
  proof
    assume "eh_event_type h = T_ROTATE"
    then have "take_rotate body ?st = (e, st')" using step by (simp add: take_event_def)
    then show False using False rotate_sends_nothing [of body ?st] by simp
  qed
  from sends_take_event [OF this, of cfg ?st w env ev body] step
  have sent: "sends (here cfg ?st) ?st (e, st')" by simp
  then have "here cfg st' = here cfg ?st" by (intro here_stream_place) (simp add: sends_def)
  with sent show ?thesis by (simp add: sends_def)
qed simp

subsection \<open>Positions of a stream whose server's positions go forward\<close>

definition file_index :: "string \<Rightarrow> nat" where
  "file_index file = (case split_binlog_file file of Some (_, i) \<Rightarrow> i | None \<Rightarrow> 0)"

text \<open>What the server says of a position does not go back: an event states one no lower than where
  the stream is, or none, and a rotation names the current file or one of a higher number.\<close>

definition in_order :: "bytes \<Rightarrow> my_stream \<Rightarrow> bool" where
  "in_order pkt st =
     (case pkt of
        [] \<Rightarrow> True
      | _ # ev \<Rightarrow>
          (case parse_header ev of
             None \<Rightarrow> True
           | Some h \<Rightarrow>
               if eh_event_type h = T_ROTATE then
                 (case event_body ev (eh_event_type h) (ms_checksum st) of
                    Inl _ \<Rightarrow> True
                  | Inr body \<Rightarrow>
                      (case parse_rotate body of
                         Inr (Some r) \<Rightarrow> ri_next_file r = ms_file st \<or> file_index (ms_file st) < file_index (ri_next_file r)
                       | _ \<Rightarrow> True))
               else eh_event_type h = T_FORMAT_DESCRIPTION \<or> eh_event_type h = T_HEARTBEAT \<or> eh_log_pos h = 0 \<or> ms_pos st \<le> eh_log_pos h))"

fun packets_in_order :: "my_world \<Rightarrow> my_config \<Rightarrow> (my_env \<times> my_arrival) list \<Rightarrow> my_stream \<Rightarrow> bool" where
  "packets_in_order w cfg [] st = True"
| "packets_in_order w cfg ((env, a) # rest) st =
     (case a of
        MyPacket pkt \<Rightarrow>
          in_order pkt st \<and>
          (case my_stream_packet w cfg env pkt st of
             (None, st') \<Rightarrow> packets_in_order w cfg rest st'
           | (Some _, _) \<Rightarrow> True)
      | _ \<Rightarrow> True)"

lemma parse_unsigned_less: "parse_unsigned b limit s = Some n \<Longrightarrow> n < limit"
  by (auto simp: parse_unsigned_def Let_def split: if_splits option.splits list.splits)

lemma file_index_less: "file_index file < 2 ^ 32"
  using parse_unsigned_less [of 10 "2 ^ 32"]
  by (auto simp: file_index_def split_binlog_file_def split: option.split bind_splits)

lemma token_value:
  assumes "pos < 2 ^ 32"
  shows "unat (position_token file pos) = file_index file * 2 ^ 32 + pos"
proof -
  have "file_index file * 2 ^ 32 + pos < 2 ^ 64"
    using file_index_less [of "file"] assms by simp
  then have "unat (of_nat (file_index file * 2 ^ 32 + pos) :: u64) = file_index file * 2 ^ 32 + pos"
    by (simp only: unat_of_nat take_bit_nat_eq_self len_of_numeral_defs) simp
  then show ?thesis by (simp only: position_token_def file_index_def Let_def)
qed

lemma saturating_add_mono: "b \<le> c \<Longrightarrow> saturating_add a b \<le> saturating_add a c"
proof -
  assume bc: "b \<le> c"
  then have le: "unat b \<le> unat c" by (simp add: word_le_nat_alt)
  show ?thesis
  proof (cases "unat a + unat c < 2 ^ 64")
    case True
    then show ?thesis using le by (simp add: saturating_add_def word_le_nat_alt unat_word_ariths)
  qed (simp add: saturating_add_def)
qed

lemma token_mono:
  assumes "pos < 2 ^ 32" "pos' < 2 ^ 32" "file_index file < file_index file' \<or> file = file' \<and> pos \<le> pos'"
  shows "token_at cfg file pos \<le> token_at cfg file' pos'"
proof -
  have "file_index file * 2 ^ 32 + pos \<le> file_index file' * 2 ^ 32 + pos'"
  proof (cases "file_index file < file_index file'")
    case True
    then have "(file_index file + 1) * 2 ^ 32 \<le> file_index file' * 2 ^ 32" by (intro mult_le_mono1) simp
    then show ?thesis using assms(1) by simp
  next
    case False
    then show ?thesis using assms(3) by simp
  qed
  then show ?thesis unfolding token_at_def
    by (intro saturating_add_mono) (simp only: word_le_nat_alt token_value [OF assms(1)] token_value [OF assms(2)])
qed

lemma log_pos_less: "parse_header ev = Some h \<Longrightarrow> eh_log_pos h < 2 ^ 32"
  using le_value_less [of "sub_bytes 13 17 ev"] by (auto simp: parse_header_def sub_bytes_def split: if_splits)

lemma end_pos_less: "parse_header ev = Some h \<Longrightarrow> pos < 2 ^ 32 \<Longrightarrow> event_end_pos h pos < 2 ^ 32"
  using log_pos_less [of ev h] by (auto simp: event_end_pos_def)

text \<open>Where a packet leaves the stream: it may only move it on.\<close>

lemma packet_moves_on:
  assumes "my_stream_packet w cfg env pkt st = (e, st')" "in_order pkt st" "ms_pos st < 2 ^ 32"
  shows "ms_pos st' < 2 ^ 32" "here cfg st \<le> here cfg st'"
proof -
  have "ms_pos st' < 2 ^ 32 \<and> (file_index (ms_file st) < file_index (ms_file st') \<or> ms_file st = ms_file st' \<and> ms_pos st \<le> ms_pos st')"
  proof (cases "stream_place st' = stream_place st")
    case False
    then obtain b ev h body where pkt: "pkt = b # ev" "parse_header ev = Some h" "event_body ev (eh_event_type h) (ms_checksum st) = Inr body"
      using assms(1) by (auto simp: my_stream_packet_def my_or_end_def split: list.splits if_splits option.splits sum.splits)
    let ?st = "st\<lparr>ms_pos := event_end_pos h (ms_pos st)\<rparr>"
    have step: "take_event w cfg env ev h body ?st = (e, st')"
      using assms pkt False by (auto simp: my_stream_packet_def my_or_end_def split: if_splits)
    note less = end_pos_less [OF pkt(2) assms(3)]
    show ?thesis
    proof (cases "eh_event_type h = T_ROTATE")
      case True
      then have "take_rotate body ?st = (e, st')" using step by (simp add: take_event_def)
      moreover have "event_end_pos h (ms_pos st) = ms_pos st" using True by (simp add: event_end_pos_def)
      ultimately show ?thesis
        using assms(2,3) pkt True by (auto simp: in_order_def take_rotate_def my_or_end_def map_err_def split: sum.splits option.splits if_splits)
    next
      case other: False
      from sends_take_event [OF this, of cfg ?st w env ev body] step have "stream_place st' = stream_place ?st" by (simp add: sends_def)
      moreover have "ms_pos st \<le> event_end_pos h (ms_pos st)"
        using assms(2,3) pkt other by (auto simp: in_order_def event_end_pos_def)
      ultimately show ?thesis using less by (simp add: stream_place_def)
    qed
  qed (use assms(3) in \<open>simp add: stream_place_def\<close>)
  then show "ms_pos st' < 2 ^ 32" "here cfg st \<le> here cfg st'"
    using token_mono [OF assms(3), of "ms_pos st'" "ms_file st" "ms_file st'" cfg] by (auto simp: here_def)
qed

lemma tokens_append_sorted:
  assumes "sorted (List.map_filter event_token sent)" "\<forall>t \<in> set (List.map_filter event_token sent). t \<le> v"
    and "\<forall>ev \<in> set evs. event_token ev \<in> {None, Some v}"
  shows "sorted (List.map_filter event_token (sent @ evs)) \<and> (\<forall>t \<in> set (List.map_filter event_token (sent @ evs)). t \<le> v)"
proof -
  have "\<forall>t \<in> set (List.map_filter event_token evs). t = v" using assms(3) by (force simp: List.map_filter_def)
  moreover have "\<forall>t \<in> set xs. t = v \<Longrightarrow> sorted xs" for xs by (induction xs) auto
  ultimately show ?thesis using assms(1,2) by (auto simp: List.map_filter_def sorted_append)
qed

lemma loop_tokens:
  assumes "packets_in_order w cfg arrivals st" "ms_pos st < 2 ^ 32"
    and "sorted (List.map_filter event_token (ms_sent st))" "\<forall>t \<in> set (List.map_filter event_token (ms_sent st)). t \<le> here cfg st"
  shows "sorted (List.map_filter event_token (ms_sent (snd (my_stream_loop w cfg arrivals st))))"
  using assms
proof (induction arrivals arbitrary: st)
  case (Cons a arrivals)
  obtain env arr where a: "a = (env, arr)" by (cases a)
  show ?case
  proof (cases arr)
    case (MyPacket pkt)
    obtain e st' where step: "my_stream_packet w cfg env pkt st = (e, st')" by (cases "my_stream_packet w cfg env pkt st")
    have order: "in_order pkt st" using Cons.prems(1) a MyPacket by simp
    obtain evs where evs: "ms_sent st' = ms_sent st @ evs" "\<forall>ev \<in> set evs. event_token ev \<in> {None, Some (here cfg st')}"
      using packet_sends [OF step] by blast
    have on: "ms_pos st' < 2 ^ 32" "here cfg st \<le> here cfg st'" using packet_moves_on [OF step order Cons.prems(2)] by blast+
    have "\<forall>t \<in> set (List.map_filter event_token (ms_sent st)). t \<le> here cfg st'" using Cons.prems(4) on(2) order.trans by blast
    from tokens_append_sorted [OF Cons.prems(3) this evs(2)] evs(1)
    have sorted: "sorted (List.map_filter event_token (ms_sent st'))" "\<forall>t \<in> set (List.map_filter event_token (ms_sent st')). t \<le> here cfg st'"
      by simp_all
    show ?thesis
    proof (cases e)
      case None
      then have "packets_in_order w cfg arrivals st'" using Cons.prems(1) a MyPacket step by simp
      from Cons.IH [OF this on(1) sorted] show ?thesis using a MyPacket step None by simp
    next
      case (Some err)
      then show ?thesis using a MyPacket step sorted(1) by simp
    qed
  qed (use Cons.prems(3) a in simp_all)
qed simp

text \<open>C18. While the server's positions do not go back, the tokens the stream sends never do: the versions
  of rows and truncations and the positions of boundaries, in the order sent, are sorted, across every rotation and whatever
  ends the stream. So no boundary is older than a row before it and no later row has a lower version.\<close>

theorem binlog_tokens_never_decrease:
  assumes "packets_in_order w cfg arrivals (my_stream_start file pos tracker room)" "pos < 2 ^ 32"
  shows "sorted (List.map_filter event_token (ms_sent (snd (my_stream_loop w cfg arrivals (my_stream_start file pos tracker room)))))"
  by (rule loop_tokens [OF assms(1)]) (use assms(2) in \<open>simp_all add: my_stream_start_def List.map_filter_def\<close>)

subsection \<open>The end of a transaction\<close>

lemma my_then_None_iff: "my_then r f = (None, st') \<longleftrightarrow> (\<exists>st. r = (None, st) \<and> f st = (None, st'))"
  by (cases r) (auto simp: my_then_def split: option.splits)

lemma my_or_end_None_iff: "my_or_end r f st = (None, st') \<longleftrightarrow> (\<exists>a. r = Inr a \<and> f a st = (None, st'))"
  by (auto simp: my_or_end_def split: sum.splits)

lemma my_send_None_iff:
  "my_send ev st = (None, st') \<longleftrightarrow> 0 < ms_room st \<and> st' = st\<lparr>ms_sent := ms_sent st @ [ev], ms_room := ms_room st - 1\<rparr>"
  by (auto simp: my_send_def)

lemma my_send_all_None: "my_send_all evs st = (None, st') \<Longrightarrow> ms_sent st' = ms_sent st @ evs \<and> ms_pending st' = ms_pending st"
  by (induction evs arbitrary: st) (auto simp: my_then_None_iff my_send_None_iff)

definition emptied :: "table list \<Rightarrow> pending \<Rightarrow> pending \<Rightarrow> bool" where
  "emptied tabs p p' \<longleftrightarrow> pe_parents p' = filter (\<lambda>(t, _). t \<notin> set tabs) (pe_parents p) \<and>
     pe_named p' = filter (\<lambda>(t, _). t \<notin> set tabs) (pe_named p) \<and> pe_through p' = pe_through p"

lemma emptied_take: "pending_take tab p = (taken, p') \<Longrightarrow> emptied tabs p' p'' \<Longrightarrow> emptied (tab # tabs) p p''"
  by (auto simp: emptied_def pending_take_def entry_remove_def case_prod_unfold)

lemma flush_tables_done:
  assumes "my_flush_tables w cfg client v tabs st = (None, st')"
  shows "emptied tabs (ms_pending st) (ms_pending st') \<and> (\<exists>rows. ms_sent st' = ms_sent st @ map Row rows \<and> (\<forall>r \<in> set rows. rc_version r = v))"
  using assms
proof (induction tabs arbitrary: st)
  case Nil
  then show ?case by (auto simp: emptied_def)
next
  case (Cons tab tabs)
  obtain rows named p where p: "pending_take tab (ms_pending st) = ((rows, named), p)" by (metis prod.exhaust)
  let ?st = "st\<lparr>ms_pending := p\<rparr>"
  from Cons.prems p obtain emitted st1 where
      sent: "my_send_all (map (\<lambda>r. Row (r\<lparr>rc_version := v\<rparr>)) emitted) ?st = (None, st1)"
      and rest: "my_flush_tables w cfg client v tabs st1 = (None, st')"
    by (auto simp: my_or_end_None_iff my_then_None_iff)
  from my_send_all_None [OF sent] have st1: "ms_sent st1 = ms_sent st @ map Row (map (\<lambda>r. r\<lparr>rc_version := v\<rparr>) emitted)" "ms_pending st1 = p"
    by simp_all
  from Cons.IH [OF rest] obtain more_rows where more:
      "emptied tabs p (ms_pending st')" "ms_sent st' = ms_sent st1 @ map Row more_rows" "\<forall>r \<in> set more_rows. rc_version r = v"
    unfolding st1(2) by blast
  have "ms_sent st' = ms_sent st @ map Row (map (\<lambda>r. r\<lparr>rc_version := v\<rparr>) emitted @ more_rows)"
    using more(2) st1(1) by simp
  moreover have "\<forall>r \<in> set (map (\<lambda>r. r\<lparr>rc_version := v\<rparr>) emitted @ more_rows). rc_version r = v" using more(3) by auto
  ultimately show ?case using emptied_take [OF p more(1)] by blast
qed

lemma named_keeps_through: "pe_through (fold (name_parent ext tab) keys p) = pe_through p"
  by (induction keys arbitrary: p) (simp_all add: name_parent_def Let_def)

lemma resolved_through: "my_resolve_entries w cfg client es p = Inr p' \<Longrightarrow> pe_through p' = pe_through p"
  by (induction es arbitrary: p rule: list.induct)
     (auto simp: bindr_Inr_iff named_keeps_through split: option.splits)

lemma flush_pending_done:
  assumes "my_flush_pending w cfg client v st = (None, st')"
  shows "pending_is_empty (ms_pending st') \<and> (\<exists>rows. ms_sent st' = ms_sent st @ map Row rows \<and> (\<forall>r \<in> set rows. rc_version r = v))"
proof (cases "pending_is_empty (ms_pending st)")
  case False
  with assms obtain p st1 where p: "my_resolve_through w cfg client (ms_pending st) = Inr p"
      and tabs: "my_flush_tables w cfg client v (pending_tables p) (st\<lparr>ms_pending := p\<rparr>) = (None, st1)"
      and st': "st' = st1\<lparr>ms_pending := clear_seen (ms_pending st1)\<rparr>"
    by (auto simp: my_flush_pending_def my_or_end_None_iff my_then_None_iff)
  have "pe_through p = []" using p by (auto simp: my_resolve_through_def take_through_def dest: resolved_through)
  moreover have "emptied (pending_tables p) p (ms_pending st1)" using flush_tables_done [OF tabs] by simp
  ultimately have "pending_is_empty (ms_pending st')"
    by (auto simp: st' emptied_def pending_is_empty_def pending_tables_def clear_seen_def filter_empty_conv image_iff split_paired_Ball_Sigma)
  then show ?thesis using flush_tables_done [OF tabs] by (simp add: st')
qed (use assms in \<open>auto simp: my_flush_pending_def\<close>)


subsection \<open>Registered tables\<close>

text \<open>Every registered table has one name for each column of its rows, and its own schema and name.\<close>

definition table_ok :: "registered_table \<Rightarrow> bool" where
  "table_ok rt \<longleftrightarrow> length (rt_columns rt) = length (tm_columns (rt_meta rt)) \<and>
     rt_schema rt = tm_schema (rt_meta rt) \<and> rt_table rt = tm_name (rt_meta rt)"

definition tables_ok :: "my_stream \<Rightarrow> bool" where
  "tables_ok st \<longleftrightarrow> (\<forall>rt \<in> ran (ms_registered st). table_ok rt)"

definition stays_ok :: "my_stepped \<Rightarrow> bool" where
  "stays_ok r \<longleftrightarrow> tables_ok (snd r)"

lemma tables_ok_update [simp]:
  "tables_ok (st\<lparr>ms_pending := p\<rparr>) = tables_ok st" "tables_ok (st\<lparr>ms_schemas := c\<rparr>) = tables_ok st"
  "tables_ok (st\<lparr>ms_tracker := tr\<rparr>) = tables_ok st" "tables_ok (st\<lparr>ms_checksum := n\<rparr>) = tables_ok st"
  "tables_ok (st\<lparr>ms_pos := n\<rparr>) = tables_ok st" "tables_ok (st\<lparr>ms_sent := evs, ms_room := n\<rparr>) = tables_ok st"
  "tables_ok (st\<lparr>ms_registered := Map.empty\<rparr>)" "tables_ok (st\<lparr>ms_file := f, ms_pos := n, ms_registered := Map.empty\<rparr>)"
  by (simp_all add: tables_ok_def)

lemma stays_ok_pair [simp]: "stays_ok (e, st) = tables_ok st"
  by (simp add: stays_ok_def)

lemma stays_then: "stays_ok r \<Longrightarrow> (\<And>st. tables_ok st \<Longrightarrow> stays_ok (f st)) \<Longrightarrow> stays_ok (my_then r f)"
  by (simp add: stays_ok_def my_then_def split: option.split)

lemma stays_or_end: "tables_ok st \<Longrightarrow> (\<And>a. stays_ok (f a st)) \<Longrightarrow> stays_ok (my_or_end r f st)"
  by (simp add: my_or_end_def split: sum.split)

lemma stays_send: "tables_ok st \<Longrightarrow> stays_ok (my_send ev st)"
  by (simp add: my_send_def)

lemma stays_send_all: "tables_ok st \<Longrightarrow> stays_ok (my_send_all evs st)"
  by (induction evs arbitrary: st) (auto intro: stays_then stays_send)

lemma stays_flush_tables: "tables_ok st \<Longrightarrow> stays_ok (my_flush_tables w cfg client v tabs st)"
proof (induction tabs arbitrary: st)
  case (Cons tab tabs)
  obtain rows named p where p: "pending_take tab (ms_pending st) = ((rows, named), p)" by (metis prod.exhaust)
  show ?case
    unfolding my_flush_tables.simps p prod.case
    by (intro stays_or_end stays_then stays_send_all Cons.IH) (simp_all add: Cons.prems)
qed simp

lemma stays_flush: "tables_ok st \<Longrightarrow> stays_ok (my_flush_pending w cfg client v st)"
  unfolding my_flush_pending_def by (auto intro!: stays_or_end stays_then stays_flush_tables)

lemma stays_rows: "tables_ok st \<Longrightarrow> stays_ok (take_rows w cfg env ty body st)"
proof -
  have send: "tables_ok st \<Longrightarrow> stays_ok (send_rows rt kind v rows st)" for rt kind v rows st
    by (induction rows arbitrary: st) (auto intro!: stays_or_end stays_then stays_send)
  then have "tables_ok st \<Longrightarrow> stays_ok (dispatch_rows w cfg rt rs st)" for rt rs st
    by (auto simp: dispatch_rows_def Let_def intro!: stays_or_end split: option.split)
  then show "tables_ok st \<Longrightarrow> ?thesis"
    unfolding take_rows_def by (auto intro!: stays_or_end stays_then stays_flush split: option.split)
qed

lemma length_set_shapes: "length (set_shapes cms cols) = length cms"
  by (induction cms cols rule: set_shapes.induct) auto

lemma register_keeps: "tables_ok st \<Longrightarrow> tables_ok (register_table env tid meta columns resolved st)"
  by (auto simp: tables_ok_def register_table_def table_ok_def length_set_shapes ran_def)

lemma stays_report: "tables_ok st \<Longrightarrow> stays_ok (report_drift key otherwise st)"
  by (auto simp: report_drift_def intro!: stays_send split: option.split prod.split)

lemma stays_with_schema: "tables_ok st \<Longrightarrow> (\<And>s st. tables_ok st \<Longrightarrow> stays_ok (f s st)) \<Longrightarrow> stays_ok (with_schema w env key f st)"
  by (auto simp: with_schema_def intro!: stays_or_end split: prod.split)

lemma stays_table_map: "tables_ok st \<Longrightarrow> stays_ok (take_table_map w env body st)"
proof -
  have "tables_ok st \<Longrightarrow> tables_ok (st\<lparr>ms_registered := (ms_registered st)(tid := None)\<rparr>)" for tid
    by (auto simp: tables_ok_def ran_def split: if_splits)
  then show "tables_ok st \<Longrightarrow> ?thesis"
    unfolding take_table_map_def
    by (auto simp: Let_def register_keeps intro!: stays_or_end stays_with_schema stays_then stays_report split: prod.split)
qed

lemma stays_packet: "tables_ok st \<Longrightarrow> stays_ok (my_stream_packet w cfg env pkt st)"
proof -
  assume ok: "tables_ok st"
  have rotate: "tables_ok st \<Longrightarrow> stays_ok (take_rotate body st)" for body st
    by (auto simp: take_rotate_def intro!: stays_or_end split: option.split)
  have statement: "tables_ok st \<Longrightarrow> stays_ok (take_statement w cfg env q st)" for q st
    by (auto simp: take_statement_def Let_def intro!: stays_send split: option.split prod.split)
  have "tables_ok st \<Longrightarrow> stays_ok (take_event w cfg env ev h body st)" for ev h body st
    by (auto simp: take_event_def Let_def take_gtid_def take_unnamed_def take_heartbeat_def take_xid_def
        intro!: rotate statement stays_send stays_then stays_flush stays_table_map stays_rows split: option.split)
  then show ?thesis
    unfolding my_stream_packet_def using ok by (auto intro!: stays_or_end split: list.split option.split)
qed

lemma loop_tables_ok: "tables_ok st \<Longrightarrow> tables_ok (snd (my_stream_loop w cfg arrivals st))"
proof (induction arrivals arbitrary: st)
  case (Cons a arrivals)
  obtain env arr where a: "a = (env, arr)" by (cases a)
  show ?case
  proof (cases arr)
    case (MyPacket pkt)
    obtain e st' where step: "my_stream_packet w cfg env pkt st = (e, st')" by (cases "my_stream_packet w cfg env pkt st")
    have "tables_ok st'" using stays_packet [OF Cons.prems, of w cfg env pkt] step by simp
    then show ?thesis using Cons.IH [of st'] a MyPacket step by (cases e) simp_all
  qed (use Cons.prems a in simp_all)
qed simp

text \<open>C21. Whatever arrives, every table the stream has registered has exactly one column name for each
  column its rows are decoded with, and stands under its own schema and name.\<close>

theorem registered_tables_typed:
  "case ms_registered (snd (my_stream_loop w cfg arrivals (my_stream_start file pos tracker room))) tid of
       Some rt \<Rightarrow> length (rt_columns rt) = length (tm_columns (rt_meta rt)) \<and>
         rt_schema rt = tm_schema (rt_meta rt) \<and> rt_table rt = tm_name (rt_meta rt)
     | None \<Rightarrow> True"
proof -
  have "tables_ok (snd (my_stream_loop w cfg arrivals (my_stream_start file pos tracker room)))"
    by (rule loop_tables_ok) (simp add: my_stream_start_def tables_ok_def)
  then show ?thesis by (auto simp: tables_ok_def table_ok_def ran_def split: option.split)
qed

end
