(* ===== verification/My_Stream_Docs.thy ===== *)
theory My_Stream_Docs
  imports My_Stream_Facts My_Agree
begin

section \<open>A streamed insert is the document the load builds\<close>

text \<open>
  The binlog names no column and no key: the stream puts the names and shapes the catalogue gave beside the
  values of the image. Here an inserted row, from the bytes of its event to the change sent, is the
  document and the key \<open>build_document\<close> gives the load for the same row.
\<close>

definition load_row :: "cell list \<Rightarrow> byte_row" where
  "load_row cells = map (map_option snd) cells"

definition registered_as :: "my_schema \<Rightarrow> registered_table \<Rightarrow> bool" where
  "registered_as s rt \<longleftrightarrow> rt_columns rt = schema_names s \<and> rt_pk_columns rt = msc_pk_columns s \<and>
     map cm_shape (tm_columns (rt_meta rt)) = map (\<lambda>c. Some (mcol_shape c)) (msc_columns s)"

text \<open>A table map whose table the catalogue has the same number of columns of registers it so.\<close>

lemma shapes_set: "length cms = length cols \<Longrightarrow> map cm_shape (set_shapes cms cols) = map (\<lambda>c. Some (mcol_shape c)) cols"
  by (induction cms cols rule: set_shapes.induct) auto

lemma register_table_registers:
  assumes "length (tm_columns meta) = length (msc_columns s)"
  shows "\<exists>rt. ms_registered (register_table env tid meta (schema_names s) s st) tid = Some rt \<and> registered_as s rt"
  using assms by (simp add: register_table_def registered_as_def shapes_set schema_names_def)

subsection \<open>The document and the key\<close>

lemma loaded_values:
  assumes "registered_as s rt" "length cells = length (msc_columns s)"
  shows "row_values w s (load_row cells) = zip (schema_names s) (loaded_row (mw_ext w) (mw_base64 w) (rt_meta rt) cells)"
proof -
  have n: "length (tm_columns (rt_meta rt)) = length (msc_columns s)"
    using assms(1) by (auto simp: registered_as_def dest: map_eq_imp_length_eq)
  have shape: "cm_shape (tm_columns (rt_meta rt) ! i) = Some (mcol_shape (msc_columns s ! i))" if "i < length (msc_columns s)" for i
  proof -
    have "map cm_shape (tm_columns (rt_meta rt)) ! i = map (\<lambda>c. Some (mcol_shape c)) (msc_columns s) ! i"
      using assms(1) by (simp add: registered_as_def)
    then show ?thesis using that n by simp
  qed
  show ?thesis
    by (rule nth_equalityI)
      (use assms(2) n shape in \<open>simp_all add: row_values_def schema_names_def loaded_row_def loaded_cell_def row_cell_def load_row_def nth_enumerate_eq\<close>)
qed

lemma document_zip: "document columns (map Some vs) = bt_extend [] (zip columns vs)"
proof -
  have "List.map_filter (\<lambda>(name, v). map_option (Pair name) v) (zip columns (map Some vs)) = zip columns vs"
    by (induction columns vs rule: list_induct2') (simp_all add: List.map_filter_def)
  then show ?thesis by (simp add: document_def)
qed

lemma key_found:
  assumes "pk \<in> set columns" "length vs = length columns"
  shows "key_value columns (map Some vs) pk = Inr (pk, the (map_of (zip columns vs) pk))"
proof -
  let ?i = "length (takeWhile (\<lambda>c. c \<noteq> pk) columns)"
  have "?i < length vs \<and> map_of (zip columns vs) pk = Some (vs ! ?i)"
    using assms(2) [symmetric] assms(1) by (induction columns vs rule: list_induct2) auto
  then show ?thesis using assms by (simp add: key_value_def position_of_def image_value_def)
qed

lemma map_of_keys: "map_of (filter (\<lambda>(k, _). k \<in> ks) kvs) = map_of kvs |` ks"
  by (induction kvs) (auto simp: restrict_map_def fun_eq_iff)

lemma key_inserts:
  assumes "set pks \<subseteq> set (map fst kvs)" "distinct (map fst kvs)"
  shows "bt_extend [] (map (\<lambda>pk. (pk, the (map_of kvs pk))) pks) = bt_extend [] (filter (\<lambda>(k, _). k \<in> set pks) kvs)"
proof (rule bt.get_ext)
  have "distinct (map fst (filter (\<lambda>(k, _). k \<in> set pks) kvs))" using assms(2) by (rule distinct_map_filter)
  then have right: "map_of (rev (filter (\<lambda>(k, _). k \<in> set pks) kvs)) = map_of kvs |` set pks"
    using map_of_inject_set [of "rev (filter (\<lambda>(k, _). k \<in> set pks) kvs)" "filter (\<lambda>(k, _). k \<in> set pks) kvs"]
    by (simp add: map_of_keys rev_map [symmetric])
  have "map_of (rev (map (\<lambda>pk. (pk, the (map_of kvs pk))) pks)) = (Some \<circ> (\<lambda>pk. the (map_of kvs pk))) |` set pks"
    unfolding rev_map by (simp add: map_of_map_restrict)
  also have "\<dots> = map_of kvs |` set pks"
  proof (rule ext)
    fix k
    show "((Some \<circ> (\<lambda>pk. the (map_of kvs pk))) |` set pks) k = (map_of kvs |` set pks) k"
    proof (cases "k \<in> set pks")
      case True
      then have "map_of kvs k \<noteq> None" using assms(1) by (auto simp: map_of_eq_None_iff)
      then show ?thesis using True by auto
    qed simp
  qed
  finally show "bt_get (bt_extend [] (map (\<lambda>pk. (pk, the (map_of kvs pk))) pks)) = bt_get (bt_extend [] (filter (\<lambda>(k, _). k \<in> set pks) kvs))"
    using right by (simp add: bt_extend_ins_all bt.get_ins_all)
qed (simp_all add: bt_extend_ins_all bt.invar_ins_all)

lemma key_built:
  assumes "length vs = length columns" "distinct columns" "set pks \<subseteq> set columns" "pks \<noteq> []"
  shows "primary_key columns (map Some vs) pks =
    Inr (case bt_extend [] (filter (\<lambda>(k, _). k \<in> set pks) (zip columns vs)) of [] \<Rightarrow> JNull | [(_, v)] \<Rightarrow> v | key \<Rightarrow> JObject key)"
proof -
  let ?kvs = "zip columns vs"
  have names: "map fst ?kvs = columns" using assms(1) by simp
  have "mapr (key_value columns (map Some vs)) pks = Inr (map (\<lambda>pk. (pk, the (map_of ?kvs pk))) pks)"
    using assms(1,3) key_found [of _ columns vs] by (intro mapr_Inr_map) auto
  moreover have "bt_extend [] (map (\<lambda>pk. (pk, the (map_of ?kvs pk))) pks) = bt_extend [] (filter (\<lambda>(k, _). k \<in> set pks) ?kvs)"
    using assms(2,3) names by (intro key_inserts) simp_all
  moreover have "bt_extend [] (map (\<lambda>pk. (pk, the (map_of ?kvs pk))) pks) \<noteq> []"
  proof
    assume "bt_extend [] (map (\<lambda>pk. (pk, the (map_of ?kvs pk))) pks) = []"
    then have "bt_get (bt_extend [] (map (\<lambda>pk. (pk, the (map_of ?kvs pk))) pks)) (hd pks) = None" by (simp add: bt_get_def)
    then show False using assms(4) by (simp add: bt_extend_ins_all bt.get_ins_all bt_get_def map_of_eq_None_iff map_add_None image_image)
  qed
  ultimately show ?thesis by (auto simp: primary_key_def split: list.split)
qed

text \<open>The change of an inserted row.\<close>

definition insert_of :: "my_world \<Rightarrow> my_schema \<Rightarrow> registered_table \<Rightarrow> u64 \<Rightarrow> byte_row \<Rightarrow> row_change" where
  "insert_of w s rt version row =
     (case build_document w s row of
        (doc, key) \<Rightarrow> \<lparr>rc_schema = rt_schema rt, rc_table = rt_table rt,
          rc_kind = Insert (if rt_append_only rt then JNull else key) doc, rc_version = Some version\<rparr>)"

lemma insert_built:
  assumes "registered_as s rt" "length cells = length (msc_columns s)" "distinct (schema_names s)"
    and "rt_append_only rt \<or> msc_pk_columns s \<noteq> []" "set (msc_pk_columns s) \<subseteq> set (schema_names s)"
  shows "build_change rt WriteRows (loaded_event_row (mw_ext w) (mw_base64 w) (rt_meta rt) (None, cells)) v =
    Inr (insert_of w s rt v (load_row cells))"
proof -
  let ?vs = "loaded_row (mw_ext w) (mw_base64 w) (rt_meta rt) cells"
  have rt: "rt_columns rt = schema_names s" "rt_pk_columns rt = msc_pk_columns s" using assms(1) by (simp_all add: registered_as_def)
  have "length (tm_columns (rt_meta rt)) = length (msc_columns s)"
    using assms(1) by (auto simp: registered_as_def dest: map_eq_imp_length_eq)
  then have n: "length ?vs = length (schema_names s)" using assms(2) by (simp add: loaded_row_def schema_names_def)
  note vals = loaded_values [OF assms(1,2), of w]
  show ?thesis
    using key_built [OF n assms(3,5)] assms(4)
    by (auto simp: build_change_def change_images_def loaded_event_row_def rt document_zip insert_of_def build_document_def vals Let_def split: list.split)
qed

subsection \<open>From the bytes of the event to what is sent\<close>

definition plain_table :: "my_config \<Rightarrow> registered_table \<Rightarrow> bool" where
  "plain_table cfg rt \<longleftrightarrow> (let tab = (rt_schema rt, rt_table rt) in
     map_of (mcf_child_parents cfg) tab = None \<and> map_of (mcf_children cfg) tab = None \<and> map_of (mcf_aggregates cfg) tab = None)"

lemma send_rows_all:
  assumes "\<forall>x \<in> set xs. build_change rt kind (g x) v = Inr (f x)"
  shows "send_rows rt kind v (map g xs) st = my_send_all (map (\<lambda>x. Row (f x)) xs) st"
  using assms
proof (induction xs arbitrary: st)
  case (Cons x xs)
  then have "send_rows rt kind v (map g xs) = my_send_all (map (\<lambda>x. Row (f x)) xs)" by auto
  then show ?case using Cons.prems by (simp add: my_or_end_def)
qed simp

lemma send_all_then:
  assumes "\<And>st'. ms_pending st' = ms_pending st \<Longrightarrow> f st' = (None, st')"
  shows "my_then (my_send_all evs st) f = my_send_all evs st"
proof (cases "my_send_all evs st")
  case (Pair e st')
  then show ?thesis using assms my_send_all_None [of evs st st'] by (cases e) (auto simp: my_then_def)
qed

lemma nothing_held: "pending_is_empty p \<Longrightarrow> pending_len p = 0"
  by (simp add: pending_is_empty_def pending_len_def)


text \<open>A row of two columns into a registered table.\<close>

definition sample_world :: my_world where
  "sample_world = \<lparr>mw_ext = sample_externs, mw_base64 = (\<lambda>b. b), mw_lower = (\<lambda>s. s), mw_upper = (\<lambda>s. s),
     mw_alnum = (\<lambda>_. False), mw_debug_str = (\<lambda>s. s), mw_fshow = (\<lambda>_. []), mw_stack = 8\<rparr>"

definition sample_env :: my_env where
  "sample_env = \<lparr>me_tables = ts_default, me_client = \<lparr>mc_text_rows = (\<lambda>_. Inr []), mc_query = (\<lambda>_. Inr ([], None))\<rparr>\<rparr>"

definition sample_config :: my_config where
  "sample_config = \<lparr>mcf_children = [], mcf_aggregates = [], mcf_child_parents = [], mcf_version_base = 0\<rparr>"

definition sample_schema :: my_schema where
  "sample_schema = \<lparr>msc_columns = [\<lparr>mcol_name = ''id'', mcol_shape = ShapeInt\<rparr>, \<lparr>mcol_name = ''name'', mcol_shape = ShapeText\<rparr>],
     msc_pk_columns = [''id'']\<rparr>"

definition sample_registered :: registered_table where
  "sample_registered = \<lparr>rt_schema = ''shop'', rt_table = ''orders'', rt_meta = sample_meta, rt_columns = [''id'', ''name''],
     rt_pk_columns = [''id''], rt_append_only = False\<rparr>"

definition sample_stream :: my_stream where
  "sample_stream = (my_stream_start ''binlog.000004'' 900 None 9)\<lparr>ms_registered := [7 \<mapsto> sample_registered]\<rparr>"

definition sample_cells :: "cell list" where
  "sample_cells = [Some (le_bytes 4 (as_unsigned 32 (-5)), show_int (-5)), Some (le_bytes 1 2 @ ''ab'', ''ab'')]"

lemma sample_cells_stored: "row_stored sample_externs 8 sample_meta sample_cells"
proof -
  have "stored_as sample_externs 8 3 [] ShapeInt (le_bytes 4 (as_unsigned 32 (-5))) (show_int (-5))"
    using stored_as.Integer [of 3 4 "-5" sample_externs 8] by (simp add: int_bytes_def)
  moreover have "stored_as sample_externs 8 15 (le_bytes 2 40) ShapeText (le_bytes 1 2 @ ''ab'') ''ab''"
    using stored_as.VarChar [of "''ab''" 40 ShapeText sample_externs 8] by (simp flip: numeral_2_eq_2)
  ultimately show ?thesis by (simp add: row_stored_def cell_stored_def sample_meta_def sample_cells_def)
qed

lemma sample_insert:
  "insert_of sample_world sample_schema sample_registered 17179870084 (load_row sample_cells) =
    \<lparr>rc_schema = ''shop'', rc_table = ''orders'', rc_kind = Insert (JNumber (NInt (-5)))
       (JObject [(''id'', JNumber (NInt (-5))), (''name'', JString ''ab'')]), rc_version = Some 17179870084\<rparr>"
  using convert_int [of "-5" sample_externs "\<lambda>b. b"] convert_ascii(1) [of "''ab''" sample_externs "\<lambda>b. b"]
  by (simp add: insert_of_def build_document_def row_values_def row_cell_def sample_schema_def sample_registered_def load_row_def
      sample_cells_def sample_world_def bt_extend_def i64_min_def i64_max_def)

lemma sample_file: "split_binlog_file ''binlog.000004'' = Some (''binlog'', 4)"
proof -
  have "pad_left 6 (show_nat 4) = ''000004''" by code_simp
  then have "parse_unsigned 10 (2 ^ 32) ''000004'' = Some 4" using parse_padded [of 4 "2 ^ 32" 6] by simp
  then show ?thesis by (simp add: split_binlog_file_def)
qed

lemma sample_here: "here sample_config sample_stream = 17179870084"
  by (simp add: here_def token_at_def position_token_def sample_stream_def my_stream_start_def sample_file sample_config_def
      saturating_add_def)


subsection \<open>The other witnesses\<close>

definition sample_held :: row_change where
  "sample_held = \<lparr>rc_schema = ''shop'', rc_table = ''orders'', rc_kind = Delete (JNumber (NInt 3)) None, rc_version = Some 1\<rparr>"


text \<open>A transaction's end, a rotation to the next file and a heartbeat in it.\<close>

definition sample_header :: "nat \<Rightarrow> nat \<Rightarrow> bytes" where
  "sample_header ty log_pos = le_bytes 4 0 @ [char_of ty] @ le_bytes 4 1 @ le_bytes 4 23 @ le_bytes 4 log_pos @ le_bytes 2 0"

definition sample_packet :: "nat \<Rightarrow> nat \<Rightarrow> bytes \<Rightarrow> bytes" where
  "sample_packet ty log_pos body = CHR 0x00 # sample_header ty log_pos @ body @ le_bytes 4 0"

lemma sample_header_read:
  assumes "ty < 256" "log_pos < 2 ^ 32"
  shows "parse_header (sample_header ty log_pos @ body) =
    Some \<lparr>eh_timestamp = 0, eh_event_type = ty, eh_event_size = 23, eh_log_pos = log_pos, eh_server_id = 1\<rparr>"
  using assms le_value_bytes [of 0 4] le_value_bytes [of 1 4] le_value_bytes [of 23 4] le_value_bytes [of log_pos 4]
  by (simp add: parse_header_def sample_header_def sub_bytes_def nth_append)

lemma sample_body: "event_body (sample_header ty log_pos @ body @ le_bytes 4 0) ty' 4 = Inr body"
  by (simp add: event_body_def sample_header_def sub_bytes_def)

lemma sample_packet_taken:
  assumes "ty < 256" "log_pos < 2 ^ 32" "ms_checksum st = 4"
  defines "h \<equiv> \<lparr>eh_timestamp = 0, eh_event_type = ty, eh_event_size = 23, eh_log_pos = log_pos, eh_server_id = 1\<rparr>"
  shows "my_stream_packet w cfg env (sample_packet ty log_pos body) st =
    take_event w cfg env (sample_header ty log_pos @ body @ le_bytes 4 0) h body (st\<lparr>ms_pos := event_end_pos h (ms_pos st)\<rparr>)"
  using sample_body [of ty log_pos body ty]
  by (simp add: my_stream_packet_def sample_packet_def sample_header_read [OF assms(1,2)] assms(3) my_or_end_def h_def)

definition rotated_body :: bytes where
  "rotated_body = le_bytes 8 4 @ ''binlog.000005''"

lemma rotated: "parse_rotate rotated_body = Inr (Some \<lparr>ri_next_file = ''binlog.000005'', ri_position = 4\<rparr>)"
  using le_value_bytes [of 4 8]
  by (simp add: parse_rotate_def rotated_body_def my_uint_def my_take_def sub_bytes_def from_utf8_lossy_ascii bindr_def)

definition sample_run :: "my_env \<Rightarrow> (my_env \<times> my_arrival) list" where
  "sample_run env = [(env, MyPacket (sample_packet 16 1000 [])), (env, MyPacket (sample_packet 4 0 rotated_body)),
     (env, MyPacket (sample_packet 27 120 []))]"

lemma next_file: "split_binlog_file ''binlog.000005'' = Some (''binlog'', 5)"
proof -
  have "pad_left 6 (show_nat 5) = ''000005''" by code_simp
  then have "parse_unsigned 10 (2 ^ 32) ''000005'' = Some 5" using parse_padded [of 5 "2 ^ 32" 6] by simp
  then show ?thesis by (simp add: split_binlog_file_def)
qed

lemmas sample_run_defs = sample_packet_taken take_event_def take_xid_def take_heartbeat_def take_rotate_def event_end_pos_def my_then_def
  my_or_end_def my_send_def my_flush_pending_def pending_is_empty_def pending_default_def my_stream_start_def rotated map_err_def here_def

lemma sample_in_order:
  assumes "ty < 256" "log_pos < 2 ^ 32" "ms_checksum st = 4" "ty \<noteq> T_ROTATE \<Longrightarrow> ty = T_HEARTBEAT \<or> ms_pos st \<le> log_pos"
    and "ty = T_ROTATE \<Longrightarrow> body = rotated_body \<and> file_index (ms_file st) < 5"
  shows "in_order (sample_packet ty log_pos body) st"
proof (cases "ty = T_ROTATE")
  case True
  then show ?thesis
    using assms(5) sample_header_read [OF assms(1,2)] sample_body [of ty log_pos body ty] assms(3)
    by (simp add: in_order_def sample_packet_def rotated file_index_def next_file)
next
  case False
  then show ?thesis using assms(4) sample_header_read [OF assms(1,2)] by (auto simp: in_order_def sample_packet_def)
qed

lemma sample_order: "packets_in_order sample_world sample_config (sample_run env) (my_stream_start ''binlog.000004'' 900 None 9)"
  by (simp add: sample_run_def sample_in_order sample_run_defs file_index_def sample_file)

text \<open>The tokens are \<open>4 * 2^32 + 1000\<close> and \<open>5 * 2^32 + 120\<close>.\<close>

theorem binlog_tokens_never_decrease_witness:
  "let sent = ms_sent (snd (my_stream_loop sample_world sample_config (sample_run sample_env) (my_stream_start ''binlog.000004'' 900 None 9)))
   in List.map_filter event_token sent = [17179870184, 21474836600] \<and> sorted (List.map_filter event_token sent)"
proof -
  have "List.map_filter event_token (ms_sent (snd (my_stream_loop sample_world sample_config (sample_run sample_env)
      (my_stream_start ''binlog.000004'' 900 None 9)))) = [17179870184, 21474836600]"
    by (simp add: sample_run_def sample_run_defs List.map_filter_def token_at_def position_token_def sample_file next_file sample_config_def
        saturating_add_def)
  with binlog_tokens_never_decrease [OF sample_order] show ?thesis unfolding Let_def by simp
qed

subsection \<open>What the stream does not keep\<close>

text \<open>A heartbeat reports a position as committed whatever is held: the rows of a transaction that no
  \<open>XID\<close> event closes, as one on tables without transactions, are acknowledged before they are sent.\<close>

lemma heartbeat_commits_over_held:
  "0 < ms_room st \<Longrightarrow> \<exists>st'. take_heartbeat cfg st = (None, st') \<and> ms_pending st' = ms_pending st \<and>
     ms_sent st' = ms_sent st @ [Transaction (Commit (Lsn (here cfg st)) 0)]"
  by (simp add: take_heartbeat_def my_send_def)

text \<open>An update that moves a child row names the parent it joins and not the one it leaves.\<close>

lemma my_moved_child_names_new_parent_only:
  assumes "cs_through spec = None" "cs_foreign_key spec = ''order_id''" "rt_columns rt = [''id'', ''order_id'']"
  shows "name_child_rows w rt tab parent spec [\<lparr>rr_before = Some [Some a, Some old_parent], rr_after = Some [Some a, Some new_parent]\<rparr>] p =
    Inr (name_parent (mw_ext w) parent new_parent p)"
  using assms by (simp add: my_through_child_def row_column_def image_column_def position_of_def image_value_def)

text \<open>The declaration of a column is lowered before its labels are read, so the label a streamed row gets is
  not the text the load reads where a label has a capital.\<close>

lemma enum_label_lowered:
  fixes w
  defines "declared \<equiv> ''enum('' @ [SQUOTE] @ ''Active'' @ [SQUOTE] @ '')''" and "lowered \<equiv> ''enum('' @ [SQUOTE] @ ''active'' @ [SQUOTE] @ '')''"
  assumes "mw_lower w ''enum'' = ''enum''" "mw_lower w declared = lowered"
  shows "mcol_shape (column_shape w [Some ''status'', Some ''enum'', Some declared]) = ShapeEnum [''active'']"
    and "enum_label [''active''] 1 = JString ''active''"
    and "my_convert ext base64 (ShapeEnum [''active'']) (Some ''Active'') = JString ''Active''"
proof -
  have "labels lowered = [''active'']"
    using labels_of_declaration [of "[''active'']" "''enum''"] by (simp add: lowered_def quote_label_def SQUOTE_def)
  then show "mcol_shape (column_shape w [Some ''status'', Some ''enum'', Some declared]) = ShapeEnum [''active'']"
    using assms(3,4) by (simp add: column_shape_def shape_of_def Let_def)
  show "enum_label [''active''] 1 = JString ''active''" by (simp add: enum_label_def)
  show "my_convert ext base64 (ShapeEnum [''active'']) (Some ''Active'') = JString ''Active''"
    by (simp add: my_convert_def from_utf8_lossy_ascii)
qed

end
