(* ===== verification/My_Packet.thy ===== *)
theory My_Packet
  imports My_Catalog
begin

section \<open>The MySQL client protocol (\<open>crates/source-mysql/src/packet.rs\<close>, \<open>connection.rs\<close>, \<open>auth.rs\<close>)\<close>

text \<open>
  The framing of messages, the text result set, the greeting, and the exchange that logs in. What the server sends is
  a byte string, what is written is a list, each write with whether the connection was encrypted then. Hash functions and RSA are
  parameters. Socket errors while writing are not modelled; the sequence number wraps, as in a release build.
\<close>

subsection \<open>Framing\<close>

definition MAX_PAYLOAD :: nat where "MAX_PAYLOAD = 16777215"

definition frame :: "nat \<Rightarrow> bytes \<Rightarrow> bytes" where
  "frame seq payload = take 3 (le_bytes 4 (length payload mod 2 ^ 32)) @ [char_of seq] @ payload"

function chunks_of :: "nat \<Rightarrow> 'a list \<Rightarrow> 'a list list" where
  "chunks_of n xs = (if xs = [] \<or> n = 0 then [] else take n xs # chunks_of n (drop n xs))"
  by auto
termination by (relation "measure (\<lambda>(_, xs). length xs)") auto

declare chunks_of.simps [simp del]

fun frame_chunks :: "nat \<Rightarrow> bytes list \<Rightarrow> bytes list" where
  "frame_chunks seq [] = []"
| "frame_chunks seq (c # cs) = frame seq c # frame_chunks ((seq + 1) mod 256) cs"

definition frame_all :: "nat \<Rightarrow> bytes \<Rightarrow> bytes list" where
  "frame_all start_seq payload =
     frame_chunks start_seq (chunks_of MAX_PAYLOAD payload @ (if payload = [] \<or> length payload mod MAX_PAYLOAD = 0 then [[]] else []))"

text \<open>One message from the stream: the packets after the first must be numbered one after another.\<close>

function read_packets :: "nat option \<Rightarrow> bytes \<Rightarrow> bytes \<Rightarrow> (my_error, (nat \<times> bytes) \<times> bytes) result" where
  "read_packets expected payload s =
     (if length s < 4 then Inl (MyConnect ''connection closed mid-packet'' None)
      else
        (let len = le_value (take 3 s); seq = asc (s ! 3); body = drop 4 s in
         if expected \<noteq> None \<and> expected \<noteq> Some seq
         then Inl (MyProtocol (''packet sequence '' @ show_nat seq @ '' arrived where '' @ show_nat (the expected) @ '' was expected''))
         else if length body < len then Inl (MyConnect ''connection closed mid-payload'' None)
         else if len < MAX_PAYLOAD then Inr ((seq, payload @ take len body), drop len body)
         else read_packets (Some ((seq + 1) mod 256)) (payload @ take len body) (drop len body)))"
  by pat_completeness auto
termination by (relation "measure (\<lambda>(_, _, s). length s)") auto

declare read_packets.simps [simp del]

definition read_message :: "bytes \<Rightarrow> (my_error, (nat \<times> bytes) \<times> bytes) result" where
  "read_message s = read_packets None [] s"

subsection \<open>Result sets\<close>

definition lenenc_at :: "bytes \<Rightarrow> (nat \<times> bytes) option" where
  "lenenc_at s =
     (case s of
        [] \<Rightarrow> None
      | b # r \<Rightarrow>
          (let width = (if b = CHR 0xFC then 2 else if b = CHR 0xFD then 3 else if b = CHR 0xFE then 8 else 0)
           in if length r < width then None
              else Some (if width = 0 then asc b else le_value (take width r), drop width r)))"

fun parse_text_row :: "nat \<Rightarrow> bytes \<Rightarrow> (my_error, byte_row) result" where
  "parse_text_row 0 s = Inr []"
| "parse_text_row (Suc n) s =
     (case s of
        [] \<Rightarrow> Inr []
      | b # r \<Rightarrow>
          if b = CHR 0xFB then bindr (parse_text_row n r) (\<lambda>vals. Inr (None # vals))
          else case lenenc_at s of
            None \<Rightarrow> Inl (MyProtocol ''row truncated'')
          | Some (len, r) \<Rightarrow>
              if length r < len then Inl (MyProtocol ''row value truncated'')
              else bindr (parse_text_row n (drop len r)) (\<lambda>vals. Inr (Some (take len r) # vals)))"

definition error_message :: "bytes \<Rightarrow> string" where
  "error_message payload = from_utf8_lossy (drop 9 payload)"

lemma read_packets_shorter: "read_packets expected payload s = Inr (x, s') \<Longrightarrow> length s' < length s"
proof (induction expected payload s rule: read_packets.induct)
  case (1 expected payload s)
  let ?body = "drop 4 s" and ?len = "le_value (take 3 s)"
  show ?case
  proof (cases "length s < 4 \<or> (expected \<noteq> None \<and> expected \<noteq> Some (asc (s ! 3))) \<or> length ?body < ?len \<or> ?len < MAX_PAYLOAD")
    case True
    then show ?thesis using "1.prems" by (subst (asm) read_packets.simps) (auto simp: Let_def split: if_splits)
  next
    case False
    then have "read_packets (Some ((asc (s ! 3) + 1) mod 256)) (payload @ take ?len ?body) (drop ?len ?body) = Inr (x, s')"
      using "1.prems" by (subst (asm) read_packets.simps) (auto simp: Let_def)
    from "1.IH" [OF _ refl refl refl _ _ _ this] False have "length s' < length (drop ?len ?body)" by auto
    then show ?thesis by simp
  qed
qed

lemma read_message_shorter: "read_message s = Inr (x, s') \<Longrightarrow> length s' < length s"
  by (simp add: read_message_def read_packets_shorter)

function read_rows :: "nat \<Rightarrow> byte_row list \<Rightarrow> bytes \<Rightarrow> byte_row list \<times> my_error option" where
  "read_rows ncols rows s =
     (case read_message s of
        Inl e \<Rightarrow> (rows, Some e)
      | Inr ((_, pkt), s') \<Rightarrow>
          (case pkt of
             [] \<Rightarrow> (rows, None)
           | b # _ \<Rightarrow>
               if b = CHR 0xFF then (rows, Some (MyCatalog (''query failed mid-resultset: '' @ error_message pkt)))
               else if b = CHR 0xFE \<and> length pkt < 9 then (rows, None)
               else case parse_text_row ncols pkt of
                 Inl e \<Rightarrow> (rows, Some e)
               | Inr row \<Rightarrow> read_rows ncols (rows @ [row]) s'))"
  by pat_completeness auto
termination by (relation "measure (\<lambda>(_, _, s). length s)") (auto dest: read_message_shorter)

declare read_rows.simps [simp del]

fun skip_messages :: "nat \<Rightarrow> bytes \<Rightarrow> (my_error, bytes) result" where
  "skip_messages 0 s = Inr s"
| "skip_messages (Suc n) s = bindr (read_message s) (\<lambda>(_, s'). skip_messages n s')"

text \<open>The answer to a query: the rows, and the error that cut them off, if any.\<close>

definition read_answer :: "bytes \<Rightarrow> (my_error, byte_row list \<times> my_error option) result" where
  "read_answer s =
     bindr (read_message s) (\<lambda>((_, head), s).
     bindr (case head of
              [] \<Rightarrow> Inr 0
            | b # _ \<Rightarrow>
                if b = CHR 0xFF then Inl (MyCatalog (''query failed: '' @ error_message head))
                else if b = CHR 0x00 then Inr 0
                else ok_or (MyProtocol ''resultset header is not a column count'') (map_option fst (lenenc_at head))) (\<lambda>ncols.
       if ncols = 0 then Inr ([], None)
       else bindr (skip_messages (ncols + 1) s) (\<lambda>s. Inr (read_rows ncols [] s))))"

subsection \<open>Commands\<close>

text \<open>Every command starts a new sequence. Statements that only prepare the connection read one message and
  ignore it.\<close>

definition write_command :: "bytes \<Rightarrow> bytes list" where
  "write_command payload = frame_all 0 payload"

definition send_query :: "string \<Rightarrow> bytes list" where
  "send_query sql = write_command (CHR 0x03 # sql)"

definition send_binlog_dump :: "32 word \<Rightarrow> string \<Rightarrow> nat \<Rightarrow> bytes list" where
  "send_binlog_dump server_id filename pos =
     write_command ([CHR 0x12] @ le_bytes 4 pos @ le_bytes 2 0 @ le_bytes 4 (unat server_id) @ filename @ [CHR 0x00])"

definition send_binlog_dump_gtid :: "32 word \<Rightarrow> bytes \<Rightarrow> bytes list" where
  "send_binlog_dump_gtid server_id sids =
     write_command ([CHR 0x1E] @ le_bytes 2 4 @ le_bytes 4 (unat server_id) @ le_bytes 4 0 @ le_bytes 8 4
       @ le_bytes 4 (length sids mod 2 ^ 32) @ sids)"

definition maria_statements :: "string option \<Rightarrow> string list" where
  "maria_statements resume_from =
     [''SET @mariadb_slave_capability = 4'', ''SET @slave_gtid_ignore_duplicates = 0'']
     @ (case resume_from of
          Some position \<Rightarrow> [''SET @slave_connect_state = '' @ [SQUOTE] @ position @ [SQUOTE], ''SET @slave_gtid_strict_mode = 1'']
        | None \<Rightarrow> [])"

fun run_statements :: "string list \<Rightarrow> bytes \<Rightarrow> (my_error, bytes) result \<times> bytes list" where
  "run_statements [] s = (Inr s, [])"
| "run_statements (stmt # stmts) s =
     (case read_message s of
        Inl e \<Rightarrow> (Inl e, send_query stmt)
      | Inr (_, s) \<Rightarrow> (case run_statements stmts s of (r, out) \<Rightarrow> (r, send_query stmt @ out)))"

definition set_maria_gtid_state :: "string option \<Rightarrow> bytes \<Rightarrow> (my_error, bytes) result \<times> bytes list" where
  "set_maria_gtid_state resume_from s = run_statements (maria_statements resume_from) s"

definition set_heartbeat_period :: "nat \<Rightarrow> bytes \<Rightarrow> (my_error, bytes) result \<times> bytes list" where
  "set_heartbeat_period nanos s = run_statements [''SET @master_heartbeat_period = '' @ show_nat (min nanos (2 ^ 64 - 1))] s"

definition negotiate_checksum :: "bytes \<Rightarrow> (my_error, bytes) result \<times> bytes list" where
  "negotiate_checksum s = run_statements [''SET @master_binlog_checksum= @@global.binlog_checksum''] s"

subsection \<open>A framed message reads back\<close>

lemma le_bytes_Suc: "le_bytes (Suc k) n = char_of (n mod 256) # le_bytes k (n div 256)"
  by (simp add: le_bytes_def)

lemma take_le_bytes: "j \<le> k \<Longrightarrow> take j (le_bytes k n) = le_bytes j n"
proof (induction j arbitrary: k n)
  case (Suc j)
  then obtain k' where "k = Suc k'" by (cases k) auto
  then show ?case using Suc by (simp add: le_bytes_Suc)
qed (simp add: le_bytes_def)

lemma frame_parts:
  assumes "length c \<le> MAX_PAYLOAD" "seq < 256"
  shows "\<not> length (frame seq c @ rest) < 4" "le_value (take 3 (frame seq c @ rest)) = length c"
    "asc ((frame seq c @ rest) ! 3) = seq" "drop 4 (frame seq c @ rest) = c @ rest"
proof -
  have c: "length c < 256 ^ 3" "length c mod 2 ^ 32 = length c" using assms(1) by (simp_all add: MAX_PAYLOAD_def)
  have frame: "frame seq c = le_bytes 3 (length c) @ [char_of seq] @ c" unfolding frame_def c(2) by (simp add: take_le_bytes)
  show "\<not> length (frame seq c @ rest) < 4" "asc ((frame seq c @ rest) ! 3) = seq" "drop 4 (frame seq c @ rest) = c @ rest"
    using assms(2) by (simp_all add: frame nth_append)
  show "le_value (take 3 (frame seq c @ rest)) = length c" using le_value_bytes [OF c(1)] by (simp add: frame)
qed

lemma read_frame:
  assumes "length c \<le> MAX_PAYLOAD" "seq < 256" "expected = None \<or> expected = Some seq"
  shows "read_packets expected acc (frame seq c @ rest) =
    (if length c < MAX_PAYLOAD then Inr ((seq, acc @ c), rest) else read_packets (Some ((seq + 1) mod 256)) (acc @ c) rest)"
  using assms(3) frame_parts(1) [OF assms(1,2), of rest]
  unfolding read_packets.simps [of expected acc "frame seq c @ rest"] Let_def frame_parts(2-4) [OF assms(1,2)] by auto

lemma read_chunks:
  assumes "\<forall>x \<in> set cs. length x = MAX_PAYLOAD" "length c < MAX_PAYLOAD" "seq < 256" "expected = None \<or> expected = Some seq"
  shows "read_packets expected acc (concat (frame_chunks seq (cs @ [c])) @ rest) =
    Inr (((seq + length cs) mod 256, acc @ concat cs @ c), rest)"
  using assms(1,3,4)
proof (induction cs arbitrary: seq expected acc)
  case Nil
  then show ?case using assms(2) by (simp add: read_frame)
next
  case (Cons x cs)
  then have x: "length x = MAX_PAYLOAD" by simp
  have "read_packets (Some ((seq + 1) mod 256)) (acc @ x) (concat (frame_chunks ((seq + 1) mod 256) (cs @ [c])) @ rest) =
      Inr ((((seq + 1) mod 256 + length cs) mod 256, (acc @ x) @ concat cs @ c), rest)"
    using Cons.prems(1) by (intro Cons.IH) auto
  moreover have "((seq + 1) mod 256 + length cs) mod 256 = (seq + length (x # cs)) mod 256" by (simp add: mod_simps)
  ultimately show ?case using read_frame [of x seq expected acc] Cons.prems(2,3) x by simp
qed

definition closed_chunks :: "nat \<Rightarrow> 'a list \<Rightarrow> 'a list list" where
  "closed_chunks n xs = chunks_of n xs @ (if xs = [] \<or> length xs mod n = 0 then [[]] else [])"

lemma closed_chunks_split:
  assumes "0 < n"
  shows "\<exists>cs c. closed_chunks n xs = cs @ [c] \<and> (\<forall>x \<in> set cs. length x = n) \<and> length c < n \<and> concat cs @ c = xs"
proof (induction "length xs" arbitrary: xs rule: less_induct)
  case less
  show ?case
  proof (cases "n \<le> length xs")
    case True
    then have xs: "xs \<noteq> []" using assms by auto
    have "length (drop n xs) < length xs" using assms xs by simp
    from less [OF this] obtain cs c where split: "closed_chunks n (drop n xs) = cs @ [c]" "\<forall>x \<in> set cs. length x = n"
        "length c < n" "concat cs @ c = drop n xs" by blast
    have "length xs mod n = 0 \<longleftrightarrow> drop n xs = [] \<or> length (drop n xs) mod n = 0"
      using True by (auto simp: le_mod_geq)
    then have "closed_chunks n xs = take n xs # closed_chunks n (drop n xs)"
      using xs assms by (simp add: closed_chunks_def chunks_of.simps [of n xs])
    then show ?thesis using split True
      by (intro exI [of _ "take n xs # cs"] exI [of _ c]) (simp add: append_eq_conv_conj)
  next
    case False
    have "closed_chunks n xs = [xs]"
      using False assms by (cases "xs = []") (simp_all add: closed_chunks_def chunks_of.simps)
    then show ?thesis using False by (intro exI [of _ "[]"] exI [of _ xs]) simp
  qed
qed

lemma message_read:
  assumes "seq < 256"
  shows "\<exists>seq'. read_message (concat (frame_all seq payload) @ rest) = Inr ((seq', payload), rest)"
proof -
  obtain cs c where split: "closed_chunks MAX_PAYLOAD payload = cs @ [c]" "\<forall>x \<in> set cs. length x = MAX_PAYLOAD"
      "length c < MAX_PAYLOAD" "concat cs @ c = payload"
    using closed_chunks_split [of MAX_PAYLOAD payload] by (auto simp: MAX_PAYLOAD_def)
  have "frame_all seq payload = frame_chunks seq (cs @ [c])" using split(1) by (simp add: frame_all_def closed_chunks_def)
  then show ?thesis
    using read_chunks [OF split(2,3) assms, of None "[]" rest] split(4) by (simp add: read_message_def)
qed

subsection \<open>An answer reads back\<close>

text \<open>The server's side: a length, a row and the messages of an answer.\<close>

definition put_lenenc :: "nat \<Rightarrow> bytes" where
  "put_lenenc n =
     (if n < 251 then [char_of n]
      else if n < 2 ^ 16 then CHR 0xFC # le_bytes 2 n
      else if n < 2 ^ 24 then CHR 0xFD # le_bytes 3 n
      else CHR 0xFE # le_bytes 8 n)"

definition put_row :: "byte_row \<Rightarrow> bytes" where
  "put_row row = concat (map (\<lambda>c. case c of None \<Rightarrow> [CHR 0xFB] | Some b \<Rightarrow> put_lenenc (length b) @ b) row)"

definition put_messages :: "nat \<Rightarrow> bytes list \<Rightarrow> bytes" where
  "put_messages seq ms = concat (map (\<lambda>m. concat (frame_all seq m)) ms)"

lemma char_of_ne: "(n :: nat) < 256 \<Longrightarrow> asc c \<noteq> n \<Longrightarrow> char_of n \<noteq> c"
  by auto

lemma lenenc_read:
  assumes "n < 2 ^ 64"
  shows "lenenc_at (put_lenenc n @ rest) = Some (n, rest)"
proof (cases "n < 251")
  case True
  have "char_of n \<noteq> CHR 0xFC" "char_of n \<noteq> CHR 0xFD" "char_of n \<noteq> CHR 0xFE" using True by (simp_all add: char_of_ne)
  then show ?thesis using True by (simp add: put_lenenc_def lenenc_at_def)
next
  case False
  then show ?thesis
    using assms le_value_bytes [of n 2] le_value_bytes [of n 3] le_value_bytes [of n 8]
    by (auto simp: put_lenenc_def lenenc_at_def)
qed

lemma put_lenenc_head:
  assumes "n < 2 ^ 64"
  shows "\<exists>b r. put_lenenc n @ rest = b # r \<and> b \<noteq> CHR 0xFB \<and> b \<noteq> CHR 0xFF \<and> (b = CHR 0xFE \<longrightarrow> 2 ^ 24 \<le> n)"
proof (cases "n < 251")
  case True
  have "char_of n \<noteq> CHR 0xFB" "char_of n \<noteq> CHR 0xFF" "char_of n \<noteq> CHR 0xFE" using True by (simp_all add: char_of_ne)
  then show ?thesis using True by (simp add: put_lenenc_def)
next
  case False
  then show ?thesis by (simp add: put_lenenc_def)
qed

definition row_ok :: "byte_row \<Rightarrow> bool" where
  "row_ok row \<longleftrightarrow> (\<forall>c \<in> set row. \<forall>b. c = Some b \<longrightarrow> length b < 2 ^ 64)"

lemma row_read:
  assumes "row_ok row"
  shows "parse_text_row (length row) (put_row row @ rest) = Inr row"
  using assms
proof (induction row)
  case (Cons c row)
  then have IH: "parse_text_row (length row) (put_row row @ rest) = Inr row" by (simp add: row_ok_def)
  show ?case
  proof (cases c)
    case None
    then show ?thesis using IH by (simp add: put_row_def)
  next
    case (Some b)
    let ?more = "b @ put_row row @ rest"
    have len: "length b < 2 ^ 64" using Cons.prems Some by (simp add: row_ok_def)
    obtain h r where head: "put_lenenc (length b) @ ?more = h # r" "h \<noteq> CHR 0xFB" using put_lenenc_head [OF len, of ?more] by blast
    have "put_row (c # row) @ rest = h # r" using head(1) Some by (simp add: put_row_def)
    moreover have "lenenc_at (h # r) = Some (length b, ?more)" using lenenc_read [OF len, of ?more] head(1) by simp
    ultimately show ?thesis using head(2) IH Some by simp
  qed
qed (simp add: put_row_def)

text \<open>A row is told from the message that ends the rows and from an error.\<close>

lemma row_is_row:
  assumes "row_ok row" "row \<noteq> []"
  shows "\<exists>b r. put_row row = b # r \<and> b \<noteq> CHR 0xFF \<and> \<not> (b = CHR 0xFE \<and> length (put_row row) < 9)"
proof -
  obtain c rest where row: "row = c # rest" using assms(2) by (cases row) auto
  show ?thesis
  proof (cases c)
    case None
    then show ?thesis by (simp add: row put_row_def)
  next
    case (Some b)
    have len: "length b < 2 ^ 64" using assms(1) row Some by (simp add: row_ok_def)
    have "put_row row = put_lenenc (length b) @ (b @ put_row rest)" by (simp add: row Some put_row_def)
    moreover obtain h r where "put_lenenc (length b) @ (b @ put_row rest) = h # r" "h \<noteq> CHR 0xFF" "h = CHR 0xFE \<longrightarrow> 2 ^ 24 \<le> length b"
      using put_lenenc_head [OF len, of "b @ put_row rest"] by blast
    moreover have "length b \<le> length (put_row row)" by (simp add: row Some put_row_def)
    ultimately show ?thesis by (intro exI [of _ h] exI [of _ r]) auto
  qed
qed

lemma rows_read:
  assumes "\<forall>row \<in> set rows. row_ok row \<and> length row = n" "0 < n" "seq < 256" "eof = CHR 0xFE # status" "length status < 8"
  shows "read_rows n acc (put_messages seq (map put_row rows @ [eof]) @ rest) = (acc @ rows, None)"
  using assms(1)
proof (induction rows arbitrary: acc)
  case Nil
  obtain s where "read_message (concat (frame_all seq eof) @ rest) = Inr ((s, eof), rest)" using message_read [OF assms(3)] by blast
  then show ?case using assms(4,5) by (simp add: read_rows.simps [of n acc] put_messages_def)
next
  case (Cons row rows)
  let ?more = "put_messages seq (map put_row rows @ [eof]) @ rest"
  have row: "row_ok row" "length row = n" "row \<noteq> []" using Cons.prems assms(2) by auto
  obtain s where m: "read_message (concat (frame_all seq (put_row row)) @ ?more) = Inr ((s, put_row row), ?more)"
    using message_read [OF assms(3)] by blast
  have split: "put_messages seq (map put_row (row # rows) @ [eof]) @ rest = concat (frame_all seq (put_row row)) @ ?more"
    by (simp add: put_messages_def)
  obtain b r where b: "put_row row = b # r" "b \<noteq> CHR 0xFF" "\<not> (b = CHR 0xFE \<and> length (put_row row) < 9)"
    using row_is_row [OF row(1,3)] by blast
  have "parse_text_row n (put_row row) = Inr row" using row_read [OF row(1), of "[]"] row(2) by simp
  then have "read_rows n acc (concat (frame_all seq (put_row row)) @ ?more) = read_rows n (acc @ [row]) ?more"
    unfolding read_rows.simps [of n acc "concat (frame_all seq (put_row row)) @ ?more"] m using b by auto
  then show ?case using Cons unfolding split by simp
qed

lemma messages_skipped:
  assumes "seq < 256"
  shows "skip_messages (length ms) (put_messages seq ms @ rest) = Inr rest"
proof (induction ms)
  case (Cons m ms)
  obtain s where "read_message (concat (frame_all seq m) @ (put_messages seq ms @ rest)) = Inr ((s, m), put_messages seq ms @ rest)"
    using message_read [OF assms] by blast
  then show ?case using Cons by (simp add: put_messages_def)
qed (simp add: put_messages_def)

text \<open>The server reads back the set a GTID dump carries, however many packets it takes.\<close>

lemma gtid_dump_carries_set:
  "\<exists>seq p. read_message (concat (send_binlog_dump_gtid server_id sids) @ rest) = Inr ((seq, p), rest) \<and> hd p = CHR 0x1E \<and> drop 23 p = sids"
proof -
  let ?p = "[CHR 0x1E] @ le_bytes 2 4 @ le_bytes 4 (unat server_id) @ le_bytes 4 0 @ le_bytes 8 4 @ le_bytes 4 (length sids mod 2 ^ 32) @ sids"
  obtain seq where "read_message (concat (send_binlog_dump_gtid server_id sids) @ rest) = Inr ((seq, ?p), rest)"
    using message_read [of 0 ?p rest] unfolding send_binlog_dump_gtid_def write_command_def by auto
  moreover have "hd ?p = CHR 0x1E" "drop 23 ?p = sids" by simp_all
  ultimately show ?thesis by blast
qed



end
