(* ===== verification/My_Login.thy ===== *)
theory My_Login
  imports My_Packet
begin

section \<open>Logging in to MySQL (\<open>crates/source-mysql/src/connection.rs\<close>, \<open>auth.rs\<close>, \<open>packet.rs\<close>)\<close>

text \<open>
  \<open>MySqlConnection::connect\<close> from the greeting to the server's verdict. What the client writes is a list: each
  write with whether the connection was encrypted by then. SHA-1, SHA-256 and the RSA encryption with the server's key are
  parameters, as is whether the TLS handshake succeeds.
\<close>

record crypto =
  cr_sha1 :: "bytes \<Rightarrow> bytes"
  cr_sha256 :: "bytes \<Rightarrow> bytes"
  cr_rsa :: "string \<Rightarrow> bytes \<Rightarrow> (my_error, bytes) result"

subsection \<open>Tokens\<close>

definition xor_byte :: "char \<Rightarrow> char \<Rightarrow> char" where
  "xor_byte a b = char_of (asc a XOR asc b)"

definition xor_bytes :: "bytes \<Rightarrow> bytes \<Rightarrow> bytes" where
  "xor_bytes a b = map2 xor_byte a b"

definition native_password :: "crypto \<Rightarrow> bytes \<Rightarrow> bytes \<Rightarrow> bytes" where
  "native_password cr password nonce =
     (if password = [] then []
      else
        (let stage1 = cr_sha1 cr password; stage2 = cr_sha1 cr stage1; stage3 = cr_sha1 cr (nonce @ stage2)
         in xor_bytes stage1 stage3))"

definition caching_sha2_fast :: "crypto \<Rightarrow> bytes \<Rightarrow> bytes \<Rightarrow> bytes" where
  "caching_sha2_fast cr password nonce =
     (if password = [] then []
      else
        (let stage1 = cr_sha256 cr password; stage2 = cr_sha256 cr stage1; stage3 = cr_sha256 cr (stage2 @ nonce)
         in xor_bytes stage1 stage3))"

definition cleartext_password :: "bytes \<Rightarrow> bytes" where
  "cleartext_password password = password @ [CHR 0x00]"

definition rsa_encrypted_password :: "crypto \<Rightarrow> bytes \<Rightarrow> bytes \<Rightarrow> bytes \<Rightarrow> (my_error, bytes) result" where
  "rsa_encrypted_password cr password nonce public_key_pem =
     (if nonce = [] then Inl (MyAuth ''server sent an empty nonce for RSA authentication'')
      else if \<not> utf8_valid public_key_pem then Inl (MyAuth ''server public key is not valid UTF-8'')
      else cr_rsa cr (trim public_key_pem)
        (map (\<lambda>(i, byte). xor_byte byte (nonce ! (i mod length nonce))) (enumerate 0 (cleartext_password password))))"

definition NATIVE_PASSWORD :: string where "NATIVE_PASSWORD = ''mysql_native_password''"
definition CACHING_SHA2 :: string where "CACHING_SHA2 = ''caching_sha2_password''"

definition auth_token :: "my_world \<Rightarrow> crypto \<Rightarrow> string \<Rightarrow> bytes \<Rightarrow> bytes \<Rightarrow> (my_error, bytes) result" where
  "auth_token w cr plugin password nonce =
     (let nonce = take 20 nonce in
      if plugin = NATIVE_PASSWORD then Inr (native_password cr password nonce)
      else if plugin = CACHING_SHA2 then Inr (caching_sha2_fast cr password nonce)
      else Inl (MyConfig (''unsupported authentication plugin '' @ mw_debug_str w plugin
        @ ''; this client speaks mysql_native_password and caching_sha2_password'')))"

subsection \<open>The messages\<close>

record server_greeting =
  sg_capabilities :: nat
  sg_auth_plugin_data :: bytes
  sg_auth_plugin_name :: string

definition opt_take :: "nat \<Rightarrow> bytes \<Rightarrow> (bytes \<times> bytes) option" where
  "opt_take n s = (if length s < n then None else Some (take n s, drop n s))"

definition cstring :: "bytes \<Rightarrow> (string \<times> bytes) option" where
  "cstring s =
     (if CHR 0x00 \<in> set s then
        (let n = length (takeWhile (\<lambda>b. b \<noteq> CHR 0x00) s) in Some (from_utf8_lossy (take n s), drop (n + 1) s))
      else None)"

definition parse_greeting :: "bytes \<Rightarrow> server_greeting option" where
  "parse_greeting payload =
     Option.bind (opt_take 1 payload) (\<lambda>(version, s).
     if asc (hd version) \<noteq> 10 then None else
     Option.bind (cstring s) (\<lambda>(_, s).
     Option.bind (opt_take 4 s) (\<lambda>(_, s).
     Option.bind (opt_take 8 s) (\<lambda>(part1, s).
     Option.bind (opt_take 1 s) (\<lambda>(filler, s).
     if asc (hd filler) \<noteq> 0 then None else
     Option.bind (opt_take 2 s) (\<lambda>(caps_lower, s).
     Option.bind (opt_take 1 s) (\<lambda>(_, s).
     Option.bind (opt_take 2 s) (\<lambda>(_, s).
     Option.bind (opt_take 2 s) (\<lambda>(caps_upper, s).
     Option.bind (opt_take 1 s) (\<lambda>(data_len, s).
     Option.bind (opt_take 10 s) (\<lambda>(_, s).
     Option.bind (opt_take (min (asc (hd data_len) - 8) 13) s) (\<lambda>(part2, s).
       Some \<lparr>sg_capabilities = le_value caps_lower + le_value caps_upper * 2 ^ 16,
         sg_auth_plugin_data = part1 @ filter (\<lambda>b. b \<noteq> CHR 0x00) part2,
         sg_auth_plugin_name = (case cstring s of Some (name, _) \<Rightarrow> name | None \<Rightarrow> NATIVE_PASSWORD)\<rparr>))))))))))))"

definition CLIENT_SSL :: nat where "CLIENT_SSL = 0x800"
definition CLIENT_PLUGIN_AUTH :: nat where "CLIENT_PLUGIN_AUTH = 0x80000"

definition client_caps :: "bool \<Rightarrow> nat" where
  "client_caps use_tls = 0x1 + 0x4 + 0x200 + 0x2000 + 0x8000 + CLIENT_PLUGIN_AUTH + (if use_tls then CLIENT_SSL else 0)"

definition ssl_request :: "nat \<Rightarrow> bytes" where
  "ssl_request caps = le_bytes 4 caps @ le_bytes 4 0xFFFFFF @ [char_of (45 :: nat)] @ replicate 23 (CHR 0x00)"

definition handshake_response :: "nat \<Rightarrow> string \<Rightarrow> bytes \<Rightarrow> string \<Rightarrow> bytes" where
  "handshake_response caps user token plugin =
     ssl_request caps @ user @ [CHR 0x00] @ [char_of (length token mod 256)] @ token @ plugin @ [CHR 0x00]"

text \<open>The payload holds at least its first byte.\<close>

definition parse_auth_switch :: "bytes \<Rightarrow> string \<times> bytes" where
  "parse_auth_switch payload =
     (let rest = drop 1 payload; name = takeWhile (\<lambda>b. b \<noteq> CHR 0x00) rest
      in (from_utf8_lossy name, takeWhile (\<lambda>b. b \<noteq> CHR 0x00) (drop (length name + 1) rest)))"

subsection \<open>The exchange\<close>

datatype ssl_mode = SslDisable | SslPrefer | SslRequire | SslVerifyCa | SslVerifyFull

definition requires_tls :: "ssl_mode \<Rightarrow> bool" where
  "requires_tls mode \<longleftrightarrow> mode \<noteq> SslDisable \<and> mode \<noteq> SslPrefer"

fun ssl_mode_str :: "ssl_mode \<Rightarrow> string" where
  "ssl_mode_str SslDisable = ''disable''"
| "ssl_mode_str SslPrefer = ''prefer''"
| "ssl_mode_str SslRequire = ''require''"
| "ssl_mode_str SslVerifyCa = ''verify-ca''"
| "ssl_mode_str SslVerifyFull = ''verify-full''"

record login =
  lg_user :: string
  lg_password :: bytes
  lg_mode :: ssl_mode
  lg_client_certificate :: bool

type_synonym write_out = "bool \<times> nat \<times> bytes"

definition auth_error :: "login \<Rightarrow> bytes \<Rightarrow> my_error" where
  "auth_error cfg payload =
     (let code = le_value (take 2 (drop 1 (payload @ [CHR 0x00, CHR 0x00])))
      in if code = 1045 \<and> requires_tls (lg_mode cfg) \<and> \<not> lg_client_certificate cfg
         then MyAuth ''if the account is REQUIRE X509 or REQUIRE SUBJECT, set [source] sslcert and sslkey''
         else MyAuth (''auth failed ('' @ show_nat code @ ''): '' @ error_message payload))"

fun finish_authentication :: "my_world \<Rightarrow> crypto \<Rightarrow> login \<Rightarrow> bool \<Rightarrow> nat \<Rightarrow> bytes \<Rightarrow> (nat \<times> bytes) list \<Rightarrow> write_out list
    \<Rightarrow> (my_error, unit) result \<times> write_out list" where
  "finish_authentication w cr cfg enc 0 nonce ms out = (Inl (MyAuth ''authentication did not complete after 8 exchanges''), out)"
| "finish_authentication w cr cfg enc (Suc n) nonce [] out = (Inl (MyConnect ''connection closed mid-packet'' None), out)"
| "finish_authentication w cr cfg enc (Suc n) nonce ((seq, payload) # ms) out =
     (case payload of
        [] \<Rightarrow> (Inr (), out)
      | b # more_data \<Rightarrow>
          if b = CHR 0x00 then (Inr (), out)
          else if b = CHR 0xFF then (Inl (auth_error cfg payload), out)
          else if b = CHR 0xFE then
            (case parse_auth_switch payload of (plugin, nonce) \<Rightarrow>
               (case auth_token w cr plugin (lg_password cfg) nonce of
                  Inl e \<Rightarrow> (Inl e, out)
                | Inr token \<Rightarrow> finish_authentication w cr cfg enc n nonce ms (out @ [(enc, (seq + 1) mod 256, token)])))
          else if b = CHR 0x01 then
            (if take 1 more_data = [CHR 0x03] then finish_authentication w cr cfg enc n nonce ms out
             else if take 1 more_data = [CHR 0x04] then
               (if enc then finish_authentication w cr cfg enc n nonce ms (out @ [(enc, (seq + 1) mod 256, cleartext_password (lg_password cfg))])
                else
                  (let out = out @ [(enc, (seq + 1) mod 256, [CHR 0x02])] in
                   case ms of
                     [] \<Rightarrow> (Inl (MyConnect ''connection closed mid-packet'' None), out)
                   | (key_seq, key) # ms \<Rightarrow>
                       if take 1 key \<noteq> [CHR 0x01] then (Inl (MyAuth ''server did not return a public key for full authentication''), out)
                       else case rsa_encrypted_password cr (lg_password cfg) nonce (drop 1 key) of
                         Inl e \<Rightarrow> (Inl e, out)
                       | Inr encrypted \<Rightarrow>
                           finish_authentication w cr cfg enc n nonce ms (out @ [(enc, (key_seq + 1) mod 256, encrypted)])))
             else (Inl (MyAuth ''unexpected auth data from the server''), out))
          else (Inl (MyAuth (''unexpected auth reply Some('' @ show_nat (asc b) @ '')'')), out))"

definition has_cap :: "nat \<Rightarrow> nat \<Rightarrow> bool" where
  "has_cap caps c \<longleftrightarrow> odd (caps div c)"

definition use_tls :: "ssl_mode \<Rightarrow> bool \<Rightarrow> (my_error, bool) result" where
  "use_tls mode server_supports_tls =
     (if mode = SslDisable then Inr False
      else if mode = SslPrefer then Inr server_supports_tls
      else if \<not> server_supports_tls
      then Inl (MyConfig (''sslmode='' @ ssl_mode_str mode @ '' was requested but the server does not offer TLS''))
      else Inr True)"

text \<open>\<open>tls_failure\<close> is the error the TLS handshake ends in, if it fails.\<close>

definition my_connect :: "my_world \<Rightarrow> crypto \<Rightarrow> login \<Rightarrow> my_error option \<Rightarrow> bytes \<Rightarrow> (nat \<times> bytes) list
    \<Rightarrow> (my_error, unit) result \<times> write_out list" where
  "my_connect w cr cfg tls_failure greeting_payload ms =
     (case parse_greeting greeting_payload of
        None \<Rightarrow> (Inl (MyProtocol ''cannot parse mysql greeting''), [])
      | Some greeting \<Rightarrow>
          if \<not> has_cap (sg_capabilities greeting) CLIENT_PLUGIN_AUTH then (Inl (MyProtocol ''server lacks CLIENT_PLUGIN_AUTH''), [])
          else case use_tls (lg_mode cfg) (has_cap (sg_capabilities greeting) CLIENT_SSL) of
            Inl e \<Rightarrow> (Inl e, [])
          | Inr tls \<Rightarrow>
              (let caps = client_caps tls; out = (if tls then [(False, 1, ssl_request caps)] else []) in
               if tls \<and> tls_failure \<noteq> None then (Inl (the tls_failure), out)
               else
                 (let nonce = sg_auth_plugin_data greeting;
                      plugin = (if sg_auth_plugin_name greeting = [] then NATIVE_PASSWORD else sg_auth_plugin_name greeting)
                  in case auth_token w cr plugin (lg_password cfg) nonce of
                       Inl e \<Rightarrow> (Inl e, out)
                     | Inr token \<Rightarrow>
                         finish_authentication w cr cfg tls 8 nonce ms
                           (out @ [(tls, if tls then 2 else 1, handshake_response caps (lg_user cfg) token plugin)]))))"

subsection \<open>What may be read off the wire\<close>

text \<open>The password only as a token or under the server's key.\<close>

definition hidden :: "my_world \<Rightarrow> crypto \<Rightarrow> login \<Rightarrow> bytes \<Rightarrow> bool" where
  "hidden w cr cfg p \<longleftrightarrow>
     p = [CHR 0x02] \<or> (\<exists>nonce pem. rsa_encrypted_password cr (lg_password cfg) nonce pem = Inr p) \<or>
     (\<exists>plugin nonce token. auth_token w cr plugin (lg_password cfg) nonce = Inr token \<and>
        (p = token \<or> p = handshake_response (client_caps False) (lg_user cfg) token plugin))"

definition clear_ok :: "my_world \<Rightarrow> crypto \<Rightarrow> login \<Rightarrow> write_out \<Rightarrow> bool" where
  "clear_ok w cr cfg wr =
     (case wr of (enc, _, p) \<Rightarrow> enc \<or> p = ssl_request (client_caps True) \<or> (\<not> requires_tls (lg_mode cfg) \<and> hidden w cr cfg p))"

lemma write_ok:
  assumes "enc \<or> \<not> requires_tls (lg_mode cfg)"
  shows "auth_token w cr plugin (lg_password cfg) nonce = Inr token \<Longrightarrow> clear_ok w cr cfg (enc, seq, token)"
    and "auth_token w cr plugin (lg_password cfg) nonce = Inr token \<Longrightarrow>
      clear_ok w cr cfg (enc, seq, handshake_response (client_caps enc) (lg_user cfg) token plugin)"
    and "rsa_encrypted_password cr (lg_password cfg) nonce pem = Inr encrypted \<Longrightarrow> clear_ok w cr cfg (enc, seq, encrypted)"
    and "clear_ok w cr cfg (enc, seq, [CHR 0x02])"
    and "clear_ok w cr cfg (True, seq, p)" "clear_ok w cr cfg (False, seq, ssl_request (client_caps True))"
proof -
  have hides: "hidden w cr cfg p \<Longrightarrow> clear_ok w cr cfg (enc, seq, p)" for p using assms by (auto simp: clear_ok_def)
  show "auth_token w cr plugin (lg_password cfg) nonce = Inr token \<Longrightarrow> clear_ok w cr cfg (enc, seq, token)"
    by (rule hides) (unfold hidden_def, blast)
  show "auth_token w cr plugin (lg_password cfg) nonce = Inr token \<Longrightarrow>
      clear_ok w cr cfg (enc, seq, handshake_response (client_caps enc) (lg_user cfg) token plugin)"
  proof (cases enc)
    case True
    then show ?thesis by (simp add: clear_ok_def)
  next
    case False
    assume "auth_token w cr plugin (lg_password cfg) nonce = Inr token"
    then have "hidden w cr cfg (handshake_response (client_caps enc) (lg_user cfg) token plugin)"
      using False unfolding hidden_def by (simp only:) blast
    then show ?thesis by (rule hides)
  qed
  show "rsa_encrypted_password cr (lg_password cfg) nonce pem = Inr encrypted \<Longrightarrow> clear_ok w cr cfg (enc, seq, encrypted)"
    by (rule hides) (unfold hidden_def, blast)
  show "clear_ok w cr cfg (enc, seq, [CHR 0x02])" by (rule hides) (simp add: hidden_def)
  show "clear_ok w cr cfg (True, seq, p)" "clear_ok w cr cfg (False, seq, ssl_request (client_caps True))"
    by (simp_all add: clear_ok_def)
qed

lemma request_ok [simp]: "clear_ok w cr cfg (False, seq, ssl_request (client_caps True))"
  by (simp add: clear_ok_def)

lemma exchange_hides:
  assumes "list_all (clear_ok w cr cfg) out" "enc \<or> \<not> requires_tls (lg_mode cfg)"
  shows "list_all (clear_ok w cr cfg) (snd (finish_authentication w cr cfg enc n nonce ms out))"
  using assms
proof (induction w cr cfg enc n nonce ms out rule: finish_authentication.induct)
  case (3 w cr cfg enc n nonce seq payload ms out)
  note ok = write_ok [OF "3.prems"(2)] and sent = "3.prems"(1)
  let ?pw = "lg_password cfg"
  show ?case
  proof (cases payload)
    case Nil
    then show ?thesis using sent by simp
  next
    case (Cons b more_data)
    consider "b = CHR 0xFE" | "b = CHR 0x01" "take 1 more_data = [CHR 0x03]" | "b = CHR 0x01" "take 1 more_data = [CHR 0x04]"
      | "b \<noteq> CHR 0xFE" "b = CHR 0x01 \<longrightarrow> take 1 more_data \<noteq> [CHR 0x03] \<and> take 1 more_data \<noteq> [CHR 0x04]"
      by blast
    then show ?thesis
    proof cases
      case 1
      obtain plugin nonce' where switch: "parse_auth_switch payload = (plugin, nonce')" by (cases "parse_auth_switch payload")
      show ?thesis
      proof (cases "auth_token w cr plugin ?pw nonce'")
        case (Inl e)
        then show ?thesis using sent Cons 1 switch by simp
      next
        case (Inr token)
        have "list_all (clear_ok w cr cfg) (snd (finish_authentication w cr cfg enc n nonce' ms (out @ [(enc, (seq + 1) mod 256, token)])))"
          using "3.prems" ok(1) [OF Inr] Cons 1 switch Inr by (intro "3.IH"(1)) simp_all
        then show ?thesis using Cons 1 switch Inr by simp
      qed
    next
      case 2
      then have "list_all (clear_ok w cr cfg) (snd (finish_authentication w cr cfg enc n nonce ms out))"
        using "3.prems" Cons by (intro "3.IH"(2)) simp_all
      then show ?thesis using Cons 2 by simp
    next
      case 3
      show ?thesis
      proof (cases enc)
        case True
        have "list_all (clear_ok w cr cfg) (snd (finish_authentication w cr cfg enc n nonce ms
            (out @ [(enc, (seq + 1) mod 256, cleartext_password ?pw)])))"
          using "3.prems" Cons 3 True ok(5) by (intro "3.IH"(3)) simp_all
        then show ?thesis using Cons 3 True by simp
      next
        case False
        let ?out = "out @ [(enc, (seq + 1) mod 256, [CHR 0x02])]"
        have asked: "list_all (clear_ok w cr cfg) ?out" using sent ok(4) by simp
        show ?thesis
        proof (cases "\<exists>key_seq key ms' encrypted. ms = (key_seq, key) # ms' \<and> take 1 key = [CHR 0x01] \<and>
            rsa_encrypted_password cr ?pw nonce (drop 1 key) = Inr encrypted")
          case True
          then obtain key_seq key ms' encrypted where ms: "ms = (key_seq, key) # ms'" "take 1 key = [CHR 0x01]"
              "rsa_encrypted_password cr ?pw nonce (drop 1 key) = Inr encrypted" by blast
          have "list_all (clear_ok w cr cfg) (snd (finish_authentication w cr cfg enc n nonce ms' (?out @ [(enc, (key_seq + 1) mod 256, encrypted)])))"
            using "3.prems"(2) Cons 3 False ms asked ok(3) [OF ms(3)] by (intro "3.IH"(4)) simp_all
          then show ?thesis using Cons 3 False ms by simp
        next
          case none: False
          then show ?thesis using Cons 3 False asked by (auto simp: Let_def split: list.split sum.split)
        qed
      qed
    next
      case 4
      then show ?thesis using Cons sent by simp
    qed
  qed
qed simp_all


subsection \<open>The server recognises the token\<close>

lemma xor_byte_twice: "xor_byte (xor_byte x y) y = x"
proof -
  have small: "take_bit 8 (asc c) = asc c" for c :: char using asc_less_256 [of c] by (simp add: take_bit_nat_eq_self)
  have "asc (xor_byte x y) = take_bit 8 (asc x XOR asc y)" by (simp add: xor_byte_def take_bit_eq_mod)
  also have "\<dots> = asc x XOR asc y" by (simp add: small)
  finally show ?thesis by (simp add: xor_byte_def xor.assoc)
qed

lemma xor_bytes_twice: "length a \<le> length b \<Longrightarrow> xor_bytes (xor_bytes a b) b = a"
  by (induction a b rule: list_induct2') (simp_all add: xor_bytes_def xor_byte_twice)

text \<open>The server holds the hash of the hash: from the token and the nonce it recovers what must hash to that.\<close>

lemma native_password_verifies:
  assumes "\<And>x. length (cr_sha1 cr x) = 20" "password \<noteq> []"
  shows "cr_sha1 cr (xor_bytes (native_password cr password nonce) (cr_sha1 cr (nonce @ cr_sha1 cr (cr_sha1 cr password)))) =
    cr_sha1 cr (cr_sha1 cr password)"
  using assms by (simp add: native_password_def xor_bytes_twice Let_def)

lemma caching_sha2_verifies:
  assumes "\<And>x. length (cr_sha256 cr x) = 32" "password \<noteq> []"
  shows "cr_sha256 cr (xor_bytes (caching_sha2_fast cr password nonce) (cr_sha256 cr (cr_sha256 cr (cr_sha256 cr password) @ nonce))) =
    cr_sha256 cr (cr_sha256 cr password)"
  using assms by (simp add: caching_sha2_fast_def xor_bytes_twice Let_def)

end
