(* ===== verification/My_Start.thy ===== *)
theory My_Start
  imports My_Login My_Stream
begin

section \<open>Asking for the binlog (\<open>crates/source-mysql/src/runner.rs\<close>)\<close>

text \<open>
  What \<open>MySqlSource::bootstrap\<close> checks, and what \<open>MySqlSource::stream\<close> does between a connection that is open and the first
  packet of the binlog: where to start, how the server is asked for it, and what is written. The two connections are a
  client for queries and the bytes the server answers to the statements that prepare the stream.
\<close>

record start_config =
  sc_server_id :: "32 word"
  sc_start_file :: "string option"
  sc_start_pos :: nat
  sc_gtid :: "gtid_tracker option"
  sc_gtid_resume :: "gtid_position option"

fun bootstrap_tables :: "my_world \<Rightarrow> my_client \<Rightarrow> table_set \<Rightarrow> table list \<Rightarrow> (my_error, unit) result" where
  "bootstrap_tables w client ts [] = Inr ()"
| "bootstrap_tables w client ts (tab # tabs) =
     bindr (table_schema w client (fst tab) (snd tab) (tab \<in> ts_append_only ts)) (\<lambda>_. bootstrap_tables w client ts tabs)"

definition my_bootstrap :: "my_world \<Rightarrow> my_client \<Rightarrow> table_set \<Rightarrow> (my_error, unit) result" where
  "my_bootstrap w client ts = bindr (check_prerequisites w client) (\<lambda>_. bootstrap_tables w client ts (ts_tables ts))"

definition start_position :: "start_config \<Rightarrow> my_client \<Rightarrow> (my_error, string \<times> nat) result" where
  "start_position cfg client =
     (case sc_start_file cfg of
        Some f \<Rightarrow> if 0 < sc_start_pos cfg then Inr (f, sc_start_pos cfg) else master_position client
      | None \<Rightarrow> master_position client)"

definition maria_resume :: "start_config \<Rightarrow> string option" where
  "maria_resume cfg = (case sc_gtid_resume cfg of Some (MariaDb pos) \<Rightarrow> Some (maria_to_text pos) | _ \<Rightarrow> None)"

definition by_gtid :: "start_config \<Rightarrow> bool \<Rightarrow> bytes option" where
  "by_gtid cfg mariadb =
     (case sc_gtid_resume cfg of
        Some (MySql s) \<Rightarrow> if \<not> mariadb \<and> sc_gtid cfg \<noteq> None then mysql_encode s else None
      | _ \<Rightarrow> None)"

text \<open>One hundred milliseconds between heartbeats.\<close>

definition HEARTBEAT_NANOS :: nat where "HEARTBEAT_NANOS = 100000000"

definition then_write :: "(my_error, 'a) result \<times> bytes list \<Rightarrow> ('a \<Rightarrow> (my_error, 'b) result \<times> bytes list) \<Rightarrow> (my_error, 'b) result \<times> bytes list" where
  "then_write r f = (case r of (Inl e, out) \<Rightarrow> (Inl e, out) | (Inr a, out) \<Rightarrow> (case f a of (r, out') \<Rightarrow> (r, out @ out')))"

text \<open>The position the stream counts from, the bytes left of the server, and what was written.\<close>

definition start_stream :: "my_world \<Rightarrow> start_config \<Rightarrow> my_client \<Rightarrow> bytes \<Rightarrow> (my_error, (string \<times> nat) \<times> bytes) result \<times> bytes list" where
  "start_stream w cfg client s =
     then_write (negotiate_checksum s) (\<lambda>s.
     then_write (set_heartbeat_period HEARTBEAT_NANOS s) (\<lambda>s.
     then_write (start_position cfg client, []) (\<lambda>(file_name, pos).
     let mariadb = gs_mariadb (gtid_support w client) in
     then_write (if mariadb \<and> sc_gtid cfg \<noteq> None then set_maria_gtid_state (maria_resume cfg) s else (Inr s, [])) (\<lambda>s.
       (Inr ((file_name, pos), s),
        case by_gtid cfg mariadb of
          Some sids \<Rightarrow> send_binlog_dump_gtid (sc_server_id cfg) sids
        | None \<Rightarrow> send_binlog_dump (sc_server_id cfg) file_name pos)))))"

subsection \<open>What the server is asked for\<close>

lemma then_write_Inr:
  "fst (then_write r f) = Inr b \<longleftrightarrow> (\<exists>a. fst r = Inr a \<and> fst (f a) = Inr b)"
  by (auto simp: then_write_def split: prod.split sum.split)

lemma then_write_out: "fst r = Inr a \<Longrightarrow> snd (then_write r f) = snd r @ snd (f a)"
  by (cases r) (auto simp: then_write_def split: prod.split)

text \<open>What the last command of a start is, if the start goes well.\<close>

lemma start_stream_command:
  assumes "fst (start_stream w cfg client s) = Inr ((file_name, pos), s')"
  shows "\<exists>out. snd (start_stream w cfg client s) = out @ (case by_gtid cfg (gs_mariadb (gtid_support w client)) of
      Some sids \<Rightarrow> send_binlog_dump_gtid (sc_server_id cfg) sids
    | None \<Rightarrow> send_binlog_dump (sc_server_id cfg) file_name pos)"
    and "start_position cfg client = Inr (file_name, pos)"
proof -
  let ?maria = "gs_mariadb (gtid_support w client)"
  let ?state = "\<lambda>s. if ?maria \<and> sc_gtid cfg \<noteq> None then set_maria_gtid_state (maria_resume cfg) s else (Inr s, [])"
  obtain s1 s2 where s1: "fst (negotiate_checksum s) = Inr s1" and s2: "fst (set_heartbeat_period HEARTBEAT_NANOS s1) = Inr s2"
    and start: "start_position cfg client = Inr (file_name, pos)" and s3: "fst (?state s2) = Inr s'"
    using assms by (auto simp: start_stream_def then_write_Inr Let_def)
  show "start_position cfg client = Inr (file_name, pos)" by (rule start)
  show "\<exists>out. snd (start_stream w cfg client s) = out @ (case by_gtid cfg ?maria of
      Some sids \<Rightarrow> send_binlog_dump_gtid (sc_server_id cfg) sids | None \<Rightarrow> send_binlog_dump (sc_server_id cfg) file_name pos)"
    unfolding start_stream_def Let_def
    by (simp only: then_write_out [OF s1] then_write_out [OF s2] then_write_out [of "(start_position cfg client, [])", unfolded fst_conv, OF start]
        prod.case then_write_out [OF s3] snd_conv append_assoc [symmetric] append_Nil) blast
qed

text \<open>C29. A stream resumed by transactions on MySQL asks for exactly them: the command the server reads from
  what is written last carries a set that decodes, source by source, to the intervals of the position resumed from.\<close>

theorem resumed_set_reaches_server:
  assumes "fst (start_stream w cfg client s) = Inr (start, s')"
    and "sc_gtid cfg \<noteq> None" "sc_gtid_resume cfg = Some (MySql position)" "\<not> gs_mariadb (gtid_support w client)"
    and "gtid_set_ok position" "mysql_encode position \<noteq> None" "length position < 2 ^ 64" "\<forall>e \<in> set position. length (snd e) < 2 ^ 64"
  shows "\<exists>before commands seq p. snd (start_stream w cfg client s) = before @ commands \<and>
    read_message (concat commands @ rest) = Inr ((seq, p), rest) \<and> hd p = CHR 0x1E \<and>
    decode_set (drop 23 p) = Some (map (\<lambda>(u, xs). (the (parse_uuid u), half_open xs)) position)"
proof -
  obtain sids where sids: "mysql_encode position = Some sids" using assms(6) by blast
  obtain file_name pos where "start = (file_name, pos)" by (cases start)
  then obtain out where "snd (start_stream w cfg client s) = out @ send_binlog_dump_gtid (sc_server_id cfg) sids"
    using start_stream_command(1) [of w cfg client s file_name pos s'] assms(1-4) sids by (auto simp: by_gtid_def)
  moreover obtain seq p where "read_message (concat (send_binlog_dump_gtid (sc_server_id cfg) sids) @ rest) = Inr ((seq, p), rest)"
      "hd p = CHR 0x1E" "drop 23 p = sids"
    using gtid_dump_carries_set by blast
  ultimately show ?thesis using mysql_encode_decodes [OF assms(5) sids assms(7,8)] by metis
qed

definition sample_start :: "gtid_tracker \<Rightarrow> start_config" where
  "sample_start tracker = \<lparr>sc_server_id = 7, sc_start_file = Some ''binlog.000001'', sc_start_pos = 4, sc_gtid = Some tracker,
     sc_gtid_resume = Some (MySql [(''3E11FA47-71CA-11E1-9E33-C80AA9429562'', [(1, 5)])])\<rparr>"

definition silent_client :: my_client where
  "silent_client = \<lparr>mc_text_rows = (\<lambda>_. Inr []), mc_query = (\<lambda>_. Inr ([], None))\<rparr>"

definition two_answers :: bytes where
  "two_answers = concat (frame_all 1 [CHR 0x00]) @ concat (frame_all 1 [CHR 0x00])"

theorem resumed_set_reaches_server_witness:
  "\<forall>w tracker. \<exists>before commands seq p.
     snd (start_stream (w\<lparr>mw_lower := \<lambda>s. s\<rparr>) (sample_start tracker) silent_client two_answers) = before @ commands \<and>
     read_message (concat commands) = Inr ((seq, p), []) \<and> map_option (map snd) (decode_set (drop 23 p)) = Some [[(1, 6)]]"
proof (intro allI)
  fix w :: my_world and tracker
  let ?w = "w\<lparr>mw_lower := \<lambda>s. s\<rparr>" and ?u = "''3E11FA47-71CA-11E1-9E33-C80AA9429562''"
  have maria: "\<not> gs_mariadb (gtid_support ?w silent_client)"
  proof -
    have "first_text silent_client ''SELECT VERSION()'' = None"
      by (simp add: first_text_def query_text_row_def silent_client_def bindr_def first_cell_def)
    moreover have "\<not> contains_str [] ''mariadb''" by code_simp
    ultimately show ?thesis by (simp add: gtid_support_def)
  qed
  obtain seq1 where one: "read_message two_answers = Inr ((seq1, [CHR 0x00]), concat (frame_all 1 [CHR 0x00]))"
    using message_read [of 1 "[CHR 0x00]" "concat (frame_all 1 [CHR 0x00])"] by (auto simp: two_answers_def)
  obtain seq2 where two: "read_message (concat (frame_all 1 [CHR 0x00])) = Inr ((seq2, [CHR 0x00]), [])"
    using message_read [of 1 "[CHR 0x00]" "[]"] by auto
  have "parse_uuid ?u \<noteq> None" by code_simp
  then have encoded: "mysql_encode [(?u, [(1, 5)])] \<noteq> None" by (auto simp: mysql_encode_def)
  have ok: "gtid_set_ok [(?u, [(1, 5)])]" by (simp add: gtid_set_ok_def bt_wf_def interval_ok_def uuid_ok_def ascii_defs)
  have "fst (start_stream ?w (sample_start tracker) silent_client two_answers) = Inr ((''binlog.000001'', 4), [])"
    using maria by (simp add: start_stream_def then_write_Inr negotiate_checksum_def set_heartbeat_period_def one two Let_def
        start_position_def sample_start_def del: One_nat_def)
  moreover have "sc_gtid (sample_start tracker) \<noteq> None" "sc_gtid_resume (sample_start tracker) = Some (MySql [(?u, [(1, 5)])])"
    by (simp_all add: sample_start_def)
  moreover have "length [(?u, [(1 :: nat, 5 :: nat)])] < 2 ^ 64" "\<forall>e \<in> set [(?u, [(1 :: nat, 5 :: nat)])]. length (snd e) < 2 ^ 64" by simp_all
  ultimately obtain before commands seq p where
    "snd (start_stream ?w (sample_start tracker) silent_client two_answers) = before @ commands"
    "read_message (concat commands @ []) = Inr ((seq, p), [])"
    "decode_set (drop 23 p) = Some (map (\<lambda>(u, xs). (the (parse_uuid u), half_open xs)) [(?u, [(1, 5)])])"
    using resumed_set_reaches_server [OF _ _ _ maria ok encoded, of "sample_start tracker" two_answers "(''binlog.000001'', 4)" "[]" "[]"]
    by blast
  then show "\<exists>before commands seq p. snd (start_stream ?w (sample_start tracker) silent_client two_answers) = before @ commands \<and>
     read_message (concat commands) = Inr ((seq, p), []) \<and> map_option (map snd) (decode_set (drop 23 p)) = Some [[(1, 6)]]"
    by (intro exI [of _ before] exI [of _ commands] exI [of _ seq] exI [of _ p]) (simp add: half_open_def)
qed

end
