(* ===== verification/Load_Trace.thy ===== *)
theory Load_Trace
  imports Load_State Sink_Types
begin

section \<open>What an initial load does, as a trace\<close>

text \<open>
  The two loaders, of MySQL and of PostgreSQL, send rows, ask for a mark, wait until the engine reports it as written, and store
  how far they are. Their steps share this state: the trace of what was done, the room left in the channel, the rows counted and
  the sequence of marks. A trace is right if progress was stored or removed only with every row sent until then confirmed.
\<close>

datatype load_effect =
    Sent change_event
  | Waited u64
  | Stored string json
  | Cleared string

record loading =
  ld_trace :: "load_effect list"
  ld_room :: nat
  ld_count :: nat
  ld_marks :: mark_sequence

type_synonym ('e, 'a) load_step = "('e, 'a) result \<times> loading"

definition ld_bind :: "('e, 'a) load_step \<Rightarrow> ('a \<Rightarrow> loading \<Rightarrow> ('e, 'b) load_step) \<Rightarrow> ('e, 'b) load_step" where
  "ld_bind r f = (case r of (Inl e, st) \<Rightarrow> (Inl e, st) | (Inr a, st) \<Rightarrow> f a st)"

definition record_effect :: "load_effect \<Rightarrow> loading \<Rightarrow> loading" where
  "record_effect ef st = st\<lparr>ld_trace := ld_trace st @ [ef]\<rparr>"

text \<open>A send on a closed channel is the error \<open>e\<close>.\<close>

definition send_or :: "'e \<Rightarrow> change_event \<Rightarrow> loading \<Rightarrow> ('e, unit) load_step" where
  "send_or e ev st =
     (if ld_room st = 0 then (Inl e, st) else (Inr (), (record_effect (Sent ev) st)\<lparr>ld_room := ld_room st - 1\<rparr>))"

definition clear_progress :: "string list \<Rightarrow> loading \<Rightarrow> loading" where
  "clear_progress keys st = st\<lparr>ld_trace := ld_trace st @ map Cleared keys\<rparr>"

definition loading_start :: "nat \<Rightarrow> mark_sequence \<Rightarrow> loading" where
  "loading_start room marks = \<lparr>ld_trace = [], ld_room = room, ld_count = 0, ld_marks = marks\<rparr>"

subsection \<open>Progress after rows\<close>

text \<open>Reading a trace: whether rows sent are unconfirmed, and the mark that would confirm them. \<open>None\<close> is progress
  stored or removed over unconfirmed rows.\<close>

fun load_scan :: "bool \<times> u64 option \<Rightarrow> load_effect list \<Rightarrow> (bool \<times> u64 option) option" where
  "load_scan s [] = Some s"
| "load_scan (open_rows, m) (ef # efs) =
     (case ef of
        Sent ev \<Rightarrow> load_scan (case ev of Row _ \<Rightarrow> (True, None) | LoadMark k \<Rightarrow> (open_rows, Some k) | _ \<Rightarrow> (open_rows, m)) efs
      | Waited k \<Rightarrow> load_scan (if m = Some k then (False, None) else (open_rows, m)) efs
      | Stored _ _ \<Rightarrow> if open_rows then None else load_scan (open_rows, m) efs
      | Cleared _ \<Rightarrow> if open_rows then None else load_scan (open_rows, m) efs)"

lemma load_scan_append: "load_scan s (xs @ ys) = Option.bind (load_scan s xs) (\<lambda>s. load_scan s ys)"
  by (induction s xs rule: load_scan.induct) (auto split: load_effect.splits)

definition scanned :: "loading \<Rightarrow> (bool \<times> u64 option) option" where
  "scanned st = load_scan (False, None) (ld_trace st)"

definition settled :: "loading \<Rightarrow> bool" where
  "settled st \<longleftrightarrow> (\<exists>m. scanned st = Some (False, m))"

definition unbroken :: "loading \<Rightarrow> bool" where
  "unbroken st \<longleftrightarrow> scanned st \<noteq> None"

text \<open>A step that goes well ends as told, one that fails has at least not gone wrong.\<close>

definition ends_in :: "('a \<Rightarrow> loading \<Rightarrow> bool) \<Rightarrow> ('e, 'a) load_step \<Rightarrow> bool" where
  "ends_in P r = (case r of (Inl e, st) \<Rightarrow> unbroken st | (Inr a, st) \<Rightarrow> P a st)"

lemma ends_bind:
  assumes "ends_in P r" "\<And>a st. P a st \<Longrightarrow> ends_in Q (f a st)"
  shows "ends_in Q (ld_bind r f)"
proof -
  obtain x st where r: "r = (x, st)" by (cases r)
  show ?thesis using assms by (cases x) (simp_all add: r ends_in_def ld_bind_def)
qed

lemma ends_in_simps [simp]: "ends_in P (Inl e, st) = unbroken st" "ends_in P (Inr a, st) = P a st"
  by (simp_all add: ends_in_def)

lemma ends_pure: "(\<And>a. r = Inr a \<Longrightarrow> P a st) \<Longrightarrow> unbroken st \<Longrightarrow> ends_in P (r, st)"
  by (auto simp: ends_in_def split: sum.split)

lemma scanned_simps [simp]:
  "scanned (st\<lparr>ld_room := n\<rparr>) = scanned st" "scanned (st\<lparr>ld_count := n\<rparr>) = scanned st" "scanned (st\<lparr>ld_marks := m\<rparr>) = scanned st"
  "unbroken (st\<lparr>ld_room := n\<rparr>) = unbroken st" "unbroken (st\<lparr>ld_count := n\<rparr>) = unbroken st" "unbroken (st\<lparr>ld_marks := m\<rparr>) = unbroken st"
  by (simp_all add: scanned_def unbroken_def)

lemma settled_unbroken: "settled st \<Longrightarrow> unbroken st"
  by (auto simp: settled_def unbroken_def)

lemma scanned_effect: "scanned (record_effect ef st) = Option.bind (scanned st) (\<lambda>s. load_scan s [ef])"
  by (simp add: scanned_def record_effect_def load_scan_append)

lemma scanned_sent: "unbroken st \<Longrightarrow> unbroken (record_effect (Sent ev) st)"
  by (auto simp: unbroken_def scanned_effect split: change_event.split)

lemma send_or_keeps: "unbroken st \<Longrightarrow> ends_in (\<lambda>_ st. unbroken st) (send_or e ev st)"
  using scanned_sent [of st ev] by (simp add: send_or_def)

lemma cleared_unbroken: "settled st \<Longrightarrow> unbroken (clear_progress keys st)"
proof -
  have "load_scan (False, m) (map Cleared keys) = Some (False, m)" for m by (induction keys) simp_all
  then show "settled st \<Longrightarrow> ?thesis"
    by (auto simp: settled_def unbroken_def scanned_def clear_progress_def load_scan_append)
qed

definition sent_rows :: "loading \<Rightarrow> row_change list" where
  "sent_rows st = List.map_filter (\<lambda>ef. case ef of Sent (Row r) \<Rightarrow> Some r | _ \<Rightarrow> None) (ld_trace st)"

definition sent_docs :: "loading \<Rightarrow> (json \<times> json) list" where
  "sent_docs st = List.map_filter (\<lambda>r. case rc_kind r of Insert pk doc \<Rightarrow> Some (doc, pk) | _ \<Rightarrow> None) (sent_rows st)"

lemma sent_docs_effect:
  "sent_docs (record_effect ef st) = sent_docs st @ (case ef of Sent (Row r) \<Rightarrow> (case rc_kind r of Insert pk doc \<Rightarrow> [(doc, pk)] | _ \<Rightarrow> []) | _ \<Rightarrow> [])"
  by (auto simp: sent_docs_def sent_rows_def record_effect_def List.map_filter_def split: load_effect.split change_event.split row_kind.split)

lemma sent_docs_simps [simp]:
  "sent_docs (st\<lparr>ld_room := n\<rparr>) = sent_docs st" "sent_docs (st\<lparr>ld_count := n\<rparr>) = sent_docs st" "sent_docs (st\<lparr>ld_marks := m\<rparr>) = sent_docs st"
  by (simp_all add: sent_docs_def sent_rows_def)

end
