(* ===== verification/My_Load.thy ===== *)
theory My_Load
  imports My_Children My_Events Load_Trace
begin

section \<open>The initial load of MySQL (\<open>crates/source-mysql/src/load.rs\<close>)\<close>

text \<open>
  A table is read in chunks along its key: each chunk is a query, its rows are sent with the position
  read before it as their version, a mark follows them, and only when the engine reports the mark as written is the progress
  stored. Every chunk meets the server, the store and the engine as they are then, which is the environment of
  that chunk; a load whose environments run out is still waiting. What the load does is the trace.
\<close>

subsection \<open>Statements\<close>

definition cursor_safe :: "value_shape \<Rightarrow> bool" where
  "cursor_safe shape =
     (case shape of ShapeInt \<Rightarrow> True | ShapeDecimal \<Rightarrow> True | ShapeBits \<Rightarrow> True | ShapeText \<Rightarrow> True | ShapeBytes \<Rightarrow> True
      | ShapeEnum _ \<Rightarrow> True | _ \<Rightarrow> False)"

definition is_numeric_text :: "string \<Rightarrow> bool" where
  "is_numeric_text txt =
     (let digits = unwrap_or txt (strip_prefix ''-'' txt);
          (whole, frac) = (case split_once (CHR ''.'') digits of Some p \<Rightarrow> p | None \<Rightarrow> (digits, ''0''))
      in whole \<noteq> [] \<and> frac \<noteq> [] \<and> list_all is_ascii_digit whole \<and> list_all is_ascii_digit frac)"

definition cursor_literal :: "value_shape \<Rightarrow> bytes \<Rightarrow> string" where
  "cursor_literal shape raw =
     (if shape = ShapeBytes then ''x'' @ [SQUOTE] @ concat (map hex2 raw) @ [SQUOTE]
      else
        (let txt = from_utf8_lossy raw in
         if shape \<in> {ShapeInt, ShapeDecimal, ShapeBits} \<and> is_numeric_text txt then txt else my_quote_str txt))"

definition index_of_name :: "string \<Rightarrow> my_column list \<Rightarrow> nat option" where
  "index_of_name name cols =
     (if name \<in> set (map mcol_name cols) then Some (length (takeWhile (\<lambda>c. mcol_name c \<noteq> name) cols)) else None)"

definition key_literal :: "my_schema \<Rightarrow> byte_row \<Rightarrow> string \<Rightarrow> string option" where
  "key_literal resolved row name =
     Option.bind (index_of_name name (msc_columns resolved)) (\<lambda>idx.
     Option.bind (row_cell row idx) (\<lambda>raw. Some (cursor_literal (mcol_shape (msc_columns resolved ! idx)) raw)))"

definition key_literals :: "my_schema \<Rightarrow> byte_row \<Rightarrow> string list option" where
  "key_literals resolved row = those (map (key_literal resolved row) (msc_pk_columns resolved))"

definition after_term :: "string list \<Rightarrow> string list \<Rightarrow> nat \<Rightarrow> string" where
  "after_term key vals i =
     ''('' @ join '' AND '' (map (\<lambda>j. key ! j @ '' = '' @ vals ! j) [0..<i] @ [key ! i @ '' > '' @ vals ! i]) @ '')''"

definition after_predicate :: "string list \<Rightarrow> string list \<Rightarrow> string" where
  "after_predicate key vals = join '' OR '' (map (after_term key vals) [0..<length key])"

definition my_dialect :: sql_dialect where
  "my_dialect = \<lparr>quote_ident = my_quote_ident, quote_str = my_quote_str\<rparr>"

definition chunk_statement :: "my_world \<Rightarrow> table \<Rightarrow> my_schema \<Rightarrow> string list option \<Rightarrow> nat option \<Rightarrow> string option \<Rightarrow> row_filter option \<Rightarrow> string" where
  "chunk_statement w tab resolved cursor limit filt tfilter =
     (let columns = join '', '' (map (\<lambda>c. my_quote_ident (mcol_name c)) (msc_columns resolved));
          key = map my_quote_ident (msc_pk_columns resolved);
          conditions =
            (case cursor of Some vals \<Rightarrow> if length vals = length key then [''('' @ after_predicate key vals @ '')''] else [] | None \<Rightarrow> [])
            @ (case tfilter of Some f \<Rightarrow> [''('' @ to_sql (mw_fshow w) my_dialect f @ '')''] | None \<Rightarrow> [])
            @ (case filt of Some p \<Rightarrow> [''('' @ p @ '')''] | None \<Rightarrow> [])
      in ''SELECT '' @ columns @ '' FROM '' @ my_quote_ident (fst tab) @ ''.'' @ my_quote_ident (snd tab)
         @ (if conditions = [] then [] else '' WHERE '' @ join '' AND '' conditions)
         @ (case limit of Some n \<Rightarrow> '' ORDER BY '' @ join '', '' key @ '' LIMIT '' @ show_nat n | None \<Rightarrow> []))"

subsection \<open>One chunk\<close>

record load_env =
  le_client :: my_client
  le_written :: bool
  le_read :: "string \<Rightarrow> (core_error, json option) result"
  le_store :: "string \<Rightarrow> json \<Rightarrow> (core_error, unit) result"

record load_table =
  lt_table :: table
  lt_resolved :: my_schema
  lt_children :: "child_spec list"
  lt_aggregates :: "aggregate_spec list"
  lt_chunked :: bool
  lt_limit :: nat
  lt_filter :: "string option"
  lt_table_filter :: "row_filter option"
  lt_version_base :: u64
  lt_progress :: "string option"

definition ROWS_PER_BOUNDARY :: nat where "ROWS_PER_BOUNDARY = 5000"

definition load_send :: "change_event \<Rightarrow> loading \<Rightarrow> (my_error, unit) load_step" where
  "load_send = send_or (MyLoadInterrupted ''engine closed during the initial load'')"

definition send_boundary :: "loading \<Rightarrow> (my_error, unit) load_step" where
  "send_boundary st = load_send (Transaction (Commit (Lsn 0) 0)) st"

definition loaded_change :: "my_world \<Rightarrow> load_table \<Rightarrow> u64 \<Rightarrow> byte_row \<Rightarrow> row_change" where
  "loaded_change w lt version row =
     (case build_document w (lt_resolved lt) row of
        (doc, pk) \<Rightarrow> \<lparr>rc_schema = fst (lt_table lt), rc_table = snd (lt_table lt), rc_kind = Insert pk doc, rc_version = Some version\<rparr>)"

fun stream_rows :: "my_world \<Rightarrow> load_table \<Rightarrow> u64 \<Rightarrow> byte_row list \<Rightarrow> loading \<Rightarrow> (my_error, unit) load_step" where
  "stream_rows w lt version [] st = (Inr (), st)"
| "stream_rows w lt version (row # rows) st =
     (let st = st\<lparr>ld_count := ld_count st + 1\<rparr> in
      ld_bind (load_send (Row (loaded_change w lt version row)) st) (\<lambda>_ st.
      ld_bind (if ld_count st mod ROWS_PER_BOUNDARY = 0 then send_boundary st else (Inr (), st)) (\<lambda>_ st.
        stream_rows w lt version rows st)))"

fun send_held :: "nat \<Rightarrow> row_change list \<Rightarrow> loading \<Rightarrow> (my_error, unit) load_step" where
  "send_held nth_row [] st = (Inr (), st)"
| "send_held nth_row (change # changes) st =
     ld_bind (load_send (Row change) st) (\<lambda>_ st.
     ld_bind (if (nth_row + 1) mod ROWS_PER_BOUNDARY = 0 then send_boundary st else (Inr (), st)) (\<lambda>_ st.
       send_held (nth_row + 1) changes st))"

definition attach_to_chunk :: "my_world \<Rightarrow> my_client \<Rightarrow> child_spec list \<Rightarrow> row_change list \<Rightarrow> (my_error, row_change list) result" where
  "attach_to_chunk w client specs held = (if held = [] then Inr [] else my_attach_children w client specs held)"

definition held_back :: "load_table \<Rightarrow> bool" where
  "held_back lt \<longleftrightarrow> lt_children lt \<noteq> [] \<or> lt_aggregates lt \<noteq> []"

definition send_chunk :: "my_world \<Rightarrow> load_env \<Rightarrow> load_table \<Rightarrow> u64 \<Rightarrow> byte_row list \<Rightarrow> my_error option \<Rightarrow> loading \<Rightarrow> (my_error, unit) load_step" where
  "send_chunk w env lt version rows failure st =
     (if held_back lt then
        (let st = st\<lparr>ld_count := ld_count st + length rows\<rparr>; held = map (loaded_change w lt version) rows in
         case failure of
           Some e \<Rightarrow> (Inl e, st)
         | None \<Rightarrow>
             ld_bind (attach_to_chunk w (le_client env) (lt_children lt) held, st) (\<lambda>held st.
             ld_bind (attach_aggregates w (le_client env) (lt_aggregates lt) held, st) (\<lambda>held st. send_held 0 held st)))
      else
        ld_bind (stream_rows w lt version rows st) (\<lambda>_ st. case failure of Some e \<Rightarrow> (Inl e, st) | None \<Rightarrow> (Inr (), st)))"

definition store_progress :: "load_env \<Rightarrow> load_table \<Rightarrow> string list option \<Rightarrow> bool \<Rightarrow> loading \<Rightarrow> (my_error, unit) load_step" where
  "store_progress env lt cursor finished st =
     (case lt_progress lt of
        None \<Rightarrow> (Inr (), st)
      | Some key \<Rightarrow>
          (let doc = to_doc \<lparr>lp_cursor = After (unwrap_or [] cursor), lp_finished = finished\<rparr> in
           case le_store env key doc of
             Inl e \<Rightarrow> (Inl (MyCore e), st)
           | Inr _ \<Rightarrow> (Inr (), record_effect (Stored key doc) st)))"

text \<open>After the rows: the boundary, the mark, the wait for it, and then the progress.\<close>

definition close_chunk :: "load_env \<Rightarrow> load_table \<Rightarrow> byte_row list \<Rightarrow> loading \<Rightarrow> (my_error, string list option \<times> bool) load_step" where
  "close_chunk env lt rows st =
     ld_bind (send_boundary st) (\<lambda>_ st.
     (case mark_next (ld_marks st) of
        (mark, marks) \<Rightarrow>
          ld_bind (load_send (LoadMark mark) (st\<lparr>ld_marks := marks\<rparr>)) (\<lambda>_ st.
          if \<not> le_written env then (Inl (MyLoadInterrupted ''engine stopped before the chunk was written''), st)
          else
            (let st = record_effect (Waited mark) st;
                 last_key = (if lt_chunked lt \<and> rows \<noteq> [] then key_literals (lt_resolved lt) (last rows) else None);
                 finished = (\<not> lt_chunked lt \<or> length rows < lt_limit lt)
             in if \<not> finished \<and> last_key = None
                then (Inl (MyConfig (fst (lt_table lt) @ ''.'' @ snd (lt_table lt)
                  @ '': a full chunk produced no key to continue from, so the rest of the table cannot be read'')), st)
                else ld_bind (store_progress env lt last_key finished st) (\<lambda>_ st. (Inr (last_key, finished), st))))))"

definition load_chunk :: "my_world \<Rightarrow> load_env \<Rightarrow> load_table \<Rightarrow> string list option \<Rightarrow> loading \<Rightarrow> (my_error, string list option \<times> bool) load_step" where
  "load_chunk w env lt cursor st =
     ld_bind (master_position (le_client env), st) (\<lambda>(file_name, pos) st.
     let version = saturating_add (lt_version_base lt) (position_token file_name pos);
         sql = chunk_statement w (lt_table lt) (lt_resolved lt) cursor (if lt_chunked lt then Some (lt_limit lt) else None)
           (lt_filter lt) (lt_table_filter lt)
     in ld_bind (map_err (\<lambda>_. MyCatalog (''initial load of '' @ fst (lt_table lt) @ ''.'' @ snd (lt_table lt) @ '' failed reading a chunk''))
          (mc_query (le_client env) sql), st) (\<lambda>(rows, failure) st.
        ld_bind (send_chunk w env lt version rows failure st) (\<lambda>_ st. close_chunk env lt rows st)))"

subsection \<open>A table, and all of them\<close>

text \<open>How the load of a table ended, and the environments it left: \<open>None\<close> is a load still waiting.\<close>

fun load_loop :: "my_world \<Rightarrow> load_table \<Rightarrow> load_env list \<Rightarrow> string list option \<Rightarrow> loading
    \<Rightarrow> (my_error, load_env list) result option \<times> loading" where
  "load_loop w lt [] cursor st = (None, st)"
| "load_loop w lt (env # envs) cursor st =
     (case load_chunk w env lt cursor st of
        (Inl e, st) \<Rightarrow> (Some (Inl e), st)
      | (Inr (cursor, finished), st) \<Rightarrow> if finished then (Some (Inr envs), st) else load_loop w lt envs cursor st)"

record load_config =
  lc_chunk_rows :: nat
  lc_stream :: stream_id
  lc_scope :: load_scope
  lc_children :: "(table \<times> child_spec list) list"
  lc_aggregates :: "(table \<times> aggregate_spec list) list"
  lc_version_base :: u64
  lc_append_only :: "table set"

text \<open>The cursor a stored progress document gives; \<open>Inl\<close> is a table already loaded.\<close>

definition stored_cursor :: "json option \<Rightarrow> (unit, string list option) result" where
  "stored_cursor doc =
     (case Option.bind doc from_doc of
        Some p \<Rightarrow>
          if lp_finished p then Inl ()
          else (case lp_cursor p of After key \<Rightarrow> Inr (if key = [] then None else Some key) | _ \<Rightarrow> Inr None)
      | None \<Rightarrow> Inr None)"

definition is_chunked :: "my_schema \<Rightarrow> bool" where
  "is_chunked resolved \<longleftrightarrow> msc_pk_columns resolved \<noteq> [] \<and>
     list_all (\<lambda>name. case List.find (\<lambda>c. mcol_name c = name) (msc_columns resolved) of
       Some c \<Rightarrow> cursor_safe (mcol_shape c) | None \<Rightarrow> False) (msc_pk_columns resolved)"

definition table_load :: "my_world \<Rightarrow> load_config \<Rightarrow> table \<Rightarrow> my_schema \<Rightarrow> load_table" where
  "table_load w cfg tab resolved =
     (let qualified = fst tab @ ''.'' @ snd tab; scope = lc_scope cfg in
      \<lparr>lt_table = tab, lt_resolved = resolved, lt_children = unwrap_or [] (map_of (lc_children cfg) tab),
       lt_aggregates = unwrap_or [] (map_of (lc_aggregates cfg) tab), lt_chunked = is_chunked resolved,
       lt_limit = max 1 (lc_chunk_rows cfg), lt_filter = ls_filter scope, lt_table_filter = table_filter scope qualified,
       lt_version_base = lc_version_base cfg,
       lt_progress = (if ls_resumable scope then Some (load_progress_key (mw_alnum w) (lc_stream cfg) qualified) else None)\<rparr>)"

text \<open>The next environment also answers for the schema and the stored progress of a table.\<close>

fun load_tables :: "my_world \<Rightarrow> load_config \<Rightarrow> table list \<Rightarrow> string list \<Rightarrow> load_env list \<Rightarrow> loading
    \<Rightarrow> (my_error, unit) result option \<times> loading" where
  "load_tables w cfg [] keys envs st = (Some (Inr ()), clear_progress keys st)"
| "load_tables w cfg (tab # tabs) keys [] st =
     (if \<not> covers (lc_scope cfg) (fst tab @ ''.'' @ snd tab) then load_tables w cfg tabs keys [] st else (None, st))"
| "load_tables w cfg (tab # tabs) keys (env # envs) st =
     (if \<not> covers (lc_scope cfg) (fst tab @ ''.'' @ snd tab) then load_tables w cfg tabs keys (env # envs) st
      else case table_schema w (le_client env) (fst tab) (snd tab) (tab \<in> lc_append_only cfg) of
        Inl e \<Rightarrow> (Some (Inl e), st)
      | Inr resolved \<Rightarrow>
          (let lt = table_load w cfg tab resolved;
               keys = keys @ (case lt_progress lt of Some key \<Rightarrow> [key] | None \<Rightarrow> []) in
           case (case lt_progress lt of Some key \<Rightarrow> le_read env key | None \<Rightarrow> Inr None) of
             Inl e \<Rightarrow> (Some (Inl (MyCore e)), st)
           | Inr doc \<Rightarrow>
               (case stored_cursor doc of
                  Inl _ \<Rightarrow> load_tables w cfg tabs keys (env # envs) st
                | Inr cursor \<Rightarrow>
                    (case load_loop w lt (env # envs) (if lt_chunked lt then cursor else None) (st\<lparr>ld_count := 0\<rparr>) of
                       (None, st) \<Rightarrow> (None, st)
                     | (Some (Inl e), st) \<Rightarrow> (Some (Inl e), st)
                     | (Some (Inr envs), st) \<Rightarrow> load_tables w cfg tabs keys envs st))))"

definition my_load :: "my_world \<Rightarrow> load_config \<Rightarrow> my_client \<Rightarrow> table list \<Rightarrow> load_env list \<Rightarrow> loading \<Rightarrow> (my_error, unit) result option \<times> loading" where
  "my_load w cfg client tabs envs st =
     (case mc_text_rows client ''SET SESSION TRANSACTION ISOLATION LEVEL READ COMMITTED'' of
        Inl _ \<Rightarrow> (Some (Inl (MyCatalog (''cannot set the load session'' @ [SQUOTE] @ ''s isolation level''))), st)
      | Inr _ \<Rightarrow> load_tables w cfg tabs [] envs st)"

end
