(* ===== verification/My_Load_Facts.thy ===== *)
theory My_Load_Facts
  imports My_Load
begin

section \<open>What the load promises\<close>

text \<open>
  Progress is stored only when everything sent before it is confirmed, whatever the server, the store and the engine
  do. Against a server that answers chunk statements as a table in key order, the load of a table ends with every row read once.
  The text of the cursor's condition means the lexicographic order of the key.
\<close>

subsection \<open>Progress after rows\<close>

lemma send_keeps: "unbroken st \<Longrightarrow> ends_in (\<lambda>_ st. unbroken st) (load_send ev st)"
  by (simp add: load_send_def send_or_keeps)

lemma boundary_keeps: "unbroken st \<Longrightarrow> ends_in (\<lambda>_ st. unbroken st) (send_boundary st)"
  by (simp add: send_boundary_def send_keeps)

lemma stream_rows_keeps: "unbroken st \<Longrightarrow> ends_in (\<lambda>_ st. unbroken st) (stream_rows w lt version rows st)"
proof (induction rows arbitrary: st)
  case (Cons row rows)
  show ?case
    unfolding stream_rows.simps Let_def
    by (rule ends_bind [OF send_keeps], simp add: Cons.prems, rule ends_bind [of "\<lambda>_ st. unbroken st"])
      (auto simp: boundary_keeps Cons.IH)
qed simp

lemma send_held_keeps: "unbroken st \<Longrightarrow> ends_in (\<lambda>_ st. unbroken st) (send_held k changes st)"
proof (induction changes arbitrary: st k)
  case (Cons change changes)
  show ?case
    unfolding send_held.simps
    by (rule ends_bind [OF send_keeps], simp add: Cons.prems, rule ends_bind [of "\<lambda>_ st. unbroken st"])
      (auto simp: boundary_keeps Cons.IH)
qed simp

lemma send_chunk_keeps: "unbroken st \<Longrightarrow> ends_in (\<lambda>_ st. unbroken st) (send_chunk w env lt version rows failure st)"
  unfolding send_chunk_def Let_def
  by (auto intro!: ends_bind [OF stream_rows_keeps] ends_bind [OF ends_pure [where P = "\<lambda>_ st. unbroken st"]] send_held_keeps split: option.split)

lemma close_chunk_settles: "unbroken st \<Longrightarrow> ends_in (\<lambda>_. settled) (close_chunk env lt rows st)"
proof -
  assume ok: "unbroken st"
  have mark: "ends_in (\<lambda>_ st. \<exists>d. scanned st = Some (d, Some k)) (load_send (LoadMark k) st)" if "unbroken st" for k st
    using that by (auto simp: load_send_def send_or_def unbroken_def scanned_effect)
  have store: "ends_in (\<lambda>_. settled) (store_progress env lt cursor finished st)" if "settled st" for cursor finished st
    using that by (auto simp: store_progress_def settled_def unbroken_def scanned_effect Let_def split: option.split sum.split)
  have finish: "ends_in (\<lambda>_. settled) (ld_bind (store_progress env lt cursor finished st) (\<lambda>_ st. (Inr a, st)))" if "settled st" for cursor finished st a
    by (rule ends_bind [OF store [OF that]]) simp
  show ?thesis
    unfolding close_chunk_def prod.case_eq_if
    by (rule ends_bind [OF boundary_keeps [OF ok]], rule ends_bind [OF mark])
      (auto simp: Let_def scanned_effect settled_def unbroken_def intro!: finish)
qed

lemma load_chunk_settles: "settled st \<Longrightarrow> ends_in (\<lambda>_. settled) (load_chunk w env lt cursor st)"
proof -
  assume "settled st"
  then have ok: "unbroken st" by (rule settled_unbroken)
  show ?thesis
    unfolding load_chunk_def
    by (auto simp: Let_def ok intro!: ends_bind [OF ends_pure [where P = "\<lambda>_ st. unbroken st"]] ends_bind [OF send_chunk_keeps]
        close_chunk_settles split: prod.split)
qed

lemma load_loop_settles:
  assumes "settled st" "load_loop w lt envs cursor st = (r, st')"
  shows "unbroken st' \<and> (\<forall>rest. r = Some (Inr rest) \<longrightarrow> settled st')"
  using assms
proof (induction envs arbitrary: cursor st)
  case Nil
  then show ?case by (auto simp: settled_unbroken)
next
  case (Cons env envs)
  obtain x st1 where chunk: "load_chunk w env lt cursor st = (x, st1)" by (cases "load_chunk w env lt cursor st")
  have ends: "ends_in (\<lambda>_. settled) (x, st1)" using load_chunk_settles [OF Cons.prems(1), of w env lt cursor] chunk by simp
  show ?case
  proof (cases x)
    case (Inl e)
    then show ?thesis using ends chunk Cons.prems(2) by auto
  next
    case (Inr a)
    then have st1: "settled st1" using ends by simp
    show ?thesis
    proof (cases "snd a")
      case True
      then show ?thesis using chunk Inr st1 Cons.prems(2) by (cases a) (simp add: settled_unbroken)
    next
      case False
      then have "load_loop w lt envs (fst a) st1 = (r, st')" using chunk Inr Cons.prems(2) by (cases a) simp
      then show ?thesis by (rule Cons.IH [OF st1])
    qed
  qed
qed

lemma load_tables_unbroken: "settled st \<Longrightarrow> unbroken (snd (load_tables w cfg tabs keys envs st))"
proof (induction w cfg tabs keys envs st rule: load_tables.induct)
  case (1 w cfg keys envs st)
  then show ?case by (simp add: cleared_unbroken)
next
  case (2 w cfg tab tabs keys st)
  then show ?case by (simp add: settled_unbroken)
next
  case (3 w cfg tab tabs keys env envs st)
  have start: "settled (st\<lparr>ld_count := 0\<rparr>)" using "3.prems" by (simp add: settled_def)
  show ?case
  proof (cases "covers (lc_scope cfg) (fst tab @ ''.'' @ snd tab)")
    case False
    then show ?thesis using "3.IH"(1) "3.prems" by simp
  next
    case True
    note cov = True
    show ?thesis
    proof (cases "table_schema w (le_client env) (fst tab) (snd tab) (tab \<in> lc_append_only cfg)")
      case (Inl e)
      then show ?thesis using cov "3.prems" by (simp add: settled_unbroken)
    next
      case (Inr resolved)
      define lt where "lt = table_load w cfg tab resolved"
      define keys' where "keys' = keys @ (case lt_progress lt of Some key \<Rightarrow> [key] | None \<Rightarrow> [])"
      define doc where "doc = (case lt_progress lt of Some key \<Rightarrow> le_read env key | None \<Rightarrow> Inr None)"
      note defs = lt_def keys'_def doc_def
      show ?thesis
      proof (cases doc)
        case (Inl e)
        then show ?thesis using cov Inr "3.prems" by (simp add: Let_def settled_unbroken flip: defs)
      next
        case doc: (Inr d)
        show ?thesis
        proof (cases "stored_cursor d")
          case (Inl u)
          have "unbroken (snd (load_tables w cfg tabs keys' (env # envs) st))"
            using cov Inr doc Inl "3.prems" by (intro "3.IH"(2)) (auto simp: defs)
          then show ?thesis using cov Inr doc Inl by (simp add: Let_def flip: defs)
        next
          case cursor: (Inr cursor)
          let ?cursor = "if lt_chunked lt then cursor else None"
          obtain r st1 where loop: "load_loop w lt (env # envs) ?cursor (st\<lparr>ld_count := 0\<rparr>) = (r, st1)"
            by (cases "load_loop w lt (env # envs) ?cursor (st\<lparr>ld_count := 0\<rparr>)")
          note ok = load_loop_settles [OF start loop]
          show ?thesis
          proof (cases "\<exists>rest. r = Some (Inr rest)")
            case False
            then have "snd (load_tables w cfg (tab # tabs) keys (env # envs) st) = st1"
              using cov Inr doc cursor loop by (cases r) (auto simp: Let_def simp flip: defs split: sum.split)
            then show ?thesis using ok by simp
          next
            case True
            then obtain rest where rest: "r = Some (Inr rest)" by blast
            have "unbroken (snd (load_tables w cfg tabs keys' rest st1))"
              using cov Inr doc cursor loop rest ok by (intro "3.IH"(3)) (auto simp: defs)
            then show ?thesis using cov Inr doc cursor loop rest by (simp add: Let_def flip: defs)
          qed
        qed
      qed
    qed
  qed
qed

text \<open>C22. Whatever the server, the store and the engine answer, and wherever the load stops: progress is stored,
  and progress documents are removed at the end, only when every row sent until then was confirmed as written by a mark
  sent after it. So a load resumed from what is stored leaves no row behind.\<close>

theorem progress_follows_written_rows:
  "load_scan (False, None) (ld_trace (snd (my_load w cfg client tabs envs (loading_start room marks)))) \<noteq> None"
proof -
  have start: "settled (loading_start room marks)" by (simp add: settled_def scanned_def loading_start_def)
  then have "unbroken (snd (my_load w cfg client tabs envs (loading_start room marks)))"
    by (simp add: my_load_def load_tables_unbroken settled_unbroken split: sum.split)
  then show ?thesis by (simp add: unbroken_def scanned_def)
qed

subsection \<open>The condition of a cursor\<close>

text \<open>The condition as terms of comparisons, and as text.\<close>

type_synonym key_comparison = "string \<times> bool \<times> string"

definition after_terms :: "string list \<Rightarrow> string list \<Rightarrow> key_comparison list list" where
  "after_terms key vals = map (\<lambda>i. map (\<lambda>j. (key ! j, False, vals ! j)) [0..<i] @ [(key ! i, True, vals ! i)]) [0..<length key]"

definition terms_text :: "key_comparison list list \<Rightarrow> string" where
  "terms_text ts = join '' OR '' (map (\<lambda>t. ''('' @ join '' AND '' (map (\<lambda>(c, gt, v). c @ (if gt then '' > '' else '' = '') @ v) t) @ '')'') ts)"

definition terms_hold :: "(string \<Rightarrow> 'a :: linorder) \<Rightarrow> (string \<Rightarrow> 'a) \<Rightarrow> key_comparison list list \<Rightarrow> bool" where
  "terms_hold col lit ts \<longleftrightarrow> list_ex (list_all (\<lambda>(c, gt, v). if gt then lit v < col c else col c = lit v)) ts"

fun lex_greater :: "'a :: linorder list \<Rightarrow> 'a list \<Rightarrow> bool" where
  "lex_greater (x # xs) (y # ys) \<longleftrightarrow> y < x \<or> (x = y \<and> lex_greater xs ys)"
| "lex_greater _ _ \<longleftrightarrow> False"

lemma after_predicate_text: "after_predicate key vals = terms_text (after_terms key vals)"
proof -
  have "after_term key vals = (\<lambda>i. ''('' @ join '' AND '' (map (\<lambda>(c, gt, v). c @ (if gt then '' > '' else '' = '') @ v)
      (map (\<lambda>j. (key ! j, False, vals ! j)) [0..<i] @ [(key ! i, True, vals ! i)])) @ '')'')"
    by (rule ext) (simp only: after_term_def map_append map_map comp_def split_conv list.map if_True if_False)
  then show ?thesis by (simp only: after_predicate_def terms_text_def after_terms_def map_map comp_def)
qed

lemma after_terms_Cons:
  "after_terms (k # key) (v # vals) = [(k, True, v)] # map ((#) (k, False, v)) (after_terms key vals)"
proof -
  have "[0..<length (k # key)] = 0 # map Suc [0..<length key]" by (simp add: upt_conv_Cons map_Suc_upt del: upt_Suc)
  moreover have "[0..<Suc i] = 0 # map Suc [0..<i]" for i by (simp add: upt_conv_Cons map_Suc_upt del: upt_Suc)
  ultimately show ?thesis by (simp add: after_terms_def comp_def del: upt_Suc)
qed

text \<open>The condition put before the next chunk, whatever the number of key columns, is the text of comparisons
  that hold for exactly the rows whose key is greater than the cursor in lexicographic order.\<close>

theorem after_predicate_lexicographic:
  assumes "length vals = length key"
  shows "after_predicate key vals = terms_text (after_terms key vals) \<and>
    (terms_hold col lit (after_terms key vals) \<longleftrightarrow> lex_greater (map col key) (map lit vals))"
proof (rule conjI [OF after_predicate_text])
  show "terms_hold col lit (after_terms key vals) \<longleftrightarrow> lex_greater (map col key) (map lit vals)"
    using assms [symmetric]
  proof (induction key vals rule: list_induct2)
    case (Cons k key v vals)
    have "terms_hold col lit (map ((#) (k, False, v)) ts) \<longleftrightarrow> col k = lit v \<and> terms_hold col lit ts" for ts
      by (induction ts) (auto simp: terms_hold_def)
    then show ?case using Cons.IH by (auto simp: after_terms_Cons terms_hold_def)
  qed (simp add: after_terms_def terms_hold_def)
qed

theorem after_predicate_lexicographic_witness:
  "after_predicate [''`a`'', ''`b`''] [''1'', ''2''] = ''(`a` > 1) OR (`a` = 1 AND `b` > 2)'' \<and>
   (terms_hold (\<lambda>c. if c = ''`a`'' then 1 else 3 :: int) (\<lambda>v. if v = ''1'' then 1 else 2) (after_terms [''`a`'', ''`b`''] [''1'', ''2'']) \<longleftrightarrow>
    lex_greater [1, 3 :: int] [1, 2])"
  using after_predicate_lexicographic [of "[''1'', ''2'']" "[''`a`'', ''`b`'']" "\<lambda>c. if c = ''`a`'' then 1 else 3 :: int"
      "\<lambda>v. if v = ''1'' then 1 else 2"]
  by (simp add: after_terms_def terms_text_def upt_conv_Cons)

subsection \<open>A whole table\<close>

text \<open>What the server leaves to read after a cursor, and a server and engine that do their part for a chunk.\<close>

definition rows_after :: "my_schema \<Rightarrow> byte_row list \<Rightarrow> string list option \<Rightarrow> byte_row list" where
  "rows_after resolved rows cursor =
     (case cursor of None \<Rightarrow> rows | Some key \<Rightarrow> tl (dropWhile (\<lambda>r. key_literals resolved r \<noteq> Some key) rows))"

definition serves :: "my_world \<Rightarrow> load_table \<Rightarrow> byte_row list \<Rightarrow> load_env \<Rightarrow> bool" where
  "serves w lt rows env \<longleftrightarrow> (\<exists>pos. master_position (le_client env) = Inr pos) \<and>
     list_all (\<lambda>cursor. mc_query (le_client env)
         (chunk_statement w (lt_table lt) (lt_resolved lt) cursor (Some (lt_limit lt)) (lt_filter lt) (lt_table_filter lt))
        = Inr (take (lt_limit lt) (rows_after (lt_resolved lt) rows cursor), None))
       (None # map (key_literals (lt_resolved lt)) rows) \<and>
     le_written env \<and> (\<forall>key doc. le_store env key doc = Inr ())"

lemma stream_rows_sent:
  assumes "2 * length rows \<le> ld_room st"
  shows "\<exists>st'. stream_rows w lt version rows st = (Inr (), st') \<and> ld_room st - 2 * length rows \<le> ld_room st' \<and>
    sent_docs st' = sent_docs st @ map (build_document w (lt_resolved lt)) rows"
  using assms
proof (induction rows arbitrary: st)
  case (Cons row rows)
  let ?change = "loaded_change w lt version row"
  let ?st1 = "(record_effect (Sent (Row ?change)) (st\<lparr>ld_count := ld_count st + 1\<rparr>))\<lparr>ld_room := ld_room st - 1\<rparr>"
  have room: "2 \<le> ld_room st" "2 * length rows \<le> ld_room st - 2" using Cons.prems by simp_all
  have docs: "sent_docs ?st1 = sent_docs st @ [build_document w (lt_resolved lt) row]"
    by (simp add: sent_docs_effect loaded_change_def split: prod.split)
  define st2 where "st2 = (if ld_count ?st1 mod ROWS_PER_BOUNDARY = 0
    then (record_effect (Sent (Transaction (Commit (Lsn 0) 0))) ?st1)\<lparr>ld_room := ld_room ?st1 - 1\<rparr> else ?st1)"
  have step: "stream_rows w lt version (row # rows) st = stream_rows w lt version rows st2"
    using room(1) by (auto simp: st2_def ld_bind_def load_send_def send_or_def send_boundary_def Let_def record_effect_def)
  have st2: "ld_room st - 2 \<le> ld_room st2" "sent_docs st2 = sent_docs st @ [build_document w (lt_resolved lt) row]"
  proof -
    show "ld_room st - 2 \<le> ld_room st2" by (auto simp: st2_def record_effect_def)
    show "sent_docs st2 = sent_docs st @ [build_document w (lt_resolved lt) row]" using docs by (auto simp: st2_def sent_docs_effect)
  qed
  obtain st' where "stream_rows w lt version rows st2 = (Inr (), st')" "ld_room st2 - 2 * length rows \<le> ld_room st'"
      "sent_docs st' = sent_docs st2 @ map (build_document w (lt_resolved lt)) rows"
    using Cons.IH [of st2] room(2) st2(1) by auto
  then show ?case using step st2 by (intro exI [of _ st']) auto
qed simp

lemma close_chunk_reads_on:
  assumes "le_written env" "\<forall>key doc. le_store env key doc = Inr ()" "lt_chunked lt" "2 \<le> ld_room st"
    "rows = [] \<or> key_literals (lt_resolved lt) (last rows) \<noteq> None" "0 < lt_limit lt"
  shows "\<exists>st'. close_chunk env lt rows st =
      (Inr (if rows = [] then None else key_literals (lt_resolved lt) (last rows), length rows < lt_limit lt), st') \<and>
    ld_room st - 2 \<le> ld_room st' \<and> sent_docs st' = sent_docs st"
proof -
  obtain mark marks where mark: "mark_next (ld_marks st) = (mark, marks)" by (cases "mark_next (ld_marks st)")
  show ?thesis
    using assms
    by (auto simp: close_chunk_def send_boundary_def load_send_def send_or_def ld_bind_def record_effect_def mark store_progress_def Let_def
        sent_docs_def sent_rows_def List.map_filter_def split: option.split)
qed

lemma load_chunk_reads:
  assumes "serves w lt rows env" "cursor \<in> set (None # map (key_literals (lt_resolved lt)) rows)"
    "chunk = take (lt_limit lt) (rows_after (lt_resolved lt) rows cursor)" "lt_chunked lt" "\<not> held_back lt" "0 < lt_limit lt"
    "chunk = [] \<or> key_literals (lt_resolved lt) (last chunk) \<noteq> None" "2 * length chunk + 2 \<le> ld_room st"
  shows "\<exists>st'. load_chunk w env lt cursor st =
      (Inr (if chunk = [] then None else key_literals (lt_resolved lt) (last chunk), length chunk < lt_limit lt), st') \<and>
    ld_room st - (2 * length chunk + 2) \<le> ld_room st' \<and> sent_docs st' = sent_docs st @ map (build_document w (lt_resolved lt)) chunk"
proof -
  obtain f p where pos: "master_position (le_client env) = Inr (f, p)" using assms(1) by (auto simp: serves_def)
  have query: "mc_query (le_client env)
      (chunk_statement w (lt_table lt) (lt_resolved lt) cursor (Some (lt_limit lt)) (lt_filter lt) (lt_table_filter lt)) = Inr (chunk, None)"
    and env: "le_written env" "\<forall>key doc. le_store env key doc = Inr ()"
    using assms(1,2) by (auto simp: serves_def assms(3) list_all_iff)
  define version where "version = saturating_add (lt_version_base lt) (position_token f p)"
  obtain st1 where st1: "stream_rows w lt version chunk st = (Inr (), st1)" "ld_room st - 2 * length chunk \<le> ld_room st1"
      "sent_docs st1 = sent_docs st @ map (build_document w (lt_resolved lt)) chunk"
    using stream_rows_sent [of chunk st w lt version] assms(8) by auto
  have "load_chunk w env lt cursor st = close_chunk env lt chunk st1"
    using query assms(4,5) st1(1)
    by (simp add: load_chunk_def pos ld_bind_def send_chunk_def map_err_def Let_def version_def split: prod.split)
  moreover obtain st' where "close_chunk env lt chunk st1 =
      (Inr (if chunk = [] then None else key_literals (lt_resolved lt) (last chunk), length chunk < lt_limit lt), st')"
      "ld_room st1 - 2 \<le> ld_room st'" "sent_docs st' = sent_docs st1"
    using close_chunk_reads_on [OF env assms(4) _ assms(7,6)] st1(2) assms(8) by force
  ultimately show ?thesis using st1 by auto
qed

lemma rows_after_last:
  assumes "rows = seen @ chunk @ left" "chunk \<noteq> []" "key_literals resolved (last chunk) = Some key"
    "distinct (map (key_literals resolved) rows)"
  shows "rows_after resolved rows (Some key) = left"
proof -
  have rows: "rows = (seen @ butlast chunk) @ last chunk # left" using assms(1,2) by simp
  then have "\<forall>r \<in> set (seen @ butlast chunk). key_literals resolved r \<noteq> Some key"
    using assms(3,4) by (auto simp: image_iff)
  then have "dropWhile (\<lambda>r. key_literals resolved r \<noteq> Some key) rows = last chunk # left"
    unfolding rows using assms(3) by (subst dropWhile_append2) auto
  then show ?thesis by (simp add: rows_after_def)
qed

lemma load_loop_reads:
  assumes "lt_chunked lt" "\<not> held_back lt" "0 < lt_limit lt" "list_all (serves w lt rows) envs"
    "distinct (map (key_literals (lt_resolved lt)) rows)" "None \<notin> set (map (key_literals (lt_resolved lt)) rows)"
    "rows = seen @ left" "rows_after (lt_resolved lt) rows cursor = left" "cursor \<in> set (None # map (key_literals (lt_resolved lt)) rows)"
    "length left div lt_limit lt < length envs" "2 * length left + 2 * length envs \<le> ld_room st"
  shows "\<exists>rest st'. load_loop w lt envs cursor st = (Some (Inr rest), st') \<and>
    sent_docs st' = sent_docs st @ map (build_document w (lt_resolved lt)) left"
  using assms(4,7-)
proof (induction envs arbitrary: seen left cursor st)
  case (Cons env envs)
  let ?key = "key_literals (lt_resolved lt)"
  define chunk where "chunk = take (lt_limit lt) left"
  define left' where "left' = drop (lt_limit lt) left"
  have split: "left = chunk @ left'" by (simp add: chunk_def left'_def)
  have room: "2 * length chunk + 2 \<le> ld_room st" using Cons.prems(6) split by simp
  have keyed: "chunk = [] \<or> ?key (last chunk) \<noteq> None"
  proof (cases "chunk = []")
    case False
    then have "last chunk \<in> set rows" using Cons.prems(2) split by simp
    then show ?thesis using assms(6) by (metis image_eqI list.set_map)
  qed simp
  obtain st1 where st1: "load_chunk w env lt cursor st = (Inr (if chunk = [] then None else ?key (last chunk), length chunk < lt_limit lt), st1)"
      "ld_room st - (2 * length chunk + 2) \<le> ld_room st1" "sent_docs st1 = sent_docs st @ map (build_document w (lt_resolved lt)) chunk"
    using load_chunk_reads [of w lt rows env cursor chunk st] Cons.prems(1,3,4) assms(1-3) keyed room by (auto simp: chunk_def)
  show ?case
  proof (cases "length chunk < lt_limit lt")
    case True
    then have "left' = []" by (simp add: chunk_def left'_def)
    then show ?thesis using True st1 split by simp
  next
    case False
    then have full: "length chunk = lt_limit lt" "chunk \<noteq> []" using assms(3) by (auto simp: chunk_def)
    then obtain key where key: "?key (last chunk) = Some key" using keyed by auto
    have rows: "rows = (seen @ chunk) @ left'" using Cons.prems(2) split by simp
    have "rows_after (lt_resolved lt) rows (Some key) = left'"
      using rows_after_last [of rows seen chunk left'] rows full(2) key assms(5) by simp
    moreover have "Some key \<in> set (None # map ?key rows)" using key full(2) rows by (auto simp: image_iff intro!: bexI [of _ "last chunk"])
    moreover have "length left' div lt_limit lt < length envs"
      using Cons.prems(5) full(1) assms(3) by (simp add: split div_add_self1 [of "lt_limit lt"])
    moreover have "2 * length left' + 2 * length envs \<le> ld_room st1" using st1(2) Cons.prems(6) by (simp add: split)
    ultimately obtain rest st' where "load_loop w lt envs (Some key) st1 = (Some (Inr rest), st')"
        "sent_docs st' = sent_docs st1 @ map (build_document w (lt_resolved lt)) left'"
      using Cons.IH [of "seen @ chunk" left' "Some key" st1] Cons.prems(1) rows by auto
    then show ?thesis using st1 False key full(2) split by simp
  qed
qed simp


text \<open>A server that holds a table: it recognises the statements of the cursors that can occur.\<close>

definition table_server :: "my_world \<Rightarrow> load_table \<Rightarrow> byte_row list \<Rightarrow> my_client" where
  "table_server w lt rows =
     \<lparr>mc_text_rows = (\<lambda>_. Inr [[Some ''binlog.000001'', Some ''4'']]),
      mc_query = (\<lambda>sql. case List.find (\<lambda>cursor. chunk_statement w (lt_table lt) (lt_resolved lt) cursor
            (Some (lt_limit lt)) (lt_filter lt) (lt_table_filter lt) = sql) (None # map (key_literals (lt_resolved lt)) rows) of
          Some cursor \<Rightarrow> Inr (take (lt_limit lt) (rows_after (lt_resolved lt) rows cursor), None)
        | None \<Rightarrow> Inl (MyConfig ''unknown statement''))\<rparr>"

definition sample_load :: load_table where
  "sample_load = \<lparr>lt_table = (''shop'', ''items''),
     lt_resolved = \<lparr>msc_columns = [\<lparr>mcol_name = ''id'', mcol_shape = ShapeInt\<rparr>], msc_pk_columns = [''id'']\<rparr>,
     lt_children = [], lt_aggregates = [], lt_chunked = True, lt_limit = 1, lt_filter = None, lt_table_filter = None,
     lt_version_base = 0, lt_progress = None\<rparr>"

definition sample_rows :: "byte_row list" where
  "sample_rows = [[Some ''1''], [Some ''2'']]"

definition sample_load_env :: "my_world \<Rightarrow> load_env" where
  "sample_load_env w = \<lparr>le_client = table_server w sample_load sample_rows, le_written = True, le_read = (\<lambda>_. Inr None), le_store = (\<lambda>_ _. Inr ())\<rparr>"

lemma sample_keys: "map (key_literals (lt_resolved sample_load)) sample_rows = [Some [''1''], Some [''2'']]"
  by code_simp

lemma sample_statement:
  "chunk_statement w (lt_table sample_load) (lt_resolved sample_load) cursor (Some (lt_limit sample_load)) (lt_filter sample_load) (lt_table_filter sample_load) =
     ''SELECT `id` FROM `shop`.`items`'' @ (case cursor of Some [v] \<Rightarrow> '' WHERE ((`id` > '' @ v @ ''))'' | _ \<Rightarrow> []) @ '' ORDER BY `id` LIMIT 1''"
proof -
  have q: "my_quote_ident ''id'' = ''`id`''" "my_quote_ident ''shop'' = ''`shop`''" "my_quote_ident ''items'' = ''`items`''"
      "show_nat 1 = ''1''" by code_simp+
  show ?thesis
    by (auto simp: chunk_statement_def sample_load_def q Let_def after_predicate_def after_term_def length_Suc_conv
        simp del: One_nat_def split: option.split list.split)
qed

lemma sample_serves: "serves w sample_load sample_rows (sample_load_env w)"
proof -
  have pos: "\<exists>pos. master_position (le_client (sample_load_env w)) = Inr pos"
    by (simp add: master_position_def query_text_row_def sample_load_env_def table_server_def bindr_def ok_or_def)
  have keys: "key_literals (lt_resolved sample_load) [Some ''1''] = Some [''1'']" "key_literals (lt_resolved sample_load) [Some ''2''] = Some [''2'']"
    by code_simp+
  show ?thesis
    unfolding serves_def
    using pos by (simp add: sample_load_env_def table_server_def sample_keys sample_statement sample_rows_def rows_after_def keys)
qed


subsection \<open>A key of bits\<close>

text \<open>The text protocol gives a BIT value as its bytes. The document reads them as a number, the cursor as decimal
  digits: the value 49 becomes the key 49 and the cursor 1, so the next chunk starts at or before the row it should follow.\<close>

lemma bit_key_read_as_digits:
  "my_convert ext base64 ShapeBits (Some ''1'') = JNumber (NInt 49)" "cursor_literal ShapeBits ''1'' = ''1''"
proof -
  have "be_uint ''1'' = 49" by code_simp
  then show "my_convert ext base64 ShapeBits (Some ''1'') = JNumber (NInt 49)" by (simp add: my_convert_def)
qed code_simp

end
