(* ===== verification/Pg_Load.thy ===== *)
theory Pg_Load
  imports Pg_Children Load_Trace
begin

section \<open>The initial load of PostgreSQL (\<open>crates/bin/src/backfill.rs\<close>)\<close>

text \<open>
  A table is cut into ranges of its key, read in waves of as many ranges as there are readers; after a wave a mark is sent and
  waited for, and the number of ranges done is stored. What a reader sends is a list, the readers of a wave interleave as the
  schedule of the wave says. The server, the readers, the engine and the store answer as the environment of a wave says; a load
  whose environments run out is still waiting. Log lines are not modelled.
\<close>

datatype pg_load_error =
    LoadError string
  | LoadColumn string type_error
  | LoadCore core_error
  | LoadSource source_error

record pg_load_world =
  pw_ext :: externs
  pw_base64 :: "bytes \<Rightarrow> string"
  pw_fshow :: "f64 \<Rightarrow> string"
  pw_alnum :: "string \<Rightarrow> bool"
  pw_debug_str :: "string \<Rightarrow> string"

record pg_col_meta =
  cm_name :: string
  cm_type_oid :: nat
  cm_is_pk :: bool

subsection \<open>Statements\<close>

definition split_qualified :: "string \<Rightarrow> string \<times> string" where
  "split_qualified qualified = unwrap_or (''public'', qualified) (split_once (CHR ''.'') qualified)"

definition qualify :: "string \<Rightarrow> string" where
  "qualify qualified = (case split_qualified qualified of (s, t) \<Rightarrow> pg_quote_ident s @ ''.'' @ pg_quote_ident t)"

definition pg_load_dialect :: sql_dialect where
  "pg_load_dialect = \<lparr>quote_ident = (\<lambda>name. ''p.'' @ pg_quote_ident name), quote_str = pg_quote_literal\<rparr>"

definition pg_dialect_bare :: sql_dialect where
  "pg_dialect_bare = \<lparr>quote_ident = pg_quote_ident, quote_str = pg_quote_literal\<rparr>"

record key_range =
  kr_from :: "string option"
  kr_to :: "string option"

definition range_predicate :: "key_range \<Rightarrow> string \<Rightarrow> string" where
  "range_predicate r quoted_key =
     (case (kr_from r, kr_to r) of
        (None, None) \<Rightarrow> []
      | (Some f, None) \<Rightarrow> quoted_key @ '' >= '' @ f
      | (None, Some t) \<Rightarrow> quoted_key @ '' < '' @ t
      | (Some f, Some t) \<Rightarrow> quoted_key @ '' >= '' @ f @ '' AND '' @ quoted_key @ '' < '' @ t)"

definition ranges_from_bounds :: "string list \<Rightarrow> key_range list" where
  "ranges_from_bounds bounds =
     (if bounds = [] then [\<lparr>kr_from = None, kr_to = None\<rparr>]
      else [\<lparr>kr_from = None, kr_to = Some (hd bounds)\<rparr>]
        @ map (\<lambda>(a, b). \<lparr>kr_from = Some a, kr_to = Some b\<rparr>) (zip bounds (tl bounds))
        @ [\<lparr>kr_from = Some (last bounds), kr_to = None\<rparr>])"

definition copy_statement :: "pg_load_world \<Rightarrow> string \<Rightarrow> pg_col_meta list \<Rightarrow> child_spec list \<Rightarrow> aggregate_spec list \<Rightarrow> string option
    \<Rightarrow> key_range \<Rightarrow> string option \<Rightarrow> string option \<Rightarrow> row_filter option \<Rightarrow> string" where
  "copy_statement w qualified_table cols children aggregates soft_delete rng pk_column filt tfilter =
     (let calias = (\<lambda>i. ''c'' @ show_nat i); aalias = (\<lambda>i. ''a'' @ show_nat i);
          selected = map (\<lambda>c. ''p.'' @ pg_quote_ident (cm_name c) @ ''::text'') cols
            @ map (\<lambda>(i, child). ''COALESCE('' @ calias i @ ''.agg, '' @ QUOTE @ ''[]'' @ QUOTE @ ''::jsonb)::text'') (enumerate 0 children)
            @ map (\<lambda>(i, agg). ''COALESCE('' @ aalias i @ ''.n, 0)::text'') (enumerate 0 aggregates);
          totals = map (\<lambda>(i, child). ''COALESCE('' @ calias i @ ''.total, 0)::text'') (enumerate 0 children);
          joins = concat (map (\<lambda>(i, child). '' LEFT JOIN ('' @ agg_subquery child None @ '') '' @ calias i @ '' ON '' @ calias i
                @ ''.k = p.'' @ pg_quote_ident (cs_parent_column child)) (enumerate 0 children))
            @ concat (map (\<lambda>(i, agg). '' LEFT JOIN ('' @ count_subquery (pw_fshow w) agg None @ '') '' @ aalias i @ '' ON '' @ aalias i
                @ ''.k = p.'' @ pg_quote_ident (as_parent_column agg)) (enumerate 0 aggregates));
          conditions =
            (case pk_column of
               Some key \<Rightarrow> (let predicate = range_predicate rng (''p.'' @ pg_quote_ident key) in if predicate = [] then [] else [predicate])
             | None \<Rightarrow> [])
            @ (case soft_delete of Some predicate \<Rightarrow> [''NOT ('' @ predicate @ '')''] | None \<Rightarrow> [])
            @ (case tfilter of Some f \<Rightarrow> [''('' @ to_sql (pw_fshow w) pg_load_dialect f @ '')''] | None \<Rightarrow> [])
            @ (case filt of Some predicate \<Rightarrow> [''('' @ predicate @ '')''] | None \<Rightarrow> [])
      in ''COPY (SELECT '' @ join '', '' (selected @ totals) @ '' FROM '' @ qualify qualified_table @ '' p'' @ joins
         @ (if conditions = [] then [] else '' WHERE '' @ join '' AND '' conditions) @ '') TO STDOUT (FORMAT text)'')"

subsection \<open>Where to cut a table\<close>

definition f64_div :: "f64 \<Rightarrow> f64 \<Rightarrow> f64" where
  "f64_div x y =
     (case (x, y) of
        (F64_Fin a, F64_Fin b) \<Rightarrow>
          if b = 0 then if a = 0 then F64_NaN else if a < 0 then F64_NegInf else F64_PosInf
          else f64_of_ratio ((a < 0) \<noteq> (b < 0)) (nat \<bar>a\<bar>) (nat \<bar>b\<bar>)
      | (F64_PosInf, F64_Fin b) \<Rightarrow> if b < 0 then F64_NegInf else F64_PosInf
      | (F64_NegInf, F64_Fin b) \<Rightarrow> if b < 0 then F64_PosInf else F64_NegInf
      | (F64_Fin _, F64_PosInf) \<Rightarrow> F64_Fin 0
      | (F64_Fin _, F64_NegInf) \<Rightarrow> F64_Fin 0
      | _ \<Rightarrow> F64_NaN)"

definition f64_mul :: "f64 \<Rightarrow> f64 \<Rightarrow> f64" where
  "f64_mul x y =
     (case (x, y) of
        (F64_Fin a, F64_Fin b) \<Rightarrow> f64_of_ratio ((a < 0) \<noteq> (b < 0)) (nat \<bar>a * b\<bar>) (2 ^ (2 * f64_unit_exp))
      | (F64_NaN, _) \<Rightarrow> F64_NaN
      | (_, F64_NaN) \<Rightarrow> F64_NaN
      | _ \<Rightarrow>
          (let sign = (\<lambda>v. case v of F64_Fin a \<Rightarrow> sgn a | F64_PosInf \<Rightarrow> 1 | _ \<Rightarrow> - 1); s = sign x * sign y
           in if s = 0 then F64_NaN else if s < 0 then F64_NegInf else F64_PosInf))"

definition f64_ceil_i64 :: "f64 \<Rightarrow> int" where
  "f64_ceil_i64 x =
     (case x of
        F64_Fin a \<Rightarrow> max i64_min (min i64_max (- ((- a) div 2 ^ f64_unit_exp)))
      | F64_NaN \<Rightarrow> 0 | F64_PosInf \<Rightarrow> i64_max | F64_NegInf \<Rightarrow> i64_min)"

definition f64_clamp :: "f64 \<Rightarrow> f64 \<Rightarrow> f64 \<Rightarrow> f64" where
  "f64_clamp lo hi x =
     (if f64_partial_cmp x lo = Some Less then lo else if f64_partial_cmp x hi = Some Greater then hi else x)"

record slot_pressure =
  sp_wal_status :: string
  sp_safe_wal_size :: "int option"
  sp_retained_bytes :: "int option"

text \<open>A reader: the position it reports, and what it answers to a COPY statement: the chunks, and the error that cut
  them off, if any.\<close>

record range_reader =
  rd_lsn :: "(string, string) result"
  rd_copy :: "string \<Rightarrow> (string, bytes list \<times> string option) result"

record pg_load_env =
  pe_columns :: "string \<Rightarrow> (string, pg_col_meta list) result"
  pe_estimate :: "string \<Rightarrow> (string, f64) result"
  pe_sample :: "string \<Rightarrow> f64 list \<Rightarrow> f64 \<Rightarrow> (string, string list) result"
  pe_pressure :: "(string, slot_pressure option) result list"
  pe_readers :: "nat \<Rightarrow> range_reader"
  pe_schedule :: "nat list"
  pe_written :: bool
  pe_read :: "string \<Rightarrow> (core_error, json option) result"
  pe_store :: "string \<Rightarrow> json \<Rightarrow> (core_error, unit) result"

definition sample_statement_of :: "string \<Rightarrow> string \<Rightarrow> string" where
  "sample_statement_of key qualified_table =
     ''SELECT quote_literal(v::text) FROM (              SELECT unnest(percentile_disc($1::float8[]) WITHIN GROUP (ORDER BY '' @ pg_quote_ident key
       @ '')) AS v              FROM '' @ qualify qualified_table @ '' TABLESAMPLE SYSTEM ($2::float8)          ) s WHERE v IS NOT NULL''"

definition key_bounds :: "pg_load_env \<Rightarrow> string \<Rightarrow> pg_col_meta list \<Rightarrow> int \<Rightarrow> (pg_load_error, string list) result" where
  "key_bounds env qualified_table cols rows_per_chunk =
     (case filter cm_is_pk cols of
        [key] \<Rightarrow>
          bindr (map_err (\<lambda>_. LoadError ''cannot estimate table size'') (pe_estimate env qualified_table)) (\<lambda>estimate.
          if f64_partial_cmp estimate (f64_of_int rows_per_chunk) = Some Less then Inr []
          else
            (let chunks = f64_ceil_i64 (f64_div estimate (f64_of_int rows_per_chunk)); boundaries = chunks - 1 in
             if boundaries < 1 then Inr []
             else
               (let fractions = map (\<lambda>i. f64_div (f64_of_int (int i)) (f64_of_int chunks)) [1..<Suc (nat boundaries)];
                    percent = f64_clamp (f64_of_ratio False 1 2) (f64_of_int 100)
                      (f64_mul (f64_div (f64_mul (f64_of_int boundaries) (f64_of_int 20)) estimate) (f64_of_int 100))
                in bindr (map_err (\<lambda>_. LoadError (''cannot sample key boundaries of '' @ qualified_table))
                     (pe_sample env (sample_statement_of (cm_name key) qualified_table) fractions percent)) (\<lambda>bounds. Inr (dedup bounds)))))
      | _ \<Rightarrow> Inr [])"

subsection \<open>From a line of COPY to a row\<close>

text \<open>In the text format a backslash escapes the next character; a field stays escaped until it is cut out.\<close>

definition BACKSLASH :: char where "BACKSLASH = CHR 0x5C"
definition TAB :: char where "TAB = CHR 0x09"
definition NEWLINE :: char where "NEWLINE = CHR 0x0A"

fun split_fields :: "string \<Rightarrow> bool \<Rightarrow> string \<Rightarrow> string list" where
  "split_fields cur escaped [] = [cur]"
| "split_fields cur True (c # cs) = split_fields (cur @ [BACKSLASH, c]) False cs"
| "split_fields cur False (c # cs) =
     (if c = BACKSLASH then split_fields cur True cs
      else if c = TAB then cur # split_fields [] False cs
      else split_fields (cur @ [c]) False cs)"

definition split_copy_line :: "string \<Rightarrow> string list" where
  "split_copy_line line = split_fields [] False line"

definition unescaped :: "char \<Rightarrow> char" where
  "unescaped c = (if c = CHR ''t'' then TAB else if c = CHR ''n'' then NEWLINE else if c = CHR ''r'' then CHR 0x0D else c)"

fun unescape_chars :: "string \<Rightarrow> bytes" where
  "unescape_chars [] = []"
| "unescape_chars (c # cs) =
     (if c \<noteq> BACKSLASH then c # unescape_chars cs
      else case cs of [] \<Rightarrow> [] | d # ds \<Rightarrow> unescaped d # unescape_chars ds)"

definition unescape_copy :: "string \<Rightarrow> bytes option" where
  "unescape_copy field = (if field = [BACKSLASH, CHR ''N''] then None else Some (unescape_chars field))"

definition copy_fields :: "bytes \<Rightarrow> bytes option list" where
  "copy_fields line = map unescape_copy (split_copy_line (from_utf8_lossy line))"

definition field_at :: "bytes option list \<Rightarrow> nat \<Rightarrow> bytes option" where
  "field_at cells i = (if i < length cells then cells ! i else None)"

definition pg_row_values :: "converter \<Rightarrow> pg_col_meta list \<Rightarrow> bytes option list \<Rightarrow> (pg_load_error, (pg_col_meta \<times> json) list) result" where
  "pg_row_values conv cols cells =
     mapr (\<lambda>(i, col). bindr (map_err (LoadColumn (cm_name col)) (conv (cm_type_oid col) (field_at cells i))) (\<lambda>v. Inr (col, v)))
       (enumerate 0 cols)"

definition collection_total :: "bytes option list \<Rightarrow> nat \<Rightarrow> json \<Rightarrow> int" where
  "collection_total cells i array =
     (case field_at cells i of
        Some raw \<Rightarrow> unwrap_or 0 (parse_i64 (from_utf8_lossy raw))
      | None \<Rightarrow> (case as_array array of Some rows \<Rightarrow> int (length rows) | None \<Rightarrow> 0))"

fun apply_collections :: "bytes option list \<Rightarrow> nat \<Rightarrow> child_spec list \<Rightarrow> json \<Rightarrow> json" where
  "apply_collections cells i [] doc = doc"
| "apply_collections cells i (child # children) doc =
     (let array = unwrap_or (JArray []) (json_get doc (cs_field child))
      in apply_collections cells (i + 1) children (fst (apply_collection doc child array (collection_total cells i array))))"

definition pg_build_change :: "converter \<Rightarrow> string \<Rightarrow> string \<Rightarrow> pg_col_meta list \<Rightarrow> bytes option list \<Rightarrow> u64 option \<Rightarrow> child_spec list \<Rightarrow> bool
    \<Rightarrow> (pg_load_error, row_change) result" where
  "pg_build_change conv schema table cols cells version children append_only =
     bindr (pg_row_values conv cols cells) (\<lambda>vals.
     let doc = bt_extend [] (map (\<lambda>(col, v). (cm_name col, v)) vals);
         pk_map = bt_extend [] (List.map_filter (\<lambda>(col, v). if cm_is_pk col \<and> \<not> append_only then Some (cm_name col, v) else None) vals)
     in bindr (case pk_map of
          [] \<Rightarrow>
            if append_only then Inr JNull
            else Inl (LoadError (''table '' @ schema @ ''.'' @ table @ '' has no primary key; pg2osync needs one to derive a stable document id, or `append_only = true` on its [sync] section to index its rows as they arrive''))
        | [(_, v)] \<Rightarrow> Inr v
        | _ \<Rightarrow> Inr (JObject pk_map)) (\<lambda>pk.
          Inr \<lparr>rc_schema = schema, rc_table = table,
            rc_kind = Insert pk (apply_collections cells (length cols) children (JObject doc)), rc_version = version\<rparr>))"

subsection \<open>One range\<close>

text \<open>The complete lines of what has arrived, and the rest.\<close>

fun cut_lines :: "bytes \<Rightarrow> bytes \<Rightarrow> bytes list \<times> bytes" where
  "cut_lines cur [] = ([], cur)"
| "cut_lines cur (c # cs) =
     (if c = NEWLINE then (case cut_lines [] cs of (lines, rest) \<Rightarrow> (cur # lines, rest))
      else cut_lines (cur @ [c]) cs)"

type_synonym range_output = "change_event list \<times> (pg_load_error, nat) result"

definition load_boundary :: change_event where
  "load_boundary = Transaction (Commit (Lsn 0) 0)"

definition PG_ROWS_PER_BOUNDARY :: nat where "PG_ROWS_PER_BOUNDARY = 5000"

fun line_events :: "(bytes \<Rightarrow> (pg_load_error, row_change) result) \<Rightarrow> nat \<Rightarrow> bytes list \<Rightarrow> range_output" where
  "line_events mk count [] = ([], Inr count)"
| "line_events mk count (line # lines) =
     (if line = [] then line_events mk count lines
      else case mk line of
        Inl e \<Rightarrow> ([], Inl e)
      | Inr change \<Rightarrow>
          (case line_events mk (count + 1) lines of
             (evs, r) \<Rightarrow> (Row change # (if (count + 1) mod PG_ROWS_PER_BOUNDARY = 0 then [load_boundary] else []) @ evs, r)))"

fun chunk_events :: "(bytes \<Rightarrow> (pg_load_error, row_change) result) \<Rightarrow> nat \<Rightarrow> bytes \<Rightarrow> bytes list \<Rightarrow> string option \<Rightarrow> range_output" where
  "chunk_events mk count pending [] failure =
     ([], case failure of Some e \<Rightarrow> Inl (LoadError ''copy stream failed'') | None \<Rightarrow> Inr count)"
| "chunk_events mk count pending (chunk # chunks) failure =
     (case cut_lines [] (pending @ chunk) of
        (lines, rest) \<Rightarrow>
          (case line_events mk count lines of
             (evs, Inl e) \<Rightarrow> (evs, Inl e)
           | (evs, Inr n) \<Rightarrow> (case chunk_events mk n rest chunks failure of (evs', r) \<Rightarrow> (evs @ evs', r))))"

record range_plan =
  rp_schema :: string
  rp_table :: string
  rp_qualified :: string
  rp_cols :: "pg_col_meta list"
  rp_data_cols :: "pg_col_meta list"
  rp_child_specs :: "child_spec list"
  rp_agg_specs :: "aggregate_spec list"
  rp_soft_delete :: "string option"
  rp_pk_column :: "string option"
  rp_append_only :: bool
  rp_filter :: "string option"
  rp_table_filter :: "row_filter option"

definition current_lsn :: "range_reader \<Rightarrow> (pg_load_error, u64 option) result" where
  "current_lsn rdr =
     (case rd_lsn rdr of
        Inl _ \<Rightarrow> Inl (LoadError ''cannot read the current WAL position'')
      | Inr txt \<Rightarrow> Inr (case lsn_from_str txt of Inr l \<Rightarrow> Some (lsn_val l) | Inl _ \<Rightarrow> None))"

definition range_statement :: "pg_load_world \<Rightarrow> range_plan \<Rightarrow> key_range \<Rightarrow> string" where
  "range_statement w plan rng =
     copy_statement w (rp_qualified plan) (rp_data_cols plan) (rp_child_specs plan) (rp_agg_specs plan) (rp_soft_delete plan) rng
       (rp_pk_column plan) (rp_filter plan) (rp_table_filter plan)"

definition line_change :: "pg_load_world \<Rightarrow> range_plan \<Rightarrow> u64 option \<Rightarrow> bytes \<Rightarrow> (pg_load_error, row_change) result" where
  "line_change w plan version line =
     pg_build_change (convert (pw_ext w) (pw_base64 w)) (rp_schema plan) (rp_table plan) (rp_cols plan) (copy_fields line) version
       (rp_child_specs plan) (rp_append_only plan)"

definition read_range :: "pg_load_world \<Rightarrow> range_plan \<Rightarrow> range_reader \<Rightarrow> key_range \<Rightarrow> range_output" where
  "read_range w plan rdr rng =
     (case current_lsn rdr of
        Inl e \<Rightarrow> ([], Inl e)
      | Inr version \<Rightarrow>
          (case rd_copy rdr (range_statement w plan rng) of
             Inl e \<Rightarrow> ([], Inl (LoadError e))
           | Inr (chunks, failure) \<Rightarrow> chunk_events (line_change w plan version) 0 [] chunks failure))"

subsection \<open>A wave\<close>

text \<open>The readers of a wave send into one channel; the first that fails ends the wave with what was sent until then. The
  schedule says whose turn it is.\<close>

fun finished_rows :: "range_output list \<Rightarrow> nat option" where
  "finished_rows [] = Some 0"
| "finished_rows (r # rs) =
     (case r of ([], Inr n) \<Rightarrow> map_option (\<lambda>m. n + m) (finished_rows rs) | _ \<Rightarrow> None)"

fun run_wave :: "nat list \<Rightarrow> range_output list \<Rightarrow> loading \<Rightarrow> (pg_load_error, nat) result option \<times> loading" where
  "run_wave [] rs st = (map_option Inr (finished_rows rs), st)"
| "run_wave (i # turns) rs st =
     (if length rs \<le> i then run_wave turns rs st
      else case rs ! i of
        ([], Inl e) \<Rightarrow> (Some (Inl e), st)
      | ([], Inr n) \<Rightarrow> run_wave turns rs st
      | (ev # evs, r) \<Rightarrow>
          (case send_or (LoadError ''engine closed during backfill'') ev st of
             (Inl e, st) \<Rightarrow> (Some (Inl e), st)
           | (Inr _, st) \<Rightarrow> run_wave turns (rs[i := (evs, r)]) st))"

definition lost :: "slot_pressure \<Rightarrow> bool" where
  "lost p \<longleftrightarrow> sp_wal_status p = ''lost''"

definition straining :: "slot_pressure \<Rightarrow> bool" where
  "straining p \<longleftrightarrow> sp_wal_status p \<noteq> ''reserved''"

text \<open>\<open>None\<close> is still waiting.\<close>

fun wait_for_slot_room :: "pg_load_world \<Rightarrow> string \<Rightarrow> (string, slot_pressure option) result list \<Rightarrow> (pg_load_error, unit) result option" where
  "wait_for_slot_room w slot [] = None"
| "wait_for_slot_room w slot (answer # answers) =
     (case answer of
        Inl _ \<Rightarrow> Some (Inl (LoadSource (Catalog ''cannot read replication slot pressure'')))
      | Inr None \<Rightarrow> Some (Inr ())
      | Inr (Some p) \<Rightarrow>
          if lost p then Some (Inl (LoadError (''replication slot '' @ pw_debug_str w slot
            @ '' has been invalidated (wal_status = lost);                  the load cannot continue and streaming cannot resume from it. Raise                  max_slot_wal_keep_size, then start again'')))
          else if \<not> straining p then Some (Inr ())
          else wait_for_slot_room w slot answers)"

record pg_load_config =
  plc_workers :: nat
  plc_chunk_rows :: int
  plc_slot :: string
  plc_stream :: stream_id
  plc_scope :: load_scope
  plc_children :: "(table \<times> child_spec list) list"
  plc_aggregates :: "(table \<times> aggregate_spec list) list"

record sync_table =
  sy_table :: string
  sy_soft_delete :: "string option"
  sy_append_only :: bool

definition readers_of :: "pg_load_config \<Rightarrow> nat" where
  "readers_of cfg = max 1 (plc_workers cfg)"

definition pg_store :: "pg_load_env \<Rightarrow> bool \<Rightarrow> string \<Rightarrow> load_progress \<Rightarrow> loading \<Rightarrow> (pg_load_error, unit) load_step" where
  "pg_store env resumable key p st =
     (if \<not> resumable then (Inr (), st)
      else case pe_store env key (to_doc p) of
        Inl e \<Rightarrow> (Inl (LoadCore e), st)
      | Inr _ \<Rightarrow> (Inr (), record_effect (Stored key (to_doc p)) st))"

text \<open>The ranges of a wave on their readers, the mark, the wait for it, and the number of ranges done.\<close>

definition close_wave :: "pg_load_env \<Rightarrow> bool \<Rightarrow> string \<Rightarrow> string list \<Rightarrow> nat \<Rightarrow> loading \<Rightarrow> (pg_load_error, unit) load_step" where
  "close_wave env resumable key bounds done_ranges st =
     (case mark_next (ld_marks st) of
        (mark, marks) \<Rightarrow>
          ld_bind (send_or (LoadError ''engine closed during backfill'') (LoadMark mark) (st\<lparr>ld_marks := marks\<rparr>)) (\<lambda>_ st.
          if \<not> pe_written env then (Inl (LoadError ''engine stopped before the range was written''), st)
          else pg_store env resumable key \<lparr>lp_cursor = Ranges bounds (of_nat done_ranges), lp_finished = False\<rparr>
                 (record_effect (Waited mark) st)))"

definition wave_outputs :: "pg_load_world \<Rightarrow> pg_load_env \<Rightarrow> range_plan \<Rightarrow> key_range list \<Rightarrow> range_output list" where
  "wave_outputs w env plan wave = map (\<lambda>(i, rng). read_range w plan (pe_readers env i) rng) (enumerate 0 wave)"

definition load_wave :: "pg_load_world \<Rightarrow> pg_load_config \<Rightarrow> pg_load_env \<Rightarrow> range_plan \<Rightarrow> string \<Rightarrow> string list \<Rightarrow> nat \<Rightarrow> loading
    \<Rightarrow> (pg_load_error, nat) result option \<times> loading" where
  "load_wave w cfg env plan key bounds start st =
     (case wait_for_slot_room w (plc_slot cfg) (pe_pressure env) of
        None \<Rightarrow> (None, st)
      | Some (Inl e) \<Rightarrow> (Some (Inl e), st)
      | Some (Inr _) \<Rightarrow>
          (let wave = take (readers_of cfg) (drop start (ranges_from_bounds bounds)) in
           case run_wave (pe_schedule env) (wave_outputs w env plan wave) st of
             (None, st) \<Rightarrow> (None, st)
           | (Some (Inl e), st) \<Rightarrow> (Some (Inl e), st)
           | (Some (Inr rows), st) \<Rightarrow>
               (case close_wave env (ls_resumable (plc_scope cfg)) key bounds (start + length wave) st of
                  (Inl e, st) \<Rightarrow> (Some (Inl e), st)
                | (Inr _, st) \<Rightarrow> (Some (Inr (start + length wave)), st))))"

text \<open>The environment after the last wave answers for the progress that says the table is finished.\<close>

fun load_waves :: "pg_load_world \<Rightarrow> pg_load_config \<Rightarrow> range_plan \<Rightarrow> string \<Rightarrow> string list \<Rightarrow> pg_load_env list \<Rightarrow> nat \<Rightarrow> loading
    \<Rightarrow> (pg_load_error, pg_load_env list) result option \<times> loading" where
  "load_waves w cfg plan key bounds [] start st = (None, st)"
| "load_waves w cfg plan key bounds (env # envs) start st =
     (if length (ranges_from_bounds bounds) \<le> start then
        (case pg_store env (ls_resumable (plc_scope cfg)) key \<lparr>lp_cursor = Ranges bounds (of_nat start), lp_finished = True\<rparr> st of
           (Inl e, st) \<Rightarrow> (Some (Inl e), st)
         | (Inr _, st) \<Rightarrow> (Some (Inr envs), st))
      else
        (case load_wave w cfg env plan key bounds start st of
           (None, st) \<Rightarrow> (None, st)
         | (Some (Inl e), st) \<Rightarrow> (Some (Inl e), st)
         | (Some (Inr start'), st) \<Rightarrow> load_waves w cfg plan key bounds envs start' st))"

subsection \<open>A table, and all of them\<close>

definition child_column :: "child_spec \<Rightarrow> pg_col_meta" where
  "child_column child = \<lparr>cm_name = cs_field child, cm_type_oid = 3802, cm_is_pk = False\<rparr>"

definition aggregate_column :: "aggregate_spec \<Rightarrow> pg_col_meta" where
  "aggregate_column agg = \<lparr>cm_name = as_field agg, cm_type_oid = 20, cm_is_pk = False\<rparr>"

definition claimed_fields :: "child_spec \<Rightarrow> string list" where
  "claimed_fields child = cs_field child # (if cs_max_rows child \<noteq> None then [truncated_field child, total_field child] else [])"

fun add_children :: "pg_load_world \<Rightarrow> string \<Rightarrow> child_spec list \<Rightarrow> pg_col_meta list \<Rightarrow> (pg_load_error, pg_col_meta list) result" where
  "add_children w qualified [] cols = Inr cols"
| "add_children w qualified (child # children) cols =
     (case List.find (\<lambda>name. name \<in> set (map cm_name cols)) (claimed_fields child) of
        Some name \<Rightarrow> Inl (LoadError (''[sync] child field '' @ pw_debug_str w name @ '' collides with a column of '' @ qualified
          @ ''; choose another field name''))
      | None \<Rightarrow> add_children w qualified children (cols @ [child_column child]))"

fun add_aggregates :: "pg_load_world \<Rightarrow> string \<Rightarrow> aggregate_spec list \<Rightarrow> pg_col_meta list \<Rightarrow> (pg_load_error, pg_col_meta list) result" where
  "add_aggregates w qualified [] cols = Inr cols"
| "add_aggregates w qualified (agg # aggs) cols =
     (if as_field agg \<in> set (map cm_name cols)
      then Inl (LoadError (''[sync] aggregate field '' @ pw_debug_str w (as_field agg) @ '' collides with a column of '' @ qualified
        @ ''; choose another field name''))
      else add_aggregates w qualified aggs (cols @ [aggregate_column agg]))"

definition single_key :: "pg_col_meta list \<Rightarrow> string option" where
  "single_key cols = (case map cm_name (filter cm_is_pk cols) of [key] \<Rightarrow> Some key | _ \<Rightarrow> None)"

definition table_plan :: "pg_load_world \<Rightarrow> pg_load_config \<Rightarrow> pg_load_env \<Rightarrow> sync_table \<Rightarrow> (pg_load_error, range_plan) result" where
  "table_plan w cfg env tbl =
     (let tab = split_qualified (sy_table tbl);
          child_specs = unwrap_or [] (map_of (plc_children cfg) tab);
          agg_specs = unwrap_or [] (map_of (plc_aggregates cfg) tab) in
      bindr (map_err LoadError (pe_columns env (sy_table tbl))) (\<lambda>data_cols.
      bindr (add_children w (sy_table tbl) child_specs data_cols) (\<lambda>cols.
      bindr (add_aggregates w (sy_table tbl) agg_specs cols) (\<lambda>cols.
        Inr \<lparr>rp_schema = fst tab, rp_table = snd tab, rp_qualified = sy_table tbl, rp_cols = cols, rp_data_cols = data_cols,
          rp_child_specs = child_specs, rp_agg_specs = agg_specs, rp_soft_delete = sy_soft_delete tbl, rp_pk_column = single_key cols,
          rp_append_only = sy_append_only tbl, rp_filter = ls_filter (plc_scope cfg),
          rp_table_filter = table_filter (plc_scope cfg) (sy_table tbl)\<rparr>))))"

text \<open>The progress to go on from: \<open>None\<close> is a table already loaded. A table met for the first time is cut, and the cut is
  stored.\<close>

definition start_progress :: "pg_load_config \<Rightarrow> pg_load_env \<Rightarrow> string \<Rightarrow> range_plan \<Rightarrow> loading
    \<Rightarrow> (pg_load_error, load_progress option) load_step" where
  "start_progress cfg env key plan st =
     (case (if ls_resumable (plc_scope cfg) then pe_read env key else Inr None) of
        Inl e \<Rightarrow> (Inl (LoadCore e), st)
      | Inr doc \<Rightarrow>
          (case Option.bind doc from_doc of
             Some p \<Rightarrow> (Inr (if lp_finished p then None else Some p), st)
           | None \<Rightarrow>
               ld_bind (key_bounds env (rp_qualified plan) (rp_cols plan) (max 1 (plc_chunk_rows cfg)), st) (\<lambda>bounds st.
               let p = \<lparr>lp_cursor = Ranges bounds 0, lp_finished = False\<rparr>
               in ld_bind (pg_store env (ls_resumable (plc_scope cfg)) key p st) (\<lambda>_ st. (Inr (Some p), st)))))"

text \<open>The next environment also answers for the columns, the cut and the stored progress of a table.\<close>

fun pg_load_tables :: "pg_load_world \<Rightarrow> pg_load_config \<Rightarrow> sync_table list \<Rightarrow> string list \<Rightarrow> pg_load_env list \<Rightarrow> loading
    \<Rightarrow> (pg_load_error, unit) result option \<times> loading" where
  "pg_load_tables w cfg [] keys envs st = (Some (Inr ()), clear_progress keys st)"
| "pg_load_tables w cfg (tbl # tbls) keys envs st =
     (if \<not> covers (plc_scope cfg) (sy_table tbl) then pg_load_tables w cfg tbls keys envs st
      else case envs of
        [] \<Rightarrow> (None, st)
      | env # _ \<Rightarrow>
          (case table_plan w cfg env tbl of
             Inl e \<Rightarrow> (Some (Inl e), st)
           | Inr plan \<Rightarrow>
               (let key = load_progress_key (pw_alnum w) (plc_stream cfg) (sy_table tbl);
                    keys = keys @ (if ls_resumable (plc_scope cfg) then [key] else []) in
                case start_progress cfg env key plan st of
                  (Inl e, st) \<Rightarrow> (Some (Inl e), st)
                | (Inr None, st) \<Rightarrow> pg_load_tables w cfg tbls keys envs st
                | (Inr (Some p), st) \<Rightarrow>
                    (case lp_cursor p of
                       After _ \<Rightarrow> (Some (Inl (LoadError (''load progress for '' @ sy_table tbl
                         @ '' was written by a loader that cuts the table differently; delete '' @ key @ '' from the target to start over''))), st)
                     | Ranges bounds first_range \<Rightarrow>
                         (case load_waves w cfg plan key bounds envs (unat first_range) st of
                            (None, st) \<Rightarrow> (None, st)
                          | (Some (Inl e), st) \<Rightarrow> (Some (Inl e), st)
                          | (Some (Inr envs), st) \<Rightarrow> pg_load_tables w cfg tbls keys envs st)))))"

definition pg_load :: "pg_load_world \<Rightarrow> pg_load_config \<Rightarrow> sync_table list \<Rightarrow> pg_load_env list \<Rightarrow> loading
    \<Rightarrow> (pg_load_error, unit) result option \<times> loading" where
  "pg_load w cfg tbls envs st = pg_load_tables w cfg tbls [] envs st"

end
