(* ===== verification/Pg_Load_Facts.thy ===== *)
theory Pg_Load_Facts
  imports Pg_Load Pg_Rows "HOL-Library.Multiset"
begin

section \<open>What the PostgreSQL load promises\<close>

text \<open>
  The ranges of a table share every key out once; a line of COPY reads back; where the network cuts the lines does not matter; a row
  loaded is the row streamed; progress follows the rows it speaks of; and a table is read whole by any number of readers.
\<close>

subsection \<open>Ranges\<close>

fun cut_at :: "string option \<Rightarrow> string list \<Rightarrow> key_range list" where
  "cut_at lo [] = [\<lparr>kr_from = lo, kr_to = None\<rparr>]"
| "cut_at lo (b # bs) = \<lparr>kr_from = lo, kr_to = Some b\<rparr> # cut_at (Some b) bs"

lemma cut_at_inner: "bs \<noteq> [] \<Longrightarrow>
  cut_at (Some a) bs = map (\<lambda>(a, b). \<lparr>kr_from = Some a, kr_to = Some b\<rparr>) (zip (a # bs) bs) @ [\<lparr>kr_from = Some (last bs), kr_to = None\<rparr>]"
  by (induction bs arbitrary: a rule: list_nonempty_induct) auto

lemma ranges_cut: "ranges_from_bounds bounds = cut_at None bounds"
proof (cases bounds)
  case (Cons b bs)
  then show ?thesis by (cases bs) (simp_all add: ranges_from_bounds_def cut_at_inner)
qed (simp add: ranges_from_bounds_def)

definition key_in_range :: "(string \<Rightarrow> 'a :: linorder) \<Rightarrow> 'a \<Rightarrow> key_range \<Rightarrow> bool" where
  "key_in_range lit key r \<longleftrightarrow> (case kr_from r of Some f \<Rightarrow> lit f \<le> key | None \<Rightarrow> True) \<and> (case kr_to r of Some t \<Rightarrow> key < lit t | None \<Rightarrow> True)"

lemma key_in_range_simps [simp]:
  "key_in_range lit key \<lparr>kr_from = lo, kr_to = hi\<rparr> \<longleftrightarrow>
     (case lo of Some f \<Rightarrow> lit f \<le> key | None \<Rightarrow> True) \<and> (case hi of Some t \<Rightarrow> key < lit t | None \<Rightarrow> True)"
  by (simp add: key_in_range_def)

lemma cut_at_shares:
  "sorted (map lit bs) \<Longrightarrow> (\<forall>b \<in> set bs. case lo of Some l \<Rightarrow> lit l \<le> lit b | None \<Rightarrow> True) \<Longrightarrow>
   length (filter (key_in_range lit key) (cut_at lo bs)) = (if case lo of Some l \<Rightarrow> lit l \<le> key | None \<Rightarrow> True then 1 else 0)"
proof (induction bs arbitrary: lo)
  case (Cons b bs)
  then have "length (filter (key_in_range lit key) (cut_at (Some b) bs)) = (if lit b \<le> key then 1 else 0)" by simp
  then show ?case using Cons.prems by (cases lo) auto
qed simp

text \<open>However a table is cut, every key lies in exactly one range, also at the boundaries and when one repeats.\<close>

theorem ranges_share_keys:
  assumes "sorted (map lit bounds)"
  shows "length (filter (key_in_range lit key) (ranges_from_bounds bounds)) = 1"
  using cut_at_shares [OF assms, of None key] by (simp add: ranges_cut)

theorem ranges_share_keys_witness: "length (filter (key_in_range length (2 :: nat)) (ranges_from_bounds [''a'', ''bb'', ''bb'', ''ccc''])) = 1"
  by (rule ranges_share_keys) simp

subsection \<open>Lines\<close>

text \<open>What the server writes for a field: these characters get a backslash, and the controls their letter.\<close>

definition copy_escape :: "char \<Rightarrow> string" where
  "copy_escape c =
     (if c = BACKSLASH then [BACKSLASH, BACKSLASH] else if c = TAB then [BACKSLASH, CHR ''t''] else if c = NEWLINE then [BACKSLASH, CHR ''n'']
      else if c = CHR 0x0D then [BACKSLASH, CHR ''r''] else if c = CHR 0x08 then [BACKSLASH, CHR ''b'']
      else if c = CHR 0x0B then [BACKSLASH, CHR ''v''] else if c = CHR 0x0C then [BACKSLASH, CHR ''f''] else [c])"

definition copy_field :: "bytes option \<Rightarrow> string" where
  "copy_field v = (case v of None \<Rightarrow> [BACKSLASH, CHR ''N''] | Some raw \<Rightarrow> concat (map copy_escape raw))"

definition copy_line :: "bytes option list \<Rightarrow> string" where
  "copy_line row = join [TAB] (map copy_field row)"

text \<open>The three controls whose letters the loader does not know.\<close>

definition plain_value :: "bytes option \<Rightarrow> bool" where
  "plain_value v \<longleftrightarrow> (case v of None \<Rightarrow> True | Some raw \<Rightarrow> CHR 0x08 \<notin> set raw \<and> CHR 0x0B \<notin> set raw \<and> CHR 0x0C \<notin> set raw)"

lemma char_consts [simp]: "BACKSLASH \<noteq> TAB" "TAB \<noteq> BACKSLASH" "BACKSLASH \<noteq> NEWLINE" "NEWLINE \<noteq> BACKSLASH" "TAB \<noteq> NEWLINE" "NEWLINE \<noteq> TAB"
  "BACKSLASH \<noteq> CHR ''N''" "BACKSLASH \<noteq> CHR ''t''"  "BACKSLASH \<noteq> CHR ''n''" "BACKSLASH \<noteq> CHR ''r''"
  by (simp_all add: BACKSLASH_def TAB_def NEWLINE_def)

lemma split_escaped: "split_fields cur False (concat (map copy_escape raw) @ rest) = split_fields (cur @ concat (map copy_escape raw)) False rest"
proof (induction raw arbitrary: cur)
  case (Cons c raw)
  have "split_fields cur False (copy_escape c @ more_text) = split_fields (cur @ copy_escape c) False more_text" for more_text
    by (auto simp: copy_escape_def)
  then show ?case by (simp add: Cons.IH)
qed simp

lemma split_field: "split_fields cur False (copy_field v @ rest) = split_fields (cur @ copy_field v) False rest"
  by (cases v) (simp_all add: copy_field_def split_escaped)

lemma unescape_escaped: "plain_value (Some raw) \<Longrightarrow> unescape_chars (concat (map copy_escape raw)) = raw"
proof (induction raw)
  case (Cons c raw)
  have "unescape_chars (copy_escape c @ rest) = c # unescape_chars rest" for rest
    using Cons.prems by (auto simp: copy_escape_def plain_value_def unescaped_def TAB_def NEWLINE_def BACKSLASH_def)
  then show ?case using Cons by (simp add: plain_value_def)
qed simp

lemma escaped_not_null: "concat (map copy_escape raw) \<noteq> [BACKSLASH, CHR ''N'']"
proof (cases raw)
  case (Cons c cs)
  then show ?thesis by (auto simp: copy_escape_def BACKSLASH_def TAB_def NEWLINE_def split: if_splits)
qed simp

lemma unescape_field: "plain_value v \<Longrightarrow> unescape_copy (copy_field v) = v"
  by (cases v) (simp_all add: unescape_copy_def copy_field_def unescape_escaped escaped_not_null)

lemma split_line: "row \<noteq> [] \<Longrightarrow> split_copy_line (copy_line row) = map copy_field row"
proof (induction row rule: list_nonempty_induct)
  case (single v)
  then show ?case using split_field [of "[]" v "[]"] by (simp add: split_copy_line_def copy_line_def)
next
  case (cons v row)
  then have "copy_line (v # row) = copy_field v @ TAB # copy_line row" by (cases row) (simp_all add: copy_line_def)
  then show ?case using cons split_field [of "[]" v "TAB # copy_line row"] by (simp add: split_copy_line_def)
qed

text \<open>The line the server writes for a row reads back as the row, whatever text, tabs, line ends, backslashes and NULL
  its values hold.\<close>

theorem copy_line_roundtrip:
  assumes "row \<noteq> []" "list_all plain_value row" "utf8_valid (copy_line row)"
  shows "copy_fields (copy_line row) = row"
proof -
  have "from_utf8_lossy (copy_line row) = copy_line row" using assms(3) by (rule utf8_valid_lossy)
  moreover have "map (\<lambda>v. unescape_copy (copy_field v)) row = row" using assms(2) by (induction row) (simp_all add: unescape_field)
  ultimately show ?thesis using assms(1) by (simp add: copy_fields_def split_line comp_def)
qed

theorem copy_line_roundtrip_witness:
  "copy_fields (copy_line [Some [CHR ''a'', TAB, BACKSLASH, CHR ''N''], None, Some []]) = [Some [CHR ''a'', TAB, BACKSLASH, CHR ''N''], None, Some []]"
  by (rule copy_line_roundtrip) code_simp+

text \<open>A vertical tab comes back as a letter, and a row of one column that holds the empty text is an empty line, which is skipped.\<close>

lemma vertical_tab_misread: "copy_fields (copy_line [Some [CHR ''a'', CHR 0x0B]]) = [Some ''av'']"
  by code_simp

lemma empty_row_skipped: "copy_line [Some []] = []" "line_events mk n [copy_line [Some []]] = ([], Inr n)"
  by code_simp (simp add: copy_line_def copy_field_def)

subsection \<open>Chunks of the network\<close>

lemma cut_lines_append:
  "cut_lines cur (a @ b) = (case cut_lines cur a of (l1, r1) \<Rightarrow> case cut_lines r1 b of (l2, r2) \<Rightarrow> (l1 @ l2, r2))"
  by (induction cur a rule: cut_lines.induct) (auto split: prod.splits)

lemma cut_lines_plain: "NEWLINE \<notin> set s \<Longrightarrow> cut_lines cur s = ([], cur @ s)"
  by (induction cur s rule: cut_lines.induct) auto

lemma cut_lines_rest: "NEWLINE \<notin> set cur \<Longrightarrow> NEWLINE \<notin> set (snd (cut_lines cur s))"
  by (induction cur s rule: cut_lines.induct) (auto split: prod.splits)

lemma line_events_append:
  "line_events mk n (a @ b) =
     (case line_events mk n a of
        (evs, Inl e) \<Rightarrow> (evs, Inl e)
      | (evs, Inr m) \<Rightarrow> (case line_events mk m b of (evs', r) \<Rightarrow> (evs @ evs', r)))"
  by (induction mk n a rule: line_events.induct) (auto split: prod.splits sum.splits)

lemma chunk_events_lines:
  "NEWLINE \<notin> set pending \<Longrightarrow> chunk_events mk n pending chunks None = line_events mk n (fst (cut_lines pending (concat chunks)))"
proof (induction chunks arbitrary: n pending)
  case (Cons chunk chunks)
  obtain lines rest where cut: "cut_lines pending chunk = (lines, rest)" by (cases "cut_lines pending chunk")
  then have rest: "NEWLINE \<notin> set rest" using cut_lines_rest [OF Cons.prems, of chunk] by simp
  have "cut_lines [] (pending @ chunk) = (lines, rest)"
    using cut by (simp add: cut_lines_append cut_lines_plain [OF Cons.prems])
  moreover have "fst (cut_lines pending (concat (chunk # chunks))) = lines @ fst (cut_lines rest (concat chunks))"
    by (simp add: cut_lines_append cut split: prod.split)
  ultimately show ?case
    using Cons.IH [OF rest] by (auto simp: line_events_append split: prod.split sum.split)
qed simp

text \<open>Where the network cuts what the server sends does not matter.\<close>

lemma chunks_do_not_matter:
  "concat chunks = concat chunks' \<Longrightarrow> chunk_events mk n [] chunks None = chunk_events mk n [] chunks' None"
  by (simp add: chunk_events_lines)

subsection \<open>A row loaded is the row streamed\<close>

definition tuple_of :: "bytes option list \<Rightarrow> tuple" where
  "tuple_of row = map (\<lambda>v. case v of None \<Rightarrow> TNull | Some raw \<Rightarrow> TText raw) row"

definition plan_matches :: "relation \<Rightarrow> string list option \<Rightarrow> pg_col_meta list \<Rightarrow> bool" where
  "plan_matches rel keys cols \<longleftrightarrow>
     map (\<lambda>c. (cm_name c, cm_type_oid c, cm_is_pk c)) cols = map (\<lambda>c. (rc_name c, rc_type_oid c, is_key rel keys c)) (rl_columns rel)"

lemma tuple_get_of: "tuple_get (tuple_of row) i = (if i < length row then Some (case row ! i of None \<Rightarrow> TNull | Some raw \<Rightarrow> TText raw) else None)"
  by (simp add: tuple_get_def tuple_of_def)

lemma loaded_row_values:
  assumes "\<And>oid. conv oid None = Inr JNull"
  shows "map (\<lambda>c. (cm_name c, cm_type_oid c, cm_is_pk c)) cols = map (\<lambda>c. (rc_name c, rc_type_oid c, is_key rel keys c)) rcols \<Longrightarrow>
    i + length cols = length row \<Longrightarrow> doc_values conv rel None (tuple_of row) i rcols = Inr (kvs, toast) \<Longrightarrow>
    \<exists>vals. mapr (\<lambda>(i, col). bindr (map_err (LoadColumn (cm_name col)) (conv (cm_type_oid col) (field_at row i))) (\<lambda>v. Inr (col, v))) (enumerate i cols) = Inr vals \<and>
      kvs = map (\<lambda>(col, v). (cm_name col, v)) vals \<and> map fst vals = cols \<and>
      key_values conv rel keys (tuple_of row) i rcols =
        Inr (List.map_filter (\<lambda>(col, v). if cm_is_pk col then Some (cm_name col, v) else None) vals)"
proof (induction cols arbitrary: i rcols kvs toast)
  case Nil
  then show ?case by (simp add: List.map_filter_def)
next
  case (Cons col cols)
  then obtain rcol rest where rcols: "rcols = rcol # rest" and head: "cm_name col = rc_name rcol" "cm_type_oid col = rc_type_oid rcol"
      "cm_is_pk col = is_key rel keys rcol"
    and tail: "map (\<lambda>c. (cm_name c, cm_type_oid c, cm_is_pk c)) cols = map (\<lambda>c. (rc_name c, rc_type_oid c, is_key rel keys c)) rest"
    by (cases rcols) auto
  have i: "i < length row" "Suc i + length cols = length row" using Cons.prems(2) by simp_all
  have cell: "tuple_get (tuple_of row) i = Some (case row ! i of None \<Rightarrow> TNull | Some raw \<Rightarrow> TText raw)" "field_at row i = row ! i"
    using i(1) by (simp_all add: tuple_get_of field_at_def)
  obtain v kvs' toast' where v: "conv (rc_type_oid rcol) (row ! i) = Inr v" and kvs: "kvs = (rc_name rcol, v) # kvs'"
    and docs: "doc_values conv rel None (tuple_of row) (Suc i) rest = Inr (kvs', toast')"
    using Cons.prems(3) rcols cell(1) assms
    by (cases "row ! i") (auto simp: bindr_Inr_iff convert_column_def map_err_def split: sum.splits prod.splits)
  obtain vals where vals: "mapr (\<lambda>(i, col). bindr (map_err (LoadColumn (cm_name col)) (conv (cm_type_oid col) (field_at row i))) (\<lambda>v. Inr (col, v)))
      (enumerate (Suc i) cols) = Inr vals" "kvs' = map (\<lambda>(col, v). (cm_name col, v)) vals" "map fst vals = cols"
      "key_values conv rel keys (tuple_of row) (Suc i) rest =
        Inr (List.map_filter (\<lambda>(col, v). if cm_is_pk col then Some (cm_name col, v) else None) vals)"
    using Cons.IH [OF tail i(2) docs] by blast
  have key: "key_values conv rel keys (tuple_of row) i rcols =
      Inr (List.map_filter (\<lambda>(col, v). if cm_is_pk col then Some (cm_name col, v) else None) ((col, v) # vals))"
    using vals(4) rcols head cell v
    by (cases "row ! i") (auto simp: List.map_filter_simps bindr_def convert_column_def map_err_def assms)
  show ?case
    by (rule exI [of _ "(col, v) # vals"]) (use vals kvs head cell v key in \<open>simp add: bindr_def map_err_def\<close>)
qed

lemma extend_single:
  assumes "bt_extend [] vs = [(k, v)]" "distinct (map fst vs)"
  shows "vs = [(k, v)]"
proof -
  have get: "map_of [(k, v)] = map_of (rev vs)" using bt_get_extend_Nil [of vs] assms(1) by (simp add: bt_get_def fun_eq_iff)
  then have "dom (map_of (rev vs)) = {k}" by (simp flip: get)
  then have keys: "set (map fst vs) = {k}" by (simp add: dom_map_of_conv_image_fst)
  then have "length (map fst vs) = 1" using distinct_card [OF assms(2)] by simp
  then obtain x where "vs = [x]" by (cases vs) (auto simp: length_Suc_conv)
  then show ?thesis using get keys by (cases x) (auto dest: fun_cong [of _ _ k])
qed

lemma loaded_key:
  assumes "distinct (map fst vs)" "vs \<noteq> []"
  shows "(case bt_extend [] vs of [] \<Rightarrow> r | [(_, v)] \<Rightarrow> Inr v | _ \<Rightarrow> Inr (JObject (bt_extend [] vs))) =
    Inr (if length (bt_extend [] vs) = 1 then snd (hd vs) else JObject (bt_extend [] vs))"
proof (cases "bt_extend [] vs" rule: list.exhaust)
  case Nil
  then show ?thesis using assms(2) by (simp add: bt_extend_eq_Nil)
next
  case (Cons p ps)
  then show ?thesis using extend_single [OF _ assms(1), of "fst p" "snd p"] by (cases p; cases ps) auto
qed

lemma filtered_keys:
  "map fst (List.map_filter (\<lambda>(col, v). if P col then Some (cm_name col, v) else None) vals) = map cm_name (filter P (map fst vals))"
  by (induction vals) (auto simp: List.map_filter_simps)

lemma loaded_change_as_streamed:
  assumes "\<And>oid. conv oid None = Inr JNull" "plan_matches rel keys cols" "length row = length cols" "distinct (map cm_name cols)"
    and streamed: "build_row_change conv rel (InInsert (tuple_of row)) keys append_only = Inr change"
  shows "pg_build_change conv (rl_schema rel) (rl_name rel) cols row version [] append_only = Inr (change\<lparr>rc_version := version\<rparr>)"
proof -
  obtain pk doc toast where pk: "(if append_only then Inr JNull else extract_pk conv rel (tuple_of row) keys) = Inr pk"
    and doc: "build_doc conv rel (tuple_of row) None = Inr (doc, toast)"
    and change: "change = \<lparr>rc_schema = rl_schema rel, rc_table = rl_name rel, rc_kind = Insert pk doc, rc_version = None\<rparr>"
    using streamed by (auto simp: build_row_change_def insert_kind_def bindr_Inr_iff Let_def map_sum_def split: sum.splits)
  obtain kvs where kvs: "doc_values conv rel None (tuple_of row) 0 (rl_columns rel) = Inr (kvs, toast)" "doc = JObject (bt_extend [] kvs)"
    using doc by (auto simp: build_doc_def bindr_Inr_iff)
  obtain vals where vals: "pg_row_values conv cols row = Inr vals" "kvs = map (\<lambda>(col, v). (cm_name col, v)) vals" "map fst vals = cols"
      "key_values conv rel keys (tuple_of row) 0 (rl_columns rel) =
        Inr (List.map_filter (\<lambda>(col, v). if cm_is_pk col then Some (cm_name col, v) else None) vals)"
    using loaded_row_values [of conv cols rel keys "rl_columns rel" 0 row kvs toast] assms(1-3) kvs(1)
    by (auto simp: plan_matches_def pg_row_values_def)
  show ?thesis
  proof (cases append_only)
    case True
    then have "List.map_filter (\<lambda>(col, v). if cm_is_pk col \<and> \<not> append_only then Some (cm_name col, v) else None) vals = []"
      by (induction vals) (auto simp: List.map_filter_simps)
    then show ?thesis using True vals kvs pk change by (simp add: pg_build_change_def bt_extend_def)
  next
    case False
    let ?vs = "List.map_filter (\<lambda>(col, v). if cm_is_pk col then Some (cm_name col, v) else None) vals"
    have distinct: "distinct (map fst ?vs)" using assms(4) by (simp add: filtered_keys vals(3) distinct_map_filter)
    have key: "bt_extend [] ?vs \<noteq> []" "pk = (if length (bt_extend [] ?vs) = 1 then snd (hd ?vs) else JObject (bt_extend [] ?vs))"
      using pk False vals(4) by (auto simp: extract_pk_def Let_def split: if_splits)
    then have "?vs \<noteq> []" by (auto simp: bt_extend_eq_Nil)
    then show ?thesis using False vals kvs key change by (simp add: pg_build_change_def loaded_key [OF distinct])
  qed
qed


definition sample_plan :: range_plan where
  "sample_plan = \<lparr>rp_schema = ''public'', rp_table = ''docs'', rp_qualified = ''public.docs'',
     rp_cols = [\<lparr>cm_name = ''id'', cm_type_oid = 23, cm_is_pk = True\<rparr>, \<lparr>cm_name = ''body'', cm_type_oid = 25, cm_is_pk = False\<rparr>],
     rp_data_cols = [\<lparr>cm_name = ''id'', cm_type_oid = 23, cm_is_pk = True\<rparr>, \<lparr>cm_name = ''body'', cm_type_oid = 25, cm_is_pk = False\<rparr>],
     rp_child_specs = [], rp_agg_specs = [], rp_soft_delete = None, rp_pk_column = Some ''id'', rp_append_only = False,
     rp_filter = None, rp_table_filter = None\<rparr>"


subsection \<open>Progress after rows\<close>

lemma run_wave_keeps: "unbroken st \<Longrightarrow> unbroken (snd (run_wave turns rs st))"
proof (induction turns rs st rule: run_wave.induct)
  case (2 i turns rs st)
  show ?case
  proof (cases "length rs \<le> i")
    case False
    obtain evs r where rs: "rs ! i = (evs, r)" by (cases "rs ! i")
    show ?thesis
    proof (cases evs)
      case Nil
      then show ?thesis using False 2 rs by (cases r) auto
    next
      case (Cons ev rest)
      obtain x st1 where sent: "send_or (LoadError ''engine closed during backfill'') ev st = (x, st1)" by (metis surj_pair)
      then have "unbroken st1" using send_or_keeps [OF "2.prems", of "LoadError ''engine closed during backfill''" ev] by (cases x) simp_all
      then show ?thesis using False "2.IH"(3) [OF False rs [symmetric] Cons sent [symmetric]] rs Cons sent by (cases x) auto
    qed
  qed (use 2 in simp)
qed simp

lemma pg_store_settles: "settled st \<Longrightarrow> ends_in (\<lambda>_. settled) (pg_store env resumable key p st)"
  by (auto simp: pg_store_def settled_def unbroken_def scanned_effect split: sum.split)

lemma close_wave_settles: "unbroken st \<Longrightarrow> ends_in (\<lambda>_. settled) (close_wave env resumable key bounds n st)"
proof -
  assume ok: "unbroken st"
  obtain mark marks where next_mark: "mark_next (ld_marks st) = (mark, marks)" by (cases "mark_next (ld_marks st)")
  have mark: "ends_in (\<lambda>_ st. \<exists>d. scanned st = Some (d, Some mark)) (send_or e (LoadMark mark) (st\<lparr>ld_marks := marks\<rparr>))" for e :: pg_load_error
    using ok by (auto simp: send_or_def unbroken_def scanned_effect)
  show ?thesis
    unfolding close_wave_def next_mark prod.case
    by (rule ends_bind [OF mark]) (auto simp: scanned_effect settled_def unbroken_def intro!: pg_store_settles)
qed

lemma load_wave_settles:
  assumes "settled st" "load_wave w cfg env plan key bounds start st = (r, st')"
  shows "unbroken st' \<and> (\<forall>n. r = Some (Inr n) \<longrightarrow> settled st')"
proof (cases "wait_for_slot_room w (plc_slot cfg) (pe_pressure env)")
  case None
  then show ?thesis using assms by (auto simp: load_wave_def settled_unbroken)
next
  case (Some room)
  show ?thesis
  proof (cases room)
    case (Inl e)
    then show ?thesis using Some assms by (auto simp: load_wave_def settled_unbroken)
  next
    case (Inr u)
    let ?wave = "take (readers_of cfg) (drop start (ranges_from_bounds bounds))"
    obtain x st1 where wave: "run_wave (pe_schedule env) (wave_outputs w env plan ?wave) st = (x, st1)" by (metis surj_pair)
    have ok: "unbroken st1" using run_wave_keeps [OF settled_unbroken [OF assms(1)], of "pe_schedule env" "wave_outputs w env plan ?wave"] wave by simp
    show ?thesis
    proof (cases "\<exists>rows. x = Some (Inr rows)")
      case True
      then obtain rows where rows: "x = Some (Inr rows)" by blast
      let ?close = "close_wave env (ls_resumable (plc_scope cfg)) key bounds (start + length ?wave) st1"
      have ends: "ends_in (\<lambda>_. settled) ?close" by (rule close_wave_settles [OF ok])
      obtain y st2 where close: "?close = (y, st2)" by (metis surj_pair)
      show ?thesis
        using assms(2) Some Inr wave rows close ends by (cases y) (auto simp: load_wave_def Let_def settled_unbroken)
    next
      case False
      then show ?thesis using assms(2) Some Inr wave ok by (cases x) (auto simp: load_wave_def Let_def split: sum.splits)
    qed
  qed
qed

lemma load_waves_settle:
  assumes "settled st" "load_waves w cfg plan key bounds envs start st = (r, st')"
  shows "unbroken st' \<and> (\<forall>rest. r = Some (Inr rest) \<longrightarrow> settled st')"
  using assms
proof (induction envs arbitrary: start st)
  case (Cons env envs)
  show ?case
  proof (cases "length (ranges_from_bounds bounds) \<le> start")
    case True
    let ?store = "pg_store env (ls_resumable (plc_scope cfg)) key \<lparr>lp_cursor = Ranges bounds (of_nat start), lp_finished = True\<rparr> st"
    have ends: "ends_in (\<lambda>_. settled) ?store" by (rule pg_store_settles [OF Cons.prems(1)])
    obtain y st1 where store: "?store = (y, st1)" by (metis surj_pair)
    then show ?thesis using True Cons.prems(2) ends by (cases y) (auto simp: settled_unbroken)
  next
    case False
    obtain y st1 where wave: "load_wave w cfg env plan key bounds start st = (y, st1)" by (metis surj_pair)
    note ok = load_wave_settles [OF Cons.prems(1) wave]
    show ?thesis
    proof (cases "\<exists>n. y = Some (Inr n)")
      case True
      then obtain n where n: "y = Some (Inr n)" by blast
      then show ?thesis using False Cons.prems(2) wave ok Cons.IH [of st1 n] by simp
    next
      case failed: False
      then show ?thesis using False Cons.prems(2) wave ok by (cases y) (auto split: sum.splits)
    qed
  qed
qed (auto simp: settled_unbroken)

lemma start_progress_settles: "settled st \<Longrightarrow> ends_in (\<lambda>_. settled) (start_progress cfg env key plan st)"
  by (auto simp: start_progress_def Let_def settled_unbroken intro!: ends_bind [OF ends_pure [where P = "\<lambda>_. settled"]] ends_bind [OF pg_store_settles]
      split: sum.split option.split)

lemma pg_load_tables_unbroken: "settled st \<Longrightarrow> unbroken (snd (pg_load_tables w cfg tbls keys envs st))"
proof (induction tbls arbitrary: keys envs st)
  case Nil
  then show ?case by (simp add: cleared_unbroken)
next
  case (Cons tbl tbls)
  show ?case
  proof (cases "covers (plc_scope cfg) (sy_table tbl) \<and> envs \<noteq> []")
    case False
    then show ?thesis using Cons by (auto simp: settled_unbroken)
  next
    case True
    then obtain env rest where envs: "envs = env # rest" by (cases envs) auto
    note cov = True [THEN conjunct1]
    show ?thesis
    proof (cases "table_plan w cfg env tbl")
      case (Inl e)
      then show ?thesis using cov envs Cons.prems by (simp add: settled_unbroken)
    next
      case (Inr plan)
      define key where "key = load_progress_key (pw_alnum w) (plc_stream cfg) (sy_table tbl)"
      obtain x st1 where started: "start_progress cfg env key plan st = (x, st1)" by (metis surj_pair)
      have ends: "ends_in (\<lambda>_. settled) (x, st1)" using start_progress_settles [OF Cons.prems, of cfg env key plan] started by simp
      show ?thesis
      proof (cases x)
        case (Inl e)
        then show ?thesis using cov envs Inr started ends by (simp add: Let_def flip: key_def)
      next
        case p: (Inr po)
        have st1: "settled st1" using ends p by simp
        show ?thesis
        proof (cases po)
          case None
          then show ?thesis using cov envs Inr started p Cons.IH [OF st1] by (simp add: Let_def flip: key_def)
        next
          case (Some p')
          show ?thesis
          proof (cases "lp_cursor p'")
            case (After k)
            then show ?thesis using cov envs Inr started p Some st1 by (simp add: Let_def settled_unbroken flip: key_def)
          next
            case (Ranges bounds first_range)
            obtain y st2 where waves: "load_waves w cfg plan key bounds envs (unat first_range) st1 = (y, st2)" by (metis surj_pair)
            note ok = load_waves_settle [OF st1 waves]
            show ?thesis
            proof (cases "\<exists>rest. y = Some (Inr rest)")
              case True
              then show ?thesis using cov envs Inr started p Some Ranges waves ok Cons.IH by (auto simp: Let_def simp flip: key_def)
            next
              case False
              then show ?thesis using cov envs Inr started p Some Ranges waves ok
                by (cases y) (auto simp: Let_def simp flip: key_def split: sum.splits)
            qed
          qed
        qed
      qed
    qed
  qed
qed

text \<open>C25. Whatever the server, the readers, the engine and the store answer, however the readers of a wave interleave, and wherever the
  load stops: ranges are stored as done, and progress is removed at the end, only when every row sent until then was confirmed as
  written by a mark sent after it.\<close>

theorem pg_progress_follows_written_rows:
  "load_scan (False, None) (ld_trace (snd (pg_load w cfg tbls envs (loading_start room marks)))) \<noteq> None"
proof -
  have "settled (loading_start room marks)" by (simp add: settled_def scanned_def loading_start_def)
  then have "unbroken (snd (pg_load w cfg tbls envs (loading_start room marks)))" by (simp add: pg_load_def pg_load_tables_unbroken)
  then show ?thesis by (simp add: unbroken_def scanned_def)
qed

subsection \<open>A whole table\<close>

definition event_docs :: "change_event list \<Rightarrow> (json \<times> json) list" where
  "event_docs evs = List.map_filter (\<lambda>ev. case ev of Row r \<Rightarrow> (case rc_kind r of Insert pk doc \<Rightarrow> Some (doc, pk) | _ \<Rightarrow> None) | _ \<Rightarrow> None) evs"

lemma event_docs_simps [simp]:
  "event_docs [] = []" "event_docs (a @ b) = event_docs a @ event_docs b"
  "event_docs (ev # evs) = (case ev of Row r \<Rightarrow> (case rc_kind r of Insert pk doc \<Rightarrow> [(doc, pk)] | _ \<Rightarrow> []) | _ \<Rightarrow> []) @ event_docs evs"
  by (auto simp: event_docs_def List.map_filter_def split: change_event.split row_kind.split)

lemma sent_docs_event: "sent_docs (record_effect (Sent ev) st) = sent_docs st @ event_docs [ev]"
  by (simp add: sent_docs_effect split: change_event.split row_kind.split)

definition ready :: "range_output \<Rightarrow> bool" where
  "ready out \<longleftrightarrow> \<not> isl (snd out)"

lemma finished_rows_all: "\<forall>out \<in> set rs. fst out = [] \<and> ready out \<Longrightarrow> finished_rows rs \<noteq> None"
proof (induction rs)
  case (Cons r rs)
  then show ?case by (cases r; cases "snd r") (auto simp: ready_def)
qed simp

text \<open>With a turn for everything a reader has to send, a wave ends with all of it sent, in whatever order.\<close>

lemma run_wave_fair:
  assumes "\<forall>i < length rs. length (fst (rs ! i)) \<le> count_list turns i" "list_all ready rs" "sum_list (map (\<lambda>out. length (fst out)) rs) \<le> ld_room st"
  shows "\<exists>n st'. run_wave turns rs st = (Some (Inr n), st') \<and> ld_room st' = ld_room st - sum_list (map (\<lambda>out. length (fst out)) rs) \<and>
    mset (sent_docs st') = mset (sent_docs st) + mset (concat (map (\<lambda>out. event_docs (fst out)) rs))"
  using assms
proof (induction turns arbitrary: rs st)
  case Nil
  then have done_all: "\<forall>out \<in> set rs. fst out = []" by (metis count_list.simps(1) in_set_conv_nth le_zero_eq length_0_conv)
  then have none: "sum_list (map (\<lambda>out. length (fst out)) rs) = 0" "concat (map (\<lambda>out. event_docs (fst out)) rs) = []"
    by (simp_all add: sum_list_eq_0_iff)
  have "finished_rows rs \<noteq> None" using done_all Nil.prems(2) by (intro finished_rows_all) (simp add: list_all_iff)
  then show ?case by (auto simp: none simp del: sum_list_eq_0_iff concat_eq_Nil_conv)
next
  case (Cons i turns)
  show ?case
  proof (cases "i < length rs \<and> fst (rs ! i) \<noteq> []")
    case False
    have "i < length rs \<Longrightarrow> \<not> isl (snd (rs ! i))" using Cons.prems(2) by (simp add: list_all_length ready_def)
    then have skip: "run_wave (i # turns) rs st = run_wave turns rs st"
      using False by (cases "rs ! i"; cases "snd (rs ! i)") auto
    have "\<forall>j < length rs. length (fst (rs ! j)) \<le> count_list turns j"
    proof (intro allI impI)
      fix j
      assume "j < length rs"
      then show "length (fst (rs ! j)) \<le> count_list turns j" using Cons.prems(1) False by (cases "j = i") auto
    qed
    then show ?thesis using Cons.IH [OF _ Cons.prems(2,3)] skip by simp
  next
    case True
    then obtain ev evs r where out: "rs ! i = (ev # evs, r)" by (cases "rs ! i"; cases "fst (rs ! i)") auto
    let ?rs = "rs[i := (evs, r)]"
    define st1 where "st1 = (record_effect (Sent ev) st)\<lparr>ld_room := ld_room st - 1\<rparr>"
    have split: "rs = take i rs @ (ev # evs, r) # drop (Suc i) rs" "?rs = take i rs @ (evs, r) # drop (Suc i) rs"
      using True out id_take_nth_drop [of i rs] by (simp_all add: upd_conv_take_nth_drop)
    have sum: "sum_list (map (\<lambda>out. length (fst out)) rs) = Suc (sum_list (map (\<lambda>out. length (fst out)) ?rs))"
      by (subst split(1), subst split(2)) simp
    have docs: "mset (concat (map (\<lambda>out. event_docs (fst out)) rs)) = mset (event_docs [ev]) + mset (concat (map (\<lambda>out. event_docs (fst out)) ?rs))"
      by (subst split(1), subst split(2)) simp
    have room: "0 < ld_room st" using Cons.prems(3) sum by simp
    have step: "run_wave (i # turns) rs st = run_wave turns ?rs st1"
      using True out room by (simp add: send_or_def st1_def)
    have fair: "\<forall>j < length ?rs. length (fst (?rs ! j)) \<le> count_list turns j"
    proof (intro allI impI)
      fix j
      assume "j < length ?rs"
      then show "length (fst (?rs ! j)) \<le> count_list turns j" using Cons.prems(1) out by (cases "j = i") (auto simp: nth_list_update)
    qed
    have ready: "list_all ready ?rs" using Cons.prems(2) out True by (auto simp: list_all_length nth_list_update ready_def)
    have st1: "ld_room st1 = ld_room st - 1" "sent_docs st1 = sent_docs st @ event_docs [ev]"
      by (simp add: st1_def record_effect_def, simp add: st1_def sent_docs_event)
    then have "sum_list (map (\<lambda>out. length (fst out)) ?rs) \<le> ld_room st1" using Cons.prems(3) sum by linarith
    from Cons.IH [OF fair ready this] obtain n st' where "run_wave turns ?rs st1 = (Some (Inr n), st')"
        "ld_room st' = ld_room st1 - sum_list (map (\<lambda>out. length (fst out)) ?rs)"
        "mset (sent_docs st') = mset (sent_docs st1) + mset (concat (map (\<lambda>out. event_docs (fst out)) ?rs))"
      by blast
    then show ?thesis using step st1 sum docs by (intro exI [of _ n] exI [of _ st']) simp
  qed
qed

lemma shared_out:
  assumes "\<And>r. r \<in> set rows \<Longrightarrow> length (filter (\<lambda>rng. P rng r) ranges) = 1"
  shows "mset (concat (map (\<lambda>rng. filter (P rng) rows) ranges)) = mset rows"
  using assms
proof (induction rows)
  case Nil
  then show ?case by (induction ranges) simp_all
next
  case (Cons r rows)
  have "mset (concat (map (\<lambda>rng. filter (P rng) (r # rows)) ranges)) =
      replicate_mset (length (filter (\<lambda>rng. P rng r) ranges)) r + mset (concat (map (\<lambda>rng. filter (P rng) rows) ranges))"
    by (induction ranges) (simp_all add: ac_simps)
  then show ?case using Cons by simp
qed

lemma copy_line_one_line: "NEWLINE \<notin> set (copy_line row)"
proof -
  have "NEWLINE \<notin> set (copy_escape c)" for c by (auto simp: copy_escape_def NEWLINE_def BACKSLASH_def TAB_def)
  then have "NEWLINE \<notin> set (copy_field v)" for v by (cases v) (auto simp: copy_field_def NEWLINE_def BACKSLASH_def)
  then show ?thesis unfolding copy_line_def
  proof (induction row)
    case (Cons v row)
    then show ?case by (cases row) (simp_all add: NEWLINE_def TAB_def)
  qed simp
qed

lemma cut_whole_lines: "\<forall>l \<in> set ls. NEWLINE \<notin> set l \<Longrightarrow> cut_lines [] (concat (map (\<lambda>l. l @ [NEWLINE]) ls)) = (ls, [])"
proof (induction ls)
  case (Cons l ls)
  then have one: "cut_lines [] (l @ [NEWLINE]) = ([l], [])" and rest: "cut_lines [] (concat (map (\<lambda>l. l @ [NEWLINE]) ls)) = (ls, [])"
    by (simp_all add: cut_lines_append cut_lines_plain)
  have "cut_lines [] ((l @ [NEWLINE]) @ concat (map (\<lambda>l. l @ [NEWLINE]) ls)) = ([l] @ ls, [])"
    by (simp only: cut_lines_append [of "[]" "l @ [NEWLINE]"] one rest prod.case)
  then show ?case by simp
qed simp

lemma line_events_rows:
  assumes "\<And>row. row \<in> set rows \<Longrightarrow> copy_line row \<noteq> [] \<and> (\<exists>c. mk (copy_line row) = Inr c \<and> rc_kind c = Insert (snd (doc_of row)) (fst (doc_of row)))"
  shows "\<exists>evs m. line_events mk n (map copy_line rows) = (evs, Inr m) \<and> event_docs evs = map doc_of rows \<and> length evs \<le> 2 * length rows"
  using assms
proof (induction rows arbitrary: n)
  case (Cons row rows)
  obtain c where c: "copy_line row \<noteq> []" "mk (copy_line row) = Inr c" "rc_kind c = Insert (snd (doc_of row)) (fst (doc_of row))"
    using Cons.prems [of row] by auto
  obtain evs m where "line_events mk (n + 1) (map copy_line rows) = (evs, Inr m)" "event_docs evs = map doc_of rows" "length evs \<le> 2 * length rows"
    using Cons.IH [of "n + 1"] Cons.prems by auto
  then show ?case using c by (auto simp: load_boundary_def)
qed simp

definition range_rows :: "(string \<Rightarrow> 'a :: linorder) \<Rightarrow> (bytes option list \<Rightarrow> 'a) \<Rightarrow> bytes option list list \<Rightarrow> key_range \<Rightarrow> bytes option list list" where
  "range_rows lit key rows rng = filter (\<lambda>row. key_in_range lit (key row) rng) rows"

text \<open>A server, readers, an engine and a store that do their part for a wave: the slot has room, every reader answers the statement
  of a range with the lines of the rows in it, cut anywhere, and has turns enough.\<close>

definition pg_serves :: "pg_load_world \<Rightarrow> pg_load_config \<Rightarrow> range_plan \<Rightarrow> string list \<Rightarrow> (string \<Rightarrow> 'a :: linorder) \<Rightarrow> (bytes option list \<Rightarrow> 'a)
    \<Rightarrow> bytes option list list \<Rightarrow> pg_load_env \<Rightarrow> bool" where
  "pg_serves w cfg plan bounds lit key rows env \<longleftrightarrow>
     wait_for_slot_room w (plc_slot cfg) (pe_pressure env) = Some (Inr ()) \<and> pe_written env \<and> (\<forall>k doc. pe_store env k doc = Inr ()) \<and>
     (\<forall>i < readers_of cfg. 2 * length rows \<le> count_list (pe_schedule env) i \<and> (\<exists>txt. rd_lsn (pe_readers env i) = Inr txt) \<and>
       list_all (\<lambda>rng. \<exists>chunks. rd_copy (pe_readers env i) (range_statement w plan rng) = Inr (chunks, None) \<and>
         concat chunks = concat (map (\<lambda>row. copy_line row @ [NEWLINE]) (range_rows lit key rows rng))) (ranges_from_bounds bounds))"

definition row_reads :: "pg_load_world \<Rightarrow> range_plan \<Rightarrow> (bytes option list \<Rightarrow> json \<times> json) \<Rightarrow> bytes option list \<Rightarrow> bool" where
  "row_reads w plan doc_of row \<longleftrightarrow> copy_line row \<noteq> [] \<and>
     (\<forall>version. \<exists>c. line_change w plan version (copy_line row) = Inr c \<and> rc_kind c = Insert (snd (doc_of row)) (fst (doc_of row)))"

lemma read_range_rows:
  assumes "pg_serves w cfg plan bounds lit key rows env" "i < readers_of cfg" "rng \<in> set (ranges_from_bounds bounds)" "list_all (row_reads w plan doc_of) rows"
  shows "\<exists>evs m. read_range w plan (pe_readers env i) rng = (evs, Inr m) \<and> event_docs evs = map doc_of (range_rows lit key rows rng) \<and>
    length evs \<le> 2 * length (range_rows lit key rows rng)"
proof -
  let ?rows = "range_rows lit key rows rng"
  have served: "(\<exists>r. rd_lsn (pe_readers env i) = Inr r) \<and> (\<exists>chunks. rd_copy (pe_readers env i) (range_statement w plan rng) = Inr (chunks, None) \<and>
      concat chunks = concat (map (\<lambda>row. copy_line row @ [NEWLINE]) ?rows))"
    using assms(1-3) unfolding pg_serves_def list_all_iff by blast
  obtain reported where lsn: "rd_lsn (pe_readers env i) = Inr reported" using served by blast
  obtain chunks where copy: "rd_copy (pe_readers env i) (range_statement w plan rng) = Inr (chunks, None)"
      "concat chunks = concat (map (\<lambda>row. copy_line row @ [NEWLINE]) ?rows)"
    using served by blast
  define version where "version = (case lsn_from_str reported of Inr l \<Rightarrow> Some (lsn_val l) | Inl _ \<Rightarrow> None)"
  have "fst (cut_lines [] (concat chunks)) = map copy_line ?rows"
    using cut_whole_lines [of "map copy_line ?rows"] copy_line_one_line by (simp add: copy(2) comp_def)
  then have "read_range w plan (pe_readers env i) rng = line_events (line_change w plan version) 0 (map copy_line ?rows)"
    using lsn copy(1) by (simp add: read_range_def current_lsn_def version_def chunk_events_lines)
  then show ?thesis
    using line_events_rows [of ?rows "line_change w plan version" doc_of 0] assms(4) by (force simp: range_rows_def list_all_iff row_reads_def)
qed

lemma wave_outputs_rows:
  assumes "pg_serves w cfg plan bounds lit key rows env" "list_all (row_reads w plan doc_of) rows"
    and "length wave \<le> readers_of cfg" "set wave \<subseteq> set (ranges_from_bounds bounds)"
  shows "list_all ready (wave_outputs w env plan wave)"
    and "map (\<lambda>out. event_docs (fst out)) (wave_outputs w env plan wave) = map (\<lambda>rng. map doc_of (range_rows lit key rows rng)) wave"
    and "\<forall>i < length wave. length (fst (wave_outputs w env plan wave ! i)) \<le> 2 * length (range_rows lit key rows (wave ! i))"
proof -
  have out: "\<exists>evs m. wave_outputs w env plan wave ! i = (evs, Inr m) \<and> event_docs evs = map doc_of (range_rows lit key rows (wave ! i)) \<and>
      length evs \<le> 2 * length (range_rows lit key rows (wave ! i))" if "i < length wave" for i
    using read_range_rows [OF assms(1) _ _ assms(2), of i "wave ! i"] that assms(3,4)
    by (auto simp: wave_outputs_def nth_enumerate_eq subset_iff)
  have len: "length (wave_outputs w env plan wave) = length wave" by (simp add: wave_outputs_def)
  show "list_all ready (wave_outputs w env plan wave)" using out by (fastforce simp: list_all_length len ready_def)
  show "map (\<lambda>out. event_docs (fst out)) (wave_outputs w env plan wave) = map (\<lambda>rng. map doc_of (range_rows lit key rows rng)) wave"
    using out by (intro nth_equalityI) (fastforce simp: len)+
  show "\<forall>i < length wave. length (fst (wave_outputs w env plan wave ! i)) \<le> 2 * length (range_rows lit key rows (wave ! i))"
    using out by fastforce
qed

lemma close_wave_ends:
  assumes "pe_written env" "\<forall>k doc. pe_store env k doc = Inr ()" "0 < ld_room st"
  shows "\<exists>st'. close_wave env resumable key bounds n st = (Inr (), st') \<and> ld_room st' = ld_room st - 1 \<and> sent_docs st' = sent_docs st"
proof -
  obtain mark marks where next_mark: "mark_next (ld_marks st) = (mark, marks)" by (cases "mark_next (ld_marks st)")
  show ?thesis
    using assms
    by (auto simp: close_wave_def next_mark send_or_def pg_store_def ld_bind_def record_effect_def sent_docs_def sent_rows_def List.map_filter_def)
qed

definition rows_left :: "(string \<Rightarrow> 'a :: linorder) \<Rightarrow> (bytes option list \<Rightarrow> 'a) \<Rightarrow> bytes option list list \<Rightarrow> key_range list \<Rightarrow> bytes option list list" where
  "rows_left lit key rows rngs = concat (map (range_rows lit key rows) rngs)"

lemma rows_left_append: "rows_left lit key rows (a @ b) = rows_left lit key rows a @ rows_left lit key rows b"
  by (simp add: rows_left_def)

lemma load_wave_reads:
  assumes serves: "pg_serves w cfg plan bounds lit key rows env" and reads: "list_all (row_reads w plan doc_of) rows"
    and wave: "wave = take (readers_of cfg) (drop start (ranges_from_bounds bounds))"
    and room: "2 * length (rows_left lit key rows wave) + 1 \<le> ld_room st"
  shows "\<exists>st'. load_wave w cfg env plan pkey bounds start st = (Some (Inr (start + length wave)), st') \<and>
    ld_room st - (2 * length (rows_left lit key rows wave) + 1) \<le> ld_room st' \<and>
    mset (sent_docs st') = mset (sent_docs st) + mset (map doc_of (rows_left lit key rows wave))"
proof -
  let ?outs = "wave_outputs w env plan wave"
  have wave': "length wave \<le> readers_of cfg" "set wave \<subseteq> set (ranges_from_bounds bounds)"
    using wave by (auto dest: in_set_takeD in_set_dropD)
  note outs = wave_outputs_rows [OF serves reads wave']
  have len: "length ?outs = length wave" by (simp add: wave_outputs_def)
  have fair: "\<forall>i < length ?outs. length (fst (?outs ! i)) \<le> count_list (pe_schedule env) i"
  proof (intro allI impI)
    fix i
    assume i: "i < length ?outs"
    then have "length (fst (?outs ! i)) \<le> 2 * length (range_rows lit key rows (wave ! i))" using outs(3) len by simp
    also have "\<dots> \<le> 2 * length rows" by (simp add: range_rows_def)
    also have "\<dots> \<le> count_list (pe_schedule env) i" using serves i len wave'(1) by (simp add: pg_serves_def)
    finally show "length (fst (?outs ! i)) \<le> count_list (pe_schedule env) i" .
  qed
  have "sum_list (map (\<lambda>out. length (fst out)) ?outs) \<le> sum_list (map (\<lambda>rng. 2 * length (range_rows lit key rows rng)) wave)"
    using outs(3) len by (intro sum_list_mono2) simp_all
  also have "\<dots> = 2 * length (rows_left lit key rows wave)"
    by (simp add: rows_left_def length_concat comp_def sum_list_const_mult)
  finally have sum: "sum_list (map (\<lambda>out. length (fst out)) ?outs) \<le> 2 * length (rows_left lit key rows wave)" .
  have docs: "concat (map (\<lambda>out. event_docs (fst out)) ?outs) = map doc_of (rows_left lit key rows wave)"
    by (simp add: outs(2) rows_left_def map_concat comp_def)
  have "sum_list (map (\<lambda>out. length (fst out)) ?outs) \<le> ld_room st" using sum room by linarith
  from run_wave_fair [OF fair outs(1) this] obtain n st1 where run: "run_wave (pe_schedule env) ?outs st = (Some (Inr n), st1)"
      "ld_room st1 = ld_room st - sum_list (map (\<lambda>out. length (fst out)) ?outs)"
      "mset (sent_docs st1) = mset (sent_docs st) + mset (map doc_of (rows_left lit key rows wave))"
    unfolding docs by blast
  have "0 < ld_room st1" using run(2) sum room by linarith
  moreover have "pe_written env" "\<forall>k doc. pe_store env k doc = Inr ()" using serves by (simp_all add: pg_serves_def)
  ultimately obtain st2 where close: "close_wave env (ls_resumable (plc_scope cfg)) pkey bounds (start + length wave) st1 = (Inr (), st2)"
      "ld_room st2 = ld_room st1 - 1" "sent_docs st2 = sent_docs st1"
    using close_wave_ends by blast
  have "load_wave w cfg env plan pkey bounds start st = (Some (Inr (start + length wave)), st2)"
    using serves run(1) close(1) by (simp add: load_wave_def pg_serves_def Let_def flip: wave)
  then show ?thesis using run close sum by (intro exI [of _ st2]) auto
qed

lemma load_waves_read:
  assumes reads: "list_all (row_reads w plan doc_of) rows"
  shows "list_all (pg_serves w cfg plan bounds lit key rows) envs \<Longrightarrow> envs \<noteq> [] \<Longrightarrow>
    length (ranges_from_bounds bounds) \<le> start + (length envs - 1) * readers_of cfg \<Longrightarrow>
    2 * length (rows_left lit key rows (drop start (ranges_from_bounds bounds))) + length envs \<le> ld_room st \<Longrightarrow>
    \<exists>rest st'. load_waves w cfg plan pkey bounds envs start st = (Some (Inr rest), st') \<and>
      mset (sent_docs st') = mset (sent_docs st) + mset (map doc_of (rows_left lit key rows (drop start (ranges_from_bounds bounds))))"
proof (induction envs arbitrary: start st)
  case (Cons env envs)
  let ?ranges = "ranges_from_bounds bounds"
  have serves: "pg_serves w cfg plan bounds lit key rows env" using Cons.prems(1) by simp
  show ?case
  proof (cases "length ?ranges \<le> start")
    case True
    have "\<forall>k doc. pe_store env k doc = Inr ()" using serves by (simp add: pg_serves_def)
    then show ?thesis
      using True by (simp add: pg_store_def sent_docs_effect rows_left_def split: sum.split)
  next
    case False
    define wave where "wave = take (readers_of cfg) (drop start ?ranges)"
    have later: "envs \<noteq> []" using Cons.prems(3) False by auto
    have workers: "0 < readers_of cfg" by (simp add: readers_of_def)
    have len: "length wave = min (readers_of cfg) (length ?ranges - start)" by (simp add: wave_def)
    have drops: "drop start ?ranges = wave @ drop (start + length wave) ?ranges"
      by (simp add: wave_def min_def drop_take flip: drop_drop) (metis append_take_drop_id drop_drop add.commute)
    then have left: "rows_left lit key rows (drop start ?ranges) = rows_left lit key rows wave @ rows_left lit key rows (drop (start + length wave) ?ranges)"
      by (metis rows_left_append)
    obtain st1 where st1: "load_wave w cfg env plan pkey bounds start st = (Some (Inr (start + length wave)), st1)"
        "ld_room st - (2 * length (rows_left lit key rows wave) + 1) \<le> ld_room st1"
        "mset (sent_docs st1) = mset (sent_docs st) + mset (map doc_of (rows_left lit key rows wave))"
      using load_wave_reads [OF serves reads wave_def, of st pkey] Cons.prems(4) left by auto
    have "length ?ranges \<le> start + length wave + (length envs - 1) * readers_of cfg"
    proof (cases "readers_of cfg \<le> length ?ranges - start")
      case True
      then have "length wave = readers_of cfg" by (simp add: len)
      moreover have "(length envs - 1) * readers_of cfg + readers_of cfg = length envs * readers_of cfg"
        using later by (cases envs) simp_all
      ultimately show ?thesis using Cons.prems(3) by simp
    next
      case False
      then show ?thesis by (simp add: len)
    qed
    moreover have "2 * length (rows_left lit key rows (drop (start + length wave) ?ranges)) + length envs \<le> ld_room st1"
      using st1(2) Cons.prems(4) left by simp
    ultimately obtain rest st' where "load_waves w cfg plan pkey bounds envs (start + length wave) st1 = (Some (Inr rest), st')"
        "mset (sent_docs st') = mset (sent_docs st1) + mset (map doc_of (rows_left lit key rows (drop (start + length wave) ?ranges)))"
      using Cons.IH [OF _ later, of "start + length wave" st1] Cons.prems(1) by auto
    then show ?thesis using False st1 left by simp
  qed
qed simp


text \<open>Two readers and a table of two rows, cut once, with the rows on both sides of the cut.\<close>

definition two_rows :: "bytes option list list" where
  "two_rows = [[Some ''1'', Some ''a''], [Some ''7'', Some ''b'']]"

definition two_key :: "bytes option list \<Rightarrow> nat" where
  "two_key row = (if row = [Some ''1'', Some ''a''] then 1 else 7)"

definition two_doc :: "bytes option list \<Rightarrow> json \<times> json" where
  "two_doc row =
     (let k = JNumber (NInt (int (two_key row)))
      in (JObject [(''body'', JString (if two_key row = 1 then ''a'' else ''b'')), (''id'', k)], k))"

definition two_readers :: "pg_load_world \<Rightarrow> pg_load_env" where
  "two_readers w = \<lparr>pe_columns = (\<lambda>_. Inr (rp_cols sample_plan)), pe_estimate = (\<lambda>_. Inr (F64_Fin 0)), pe_sample = (\<lambda>_ _ _. Inr []),
     pe_pressure = [Inr None],
     pe_readers = (\<lambda>_. \<lparr>rd_lsn = Inr ''0/5'', rd_copy = (\<lambda>sql.
       case List.find (\<lambda>rng. range_statement w sample_plan rng = sql) (ranges_from_bounds [''5'']) of
         Some rng \<Rightarrow> Inr (map (\<lambda>row. copy_line row @ [NEWLINE]) (range_rows (\<lambda>_. 5) two_key two_rows rng), None)
       | None \<Rightarrow> Inl ''unknown statement'')\<rparr>),
     pe_schedule = [0, 1, 1, 0, 0, 0, 1, 1], pe_written = True, pe_read = (\<lambda>_. Inr None), pe_store = (\<lambda>_ _. Inr ())\<rparr>"

definition two_config :: pg_load_config where
  "two_config = \<lparr>plc_workers = 2, plc_chunk_rows = 1, plc_slot = ''s'', plc_stream = \<lparr>source = ''postgres'', stream = ''s'', publication = ''p''\<rparr>,
     plc_scope = initial_load, plc_children = [], plc_aggregates = []\<rparr>"

lemma two_rows_read: "list_all (row_reads w sample_plan two_doc) two_rows"
proof -
  have line: "copy_fields (copy_line [Some ''1'', Some ''a'']) = [Some ''1'', Some ''a'']" "copy_fields (copy_line [Some ''7'', Some ''b'']) = [Some ''7'', Some ''b'']"
    "copy_line [Some ''1'', Some ''a''] \<noteq> []" "copy_line [Some ''7'', Some ''b''] \<noteq> []"
    by code_simp+
  have "convert ext base64 23 (Some ''1'') = Inr (JNumber (NInt 1))" "convert ext base64 23 (Some ''7'') = Inr (JNumber (NInt 7))"
      "convert ext base64 25 (Some ''a'') = Inr (JString ''a'')" "convert ext base64 25 (Some ''b'') = Inr (JString ''b'')" for ext base64
    by code_simp+
  then show ?thesis
    by (simp add: two_rows_def row_reads_def line line_change_def pg_build_change_def pg_row_values_def field_at_def sample_plan_def
        List.map_filter_simps bt_extend_def two_doc_def two_key_def Let_def)
qed

lemma two_statements: "range_statement w sample_plan \<lparr>kr_from = Some ''5'', kr_to = None\<rparr> \<noteq> range_statement w sample_plan \<lparr>kr_from = None, kr_to = Some ''5''\<rparr>"
proof -
  have "pg_quote_ident ''id'' = [CHR 0x22] @ ''id'' @ [CHR 0x22]" by code_simp
  then show ?thesis by (simp add: range_statement_def copy_statement_def sample_plan_def Let_def range_predicate_def)
qed

lemma two_serve: "pg_serves w two_config sample_plan [''5''] (\<lambda>_. 5) two_key two_rows (two_readers w)"
proof -
  have ranges: "ranges_from_bounds [''5''] = [\<lparr>kr_from = None, kr_to = Some ''5''\<rparr>, \<lparr>kr_from = Some ''5'', kr_to = None\<rparr>]"
    by (simp add: ranges_from_bounds_def)
  have turns: "i = 0 \<or> i = 1" if "i < readers_of two_config" for i using that by (auto simp: readers_of_def two_config_def)
  show ?thesis
    unfolding pg_serves_def ranges
    using turns two_statements [of w] two_statements [of w, symmetric]
    by (auto simp: two_readers_def ranges two_rows_def dest!: turns)
qed


end
