(* ===== verification/Poll_Source.thy ===== *)
theory Poll_Source
  imports Pg_Load
begin

section \<open>Polling (\<open>crates/source/src/poll.rs\<close>)\<close>

text \<open>
  A table without logical replication is asked in every cycle for the rows past its watermark, a page at a time, in the order of its poll
  column. The database answers as the environment of a cycle says; a poller whose environments run out is still polling. The
  connection is made by \<open>tls.rs\<close>, a parameter here. Strings compare by their bytes, as the code compares them.
\<close>

record poll_table =
  pt_qualified :: string
  pt_poll_column :: string
  pt_pk_columns :: "string list"
  pt_soft_delete :: "string option"

record poll_config =
  pl_tables :: "poll_table list"
  pl_interval_secs :: nat
  pl_page_size :: int

record polled_row =
  po_doc :: json
  po_watermark :: "string option"
  po_deleted :: "bool option"

record cycle_plan =
  cy_changes :: "row_change list"
  cy_watermark :: "string option"

subsection \<open>The statements\<close>

definition watermark_query :: "poll_table \<Rightarrow> string" where
  "watermark_query t = ''SELECT max('' @ pg_quote_ident (pt_poll_column t) @ '')::text FROM '' @ qualify (pt_qualified t)"

definition page_query :: "poll_table \<Rightarrow> bool \<Rightarrow> int \<Rightarrow> string" where
  "page_query t has_watermark page_size =
     (let col = pg_quote_ident (pt_poll_column t);
          flt = (if has_watermark then ''WHERE '' @ col @ ''::text > $1'' else []);
          deleted = unwrap_or ''false'' (pt_soft_delete t)
      in ''SELECT to_jsonb(t) - '' @ QUOTE @ ''pg2osync_deleted'' @ QUOTE @ '', t.'' @ col @ ''::text, t.pg2osync_deleted FROM (SELECT *, (''
         @ deleted @ '') AS pg2osync_deleted FROM '' @ qualify (pt_qualified t) @ '' '' @ flt @ '' ORDER BY '' @ col
         @ '' LIMIT '' @ show_int (max 1 page_size) @ '') t'')"

subsection \<open>What a page means\<close>

definition polled_pk :: "json \<Rightarrow> string list \<Rightarrow> json" where
  "polled_pk doc pk_columns =
     (case pk_columns of
        [] \<Rightarrow> JNull
      | [c] \<Rightarrow> unwrap_or JNull (json_get doc c)
      | _ \<Rightarrow> JObject (bt_extend [] (map (\<lambda>c. (c, unwrap_or JNull (json_get doc c))) pk_columns)))"

definition polled_change :: "poll_table \<Rightarrow> polled_row \<Rightarrow> row_change" where
  "polled_change t row =
     (case split_qualified (pt_qualified t) of (schema, tab) \<Rightarrow>
        (let pk = polled_pk (po_doc row) (pt_pk_columns t)
         in \<lparr>rc_schema = schema, rc_table = tab,
             rc_kind = (if unwrap_or False (po_deleted row) then Delete pk (Some (po_doc row)) else Insert pk (po_doc row)),
             rc_version = None\<rparr>))"

fun max_seen :: "string option \<Rightarrow> polled_row list \<Rightarrow> string option" where
  "max_seen m [] = m"
| "max_seen m (row # rows) =
     max_seen (case po_watermark row of
                 Some w \<Rightarrow> (case m of None \<Rightarrow> Some w | Some v \<Rightarrow> if v < w then Some w else m)
               | None \<Rightarrow> m) rows"

definition plan_cycle :: "poll_table \<Rightarrow> string option \<Rightarrow> polled_row list \<Rightarrow> cycle_plan" where
  "plan_cycle t last_mark page =
     (let m = max_seen last_mark page
      in \<lparr>cy_changes = map (polled_change t) page, cy_watermark = (if m = last_mark then None else m)\<rparr>)"

subsection \<open>The stream\<close>

datatype poll_effect =
    Queried string "string option"
  | Emitted change_event
  | Slept nat

record poll_state =
  ps_trace :: "poll_effect list"
  ps_room :: nat
  ps_watermarks :: "string \<rightharpoonup> string"

record poll_env =
  pn_shutdown :: bool
  pn_query :: "nat \<Rightarrow> string \<Rightarrow> string option \<Rightarrow> (string, polled_row list) result"

type_synonym 'a poll_step = "(source_error, 'a) result \<times> poll_state"

definition note_effect :: "poll_effect \<Rightarrow> poll_state \<Rightarrow> poll_state" where
  "note_effect ef st = st\<lparr>ps_trace := ps_trace st @ [ef]\<rparr>"

definition poll_send :: "change_event \<Rightarrow> poll_state \<Rightarrow> unit poll_step" where
  "poll_send ev st =
     (if ps_room st = 0 then (Inl ChannelClosed, st) else (Inr (), (note_effect (Emitted ev) st)\<lparr>ps_room := ps_room st - 1\<rparr>))"

fun send_changes :: "row_change list \<Rightarrow> poll_state \<Rightarrow> unit poll_step" where
  "send_changes [] st = (Inr (), st)"
| "send_changes (c # cs) st = (case poll_send (Row c) st of (Inl e, st) \<Rightarrow> (Inl e, st) | (Inr _, st) \<Rightarrow> send_changes cs st)"

fun start_watermarks :: "(nat \<Rightarrow> string \<Rightarrow> (string, string option) result) \<Rightarrow> nat \<Rightarrow> poll_table list \<Rightarrow> poll_state \<Rightarrow> unit poll_step" where
  "start_watermarks ask i [] st = (Inr (), st)"
| "start_watermarks ask i (t # ts) st =
     (let sql = watermark_query t; st = note_effect (Queried sql None) st
      in case ask i sql of
           Inl e \<Rightarrow> (Inl (Catalog (''poll column '' @ pt_qualified t @ ''.'' @ pt_poll_column t @ '' is not readable'')), st)
         | Inr wm \<Rightarrow> start_watermarks ask (Suc i) ts
             (case wm of Some w \<Rightarrow> st\<lparr>ps_watermarks := (ps_watermarks st)(pt_qualified t \<mapsto> w)\<rparr> | None \<Rightarrow> st))"

text \<open>One table of a cycle; the answer says whether a row was sent.\<close>

definition poll_one :: "poll_config \<Rightarrow> poll_env \<Rightarrow> nat \<Rightarrow> poll_table \<Rightarrow> poll_state \<Rightarrow> bool poll_step" where
  "poll_one cfg env i t st =
     (let last_mark = ps_watermarks st (pt_qualified t);
          sql = page_query t (last_mark \<noteq> None) (pl_page_size cfg);
          st = note_effect (Queried sql last_mark) st
      in case pn_query env i sql last_mark of
           Inl e \<Rightarrow> (Inl (Catalog (''poll query failed for '' @ pt_qualified t @ '' (needs column '' @ pt_poll_column t @ '')'')), st)
         | Inr page \<Rightarrow>
             (let cycle = plan_cycle t last_mark page
              in case send_changes (cy_changes cycle) st of
                   (Inl e, st) \<Rightarrow> (Inl e, st)
                 | (Inr _, st) \<Rightarrow>
                     (Inr (cy_changes cycle \<noteq> []),
                      case cy_watermark cycle of
                        Some m \<Rightarrow> st\<lparr>ps_watermarks := (ps_watermarks st)(pt_qualified t \<mapsto> m)\<rparr>
                      | None \<Rightarrow> st)))"

fun poll_tables :: "poll_config \<Rightarrow> poll_env \<Rightarrow> nat \<Rightarrow> poll_table list \<Rightarrow> bool \<Rightarrow> poll_state \<Rightarrow> bool poll_step" where
  "poll_tables cfg env i [] sent st = (Inr sent, st)"
| "poll_tables cfg env i (t # ts) sent st =
     (case poll_one cfg env i t st of
        (Inl e, st) \<Rightarrow> (Inl e, st)
      | (Inr any, st) \<Rightarrow> poll_tables cfg env (Suc i) ts (sent \<or> any) st)"

definition flush_boundary :: change_event where
  "flush_boundary = Transaction (Commit (Lsn 0) 0)"

definition poll_cycle :: "poll_config \<Rightarrow> poll_env \<Rightarrow> poll_state \<Rightarrow> unit poll_step" where
  "poll_cycle cfg env st =
     (case poll_tables cfg env 0 (pl_tables cfg) False st of
        (Inl e, st) \<Rightarrow> (Inl e, st)
      | (Inr sent, st) \<Rightarrow>
          (case (if sent then poll_send flush_boundary st else (Inr (), st)) of
             (Inl e, st) \<Rightarrow> (Inl e, st)
           | (Inr _, st) \<Rightarrow> (Inr (), note_effect (Slept (max 1 (pl_interval_secs cfg))) st)))"

fun poll_loop :: "poll_config \<Rightarrow> poll_env list \<Rightarrow> poll_state \<Rightarrow> (source_error, unit) result option \<times> poll_state" where
  "poll_loop cfg [] st = (None, st)"
| "poll_loop cfg (env # envs) st =
     (if pn_shutdown env then (Some (Inr ()), st)
      else case poll_cycle cfg env st of
             (Inl e, st) \<Rightarrow> (Some (Inl e), st)
           | (Inr _, st) \<Rightarrow> poll_loop cfg envs st)"

definition poll_stream :: "poll_config \<Rightarrow> (source_error, unit) result \<Rightarrow> (nat \<Rightarrow> string \<Rightarrow> (string, string option) result)
    \<Rightarrow> nat \<Rightarrow> poll_env list \<Rightarrow> (source_error, unit) result option \<times> poll_state" where
  "poll_stream cfg connected ask room envs =
     (let st = \<lparr>ps_trace = [], ps_room = room, ps_watermarks = Map.empty\<rparr>
      in case connected of
           Inl e \<Rightarrow> (Some (Inl e), st)
         | Inr _ \<Rightarrow>
             (case start_watermarks ask 0 (pl_tables cfg) st of
                (Inl e, st) \<Rightarrow> (Some (Inl e), st)
              | (Inr _, st) \<Rightarrow> poll_loop cfg envs st))"

end
