(* ===== verification/Poll_Facts.thy ===== *)
theory Poll_Facts
  imports Poll_Source
begin

section \<open>What polling finds, and what it loses\<close>

text \<open>
  A database that answers the page query from the rows of a table in the order of the poll column. While no two rows of a table share a
  value of it, a row that stays is sent within as many cycles as pages lie before it, whatever is written after it and whatever the
  other tables do. Where a page ends between two rows of one value, the second is never sent: the next page is asked strictly past
  the value.
\<close>

subsection \<open>Watermarks\<close>

definition past :: "string option \<Rightarrow> polled_row \<Rightarrow> bool" where
  "past m r \<longleftrightarrow> (case m of None \<Rightarrow> True | Some l \<Rightarrow> (case po_watermark r of Some w \<Rightarrow> l < w | None \<Rightarrow> False))"

definition page_limit :: "poll_config \<Rightarrow> nat" where
  "page_limit cfg = nat (max 1 (pl_page_size cfg))"

definition page_of :: "nat \<Rightarrow> string option \<Rightarrow> polled_row list \<Rightarrow> polled_row list" where
  "page_of limit m rows = take limit (filter (past m) rows)"

definition below :: "string \<Rightarrow> polled_row \<Rightarrow> bool" where
  "below w r \<longleftrightarrow> (case po_watermark r of Some v \<Rightarrow> v < w | None \<Rightarrow> False)"

definition ascending :: "polled_row list \<Rightarrow> bool" where
  "ascending rows \<longleftrightarrow> (\<forall>r \<in> set rows. po_watermark r \<noteq> None) \<and> sorted_wrt (\<lambda>r s. the (po_watermark r) < the (po_watermark s)) rows"

lemma page_limit_pos: "0 < page_limit cfg"
  by (simp add: page_limit_def)

text \<open>The mark after a page is the largest value seen, and never less than before.\<close>

lemma max_seen_raises: "m = Some l \<Longrightarrow> \<exists>u. max_seen m rows = Some u \<and> l \<le> u"
proof (induction m rows arbitrary: l rule: max_seen.induct)
  case (2 m row rows)
  let ?m = "case po_watermark row of Some w \<Rightarrow> (case m of None \<Rightarrow> Some w | Some v \<Rightarrow> if v < w then Some w else m) | None \<Rightarrow> m"
  have "\<exists>l'. ?m = Some l' \<and> l \<le> l'" using 2(2) by (auto split: option.split)
  then obtain l' where "?m = Some l'" "l \<le> l'" by blast
  then show ?case using "2.IH" [of l'] by (auto intro: order_trans)
qed simp

lemma max_seen_covers: "r \<in> set rows \<Longrightarrow> po_watermark r = Some w \<Longrightarrow> \<exists>u. max_seen m rows = Some u \<and> w \<le> u"
proof (induction m rows rule: max_seen.induct)
  case (2 m row rows)
  let ?m = "case po_watermark row of Some w \<Rightarrow> (case m of None \<Rightarrow> Some w | Some v \<Rightarrow> if v < w then Some w else m) | None \<Rightarrow> m"
  show ?case
  proof (cases "r = row")
    case True
    then have "\<exists>l. ?m = Some l \<and> w \<le> l" using 2(3) by (auto simp: not_less split: option.split)
    then obtain l where "?m = Some l" "w \<le> l" by blast
    then show ?thesis using max_seen_raises [of ?m l rows] by (auto intro: order_trans)
  next
    case False
    then show ?thesis using 2 by simp
  qed
qed simp

lemma max_seen_in: "max_seen m rows = m \<or> (\<exists>r \<in> set rows. max_seen m rows = po_watermark r)"
proof (induction m rows rule: max_seen.induct)
  case (2 m row rows)
  let ?m = "case po_watermark row of Some w \<Rightarrow> (case m of None \<Rightarrow> Some w | Some v \<Rightarrow> if v < w then Some w else m) | None \<Rightarrow> m"
  have "?m = m \<or> ?m = po_watermark row" by (auto split: option.splits)
  then show ?case using 2 by auto
qed simp

subsection \<open>One cycle\<close>

definition serves_tables :: "poll_config \<Rightarrow> (string \<Rightarrow> polled_row list) \<Rightarrow> poll_env \<Rightarrow> bool" where
  "serves_tables cfg db env \<longleftrightarrow> \<not> pn_shutdown env \<and>
     (\<forall>i < length (pl_tables cfg). \<forall>m. let t = pl_tables cfg ! i in
        pn_query env i (page_query t (m \<noteq> None) (pl_page_size cfg)) m = Inr (page_of (page_limit cfg) m (db (pt_qualified t))))"

definition emitted_rows :: "poll_state \<Rightarrow> row_change list" where
  "emitted_rows st = List.map_filter (\<lambda>ef. case ef of Emitted (Row c) \<Rightarrow> Some c | _ \<Rightarrow> None) (ps_trace st)"

lemma emitted_note:
  "emitted_rows (note_effect ef st) = emitted_rows st @ (case ef of Emitted (Row c) \<Rightarrow> [c] | _ \<Rightarrow> [])"
  by (auto simp: emitted_rows_def note_effect_def List.map_filter_def split: poll_effect.split change_event.split)

lemma emitted_simps [simp]:
  "emitted_rows (st\<lparr>ps_room := n\<rparr>) = emitted_rows st" "emitted_rows (st\<lparr>ps_watermarks := m\<rparr>) = emitted_rows st"
  by (simp_all add: emitted_rows_def)

lemma emitted_iff: "c \<in> set (emitted_rows st) \<longleftrightarrow> Emitted (Row c) \<in> set (ps_trace st)"
  by (force simp: emitted_rows_def List.map_filter_def split: poll_effect.splits change_event.splits)

lemma note_simps [simp]: "ps_room (note_effect ef st) = ps_room st" "ps_watermarks (note_effect ef st) = ps_watermarks st"
  by (simp_all add: note_effect_def)

lemma poll_send_room:
  assumes "0 < ps_room st"
  obtains st' where "poll_send ev st = (Inr (), st')" "ps_room st' = ps_room st - 1" "ps_watermarks st' = ps_watermarks st"
    "emitted_rows st' = emitted_rows st @ (case ev of Row c \<Rightarrow> [c] | _ \<Rightarrow> [])"
  using assms by (simp add: poll_send_def emitted_note split: change_event.split)

lemma send_changes_room:
  assumes "length cs \<le> ps_room st"
  shows "\<exists>st'. send_changes cs st = (Inr (), st') \<and> ps_room st' = ps_room st - length cs \<and> ps_watermarks st' = ps_watermarks st
    \<and> emitted_rows st' = emitted_rows st @ cs"
  using assms
proof (induction cs arbitrary: st)
  case (Cons c cs)
  obtain st1 where s: "poll_send (Row c) st = (Inr (), st1)" "ps_room st1 = ps_room st - 1" "ps_watermarks st1 = ps_watermarks st"
    "emitted_rows st1 = emitted_rows st @ [c]"
    using poll_send_room [of st "Row c"] Cons(2) by auto
  show ?case using Cons.IH [of st1] Cons(2) s by auto
qed simp

text \<open>A table asked: its page is sent and its mark becomes the largest value seen.\<close>

lemma poll_one_served:
  assumes "pn_query env i (page_query t (ps_watermarks st (pt_qualified t) \<noteq> None) (pl_page_size cfg)) (ps_watermarks st (pt_qualified t)) = Inr page"
    and "length page \<le> ps_room st"
  shows "\<exists>st'. poll_one cfg env i t st = (Inr (page \<noteq> []), st') \<and> ps_room st' = ps_room st - length page
    \<and> ps_watermarks st' = (ps_watermarks st)(pt_qualified t := max_seen (ps_watermarks st (pt_qualified t)) page)
    \<and> emitted_rows st' = emitted_rows st @ map (polled_change t) page"
proof -
  let ?m = "ps_watermarks st (pt_qualified t)"
  let ?st = "note_effect (Queried (page_query t (?m \<noteq> None) (pl_page_size cfg)) ?m) st"
  obtain st1 where s: "send_changes (map (polled_change t) page) ?st = (Inr (), st1)" "ps_room st1 = ps_room st - length page"
    "ps_watermarks st1 = ps_watermarks st" "emitted_rows st1 = emitted_rows st @ map (polled_change t) page"
    using send_changes_room [of "map (polled_change t) page" ?st] assms(2) by (auto simp: emitted_note)
  have mark: "max_seen ?m page = None \<Longrightarrow> ?m = None"
    using max_seen_raises [of ?m _ page] by (cases ?m) auto
  show ?thesis
  proof (cases "max_seen ?m page = ?m")
    case True
    then show ?thesis using s assms(1) by (simp add: poll_one_def plan_cycle_def Let_def fun_upd_idem)
  next
    case False
    then obtain u where "max_seen ?m page = Some u" using mark by (cases "max_seen ?m page") auto
    then show ?thesis using False s assms(1) by (simp add: poll_one_def plan_cycle_def Let_def)
  qed
qed

lemma poll_tables_served:
  assumes "\<And>j m. j < length ts \<Longrightarrow>
      pn_query env (i + j) (page_query (ts ! j) (m \<noteq> None) (pl_page_size cfg)) m = Inr (page_of L m (db (pt_qualified (ts ! j))))"
    and "distinct (map pt_qualified ts)" "length ts * L \<le> ps_room st"
  shows "\<exists>b st' zs. poll_tables cfg env i ts sent st = (Inr b, st') \<and> ps_room st \<le> ps_room st' + length ts * L
    \<and> emitted_rows st' = emitted_rows st @ zs
    \<and> (\<forall>q. q \<notin> pt_qualified ` set ts \<longrightarrow> ps_watermarks st' q = ps_watermarks st q)
    \<and> (\<forall>t \<in> set ts. let m = ps_watermarks st (pt_qualified t); page = page_of L m (db (pt_qualified t))
         in ps_watermarks st' (pt_qualified t) = max_seen m page \<and> polled_change t ` set page \<subseteq> set zs)"
  using assms
proof (induction ts arbitrary: i sent st)
  case (Cons t ts)
  let ?m = "ps_watermarks st (pt_qualified t)" let ?page = "page_of L ?m (db (pt_qualified t))"
  have page: "length ?page \<le> L" by (simp add: page_of_def)
  obtain st1 where s: "poll_one cfg env i t st = (Inr (?page \<noteq> []), st1)" "ps_room st1 = ps_room st - length ?page"
    "ps_watermarks st1 = (ps_watermarks st)(pt_qualified t := max_seen ?m ?page)"
    "emitted_rows st1 = emitted_rows st @ map (polled_change t) ?page"
    using poll_one_served [of env i t st cfg ?page] Cons.prems(1) [of 0 ?m] Cons.prems(3) page by auto
  have later: "pn_query env (Suc i + j) (page_query (ts ! j) (m \<noteq> None) (pl_page_size cfg)) m
      = Inr (page_of L m (db (pt_qualified (ts ! j))))" if "j < length ts" for j m
    using Cons.prems(1) [of "Suc j" m] that by simp
  have room: "length ts * L \<le> ps_room st1" using Cons.prems(3) s(2) page by simp
  obtain b st2 zs where r: "poll_tables cfg env (Suc i) ts (sent \<or> ?page \<noteq> []) st1 = (Inr b, st2)" "ps_room st1 \<le> ps_room st2 + length ts * L"
    "emitted_rows st2 = emitted_rows st1 @ zs"
    "\<forall>q. q \<notin> pt_qualified ` set ts \<longrightarrow> ps_watermarks st2 q = ps_watermarks st1 q"
    "\<forall>t \<in> set ts. let m = ps_watermarks st1 (pt_qualified t); page = page_of L m (db (pt_qualified t))
       in ps_watermarks st2 (pt_qualified t) = max_seen m page \<and> polled_change t ` set page \<subseteq> set zs"
    using Cons.IH [OF later _ room, of "sent \<or> ?page \<noteq> []"] Cons.prems(2) by auto
  have others: "ps_watermarks st1 (pt_qualified u) = ps_watermarks st (pt_qualified u)" if "u \<in> set ts" for u
    using imageI [OF that, of pt_qualified] Cons.prems(2) s(3) by auto
  have own: "ps_watermarks st2 (pt_qualified t) = max_seen ?m ?page" using r(4) s(3) Cons.prems(2) by auto
  have served: "\<forall>u \<in> set (t # ts). let m = ps_watermarks st (pt_qualified u); page = page_of L m (db (pt_qualified u))
       in ps_watermarks st2 (pt_qualified u) = max_seen m page \<and> polled_change u ` set page \<subseteq> set (map (polled_change t) ?page @ zs)"
    using own others r(5) by (simp add: Let_def le_supI2)
  have marks: "\<forall>q. q \<notin> pt_qualified ` set (t # ts) \<longrightarrow> ps_watermarks st2 q = ps_watermarks st q" using r(4) s(3) by simp
  have space: "ps_room st \<le> ps_room st2 + length (t # ts) * L" using r(2) s(2) page by simp
  have tables: "poll_tables cfg env i (t # ts) sent st = (Inr b, st2)" using s(1) r(1) by simp
  have rows: "emitted_rows st2 = emitted_rows st @ (map (polled_change t) ?page @ zs)" using s(4) r(3) by simp
  show ?case using tables space rows marks served by blast
qed simp

text \<open>A whole cycle of a database that answers.\<close>

definition cycled :: "poll_config \<Rightarrow> (string \<Rightarrow> polled_row list) \<Rightarrow> poll_state \<Rightarrow> poll_state \<Rightarrow> bool" where
  "cycled cfg db st st' \<longleftrightarrow> ps_room st \<le> ps_room st' + Suc (length (pl_tables cfg) * page_limit cfg)
     \<and> set (emitted_rows st) \<subseteq> set (emitted_rows st')
     \<and> (\<forall>t \<in> set (pl_tables cfg). let m = ps_watermarks st (pt_qualified t); page = page_of (page_limit cfg) m (db (pt_qualified t))
          in ps_watermarks st' (pt_qualified t) = max_seen m page \<and> polled_change t ` set page \<subseteq> set (emitted_rows st'))"

lemma poll_cycle_served:
  assumes "serves_tables cfg db env" "distinct (map pt_qualified (pl_tables cfg))"
    and "length (pl_tables cfg) * page_limit cfg < ps_room st"
  shows "\<exists>st'. poll_cycle cfg env st = (Inr (), st') \<and> cycled cfg db st st'"
proof -
  obtain b st1 zs where r: "poll_tables cfg env 0 (pl_tables cfg) False st = (Inr b, st1)"
    "ps_room st \<le> ps_room st1 + length (pl_tables cfg) * page_limit cfg" "emitted_rows st1 = emitted_rows st @ zs"
    "\<forall>t \<in> set (pl_tables cfg). let m = ps_watermarks st (pt_qualified t); page = page_of (page_limit cfg) m (db (pt_qualified t))
       in ps_watermarks st1 (pt_qualified t) = max_seen m page \<and> polled_change t ` set page \<subseteq> set zs"
    using poll_tables_served [of "pl_tables cfg" env 0 cfg "page_limit cfg" db st False] assms by (auto simp: serves_tables_def Let_def)
  have some_room: "0 < ps_room st1" using r(2) assms(3) by linarith
  obtain st2 where c: "poll_send flush_boundary st1 = (Inr (), st2)" "ps_room st2 = ps_room st1 - 1"
    "ps_watermarks st2 = ps_watermarks st1" "emitted_rows st2 = emitted_rows st1"
    using poll_send_room [OF some_room, of flush_boundary] by (auto simp: flush_boundary_def)
  let ?fin = "note_effect (Slept (max 1 (pl_interval_secs cfg))) (if b then st2 else st1)"
  have "cycled cfg db st ?fin"
    unfolding cycled_def using r(2-4) c(2-4) some_room by (auto simp: emitted_note Let_def)
  moreover have "poll_cycle cfg env st = (Inr (), ?fin)" using r(1) c(1) by (simp add: poll_cycle_def)
  ultimately show ?thesis by blast
qed

subsection \<open>A row that stays\<close>

lemma page_advances:
  assumes "ascending rows" "r \<in> set rows" "po_watermark r = Some w" "past m r" "0 < L"
    and early: "{s \<in> set rows. below w s} \<subseteq> early" "finite early"
    and missed: "r \<notin> set (page_of L m rows)"
  defines "m' \<equiv> max_seen m (page_of L m rows)"
  shows "past m' r" "card {s \<in> early. past m' s} + L \<le> card {s \<in> early. past m s}"
proof -
  let ?lt = "\<lambda>r s. the (po_watermark r) < the (po_watermark s)"
  let ?fs = "filter (past m) rows" let ?page = "page_of L m rows"
  have known: "\<forall>s \<in> set rows. po_watermark s \<noteq> None" using assms(1) by (simp add: ascending_def)
  have sorted: "sorted_wrt ?lt ?fs" using assms(1) by (simp add: ascending_def sorted_wrt_filter)
  have "r \<in> set ?fs" using assms(2,4) by simp
  then have later: "r \<in> set (drop L ?fs)" using missed by (metis Un_iff append_take_drop_id page_of_def set_append)
  have "sorted_wrt ?lt (take L ?fs @ drop L ?fs)" using sorted by simp
  then have before: "?lt s r" if "s \<in> set ?page" for s
    using that later unfolding sorted_wrt_append page_of_def by blast
  have sub: "set ?page \<subseteq> set ?fs" unfolding page_of_def by (rule set_take_subset)
  have below: "below w s" "past m s" "s \<in> set rows" if "s \<in> set ?page" for s
    using before [OF that] sub that known assms(3) by (auto simp: below_def split: option.split)
  have "sorted_wrt ?lt xs \<Longrightarrow> distinct xs" for xs by (induction xs) auto
  then have "distinct ?fs" using sorted by blast
  then have "distinct ?page" by (simp add: page_of_def)
  moreover have "length ?page = L" using later by (cases "L \<le> length ?fs") (simp_all add: page_of_def)
  ultimately have card: "card (set ?page) = L" by (simp add: distinct_card)
  show "past m' r"
  proof (cases "m' = m")
    case False
    then obtain s where s: "s \<in> set ?page" "m' = po_watermark s" using max_seen_in [of m ?page] by (auto simp: m'_def)
    then obtain v where "po_watermark s = Some v" "v < w" using below(1) [OF s(1)] by (auto simp: below_def split: option.splits)
    then show ?thesis using s(2) assms(3) by (simp add: past_def)
  qed (use assms(4) in simp)
  have behind: "\<not> past m' s" if s: "s \<in> set ?page" for s
  proof -
    obtain v where "po_watermark s = Some v" using below(3) [OF s] known by auto
    then show ?thesis using max_seen_covers [OF s, of v m] by (auto simp: m'_def past_def)
  qed
  have kept: "past m s" if "past m' s" for s
    using that max_seen_raises [of m _ ?page] by (cases m) (auto simp: m'_def past_def split: option.splits)
  have "{s \<in> early. past m' s} \<union> set ?page \<subseteq> {s \<in> early. past m s}" using kept below early(1) by auto
  moreover have "{s \<in> early. past m' s} \<inter> set ?page = {}" using behind by auto
  ultimately show "card {s \<in> early. past m' s} + L \<le> card {s \<in> early. past m s}"
    using card_Un_disjoint [of "{s \<in> early. past m' s}" "set ?page"] card early(2)
      card_mono [of "{s \<in> early. past m s}" "{s \<in> early. past m' s} \<union> set ?page"] by simp
qed

text \<open>Running through cycles: nothing sent is taken back, and while the channel has room every cycle ends.\<close>

lemma poll_loop_served:
  assumes "list_all2 (serves_tables cfg) dbs envs" "distinct (map pt_qualified (pl_tables cfg))"
    and "length envs * Suc (length (pl_tables cfg) * page_limit cfg) \<le> ps_room st"
  shows "\<exists>st'. poll_loop cfg envs st = (None, st') \<and> set (emitted_rows st) \<subseteq> set (emitted_rows st')"
  using assms(1,3)
proof (induction dbs envs arbitrary: st rule: list_all2_induct)
  case (Cons db dbs env envs)
  have "length (pl_tables cfg) * page_limit cfg < ps_room st" using Cons.prems by simp
  then obtain st1 where p: "poll_cycle cfg env st = (Inr (), st1)" and "cycled cfg db st st1"
    using poll_cycle_served [OF Cons(1) assms(2)] by blast
  then have c: "ps_room st \<le> ps_room st1 + Suc (length (pl_tables cfg) * page_limit cfg)" "set (emitted_rows st) \<subseteq> set (emitted_rows st1)"
    by (simp_all add: cycled_def)
  have "length envs * Suc (length (pl_tables cfg) * page_limit cfg) \<le> ps_room st1" using c(1) Cons.prems by simp
  then obtain st' where "poll_loop cfg envs st1 = (None, st')" "set (emitted_rows st1) \<subseteq> set (emitted_rows st')" using Cons.IH by blast
  moreover have "poll_loop cfg (env # envs) st = poll_loop cfg envs st1" using p Cons(1) by (simp add: serves_tables_def)
  ultimately show ?case using c(2) by auto
qed simp

lemma standing_row_sent:
  assumes "list_all2 (serves_tables cfg) dbs envs" "distinct (map pt_qualified (pl_tables cfg))" "t \<in> set (pl_tables cfg)"
    and "length envs * Suc (length (pl_tables cfg) * page_limit cfg) \<le> ps_room st"
    and "\<And>db. db \<in> set dbs \<Longrightarrow> ascending (db (pt_qualified t)) \<and> r \<in> set (db (pt_qualified t))
           \<and> {s \<in> set (db (pt_qualified t)). below w s} \<subseteq> early"
    and "finite early" "po_watermark r = Some w" "past (ps_watermarks st (pt_qualified t)) r"
    and "card {s \<in> early. past (ps_watermarks st (pt_qualified t)) s} < length envs * page_limit cfg"
  shows "\<exists>st'. poll_loop cfg envs st = (None, st') \<and> polled_change t r \<in> set (emitted_rows st')"
  using assms(1,4,5,8,9)
proof (induction dbs envs arbitrary: st rule: list_all2_induct)
  case (Cons db dbs env envs)
  let ?m = "ps_watermarks st (pt_qualified t)" let ?page = "page_of (page_limit cfg) ?m (db (pt_qualified t))"
  have "length (pl_tables cfg) * page_limit cfg < ps_room st" using Cons.prems(1) by simp
  then obtain st1 where c: "poll_cycle cfg env st = (Inr (), st1)" "cycled cfg db st st1"
    using poll_cycle_served [OF Cons(1) assms(2)] by blast
  have row: "ps_watermarks st1 (pt_qualified t) = max_seen ?m ?page" "polled_change t ` set ?page \<subseteq> set (emitted_rows st1)"
    using c(2) assms(3) unfolding cycled_def Let_def by blast+
  have room: "length envs * Suc (length (pl_tables cfg) * page_limit cfg) \<le> ps_room st1"
    using c(2) Cons.prems(1) unfolding cycled_def by simp
  have loop: "poll_loop cfg (env # envs) st = poll_loop cfg envs st1" using c(1) Cons(1) by (simp add: serves_tables_def)
  show ?case
  proof (cases "r \<in> set ?page")
    case True
    then have "polled_change t r \<in> set (emitted_rows st1)" using row(2) by blast
    then show ?thesis using poll_loop_served [OF Cons(2) assms(2) room] unfolding loop by blast
  next
    case False
    have db: "ascending (db (pt_qualified t))" "r \<in> set (db (pt_qualified t))" "{s \<in> set (db (pt_qualified t)). below w s} \<subseteq> early"
      using Cons.prems(2) [of db] by simp_all
    have "past (ps_watermarks st1 (pt_qualified t)) r"
      "card {s \<in> early. past (ps_watermarks st1 (pt_qualified t)) s} < length envs * page_limit cfg"
      using page_advances [OF db(1,2) assms(7) Cons.prems(3) page_limit_pos db(3) assms(6) False] Cons.prems(4) row(1) by simp_all
    then show ?thesis unfolding loop using Cons.prems(2) by (intro Cons.IH [OF room]) simp_all
  qed
qed simp


subsection \<open>A page that ends between two rows of one value\<close>

text \<open>What a step can have sent, however it ends.\<close>

lemma send_changes_bounded:
  "set (emitted_rows (snd (send_changes cs st))) \<subseteq> set (emitted_rows st) \<union> set cs
   \<and> ps_watermarks (snd (send_changes cs st)) = ps_watermarks st"
proof (induction cs arbitrary: st)
  case (Cons c cs)
  show ?case
  proof (cases "ps_room st = 0")
    case False
    then obtain st1 where "poll_send (Row c) st = (Inr (), st1)" "ps_watermarks st1 = ps_watermarks st"
      "emitted_rows st1 = emitted_rows st @ [c]"
      using poll_send_room [of st "Row c"] by auto
    then show ?thesis using Cons.IH [of st1] by auto
  qed (auto simp: poll_send_def)
qed simp

lemma poll_one_bounded:
  fixes t :: poll_table and st :: poll_state
  defines "m \<equiv> ps_watermarks st (pt_qualified t)"
  assumes answer: "pn_query env i (page_query t (m \<noteq> None) (pl_page_size cfg)) m = Inr page"
    and p: "poll_one cfg env i t st = (res, st')"
  shows "set (emitted_rows st') \<subseteq> set (emitted_rows st) \<union> polled_change t ` set page"
    and "\<And>b. res = Inr b \<Longrightarrow> ps_watermarks st' (pt_qualified t) = max_seen m page"
proof -
  let ?st = "note_effect (Queried (page_query t (m \<noteq> None) (pl_page_size cfg)) m) st"
  obtain r1 st1 where s: "send_changes (map (polled_change t) page) ?st = (r1, st1)" by fastforce
  have b: "set (emitted_rows st1) \<subseteq> set (emitted_rows st) \<union> polled_change t ` set page" "ps_watermarks st1 = ps_watermarks st"
    using send_changes_bounded [of "map (polled_change t) page" ?st] s by (simp_all add: emitted_note)
  have one: "poll_one cfg env i t st = (case r1 of Inl e \<Rightarrow> (Inl e, st1)
      | Inr _ \<Rightarrow> (Inr (page \<noteq> []), case cy_watermark (plan_cycle t m page) of
          Some u \<Rightarrow> st1\<lparr>ps_watermarks := (ps_watermarks st1)(pt_qualified t \<mapsto> u)\<rparr> | None \<Rightarrow> st1))"
    using answer s by (simp add: poll_one_def m_def [symmetric] plan_cycle_def Let_def split: sum.split)
  show "set (emitted_rows st') \<subseteq> set (emitted_rows st) \<union> polled_change t ` set page"
    using p b(1) unfolding one by (auto split: sum.splits option.splits)
  have mark: "max_seen m page = None \<Longrightarrow> m = None"
    using max_seen_raises [of m _ page] by (cases m) auto
  show "ps_watermarks st' (pt_qualified t) = max_seen m page" if "res = Inr b" for b
    using p b(2) that mark unfolding one
    by (auto simp: plan_cycle_def Let_def m_def split: sum.splits option.splits if_splits)
qed

lemma poll_cycle_bounded:
  fixes t :: poll_table and st :: poll_state
  defines "m \<equiv> ps_watermarks st (pt_qualified t)"
  assumes "pl_tables cfg = [t]" "pn_query env 0 (page_query t (m \<noteq> None) (pl_page_size cfg)) m = Inr page"
    and p: "poll_cycle cfg env st = (res, st')"
  shows "set (emitted_rows st') \<subseteq> set (emitted_rows st) \<union> polled_change t ` set page"
    and "\<And>b. res = Inr b \<Longrightarrow> ps_watermarks st' (pt_qualified t) = max_seen m page"
proof -
  obtain r1 st1 where one: "poll_one cfg env 0 t st = (r1, st1)" by fastforce
  have b: "set (emitted_rows st1) \<subseteq> set (emitted_rows st) \<union> polled_change t ` set page"
    "\<And>b. r1 = Inr b \<Longrightarrow> ps_watermarks st1 (pt_qualified t) = max_seen m page"
    using poll_one_bounded [OF _ one] assms(3) unfolding m_def by blast+
  show "set (emitted_rows st') \<subseteq> set (emitted_rows st) \<union> polled_change t ` set page"
    using p one b(1) assms(2)
    by (auto simp: poll_cycle_def poll_send_def flush_boundary_def emitted_note split: sum.splits if_splits)
  show "ps_watermarks st' (pt_qualified t) = max_seen m page" if "res = Inr b" for b
    using p one b(2) assms(2) that
    by (auto simp: poll_cycle_def poll_send_def flush_boundary_def split: sum.splits if_splits)
qed

text \<open>A change that no row past the mark makes is not sent any more.\<close>

lemma passed_rows_stay_unsent:
  assumes "pl_tables cfg = [t]" "\<forall>env \<in> set envs. serves_tables cfg (\<lambda>_. rows) env"
    and "c \<notin> polled_change t ` {s \<in> set rows. past (ps_watermarks st (pt_qualified t)) s}" "c \<notin> set (emitted_rows st)"
  shows "c \<notin> set (emitted_rows (snd (poll_loop cfg envs st)))"
  using assms(2-4)
proof (induction envs arbitrary: st)
  case (Cons env envs)
  let ?m = "ps_watermarks st (pt_qualified t)" let ?page = "page_of (page_limit cfg) ?m rows"
  have answer: "pn_query env 0 (page_query t (?m \<noteq> None) (pl_page_size cfg)) ?m = Inr ?page" and on: "\<not> pn_shutdown env"
    using Cons.prems(1) assms(1) by (auto simp: serves_tables_def)
  obtain res st1 where p: "poll_cycle cfg env st = (res, st1)" by fastforce
  have "set ?page \<subseteq> {s \<in> set rows. past ?m s}" unfolding page_of_def using set_take_subset [of _ "filter (past ?m) rows"] by simp
  then have out: "c \<notin> set (emitted_rows st1)"
    using poll_cycle_bounded(1) [OF assms(1) answer p] Cons.prems(2,3) by blast
  show ?case
  proof (cases res)
    case (Inr b)
    have "past (max_seen ?m ?page) s \<Longrightarrow> past ?m s" for s
      using max_seen_raises [of ?m _ ?page] by (cases ?m) (auto simp: past_def split: option.splits)
    then have "c \<notin> polled_change t ` {s \<in> set rows. past (ps_watermarks st1 (pt_qualified t)) s}"
      using Cons.prems(2) poll_cycle_bounded(2) [OF assms(1) answer p Inr] by auto
    then show ?thesis using Cons.IH [of st1] Cons.prems(1) out p Inr on by simp
  qed (use out p on in simp)
qed simp


subsection \<open>Two users of one instant\<close>

definition polled_users :: poll_table where
  "polled_users = \<lparr>pt_qualified = ''public.users'', pt_poll_column = ''at'', pt_pk_columns = [''id''], pt_soft_delete = None\<rparr>"

definition user_at :: "int \<Rightarrow> string \<Rightarrow> polled_row" where
  "user_at i at = \<lparr>po_doc = JObject [(''at'', JString at), (''id'', JNumber (NInt i))], po_watermark = Some at, po_deleted = Some False\<rparr>"

definition users_config :: "int \<Rightarrow> poll_config" where
  "users_config n = \<lparr>pl_tables = [polled_users], pl_interval_secs = 5, pl_page_size = n\<rparr>"

definition users_env :: "int \<Rightarrow> polled_row list \<Rightarrow> poll_env" where
  "users_env n rows = \<lparr>pn_shutdown = False, pn_query = (\<lambda>_ _ m. Inr (page_of (page_limit (users_config n)) m rows))\<rparr>"

definition fresh_state :: "nat \<Rightarrow> poll_state" where
  "fresh_state room = \<lparr>ps_trace = [], ps_room = room, ps_watermarks = Map.empty\<rparr>"

lemma users_served: "serves_tables (users_config n) (\<lambda>_. rows) (users_env n rows)"
  by (simp add: serves_tables_def users_env_def Let_def)

lemma users_parts [simp]:
  "pl_tables (users_config n) = [polled_users]" "page_limit (users_config 1) = 1" "po_watermark (user_at i at) = Some at"
  "ps_watermarks (fresh_state room) q = None" "ps_trace (fresh_state room) = []" "ps_room (fresh_state room) = room"
  by (simp_all add: users_config_def page_limit_def user_at_def fresh_state_def)



end
